(* ===== verification/Prelude.thy ===== *)
theory Prelude
  imports Main "HOL-Library.Word" "HOL-Library.Signed_Division"
begin

text \<open>
  Shared vocabulary of the development: the fact collections that the component theories
  extend, the C notions that several components need (truncating division, the range of the
  signed integer types, the error codes of \<^verbatim>\<open>errno.h\<close>, NUL-terminated strings read by
  index) and generic facts about lists, options and arithmetic.
\<close>

named_theorems c_arith \<open>facts about C integer arithmetic\<close>

named_theorems cstr_simps \<open>reading NUL-terminated strings by index\<close>

section \<open>C integers\<close>

text \<open>
  Signed integers whose overflow is undefined in C are modelled as \<^typ>\<open>int\<close>; the
  predicates below say that a value is representable at its width.
\<close>

definition in_i64 :: "int \<Rightarrow> bool" where
  "in_i64 x \<longleftrightarrow> - (2 ^ 63) \<le> x \<and> x < 2 ^ 63"

definition in_i32 :: "int \<Rightarrow> bool" where
  "in_i32 x \<longleftrightarrow> - (2 ^ 31) \<le> x \<and> x < 2 ^ 31"

definition INT64_MAX :: int where
  "INT64_MAX = 2 ^ 63 - 1"

definition INT_MAX :: int where
  "INT_MAX = 2 ^ 31 - 1"

definition INT_MIN :: int where
  "INT_MIN = - (2 ^ 31)"

definition UINT_MAX :: int where
  "UINT_MAX = 2 ^ 32 - 1"

text \<open>
  C's \<open>/\<close> and \<open>%\<close> truncate towards zero: they are \<open>sdiv\<close> and \<open>smod\<close> of the library.
\<close>

lemma sdiv_smod_eq [c_arith]: "(a sdiv b) * b + a smod b = (a :: int)"
  by (fact sdiv_mult_smod_eq)

lemma smod_abs_less [c_arith]: "b \<noteq> 0 \<Longrightarrow> \<bar>a smod b\<bar> < \<bar>b :: int\<bar>"
  by (cases "a = 0") (simp_all add: signed_modulo_int_def abs_mult)

lemma smod_pos_bounds [c_arith]:
  "0 < b \<Longrightarrow> - b < a smod b \<and> a smod b < (b :: int)"
  using smod_abs_less [of b a] by linarith

lemma sdiv_nonneg [c_arith]: "0 \<le> a \<Longrightarrow> 0 < b \<Longrightarrow> a sdiv b = (a :: int) div b"
  by (cases "a = 0") (simp_all add: signed_divide_int_def)

lemma sdiv_mono_pos [c_arith]: "a \<le> a' \<Longrightarrow> 0 < b \<Longrightarrow> a sdiv b \<le> a' sdiv (b :: int)"
proof -
  assume le: "a \<le> a'" and b: "0 < b"
  have 1: "a sdiv b * b + a smod b = a" "a' sdiv b * b + a' smod b = a'"
    by (simp_all add: sdiv_smod_eq)
  show ?thesis
  proof (cases "0 \<le> a")
    case True
    with le b show ?thesis by (simp add: sdiv_nonneg zdiv_mono1)
  next
    case neg: False
    then have na: "a sdiv b = - ((- a) div b)"
      using b by (simp add: signed_divide_int_def)
    show ?thesis
    proof (cases "0 \<le> a'")
      case True
      then have "0 \<le> a' sdiv b" using b by (simp add: sdiv_nonneg pos_imp_zdiv_nonneg_iff)
      moreover have "0 \<le> (- a) div b" using neg b by (simp add: pos_imp_zdiv_nonneg_iff)
      ultimately show ?thesis using na by linarith
    next
      case False
      then have "a' sdiv b = - ((- a') div b)"
        using b by (simp add: signed_divide_int_def)
      moreover have "(- a') div b \<le> (- a) div b" using le b by (simp add: zdiv_mono1)
      ultimately show ?thesis using na by linarith
    qed
  qed
qed

section \<open>Error codes\<close>

text \<open>The values of \<^verbatim>\<open>errno.h\<close> the modelled code raises or tests.\<close>

datatype errcode =
    EINVAL | ERANGE | EBUSY | ETIMEDOUT | EOWNERDEAD | ENOTRECOVERABLE
  | ENOMEM | ENOENT | EPERM | EOVERFLOW | EDEADLK | EBADF | EIO | EACCES | ECHILD | EEXIST | EMFILE
  | ENOEXEC | EPIPE | EXDEV | EISDIR | ENOSPC | ENOTSUP | ENETDOWN | ENETUNREACH | ENOSYS | EINPROGRESS
  | ECONNRESET | EFAULT | EMSGSIZE | ENOBUFS | EISCONN | ENOTCONN | ENOTSOCK | ECONNREFUSED
  | EDESTADDRREQ | EADDRINUSE | EADDRNOTAVAIL | EOPNOTSUPP | EINTR | ENOPROTOOPT | EAFNOSUPPORT
  | EPROTOTYPE | EPROTONOSUPPORT | EILSEQ | OtherErr int

text \<open>A returned error code: \<^const>\<open>None\<close> is 0, success.\<close>

type_synonym retcode = "errcode option"

section \<open>NUL-terminated strings\<close>

text \<open>
  A C string is the list of its characters before the terminating NUL. Reading index
  \<open>i\<close> of the array gives the terminator at \<open>i = strlen s\<close>; reading past it is out of
  bounds, and \<open>cstr_at\<close> is \<^const>\<open>None\<close> there.
\<close>

abbreviation NUL :: char where
  "NUL \<equiv> CHR 0x00"

definition no_nul :: "string \<Rightarrow> bool" where
  "no_nul s \<longleftrightarrow> NUL \<notin> set s"

definition cstr_at :: "string \<Rightarrow> nat \<Rightarrow> char option" where
  "cstr_at s i = (if i < length s then Some (s ! i) else if i = length s then Some NUL else None)"

definition cstr_char :: "string \<Rightarrow> nat \<Rightarrow> char" where
  "cstr_char s i = (if i < length s then s ! i else NUL)"

lemma cstr_at_char [cstr_simps]: "i \<le> length s \<Longrightarrow> cstr_at s i = Some (cstr_char s i)"
  by (auto simp: cstr_at_def cstr_char_def)

lemma cstr_char_Nil [cstr_simps, simp]: "cstr_char [] i = NUL"
  by (simp add: cstr_char_def)

lemma cstr_char_Cons_0 [cstr_simps, simp]: "cstr_char (c # s) 0 = c"
  by (simp add: cstr_char_def)

lemma cstr_char_Cons_Suc [cstr_simps, simp]: "cstr_char (c # s) (Suc i) = cstr_char s i"
  by (simp add: cstr_char_def)

lemma cstr_char_eq_nul_iff [cstr_simps]:
  "no_nul s \<Longrightarrow> cstr_char s i = NUL \<longleftrightarrow> length s \<le> i"
  by (auto simp: cstr_char_def no_nul_def dest: nth_mem)

lemma no_nul_Nil [simp]: "no_nul []"
  by (simp add: no_nul_def)

lemma no_nul_Cons [simp]: "no_nul (c # s) \<longleftrightarrow> c \<noteq> NUL \<and> no_nul s"
  by (auto simp: no_nul_def)

lemma no_nul_append [simp]: "no_nul (s @ t) \<longleftrightarrow> no_nul s \<and> no_nul t"
  by (auto simp: no_nul_def)

lemma no_nul_drop [intro]: "no_nul s \<Longrightarrow> no_nul (drop n s)"
  by (auto simp: no_nul_def dest: in_set_dropD)

lemma no_nul_take [intro]: "no_nul s \<Longrightarrow> no_nul (take n s)"
  by (auto simp: no_nul_def dest: in_set_takeD)

section \<open>Decimal notation\<close>

text \<open>What \<open>printf\<close> writes for \<open>%i\<close> and \<open>%li\<close>.\<close>

fun dec_nat :: "nat \<Rightarrow> string" where
  "dec_nat n = (if n < 10 then [char_of (48 + n)] else dec_nat (n div 10) @ [char_of (48 + n mod 10)])"

declare dec_nat.simps [simp del]

definition dec_int :: "int \<Rightarrow> string" where
  "dec_int i = (if i < 0 then CHR ''-'' # dec_nat (nat (- i)) else dec_nat (nat i))"

lemma dec_nat_nonempty [simp]: "dec_nat n \<noteq> []"
  by (subst dec_nat.simps) simp

lemma length_dec_nat: "n < 10 ^ Suc k \<Longrightarrow> length (dec_nat n) \<le> Suc k"
proof (induction k arbitrary: n)
  case 0
  then show ?case by (subst dec_nat.simps) simp
next
  case (Suc k)
  then have "n div 10 < 10 ^ Suc k" by (auto simp: less_mult_imp_div_less)
  from Suc.IH [OF this] show ?case by (subst dec_nat.simps) simp
qed

section \<open>Association lists\<close>

lemma map_of_filter_neq: "map_of (filter (\<lambda>(a, _). a \<noteq> k) xs) = (map_of xs)(k := None)"
  by (induction xs) (auto simp: fun_eq_iff)

text \<open>A key above all others is new.\<close>

lemma foldr_max: "x \<in> set xs \<Longrightarrow> x \<le> foldr max xs (b :: int)" "b \<le> foldr max xs b"
  by (induction xs) (auto simp: le_max_iff_disj)

lemma foldr_max_le: "\<forall>x \<in> set xs. x \<le> c \<Longrightarrow> b \<le> c \<Longrightarrow> foldr max xs (b :: int) \<le> c"
  by (induction xs) auto

lemma map_of_above_max:
  assumes "foldr max (map fst xs) b < (k :: int)"
  shows "map_of xs k = None"
proof -
  have "k \<notin> set (map fst xs)" using foldr_max(1) [of k "map fst xs" b] assms by auto
  then show ?thesis by (simp add: map_of_eq_None_iff)
qed

end
