(* ===== verification/Timespec.thy ===== *)
theory Timespec
  imports Prelude
begin

text \<open>
  The time helpers of \<^verbatim>\<open>src/src/mmtime.h\<close> and the relative sleeps of \<^verbatim>\<open>src/src/time.c\<close>:
  a timestamp in seconds and nanoseconds, differences in three units and additions of an offset
  in three units, with the C division that truncates towards zero.
\<close>

section \<open>Timestamps and unit constants\<close>

definition NS_IN_SEC :: int where
  "NS_IN_SEC = 1000000000"

definition US_IN_SEC :: int where
  "US_IN_SEC = 1000000"

definition MS_IN_SEC :: int where
  "MS_IN_SEC = 1000"

lemmas unit_defs = NS_IN_SEC_def US_IN_SEC_def MS_IN_SEC_def

text \<open>The identifiers of the clocks, as \<^verbatim>\<open>mmtime.h\<close> defines them on Windows.\<close>

definition MM_CLK_REALTIME :: int where "MM_CLK_REALTIME = 0"
definition MM_CLK_MONOTONIC :: int where "MM_CLK_MONOTONIC = 1"
definition MM_CLK_CPU_PROCESS :: int where "MM_CLK_CPU_PROCESS = 2"
definition MM_CLK_CPU_THREAD :: int where "MM_CLK_CPU_THREAD = 3"
definition MM_CLK_MONOTONIC_RAW :: int where "MM_CLK_MONOTONIC_RAW = 4"

lemmas clk_ids = MM_CLK_REALTIME_def MM_CLK_MONOTONIC_def MM_CLK_CPU_PROCESS_def MM_CLK_CPU_THREAD_def MM_CLK_MONOTONIC_RAW_def

record mm_timespec =
  tv_sec :: int
  tv_nsec :: int

section \<open>Operations\<close>

definition mm_timediff_ns :: "mm_timespec \<Rightarrow> mm_timespec \<Rightarrow> int" where
  "mm_timediff_ns ts orig =
     (let dt = (tv_sec ts - tv_sec orig) * NS_IN_SEC
      in dt + (tv_nsec ts - tv_nsec orig))"

definition mm_timediff_us :: "mm_timespec \<Rightarrow> mm_timespec \<Rightarrow> int" where
  "mm_timediff_us ts orig =
     (let dt = (tv_sec ts - tv_sec orig) * US_IN_SEC
      in dt + (tv_nsec ts - tv_nsec orig) sdiv (NS_IN_SEC sdiv US_IN_SEC))"

definition mm_timediff_ms :: "mm_timespec \<Rightarrow> mm_timespec \<Rightarrow> int" where
  "mm_timediff_ms ts orig =
     (let dt = (tv_sec ts - tv_sec orig) * MS_IN_SEC
      in dt + (tv_nsec ts - tv_nsec orig) sdiv (NS_IN_SEC sdiv MS_IN_SEC))"

text \<open>The carry step that the three additions share, lines for line.\<close>

definition carry_nsec :: "mm_timespec \<Rightarrow> mm_timespec" where
  "carry_nsec ts =
     (if tv_nsec ts \<ge> NS_IN_SEC
      then ts\<lparr>tv_nsec := tv_nsec ts - NS_IN_SEC, tv_sec := tv_sec ts + 1\<rparr>
      else if tv_nsec ts < 0
      then ts\<lparr>tv_nsec := tv_nsec ts + NS_IN_SEC, tv_sec := tv_sec ts - 1\<rparr>
      else ts)"

definition mm_timeadd_ns :: "mm_timespec \<Rightarrow> int \<Rightarrow> mm_timespec" where
  "mm_timeadd_ns ts dt =
     carry_nsec (ts\<lparr>tv_sec := tv_sec ts + dt sdiv NS_IN_SEC,
                    tv_nsec := tv_nsec ts + dt smod NS_IN_SEC\<rparr>)"

definition mm_timeadd_us :: "mm_timespec \<Rightarrow> int \<Rightarrow> mm_timespec" where
  "mm_timeadd_us ts dt =
     carry_nsec (ts\<lparr>tv_sec := tv_sec ts + dt sdiv US_IN_SEC,
                    tv_nsec := tv_nsec ts + (dt smod US_IN_SEC) * (NS_IN_SEC sdiv US_IN_SEC)\<rparr>)"

definition mm_timeadd_ms :: "mm_timespec \<Rightarrow> int \<Rightarrow> mm_timespec" where
  "mm_timeadd_ms ts dt =
     carry_nsec (ts\<lparr>tv_sec := tv_sec ts + dt sdiv MS_IN_SEC,
                    tv_nsec := tv_nsec ts + (dt smod MS_IN_SEC) * (NS_IN_SEC sdiv MS_IN_SEC)\<rparr>)"

text \<open>
  The relative sleeps read the monotonic clock, move the reading by the duration and sleep until
  that date. Clock reading and absolute sleep are the platform's: the reading \<open>now\<close> and the
  sleep \<open>nanosleep\<close> are parameters.
\<close>

definition mm_relative_sleep_ns ::
  "mm_timespec \<Rightarrow> (mm_timespec \<Rightarrow> int) \<Rightarrow> int \<Rightarrow> int" where
  "mm_relative_sleep_ns now nanosleep duration_ns = nanosleep (mm_timeadd_ns now duration_ns)"

definition mm_relative_sleep_us ::
  "mm_timespec \<Rightarrow> (mm_timespec \<Rightarrow> int) \<Rightarrow> int \<Rightarrow> int" where
  "mm_relative_sleep_us now nanosleep duration_us = nanosleep (mm_timeadd_us now duration_us)"

definition mm_relative_sleep_ms ::
  "mm_timespec \<Rightarrow> (mm_timespec \<Rightarrow> int) \<Rightarrow> int \<Rightarrow> int" where
  "mm_relative_sleep_ms now nanosleep duration_ms = nanosleep (mm_timeadd_ms now duration_ms)"

section \<open>Abstraction: a timestamp is a number of nanoseconds\<close>

definition ts_valid :: "mm_timespec \<Rightarrow> bool" where
  "ts_valid ts \<longleftrightarrow> 0 \<le> tv_nsec ts \<and> tv_nsec ts < NS_IN_SEC"

definition ts_ns :: "mm_timespec \<Rightarrow> int" where
  "ts_ns ts = tv_sec ts * NS_IN_SEC + tv_nsec ts"

lemma unit_ratios [simp]:
  "NS_IN_SEC sdiv US_IN_SEC = 1000" "NS_IN_SEC sdiv MS_IN_SEC = 1000000"
  by (simp_all add: unit_defs signed_divide_int_def)

lemma ts_ns_carry [simp]: "ts_ns (carry_nsec ts) = ts_ns ts"
  by (simp add: carry_nsec_def ts_ns_def unit_defs)

lemma ts_valid_carry:
  assumes "- NS_IN_SEC \<le> tv_nsec ts" "tv_nsec ts < 2 * NS_IN_SEC"
  shows "ts_valid (carry_nsec ts)"
  using assms by (auto simp: carry_nsec_def ts_valid_def unit_defs)

lemma timediff_ns_abs: "mm_timediff_ns ts orig = ts_ns ts - ts_ns orig"
  by (simp add: mm_timediff_ns_def ts_ns_def algebra_simps)

lemma ts_valid_inj:
  assumes "ts_valid a" "ts_valid b" "ts_ns a = ts_ns b"
  shows "a = b"
proof -
  have "tv_sec a = ts_ns a div NS_IN_SEC" "tv_nsec a = ts_ns a mod NS_IN_SEC"
    using assms(1) by (simp_all add: ts_valid_def ts_ns_def unit_defs)
  moreover have "tv_sec b = ts_ns b div NS_IN_SEC" "tv_nsec b = ts_ns b mod NS_IN_SEC"
    using assms(2) by (simp_all add: ts_valid_def ts_ns_def unit_defs)
  ultimately show ?thesis using assms(3) by simp
qed

text \<open>
  The contract the three additions share: adding \<open>n\<close> units moves the timestamp by exactly
  \<open>n * unit\<close> nanoseconds and keeps the nanosecond field in its range.
\<close>

locale time_adder =
  fixes add_time :: "mm_timespec \<Rightarrow> int \<Rightarrow> mm_timespec"
    and unit_ns :: int
  assumes unit_pos: "0 < unit_ns"
    and add_ns: "ts_ns (add_time ts n) = ts_ns ts + n * unit_ns"
    and add_valid: "ts_valid ts \<Longrightarrow> ts_valid (add_time ts n)"
begin

lemma add_zero: "ts_valid ts \<Longrightarrow> add_time ts 0 = ts"
  by (rule ts_valid_inj) (simp_all add: add_ns add_valid)

lemma add_add: "ts_valid ts \<Longrightarrow> add_time (add_time ts m) n = add_time ts (m + n)"
  by (rule ts_valid_inj) (simp_all add: add_ns add_valid algebra_simps)

lemma add_undo: "ts_valid ts \<Longrightarrow> add_time (add_time ts n) (- n) = ts"
  using add_add [of ts n "- n"] add_zero [of ts] by simp

lemma diff_add: "mm_timediff_ns (add_time ts n) ts = n * unit_ns"
  by (simp add: timediff_ns_abs add_ns)

lemma add_mono: "mm_timediff_ns (add_time ts m) (add_time ts n) \<le> 0 \<longleftrightarrow> m \<le> n"
  using unit_pos by (simp add: timediff_ns_abs add_ns)

end

interpretation add_ns: time_adder mm_timeadd_ns 1
proof
  fix ts n
  show "ts_ns (mm_timeadd_ns ts n) = ts_ns ts + n * 1"
    using sdiv_smod_eq [of n NS_IN_SEC]
    by (simp add: mm_timeadd_ns_def) (simp add: ts_ns_def algebra_simps)
  show "ts_valid ts \<Longrightarrow> ts_valid (mm_timeadd_ns ts n)"
    using smod_pos_bounds [of NS_IN_SEC n] unfolding mm_timeadd_ns_def
    by (intro ts_valid_carry) (auto simp: ts_valid_def unit_defs)
qed simp

interpretation add_us: time_adder mm_timeadd_us 1000
proof
  fix ts n
  show "ts_ns (mm_timeadd_us ts n) = ts_ns ts + n * 1000"
    using sdiv_smod_eq [of n US_IN_SEC]
    by (simp add: mm_timeadd_us_def) (simp add: ts_ns_def unit_defs algebra_simps)
  show "ts_valid ts \<Longrightarrow> ts_valid (mm_timeadd_us ts n)"
    using smod_pos_bounds [of US_IN_SEC n] unfolding mm_timeadd_us_def
    by (intro ts_valid_carry) (auto simp: ts_valid_def unit_defs)
qed simp

interpretation add_ms: time_adder mm_timeadd_ms 1000000
proof
  fix ts n
  show "ts_ns (mm_timeadd_ms ts n) = ts_ns ts + n * 1000000"
    using sdiv_smod_eq [of n MS_IN_SEC]
    by (simp add: mm_timeadd_ms_def) (simp add: ts_ns_def unit_defs algebra_simps)
  show "ts_valid ts \<Longrightarrow> ts_valid (mm_timeadd_ms ts n)"
    using smod_pos_bounds [of MS_IN_SEC n] unfolding mm_timeadd_ms_def
    by (intro ts_valid_carry) (auto simp: ts_valid_def unit_defs)
qed simp

section \<open>Properties\<close>

text \<open>The coarser differences truncate: they miss the exact one by less than a unit.\<close>

lemma timediff_us_rem:
  "\<exists>r. \<bar>r\<bar> < 1000 \<and> ts_ns ts - ts_ns orig = mm_timediff_us ts orig * 1000 + r"
  using sdiv_smod_eq [of "tv_nsec ts - tv_nsec orig" 1000] smod_abs_less [of 1000 "tv_nsec ts - tv_nsec orig"]
  by (intro exI [of _ "(tv_nsec ts - tv_nsec orig) smod 1000"])
    (simp add: mm_timediff_us_def ts_ns_def, simp add: unit_defs algebra_simps)

lemma timediff_ms_rem:
  "\<exists>r. \<bar>r\<bar> < 1000000 \<and> ts_ns ts - ts_ns orig = mm_timediff_ms ts orig * 1000000 + r"
  using sdiv_smod_eq [of "tv_nsec ts - tv_nsec orig" 1000000]
    smod_abs_less [of 1000000 "tv_nsec ts - tv_nsec orig"]
  by (intro exI [of _ "(tv_nsec ts - tv_nsec orig) smod 1000000"])
    (simp add: mm_timediff_ms_def ts_ns_def, simp add: unit_defs algebra_simps)

lemma unit_exact:
  assumes "\<bar>r\<bar> < k" "n * k = x * k + (r :: int)"
  shows "x = n"
proof -
  have "\<bar>(n - x) * k\<bar> < k" using assms by (simp add: algebra_simps)
  then have "\<bar>n - x\<bar> * k < 1 * k" using assms(1) by (simp add: abs_mult)
  moreover have "0 < k" using assms(1) by linarith
  ultimately have "\<bar>n - x\<bar> < 1" using mult_less_cancel_right_pos [of k "\<bar>n - x\<bar>" 1] by blast
  then show ?thesis by simp
qed

text \<open>
  C10. Adding and measuring time are inverse to each other, in the three units: from a valid
  timestamp, moving it by \<open>n\<close> units gives a valid timestamp at a distance of exactly \<open>n\<close> units,
  and moving it back gives the timestamp one started from.
\<close>

theorem mm_timeadd_roundtrip:
  assumes "ts_valid ts"
  shows "(ts_valid (mm_timeadd_ns ts n) \<and> mm_timediff_ns (mm_timeadd_ns ts n) ts = n \<and>
      mm_timeadd_ns (mm_timeadd_ns ts n) (- n) = ts) \<and>
    (ts_valid (mm_timeadd_us ts n) \<and> mm_timediff_us (mm_timeadd_us ts n) ts = n \<and>
      mm_timeadd_us (mm_timeadd_us ts n) (- n) = ts) \<and>
    (ts_valid (mm_timeadd_ms ts n) \<and> mm_timediff_ms (mm_timeadd_ms ts n) ts = n \<and>
      mm_timeadd_ms (mm_timeadd_ms ts n) (- n) = ts)"
proof -
  have "mm_timediff_us (mm_timeadd_us ts n) ts = n"
    using timediff_us_rem [of "mm_timeadd_us ts n" ts] add_us.add_ns [of ts n] unit_exact by auto
  moreover have "mm_timediff_ms (mm_timeadd_ms ts n) ts = n"
    using timediff_ms_rem [of "mm_timeadd_ms ts n" ts] add_ms.add_ns [of ts n] unit_exact by auto
  ultimately show ?thesis
    using assms by (simp add: add_ns.diff_add add_ns.add_valid add_us.add_valid add_ms.add_valid
        add_ns.add_undo add_us.add_undo add_ms.add_undo)
qed

theorem mm_timeadd_roundtrip_witness:
  "ts_valid \<lparr>tv_sec = 5, tv_nsec = 999999999\<rparr> \<and>
   mm_timeadd_ms (mm_timeadd_ms \<lparr>tv_sec = 5, tv_nsec = 999999999\<rparr> (- 7001)) 7001 =
     \<lparr>tv_sec = 5, tv_nsec = 999999999\<rparr>"
  using mm_timeadd_roundtrip [of "\<lparr>tv_sec = 5, tv_nsec = 999999999\<rparr>" "- 7001"]
  by (simp add: ts_valid_def unit_defs)

text \<open>
  The differences in microseconds and in milliseconds are the exact difference up to less than
  one unit, whatever the sign, and exchanging the two timestamps changes the sign only.
\<close>

theorem mm_timediff_accuracy:
  "\<bar>mm_timediff_us a b * 1000 - (ts_ns a - ts_ns b)\<bar> < 1000 \<and>
   \<bar>mm_timediff_ms a b * 1000000 - (ts_ns a - ts_ns b)\<bar> < 1000000 \<and>
   mm_timediff_us b a = - mm_timediff_us a b \<and> mm_timediff_ms b a = - mm_timediff_ms a b"
proof -
  have neg: "(x - y) sdiv k = - ((y - x) sdiv k)" for x y k :: int
    by (simp add: signed_divide_int_def sgn_if abs_minus_commute)
  show ?thesis
    using timediff_us_rem [of a b] timediff_ms_rem [of a b] neg [of "tv_nsec b" "tv_nsec a"]
    by (auto simp: mm_timediff_us_def mm_timediff_ms_def algebra_simps)
qed

end
