(* ===== verification/Mutex_Lockval.thy ===== *)
theory Mutex_Lockval
  imports Prelude
begin

unbundle bit_operations_syntax

text \<open>
  The 64-bit lock value of a process shared mutex (\<^verbatim>\<open>src/src/mutex-lockval.h\<close>). The value
  packs four fields: the owner thread id (bits 0 to 31), the number of waiters (bits 32 to 39), the
  need-recover flag (bit 40) and the low 23 bits of the id of the thread that changes the waiter
  count (bits 41 to 63). The accessors are kept at their width, on \<^typ>\<open>64 word\<close>; the second
  half of the theory reads them as four numbers.
\<close>

type_synonym lockval = "64 word"

type_synonym dword = "32 word"

section \<open>Masks and accessors\<close>

definition MTX_OWNER_TID_MASK :: lockval where
  "MTX_OWNER_TID_MASK = 0x00000000FFFFFFFF"

definition MTX_WAITER_TID_MASK :: lockval where
  "MTX_WAITER_TID_MASK = 0xFFFFFE0000000000"

definition MTX_WAITER_TID_SHIFTLEN :: nat where
  "MTX_WAITER_TID_SHIFTLEN = 41"

definition MTX_NEED_RECOVER_MASK :: lockval where
  "MTX_NEED_RECOVER_MASK = 0x0000010000000000"

definition MTX_NWAITER_MASK :: lockval where
  "MTX_NWAITER_MASK = 0x000000FF00000000"

definition MTX_NWAITER_SHIFTLEN :: nat where
  "MTX_NWAITER_SHIFTLEN = 32"

definition MTX_UNRECOVERABLE_MASK :: lockval where
  "MTX_UNRECOVERABLE_MASK = MTX_NEED_RECOVER_MASK OR MTX_OWNER_TID_MASK"

definition is_mtx_waited :: "lockval \<Rightarrow> bool" where
  "is_mtx_waited lockval \<longleftrightarrow> lockval AND MTX_NWAITER_MASK \<noteq> 0"

definition is_mtx_locked :: "lockval \<Rightarrow> bool" where
  "is_mtx_locked lockval \<longleftrightarrow> lockval AND MTX_OWNER_TID_MASK \<noteq> 0"

definition is_mtx_waiterlist_full :: "lockval \<Rightarrow> bool" where
  "is_mtx_waiterlist_full lockval \<longleftrightarrow> lockval AND MTX_NWAITER_MASK = MTX_NWAITER_MASK"

definition mtx_lockval :: "dword \<Rightarrow> dword \<Rightarrow> 32 word \<Rightarrow> lockval" where
  "mtx_lockval owner_tid waiter_tid nwaiter =
     (ucast owner_tid AND MTX_OWNER_TID_MASK)
     OR push_bit MTX_NWAITER_SHIFTLEN (scast nwaiter)
     OR push_bit MTX_WAITER_TID_SHIFTLEN (ucast waiter_tid)"

definition is_thread_mtx_owner :: "lockval \<Rightarrow> dword \<Rightarrow> bool" where
  "is_thread_mtx_owner lockval tid \<longleftrightarrow>
     mtx_lockval tid 0 0 = lockval AND MTX_OWNER_TID_MASK"

definition is_thread_mtx_waiterlist_owner :: "lockval \<Rightarrow> dword \<Rightarrow> bool" where
  "is_thread_mtx_waiterlist_owner lockval tid \<longleftrightarrow>
     mtx_lockval 0 tid 0 = lockval AND MTX_WAITER_TID_MASK"

definition is_mtx_ownerdead :: "lockval \<Rightarrow> bool" where
  "is_mtx_ownerdead lockval \<longleftrightarrow> lockval AND MTX_NEED_RECOVER_MASK \<noteq> 0"

definition is_mtx_unrecoverable :: "lockval \<Rightarrow> bool" where
  "is_mtx_unrecoverable lockval \<longleftrightarrow>
     lockval AND MTX_UNRECOVERABLE_MASK = MTX_UNRECOVERABLE_MASK"

definition mtx_num_waiter :: "lockval \<Rightarrow> 32 word" where
  "mtx_num_waiter lockval =
     ucast (drop_bit MTX_NWAITER_SHIFTLEN (lockval AND MTX_NWAITER_MASK))"

lemmas lockval_masks = MTX_OWNER_TID_MASK_def MTX_WAITER_TID_MASK_def MTX_NEED_RECOVER_MASK_def
  MTX_NWAITER_MASK_def MTX_UNRECOVERABLE_MASK_def MTX_WAITER_TID_SHIFTLEN_def
  MTX_NWAITER_SHIFTLEN_def

section \<open>The four fields as numbers\<close>

definition owner_of :: "lockval \<Rightarrow> nat" where
  "owner_of lv = unat lv mod 2 ^ 32"

definition nwaiter_of :: "lockval \<Rightarrow> nat" where
  "nwaiter_of lv = unat lv mod 2 ^ 40 div 2 ^ 32"

definition recover_of :: "lockval \<Rightarrow> nat" where
  "recover_of lv = unat lv mod 2 ^ 41 div 2 ^ 40"

definition waiter_tid_of :: "lockval \<Rightarrow> nat" where
  "waiter_tid_of lv = unat lv div 2 ^ 41"

lemmas field_defs = owner_of_def nwaiter_of_def recover_of_def waiter_tid_of_def

definition mk_lockval :: "nat \<Rightarrow> nat \<Rightarrow> nat \<Rightarrow> nat \<Rightarrow> lockval" where
  "mk_lockval ow nw rc wt = word_of_nat (ow + nw * 2 ^ 32 + rc * 2 ^ 40 + wt * 2 ^ 41)"

named_theorems lockval \<open>the lock value read through its four fields\<close>

lemma unat_lockval_less: "unat (lv :: lockval) < 2 ^ 64"
  using unsigned_less [of lv] by simp

lemma owner_of_less: "owner_of lv < 2 ^ 32"
  by (simp add: owner_of_def)

lemma nwaiter_of_less: "nwaiter_of lv < 2 ^ 8"
proof -
  have "unat lv mod 2 ^ 40 < 2 ^ 40" by (rule mod_less_divisor) simp
  then show ?thesis unfolding nwaiter_of_def by (intro less_mult_imp_div_less) simp
qed

lemma recover_of_less: "recover_of lv < 2"
proof -
  have "unat lv mod 2 ^ 41 < 2 ^ 41" by (rule mod_less_divisor) simp
  then show ?thesis unfolding recover_of_def by (intro less_mult_imp_div_less) simp
qed

lemma waiter_tid_of_less: "waiter_tid_of lv < 2 ^ 23"
  using unat_lockval_less [of lv] unfolding waiter_tid_of_def
  by (intro less_mult_imp_div_less) simp

lemmas field_bounds [lockval] =
  owner_of_less [simplified] nwaiter_of_less [simplified] recover_of_less waiter_tid_of_less [simplified]

lemma unat_fields:
  "unat lv = owner_of lv + nwaiter_of lv * 2 ^ 32 + recover_of lv * 2 ^ 40 + waiter_tid_of lv * 2 ^ 41"
proof -
  have e1: "unat lv = unat lv div 2 ^ 41 * 2 ^ 41 + unat lv mod 2 ^ 41" by simp
  have "unat lv mod 2 ^ 41 = unat lv mod 2 ^ 41 div 2 ^ 40 * 2 ^ 40 + unat lv mod 2 ^ 41 mod 2 ^ 40"
    by simp
  also have "unat lv mod 2 ^ 41 mod 2 ^ 40 = unat lv mod 2 ^ 40"
    by (simp add: mod_mod_cancel)
  finally have e2: "unat lv mod 2 ^ 41 = unat lv mod 2 ^ 41 div 2 ^ 40 * 2 ^ 40 + unat lv mod 2 ^ 40" .
  have "unat lv mod 2 ^ 40 = unat lv mod 2 ^ 40 div 2 ^ 32 * 2 ^ 32 + unat lv mod 2 ^ 40 mod 2 ^ 32"
    by simp
  also have "unat lv mod 2 ^ 40 mod 2 ^ 32 = unat lv mod 2 ^ 32"
    by (simp add: mod_mod_cancel)
  finally have e3: "unat lv mod 2 ^ 40 = unat lv mod 2 ^ 40 div 2 ^ 32 * 2 ^ 32 + unat lv mod 2 ^ 32" .
  show ?thesis using e1 e2 e3 unfolding field_defs by linarith
qed

lemma fields_mk_lockval:
  assumes "ow < 2 ^ 32" "nw < 2 ^ 8" "rc < 2" "wt < 2 ^ 23"
  shows "owner_of (mk_lockval ow nw rc wt) = ow" "nwaiter_of (mk_lockval ow nw rc wt) = nw"
    "recover_of (mk_lockval ow nw rc wt) = rc" "waiter_tid_of (mk_lockval ow nw rc wt) = wt"
    "unat (mk_lockval ow nw rc wt) = ow + nw * 2 ^ 32 + rc * 2 ^ 40 + wt * 2 ^ 41"
proof -
  let ?N = "ow + nw * 2 ^ 32 + rc * 2 ^ 40 + wt * 2 ^ 41"
  have lt: "?N < 2 ^ 64" using assms by auto
  then show u: "unat (mk_lockval ow nw rc wt) = ?N"
    unfolding mk_lockval_def unat_of_nat by simp
  have "?N = ow + (nw + rc * 2 ^ 8 + wt * 2 ^ 9) * 2 ^ 32" by simp
  then have "?N mod 2 ^ 32 = ow mod 2 ^ 32" by (simp only: mod_mult_self1)
  then show "owner_of (mk_lockval ow nw rc wt) = ow"
    using assms(1) unfolding owner_of_def u by simp
  have a: "?N mod 2 ^ 40 = ow + nw * 2 ^ 32"
  proof -
    have "?N = ow + nw * 2 ^ 32 + (rc + 2 * wt) * 2 ^ 40" by simp
    then have "?N mod 2 ^ 40 = (ow + nw * 2 ^ 32) mod 2 ^ 40"
      by (simp only: mod_mult_self1)
    then show ?thesis using assms(1,2) by auto
  qed
  show "nwaiter_of (mk_lockval ow nw rc wt) = nw"
    using assms(1) unfolding nwaiter_of_def u a by auto
  have b: "?N mod 2 ^ 41 = ow + nw * 2 ^ 32 + rc * 2 ^ 40"
    using assms(1-3) by auto
  show "recover_of (mk_lockval ow nw rc wt) = rc"
    using assms(1,2) unfolding recover_of_def u b by auto
  show "waiter_tid_of (mk_lockval ow nw rc wt) = wt"
    using assms(1-3) unfolding waiter_tid_of_def u by auto
qed

lemma mk_lockval_fields:
  "mk_lockval (owner_of lv) (nwaiter_of lv) (recover_of lv) (waiter_tid_of lv) = lv"
  unfolding mk_lockval_def unat_fields [symmetric] by simp

lemma lockval_eqI:
  assumes "owner_of a = owner_of b" "nwaiter_of a = nwaiter_of b"
    "recover_of a = recover_of b" "waiter_tid_of a = waiter_tid_of b"
  shows "a = b"
  by (metis assms mk_lockval_fields)

section \<open>The accessors read the fields\<close>

lemma and_push_mask:
  "(x :: lockval) AND push_bit k (mask l) = push_bit k (take_bit l (drop_bit k x))"
  by (rule bit_word_eqI) (auto simp: bit_simps)

lemma unat_and_push_mask:
  assumes "k + l \<le> 64"
  shows "unat ((x :: lockval) AND push_bit k (mask l)) = unat x mod 2 ^ (k + l) div 2 ^ k * 2 ^ k"
proof -
  have 1: "unat (take_bit l (drop_bit k x)) = take_bit (k + l) (unat x) div 2 ^ k"
    using assms
    by (simp add: unsigned_take_bit_eq unsigned_drop_bit_eq drop_bit_take_bit min_absorb1
        flip: drop_bit_eq_div)
  then have "unat (push_bit k (take_bit l (drop_bit k x))) = take_bit 64 (take_bit (k + l) (unat x) div 2 ^ k * 2 ^ k)"
    unfolding unsigned_push_bit_eq 1 by (simp add: push_bit_eq_mult)
  also have "\<dots> = take_bit (k + l) (unat x) div 2 ^ k * 2 ^ k"
  proof -
    have "take_bit (k + l) (unat x) div 2 ^ k * 2 ^ k \<le> take_bit (k + l) (unat x)"
      by simp
    also have "\<dots> \<le> unat x" by (simp add: take_bit_nat_less_eq_self)
    also have "\<dots> < 2 ^ 64" by (rule unat_lockval_less)
    finally show ?thesis by (simp add: take_bit_nat_eq_self)
  qed
  finally show ?thesis by (simp add: and_push_mask take_bit_eq_mod)
qed

lemma masks_as_runs:
  "MTX_OWNER_TID_MASK = push_bit 0 (mask 32)" "MTX_NWAITER_MASK = push_bit 32 (mask 8)"
  "MTX_NEED_RECOVER_MASK = push_bit 40 (mask 1)" "MTX_WAITER_TID_MASK = push_bit 41 (mask 23)"
  by (simp_all add: lockval_masks mask_eq_exp_minus_1 push_bit_eq_mult)

lemma unat_and_masks:
  "unat (lv AND MTX_OWNER_TID_MASK) = owner_of lv"
  "unat (lv AND MTX_NWAITER_MASK) = nwaiter_of lv * 2 ^ 32"
  "unat (lv AND MTX_NEED_RECOVER_MASK) = recover_of lv * 2 ^ 40"
  "unat (lv AND MTX_WAITER_TID_MASK) = waiter_tid_of lv * 2 ^ 41"
proof -
  show "unat (lv AND MTX_OWNER_TID_MASK) = owner_of lv"
    unfolding masks_as_runs field_defs by (subst unat_and_push_mask) simp_all
  show "unat (lv AND MTX_NWAITER_MASK) = nwaiter_of lv * 2 ^ 32"
    unfolding masks_as_runs field_defs by (subst unat_and_push_mask) simp_all
  show "unat (lv AND MTX_NEED_RECOVER_MASK) = recover_of lv * 2 ^ 40"
    unfolding masks_as_runs field_defs by (subst unat_and_push_mask) simp_all
  show "unat (lv AND MTX_WAITER_TID_MASK) = waiter_tid_of lv * 2 ^ 41"
    using unat_lockval_less [of lv]
    unfolding masks_as_runs field_defs by (subst unat_and_push_mask) simp_all
qed

lemma word_zero_iff_unat: "(w :: lockval) = 0 \<longleftrightarrow> unat w = 0"
  by (simp add: unat_eq_zero)

lemma is_mtx_waited_iff [lockval]: "is_mtx_waited lv \<longleftrightarrow> nwaiter_of lv \<noteq> 0"
  by (simp add: is_mtx_waited_def word_zero_iff_unat unat_and_masks)

lemma is_mtx_locked_iff [lockval]: "is_mtx_locked lv \<longleftrightarrow> owner_of lv \<noteq> 0"
  by (simp add: is_mtx_locked_def word_zero_iff_unat unat_and_masks)

lemma is_mtx_ownerdead_iff [lockval]: "is_mtx_ownerdead lv \<longleftrightarrow> recover_of lv = 1"
  using recover_of_less [of lv]
  by (auto simp: is_mtx_ownerdead_def word_zero_iff_unat unat_and_masks)

lemma is_mtx_waiterlist_full_iff [lockval]: "is_mtx_waiterlist_full lv \<longleftrightarrow> nwaiter_of lv = 255"
proof -
  have "is_mtx_waiterlist_full lv \<longleftrightarrow> unat (lv AND MTX_NWAITER_MASK) = unat MTX_NWAITER_MASK"
    by (simp add: is_mtx_waiterlist_full_def word_unat_eq_iff)
  also have "\<dots> \<longleftrightarrow> nwaiter_of lv = 255"
    unfolding unat_and_masks by (simp add: lockval_masks)
  finally show ?thesis .
qed

lemma or_disjoint_runs:
  "k + l \<le> k' \<Longrightarrow> (x AND push_bit k' (mask l')) OR (x AND push_bit k (mask l)) =
     (x AND push_bit k' (mask l')) + (x AND push_bit k (mask l))" for x :: lockval
  by (rule disjunctive_add [symmetric]) (auto simp: bit_simps)

lemma and_unrecoverable_mask:
  "lv AND MTX_UNRECOVERABLE_MASK = (lv AND MTX_NEED_RECOVER_MASK) + (lv AND MTX_OWNER_TID_MASK)"
proof -
  have "lv AND MTX_UNRECOVERABLE_MASK =
      (lv AND MTX_NEED_RECOVER_MASK) OR (lv AND MTX_OWNER_TID_MASK)"
    by (simp add: MTX_UNRECOVERABLE_MASK_def and.commute bit.conj_disj_distrib)
  also have "\<dots> = (lv AND MTX_NEED_RECOVER_MASK) + (lv AND MTX_OWNER_TID_MASK)"
    unfolding masks_as_runs by (rule or_disjoint_runs) simp
  finally show ?thesis .
qed

lemma is_mtx_unrecoverable_iff [lockval]:
  "is_mtx_unrecoverable lv \<longleftrightarrow> recover_of lv = 1 \<and> owner_of lv = 2 ^ 32 - 1"
proof -
  let ?a = "lv AND MTX_NEED_RECOVER_MASK" and ?b = "lv AND MTX_OWNER_TID_MASK"
  have "unat ?a + unat ?b < 2 ^ 64"
    using recover_of_less [of lv] owner_of_less [of lv] by (simp add: unat_and_masks)
  then have "unat (?a + ?b) = recover_of lv * 2 ^ 40 + owner_of lv"
    by (simp add: unat_word_ariths unat_and_masks)
  then have "is_mtx_unrecoverable lv \<longleftrightarrow> recover_of lv * 2 ^ 40 + owner_of lv = 2 ^ 40 + (2 ^ 32 - 1)"
    unfolding is_mtx_unrecoverable_def and_unrecoverable_mask word_unat_eq_iff
    by (simp add: lockval_masks)
  also have "\<dots> \<longleftrightarrow> recover_of lv = 1 \<and> owner_of lv = 2 ^ 32 - 1"
  proof -
    have "recover_of lv = 0 \<or> recover_of lv = 1" using recover_of_less [of lv] by auto
    then show ?thesis using owner_of_less [of lv] by auto
  qed
  finally show ?thesis .
qed

lemma mtx_num_waiter_eq [lockval]: "unat (mtx_num_waiter lv) = nwaiter_of lv"
proof -
  have "unat (drop_bit 32 (lv AND MTX_NWAITER_MASK)) = nwaiter_of lv"
    unfolding unsigned_drop_bit_eq unat_and_masks using nwaiter_of_less [of lv]
    by (simp add: drop_bit_eq_div take_bit_nat_eq_self)
  moreover have "nwaiter_of lv < 2 ^ 32"
    using nwaiter_of_less [of lv] by simp
  ultimately show ?thesis
    by (simp add: mtx_num_waiter_def MTX_NWAITER_SHIFTLEN_def unsigned_ucast_eq take_bit_nat_eq_self)
qed

section \<open>Arithmetic on lock values\<close>

text \<open>
  Packing is additive, and the top field is taken modulo \<open>2 ^ 23\<close>: additions and subtractions
  of packed values act field by field as long as no field but the top one over- or underflows.
\<close>

lemma mk_lockval_add:
  "mk_lockval a b c d + mk_lockval a' b' c' d' = mk_lockval (a + a') (b + b') (c + c') (d + d')"
  by (simp add: mk_lockval_def algebra_simps)

lemma mk_lockval_sub:
  assumes "a' \<le> a" "b' \<le> b" "c' \<le> c" "d' \<le> d"
  shows "mk_lockval a b c d - mk_lockval a' b' c' d' = mk_lockval (a - a') (b - b') (c - c') (d - d')"
proof -
  have "mk_lockval (a - a') (b - b') (c - c') (d - d') + mk_lockval a' b' c' d' = mk_lockval a b c d"
    using assms by (simp add: mk_lockval_add)
  then show ?thesis by (simp add: eq_diff_eq [symmetric] eq_commute)
qed

lemma mk_lockval_wt_add: "mk_lockval a b c (d + k * 2 ^ 23) = mk_lockval a b c d"
proof -
  have z: "(2 :: lockval) ^ 23 * 2 ^ 41 = 0" by simp
  have "of_nat (k * 2 ^ 23) * (2 :: lockval) ^ 41 = of_nat k * (2 ^ 23 * 2 ^ 41)"
    by (simp only: of_nat_mult of_nat_power of_nat_numeral mult.assoc)
  also have "\<dots> = 0" by (simp only: z mult_zero_right)
  finally show ?thesis
    unfolding mk_lockval_def by (simp only: of_nat_add distrib_right of_nat_mult of_nat_power
        of_nat_numeral add_0_right)
qed

lemma mk_lockval_wt_mod: "mk_lockval a b c (d mod 2 ^ 23) = mk_lockval a b c d"
  using mk_lockval_wt_add [of a b c "d mod 2 ^ 23" "d div 2 ^ 23"] by (simp add: add.commute)

lemma mk_lockval_sub_wt:
  assumes "d' < 2 ^ 23"
  shows "mk_lockval a b c d - mk_lockval 0 0 0 d' = mk_lockval a b c ((d + (2 ^ 23 - d')) mod 2 ^ 23)"
proof -
  have "mk_lockval a b c d - mk_lockval 0 0 0 d' = mk_lockval a b c (d + 1 * 2 ^ 23) - mk_lockval 0 0 0 d'"
    by (simp only: mk_lockval_wt_add)
  also have "\<dots> = mk_lockval a b c (d + 2 ^ 23 - d')"
    using assms by (subst mk_lockval_sub) simp_all
  also have "d + 2 ^ 23 - d' = d + (2 ^ 23 - d')" using assms by simp
  finally show ?thesis by (simp only: mk_lockval_wt_mod)
qed

lemma and_not_run: "(x :: lockval) AND NOT m = x - (x AND m)"
proof -
  have "(x AND NOT m) + (x AND m) = (x AND NOT m) OR (x AND m)"
    by (rule disjunctive_add) (auto simp: bit_simps)
  also have "\<dots> = x" by (rule bit_word_eqI) (auto simp: bit_simps)
  finally show ?thesis by (simp add: eq_diff_eq)
qed

lemma and_masks_mk:
  "lv AND MTX_OWNER_TID_MASK = mk_lockval (owner_of lv) 0 0 0"
  "lv AND MTX_WAITER_TID_MASK = mk_lockval 0 0 0 (waiter_tid_of lv)"
  using owner_of_less [of lv] waiter_tid_of_less [of lv]
  by (simp_all add: word_unat_eq_iff unat_and_masks fields_mk_lockval del: unsigned_and_eq)

lemma clear_owner [lockval]:
  "lv AND NOT MTX_OWNER_TID_MASK = mk_lockval 0 (nwaiter_of lv) (recover_of lv) (waiter_tid_of lv)"
proof -
  have "lv AND NOT MTX_OWNER_TID_MASK =
      mk_lockval (owner_of lv) (nwaiter_of lv) (recover_of lv) (waiter_tid_of lv)
      - mk_lockval (owner_of lv) 0 0 0"
    by (simp only: and_not_run and_masks_mk mk_lockval_fields)
  then show ?thesis by (simp add: mk_lockval_sub)
qed

lemma clear_waiter [lockval]:
  "lv AND NOT MTX_WAITER_TID_MASK = mk_lockval (owner_of lv) (nwaiter_of lv) (recover_of lv) 0"
proof -
  have "lv AND NOT MTX_WAITER_TID_MASK =
      mk_lockval (owner_of lv) (nwaiter_of lv) (recover_of lv) (waiter_tid_of lv)
      - mk_lockval 0 0 0 (waiter_tid_of lv)"
    by (simp only: and_not_run and_masks_mk mk_lockval_fields)
  then show ?thesis by (simp add: mk_lockval_sub)
qed

lemma scast_small: "unat (n :: 32 word) < 2 ^ 31 \<Longrightarrow> scast n = (word_of_nat (unat n) :: lockval)"
proof -
  assume "unat n < 2 ^ 31"
  then have "nat (uint n) < 2 ^ 31" by (simp only: nat_uint_eq)
  then have "uint n < int (2 ^ 31)" by (simp only: nat_less_iff uint_ge_0)
  then have t: "take_bit 31 (uint n) = uint n"
    by (simp add: take_bit_int_eq_self_iff)
  have "\<not> bit (take_bit 31 (uint n)) 31" by (simp add: bit_take_bit_iff)
  then have "\<not> bit (uint n) 31" unfolding t .
  then have "sint n = int (unat n)"
    by (simp add: sint_uint signed_take_bit_eq_if_positive t)
  then show ?thesis
    using of_int_sint [of n, where ?'a = lockval] by simp
qed

lemma mtx_lockval_eq:
  assumes "unat n < 2 ^ 8"
  shows "mtx_lockval tid wtid n = mk_lockval (unat tid) (unat n) 0 (unat wtid mod 2 ^ 23)"
proof -
  have ow: "ucast tid AND MTX_OWNER_TID_MASK = (ucast tid :: lockval)"
    by (rule bit_word_eqI) (auto simp: masks_as_runs bit_simps dest: bit_imp_le_length)
  have "mtx_lockval tid wtid n =
      ucast tid OR push_bit 32 (word_of_nat (unat n)) OR push_bit 41 (ucast wtid)"
    using assms by (simp add: mtx_lockval_def ow scast_small MTX_NWAITER_SHIFTLEN_def
        MTX_WAITER_TID_SHIFTLEN_def)
  also have "\<dots> = ucast tid + push_bit 32 (word_of_nat (unat n)) + push_bit 41 (ucast wtid)"
  proof -
    have n8: "bit (word_of_nat (unat n) :: lockval) m \<Longrightarrow> m < 8" for m
    proof -
      assume "bit (word_of_nat (unat n) :: lockval) m"
      then have "bit (unat (word_of_nat (unat n) :: lockval)) m" by (simp add: bit_unsigned_iff)
      then have "bit (unat n) m" using assms unfolding unat_of_nat by simp
      then have "bit (take_bit 8 (unat n)) m" using assms by (simp add: take_bit_nat_eq_self)
      then show ?thesis by (simp add: bit_take_bit_iff)
    qed
    have "ucast tid OR push_bit 32 (word_of_nat (unat n)) =
        (ucast tid + push_bit 32 (word_of_nat (unat n)) :: lockval)"
      by (rule disjunctive_add [symmetric]) (auto simp: bit_simps dest: bit_imp_le_length)
    moreover have "(ucast tid OR push_bit 32 (word_of_nat (unat n))) OR push_bit 41 (ucast wtid) =
        ((ucast tid OR push_bit 32 (word_of_nat (unat n))) + push_bit 41 (ucast wtid) :: lockval)"
      by (rule disjunctive_add [symmetric])
        (use bit_imp_le_length [of tid] n8 in \<open>fastforce simp: bit_or_iff bit_push_bit_iff bit_unsigned_iff\<close>)
    ultimately show ?thesis by (simp only: or.assoc [symmetric])
  qed
  also have "\<dots> = mk_lockval (unat tid) (unat n) 0 (unat wtid)"
    by (simp add: mk_lockval_def push_bit_eq_mult)
  finally show ?thesis by (simp only: mk_lockval_wt_mod)
qed

end
