(* ===== verification/Pshared_Mutex.thy ===== *)
theory Pshared_Mutex
  imports Mutex_Lockval
begin

unbundle bit_operations_syntax

text \<open>
  The process shared mutex of \<^verbatim>\<open>src/src/thread-win32.c\<close>, with the atomic operations of
  \<^verbatim>\<open>src/src/atomic-win32.h\<close> and the robust data of \<^verbatim>\<open>src/src/lock-referee-proto.h\<close>.
  Each function is cut at its accesses to the shared lock value: a program counter names the next
  access and carries the local variables that are live there, and one step of a thread performs
  that access and everything local up to the next one.
\<close>

section \<open>Atomic operations\<close>

text \<open>
  The result of a compare-and-exchange: whether it swapped, the new content of the object and the
  value left in \<open>expected\<close>.
\<close>

definition atomic_cmp_exchange :: "lockval \<Rightarrow> lockval \<Rightarrow> lockval \<Rightarrow> bool \<times> lockval \<times> lockval" where
  "atomic_cmp_exchange obj expected desired =
     (let prev_val = obj; has_swapped = (expected = prev_val)
      in (has_swapped, if has_swapped then desired else obj, prev_val))"

text \<open>\<open>atomic_fetch_add\<close> and \<open>atomic_fetch_sub\<close>: the previous value and the new content.\<close>

definition atomic_fetch_add :: "lockval \<Rightarrow> lockval \<Rightarrow> lockval \<times> lockval" where
  "atomic_fetch_add obj arg = (obj, obj + arg)"

definition atomic_fetch_sub :: "lockval \<Rightarrow> lockval \<Rightarrow> lockval \<times> lockval" where
  "atomic_fetch_sub obj arg = (obj, obj + - arg)"

lemmas atomic_defs = atomic_cmp_exchange_def atomic_fetch_add_def atomic_fetch_sub_def

section \<open>Robust data\<close>

text \<open>
  What a thread shares with the lock referee: its id, the key it is attempting to lock, whether it
  is registered as waiter, and the array of the keys it holds (\<open>num_locked\<close> used entries, the
  length of the list is \<open>num_locked_max\<close>).
\<close>

type_synonym shkey = int

record robust_data =
  thread_id :: dword
  attempt_key :: shkey
  is_waiter :: bool
  num_locked :: int
  locked_keys :: "shkey list"

definition start_mtx_operation :: "shkey \<Rightarrow> robust_data \<Rightarrow> robust_data" where
  "start_mtx_operation mtx_key rd = rd\<lparr>attempt_key := mtx_key\<rparr>"

text \<open>
  Recording a held key writes \<open>locked_keys[num_locked]\<close>: outside of the array the result is
  \<^const>\<open>None\<close>.
\<close>

definition finish_mtx_lock :: "robust_data \<Rightarrow> bool \<Rightarrow> lockval \<Rightarrow> (robust_data \<times> retcode) option" where
  "finish_mtx_lock rd locked oldval =
     (let retval = (if locked then None else Some EBUSY);
          finish = (\<lambda>rd r. Some (rd\<lparr>is_waiter := False, attempt_key := 0\<rparr>, r))
      in if locked
         then (if 0 \<le> num_locked rd \<and> num_locked rd < int (length (locked_keys rd))
               then finish (rd\<lparr>locked_keys := (locked_keys rd)[nat (num_locked rd) := attempt_key rd],
                               num_locked := num_locked rd + 1\<rparr>)
                           (if is_mtx_ownerdead oldval then Some EOWNERDEAD else retval)
               else None)
         else finish rd retval)"

definition finish_mtx_unlock :: "robust_data \<Rightarrow> robust_data" where
  "finish_mtx_unlock rd = rd\<lparr>num_locked := num_locked rd - 1, attempt_key := 0\<rparr>"

section \<open>Program counters\<close>

text \<open>
  \<^item> \<open>Outside r\<close>: the thread does not own the mutex; its last call returned \<open>r\<close>.
  \<^item> \<open>Inside r\<close>: a lock or trylock returned \<open>r\<close> (success or owner-dead); the thread owns it.
  \<^item> \<open>LockTry oldval incval notified\<close>: at the compare-exchange of \<open>pshared_mtx_lock\<close>.
  \<^item> \<open>RegTry oldval incval\<close>: at the top of the loop of \<open>register_waiter_in_mtx\<close>.
  \<^item> \<open>RegFull incval\<close>: after the sleep, at the reload of a full waiter list.
  \<^item> \<open>RegDone incval\<close>: registered, at the release of the waiter count lock.
  \<^item> \<open>LockWait incval\<close>: in \<open>pshared_wait_on_lock\<close>.
  \<^item> \<open>LockReload incval\<close>: woken up, at the reload of the lock value.
  \<^item> \<open>TryTry i oldval newval\<close>: at the compare-exchange of iteration \<open>i\<close> of trylock.
  \<^item> \<open>UnlockLoad\<close>, \<open>UnlockSub unlock_val unrecoverable\<close>, \<open>UnlockWake num\<close>: in unlock, at the load,
    at the subtraction and at the wake request.
  \<^item> \<open>Stuck\<close>: the held key did not fit the robust data array.
\<close>

datatype mtx_pc =
    Outside retcode
  | Inside retcode
  | LockTry lockval lockval bool
  | RegTry lockval lockval
  | RegFull lockval
  | RegDone lockval
  | LockWait lockval
  | LockReload lockval
  | TryTry nat lockval lockval
  | UnlockLoad
  | UnlockSub lockval bool
  | UnlockWake nat
  | Stuck

record mtx_thread =
  pc :: mtx_pc
  rdata :: robust_data

text \<open>The end of a lock attempt: \<open>finish_mtx_lock\<close> and the return of its code.\<close>

definition leave_lock :: "mtx_thread \<Rightarrow> bool \<Rightarrow> lockval \<Rightarrow> mtx_thread" where
  "leave_lock th locked oldval =
     (case finish_mtx_lock (rdata th) locked oldval of
        None \<Rightarrow> th\<lparr>pc := Stuck\<rparr>
      | Some (rd, r) \<Rightarrow> th\<lparr>pc := (if locked then Inside r else Outside r), rdata := rd\<rparr>)"

section \<open>Lock\<close>

text \<open>Entry of \<open>pshared_mtx_lock\<close>, up to the first compare-exchange.\<close>

definition lock_enter :: "dword \<Rightarrow> shkey \<Rightarrow> mtx_thread \<Rightarrow> mtx_thread" where
  "lock_enter tid key th =
     th\<lparr>rdata := start_mtx_operation key (rdata th), pc := LockTry 0 (mtx_lockval tid 0 0) False\<rparr>"

text \<open>One turn of the loop of \<open>pshared_mtx_lock\<close>.\<close>

definition lock_try :: "lockval \<Rightarrow> lockval \<Rightarrow> lockval \<Rightarrow> bool \<Rightarrow> mtx_thread \<Rightarrow> lockval \<times> mtx_thread" where
  "lock_try lock oldval incval notified th =
     (let newval = oldval + incval;
          (swapped, lock', oldval') = atomic_cmp_exchange lock oldval newval
      in (lock',
          if swapped then leave_lock th True oldval'
          else if is_mtx_unrecoverable oldval'
          then (leave_lock th False oldval')\<lparr>pc := Outside (Some ENOTRECOVERABLE)\<rparr>
          else if \<not> notified then th\<lparr>pc := RegTry oldval' incval\<rparr>
          else th\<lparr>pc := LockWait incval\<rparr>))"

text \<open>One turn of the loop of \<open>register_waiter_in_mtx\<close>.\<close>

definition reg_try :: "lockval \<Rightarrow> lockval \<Rightarrow> lockval \<Rightarrow> mtx_thread \<Rightarrow> lockval \<times> mtx_thread" where
  "reg_try lock oldval incval th =
     (if is_mtx_waiterlist_full oldval then (lock, th\<lparr>pc := RegFull incval\<rparr>)
      else
        let newval = (oldval AND NOT MTX_WAITER_TID_MASK) + mtx_lockval 0 (thread_id (rdata th)) 1;
            (swapped, lock', oldval') = atomic_cmp_exchange lock oldval newval
        in (lock',
            if swapped then th\<lparr>rdata := (rdata th)\<lparr>is_waiter := True\<rparr>, pc := RegDone incval\<rparr>
            else if is_mtx_unrecoverable oldval' then th\<lparr>pc := LockTry oldval' incval False\<rparr>
            else th\<lparr>pc := RegTry oldval' incval\<rparr>))"

text \<open>The reload of a full waiter list: the function returns false and the lock loop goes on.\<close>

definition reg_full :: "lockval \<Rightarrow> lockval \<Rightarrow> mtx_thread \<Rightarrow> lockval \<times> mtx_thread" where
  "reg_full lock incval th = (lock, th\<lparr>pc := LockTry lock incval False\<rparr>)"

text \<open>The release of the waiter count lock, the return of true and the end of the lock loop's turn.\<close>

definition reg_done :: "lockval \<Rightarrow> lockval \<Rightarrow> mtx_thread \<Rightarrow> lockval \<times> mtx_thread" where
  "reg_done lock incval th =
     (let (prev, lock') = atomic_fetch_sub lock (mtx_lockval 0 (thread_id (rdata th)) 0);
          oldval = (NOT MTX_WAITER_TID_MASK AND prev) AND NOT MTX_OWNER_TID_MASK
      in (lock', th\<lparr>pc := LockTry oldval (incval - mtx_lockval 0 0 1) True\<rparr>))"

text \<open>Woken up: the reload of the lock value.\<close>

definition lock_reload :: "lockval \<Rightarrow> lockval \<Rightarrow> mtx_thread \<Rightarrow> lockval \<times> mtx_thread" where
  "lock_reload lock incval th =
     (lock, th\<lparr>pc := LockTry (lock AND NOT MTX_OWNER_TID_MASK) incval True\<rparr>)"

section \<open>Trylock\<close>

definition trylock_enter :: "dword \<Rightarrow> shkey \<Rightarrow> mtx_thread \<Rightarrow> mtx_thread" where
  "trylock_enter tid key th =
     th\<lparr>rdata := start_mtx_operation key (rdata th), pc := TryTry 0 0 (mtx_lockval tid 0 0)\<rparr>"

definition trylock_try ::
  "lockval \<Rightarrow> nat \<Rightarrow> lockval \<Rightarrow> lockval \<Rightarrow> mtx_thread \<Rightarrow> lockval \<times> mtx_thread" where
  "trylock_try lock i oldval newval th =
     (let (swapped, lock', oldval') = atomic_cmp_exchange lock oldval newval
      in (lock',
          if swapped then leave_lock th True oldval'
          else if is_mtx_unrecoverable oldval'
          then (leave_lock th False oldval')\<lparr>pc := Outside (Some ENOTRECOVERABLE)\<rparr>
          else
            let oldval'' = oldval' AND NOT MTX_OWNER_TID_MASK; newval' = newval + oldval''
            in if i + 1 < 2 then th\<lparr>pc := TryTry (i + 1) oldval'' newval'\<rparr>
               else leave_lock th False oldval''))"

section \<open>Unlock and consistent\<close>

text \<open>Up to the subtraction: the owner-dead test and the start of the operation.\<close>

definition unlock_load :: "dword \<Rightarrow> shkey \<Rightarrow> lockval \<Rightarrow> mtx_thread \<Rightarrow> lockval \<times> mtx_thread" where
  "unlock_load tid key lock th =
     (let unlock_val = mtx_lockval tid 0 0;
          unrecoverable = is_mtx_ownerdead lock
      in (lock, th\<lparr>rdata := start_mtx_operation key (rdata th),
                   pc := UnlockSub (if unrecoverable then unlock_val - MTX_OWNER_TID_MASK else unlock_val)
                                   unrecoverable\<rparr>))"

definition unlock_sub :: "lockval \<Rightarrow> lockval \<Rightarrow> bool \<Rightarrow> mtx_thread \<Rightarrow> lockval \<times> mtx_thread" where
  "unlock_sub lock unlock_val unrecoverable th =
     (let (oldval, lock') = atomic_fetch_sub lock unlock_val
      in (lock',
          if is_mtx_waited oldval
          then th\<lparr>pc := UnlockWake (if unrecoverable then unat (mtx_num_waiter oldval) else 1)\<rparr>
          else th\<lparr>rdata := finish_mtx_unlock (rdata th), pc := Outside None\<rparr>))"

definition unlock_wake :: "mtx_thread \<Rightarrow> mtx_thread" where
  "unlock_wake th = th\<lparr>rdata := finish_mtx_unlock (rdata th), pc := Outside None\<rparr>"

text \<open>\<open>pshared_mtx_consistent\<close>: the new lock value and the returned code.\<close>

definition pshared_mtx_consistent :: "lockval \<Rightarrow> lockval \<times> retcode" where
  "pshared_mtx_consistent lock =
     (if \<not> is_mtx_ownerdead lock then (lock, Some EINVAL)
      else (snd (atomic_fetch_sub lock MTX_NEED_RECOVER_MASK), None))"

section \<open>One step of a thread\<close>

text \<open>
  The next access of a thread whose program counter is inside of a mutex function. The wait of
  \<open>LockWait\<close> may end at any moment: when the lock referee answers is not decided here. A thread
  that is outside of the mutex functions does not move by itself.
\<close>

fun mtx_advance :: "dword \<Rightarrow> shkey \<Rightarrow> lockval \<Rightarrow> mtx_thread \<Rightarrow> lockval \<times> mtx_thread" where
  "mtx_advance tid key lock th =
     (case pc th of
        LockTry oldval incval notified \<Rightarrow> lock_try lock oldval incval notified th
      | RegTry oldval incval \<Rightarrow> reg_try lock oldval incval th
      | RegFull incval \<Rightarrow> reg_full lock incval th
      | RegDone incval \<Rightarrow> reg_done lock incval th
      | LockWait incval \<Rightarrow> (lock, th\<lparr>pc := LockReload incval\<rparr>)
      | LockReload incval \<Rightarrow> lock_reload lock incval th
      | TryTry i oldval newval \<Rightarrow> trylock_try lock i oldval newval th
      | UnlockLoad \<Rightarrow> unlock_load tid key lock th
      | UnlockSub unlock_val unrecoverable \<Rightarrow> unlock_sub lock unlock_val unrecoverable th
      | UnlockWake num \<Rightarrow> (lock, unlock_wake th)
      | Outside r \<Rightarrow> (lock, th)
      | Inside r \<Rightarrow> (lock, th)
      | Stuck \<Rightarrow> (lock, th))"

end
