(* ===== verification/Pshared_Machine.thy ===== *)
theory Pshared_Machine
  imports Pshared_Mutex
begin

unbundle bit_operations_syntax

text \<open>
  Any number of threads on one process shared mutex: the interleavings of the steps of
  \<open>Pshared_Mutex\<close>, the invariant that ties the lock value to the program counters, and mutual
  exclusion. Threads do not die here, so the need-recover flag stays clear; the cleanup after a
  death is the subject of \<open>Pshared_Cleanup\<close>.
\<close>

section \<open>The system\<close>

record mtx_sys =
  lock :: lockval
  key :: shkey
  threads :: "dword \<Rightarrow> mtx_thread"

definition owns :: "mtx_pc \<Rightarrow> bool" where
  "owns p \<longleftrightarrow> (case p of Inside _ \<Rightarrow> True | UnlockLoad \<Rightarrow> True | UnlockSub _ _ \<Rightarrow> True
     | Stuck \<Rightarrow> True | _ \<Rightarrow> False)"

definition registered :: "mtx_pc \<Rightarrow> bool" where
  "registered p \<longleftrightarrow> (case p of RegDone _ \<Rightarrow> True | LockTry _ _ n \<Rightarrow> n | LockWait _ \<Rightarrow> True
     | LockReload _ \<Rightarrow> True | _ \<Rightarrow> False)"

definition outside :: "mtx_pc \<Rightarrow> bool" where
  "outside p \<longleftrightarrow> (case p of Outside _ \<Rightarrow> True | _ \<Rightarrow> False)"

definition inside :: "mtx_pc \<Rightarrow> bool" where
  "inside p \<longleftrightarrow> (case p of Inside _ \<Rightarrow> True | _ \<Rightarrow> False)"

abbreviation upd_thread :: "mtx_sys \<Rightarrow> dword \<Rightarrow> mtx_thread \<Rightarrow> mtx_sys" where
  "upd_thread s t th \<equiv> s\<lparr>threads := (threads s)(t := th)\<rparr>"

text \<open>
  A step of the system, by a thread of \<open>T\<close>: a thread outside calls lock or trylock, an owner calls
  unlock, a thread inside of a mutex function performs its next access.
\<close>

inductive sys_step :: "dword set \<Rightarrow> mtx_sys \<Rightarrow> mtx_sys \<Rightarrow> bool" for T where
  call_lock: "t \<in> T \<Longrightarrow> outside (pc (threads s t)) \<Longrightarrow>
     sys_step T s (upd_thread s t (lock_enter t (key s) (threads s t)))"
| call_trylock: "t \<in> T \<Longrightarrow> outside (pc (threads s t)) \<Longrightarrow>
     sys_step T s (upd_thread s t (trylock_enter t (key s) (threads s t)))"
| call_unlock: "t \<in> T \<Longrightarrow> inside (pc (threads s t)) \<Longrightarrow>
     sys_step T s (upd_thread s t ((threads s t)\<lparr>pc := UnlockLoad\<rparr>))"
| advance: "t \<in> T \<Longrightarrow> mtx_advance t (key s) (lock s) (threads s t) = (lv, th) \<Longrightarrow>
     sys_step T s (upd_thread (s\<lparr>lock := lv\<rparr>) t th)"

text \<open>
  A mutex after \<open>pshared_mtx_init\<close>: lock value zero, every thread outside, with the robust data it
  got from the lock referee (\<open>create_robust_data\<close> stores the thread id there).
\<close>

definition mtx_initial :: "mtx_sys \<Rightarrow> bool" where
  "mtx_initial s \<longleftrightarrow> lock s = 0 \<and> (\<forall>t. outside (pc (threads s t)) \<and> thread_id (rdata (threads s t)) = t)"

inductive mtx_reachable :: "dword set \<Rightarrow> mtx_sys \<Rightarrow> bool" for T where
  init: "mtx_initial s \<Longrightarrow> mtx_reachable T s"
| step: "mtx_reachable T s \<Longrightarrow> sys_step T s s' \<Longrightarrow> mtx_reachable T s'"

section \<open>The invariant\<close>

text \<open>
  \<open>local_ok N t p\<close>: what the local variables of thread \<open>t\<close> satisfy at program counter \<open>p\<close> when
  the waiter count of every lock value it may have read is below \<open>N\<close>.
\<close>

definition tidval :: "dword \<Rightarrow> lockval" where
  "tidval t = mk_lockval (unat t) 0 0 0"

definition waiterval :: lockval where
  "waiterval = mk_lockval 0 1 0 0"

fun local_ok :: "nat \<Rightarrow> dword \<Rightarrow> mtx_pc \<Rightarrow> bool" where
  "local_ok N t (LockTry oldval incval notified) \<longleftrightarrow>
     owner_of oldval = 0 \<and> recover_of oldval = 0 \<and>
     incval = (if notified then tidval t - waiterval else tidval t)"
| "local_ok N t (RegTry oldval incval) \<longleftrightarrow>
     nwaiter_of oldval < N \<and> incval = tidval t"
| "local_ok N t (RegFull incval) \<longleftrightarrow> False"
| "local_ok N t (RegDone incval) \<longleftrightarrow> incval = tidval t"
| "local_ok N t (LockWait incval) \<longleftrightarrow> incval = tidval t - waiterval"
| "local_ok N t (LockReload incval) \<longleftrightarrow> incval = tidval t - waiterval"
| "local_ok N t (TryTry i oldval newval) \<longleftrightarrow>
     i < 2 \<and> (i = 0 \<longrightarrow> oldval = 0) \<and>
     owner_of oldval = 0 \<and> recover_of oldval = 0 \<and> newval = oldval + tidval t"
| "local_ok N t (UnlockSub unlock_val unrec) \<longleftrightarrow> unlock_val = tidval t \<and> \<not> unrec"
| "local_ok N t _ \<longleftrightarrow> True"

definition waiters :: "dword set \<Rightarrow> mtx_sys \<Rightarrow> dword set" where
  "waiters T s = {t \<in> T. registered (pc (threads s t))}"

definition mtx_inv :: "dword set \<Rightarrow> mtx_sys \<Rightarrow> bool" where
  "mtx_inv T s \<longleftrightarrow>
     recover_of (lock s) = 0 \<and>
     nwaiter_of (lock s) = card (waiters T s) \<and>
     (\<forall>t \<in> T. thread_id (rdata (threads s t)) = t \<and> local_ok (card T) t (pc (threads s t)) \<and>
        (owns (pc (threads s t)) \<longleftrightarrow> owner_of (lock s) = unat t)) \<and>
     (owner_of (lock s) = 0 \<or> (\<exists>t \<in> T. owner_of (lock s) = unat t))"

section \<open>How the accesses act on the fields\<close>

lemma unat_dword_less: "unat (t :: dword) < 2 ^ 32"
  using unsigned_less [of t] by simp

lemma mtx_lockval_tid: "mtx_lockval t 0 0 = tidval t"
  by (simp add: mtx_lockval_eq tidval_def)

lemma mtx_lockval_one: "mtx_lockval 0 0 1 = waiterval"
  by (simp add: mtx_lockval_eq waiterval_def)

lemma fields_acquire:
  assumes "owner_of lv = 0"
  shows "owner_of (lv + tidval t) = unat t" "nwaiter_of (lv + tidval t) = nwaiter_of lv"
    "recover_of (lv + tidval t) = recover_of lv"
proof -
  have "lv + tidval t = mk_lockval (unat t) (nwaiter_of lv) (recover_of lv) (waiter_tid_of lv)"
    by (subst mk_lockval_fields [of lv, symmetric]) (simp add: assms tidval_def mk_lockval_add)
  then show "owner_of (lv + tidval t) = unat t" "nwaiter_of (lv + tidval t) = nwaiter_of lv"
    "recover_of (lv + tidval t) = recover_of lv"
    using unat_dword_less [of t] by (simp_all add: fields_mk_lockval lockval)
qed

lemma fields_acquire_waiter:
  assumes "owner_of lv = 0" "0 < nwaiter_of lv"
  shows "owner_of (lv + (tidval t - waiterval)) = unat t"
    "nwaiter_of (lv + (tidval t - waiterval)) = nwaiter_of lv - 1"
    "recover_of (lv + (tidval t - waiterval)) = recover_of lv"
proof -
  have "lv + (tidval t - waiterval) = (lv + tidval t) - mk_lockval 0 1 0 0"
    by (simp add: waiterval_def)
  also have "\<dots> = mk_lockval (unat t) (nwaiter_of lv) (recover_of lv) (waiter_tid_of lv) - mk_lockval 0 1 0 0"
    by (subst mk_lockval_fields [of lv, symmetric]) (simp add: assms tidval_def mk_lockval_add)
  also have "\<dots> = mk_lockval (unat t) (nwaiter_of lv - 1) (recover_of lv) (waiter_tid_of lv)"
    using assms(2) by (simp add: mk_lockval_sub)
  finally have e: "lv + (tidval t - waiterval) =
      mk_lockval (unat t) (nwaiter_of lv - 1) (recover_of lv) (waiter_tid_of lv)" .
  have "nwaiter_of lv - 1 < 2 ^ 8" using nwaiter_of_less [of lv] by linarith
  then show "owner_of (lv + (tidval t - waiterval)) = unat t"
    "nwaiter_of (lv + (tidval t - waiterval)) = nwaiter_of lv - 1"
    "recover_of (lv + (tidval t - waiterval)) = recover_of lv"
    unfolding e using unat_dword_less [of t] by (simp_all add: fields_mk_lockval lockval)
qed

lemma fields_register:
  fixes lv :: lockval and t :: dword
  assumes "nwaiter_of lv < 255"
  defines "lv' \<equiv> (lv AND NOT MTX_WAITER_TID_MASK) + mtx_lockval 0 t 1"
  shows "owner_of lv' = owner_of lv" "nwaiter_of lv' = nwaiter_of lv + 1"
    "recover_of lv' = recover_of lv"
proof -
  have "lv' = mk_lockval (owner_of lv) (nwaiter_of lv + 1) (recover_of lv) (unat t mod 2 ^ 23)"
    by (simp add: lv'_def clear_waiter mtx_lockval_eq mk_lockval_add)
  then show "owner_of lv' = owner_of lv" "nwaiter_of lv' = nwaiter_of lv + 1"
    "recover_of lv' = recover_of lv"
    using assms(1) by (simp_all add: fields_mk_lockval lockval)
qed

lemma fields_release_waitlist:
  fixes lv :: lockval and t :: dword
  defines "lv' \<equiv> lv - mtx_lockval 0 t 0"
  shows "owner_of lv' = owner_of lv" "nwaiter_of lv' = nwaiter_of lv"
    "recover_of lv' = recover_of lv"
proof -
  let ?w = "(waiter_tid_of lv + (2 ^ 23 - unat t mod 2 ^ 23)) mod 2 ^ 23"
  have "lv' = mk_lockval (owner_of lv) (nwaiter_of lv) (recover_of lv) (waiter_tid_of lv)
      - mk_lockval 0 0 0 (unat t mod 2 ^ 23)"
    by (simp add: lv'_def mtx_lockval_eq mk_lockval_fields)
  also have "\<dots> = mk_lockval (owner_of lv) (nwaiter_of lv) (recover_of lv) ?w"
    by (rule mk_lockval_sub_wt) simp
  finally have e: "lv' = mk_lockval (owner_of lv) (nwaiter_of lv) (recover_of lv) ?w" .
  have w: "?w < 2 ^ 23" by (rule mod_less_divisor) simp
  show "owner_of lv' = owner_of lv" "nwaiter_of lv' = nwaiter_of lv"
    "recover_of lv' = recover_of lv"
    unfolding e by (simp_all only: fields_mk_lockval [OF owner_of_less nwaiter_of_less recover_of_less w])
qed

lemma fields_unlock:
  assumes "owner_of lv = unat t"
  shows "owner_of (lv - tidval t) = 0" "nwaiter_of (lv - tidval t) = nwaiter_of lv"
    "recover_of (lv - tidval t) = recover_of lv"
proof -
  have "lv - tidval t =
      mk_lockval (owner_of lv) (nwaiter_of lv) (recover_of lv) (waiter_tid_of lv) - mk_lockval (owner_of lv) 0 0 0"
    by (simp add: assms tidval_def mk_lockval_fields [of lv, unfolded assms])
  also have "\<dots> = mk_lockval 0 (nwaiter_of lv) (recover_of lv) (waiter_tid_of lv)"
    by (simp add: mk_lockval_sub)
  finally have e: "lv - tidval t = mk_lockval 0 (nwaiter_of lv) (recover_of lv) (waiter_tid_of lv)" .
  show "owner_of (lv - tidval t) = 0" "nwaiter_of (lv - tidval t) = nwaiter_of lv"
    "recover_of (lv - tidval t) = recover_of lv"
    unfolding e by (simp_all add: fields_mk_lockval lockval)
qed

lemma fields_clear_owner:
  "owner_of (lv AND NOT MTX_OWNER_TID_MASK) = 0"
  "nwaiter_of (lv AND NOT MTX_OWNER_TID_MASK) = nwaiter_of lv"
  "recover_of (lv AND NOT MTX_OWNER_TID_MASK) = recover_of lv"
  by (simp_all add: fields_mk_lockval lockval)

lemma fields_clear_waiter:
  "owner_of (lv AND NOT MTX_WAITER_TID_MASK) = owner_of lv"
  "nwaiter_of (lv AND NOT MTX_WAITER_TID_MASK) = nwaiter_of lv"
  "recover_of (lv AND NOT MTX_WAITER_TID_MASK) = recover_of lv"
  by (simp_all add: fields_mk_lockval lockval)

lemma fields_zero [simp]: "owner_of 0 = 0" "nwaiter_of 0 = 0" "recover_of 0 = 0" "waiter_tid_of 0 = 0"
  by (simp_all add: field_defs)

lemma fields_tidval: "owner_of (tidval t) = unat t" "nwaiter_of (tidval t) = 0" "recover_of (tidval t) = 0"
  using fields_acquire [of 0 t] by simp_all

section \<open>The effect of one access\<close>

text \<open>
  Seen from outside, a step of thread \<open>t\<close> leaves the owner alone, or acquires a free mutex, or
  releases the one it owns; the waiter count moves with the registration of \<open>t\<close>.
\<close>

definition step_effect :: "dword \<Rightarrow> lockval \<Rightarrow> mtx_pc \<Rightarrow> lockval \<Rightarrow> mtx_pc \<Rightarrow> bool" where
  "step_effect t lk p lk' p' \<longleftrightarrow>
     recover_of lk' = 0 \<and>
     nwaiter_of lk' + of_bool (registered p) = nwaiter_of lk + of_bool (registered p') \<and>
     (owner_of lk' = owner_of lk \<and> (owns p' \<longleftrightarrow> owns p) \<or>
      owner_of lk = 0 \<and> owner_of lk' = unat t \<and> \<not> owns p \<and> owns p' \<or>
      owner_of lk' = 0 \<and> owns p \<and> \<not> owns p')"

lemmas pc_class_defs = owns_def registered_def outside_def inside_def

lemma leave_lock_True:
  "owns (pc (leave_lock th True v))" "\<not> registered (pc (leave_lock th True v))"
  "local_ok N t (pc (leave_lock th True v))"
  by (auto simp: leave_lock_def finish_mtx_lock_def pc_class_defs Let_def)

lemma leave_lock_False:
  "pc (leave_lock th False v) = Outside (Some EBUSY)"
  by (auto simp: leave_lock_def finish_mtx_lock_def Let_def)

lemma leave_lock_id [simp]: "thread_id (rdata (leave_lock th b v)) = thread_id (rdata th)"
  by (auto simp: leave_lock_def finish_mtx_lock_def Let_def split: option.splits)

text \<open>What an access may assume: the invariant, seen by the thread that makes it.\<close>

definition step_pre :: "nat \<Rightarrow> dword \<Rightarrow> lockval \<Rightarrow> mtx_thread \<Rightarrow> bool" where
  "step_pre N t lk th \<longleftrightarrow>
     N \<le> 255 \<and> recover_of lk = 0 \<and> thread_id (rdata th) = t \<and> local_ok N t (pc th) \<and>
     (registered (pc th) \<longrightarrow> 0 < nwaiter_of lk) \<and> (\<not> registered (pc th) \<longrightarrow> nwaiter_of lk < N) \<and>
     (owns (pc th) \<longrightarrow> owner_of lk = unat t)"

definition step_post :: "nat \<Rightarrow> dword \<Rightarrow> lockval \<Rightarrow> mtx_thread \<Rightarrow> lockval \<Rightarrow> mtx_thread \<Rightarrow> bool" where
  "step_post N t lk th lk' th' \<longleftrightarrow>
     step_effect t lk (pc th) lk' (pc th') \<and> thread_id (rdata th') = t \<and> local_ok N t (pc th')"

lemma not_unrecoverable: "recover_of lv = 0 \<Longrightarrow> \<not> is_mtx_unrecoverable lv"
  by (simp add: is_mtx_unrecoverable_iff)

lemma lock_try_post:
  assumes "step_pre N t lk th" "pc th = LockTry oldval incval notified"
    "lock_try lk oldval incval notified th = (lk', th')"
  shows "step_post N t lk th lk' th'"
  using assms
  by (cases notified)
    (auto simp: step_pre_def step_post_def step_effect_def lock_try_def atomic_defs Let_def
      not_unrecoverable leave_lock_True leave_lock_False fields_acquire fields_acquire_waiter
      pc_class_defs [of "LockTry _ _ _"] pc_class_defs [of "RegTry _ _"] pc_class_defs [of "LockWait _"]
      split: if_splits)

lemma reg_try_post:
  assumes "step_pre N t lk th" "pc th = RegTry oldval incval"
    "reg_try lk oldval incval th = (lk', th')"
  shows "step_post N t lk th lk' th'"
  using assms
  by (auto simp: step_pre_def step_post_def step_effect_def reg_try_def atomic_defs Let_def
      not_unrecoverable is_mtx_waiterlist_full_iff fields_register pc_class_defs split: if_splits)

lemma reg_done_post:
  assumes "step_pre N t lk th" "pc th = RegDone incval" "reg_done lk incval th = (lk', th')"
  shows "step_post N t lk th lk' th'"
  using assms
  by (auto simp: step_pre_def step_post_def step_effect_def reg_done_def atomic_defs Let_def
      fields_release_waitlist fields_clear_owner fields_clear_waiter mtx_lockval_one
      and.commute [of "NOT MTX_WAITER_TID_MASK"] pc_class_defs)

lemma lock_reload_post:
  assumes "step_pre N t lk th" "pc th = LockReload incval" "lock_reload lk incval th = (lk', th')"
  shows "step_post N t lk th lk' th'"
  using assms
  by (auto simp: step_pre_def step_post_def step_effect_def lock_reload_def fields_clear_owner
      pc_class_defs)

lemma trylock_try_post:
  assumes "step_pre N t lk th" "pc th = TryTry i oldval newval"
    "trylock_try lk i oldval newval th = (lk', th')"
  shows "step_post N t lk th lk' th'"
  using assms
  by (auto simp: step_pre_def step_post_def step_effect_def trylock_try_def atomic_defs Let_def
      not_unrecoverable leave_lock_True leave_lock_False fields_acquire fields_clear_owner fields_tidval
      pc_class_defs [of "TryTry _ _ _"] pc_class_defs [of "Outside _"] add.commute
      split: if_splits)

lemma unlock_load_post:
  assumes "step_pre N t lk th" "pc th = UnlockLoad" "unlock_load t k lk th = (lk', th')"
  shows "step_post N t lk th lk' th'"
  using assms
  by (auto simp: step_pre_def step_post_def step_effect_def unlock_load_def Let_def
      is_mtx_ownerdead_iff mtx_lockval_tid start_mtx_operation_def pc_class_defs)

lemma unlock_sub_post:
  assumes "step_pre N t lk th" "pc th = UnlockSub uv unrec" "unlock_sub lk uv unrec th = (lk', th')"
  shows "step_post N t lk th lk' th'"
  using assms
  by (auto simp: step_pre_def step_post_def step_effect_def unlock_sub_def atomic_defs Let_def
      finish_mtx_unlock_def fields_unlock pc_class_defs split: if_splits)

text \<open>Steps that leave the lock value alone and only move the program counter.\<close>

lemma silent_post:
  assumes "step_pre N t lk th" "thread_id (rdata th') = t" "local_ok N t (pc th')"
    "registered (pc th') = registered (pc th)" "owns (pc th') = owns (pc th)"
  shows "step_post N t lk th lk th'"
  using assms by (simp add: step_pre_def step_post_def step_effect_def)

lemma advance_post:
  assumes pre: "step_pre N t lk th" and step: "mtx_advance t k lk th = (lk', th')"
  shows "step_post N t lk th lk' th'"
proof -
  have id: "thread_id (rdata th) = t" and ok: "local_ok N t (pc th)"
    using pre by (simp_all add: step_pre_def)
  show ?thesis
  proof (cases "pc th")
    case (LockTry o' i n) with pre step show ?thesis by (auto intro: lock_try_post)
  next
    case (RegTry o' i) with pre step show ?thesis by (auto intro: reg_try_post)
  next
    case (RegFull i) with ok show ?thesis by simp
  next
    case (RegDone i) with pre step show ?thesis by (auto intro: reg_done_post)
  next
    case (LockWait i)
    with pre step ok id show ?thesis by (auto intro!: silent_post simp: pc_class_defs)
  next
    case (LockReload i) with pre step show ?thesis by (auto intro: lock_reload_post)
  next
    case (TryTry i o' n) with pre step show ?thesis by (auto intro: trylock_try_post)
  next
    case UnlockLoad with pre step show ?thesis by (auto intro: unlock_load_post)
  next
    case (UnlockSub u b) with pre step show ?thesis by (auto intro: unlock_sub_post)
  next
    case (UnlockWake n)
    with pre step ok id show ?thesis
      by (auto intro!: silent_post simp: pc_class_defs unlock_wake_def finish_mtx_unlock_def)
  qed (use pre step ok id in \<open>auto intro!: silent_post\<close>)
qed

section \<open>The invariant holds in every reachable state\<close>

lemma card_waiters_upd:
  assumes "finite T" "t \<in> T"
  shows "card (waiters T (upd_thread s t th)) + of_bool (registered (pc (threads s t)))
    = card (waiters T s) + of_bool (registered (pc th))"
proof -
  have w: "waiters T (upd_thread s t th) =
      (if registered (pc th) then insert t (waiters T s) else waiters T s - {t})"
    using assms(2) by (auto simp: waiters_def)
  have fin: "finite (waiters T s)" using assms(1) by (simp add: waiters_def)
  have mem: "t \<in> waiters T s \<longleftrightarrow> registered (pc (threads s t))"
    using assms(2) by (simp add: waiters_def)
  show ?thesis
    unfolding w using fin mem card_Suc_Diff1 [OF fin, of t]
    by (auto simp: card_insert_if simp del: card_Diff_insert)
qed

lemma waiters_lock_upd [simp]: "waiters T (s\<lparr>lock := lv\<rparr>) = waiters T s"
  by (simp add: waiters_def)

lemma card_waiters_less:
  assumes "finite T" "t \<in> T" "\<not> registered (pc (threads s t))"
  shows "card (waiters T s) < card T"
  using assms by (intro psubset_card_mono) (auto simp: waiters_def)

lemma inv_step_pre:
  assumes "mtx_inv T s" "t \<in> T" "finite T" "card T \<le> 255"
  shows "step_pre (card T) t (lock s) (threads s t)"
proof -
  have "registered (pc (threads s t)) \<Longrightarrow> 0 < card (waiters T s)"
    using assms(2,3) by (auto simp: card_gt_0_iff waiters_def)
  with assms card_waiters_less [of T t s] show ?thesis
    unfolding step_pre_def mtx_inv_def by auto
qed

text \<open>A step whose effect is known keeps the invariant.\<close>

lemma mtx_inv_upd:
  assumes inv: "mtx_inv T s" and T: "finite T" "0 \<notin> T" "t \<in> T"
    and post: "step_post (card T) t (lock s) (threads s t) lv th"
  shows "mtx_inv T (upd_thread (s\<lparr>lock := lv\<rparr>) t th)"
proof -
  let ?s' = "upd_thread (s\<lparr>lock := lv\<rparr>) t th"
  have eff: "step_effect t (lock s) (pc (threads s t)) lv (pc th)"
    and th: "thread_id (rdata th) = t" "local_ok (card T) t (pc th)"
    using post by (simp_all add: step_post_def)
  have inj: "unat u = unat v \<longleftrightarrow> u = v" for u v :: dword by (simp add: word_unat_eq_iff)
  have nz: "u \<in> T \<Longrightarrow> unat u \<noteq> 0" for u using T(2) by (auto simp: unat_eq_zero)
  have cnt: "nwaiter_of lv = card (waiters T ?s')"
  proof -
    have "card (waiters T (upd_thread (s\<lparr>lock := lv\<rparr>) t th)) + of_bool (registered (pc (threads s t)))
        = card (waiters T s) + of_bool (registered (pc th))"
      using card_waiters_upd [OF T(1,3), of "s\<lparr>lock := lv\<rparr>" th] by simp
    then show ?thesis using eff inv unfolding step_effect_def mtx_inv_def by linarith
  qed
  have own: "owns (pc (threads ?s' u)) \<longleftrightarrow> owner_of lv = unat u" if "u \<in> T" for u
    using eff inv that T(3) nz [of u] nz [of t] inj unfolding step_effect_def mtx_inv_def
    by (cases "u = t") (auto; metis)+
  have some: "owner_of lv = 0 \<or> (\<exists>u \<in> T. owner_of lv = unat u)"
    using eff inv T(3) unfolding step_effect_def mtx_inv_def by auto
  show ?thesis
    using eff inv cnt own some th unfolding mtx_inv_def step_effect_def
    by auto
qed

lemma enter_post:
  assumes "step_pre N t lk th" "outside (pc th)"
  shows "step_post N t lk th lk (lock_enter t k th)" "step_post N t lk th lk (trylock_enter t k th)"
  using assms
  by (auto simp: step_pre_def step_post_def step_effect_def lock_enter_def trylock_enter_def
      start_mtx_operation_def mtx_lockval_tid pc_class_defs split: mtx_pc.splits)

lemma unlock_call_post:
  assumes "step_pre N t lk th" "inside (pc th)"
  shows "step_post N t lk th lk (th\<lparr>pc := UnlockLoad\<rparr>)"
  using assms
  by (auto intro!: silent_post simp: step_pre_def pc_class_defs split: mtx_pc.splits)

lemma sys_step_inv:
  assumes "sys_step T s s'" "mtx_inv T s" "finite T" "card T \<le> 255" "0 \<notin> T"
  shows "mtx_inv T s'"
  using assms
proof (cases rule: sys_step.cases)
  case (call_lock t)
  with assms mtx_inv_upd [of T s t "lock s"] inv_step_pre [of T s t] enter_post(1) show ?thesis by auto
next
  case (call_trylock t)
  with assms mtx_inv_upd [of T s t "lock s"] inv_step_pre [of T s t] enter_post(2) show ?thesis by auto
next
  case (call_unlock t)
  with assms mtx_inv_upd [of T s t "lock s"] inv_step_pre [of T s t] unlock_call_post show ?thesis by auto
next
  case (advance t lv th)
  with assms mtx_inv_upd [of T s t lv th] inv_step_pre [of T s t] advance_post show ?thesis by metis
qed

lemma mtx_inv_initial: "mtx_initial s \<Longrightarrow> 0 \<notin> T \<Longrightarrow> mtx_inv T s"
proof -
  assume init: "mtx_initial s" and T: "0 \<notin> T"
  have out: "\<exists>r. pc (threads s t) = Outside r" for t
    using init by (cases "pc (threads s t)") (auto simp: mtx_initial_def outside_def dest: spec [of _ t])
  have nz: "t \<in> T \<Longrightarrow> unat t \<noteq> 0" for t using T by (auto simp: unat_eq_zero)
  have "waiters T s = {}"
  proof -
    have "\<not> registered (pc (threads s t))" for t
      using out [of t] by (auto simp: registered_def)
    then show ?thesis by (simp add: waiters_def)
  qed
  moreover have "local_ok (card T) t (pc (threads s t))" "\<not> owns (pc (threads s t))" for t
    using out [of t] by (auto simp: owns_def)
  ultimately show ?thesis
    using init nz by (auto simp: mtx_inv_def mtx_initial_def)
qed

lemma mtx_reachable_inv:
  assumes "mtx_reachable T s" "finite T" "card T \<le> 255" "0 \<notin> T"
  shows "mtx_inv T s"
  using assms by (induction rule: mtx_reachable.induct) (auto intro: mtx_inv_initial sys_step_inv)

end
