(* ===== verification/Pshared_Exclusion.thy ===== *)
theory Pshared_Exclusion
  imports Pshared_Machine
begin

unbundle bit_operations_syntax

text \<open>
  What the process shared mutex promises to its clients, as an interface: at most one holder, and
  the mutex is free between two holders. The interface is interpreted on the interleaved machine
  of \<open>Pshared_Machine\<close> for teams of at most 255 threads, the capacity of the waiter count; the
  last section shows that the bound is needed.
\<close>

section \<open>The interface of a mutex\<close>

locale mutex_spec =
  fixes step :: "'s \<Rightarrow> 's \<Rightarrow> bool"
    and start :: "'s \<Rightarrow> bool"
    and holds :: "'s \<Rightarrow> 't \<Rightarrow> bool"
    and good :: "'s \<Rightarrow> bool"
  assumes good_start: "start s \<Longrightarrow> good s"
    and good_step: "good s \<Longrightarrow> step s s' \<Longrightarrow> good s'"
    and excl: "good s \<Longrightarrow> holds s t \<Longrightarrow> holds s u \<Longrightarrow> t = u"
    and no_steal: "good s \<Longrightarrow> step s s' \<Longrightarrow> holds s t \<Longrightarrow> holds s' u \<Longrightarrow> t = u"
begin

lemma good_steps: "step\<^sup>*\<^sup>* s s' \<Longrightarrow> good s \<Longrightarrow> good s'"
  by (induction rule: rtranclp_induct) (auto intro: good_step)

lemma exclusion: "start s \<Longrightarrow> step\<^sup>*\<^sup>* s s' \<Longrightarrow> holds s' t \<Longrightarrow> holds s' u \<Longrightarrow> t = u"
  using good_steps good_start excl by blast

lemma free_between:
  assumes "step\<^sup>*\<^sup>* s s'" "good s" "holds s t" "holds s' u" "t \<noteq> u"
  shows "\<exists>m. step\<^sup>*\<^sup>* s m \<and> step\<^sup>*\<^sup>* m s' \<and> (\<forall>v. \<not> holds m v)"
  using assms
proof (induction arbitrary: t rule: converse_rtranclp_induct)
  case base
  then show ?case using excl by blast
next
  case (step s m)
  have m: "good m" using step.hyps(1) step.prems(1) good_step by blast
  show ?case
  proof (cases "\<exists>v. holds m v")
    case False
    then show ?thesis using step.hyps by (meson r_into_rtranclp)
  next
    case True
    then obtain v where v: "holds m v" by blast
    then have "v = t" using no_steal [OF step.prems(1) step.hyps(1) step.prems(2)] by blast
    with step.IH [OF m _ step.prems(3,4)] v obtain m' where
      "step\<^sup>*\<^sup>* m m'" "step\<^sup>*\<^sup>* m' s'" "\<forall>v. \<not> holds m' v" by blast
    then show ?thesis using step.hyps(1) by (meson converse_rtranclp_into_rtranclp)
  qed
qed

end

section \<open>The machine implements the interface\<close>

text \<open>A team: nonzero thread ids, not more of them than the waiter count can hold.\<close>

definition team :: "dword set \<Rightarrow> bool" where
  "team T \<longleftrightarrow> finite T \<and> card T \<le> 255 \<and> 0 \<notin> T"

definition holder :: "dword set \<Rightarrow> mtx_sys \<Rightarrow> dword \<Rightarrow> bool" where
  "holder T s t \<longleftrightarrow> t \<in> T \<and> owns (pc (threads s t))"

text \<open>The abstract mutex: nobody or one holder, taken only when free, released only by its holder.\<close>

inductive spec_step :: "dword option \<Rightarrow> dword option \<Rightarrow> bool" where
  spec_idle: "spec_step h h"
| spec_acquire: "spec_step None (Some t)"
| spec_release: "spec_step (Some t) None"

inductive_simps spec_step_SomeSome: "spec_step (Some t) (Some u)"

text \<open>The holder, read off the owner field of the lock value.\<close>

definition abs_holder :: "mtx_sys \<Rightarrow> dword option" where
  "abs_holder s = (if owner_of (lock s) = 0 then None else Some (word_of_nat (owner_of (lock s))))"

lemma abs_holder_iff:
  assumes "mtx_inv T s" "0 \<notin> T"
  shows "abs_holder s = Some t \<longleftrightarrow> holder T s t"
proof -
  have r: "unat (word_of_nat (owner_of (lock s)) :: dword) = owner_of (lock s)"
    using owner_of_less [of "lock s"] by (simp add: unat_of_nat)
  have nz: "u \<in> T \<Longrightarrow> unat u \<noteq> 0" for u using assms(2) by (auto simp: unat_eq_zero)
  show ?thesis
  proof
    assume "abs_holder s = Some t"
    then have "owner_of (lock s) \<noteq> 0" "t = word_of_nat (owner_of (lock s))"
      by (auto simp: abs_holder_def split: if_splits)
    then show "holder T s t" using assms(1) by (auto simp: mtx_inv_def holder_def)
  next
    assume "holder T s t"
    then have "owner_of (lock s) = unat t" "t \<in> T" using assms(1) by (auto simp: mtx_inv_def holder_def)
    then show "abs_holder s = Some t" using nz by (auto simp: abs_holder_def)
  qed
qed

lemma step_owner_effect:
  assumes "sys_step T s s'" "mtx_inv T s" "team T"
  shows "\<exists>t \<in> T. step_effect t (lock s) (pc (threads s t)) (lock s') (pc (threads s' t))"
  using assms(1)
proof (cases rule: sys_step.cases)
  case (call_lock t)
  with assms inv_step_pre [of T s t] enter_post(1) [of "card T" t "lock s" "threads s t"]
  show ?thesis by (auto simp: team_def step_post_def)
next
  case (call_trylock t)
  with assms inv_step_pre [of T s t] enter_post(2) [of "card T" t "lock s" "threads s t"]
  show ?thesis by (auto simp: team_def step_post_def)
next
  case (call_unlock t)
  with assms inv_step_pre [of T s t] unlock_call_post [of "card T" t "lock s" "threads s t"]
  show ?thesis by (auto simp: team_def step_post_def)
next
  case (advance t lv th)
  with assms inv_step_pre [of T s t] advance_post [of "card T" t "lock s" "threads s t" "key s" lv th]
  show ?thesis by (auto simp: team_def step_post_def)
qed

lemma sys_step_refines:
  assumes "sys_step T s s'" "mtx_inv T s" "team T"
  shows "spec_step (abs_holder s) (abs_holder s')"
proof -
  obtain t where "step_effect t (lock s) (pc (threads s t)) (lock s') (pc (threads s' t))"
    using step_owner_effect [OF assms] by blast
  then have "owner_of (lock s') = owner_of (lock s) \<or> owner_of (lock s) = 0 \<or> owner_of (lock s') = 0"
    by (auto simp: step_effect_def)
  then show ?thesis by (auto simp: abs_holder_def intro: spec_step.intros)
qed

interpretation pm: mutex_spec
  "\<lambda>(T, s) (T', s'). T' = T \<and> sys_step T s s'"
  "\<lambda>(T, s). team T \<and> mtx_initial s"
  "\<lambda>(T, s) t. holder T s t"
  "\<lambda>(T, s). team T \<and> mtx_inv T s"
proof (unfold_locales, goal_cases)
  case (1 x)
  then show ?case by (auto simp: team_def intro: mtx_inv_initial)
next
  case (2 x y)
  then show ?case by (auto simp: team_def intro: sys_step_inv)
next
  case (3 x t u)
  then show ?case
    by (auto simp: team_def simp flip: abs_holder_iff)
next
  case (4 x y t u)
  obtain T s where x: "x = (T, s)" by fastforce
  obtain s' where y: "y = (T, s')" and st: "sys_step T s s'" using 4(2) x by fastforce
  have T: "team T" and inv: "mtx_inv T s" using 4(1) x by auto
  then have inv': "mtx_inv T s'" using st by (auto simp: team_def intro: sys_step_inv)
  have "abs_holder s = Some t" "abs_holder s' = Some u"
    using 4(3,4) x y T abs_holder_iff [OF inv] abs_holder_iff [OF inv'] by (auto simp: team_def)
  then show ?case using sys_step_refines [OF st inv T] by (simp add: spec_step_SomeSome)
qed

lemma mtx_reachable_steps:
  assumes "mtx_reachable T s" "team T"
  shows "\<exists>s0. mtx_initial s0 \<and> (\<lambda>(T, s) (T', s'). T' = T \<and> sys_step T s s')\<^sup>*\<^sup>* (T, s0) (T, s)"
  using assms
proof (induction rule: mtx_reachable.induct)
  case (init s)
  then show ?case by blast
next
  case (step s s')
  then obtain s0 where s0: "mtx_initial s0"
    "(\<lambda>(T, s) (T', s'). T' = T \<and> sys_step T s s')\<^sup>*\<^sup>* (T, s0) (T, s)" by blast
  have "(\<lambda>(T, s) (T', s'). T' = T \<and> sys_step T s s') (T, s) (T, s')" using step.hyps(2) by simp
  with s0 show ?case by (meson rtranclp.rtrancl_into_rtrancl)
qed

section \<open>Runs\<close>

text \<open>A fresh mutex: every thread has robust data with room for four held keys.\<close>

definition fresh_sys :: "shkey \<Rightarrow> mtx_sys" where
  "fresh_sys k = \<lparr>lock = 0, key = k,
     threads = (\<lambda>t. \<lparr>pc = Outside None,
       rdata = \<lparr>thread_id = t, attempt_key = 0, is_waiter = False, num_locked = 0,
                locked_keys = replicate 4 0\<rparr>\<rparr>)\<rparr>"

lemma fresh_sys_initial: "mtx_initial (fresh_sys k)"
  by (simp add: mtx_initial_def fresh_sys_def outside_def)

lemma fresh_reachable: "mtx_reachable T (fresh_sys k)"
  by (rule mtx_reachable.init) (rule fresh_sys_initial)

text \<open>A run is a list of moves: which thread enters a function or performs its next access.\<close>

datatype move = CallLock dword | CallTrylock dword | CallUnlock dword | Go dword

fun do_move :: "mtx_sys \<Rightarrow> move \<Rightarrow> mtx_sys" where
  "do_move s (CallLock t) =
     (if outside (pc (threads s t)) then upd_thread s t (lock_enter t (key s) (threads s t)) else s)"
| "do_move s (CallTrylock t) =
     (if outside (pc (threads s t)) then upd_thread s t (trylock_enter t (key s) (threads s t)) else s)"
| "do_move s (CallUnlock t) =
     (if inside (pc (threads s t)) then upd_thread s t ((threads s t)\<lparr>pc := UnlockLoad\<rparr>) else s)"
| "do_move s (Go t) =
     (case mtx_advance t (key s) (lock s) (threads s t) of (lv, th) \<Rightarrow> upd_thread (s\<lparr>lock := lv\<rparr>) t th)"

fun move_thread :: "move \<Rightarrow> dword" where
  "move_thread (CallLock t) = t"
| "move_thread (CallTrylock t) = t"
| "move_thread (CallUnlock t) = t"
| "move_thread (Go t) = t"

lemma advance_step:
  "t \<in> T \<Longrightarrow> mtx_advance t (key s) (lock s) (threads s t) = (lv, th) \<Longrightarrow>
     sys_step T s (s\<lparr>lock := lv, threads := (threads s)(t := th)\<rparr>)"
  using sys_step.advance [of t T s lv th] by (simp del: mtx_advance.simps)

lemma do_move_reachable:
  "mtx_reachable T s \<Longrightarrow> move_thread m \<in> T \<Longrightarrow> mtx_reachable T (do_move s m)"
  by (cases m) (auto intro: mtx_reachable.step sys_step.intros advance_step split: prod.splits
      simp del: mtx_advance.simps)

lemma run_reachable:
  "mtx_reachable T s \<Longrightarrow> set (map move_thread ms) \<subseteq> T \<Longrightarrow> mtx_reachable T (foldl do_move s ms)"
  by (induction ms arbitrary: s) (auto intro: do_move_reachable)

section \<open>A full waiter list breaks exclusion\<close>

text \<open>The moves that register one more waiter while another thread owns the mutex.\<close>

definition register_moves :: "dword \<Rightarrow> move list" where
  "register_moves t = [CallLock t, Go t, Go t, Go t]"

lemma register_run:
  fixes a :: dword
  assumes "lock s = mk_lockval (unat a) k 0 0" "k < 255" "a \<noteq> 0"
    "outside (pc (threads s t))" "thread_id (rdata (threads s t)) = t"
  shows "lock (foldl do_move s (register_moves t)) = mk_lockval (unat a) (k + 1) 0 0"
    "u \<noteq> t \<Longrightarrow> threads (foldl do_move s (register_moves t)) u = threads s u"
proof -
  have nz: "unat a \<noteq> 0" using assms(3) by (simp add: unat_eq_zero)
  note f = fields_mk_lockval [of "unat a" k 0 0, OF unat_dword_less]
  have own: "owner_of (lock s) = unat a" "nwaiter_of (lock s) = k" "recover_of (lock s) = 0"
    using assms(1,2) f by simp_all
  have l0: "lock s \<noteq> 0" using own nz by auto
  have nu: "\<not> is_mtx_unrecoverable (lock s)" using own by (simp add: not_unrecoverable)
  have nf: "\<not> is_mtx_waiterlist_full (lock s)" using own assms(2) by (simp add: is_mtx_waiterlist_full_iff)
  let ?l1 = "(lock s AND NOT MTX_WAITER_TID_MASK) + mtx_lockval 0 t 1"
  have l1: "?l1 = mk_lockval (unat a) (k + 1) 0 (unat t mod 2 ^ 23)"
    using own by (simp add: clear_waiter mtx_lockval_eq mk_lockval_add)
  have l2: "?l1 - mtx_lockval 0 t 0 = mk_lockval (unat a) (k + 1) 0 0"
    unfolding l1 by (simp add: mtx_lockval_eq mk_lockval_sub)
  show "lock (foldl do_move s (register_moves t)) = mk_lockval (unat a) (k + 1) 0 0"
    "u \<noteq> t \<Longrightarrow> threads (foldl do_move s (register_moves t)) u = threads s u"
    using assms(4,5) l0 nu nf l2
    by (simp_all add: register_moves_def lock_enter_def lock_try_def reg_try_def reg_done_def
        atomic_defs start_mtx_operation_def Let_def)
qed

lemma register_many:
  fixes a :: dword
  assumes "distinct ts" "lock s = mk_lockval (unat a) k 0 0" "k + length ts \<le> 255" "a \<noteq> 0"
    "\<And>t. t \<in> set ts \<Longrightarrow> outside (pc (threads s t)) \<and> thread_id (rdata (threads s t)) = t"
  defines "s' \<equiv> foldl do_move s (concat (map register_moves ts))"
  shows "lock s' = mk_lockval (unat a) (k + length ts) 0 0" "u \<notin> set ts \<Longrightarrow> threads s' u = threads s u"
proof -
  have "lock (foldl do_move s (concat (map register_moves ts))) = mk_lockval (unat a) (k + length ts) 0 0 \<and>
      (\<forall>u. u \<notin> set ts \<longrightarrow> threads (foldl do_move s (concat (map register_moves ts))) u = threads s u)"
    using assms(1-5)
  proof (induction ts arbitrary: s k)
    case Nil
    then show ?case by simp
  next
    case (Cons t ts)
    let ?m = "foldl do_move s (register_moves t)"
    have r: "lock ?m = mk_lockval (unat a) (k + 1) 0 0"
      "\<And>u. u \<noteq> t \<Longrightarrow> threads ?m u = threads s u"
      using register_run [of s a k t] Cons.prems by auto
    have "u \<noteq> t" if "u \<in> set ts" for u using that Cons.prems(1) by auto
    then have "outside (pc (threads ?m u)) \<and> thread_id (rdata (threads ?m u)) = u" if "u \<in> set ts" for u
      using that r(2) [of u] Cons.prems(5) [of u] by simp
    with Cons.IH [of ?m "k + 1"] Cons.prems r show ?case by auto
  qed
  then show "lock s' = mk_lockval (unat a) (k + length ts) 0 0" "u \<notin> set ts \<Longrightarrow> threads s' u = threads s u"
    by (simp_all add: s'_def)
qed

text \<open>
  With 255 registered waiters, a late thread reloads the lock value with the owner bits in it and
  its compare-exchange succeeds.
\<close>

lemma late_lock:
  fixes a :: dword
  assumes "lock s = mk_lockval (unat a) 255 0 0" "a \<noteq> 0" "outside (pc (threads s t))"
    "0 \<le> num_locked (rdata (threads s t))"
    "num_locked (rdata (threads s t)) < int (length (locked_keys (rdata (threads s t))))"
  defines "s' \<equiv> foldl do_move s [CallLock t, Go t, Go t, Go t, Go t]"
  shows "pc (threads s' t) = Inside None" "u \<noteq> t \<Longrightarrow> threads s' u = threads s u"
proof -
  have nz: "unat a \<noteq> 0" using assms(2) by (simp add: unat_eq_zero)
  note f = fields_mk_lockval [of "unat a" 255 0 0, OF unat_dword_less]
  have own: "owner_of (lock s) = unat a" "nwaiter_of (lock s) = 255" "recover_of (lock s) = 0"
    using assms(1) f by simp_all
  have l0: "lock s \<noteq> 0" using own nz by auto
  have nu: "\<not> is_mtx_unrecoverable (lock s)" using own by (simp add: not_unrecoverable)
  have nd: "\<not> is_mtx_ownerdead (lock s)" using own by (simp add: is_mtx_ownerdead_iff)
  have fl: "is_mtx_waiterlist_full (lock s)" using own by (simp add: is_mtx_waiterlist_full_iff)
  show "pc (threads s' t) = Inside None" "u \<noteq> t \<Longrightarrow> threads s' u = threads s u"
    using assms(3-5) l0 nu nd fl
    by (simp_all add: s'_def lock_enter_def lock_try_def reg_try_def reg_full_def leave_lock_def
        finish_mtx_lock_def atomic_defs start_mtx_operation_def Let_def)
qed

lemma first_lock:
  "(a :: dword) \<noteq> 0 \<Longrightarrow> foldl do_move (fresh_sys k) [CallLock a, Go a] =
     upd_thread ((fresh_sys k)\<lparr>lock := mk_lockval (unat a) 0 0 0\<rparr>) a
       \<lparr>pc = Inside None, rdata = \<lparr>thread_id = a, attempt_key = 0, is_waiter = False, num_locked = 1,
          locked_keys = [k, 0, 0, 0]\<rparr>\<rparr>"
  by (simp add: fresh_sys_def outside_def lock_enter_def lock_try_def leave_lock_def
      finish_mtx_lock_def atomic_defs start_mtx_operation_def is_mtx_ownerdead_def
      mtx_lockval_tid tidval_def Let_def numeral_eq_Suc)

text \<open>The crowd: thread 1 owns the mutex, threads 2 to 256 wait for it, thread 257 comes late.\<close>

definition crowd :: "dword set" where
  "crowd = word_of_nat ` {1..257}"

definition crowd_waiters :: "dword list" where
  "crowd_waiters = map word_of_nat [2..<257]"

definition crowd_run :: "move list" where
  "crowd_run = [CallLock 1, Go 1] @ concat (map register_moves crowd_waiters)
     @ [CallLock 257, Go 257, Go 257, Go 257, Go 257]"

lemma inj_small_dword: "inj_on (word_of_nat :: nat \<Rightarrow> dword) {0..<2 ^ 32}"
proof (rule inj_onI)
  fix x y :: nat
  assume xy: "x \<in> {0..<2 ^ 32}" "y \<in> {0..<2 ^ 32}" and e: "(word_of_nat x :: dword) = word_of_nat y"
  have "unat (word_of_nat x :: dword) = unat (word_of_nat y :: dword)" using e by simp
  with xy show "x = y" unfolding unat_of_nat by simp
qed

lemma inj_crowd: "A \<subseteq> {0..<1000} \<Longrightarrow> inj_on (word_of_nat :: nat \<Rightarrow> dword) A"
  by (rule inj_on_subset [OF inj_small_dword]) auto

lemma crowd_waiters_facts:
  "distinct crowd_waiters" "length crowd_waiters = 255" "set crowd_waiters \<subseteq> crowd"
  "1 \<notin> set crowd_waiters" "257 \<notin> set crowd_waiters"
proof -
  show "distinct crowd_waiters"
    unfolding crowd_waiters_def distinct_map
    by (intro conjI distinct_upt inj_crowd) auto
  show "length crowd_waiters = 255" by (simp add: crowd_waiters_def)
  show "set crowd_waiters \<subseteq> crowd"
    unfolding crowd_waiters_def crowd_def set_map set_upt by (rule image_mono) auto
  have b: "2 \<le> unat t \<and> unat t < 257" if t: "t \<in> set crowd_waiters" for t
  proof -
    obtain n where "t = word_of_nat n" "2 \<le> n" "n < 257"
      using t unfolding crowd_waiters_def set_map set_upt by auto
    then show ?thesis by (simp add: unat_of_nat)
  qed
  show "1 \<notin> set crowd_waiters" "257 \<notin> set crowd_waiters"
    using b [of 1] b [of 257] by auto
qed

lemma crowd_facts: "finite crowd" "card crowd = 257" "0 \<notin> crowd" "1 \<in> crowd" "257 \<in> crowd"
proof -
  show "finite crowd" by (simp add: crowd_def)
  show "card crowd = 257" 
    unfolding crowd_def by (subst card_image) (auto intro: inj_crowd)
  show "0 \<notin> crowd"
  proof
    assume "0 \<in> crowd"
    then obtain n where n: "(0 :: dword) = word_of_nat n" "1 \<le> n" "n \<le> 257" by (auto simp: crowd_def)
    then have "unat (0 :: dword) = n" by (simp only: n(1) unat_of_nat) simp
    with n(2) show False by simp
  qed
  show "1 \<in> crowd" unfolding crowd_def by (rule image_eqI [of _ _ 1]) simp_all
  show "257 \<in> crowd" unfolding crowd_def by (rule image_eqI [of _ _ 257]) simp_all
qed

lemma crowd_run_result:
  fixes k :: shkey
  defines "s \<equiv> foldl do_move (fresh_sys k) crowd_run"
  shows "mtx_reachable crowd s" "pc (threads s 1) = Inside None" "pc (threads s 257) = Inside None"
proof -
  define s1 where "s1 = foldl do_move (fresh_sys k) [CallLock 1, Go 1]"
  define s2 where "s2 = foldl do_move s1 (concat (map register_moves crowd_waiters))"
  note c = crowd_waiters_facts
  note e1 = first_lock [of 1 k, OF one_neq_zero, folded s1_def]
  have split: "s = foldl do_move s2 [CallLock 257, Go 257, Go 257, Go 257, Go 257]"
    by (simp only: s_def s1_def s2_def crowd_run_def foldl_append)
  have th1: "threads s1 t = threads (fresh_sys k) t" if "t \<noteq> 1" for t
    unfolding e1 using that by simp
  have one: "pc (threads s1 1) = Inside None" "lock s1 = mk_lockval (unat (1 :: dword)) 0 0 0"
    unfolding e1 by simp_all
  have out: "outside (pc (threads s1 t)) \<and> thread_id (rdata (threads s1 t)) = t"
    if t: "t \<in> set crowd_waiters" for t
  proof -
    have "t \<noteq> 1" using t c(4) by metis
    then show ?thesis using th1 [of t] by (simp add: fresh_sys_def outside_def)
  qed
  have l2: "lock s2 = mk_lockval (unat (1 :: dword)) 255 0 0"
    using register_many(1) [OF c(1) one(2) _ _ out, folded s2_def] c(2) by simp
  have th2: "threads s2 t = threads s1 t" if "t \<notin> set crowd_waiters" for t
    using register_many(2) [OF c(1) one(2) _ _ out, of t, folded s2_def] c(2) that by simp
  have late: "outside (pc (threads s2 257))" "num_locked (rdata (threads s2 257)) = 0"
    "length (locked_keys (rdata (threads s2 257))) = 4"
    using th2 [OF c(5)] th1 [of 257] by (simp_all add: fresh_sys_def outside_def)
  show "pc (threads s 257) = Inside None"
    unfolding split using late by (intro late_lock(1) [OF l2]) simp_all
  have "threads s 1 = threads s2 1"
    unfolding split using late by (intro late_lock(2) [OF l2]) simp_all
  then show "pc (threads s 1) = Inside None" using th2 [OF c(4)] one(1) by simp
  have "set (map move_thread crowd_run) \<subseteq> crowd"
    using crowd_facts c(3) by (auto simp: crowd_run_def register_moves_def)
  then show "mtx_reachable crowd s"
    unfolding s_def by (intro run_reachable fresh_reachable)
qed

section \<open>Sequential behaviour of trylock\<close>

text \<open>The result of a trylock that no other thread disturbs, as a function of the lock value.\<close>

definition trylock_result :: "lockval \<Rightarrow> bool \<times> retcode" where
  "trylock_result lv =
     (if is_mtx_unrecoverable lv then (False, Some ENOTRECOVERABLE)
      else if is_mtx_locked lv then (False, Some EBUSY)
      else (True, if is_mtx_ownerdead lv then Some EOWNERDEAD else None))"

lemma clear_owner_eq_self: "lv AND NOT MTX_OWNER_TID_MASK = lv \<longleftrightarrow> owner_of lv = 0"
proof
  assume "lv AND NOT MTX_OWNER_TID_MASK = lv"
  then show "owner_of lv = 0" using fields_clear_owner [of lv] by simp
next
  assume "owner_of lv = 0"
  then show "lv AND NOT MTX_OWNER_TID_MASK = lv"
    using mk_lockval_fields [of lv] by (simp add: clear_owner)
qed

lemma trylock_two_tries:
  assumes "outside (pc (threads s t))" "lock s \<noteq> 0"
  shows "foldl do_move s [CallTrylock t, Go t] =
    (let th = (threads s t)\<lparr>rdata := start_mtx_operation (key s) (rdata (threads s t))\<rparr>
     in upd_thread s t
       (if is_mtx_unrecoverable (lock s)
        then (leave_lock th False (lock s))\<lparr>pc := Outside (Some ENOTRECOVERABLE)\<rparr>
        else th\<lparr>pc := TryTry 1 (lock s AND NOT MTX_OWNER_TID_MASK)
                   (tidval t + (lock s AND NOT MTX_OWNER_TID_MASK))\<rparr>))"
  using assms by (simp add: trylock_enter_def trylock_try_def atomic_defs mtx_lockval_tid Let_def
      leave_lock_def finish_mtx_lock_def)

section \<open>Properties\<close>

text \<open>
  C1. Mutual exclusion of the process shared mutex: in every state that a team of threads can reach
  by any interleaving of lock, trylock and unlock, two threads between the return of a successful
  lock (or trylock) and the subtraction of unlock are the same thread.
\<close>

theorem pshared_mutex_exclusion:
  assumes "team T" "mtx_reachable T s" "t \<in> T" "u \<in> T"
    "owns (pc (threads s t))" "owns (pc (threads s u))"
  shows "t = u"
proof -
  obtain s0 where "mtx_initial s0"
    "(\<lambda>(T, s) (T', s'). T' = T \<and> sys_step T s s')\<^sup>*\<^sup>* (T, s0) (T, s)"
    using mtx_reachable_steps assms(1,2) by blast
  then show ?thesis
    using pm.exclusion [of "(T, s0)" "(T, s)" t u] assms by (simp add: holder_def)
qed

definition locked_once :: mtx_sys where
  "locked_once = foldl do_move (fresh_sys 7) [CallLock 1, Go 1]"

lemma locked_once_facts:
  "team {1, 2}" "mtx_reachable {1, 2} locked_once" "owns (pc (threads locked_once 1))"
  "lock locked_once = mk_lockval 1 0 0 0" "pc (threads locked_once 2) = Outside None"
proof -
  show "team {1, 2}" by (simp add: team_def)
  show "mtx_reachable {1, 2} locked_once"
    unfolding locked_once_def by (intro run_reachable fresh_reachable) simp
  note e = first_lock [of 1 7, OF one_neq_zero, folded locked_once_def]
  show "owns (pc (threads locked_once 1))" "lock locked_once = mk_lockval 1 0 0 0"
    "pc (threads locked_once 2) = Outside None"
    unfolding e by (simp_all add: owns_def fresh_sys_def)
qed

theorem pshared_mutex_exclusion_witness:
  "mtx_reachable {1, 2} locked_once \<and> owns (pc (threads locked_once 1)) \<and>
   \<not> owns (pc (threads locked_once 2))"
  using locked_once_facts pshared_mutex_exclusion [OF locked_once_facts(1,2), of 1 2] by auto

text \<open>
  C2. Refinement: every step of every thread, from a reachable state, is a step of the abstract
  mutex (a free mutex is taken, a held one released, or nothing changes), where the abstract holder
  is read off the owner field of the lock value, and that holder is the one thread that owns the
  mutex by its program counter.
\<close>

theorem pshared_mutex_refines:
  assumes "team T" "mtx_reachable T s" "sys_step T s s'"
  shows "spec_step (abs_holder s) (abs_holder s') \<and>
    (\<forall>t. abs_holder s' = Some t \<longleftrightarrow> t \<in> T \<and> owns (pc (threads s' t)))"
proof -
  have T: "finite T" "card T \<le> 255" "0 \<notin> T" using assms(1) by (auto simp: team_def)
  have inv: "mtx_inv T s" by (rule mtx_reachable_inv [OF assms(2) T])
  have inv': "mtx_inv T s'" using assms(2,3) T by (metis mtx_reachable.step mtx_reachable_inv)
  show ?thesis
    using sys_step_refines [OF assms(3) inv assms(1)] abs_holder_iff [OF inv' T(3)]
    by (simp add: holder_def)
qed

lemma locked_once_unlock_step:
  "sys_step {1, 2} locked_once (upd_thread locked_once 1 ((threads locked_once 1)\<lparr>pc := UnlockLoad\<rparr>))"
proof -
  have "inside (pc (threads locked_once 1))"
    unfolding locked_once_def first_lock [of 1 7, OF one_neq_zero] by (simp add: inside_def)
  then show ?thesis by (intro sys_step.call_unlock) simp_all
qed

theorem pshared_mutex_refines_witness:
  "\<exists>s'. sys_step {1, 2} locked_once s' \<and> spec_step (abs_holder locked_once) (abs_holder s')"
  using pshared_mutex_refines [OF locked_once_facts(1,2) locked_once_unlock_step]
    locked_once_unlock_step by blast

text \<open>
  No waiter is forgotten: in every reachable state the waiter count of the lock value is the
  number of threads that have registered and not yet acquired, so the test that unlock makes to
  decide whether to wake somebody up is exact.
\<close>

theorem pshared_waiter_count_exact:
  assumes "team T" "mtx_reachable T s"
  shows "unat (mtx_num_waiter (lock s)) = card (waiters T s) \<and>
    (is_mtx_waited (lock s) \<longleftrightarrow> waiters T s \<noteq> {}) \<and> \<not> is_mtx_ownerdead (lock s)"
proof -
  have T: "finite T" "card T \<le> 255" "0 \<notin> T" using assms(1) by (auto simp: team_def)
  have inv: "mtx_inv T s" by (rule mtx_reachable_inv [OF assms(2) T])
  have "finite (waiters T s)" using T(1) by (simp add: waiters_def)
  then show ?thesis using inv by (auto simp: mtx_inv_def lockval)
qed

theorem pshared_waiter_count_exact_witness:
  "unat (mtx_num_waiter (lock locked_once)) = card (waiters {1, 2} locked_once)"
  using pshared_waiter_count_exact [OF locked_once_facts(1,2)] by blast

text \<open>
  A full waiter list breaks mutual exclusion: with 257 threads there is a reachable state in
  which two different threads have both returned from a successful lock. The late thread takes the
  lock value with the owner bits still in it as the expected value of its compare-exchange, so the
  bound on the team in the theorems above is needed.
\<close>

theorem full_waiterlist_two_owners:
  "\<exists>s. mtx_reachable crowd s \<and> 1 \<in> crowd \<and> 257 \<in> crowd \<and>
     pc (threads s 1) = Inside None \<and> pc (threads s 257) = Inside None"
  using crowd_run_result crowd_facts by blast

text \<open>
  A trylock that no other thread disturbs returns at its second attempt at the latest, from any
  lock value: ENOTRECOVERABLE for an unrecoverable mutex, EBUSY for one with an owner (both leave
  the lock value unchanged), otherwise it takes the mutex, adds its id to the lock value, and
  reports EOWNERDEAD exactly when the need-recover flag is set.
\<close>

theorem pshared_trylock_solo:
  assumes "outside (pc (threads s t))" "0 \<le> num_locked (rdata (threads s t))"
    "num_locked (rdata (threads s t)) < int (length (locked_keys (rdata (threads s t))))"
  shows "let s' = foldl do_move s [CallTrylock t, Go t, Go t]; (got, r) = trylock_result (lock s)
     in pc (threads s' t) = (if got then Inside r else Outside r) \<and>
        lock s' = (if got then lock s + tidval t else lock s)"
proof (cases "lock s = 0")
  case True
  have "\<not> is_mtx_unrecoverable 0" "\<not> is_mtx_locked 0" "\<not> is_mtx_ownerdead 0" by (simp_all add: lockval)
  with True assms show ?thesis
    by (simp add: trylock_result_def trylock_enter_def trylock_try_def atomic_defs leave_lock_def
        finish_mtx_lock_def mtx_lockval_tid start_mtx_operation_def)
next
  case False
  have run: "foldl do_move s [CallTrylock t, Go t, Go t] =
      do_move (foldl do_move s [CallTrylock t, Go t]) (Go t)" by simp
  have self: "lock s AND NOT MTX_OWNER_TID_MASK = lock s \<longleftrightarrow> \<not> is_mtx_locked (lock s)"
    by (simp add: clear_owner_eq_self is_mtx_locked_iff)
  have un: "\<not> is_mtx_unrecoverable (lock s AND NOT MTX_OWNER_TID_MASK)"
    using fields_clear_owner [of "lock s"] by (simp add: is_mtx_unrecoverable_iff)
  show ?thesis
    unfolding run trylock_two_tries [OF assms(1) False] Let_def
    using assms(2,3) self un
    by (auto simp: trylock_result_def trylock_try_def atomic_defs leave_lock_def finish_mtx_lock_def
        start_mtx_operation_def Let_def add.commute)
qed

theorem pshared_trylock_solo_witness:
  "pc (threads (foldl do_move locked_once [CallTrylock 2, Go 2, Go 2]) 2) = Outside (Some EBUSY)"
proof -
  have "is_mtx_locked (lock locked_once)" "\<not> is_mtx_unrecoverable (lock locked_once)"
    using fields_mk_lockval [of 1 0 0 0] by (simp_all add: locked_once_facts lockval)
  then have "trylock_result (lock locked_once) = (False, Some EBUSY)" by (simp add: trylock_result_def)
  moreover have "rdata (threads locked_once 2) = rdata (threads (fresh_sys 7) 2)"
    unfolding locked_once_def first_lock [of 1 7, OF one_neq_zero] by simp
  ultimately show ?thesis
    using pshared_trylock_solo [of locked_once 2] locked_once_facts(5)
    by (simp add: fresh_sys_def outside_def Let_def)
qed

end
