(* ===== verification/Base_Env.thy ===== *)
theory Base_Env
  imports Prelude
begin

text \<open>
  Environment variables and base directories (\<^verbatim>\<open>src/src/utils.c\<close>). The environment is a finite
  map from names to values; \<open>setenv\<close>, \<open>unsetenv\<close> and \<open>getenv\<close> are those of POSIX. The flag
  \<open>alloc_ok\<close> says whether the C library finds the memory it needs.
\<close>

type_synonym environ = "string \<rightharpoonup> string"

section \<open>The C library\<close>

definition env_name_ok :: "string \<Rightarrow> bool" where
  "env_name_ok name \<longleftrightarrow> name \<noteq> [] \<and> CHR ''='' \<notin> set name"

definition setenv :: "bool \<Rightarrow> environ \<Rightarrow> string \<Rightarrow> string \<Rightarrow> int \<Rightarrow> errcode + environ" where
  "setenv alloc_ok env name value overwrite =
     (if \<not> env_name_ok name then Inl EINVAL
      else if env name \<noteq> None \<and> overwrite = 0 then Inr env
      else if \<not> alloc_ok then Inl ENOMEM
      else Inr (env(name \<mapsto> value)))"

definition unsetenv :: "environ \<Rightarrow> string \<Rightarrow> errcode + environ" where
  "unsetenv env name = (if env_name_ok name then Inr (env(name := None)) else Inl EINVAL)"

section \<open>Environment accessors\<close>

definition mm_getenv :: "environ \<Rightarrow> string \<Rightarrow> string option \<Rightarrow> string option" where
  "mm_getenv env name default_value = (case env name of Some value \<Rightarrow> Some value | None \<Rightarrow> default_value)"

definition MM_ENV_DELIM :: "bool \<Rightarrow> string" where
  "MM_ENV_DELIM win32 = (if win32 then '';'' else '':'')"

definition MM_ENV_PRESERVE :: int where "MM_ENV_PRESERVE = 0"
definition MM_ENV_OVERWRITE :: int where "MM_ENV_OVERWRITE = 1"
definition MM_ENV_PREPEND :: int where "MM_ENV_PREPEND = 2"
definition MM_ENV_APPEND :: int where "MM_ENV_APPEND = 3"
definition MM_ENV_MAX :: int where "MM_ENV_MAX = 4"

lemmas env_action_defs = MM_ENV_PRESERVE_def MM_ENV_OVERWRITE_def MM_ENV_PREPEND_def
  MM_ENV_APPEND_def MM_ENV_MAX_def

text \<open>
  The result of \<open>mm_setenv\<close>: the error (\<^const>\<open>None\<close> for the return value 0), the new environment,
  and how many bytes \<open>sprintf\<close> wrote behind the end of the buffer of the combined value.
\<close>

definition mm_setenv ::
  "bool \<Rightarrow> bool \<Rightarrow> environ \<Rightarrow> string \<Rightarrow> string \<Rightarrow> int \<Rightarrow> errcode option \<times> environ \<times> nat" where
  "mm_setenv win32 alloc_ok env name value action =
     (if action < 0 \<or> action \<ge> MM_ENV_MAX then (Some EINVAL, env, 0)
      else
        let (value', overrun) =
              (if action = MM_ENV_PREPEND \<or> action = MM_ENV_APPEND
               then case mm_getenv env name None of
                      Some old_value \<Rightarrow>
                        let size = length value + 1 + length old_value;
                            new_value = (if action = MM_ENV_PREPEND
                                         then value @ MM_ENV_DELIM win32 @ old_value
                                         else old_value @ MM_ENV_DELIM win32 @ value)
                        in (new_value, length new_value + 1 - size)
                    | None \<Rightarrow> (value, 0)
               else (value, 0))
        in case setenv alloc_ok env name value' action of
             Inl e \<Rightarrow> (Some e, env, overrun)
           | Inr env' \<Rightarrow> (None, env', overrun))"

text \<open>\<open>mm_unsetenv\<close>: the return value, the error that was raised, and the new environment.\<close>

definition mm_unsetenv :: "environ \<Rightarrow> string \<Rightarrow> int \<times> errcode option \<times> environ" where
  "mm_unsetenv env name =
     (case unsetenv env name of Inl e \<Rightarrow> (0, Some e, env) | Inr env' \<Rightarrow> (0, None, env'))"

section \<open>Base directories\<close>

datatype mm_known_dir = MM_HOME | MM_DATA_HOME | MM_CONFIG_HOME | MM_CACHE_HOME | MM_RUNTIME_DIR

text \<open>The enumeration value; an int outside of it is no directory type.\<close>

definition known_dir :: "int \<Rightarrow> mm_known_dir option" where
  "known_dir dirtype =
     (if dirtype < 0 \<or> dirtype \<ge> 5 then None
      else Some ([MM_HOME, MM_DATA_HOME, MM_CONFIG_HOME, MM_CACHE_HOME, MM_RUNTIME_DIR] ! nat dirtype))"

type_synonym basedirs = "mm_known_dir \<rightharpoonup> string"

definition set_basedir :: "mm_known_dir \<Rightarrow> string \<Rightarrow> basedirs \<Rightarrow> basedirs" where
  "set_basedir dirtype value dirs = dirs(dirtype \<mapsto> value)"

definition set_dir_or_home_relative ::
  "mm_known_dir \<Rightarrow> string option \<Rightarrow> string \<Rightarrow> string \<Rightarrow> basedirs \<Rightarrow> basedirs" where
  "set_dir_or_home_relative dirtype dir parent suffix dirs =
     (case dir of
        Some d \<Rightarrow> set_basedir dirtype d dirs
      | None \<Rightarrow> set_basedir dirtype (parent @ ''/'' @ suffix) dirs)"

text \<open>\<^const>\<open>None\<close>: no home directory is known and \<open>mm_check\<close> aborts.\<close>

definition init_basedirs :: "environ \<Rightarrow> basedirs \<Rightarrow> basedirs option" where
  "init_basedirs env dirs0 =
     (case mm_getenv env ''HOME'' (mm_getenv env ''USERPROFILE'' None) of
        None \<Rightarrow> None
      | Some home \<Rightarrow>
          let dirs = set_basedir MM_HOME home dirs0;
              dirs = set_dir_or_home_relative MM_CONFIG_HOME
                       (mm_getenv env ''XDG_CONFIG_HOME'' None) home ''.config'' dirs;
              dirs = set_dir_or_home_relative MM_CACHE_HOME
                       (mm_getenv env ''XDG_CACHE_HOME'' None) home ''.cache'' dirs;
              dirs = set_dir_or_home_relative MM_DATA_HOME
                       (mm_getenv env ''XDG_DATA_HOME'' None) home ''.local/share'' dirs
          in Some (set_dir_or_home_relative MM_RUNTIME_DIR
                     (mm_getenv env ''XDG_RUNTIME_DIR'' None)
                     (the (mm_getenv env ''TEMP'' (Some ''/tmp'')))
                     (the (mm_getenv env ''USERNAME'' (Some ''self''))) dirs))"

text \<open>The static state: whether the once routine has run, and the table.\<close>

record basedir_state =
  basedirs_once :: bool
  bdirs :: basedirs

datatype 'a call_result = Done 'a | Raised errcode | Aborted

definition mm_get_basedir :: "environ \<Rightarrow> basedir_state \<Rightarrow> int \<Rightarrow> string call_result \<times> basedir_state" where
  "mm_get_basedir env st dirtype =
     (case known_dir dirtype of
        None \<Rightarrow> (Raised EINVAL, st)
      | Some d \<Rightarrow>
          (case (if basedirs_once st then Some st
                 else map_option (\<lambda>t. \<lparr>basedirs_once = True, bdirs = t\<rparr>) (init_basedirs env (bdirs st))) of
             None \<Rightarrow> (Aborted, st)
           | Some st' \<Rightarrow> (Done (the (bdirs st' d)), st')))"

definition mm_path_from_basedir ::
  "bool \<Rightarrow> environ \<Rightarrow> basedir_state \<Rightarrow> int \<Rightarrow> string option \<Rightarrow> string call_result \<times> basedir_state" where
  "mm_path_from_basedir alloc_ok env st dirtype suffix0 =
     (case suffix0 of
        None \<Rightarrow> (Raised EINVAL, st)
      | Some suffix \<Rightarrow>
          (case mm_get_basedir env st dirtype of
             (Done base, st') \<Rightarrow>
               (if alloc_ok then (Done (base @ ''/'' @ suffix), st') else (Raised ENOMEM, st'))
           | (Raised e, st') \<Rightarrow> (Raised e, st')
           | (Aborted, st') \<Rightarrow> (Aborted, st')))"

section \<open>Facts\<close>

definition basedir_init :: basedir_state where
  "basedir_init = \<lparr>basedirs_once = False, bdirs = Map.empty\<rparr>"

lemma init_basedirs_total:
  "init_basedirs env dirs0 = Some dirs \<Longrightarrow> dirs d \<noteq> None"
  by (cases d) (auto simp: init_basedirs_def Let_def set_dir_or_home_relative_def set_basedir_def
      split: option.splits)

lemma init_basedirs_config:
  "init_basedirs env dirs0 = Some dirs \<Longrightarrow> mm_getenv env ''HOME'' (env ''USERPROFILE'') = Some home \<Longrightarrow>
     dirs MM_HOME = Some home \<and>
     dirs MM_CONFIG_HOME = mm_getenv env ''XDG_CONFIG_HOME'' (Some (home @ ''/.config'')) \<and>
     dirs MM_CACHE_HOME = mm_getenv env ''XDG_CACHE_HOME'' (Some (home @ ''/.cache'')) \<and>
     dirs MM_DATA_HOME = mm_getenv env ''XDG_DATA_HOME'' (Some (home @ ''/.local/share''))"
  by (auto simp: init_basedirs_def Let_def set_dir_or_home_relative_def set_basedir_def mm_getenv_def
      split: option.splits)

section \<open>Properties\<close>

text \<open>
  What \<open>mm_setenv\<close> does to the environment, for each action: with a valid name it leaves every
  other variable alone, and the variable is kept (PRESERVE), replaced (OVERWRITE) or extended in
  front or behind by the delimiter and the new value (PREPEND, APPEND) when it exists; when it does
  not exist it is created with the value.
\<close>

theorem mm_setenv_effect:
  assumes "env_name_ok name" "0 \<le> action" "action < MM_ENV_MAX"
  shows "\<exists>n. mm_setenv win32 True env name value action =
    (None, env(name \<mapsto>
       (case env name of
          None \<Rightarrow> value
        | Some old \<Rightarrow>
            if action = MM_ENV_PRESERVE then old
            else if action = MM_ENV_OVERWRITE then value
            else if action = MM_ENV_PREPEND then value @ MM_ENV_DELIM win32 @ old
            else old @ MM_ENV_DELIM win32 @ value)), n)"
proof -
  have "action = 0 \<or> action = 1 \<or> action = 2 \<or> action = 3" using assms by (auto simp: env_action_defs)
  then show ?thesis using assms(1)
    by (auto simp: mm_setenv_def setenv_def mm_getenv_def env_action_defs Let_def fun_upd_idem
        split: option.splits)
qed

theorem mm_setenv_effect_witness:
  "\<exists>n. mm_setenv False True [''PATH'' \<mapsto> ''/bin''] ''PATH'' ''/opt'' MM_ENV_PREPEND =
     (None, [''PATH'' \<mapsto> ''/opt:/bin''], n)"
  using mm_setenv_effect [of "''PATH''" MM_ENV_PREPEND False "[''PATH'' \<mapsto> ''/bin'']" "''/opt''"]
  by (simp add: env_name_ok_def env_action_defs MM_ENV_DELIM_def)

text \<open>
  The buffer of the combined value is one byte short: prepending to or appending to a variable
  that exists always writes the terminating NUL behind the end of the buffer that was requested,
  and no other call does.
\<close>

theorem mm_setenv_overrun:
  "snd (snd (mm_setenv win32 alloc_ok env name value action)) =
     (if (action = MM_ENV_PREPEND \<or> action = MM_ENV_APPEND) \<and> env name \<noteq> None then 1 else 0)"
  by (auto simp: mm_setenv_def mm_getenv_def env_action_defs MM_ENV_DELIM_def Let_def
      split: option.splits sum.splits)

text \<open>
  \<open>mm_unsetenv\<close> removes the variable and no other one, and it returns 0 also when it raised an
  error (a name that is empty or contains \<open>=\<close>), against its documentation.
\<close>

theorem mm_unsetenv_result:
  "mm_unsetenv env name =
     (0, if env_name_ok name then None else Some EINVAL, if env_name_ok name then env(name := None) else env)"
  by (simp add: mm_unsetenv_def unsetenv_def)

text \<open>
  Base directories: once a first call has succeeded the answer for each of the five directory
  types is fixed, no later change of the environment matters, and it is the XDG variable of the
  environment of that first call, or its documented default below the home directory.
\<close>

theorem mm_get_basedir_fixed:
  assumes "mm_getenv env ''HOME'' (env ''USERPROFILE'') = Some home"
    "mm_get_basedir env basedir_init d0 = (Done base, st)"
  shows "fst (mm_get_basedir env' st 0) = Done home \<and>
    fst (mm_get_basedir env' st 1) = Done (the (mm_getenv env ''XDG_DATA_HOME'' (Some (home @ ''/.local/share'')))) \<and>
    fst (mm_get_basedir env' st 2) = Done (the (mm_getenv env ''XDG_CONFIG_HOME'' (Some (home @ ''/.config'')))) \<and>
    fst (mm_get_basedir env' st 3) = Done (the (mm_getenv env ''XDG_CACHE_HOME'' (Some (home @ ''/.cache'')))) \<and>
    snd (mm_get_basedir env' st d) = st"
proof -
  obtain dirs where i: "init_basedirs env Map.empty = Some dirs" "basedirs_once st" "bdirs st = dirs"
    using assms(2) by (auto simp: mm_get_basedir_def basedir_init_def split: option.splits)
  show ?thesis using init_basedirs_config [OF i(1) assms(1)] i(2,3)
    by (auto simp: mm_get_basedir_def known_dir_def numeral_eq_Suc split: option.splits)
qed

theorem mm_get_basedir_fixed_witness:
  "\<exists>st. mm_get_basedir [''HOME'' \<mapsto> ''/h''] basedir_init 0 = (Done ''/h'', st) \<and>
     fst (mm_get_basedir Map.empty st 2) = Done ''/h/.config''"
proof -
  let ?e = "[''HOME'' \<mapsto> ''/h''] :: environ"
  have "\<exists>st. mm_get_basedir ?e basedir_init 0 = (Done ''/h'', st)"
    by (simp add: mm_get_basedir_def known_dir_def basedir_init_def init_basedirs_def mm_getenv_def
        set_basedir_def set_dir_or_home_relative_def Let_def)
  then obtain st where st: "mm_get_basedir ?e basedir_init 0 = (Done ''/h'', st)" by blast
  have "mm_getenv ?e ''HOME'' (?e ''USERPROFILE'') = Some ''/h''" by (simp add: mm_getenv_def)
  from mm_get_basedir_fixed [OF this st, of Map.empty] st show ?thesis by (auto simp: mm_getenv_def)
qed

end
