(* ===== verification/Arg_Opt.thy ===== *)
theory Arg_Opt
  imports Prelude
begin

unbundle bit_operations_syntax

text \<open>
  Options of the argument parser (\<^verbatim>\<open>src/src/mmargparse.h\<close>, first part of
  \<^verbatim>\<open>src/src/argparse.c\<close>): the option and parser structures, the tests on keys and names, and the
  lookup of an option. Strings are lists of characters without the terminating NUL, and a null
  pointer is \<^const>\<open>None\<close>. Reading a string by index uses \<^const>\<open>cstr_char\<close>.
\<close>

section \<open>Flags\<close>

definition MM_OPT_NOVAL :: int where "MM_OPT_NOVAL = 0x00"
definition MM_OPT_OPTVAL :: int where "MM_OPT_OPTVAL = 0x01"
definition MM_OPT_NEEDVAL :: int where "MM_OPT_NEEDVAL = 0x02"
definition MM_OPT_REQMASK :: int where "MM_OPT_REQMASK = 0x03"
definition MM_OPT_STR :: int where "MM_OPT_STR = 0x00"
definition MM_OPT_INT :: int where "MM_OPT_INT = 0x10"
definition MM_OPT_LLONG :: int where "MM_OPT_LLONG = 0x20"
definition MM_OPT_UINT :: int where "MM_OPT_UINT = 0x90"
definition MM_OPT_ULLONG :: int where "MM_OPT_ULLONG = 0xA0"
definition MM_OPT_TYPEMASK :: int where "MM_OPT_TYPEMASK = 0xF0"
definition MM_OPT_FILEPATH :: int where "MM_OPT_FILEPATH = 0x100"
definition MM_OPT_DIRPATH :: int where "MM_OPT_DIRPATH = 0x200"

lemmas opt_flag_defs = MM_OPT_NOVAL_def MM_OPT_OPTVAL_def MM_OPT_NEEDVAL_def MM_OPT_REQMASK_def
  MM_OPT_STR_def MM_OPT_INT_def MM_OPT_LLONG_def MM_OPT_UINT_def MM_OPT_ULLONG_def
  MM_OPT_TYPEMASK_def MM_OPT_FILEPATH_def MM_OPT_DIRPATH_def

section \<open>Structures\<close>

text \<open>The value of an option; the constructor is the member of the union that was written.\<close>

datatype mm_arg_val =
    ValStr "string option"
  | ValInt int
  | ValLL int
  | ValUInt int
  | ValULL int

text \<open>
  An option: \<open>opt_val\<close> is the address of the variable that receives the value, if there is one.
\<close>

record mm_arg_opt =
  opt_name :: "string option"
  opt_flags :: int
  opt_defval :: "string option"
  opt_val :: "nat option"
  opt_desc :: "string option"

definition help_opt :: mm_arg_opt where
  "help_opt = \<lparr>opt_name = Some ''h|help'', opt_flags = MM_OPT_NOVAL, opt_defval = None,
     opt_val = None, opt_desc = Some ''print this message and exit''\<rparr>"

text \<open>
  A parser: the callback gets the option, the value, the user data and the state flags, and
  returns its code and the new user data.
\<close>

type_synonym 'd mm_arg_callback = "mm_arg_opt \<Rightarrow> mm_arg_val \<Rightarrow> 'd \<Rightarrow> int \<Rightarrow> int \<times> 'd"

record 'd mm_arg_parser =
  p_flags :: int
  p_optv :: "mm_arg_opt list"
  p_doc :: "string option"
  p_args_doc :: "string option"
  p_execname :: "string option"
  p_cb :: "'d mm_arg_callback option"

definition MM_ARG_PARSER_NOEXIT :: int where "MM_ARG_PARSER_NOEXIT = 1"
definition MM_ARG_PARSER_COMPLETION :: int where "MM_ARG_PARSER_COMPLETION = 2"

section \<open>Characters and names\<close>

definition char_in :: "char \<Rightarrow> char \<Rightarrow> char \<Rightarrow> bool" where
  "char_in lo hi ch \<longleftrightarrow> of_char lo \<le> (of_char ch :: nat) \<and> of_char ch \<le> (of_char hi :: nat)"

text \<open>\<open>get_first_token_length\<close>, on the string that starts at \<open>str\<close>.\<close>

fun get_first_token_length :: "string \<Rightarrow> char \<Rightarrow> nat" where
  "get_first_token_length [] breakch = 0"
| "get_first_token_length (ch # str) breakch =
     (if ch \<noteq> breakch then Suc (get_first_token_length str breakch) else 0)"

definition is_valid_short_opt_key :: "char \<Rightarrow> bool" where
  "is_valid_short_opt_key ch \<longleftrightarrow>
     char_in CHR ''a'' CHR ''z'' ch \<or> char_in CHR ''A'' CHR ''Z'' ch"

text \<open>
  The loop of \<open>is_valid_long_opt_name\<close> from index \<open>i\<close>: the index where it stops, or
  \<^const>\<open>None\<close> for a character that is not allowed.
\<close>

fun long_name_scan :: "string \<Rightarrow> bool \<Rightarrow> nat \<Rightarrow> nat option" where
  "long_name_scan [] stop_at_equal i = Some i"
| "long_name_scan (ch # name) stop_at_equal i =
     (if char_in CHR ''a'' CHR ''z'' ch \<or> char_in CHR ''0'' CHR ''9'' ch \<or> ch = CHR ''-''
      then long_name_scan name stop_at_equal (i + 1)
      else if ch = CHR ''='' \<and> stop_at_equal then Some i
      else None)"

definition is_valid_long_opt_name :: "string \<Rightarrow> bool \<Rightarrow> bool" where
  "is_valid_long_opt_name name stop_at_equal =
     (if \<not> char_in CHR ''a'' CHR ''z'' (cstr_char name 0) then False
      else case long_name_scan (drop 1 name) stop_at_equal 1 of
             None \<Rightarrow> False
           | Some i \<Rightarrow> i \<ge> 2)"

text \<open>
  For the argument \<open>-\<close> the code reads index 2, which is behind the terminator: \<open>behind\<close> is the text that the memory holds there,
  up to the next NUL.
\<close>

definition is_arg_an_option :: "string \<Rightarrow> string option \<Rightarrow> bool" where
  "is_arg_an_option behind arg0 =
     (case arg0 of
        None \<Rightarrow> False
      | Some arg \<Rightarrow>
          let arg2 = (if length arg = 1 then behind else drop 2 arg)
          in if cstr_char arg 0 \<noteq> CHR ''-'' then False
             else if cstr_char arg 1 \<noteq> CHR ''-'' \<and> cstr_char arg 1 \<noteq> NUL
             then is_valid_short_opt_key (cstr_char arg 1)
             else if cstr_char arg2 0 \<noteq> CHR ''-'' \<and> cstr_char arg2 0 \<noteq> NUL
             then is_valid_long_opt_name arg2 True
             else False)"

text \<open>
  The argument \<open>-\<close> is taken for an option exactly when the memory behind it reads like the name of a long option, as it does when
  the next argument is stored there.
\<close>

lemma dash_as_option:
  "is_arg_an_option behind (Some ''-'') \<longleftrightarrow> is_valid_long_opt_name behind True"
  "is_arg_an_option ''file'' (Some ''-'')" "\<not> is_arg_an_option [] (Some ''-'')"
proof -
  show d: "is_arg_an_option behind (Some ''-'') \<longleftrightarrow> is_valid_long_opt_name behind True" for behind
    by (auto simp: is_arg_an_option_def is_valid_long_opt_name_def cstr_char_def char_in_def)
  show "is_arg_an_option ''file'' (Some ''-'')" "\<not> is_arg_an_option [] (Some ''-'')" by code_simp+
qed

definition is_char_valid_for_value_name :: "char \<Rightarrow> bool" where
  "is_char_valid_for_value_name ch \<longleftrightarrow>
     char_in CHR ''A'' CHR ''Z'' ch \<or> ch = CHR ''-'' \<or> ch = CHR ''_''"

section \<open>Key, name and type of an option\<close>

text \<open>The name of an option whose name is set; the callers have checked it.\<close>

abbreviation name_of :: "mm_arg_opt \<Rightarrow> string" where
  "name_of opt \<equiv> the (opt_name opt)"

text \<open>The key 0 (there is none) is NUL.\<close>

definition mm_arg_opt_get_key :: "mm_arg_opt \<Rightarrow> char" where
  "mm_arg_opt_get_key opt =
     (let sep = cstr_char (name_of opt) 1
      in if sep = CHR ''|'' \<or> sep = NUL then cstr_char (name_of opt) 0 else NUL)"

definition mm_arg_opt_get_name :: "mm_arg_opt \<Rightarrow> string option" where
  "mm_arg_opt_get_name opt =
     (let sep = cstr_char (name_of opt) 1
      in if sep = NUL then None
         else let offset = (if sep = CHR ''|'' then 2 else 0) in Some (drop offset (name_of opt)))"

definition mm_arg_opt_get_type :: "mm_arg_opt \<Rightarrow> int" where
  "mm_arg_opt_get_type opt = opt_flags opt AND MM_OPT_TYPEMASK"

section \<open>Lookup\<close>

text \<open>\<open>strncmp(a, b, n) == 0\<close>\<close>

fun strncmp_eq :: "string \<Rightarrow> string \<Rightarrow> nat \<Rightarrow> bool" where
  "strncmp_eq a b 0 = True"
| "strncmp_eq [] [] (Suc n) = True"
| "strncmp_eq [] (y # b) (Suc n) = False"
| "strncmp_eq (x # a) [] (Suc n) = False"
| "strncmp_eq (x # a) (y # b) (Suc n) = (x = y \<and> strncmp_eq a b n)"

abbreviation IGNORE_KEY :: char where
  "IGNORE_KEY \<equiv> NUL"

definition match_opt_key_or_name :: "mm_arg_opt \<Rightarrow> char \<Rightarrow> string \<Rightarrow> nat \<Rightarrow> bool" where
  "match_opt_key_or_name opt key name namelen =
     (if key \<noteq> IGNORE_KEY then key = mm_arg_opt_get_key opt
      else case mm_arg_opt_get_name opt of
             None \<Rightarrow> False
           | Some lname \<Rightarrow> strncmp_eq lname name namelen \<and> cstr_char lname namelen = NUL)"

text \<open>The option that was found: one of the user's, by its index, or the built-in help option.\<close>

datatype found_opt = UserOpt nat | HelpOpt

fun find_user_opt :: "mm_arg_opt list \<Rightarrow> char \<Rightarrow> string \<Rightarrow> nat \<Rightarrow> nat \<Rightarrow> nat option" where
  "find_user_opt [] key name namelen i = None"
| "find_user_opt (opt # optv) key name namelen i =
     (if match_opt_key_or_name opt key name namelen then Some i
      else find_user_opt optv key name namelen (i + 1))"

definition find_opt :: "'d mm_arg_parser \<Rightarrow> char \<Rightarrow> string \<Rightarrow> nat \<Rightarrow> found_opt option" where
  "find_opt parser key name namelen =
     (case find_user_opt (p_optv parser) key name namelen 0 of
        Some i \<Rightarrow> Some (UserOpt i)
      | None \<Rightarrow> if match_opt_key_or_name help_opt key name namelen then Some HelpOpt else None)"

definition opt_of :: "'d mm_arg_parser \<Rightarrow> found_opt \<Rightarrow> mm_arg_opt" where
  "opt_of parser f = (case f of UserOpt i \<Rightarrow> p_optv parser ! i | HelpOpt \<Rightarrow> help_opt)"

section \<open>Validation\<close>

definition validate_option :: "mm_arg_opt \<Rightarrow> bool" where
  "validate_option opt =
     (if opt_name opt = None \<or> cstr_char (name_of opt) 0 = NUL then False
      else
        let key = mm_arg_opt_get_key opt; lname = mm_arg_opt_get_name opt
        in \<not> ((key \<noteq> NUL \<and> \<not> is_valid_short_opt_key key)
             \<or> (case lname of None \<Rightarrow> False | Some n \<Rightarrow> \<not> is_valid_long_opt_name n False)))"

text \<open>The index of the first option that is not valid, as the loop finds it.\<close>

fun validate_loop :: "mm_arg_opt list \<Rightarrow> mm_arg_opt option" where
  "validate_loop [] = None"
| "validate_loop (opt # optv) = (if validate_option opt then validate_loop optv else Some opt)"

text \<open>\<open>validate_options\<close>: the message written to standard error, \<^const>\<open>None\<close> for success.\<close>

definition validate_options :: "'d mm_arg_parser \<Rightarrow> string option" where
  "validate_options parser =
     (case validate_loop (p_optv parser) of
        None \<Rightarrow> None
      | Some opt \<Rightarrow>
          Some (if opt_name opt = None \<or> cstr_char (name_of opt) 0 = NUL
                then ''name in mm_arg_opt must be set'' @ [CHR 0x0A]
                else ''invalid short or long name for option '' @ name_of opt @ [CHR 0x0A]))"

section \<open>Facts\<close>

lemma token_length_le: "get_first_token_length str c \<le> length str"
  by (induction str c rule: get_first_token_length.induct) auto

lemma take_token: "take (get_first_token_length str c) str = takeWhile (\<lambda>x. x \<noteq> c) str"
  by (induction str c rule: get_first_token_length.induct) auto

lemma token_length_eq: "get_first_token_length str c = length (takeWhile (\<lambda>x. x \<noteq> c) str)"
  by (induction str c rule: get_first_token_length.induct) auto

lemma token_at: "no_nul str \<Longrightarrow> cstr_char str (get_first_token_length str c) = c \<longleftrightarrow> c \<in> set str \<or> c = NUL"
  by (induction str c rule: get_first_token_length.induct) auto

lemma drop_token: "drop (get_first_token_length str c) str = dropWhile (\<lambda>x. x \<noteq> c) str"
  by (induction str c rule: get_first_token_length.induct) auto

text \<open>The comparison of a prefix followed by the test for the terminator is an equality.\<close>

lemma strncmp_eq_exact:
  "no_nul a \<Longrightarrow> n \<le> length b \<Longrightarrow> strncmp_eq a b n \<and> cstr_char a n = NUL \<longleftrightarrow> a = take n b"
proof (induction a b n rule: strncmp_eq.induct)
  case (1 a b)
  then show ?case by (cases a) auto
qed auto

lemma strncmp_eq_prefix: "strncmp_eq a b (length a) \<longleftrightarrow> a = take (length a) b"
proof (induction a arbitrary: b)
  case (Cons x a)
  then show ?case by (cases b) auto
qed simp

text \<open>Option names as C strings.\<close>

definition opts_no_nul :: "mm_arg_opt list \<Rightarrow> bool" where
  "opts_no_nul optv \<longleftrightarrow> (\<forall>opt \<in> set optv. no_nul (name_of opt))"

lemma get_name_no_nul: "no_nul (name_of opt) \<Longrightarrow> mm_arg_opt_get_name opt = Some n \<Longrightarrow> no_nul n"
  by (auto simp: mm_arg_opt_get_name_def Let_def split: if_splits)

lemma match_long:
  assumes "no_nul (name_of opt)" "n \<le> length name"
  shows "match_opt_key_or_name opt NUL name n \<longleftrightarrow> mm_arg_opt_get_name opt = Some (take n name)"
  using assms strncmp_eq_exact [of _ n name] get_name_no_nul [of opt]
  by (auto simp: match_opt_key_or_name_def split: option.splits)

lemma match_short: "key \<noteq> NUL \<Longrightarrow> match_opt_key_or_name opt key name n \<longleftrightarrow> mm_arg_opt_get_key opt = key"
  by (auto simp: match_opt_key_or_name_def)

text \<open>The first option that matches, by its index from \<open>k\<close> on.\<close>

lemma find_user_opt_Some:
  "find_user_opt optv key name n k = Some i \<Longrightarrow>
     k \<le> i \<and> i - k < length optv \<and> match_opt_key_or_name (optv ! (i - k)) key name n \<and>
     (\<forall>j < i - k. \<not> match_opt_key_or_name (optv ! j) key name n)"
proof (induction optv key name n k rule: find_user_opt.induct)
  case (2 opt optv key name n k)
  show ?case
  proof (cases "match_opt_key_or_name opt key name n")
    case True
    then show ?thesis using 2(2) by simp
  next
    case False
    with 2 have ih: "k + 1 \<le> i \<and> i - (k + 1) < length optv \<and>
        match_opt_key_or_name (optv ! (i - (k + 1))) key name n \<and>
        (\<forall>j < i - (k + 1). \<not> match_opt_key_or_name (optv ! j) key name n)" by simp
    then have d: "i - k = Suc (i - (k + 1))" by arith
    have "\<not> match_opt_key_or_name ((opt # optv) ! j) key name n" if "j < i - k" for j
      using that False ih d by (cases j) auto
    then show ?thesis using ih d by simp
  qed
qed simp

lemma find_user_opt_None:
  "find_user_opt optv key name n k = None \<longleftrightarrow> (\<forall>opt \<in> set optv. \<not> match_opt_key_or_name opt key name n)"
  by (induction optv key name n k rule: find_user_opt.induct) auto

lemma find_opt_UserOpt:
  "find_opt parser key name n = Some (UserOpt i) \<Longrightarrow>
     i < length (p_optv parser) \<and> match_opt_key_or_name (p_optv parser ! i) key name n \<and>
     (\<forall>j < i. \<not> match_opt_key_or_name (p_optv parser ! j) key name n)"
  using find_user_opt_Some [of "p_optv parser" key name n 0 i]
  by (auto simp: find_opt_def split: option.splits if_splits)

lemma find_opt_no_user:
  "find_opt parser key name n = Some HelpOpt \<or> find_opt parser key name n = None \<Longrightarrow>
     (\<forall>opt \<in> set (p_optv parser). \<not> match_opt_key_or_name opt key name n) \<and>
     (find_opt parser key name n = Some HelpOpt \<longleftrightarrow> match_opt_key_or_name help_opt key name n)"
  using find_user_opt_None [of "p_optv parser" key name n 0]
  by (auto simp: find_opt_def split: option.splits if_splits)

lemma help_opt_names: "mm_arg_opt_get_name help_opt = Some ''help''" "mm_arg_opt_get_key help_opt = CHR ''h''"
  "no_nul (name_of help_opt)"
  by (simp_all add: help_opt_def mm_arg_opt_get_name_def mm_arg_opt_get_key_def)

text \<open>Long option names as a set of strings.\<close>

definition long_name_char :: "char \<Rightarrow> bool" where
  "long_name_char ch \<longleftrightarrow>
     char_in CHR ''a'' CHR ''z'' ch \<or> char_in CHR ''0'' CHR ''9'' ch \<or> ch = CHR ''-''"

lemma long_name_scan_False:
  "long_name_scan name False i = (if \<forall>c \<in> set name. long_name_char c then Some (i + length name) else None)"
  by (induction name arbitrary: i) (auto simp: long_name_char_def)

lemma is_valid_long_opt_name_iff:
  "is_valid_long_opt_name name False \<longleftrightarrow>
     2 \<le> length name \<and> char_in CHR ''a'' CHR ''z'' (hd name) \<and> (\<forall>c \<in> set (tl name). long_name_char c)"
  by (cases name) (auto simp: is_valid_long_opt_name_def long_name_scan_False char_in_def)

lemma validate_loop_None: "validate_loop optv = None \<longleftrightarrow> (\<forall>opt \<in> set optv. validate_option opt)"
  by (induction optv) auto

section \<open>Properties\<close>

text \<open>
  Looking up a long option: the result is the first option of the parser whose long name is
  exactly the name that was given (its first \<open>n\<close> characters), the built-in help option when no
  option of the parser has that name and the name is \<open>help\<close>, and nothing otherwise.
\<close>

theorem find_opt_long:
  assumes "opts_no_nul (p_optv parser)" "n \<le> length name"
  shows "case find_opt parser NUL name n of
      Some (UserOpt i) \<Rightarrow> i < length (p_optv parser) \<and>
        mm_arg_opt_get_name (p_optv parser ! i) = Some (take n name) \<and>
        (\<forall>j < i. mm_arg_opt_get_name (p_optv parser ! j) \<noteq> Some (take n name))
    | Some HelpOpt \<Rightarrow> take n name = ''help'' \<and>
        (\<forall>opt \<in> set (p_optv parser). mm_arg_opt_get_name opt \<noteq> Some (take n name))
    | None \<Rightarrow> take n name \<noteq> ''help'' \<and>
        (\<forall>opt \<in> set (p_optv parser). mm_arg_opt_get_name opt \<noteq> Some (take n name))"
proof -
  have m: "match_opt_key_or_name opt NUL name n \<longleftrightarrow> mm_arg_opt_get_name opt = Some (take n name)"
    if "opt \<in> set (p_optv parser)" for opt
    using match_long that assms by (auto simp: opts_no_nul_def)
  have h: "match_opt_key_or_name help_opt NUL name n \<longleftrightarrow> take n name = ''help''"
    using match_long [OF help_opt_names(3) assms(2)] by (auto simp: help_opt_names)
  show ?thesis
    using find_opt_UserOpt [of parser NUL name n] find_opt_no_user [of parser NUL name n] m h
    by (auto split: option.split found_opt.split)
qed

definition sample_opts :: "mm_arg_opt list" where
  "sample_opts =
     [\<lparr>opt_name = Some ''n|number'', opt_flags = 0x12, opt_defval = None, opt_val = Some 0,
       opt_desc = Some ''set @NUM items''\<rparr>,
      \<lparr>opt_name = Some ''verbose'', opt_flags = 0x01, opt_defval = Some ''yes'', opt_val = Some 1,
       opt_desc = None\<rparr>]"

definition sample_parser :: "nat mm_arg_parser" where
  "sample_parser = \<lparr>p_flags = 1, p_optv = sample_opts, p_doc = Some ''A test.'', p_args_doc = None,
     p_execname = Some ''prog'', p_cb = None\<rparr>"

theorem find_opt_long_witness:
  "find_opt sample_parser NUL ''verbose=no'' 7 = Some (UserOpt 1) \<and>
   mm_arg_opt_get_name (sample_opts ! 1) = Some ''verbose''"
proof -
  have "opts_no_nul (p_optv sample_parser)" "7 \<le> length ''verbose=no''"
    by (simp_all add: sample_parser_def sample_opts_def opts_no_nul_def)
  moreover have "find_opt sample_parser NUL ''verbose=no'' 7 = Some (UserOpt 1)" by code_simp
  ultimately show ?thesis
    using find_opt_long [of sample_parser 7 "''verbose=no''"] by (simp add: sample_parser_def)
qed

text \<open>
  A parser passes validation exactly when each of its options has a name, a short key (if there
  is one) that is an ASCII letter, and a long name (if there is one) of at least two characters that
  starts with a lower case letter and goes on with lower case letters, digits and hyphens.
\<close>

theorem validate_options_iff:
  "validate_options parser = None \<longleftrightarrow>
     (\<forall>opt \<in> set (p_optv parser). opt_name opt \<noteq> None \<and> cstr_char (name_of opt) 0 \<noteq> NUL \<and>
        (mm_arg_opt_get_key opt \<noteq> NUL \<longrightarrow> is_valid_short_opt_key (mm_arg_opt_get_key opt)) \<and>
        (\<forall>l. mm_arg_opt_get_name opt = Some l \<longrightarrow>
           2 \<le> length l \<and> char_in CHR ''a'' CHR ''z'' (hd l) \<and> (\<forall>c \<in> set (tl l). long_name_char c)))"
proof -
  have v: "validate_option opt \<longleftrightarrow> opt_name opt \<noteq> None \<and> cstr_char (name_of opt) 0 \<noteq> NUL \<and>
      (mm_arg_opt_get_key opt \<noteq> NUL \<longrightarrow> is_valid_short_opt_key (mm_arg_opt_get_key opt)) \<and>
      (\<forall>l. mm_arg_opt_get_name opt = Some l \<longrightarrow> is_valid_long_opt_name l False)" for opt
    by (auto simp: validate_option_def Let_def split: option.splits)
  show ?thesis
    using validate_loop_None [of "p_optv parser"]
    by (auto simp: validate_options_def v is_valid_long_opt_name_iff split: option.splits)
qed

theorem validate_options_iff_witness:
  "validate_options sample_parser = None \<and> is_valid_short_opt_key (mm_arg_opt_get_key (sample_opts ! 0))"
proof -
  have n: "validate_options sample_parser = None" by code_simp
  have "sample_opts ! 0 \<in> set (p_optv sample_parser)" "mm_arg_opt_get_key (sample_opts ! 0) \<noteq> NUL"
    by (simp_all add: sample_parser_def sample_opts_def mm_arg_opt_get_key_def)
  with n validate_options_iff [of sample_parser] show ?thesis by blast
qed

end
