(* ===== verification/Arg_Help.thy ===== *)
theory Arg_Help
  imports Arg_Opt
begin

unbundle bit_operations_syntax

text \<open>
  Help printing of the argument parser (\<^verbatim>\<open>src/src/argparse.c\<close>): value names in option
  descriptions, text wrapping, synopsis lines and the help text. Each printing function returns the
  text it writes to its stream.
\<close>

abbreviation LF :: char where
  "LF \<equiv> CHR 0x0A"

definition OPT_INDENT_LEN :: nat where "OPT_INDENT_LEN = 30"
definition LINE_MAXLENGTH :: nat where "LINE_MAXLENGTH = 80"
definition VALUE_NAME_MAXLEN :: nat where "VALUE_NAME_MAXLEN = 16"
definition LONGOPT_NAME_MAXLEN :: nat where "LONGOPT_NAME_MAXLEN = 32"
definition OPT_SYNOPSIS_MAXLEN :: nat where
  "OPT_SYNOPSIS_MAXLEN = VALUE_NAME_MAXLEN + LONGOPT_NAME_MAXLEN + 16"

section \<open>Value names\<close>

text \<open>The loop of \<open>validate_value_name\<close> at index \<open>i\<close>; \<open>str\<close> is the rest of the string.\<close>

fun validate_value_name_from :: "string \<Rightarrow> nat \<Rightarrow> nat" where
  "validate_value_name_from [] i = 0"
| "validate_value_name_from (ch # str) i =
     (if i < VALUE_NAME_MAXLEN
      then if is_char_valid_for_value_name ch then validate_value_name_from str (i + 1)
           else if i > 1 then i
           else validate_value_name_from str (i + 1)
      else 0)"

definition validate_value_name :: "string \<Rightarrow> nat" where
  "validate_value_name str = validate_value_name_from str 0"

fun match_value :: "string \<Rightarrow> string \<Rightarrow> bool" where
  "match_value str [] = (\<not> is_char_valid_for_value_name (cstr_char str 0))"
| "match_value str (v # valname) =
     (if v \<noteq> cstr_char str 0 then False else match_value (drop 1 str) valname)"

definition isalnum :: "char \<Rightarrow> bool" where
  "isalnum c \<longleftrightarrow> char_in CHR ''a'' CHR ''z'' c \<or> char_in CHR ''A'' CHR ''Z'' c \<or> char_in CHR ''0'' CHR ''9'' c"

text \<open>
  The value name that an \<open>@\<close> introduces, when \<open>src\<close> follows it: a new one if none is known yet,
  the known one again otherwise.
\<close>

definition value_name_at :: "string option \<Rightarrow> string \<Rightarrow> string option" where
  "value_name_at valname src =
     (case valname of
        None \<Rightarrow>
          let namelen = validate_value_name src
          in if namelen \<noteq> 0 then Some (take namelen src) else None
      | Some v \<Rightarrow> if match_value src v then Some v else None)"

text \<open>
  The loop of \<open>copy_opt_desc\<close>: \<open>prev\<close> is \<open>src[-1]\<close>, \<^const>\<open>None\<close> at the start. The result is the
  copied text and the value name.
\<close>

fun copy_opt_desc_from :: "char option \<Rightarrow> string option \<Rightarrow> string \<Rightarrow> string \<times> string option" where
  "copy_opt_desc_from prev valname [] = ([], valname)"
| "copy_opt_desc_from prev valname (c # src) =
     (case (if c = CHR ''@'' \<and> (case prev of None \<Rightarrow> True | Some p \<Rightarrow> \<not> isalnum p)
            then value_name_at valname src else None) of
        Some v \<Rightarrow>
          (let (dst, name) = copy_opt_desc_from (Some (last v)) (Some v) (drop (length v) src)
           in (v @ dst, name))
      | None \<Rightarrow>
          (let (dst, name) = copy_opt_desc_from (Some c) valname src in (c # dst, name)))"

definition copy_opt_desc :: "string \<Rightarrow> string \<times> string option" where
  "copy_opt_desc src = copy_opt_desc_from None None src"

section \<open>Wrapped text\<close>

text \<open>
  The place to split a line that is too long: from \<open>len\<close> downwards to a space, \<open>textline_maxlen\<close>
  when there is none.
\<close>

fun find_split :: "string \<Rightarrow> nat \<Rightarrow> nat \<Rightarrow> nat" where
  "find_split text textline_maxlen 0 = textline_maxlen"
| "find_split text textline_maxlen (Suc len) =
     (if cstr_char text (Suc len) \<noteq> CHR '' ''
      then if len = 0 then textline_maxlen else find_split text textline_maxlen len
      else Suc len)"

definition wrap_len :: "nat \<Rightarrow> string \<Rightarrow> nat" where
  "wrap_len textline_maxlen text =
     (let len = get_first_token_length text LF
      in if len \<ge> textline_maxlen then find_split text textline_maxlen textline_maxlen else len)"

text \<open>The text that is left: behind the linefeed that was displayed and the spaces that follow.\<close>

definition wrap_rest :: "nat \<Rightarrow> string \<Rightarrow> string" where
  "wrap_rest len text =
     (let len' = (if cstr_char text len = LF then len + 1 else len)
      in dropWhile (\<lambda>c. c = CHR '' '') (drop len' text))"

text \<open>\<open>%-*s\<close>\<close>

definition pad_right :: "nat \<Rightarrow> string \<Rightarrow> string" where
  "pad_right n s = s @ replicate (n - length s) CHR '' ''"

text \<open>
  The lines of the loop, without their linefeeds; the line width is \<open>Suc w\<close>, so it is positive.
\<close>

lemma find_split_pos:
  "0 < tmax \<Longrightarrow> len \<le> tmax \<Longrightarrow> 0 < find_split s tmax len \<and> find_split s tmax len \<le> tmax"
  by (induction s tmax len rule: find_split.induct) auto

lemma wrap_progress:
  "s \<noteq> [] \<Longrightarrow> length (wrap_rest (wrap_len (Suc w) s) s) < length s"
proof -
  assume ne: "s \<noteq> []"
  let ?len = "wrap_len (Suc w) s"
  let ?k = "if cstr_char s ?len = LF then ?len + 1 else ?len"
  have "0 < ?k"
  proof (cases "get_first_token_length s LF \<ge> Suc w")
    case True
    then show ?thesis using find_split_pos [of "Suc w" "Suc w" s] by (simp add: wrap_len_def)
  next
    case False
    then show ?thesis using ne by (cases s) (auto simp: wrap_len_def)
  qed
  then have "length (drop ?k s) < length s" using ne by simp
  then show ?thesis
    using length_dropWhile_le [of "\<lambda>c. c = CHR '' ''" "drop ?k s"] by (simp add: wrap_rest_def Let_def)
qed

function wrap_lines :: "nat \<Rightarrow> nat \<Rightarrow> string \<Rightarrow> string \<Rightarrow> string list" where
  "wrap_lines w align_len header text =
     (let len = wrap_len (Suc w) text;
          line = pad_right align_len header @ take len text;
          rest = wrap_rest len text
      in if rest = [] then [line] else line # wrap_lines w align_len [] rest)"
  by pat_completeness auto
termination
proof (relation "measure (\<lambda>(w, a, h, text). length text)", simp, clarsimp)
  fix w s
  assume "wrap_rest (wrap_len (Suc w) s) s \<noteq> []"
  then have "s \<noteq> []" by (auto simp: wrap_rest_def)
  then show "length (wrap_rest (wrap_len (Suc w) s) s) < length s" by (rule wrap_progress)
qed

declare wrap_lines.simps [simp del]

definition unlines :: "string list \<Rightarrow> string" where
  "unlines ls = concat (map (\<lambda>l. l @ [LF]) ls)"

text \<open>
  A width that leaves no room for text is not used by any caller (the C code would read before the
  text); nothing is printed for it here.
\<close>

definition print_text_wrapped :: "nat \<Rightarrow> string \<Rightarrow> nat \<Rightarrow> string option \<Rightarrow> string" where
  "print_text_wrapped line_maxlen text align_len header =
     (case line_maxlen - align_len of
        0 \<Rightarrow> []
      | Suc w \<Rightarrow> unlines (wrap_lines w align_len (case header of None \<Rightarrow> [] | Some h \<Rightarrow> h) text))"

section \<open>Synopsis and options\<close>

function synopsis_lines :: "string \<Rightarrow> string \<Rightarrow> string list" where
  "synopsis_lines execname args_doc =
     (if args_doc = [] then []
      else
        let len = get_first_token_length args_doc LF
        in (''  '' @ execname @ '' '' @ take len args_doc)
             # synopsis_lines execname (dropWhile (\<lambda>c. c = LF) (drop len args_doc)))"
  by pat_completeness auto
termination
proof (relation "measure (\<lambda>(e, a). length a)", simp, clarsimp)
  fix a :: string
  assume "a \<noteq> []"
  then obtain c a' where a: "a = c # a'" by (cases a) auto
  show "length (dropWhile (\<lambda>c. c = LF) (drop (get_first_token_length a LF) a)) < length a"
    using length_dropWhile_le [of "\<lambda>c. c = LF" a']
      length_dropWhile_le [of "\<lambda>c. c = LF" "drop (get_first_token_length a' LF) a'"]
    by (auto simp: a)
qed

declare synopsis_lines.simps [simp del]

definition print_synopsis :: "'d mm_arg_parser \<Rightarrow> string" where
  "print_synopsis parser =
     (let execname = (case p_execname parser of None \<Rightarrow> ''PROGRAM'' | Some e \<Rightarrow> e);
          args_doc = (case p_args_doc parser of None \<Rightarrow> ''[options] args...'' | Some a \<Rightarrow> a)
      in unlines (synopsis_lines execname args_doc))"

text \<open>The string that \<open>set_option_synopsis\<close> writes to its buffer; its length is the returned value.\<close>

definition set_option_synopsis :: "mm_arg_opt \<Rightarrow> string \<Rightarrow> string" where
  "set_option_synopsis opt valname =
     (let key = mm_arg_opt_get_key opt;
          name = mm_arg_opt_get_name opt;
          reqflags = opt_flags opt AND MM_OPT_REQMASK
      in ''  ''
         @ (if key \<noteq> NUL
            then if reqflags = MM_OPT_NOVAL then ''-'' @ [key]
                 else if reqflags = MM_OPT_NEEDVAL then ''-'' @ [key] @ '' '' @ valname
                 else ''-'' @ [key] @ '' ['' @ valname @ '']''
            else [])
         @ (if key \<noteq> NUL \<and> name \<noteq> None then '', '' else [])
         @ (case name of
              None \<Rightarrow> []
            | Some n \<Rightarrow>
                if reqflags = MM_OPT_NOVAL then ''--'' @ n
                else if reqflags = MM_OPT_NEEDVAL then ''--'' @ n @ ''='' @ valname
                else ''--'' @ n @ ''[='' @ valname @ '']''))"

definition print_option :: "mm_arg_opt \<Rightarrow> string" where
  "print_option opt =
     (let type = mm_arg_opt_get_type opt;
          reqflags = opt_flags opt AND MM_OPT_REQMASK;
          opt_desc' = (case opt_desc opt of None \<Rightarrow> [] | Some d \<Rightarrow> d);
          (desc, name) = copy_opt_desc opt_desc';
          value_name = (case name of None \<Rightarrow> ''VALUE'' | Some v \<Rightarrow> v);
          synopsis = set_option_synopsis opt value_name;
          (own_line, synopsis') =
            (if length synopsis \<ge> OPT_INDENT_LEN then (synopsis @ [LF], []) else ([], synopsis));
          type_doc =
            (if type \<noteq> MM_OPT_STR \<and> reqflags \<noteq> MM_OPT_NOVAL
             then (if opt_desc' \<noteq> [] then '' '' else []) @ value_name @ '' must be a''
                  @ (if type = MM_OPT_UINT \<or> type = MM_OPT_ULLONG then '' non negative'' else ''n'')
                  @ '' integer.''
             else [])
      in own_line @ print_text_wrapped LINE_MAXLENGTH (desc @ type_doc) OPT_INDENT_LEN (Some synopsis'))"

definition print_help :: "'d mm_arg_parser \<Rightarrow> string" where
  "print_help parser =
     ''Usage:'' @ [LF] @ print_synopsis parser
     @ (case p_doc parser of
          None \<Rightarrow> []
        | Some doc \<Rightarrow> [LF] @ print_text_wrapped LINE_MAXLENGTH doc 0 None @ [LF])
     @ [LF] @ ''Options:'' @ [LF]
     @ concat (map print_option (p_optv parser)) @ print_option help_opt"

section \<open>Facts\<close>

lemma value_name_from_bounds:
  "validate_value_name_from s i = n \<Longrightarrow> n \<noteq> 0 \<Longrightarrow>
     2 \<le> n \<and> i \<le> n \<and> n < VALUE_NAME_MAXLEN \<and> n - i < length s \<and>
     \<not> is_char_valid_for_value_name (s ! (n - i))"
proof (induction s i arbitrary: n rule: validate_value_name_from.induct)
  case (2 ch s i)
  show ?case
  proof (cases "i < VALUE_NAME_MAXLEN \<and> (is_char_valid_for_value_name ch \<or> \<not> 1 < i)")
    case True
    then have n: "validate_value_name_from s (i + 1) = n" using 2(3) by (auto split: if_splits)
    have "2 \<le> n \<and> i + 1 \<le> n \<and> n < VALUE_NAME_MAXLEN \<and> n - (i + 1) < length s \<and>
        \<not> is_char_valid_for_value_name (s ! (n - (i + 1)))"
      using True n 2(1) [of n] 2(2) [of n] 2(4) by blast
    moreover from this have "n - i = Suc (n - (i + 1))" by arith
    ultimately show ?thesis by simp
  next
    case False
    then show ?thesis using 2(3,4) by (auto split: if_splits)
  qed
qed simp

lemma value_name_bounds:
  assumes "validate_value_name s \<noteq> 0"
  shows "2 \<le> validate_value_name s" "validate_value_name s < VALUE_NAME_MAXLEN"
    "validate_value_name s < length s"
  using value_name_from_bounds [of s 0 "validate_value_name s"] assms
  by (auto simp: validate_value_name_def)

lemma value_name_from_ok:
  "\<forall>c \<in> set v. is_char_valid_for_value_name c \<Longrightarrow> \<not> is_char_valid_for_value_name x \<Longrightarrow>
     1 < i + length v \<Longrightarrow> i + length v < VALUE_NAME_MAXLEN \<Longrightarrow>
     validate_value_name_from (v @ x # rest) i = i + length v"
  by (induction v arbitrary: i) auto

lemma value_name_at_length: "value_name_at valname s = Some v \<Longrightarrow>
    (\<forall>u. valname = Some u \<longrightarrow> length u < VALUE_NAME_MAXLEN) \<Longrightarrow> length v < VALUE_NAME_MAXLEN"
  using value_name_bounds [of s] by (auto simp: value_name_at_def Let_def split: option.splits if_splits)

lemma match_value_length: "match_value s v \<Longrightarrow> no_nul v \<Longrightarrow> length v \<le> length s"
proof (induction s v rule: match_value.induct)
  case (2 s c v)
  then show ?case by (cases s) (auto split: if_splits)
qed simp

lemma copy_opt_desc_name_from:
  "copy_opt_desc_from prev valname s = (dst, name) \<Longrightarrow>
     \<forall>u. valname = Some u \<longrightarrow> length u < VALUE_NAME_MAXLEN \<Longrightarrow>
     \<forall>u. name = Some u \<longrightarrow> length u < VALUE_NAME_MAXLEN"
proof (induction prev valname s arbitrary: dst name rule: copy_opt_desc_from.induct)
  case (2 prev valname c s)
  show ?case
  proof (cases "if c = CHR ''@'' \<and> (case prev of None \<Rightarrow> True | Some p \<Rightarrow> \<not> isalnum p)
      then value_name_at valname s else None")
    case None
    then show ?thesis using 2(1) [OF None] 2(3,4) by (auto split: prod.splits)
  next
    case (Some v)
    then have "length v < VALUE_NAME_MAXLEN"
      using 2(4) value_name_at_length [of valname s v] by (auto split: if_splits)
    then show ?thesis using 2(2) [OF Some] 2(3) Some by (auto split: prod.splits)
  qed
qed simp

text \<open>Text without an \<open>@\<close> is copied as it is.\<close>

lemma copy_plain: "CHR ''@'' \<notin> set s \<Longrightarrow> copy_opt_desc_from prev valname s = (s, valname)"
  by (induction s arbitrary: prev) auto

lemma copy_plain_append:
  "CHR ''@'' \<notin> set s \<Longrightarrow> s \<noteq> [] \<Longrightarrow> copy_opt_desc_from prev valname (s @ t) =
     (let (dst, name) = copy_opt_desc_from (Some (last s)) valname t in (s @ dst, name))"
proof (induction s arbitrary: prev)
  case (Cons c s)
  then show ?case by (cases "s = []") (auto split: prod.splits)
qed simp

definition nonblank :: "string \<Rightarrow> string" where
  "nonblank s = filter (\<lambda>c. c \<noteq> CHR '' '' \<and> c \<noteq> LF) s"

lemma NUL_neq_LF: "NUL \<noteq> LF"
  by simp

lemma nonblank_Nil [simp]: "nonblank [] = []"
  by (simp add: nonblank_def)

lemma nonblank_append [simp]: "nonblank (s @ t) = nonblank s @ nonblank t"
  by (simp add: nonblank_def)

lemma nonblank_pad [simp]: "nonblank (pad_right n s) = nonblank s"
  by (simp add: nonblank_def pad_right_def)

lemma nonblank_drop_spaces: "nonblank (dropWhile (\<lambda>c. c = CHR '' '') s) = nonblank s"
  by (induction s) (auto simp: nonblank_def)

lemma nonblank_wrap_rest: "nonblank (wrap_rest n s) = nonblank (drop n s)"
proof (cases "cstr_char s n = LF")
  case True
  then have "drop n s = LF # drop (Suc n) s"
    by (metis Cons_nth_drop_Suc NUL_neq_LF cstr_char_def)
  then show ?thesis using True by (simp add: wrap_rest_def nonblank_drop_spaces) (simp add: nonblank_def)
qed (simp add: wrap_rest_def nonblank_drop_spaces)

lemma wrap_len_le: "wrap_len (Suc w) s \<le> Suc w"
  using find_split_pos [of "Suc w" "Suc w" s] by (simp add: wrap_len_def Let_def)

lemma wrap_len_token: "wrap_len (Suc w) s \<le> get_first_token_length s LF"
  using find_split_pos [of "Suc w" "Suc w" s] by (auto simp: wrap_len_def Let_def)

lemma token_no_break: "c \<notin> set (take (get_first_token_length s c) s)"
  unfolding take_token by (auto dest: set_takeWhileD)

lemma wrap_line_no_lf: "LF \<notin> set (take (wrap_len (Suc w) s) s)"
  using set_take_subset_set_take [OF wrap_len_token [of w s], of s] token_no_break [of LF s] by blast

lemma wrap_lines_ok:
  "length h \<le> a \<Longrightarrow> LF \<notin> set h \<Longrightarrow>
     (\<forall>l \<in> set (wrap_lines w a h s). length l \<le> a + Suc w \<and> LF \<notin> set l) \<and>
     concat (map nonblank (wrap_lines w a h s)) = nonblank h @ nonblank s"
proof (induction w a h s rule: wrap_lines.induct)
  case (1 w a h s)
  define n where "n = wrap_len (Suc w) s"
  define line where "line = pad_right a h @ take n s"
  have nb: "nonblank s = nonblank (take n s) @ nonblank (wrap_rest n s)"
    by (metis append_take_drop_id nonblank_append nonblank_wrap_rest)
  have line: "length line \<le> a + Suc w" "LF \<notin> set line" "nonblank line = nonblank h @ nonblank (take n s)"
    using 1(2,3) wrap_len_le [of w s] wrap_line_no_lf [of w s]
    by (auto simp: line_def n_def pad_right_def, auto simp: nonblank_def)
  show ?case
  proof (cases "wrap_rest n s = []")
    case True
    then have "wrap_lines w a h s = [line]"
      by (subst wrap_lines.simps) (simp add: line_def n_def Let_def)
    then show ?thesis using line nb True by simp
  next
    case False
    then have e: "wrap_lines w a h s = line # wrap_lines w a [] (wrap_rest n s)"
      by (subst wrap_lines.simps) (simp add: line_def n_def Let_def)
    have "(\<forall>l \<in> set (wrap_lines w a [] (wrap_rest n s)). length l \<le> a + Suc w \<and> LF \<notin> set l) \<and>
        concat (map nonblank (wrap_lines w a [] (wrap_rest n s))) = nonblank [] @ nonblank (wrap_rest n s)"
      using 1(1) [OF refl refl refl] False by (simp add: n_def)
    then show ?thesis using line nb unfolding e by simp
  qed
qed

section \<open>Properties\<close>

text \<open>
  Wrapped text: when the header fits the alignment zone, every line that is printed is at most
  as long as the maximum line length and is one line, and the lines hold the header and the text,
  nothing else, up to spaces and linefeeds. The function returns for every text.
\<close>

theorem print_text_wrapped_correct:
  assumes "a < n" "length h \<le> a" "LF \<notin> set h"
  shows "\<exists>ls. print_text_wrapped n s a (Some h) = unlines ls \<and>
    (\<forall>l \<in> set ls. length l \<le> n \<and> LF \<notin> set l) \<and>
    concat (map nonblank ls) = nonblank h @ nonblank s"
proof -
  obtain w where w: "n - a = Suc w" using assms(1) by (cases "n - a") auto
  then have "a + Suc w = n" using assms(1) by simp
  then show ?thesis
    using wrap_lines_ok [OF assms(2,3), of w s] w by (auto simp: print_text_wrapped_def)
qed

theorem print_text_wrapped_correct_witness:
  "print_text_wrapped 12 ''aaa bbb ccc'' 4 (Some ''-x'') = ''-x  aaa bbb'' @ [LF] @ ''    ccc'' @ [LF] \<and>
   (\<exists>ls. print_text_wrapped 12 ''aaa bbb ccc'' 4 (Some ''-x'') = unlines ls \<and>
      (\<forall>l \<in> set ls. length l \<le> 12))"
proof -
  have "print_text_wrapped 12 ''aaa bbb ccc'' 4 (Some ''-x'') = ''-x  aaa bbb'' @ [LF] @ ''    ccc'' @ [LF]"
    by code_simp
  moreover have "\<exists>ls. print_text_wrapped 12 ''aaa bbb ccc'' 4 (Some ''-x'') = unlines ls \<and>
      (\<forall>l \<in> set ls. length l \<le> 12)"
    using print_text_wrapped_correct [of 4 12 "''-x''" "''aaa bbb ccc''"] by auto
  ultimately show ?thesis by blast
qed

text \<open>
  The value name of a description fits its buffer, whatever the description: the name that
  \<open>copy_opt_desc\<close> stores, with its terminating NUL, takes at most \<open>VALUE_NAME_MAXLEN\<close> bytes.
\<close>

theorem copy_opt_desc_name_fits:
  "case snd (copy_opt_desc desc) of None \<Rightarrow> True | Some v \<Rightarrow> length v + 1 \<le> VALUE_NAME_MAXLEN"
  using copy_opt_desc_name_from [of None None desc "fst (copy_opt_desc desc)" "snd (copy_opt_desc desc)"]
  by (auto simp: copy_opt_desc_def split: option.split)

text \<open>
  A value name in a description: behind a blank or at the start, an \<open>@\<close> with a name of 2 to 15
  valid characters that is followed by another character is recognised, the \<open>@\<close> is dropped from
  the copy and the name is the one that is stored.
\<close>

theorem copy_opt_desc_recognises:
  assumes "\<forall>c \<in> set v. is_char_valid_for_value_name c" "2 \<le> length v" "length v < VALUE_NAME_MAXLEN"
    "\<not> is_char_valid_for_value_name x" "CHR ''@'' \<notin> set pre" "CHR ''@'' \<notin> set (x # post)"
    "pre = [] \<or> \<not> isalnum (last pre)"
  shows "copy_opt_desc (pre @ ''@'' @ v @ x # post) = (pre @ v @ x # post, Some v)"
proof -
  have n: "validate_value_name (v @ x # post) = length v"
    using value_name_from_ok [of v x 0 post] assms by (simp add: validate_value_name_def)
  then have at: "value_name_at None (v @ x # post) = Some v"
    using assms(2) by (auto simp: value_name_at_def)
  have core: "copy_opt_desc_from prev None (''@'' @ v @ x # post) = (v @ x # post, Some v)"
    if "case prev of None \<Rightarrow> True | Some p \<Rightarrow> \<not> isalnum p" for prev
    using that at copy_plain [OF assms(6), of "Some (last v)" "Some v"] by simp
  show ?thesis
  proof (cases "pre = []")
    case True
    then show ?thesis using core [of None] by (simp add: copy_opt_desc_def)
  next
    case False
    then show ?thesis
      using copy_plain_append [OF assms(5) False, of None None "''@'' @ v @ x # post"]
        core [of "Some (last pre)"] assms(7)
      by (simp add: copy_opt_desc_def)
  qed
qed

theorem copy_opt_desc_recognises_witness:
  "copy_opt_desc ''write @FILE now'' = (''write FILE now'', Some ''FILE'')"
  using copy_opt_desc_recognises [of "''FILE''" "CHR '' ''" "''write ''" "''now''"]
  by (simp add: is_char_valid_for_value_name_def char_in_def VALUE_NAME_MAXLEN_def isalnum_def)

text \<open>
  Value names that the documented rule accepts and the code does not: a name at the very end of
  the description is not recognised, and a name of one character is taken together with the
  character behind it.
\<close>

theorem copy_opt_desc_misses:
  "copy_opt_desc ''write to @FILE'' = (''write to @FILE'', None) \<and>
   copy_opt_desc ''run @N times'' = (''run N times'', Some ''N '')"
  by code_simp

text \<open>
  The synopsis buffer of \<open>print_option\<close>: with a long name of at most 19 characters it is
  large enough for every value name, and there is an option that passes validation, with a long
  name and a value name within their documented maximum lengths, whose synopsis does not fit.
\<close>

theorem option_synopsis_buffer:
  "(\<forall>opt v. (case mm_arg_opt_get_name opt of None \<Rightarrow> True | Some l \<Rightarrow> length l \<le> 19) \<longrightarrow>
      length v < VALUE_NAME_MAXLEN \<longrightarrow>
      length (set_option_synopsis opt v) + 1 \<le> OPT_SYNOPSIS_MAXLEN) \<and>
   (\<exists>opt v l. validate_option opt \<and> mm_arg_opt_get_name opt = Some l \<and> length l \<le> LONGOPT_NAME_MAXLEN \<and>
      length v < VALUE_NAME_MAXLEN \<and>
      OPT_SYNOPSIS_MAXLEN < length (set_option_synopsis opt v) + 1)"
proof
  show "\<forall>opt v. (case mm_arg_opt_get_name opt of None \<Rightarrow> True | Some l \<Rightarrow> length l \<le> 19) \<longrightarrow>
      length v < VALUE_NAME_MAXLEN \<longrightarrow>
      length (set_option_synopsis opt v) + 1 \<le> OPT_SYNOPSIS_MAXLEN"
    by (auto simp: set_option_synopsis_def Let_def VALUE_NAME_MAXLEN_def OPT_SYNOPSIS_MAXLEN_def
        LONGOPT_NAME_MAXLEN_def split: option.splits)
  let ?opt = "\<lparr>opt_name = Some ''v|abcdefghijklmnopqrstuvwxyz'', opt_flags = MM_OPT_OPTVAL,
      opt_defval = None, opt_val = None, opt_desc = None\<rparr>"
  have "validate_option ?opt" "mm_arg_opt_get_name ?opt = Some ''abcdefghijklmnopqrstuvwxyz''"
    "OPT_SYNOPSIS_MAXLEN < length (set_option_synopsis ?opt ''ABCDEFGHIJKLMNO'') + 1"
    by code_simp+
  moreover have "length ''abcdefghijklmnopqrstuvwxyz'' \<le> LONGOPT_NAME_MAXLEN"
    "length ''ABCDEFGHIJKLMNO'' < VALUE_NAME_MAXLEN"
    by (simp_all add: LONGOPT_NAME_MAXLEN_def VALUE_NAME_MAXLEN_def)
  ultimately show "\<exists>opt v l. validate_option opt \<and> mm_arg_opt_get_name opt = Some l \<and>
      length l \<le> LONGOPT_NAME_MAXLEN \<and> length v < VALUE_NAME_MAXLEN \<and>
      OPT_SYNOPSIS_MAXLEN < length (set_option_synopsis opt v) + 1"
    by blast
qed

theorem option_synopsis_buffer_witness:
  "length (set_option_synopsis (sample_opts ! 0) ''NUM'') + 1 \<le> OPT_SYNOPSIS_MAXLEN"
proof -
  have "mm_arg_opt_get_name (sample_opts ! 0) = Some ''number''" by code_simp
  then show ?thesis
    using option_synopsis_buffer by (auto simp: VALUE_NAME_MAXLEN_def)
qed

end
