(* ===== verification/Arg_Conv.thy ===== *)
theory Arg_Conv
  imports Arg_Help
begin

unbundle bit_operations_syntax

text \<open>
  Conversion of option values (\<^verbatim>\<open>src/src/argparse.c\<close>, from \<open>print_opt_error\<close> to
  \<open>mm_arg_opt_set_value\<close>), with the functions \<open>strtoll\<close> and \<open>strtoull\<close> of the C library for base 0.
  The state that the parser changes is a record: the text written to the two output streams, the
  variables behind the pointers of the options, the user data of the callback, and \<open>errno\<close>.
\<close>

section \<open>Numbers of the C library\<close>

definition isspace :: "char \<Rightarrow> bool" where
  "isspace c \<longleftrightarrow> c = CHR '' '' \<or> char_in (CHR 0x09) (CHR 0x0D) c"

definition digit_val :: "char \<Rightarrow> nat option" where
  "digit_val c =
     (if char_in CHR ''0'' CHR ''9'' c then Some (of_char c - of_char CHR ''0'')
      else if char_in CHR ''a'' CHR ''z'' c then Some (of_char c - of_char CHR ''a'' + 10)
      else if char_in CHR ''A'' CHR ''Z'' c then Some (of_char c - of_char CHR ''A'' + 10)
      else None)"

definition is_digit_of :: "nat \<Rightarrow> char \<Rightarrow> bool" where
  "is_digit_of base c = (case digit_val c of None \<Rightarrow> False | Some d \<Rightarrow> d < base)"

fun parse_digits :: "nat \<Rightarrow> nat \<Rightarrow> string \<Rightarrow> nat \<times> string" where
  "parse_digits base acc [] = (acc, [])"
| "parse_digits base acc (c # s) =
     (if is_digit_of base c then parse_digits base (acc * base + the (digit_val c)) s else (acc, c # s))"

text \<open>
  The subject sequence for base 0: sign, base prefix and digits. The result is the sign, the
  magnitude and the rest of the string, \<^const>\<open>None\<close> when no conversion can be performed.
\<close>

definition strto_prefix :: "string \<Rightarrow> nat \<times> string" where
  "strto_prefix s =
     (if cstr_char s 0 = CHR ''0''
      then if (cstr_char s 1 = CHR ''x'' \<or> cstr_char s 1 = CHR ''X'') \<and> is_digit_of 16 (cstr_char s 2)
           then (16, drop 2 s) else (8, s)
      else (10, s))"

definition strto_scan :: "string \<Rightarrow> (bool \<times> nat \<times> string) option" where
  "strto_scan str =
     (let s = dropWhile isspace str;
          neg = (cstr_char s 0 = CHR ''-'');
          (base, t) = strto_prefix (if neg \<or> cstr_char s 0 = CHR ''+'' then drop 1 s else s)
      in if is_digit_of base (cstr_char t 0)
         then let (m, rest) = parse_digits base 0 t in Some (neg, m, rest)
         else None)"

text \<open>The value, the rest of the string behind \<open>endptr\<close>, and whether \<open>errno\<close> becomes \<open>ERANGE\<close>.\<close>

definition strtoll :: "string \<Rightarrow> int \<times> string \<times> bool" where
  "strtoll str =
     (case strto_scan str of
        None \<Rightarrow> (0, str, False)
      | Some (neg, m, rest) \<Rightarrow>
          let v = (if neg then - int m else int m)
          in if v > INT64_MAX then (INT64_MAX, rest, True)
             else if v < - INT64_MAX - 1 then (- INT64_MAX - 1, rest, True)
             else (v, rest, False))"

definition ULLONG_MAX :: int where
  "ULLONG_MAX = 2 ^ 64 - 1"

definition strtoull :: "string \<Rightarrow> int \<times> string \<times> bool" where
  "strtoull str =
     (case strto_scan str of
        None \<Rightarrow> (0, str, False)
      | Some (neg, m, rest) \<Rightarrow>
          if int m > ULLONG_MAX then (ULLONG_MAX, rest, True)
          else ((if neg then (- int m) mod 2 ^ 64 else int m), rest, False))"

section \<open>The state\<close>

record 'd parse_state =
  s_out :: string
  s_err :: string
  s_store :: "nat \<rightharpoonup> mm_arg_val"
  s_data :: 'd
  s_errno :: "errcode option"

definition put_err :: "string \<Rightarrow> 'd parse_state \<Rightarrow> 'd parse_state" where
  "put_err msg st = st\<lparr>s_err := s_err st @ msg\<rparr>"

definition put_out :: "string \<Rightarrow> 'd parse_state \<Rightarrow> 'd parse_state" where
  "put_out msg st = st\<lparr>s_out := s_out st @ msg\<rparr>"

definition set_errno :: "errcode \<Rightarrow> 'd parse_state \<Rightarrow> 'd parse_state" where
  "set_errno e st = st\<lparr>s_errno := Some e\<rparr>"

section \<open>Messages\<close>

definition get_value_type_name :: "int \<Rightarrow> string" where
  "get_value_type_name type =
     (if type = MM_OPT_STR then ''string''
      else if type = MM_OPT_INT then ''int''
      else if type = MM_OPT_LLONG then ''long long''
      else if type = MM_OPT_UINT then ''unsigned int''
      else if type = MM_OPT_ULLONG then ''unsigned long long''
      else ''unknown'')"

definition print_opt_error :: "mm_arg_opt \<Rightarrow> string \<Rightarrow> 'd parse_state \<Rightarrow> 'd parse_state" where
  "print_opt_error opt msg st =
     (let name = mm_arg_opt_get_name opt; key = mm_arg_opt_get_key opt
      in put_err
        ((case name of
            Some n \<Rightarrow> if key \<noteq> NUL then ''Option -'' @ [key] @ ''|--'' @ n @ '' '' else ''Option --'' @ n @ '' ''
          | None \<Rightarrow> ''Option -'' @ [key] @ '' '')
         @ msg @ [LF]) st)"

section \<open>Conversion\<close>

definition cast_ll_to_argval :: "mm_arg_opt \<Rightarrow> int \<Rightarrow> errcode + mm_arg_val" where
  "cast_ll_to_argval opt llval =
     (let type = mm_arg_opt_get_type opt
      in if type = MM_OPT_LLONG then Inr (ValLL llval)
         else if type = MM_OPT_INT
         then if llval < INT_MIN \<or> llval > INT_MAX then Inl ERANGE else Inr (ValInt llval)
         else if type = MM_OPT_UINT
         then if llval < 0 \<or> llval > UINT_MAX then Inl ERANGE else Inr (ValUInt llval)
         else Inl EINVAL)"

text \<open>\<open>check_value_is_positive\<close>: true for the return value 0.\<close>

definition check_value_is_positive :: "string \<Rightarrow> bool" where
  "check_value_is_positive str \<longleftrightarrow> cstr_char (dropWhile isspace str) 0 \<noteq> CHR ''-''"

text \<open>The conversion itself, without \<open>errno\<close> and messages: the error or the value.\<close>

definition conv_value :: "mm_arg_opt \<Rightarrow> string option \<Rightarrow> errcode + mm_arg_val" where
  "conv_value opt value0 =
     (let type = mm_arg_opt_get_type opt
      in if type = MM_OPT_STR then Inr (ValStr value0)
         else case value0 of
           None \<Rightarrow> Inl EINVAL
         | Some value \<Rightarrow>
             if value = [] then Inl EINVAL
             else if type = MM_OPT_ULLONG
             then if \<not> check_value_is_positive value then Inl ERANGE
                  else let (v, rest, erange) = strtoull value
                       in if rest \<noteq> [] then Inl EINVAL else if erange then Inl ERANGE else Inr (ValULL v)
             else let (v, rest, erange) = strtoll value
                  in if rest \<noteq> [] then Inl EINVAL else if erange then Inl ERANGE
                     else cast_ll_to_argval opt v)"

text \<open>
  \<open>conv_str_to_argval\<close>: on success \<open>errno\<close> has its previous value; on failure it is set and the
  message names option, type, value and cause. \<open>strerror\<close> gives the text of an error code. A null
  value is printed as \<open>(null)\<close>.
\<close>

definition conv_str_to_argval ::
  "(errcode \<Rightarrow> string) \<Rightarrow> mm_arg_opt \<Rightarrow> string option \<Rightarrow> 'd parse_state \<Rightarrow> mm_arg_val option \<times> 'd parse_state" where
  "conv_str_to_argval strerror opt value st =
     (case conv_value opt value of
        Inr v \<Rightarrow> (Some v, st)
      | Inl e \<Rightarrow>
          (None, print_opt_error opt
             (''accepting '' @ get_value_type_name (mm_arg_opt_get_type opt)
              @ '' value type has received an invalid value '' @ [CHR 0x22]
              @ (case value of None \<Rightarrow> ''(null)'' | Some v \<Rightarrow> v)
              @ [CHR 0x22] @ '' ('' @ strerror e @ '')'')
             (set_errno e st)))"

text \<open>\<open>mm_arg_opt_set_value\<close>: the return value and the new state.\<close>

definition mm_arg_opt_set_value :: "mm_arg_opt \<Rightarrow> mm_arg_val \<Rightarrow> 'd parse_state \<Rightarrow> int \<times> 'd parse_state" where
  "mm_arg_opt_set_value opt val st =
     (case opt_val opt of
        None \<Rightarrow> (0, st)
      | Some ptr \<Rightarrow>
          if mm_arg_opt_get_type opt \<in> {MM_OPT_STR, MM_OPT_INT, MM_OPT_UINT, MM_OPT_LLONG, MM_OPT_ULLONG}
          then (0, st\<lparr>s_store := (s_store st)(ptr \<mapsto> val)\<rparr>)
          else (- 1, print_opt_error opt ''has unknown value type'' st))"

section \<open>Facts\<close>

text \<open>The range and the member of the union that belong to a type.\<close>

definition val_in_type :: "int \<Rightarrow> mm_arg_val \<Rightarrow> bool" where
  "val_in_type type v =
     (case v of
        ValStr s \<Rightarrow> type = MM_OPT_STR
      | ValInt i \<Rightarrow> type = MM_OPT_INT \<and> INT_MIN \<le> i \<and> i \<le> INT_MAX
      | ValLL i \<Rightarrow> type = MM_OPT_LLONG \<and> in_i64 i
      | ValUInt i \<Rightarrow> type = MM_OPT_UINT \<and> 0 \<le> i \<and> i \<le> UINT_MAX
      | ValULL i \<Rightarrow> type = MM_OPT_ULLONG \<and> 0 \<le> i \<and> i \<le> ULLONG_MAX)"

lemma strtoll_range: "strtoll s = (v, rest, e) \<Longrightarrow> in_i64 v"
  by (auto simp: strtoll_def in_i64_def INT64_MAX_def Let_def split: option.splits prod.splits if_splits)

lemma strtoull_range: "strtoull s = (v, rest, e) \<Longrightarrow> 0 \<le> v \<and> v \<le> ULLONG_MAX"
  using pos_mod_bound [of "2 ^ 64" "- (x :: int)" for x]
  by (auto simp: strtoull_def ULLONG_MAX_def split: option.splits prod.splits if_splits)

lemma cast_ll_in_type:
  "cast_ll_to_argval opt v = Inr w \<Longrightarrow> in_i64 v \<Longrightarrow> val_in_type (mm_arg_opt_get_type opt) w"
  by (auto simp: cast_ll_to_argval_def val_in_type_def Let_def split: if_splits)

lemma conv_value_in_type:
  assumes "conv_value opt value = Inr v"
  shows "val_in_type (mm_arg_opt_get_type opt) v"
proof (cases "mm_arg_opt_get_type opt = MM_OPT_STR")
  case True
  then show ?thesis using assms by (auto simp: conv_value_def val_in_type_def)
next
  case False
  then obtain s where s: "value = Some s" "s \<noteq> []"
    using assms by (auto simp: conv_value_def split: option.splits if_splits)
  obtain x r e where ll: "strtoll s = (x, r, e)" by (metis prod_cases3)
  obtain y r' e' where ull: "strtoull s = (y, r', e')" by (metis prod_cases3)
  show ?thesis
    using assms False s ll ull strtoll_range [OF ll] strtoull_range [OF ull] cast_ll_in_type [of opt x v]
    by (auto simp: conv_value_def val_in_type_def split: if_splits)
qed

lemma digit_char: "d < 10 \<Longrightarrow> digit_val (char_of (48 + d)) = Some d"
  by (simp add: digit_val_def char_in_def)

lemma is_digit_char: "(d :: nat) < 10 \<Longrightarrow> is_digit_of 10 (char_of (48 + d))"
  by (simp add: is_digit_of_def digit_char)

lemma parse_digits_dec: "parse_digits 10 acc (dec_nat n @ s) =
    parse_digits 10 (acc * 10 ^ length (dec_nat n) + n) s"
proof (induction n arbitrary: acc s rule: dec_nat.induct)
  case (1 n)
  show ?case
  proof (cases "n < 10")
    case True
    then show ?thesis by (subst (1 2) dec_nat.simps) (simp add: is_digit_char digit_char)
  next
    case False
    have d: "dec_nat n = dec_nat (n div 10) @ [char_of (48 + n mod 10)]"
      using False by (subst dec_nat.simps) simp
    have "parse_digits 10 acc (dec_nat n @ s) =
        parse_digits 10 (acc * 10 ^ length (dec_nat (n div 10)) + n div 10) (char_of (48 + n mod 10) # s)"
      unfolding d using 1 [OF False, of acc "char_of (48 + n mod 10) # s"] by simp
    also have "\<dots> = parse_digits 10 ((acc * 10 ^ length (dec_nat (n div 10)) + n div 10) * 10 + n mod 10) s"
      using is_digit_char [of "n mod 10"] digit_char [of "n mod 10"] by simp
    also have "(acc * 10 ^ length (dec_nat (n div 10)) + n div 10) * 10 + n mod 10 =
        acc * 10 ^ length (dec_nat n) + n"
      unfolding d by (simp add: algebra_simps)
    finally show ?thesis .
  qed
qed

lemma dec_nat_0: "dec_nat 0 = ''0''"
  by code_simp

lemma dec_nat_hd: "0 < n \<Longrightarrow> \<exists>(d :: nat) s. 0 < d \<and> d < 10 \<and> dec_nat n = char_of (48 + d) # s"
proof (induction n rule: dec_nat.induct)
  case (1 n)
  show ?case
  proof (cases "n < 10")
    case True
    then show ?thesis using 1(2) by (subst dec_nat.simps) auto
  next
    case False
    then have "dec_nat n = dec_nat (n div 10) @ [char_of (48 + n mod 10)]" "0 < n div 10"
      by (subst dec_nat.simps, simp, simp add: div_greater_zero_iff)
    then show ?thesis using 1(1) [OF False] by auto
  qed
qed

lemma digit_not_special:
  assumes "(d :: nat) < 10"
  shows "\<not> isspace (char_of (48 + d))" "char_of (48 + d) \<noteq> CHR ''-''" "char_of (48 + d) \<noteq> CHR ''+''"
    "0 < d \<Longrightarrow> char_of (48 + d) \<noteq> CHR ''0''"
proof -
  have c: "of_char (char_of (48 + d) :: char) = 48 + d" using assms by simp
  show "\<not> isspace (char_of (48 + d))"
    using c by (auto simp: isspace_def char_in_def dest: arg_cong [of _ _ "of_char :: char \<Rightarrow> nat"])
  show "char_of (48 + d) \<noteq> CHR ''-''" "char_of (48 + d) \<noteq> CHR ''+''"
    "0 < d \<Longrightarrow> char_of (48 + d) \<noteq> CHR ''0''"
    using c by (auto dest: arg_cong [of _ _ "of_char :: char \<Rightarrow> nat"])
qed

text \<open>The first character of a decimal number, and the base it is read in.\<close>

lemma dec_nat_first:
  obtains d s where "(d :: nat) < 10" "dec_nat n = char_of (48 + d) # s"
    "is_digit_of (if n = 0 then 8 else 10) (char_of (48 + d))" "strto_prefix (dec_nat n) = (if n = 0 then 8 else 10, dec_nat n)"
proof (cases "n = 0")
  case True
  have "is_digit_of 8 CHR ''0''" "CHR ''0'' = char_of (48 + 0 :: nat)" by code_simp+
  then show ?thesis
    using True that [of 0 "[]"] by (simp add: dec_nat_0 strto_prefix_def)
next
  case False
  then obtain d s where d: "0 < d" "d < (10 :: nat)" "dec_nat n = char_of (48 + d) # s"
    using dec_nat_hd [of n] by auto
  then show ?thesis
    using False that [of d s] is_digit_char [of d] digit_not_special(4) [of d] by (simp add: strto_prefix_def)
qed

lemma parse_dec: "parse_digits (if n = 0 then 8 else 10) 0 (dec_nat n) = (n, [])"
proof (cases "n = 0")
  case True
  have "parse_digits 8 0 ''0'' = (0, [])" by code_simp
  then show ?thesis using True by (simp add: dec_nat_0)
next
  case False
  then show ?thesis using parse_digits_dec [of 0 n "[]"] by simp
qed

lemma strto_scan_dec: "strto_scan (dec_int i) = Some (i < 0, nat \<bar>i\<bar>, [])"
proof -
  have sp: "\<not> isspace CHR ''-''" by (simp add: isspace_def char_in_def)
  obtain d s where ds: "(d :: nat) < 10" "dec_nat (nat \<bar>i\<bar>) = char_of (48 + d) # s"
    "is_digit_of (if nat \<bar>i\<bar> = 0 then 8 else 10) (char_of (48 + d))"
    "strto_prefix (dec_nat (nat \<bar>i\<bar>)) = (if nat \<bar>i\<bar> = 0 then 8 else 10, dec_nat (nat \<bar>i\<bar>))"
    by (rule dec_nat_first [of "nat \<bar>i\<bar>"])
  show ?thesis
    using ds sp digit_not_special(1-3) [OF ds(1)] parse_dec [of "nat \<bar>i\<bar>"]
    by (cases "i < 0") (simp_all add: strto_scan_def dec_int_def)
qed

section \<open>Properties\<close>

text \<open>
  A converted value always has the type of its option: whatever the string, when the conversion
  of a value succeeds the result is the member of the union for the option's type, in the range of
  that type.
\<close>

theorem conv_str_to_argval_in_type:
  assumes "conv_str_to_argval strerror opt value st = (Some v, st')"
  shows "val_in_type (mm_arg_opt_get_type opt) v \<and> st' = st"
  using assms conv_value_in_type [of opt "value" v]
  by (auto simp: conv_str_to_argval_def split: sum.splits)

definition int_opt :: "int \<Rightarrow> mm_arg_opt" where
  "int_opt type = \<lparr>opt_name = Some ''n|num'', opt_flags = type + MM_OPT_NEEDVAL, opt_defval = None,
     opt_val = Some 0, opt_desc = None\<rparr>"

definition state0 :: "nat parse_state" where
  "state0 = \<lparr>s_out = [], s_err = [], s_store = Map.empty, s_data = 0, s_errno = None\<rparr>"

theorem conv_str_to_argval_in_type_witness:
  "val_in_type MM_OPT_INT (ValInt (- 16))"
proof -
  have "conv_value (int_opt MM_OPT_INT) (Some '' -0x10'') = Inr (ValInt (- 16))"
    "mm_arg_opt_get_type (int_opt MM_OPT_INT) = MM_OPT_INT"
    by code_simp+
  then show ?thesis
    using conv_str_to_argval_in_type
      [of "\<lambda>_. []" "int_opt MM_OPT_INT" "Some '' -0x10''" state0 "ValInt (- 16)" state0]
    by (simp add: conv_str_to_argval_def)
qed

text \<open>
  Round trip of numbers: the decimal notation of an integer, given to an option of one of the
  four integer types, is converted to that integer when it is in the range of the type, and is
  rejected with ERANGE otherwise (negative numbers for the unsigned types included).
\<close>

theorem conv_value_decimal:
  "(mm_arg_opt_get_type opt = MM_OPT_INT \<longrightarrow>
      conv_value opt (Some (dec_int i)) = (if INT_MIN \<le> i \<and> i \<le> INT_MAX then Inr (ValInt i) else Inl ERANGE)) \<and>
   (mm_arg_opt_get_type opt = MM_OPT_LLONG \<longrightarrow>
      conv_value opt (Some (dec_int i)) = (if in_i64 i then Inr (ValLL i) else Inl ERANGE)) \<and>
   (mm_arg_opt_get_type opt = MM_OPT_UINT \<longrightarrow>
      conv_value opt (Some (dec_int i)) = (if 0 \<le> i \<and> i \<le> UINT_MAX then Inr (ValUInt i) else Inl ERANGE)) \<and>
   (mm_arg_opt_get_type opt = MM_OPT_ULLONG \<longrightarrow>
      conv_value opt (Some (dec_int i)) = (if 0 \<le> i \<and> i \<le> ULLONG_MAX then Inr (ValULL i) else Inl ERANGE))"
proof -
  obtain d s where ds: "(d :: nat) < 10" "dec_nat (nat \<bar>i\<bar>) = char_of (48 + d) # s"
    by (rule dec_nat_first [of "nat \<bar>i\<bar>"])
  have ne: "dec_int i \<noteq> []" using ds by (cases "i < 0") (simp_all add: dec_int_def)
  have ll: "strtoll (dec_int i) = (if in_i64 i then (i, [], False)
      else (if i > 0 then INT64_MAX else - INT64_MAX - 1, [], True))"
    by (auto simp: strtoll_def strto_scan_dec in_i64_def INT64_MAX_def Let_def)
  have ull: "0 \<le> i \<Longrightarrow> strtoull (dec_int i) =
      (if i \<le> ULLONG_MAX then (i, [], False) else (ULLONG_MAX, [], True))"
    by (auto simp: strtoull_def strto_scan_dec)
  have pos: "check_value_is_positive (dec_int i) \<longleftrightarrow> 0 \<le> i"
    using ds digit_not_special(1,2) [OF ds(1)]
    by (cases "i < 0") (simp_all add: check_value_is_positive_def dec_int_def isspace_def char_in_def)
  show ?thesis
    using ne ll ull pos
    by (auto simp: conv_value_def cast_ll_to_argval_def opt_flag_defs in_i64_def INT_MIN_def INT_MAX_def
        UINT_MAX_def Let_def)
qed

theorem conv_value_decimal_witness:
  "conv_value (int_opt MM_OPT_INT) (Some (dec_int (- 7))) = Inr (ValInt (- 7)) \<and>
   conv_value (int_opt MM_OPT_UINT) (Some (dec_int (- 7))) = Inl ERANGE"
proof -
  have "mm_arg_opt_get_type (int_opt MM_OPT_INT) = MM_OPT_INT"
    "mm_arg_opt_get_type (int_opt MM_OPT_UINT) = MM_OPT_UINT" by code_simp+
  then show ?thesis
    using conv_value_decimal [of "int_opt MM_OPT_INT" "- 7"] conv_value_decimal [of "int_opt MM_OPT_UINT" "- 7"]
    by (simp add: INT_MIN_def INT_MAX_def)
qed

end
