(* ===== verification/Paths.thy ===== *)
theory Paths
  imports Prelude
begin

text \<open>
  Path names: \<open>mm_basename\<close> and \<open>mm_dirname\<close> of \<^verbatim>\<open>src/src/utils.c\<close> with the separator and
  wildcard tests of \<^verbatim>\<open>src/src/file-internal.h\<close>. Pointers into the path are indices; the pointer
  one before the start of an empty path is \<open>-1\<close>. The flag \<open>win32\<close> selects the build.
\<close>

section \<open>Characters\<close>

definition is_path_separator :: "bool \<Rightarrow> char \<Rightarrow> bool" where
  "is_path_separator win32 c =
     (if win32 then c = CHR 0x5C \<or> c = CHR ''/'' else c = CHR ''/'')"

text \<open>The loop of \<open>is_wildcard_directory\<close> from index \<open>len\<close>, at most up to index 2.\<close>

fun wildcard_scan :: "string \<Rightarrow> nat \<Rightarrow> nat option" where
  "wildcard_scan [] len = Some len"
| "wildcard_scan (c # name) len =
     (if len \<le> 2 then if c \<noteq> CHR ''.'' then None else wildcard_scan name (len + 1) else Some len)"

definition is_wildcard_directory :: "string \<Rightarrow> bool" where
  "is_wildcard_directory name =
     (case wildcard_scan name 0 of None \<Rightarrow> False | Some len \<Rightarrow> len = 1 \<or> len = 2)"

section \<open>Scanning backwards\<close>

text \<open>\<open>while (c > path \<and> is_path_separator(*c)) c--;\<close>\<close>

fun skip_seps_down :: "bool \<Rightarrow> string \<Rightarrow> nat \<Rightarrow> nat" where
  "skip_seps_down win32 path 0 = 0"
| "skip_seps_down win32 path (Suc c) =
     (if is_path_separator win32 (path ! Suc c) then skip_seps_down win32 path c else Suc c)"

definition get_last_nonsep_ptr :: "bool \<Rightarrow> string \<Rightarrow> int" where
  "get_last_nonsep_ptr win32 path =
     (if path = [] then - 1 else int (skip_seps_down win32 path (length path - 1)))"

text \<open>The loop of \<open>get_basename_ptr\<close>: \<open>n\<close> characters are left to examine, \<open>c = n - 1\<close> is next.\<close>

fun basename_scan :: "bool \<Rightarrow> string \<Rightarrow> int \<Rightarrow> nat \<Rightarrow> nat" where
  "basename_scan win32 path lastptr 0 = 0"
| "basename_scan win32 path lastptr (Suc c) =
     (if is_path_separator win32 (path ! c) then (if int c = lastptr then c else c + 1)
      else basename_scan win32 path lastptr c)"

definition get_basename_ptr :: "bool \<Rightarrow> string \<Rightarrow> nat" where
  "get_basename_ptr win32 path =
     (let lastptr = get_last_nonsep_ptr win32 path in basename_scan win32 path lastptr (nat lastptr))"

section \<open>Base name and directory name\<close>

text \<open>
  The string written to the result buffer; its length is the returned value. \<^const>\<open>None\<close> is the
  null path.
\<close>

definition mm_basename :: "bool \<Rightarrow> string option \<Rightarrow> string" where
  "mm_basename win32 path0 =
     (let path = (case path0 of None \<Rightarrow> [] | Some p \<Rightarrow> p);
          baseptr = get_basename_ptr win32 path;
          lastptr = get_last_nonsep_ptr win32 path + 1;
          len = lastptr - int baseptr
      in if len \<le> 0
         then (if path = [] then ''.'' else take 1 (drop baseptr path))
         else take (nat len) (drop baseptr path))"

definition mm_dirname :: "bool \<Rightarrow> string option \<Rightarrow> string" where
  "mm_dirname win32 path0 =
     (let path = (case path0 of None \<Rightarrow> [] | Some p \<Rightarrow> p);
          baseptr = get_basename_ptr win32 path
      in if baseptr = 0
         then (if is_path_separator win32 (cstr_char path 0) then take 1 path else ''.'')
         else take (skip_seps_down win32 path (baseptr - 1) + 1) path)"

section \<open>What the scans find\<close>

text \<open>A path is a prefix, a last component without separator, and trailing separators.\<close>

definition path_split :: "bool \<Rightarrow> string \<Rightarrow> string \<Rightarrow> string \<Rightarrow> bool" where
  "path_split win32 pre b seps \<longleftrightarrow>
     b \<noteq> [] \<and> (\<forall>c \<in> set b. \<not> is_path_separator win32 c) \<and>
     (\<forall>c \<in> set seps. is_path_separator win32 c) \<and>
     (pre = [] \<or> is_path_separator win32 (last pre))"

text \<open>A directory prefix without its trailing separators, of which the first character stays.\<close>

definition strip_seps :: "bool \<Rightarrow> string \<Rightarrow> string" where
  "strip_seps win32 pre =
     (let s = rev (dropWhile (is_path_separator win32) (rev pre)) in if s = [] then take 1 pre else s)"

lemma skip_seps_down_le: "skip_seps_down w path n \<le> n"
  by (induction n) auto

lemma skip_seps_down_trailing:
  assumes "\<forall>c \<in> set seps. is_path_separator w c" "x \<noteq> []" "x = [c] \<or> \<not> is_path_separator w (last x)"
  shows "skip_seps_down w (x @ seps @ rest) (length x + length seps - 1) = length x - 1"
  using assms
proof (induction seps arbitrary: rest rule: rev_induct)
  case Nil
  then obtain n where n: "length x = Suc n" by (cases x) auto
  show ?case
  proof (cases n)
    case 0
    then show ?thesis using n by simp
  next
    case (Suc m)
    then have "(x @ rest) ! Suc m = last x"
      using n Nil(2) by (simp add: nth_append last_conv_nth)
    then show ?thesis using Nil n Suc by auto
  qed
next
  case (snoc s seps)
  obtain n where n: "length x = Suc n" using snoc.prems by (cases x) auto
  have "(x @ (seps @ [s]) @ rest) ! Suc (n + length seps) = s"
    using n by (simp add: nth_append)
  then show ?case
    using snoc.IH [of "s # rest"] snoc.prems n by simp
qed

lemma basename_scan_component:
  assumes "\<forall>c \<in> set b. \<not> is_path_separator w c" "pre = [] \<or> is_path_separator w (last pre)"
    "k \<le> length b" "int (length pre + k) \<le> lastptr"
  shows "basename_scan w (pre @ b @ rest) lastptr (length pre + k) = length pre"
  using assms(3,4)
proof (induction k)
  case 0
  show ?case
  proof (cases "length pre")
    case (Suc n)
    then have "(pre @ b @ rest) ! n = last pre"
      by (cases "pre = []") (auto simp: nth_append last_conv_nth)
    then show ?thesis using assms(2) Suc 0 by auto
  qed simp
next
  case (Suc k)
  have "(pre @ b @ rest) ! (length pre + k) = b ! k" using Suc.prems by (simp add: nth_append)
  then show ?case using Suc assms(1) by simp
qed

lemma split_last_nonsep:
  assumes "path_split w pre b seps"
  shows "get_last_nonsep_ptr w (pre @ b @ seps) = int (length pre + length b - 1)"
proof -
  have "\<not> is_path_separator w (last (pre @ b))" "pre @ b \<noteq> []"
    using assms by (auto simp: path_split_def)
  then show ?thesis
    using skip_seps_down_trailing [of seps w "pre @ b" _ "[]"] assms
    by (auto simp: get_last_nonsep_ptr_def path_split_def add.assoc)
qed

lemma split_basename_ptr:
  assumes "path_split w pre b seps"
  shows "get_basename_ptr w (pre @ b @ seps) = length pre"
proof -
  have "length b - 1 \<le> length b" "0 < length b" using assms by (auto simp: path_split_def)
  then have "length pre + length b - 1 = length pre + (length b - 1)" by arith
  then show ?thesis
    using basename_scan_component [of b w pre "length b - 1" "int (length pre + length b - 1)" seps] assms
    unfolding get_basename_ptr_def split_last_nonsep [OF assms] Let_def
    by (simp add: path_split_def nat_add_distrib)
qed

lemma strip_seps_cases:
  assumes "pre \<noteq> []"
  obtains s c where "pre = strip_seps w pre @ s" "\<forall>c \<in> set s. is_path_separator w c" "strip_seps w pre \<noteq> []"
    "strip_seps w pre = [c] \<or> \<not> is_path_separator w (last (strip_seps w pre))"
proof -
  define d where "d = rev (dropWhile (is_path_separator w) (rev pre))"
  define s where "s = rev (takeWhile (is_path_separator w) (rev pre))"
  have ds: "pre = d @ s" unfolding d_def s_def
    by (metis rev_append rev_rev_ident takeWhile_dropWhile_id)
  have seps: "\<forall>c \<in> set s. is_path_separator w c" by (auto simp: s_def dest: set_takeWhileD)
  show ?thesis
  proof (cases "d = []")
    case True
    then have e: "strip_seps w pre = [hd pre]" "pre = [hd pre] @ tl pre"
      using assms by (auto simp: strip_seps_def d_def [symmetric] neq_Nil_conv)
    moreover have "\<forall>c \<in> set (tl pre). is_path_separator w c"
      using seps ds True by (cases s) auto
    ultimately show ?thesis using that [of "tl pre" "hd pre"] by (metis list.simps(3))
  next
    case False
    then have e: "strip_seps w pre = d" unfolding strip_seps_def d_def [symmetric] by (simp add: Let_def)
    have ne: "dropWhile (is_path_separator w) (rev pre) \<noteq> []" using False by (simp add: d_def)
    have "last d = hd (dropWhile (is_path_separator w) (rev pre))" by (simp add: d_def last_rev)
    then have "\<not> is_path_separator w (last d)" using hd_dropWhile [OF ne] by simp
    then show ?thesis using that [of s] ds seps False e by metis
  qed
qed

lemma dirname_prefix:
  assumes "pre \<noteq> []"
  shows "take (skip_seps_down w (pre @ rest) (length pre - 1) + 1) (pre @ rest) = strip_seps w pre"
proof -
  obtain s c where s: "pre = strip_seps w pre @ s" "\<forall>c \<in> set s. is_path_separator w c"
    "strip_seps w pre \<noteq> []" "strip_seps w pre = [c] \<or> \<not> is_path_separator w (last (strip_seps w pre))"
    using strip_seps_cases [OF assms] by metis
  define d where "d = strip_seps w pre"
  have "skip_seps_down w (d @ s @ rest) (length d + length s - 1) = length d - 1"
    using skip_seps_down_trailing [of s w d c rest] s by (simp add: d_def)
  moreover have "pre @ rest = d @ s @ rest" "length pre = length d + length s"
    using s(1) unfolding d_def by (metis append.assoc, metis length_append)
  moreover have "length d - 1 + 1 = length d" using s(3) by (simp add: d_def)
  ultimately have "take (skip_seps_down w (pre @ rest) (length pre - 1) + 1) (pre @ rest) =
      take (length d) (d @ s @ rest)" by metis
  then show ?thesis by (simp add: d_def)
qed

section \<open>Properties\<close>

text \<open>
  Base name and directory name against their specification: when a path consists of a prefix
  (empty or ended by a separator), a last component without separator and trailing separators, then
  the base name is that component and the directory name is the prefix without its trailing
  separators (of which the first character is kept, so that the root stays the root), or \<open>.\<close> when
  there is no prefix.
\<close>

theorem mm_basename_dirname_split:
  assumes "path_split w pre b seps"
  shows "mm_basename w (Some (pre @ b @ seps)) = b \<and>
    mm_dirname w (Some (pre @ b @ seps)) = (if pre = [] then ''.'' else strip_seps w pre)"
proof
  have b: "b \<noteq> []" using assms by (simp add: path_split_def)
  show "mm_basename w (Some (pre @ b @ seps)) = b"
    using b unfolding mm_basename_def Let_def option.case split_last_nonsep [OF assms]
      split_basename_ptr [OF assms] by (cases b) (auto simp: nat_add_distrib)
  show "mm_dirname w (Some (pre @ b @ seps)) = (if pre = [] then ''.'' else strip_seps w pre)"
  proof (cases "pre = []")
    case True
    then show ?thesis using assms b
      unfolding mm_dirname_def Let_def option.case split_basename_ptr [OF assms]
      by (cases b) (auto simp: path_split_def)
  next
    case False
    then show ?thesis
      unfolding mm_dirname_def Let_def option.case split_basename_ptr [OF assms]
      using dirname_prefix [OF False, of w "b @ seps"] by simp
  qed
qed

theorem mm_basename_dirname_split_witness:
  "path_split False ''/usr//'' ''lib'' ''//'' \<and>
   mm_basename False (Some ''/usr//lib//'') = ''lib'' \<and> mm_dirname False (Some ''/usr//lib//'') = ''/usr''"
proof -
  have "path_split False ''/usr//'' ''lib'' ''//''" by (simp add: path_split_def is_path_separator_def)
  then show ?thesis
    using mm_basename_dirname_split [of False "''/usr//''" "''lib''" "''//''"]
    by (simp add: strip_seps_def is_path_separator_def)
qed

text \<open>
  The results of \<open>mm_basename\<close> and \<open>mm_dirname\<close> are never empty and always fit a buffer of the
  length of the path with a minimum of two bytes, whatever the path (null and empty included).
\<close>

theorem mm_basename_dirname_fit:
  "let len = (case path of None \<Rightarrow> 0 | Some p \<Rightarrow> length p) in
     mm_basename w path \<noteq> [] \<and> length (mm_basename w path) + 1 \<le> max 2 (len + 1) \<and>
     mm_dirname w path \<noteq> [] \<and> length (mm_dirname w path) + 1 \<le> max 2 (len + 1)"
proof -
  define p where "p = (case path of None \<Rightarrow> [] | Some p \<Rightarrow> p)"
  have le: "basename_scan w p l n \<le> n" for l n by (induction n) auto
  have last: "get_last_nonsep_ptr w p < int (length p)"
    using skip_seps_down_le [of w p "length p - 1"] by (auto simp: get_last_nonsep_ptr_def not_less_eq_eq
        intro: le_less_trans)
  have base: "p \<noteq> [] \<Longrightarrow> get_basename_ptr w p < length p"
    using le [of "get_last_nonsep_ptr w p" "nat (get_last_nonsep_ptr w p)"] last
    by (cases p) (auto simp: get_basename_ptr_def Let_def get_last_nonsep_ptr_def elim: le_less_trans)
  have "mm_basename w path \<noteq> [] \<and> length (mm_basename w path) \<le> max 1 (length p)"
    using base last by (auto simp: mm_basename_def p_def [symmetric] Let_def)
  moreover have "get_basename_ptr w [] = 0" by (simp add: get_basename_ptr_def get_last_nonsep_ptr_def)
  then have "mm_dirname w path \<noteq> [] \<and> length (mm_dirname w path) \<le> max 1 (length p)"
    using base by (cases p) (auto simp: mm_dirname_def p_def [symmetric] Let_def is_path_separator_def)
  moreover have "length p = (case path of None \<Rightarrow> 0 | Some p \<Rightarrow> length p)"
    by (simp add: p_def split: option.split)
  ultimately show ?thesis by (auto simp: Let_def)
qed

end
