(* ===== verification/Arg_Parse.thy ===== *)
theory Arg_Parse
  imports Arg_Conv Paths
begin

unbundle bit_operations_syntax

text \<open>
  Completion and parsing of the command line (\<^verbatim>\<open>src/src/argparse.c\<close>, completion helpers, from
  \<open>process_opt_value\<close> on, and the public functions). Standard output and standard error are part of
  the state. \<open>exit\<close> is an outcome of its own. What the parser needs from its surroundings (the texts
  of \<open>strerror\<close>, the content of directories, the memory of \<open>mm_malloca\<close>, the platform, the memory behind the
  terminator of an argument) is a record.
\<close>

record arg_env =
  e_strerror :: "errcode \<Rightarrow> string"
  e_listdir :: "string \<Rightarrow> (string \<times> int) list option"
  e_alloc :: bool
  e_win32 :: bool
  e_behind :: "nat \<Rightarrow> string"

definition MM_ARGPARSE_ERROR :: int where "MM_ARGPARSE_ERROR = - 1"
definition MM_ARGPARSE_STOP :: int where "MM_ARGPARSE_STOP = - 2"
definition MM_ARGPARSE_COMPLETE :: int where "MM_ARGPARSE_COMPLETE = - 3"
definition MM_ARG_OPT_COMPLETION :: int where "MM_ARG_OPT_COMPLETION = 1"
definition MM_DT_DIR :: int where "MM_DT_DIR = 0x10"
definition MM_DT_REG :: int where "MM_DT_REG = 0x20"

lemmas argparse_codes = MM_ARGPARSE_ERROR_def MM_ARGPARSE_STOP_def MM_ARGPARSE_COMPLETE_def

section \<open>Completion\<close>

definition is_completing :: "'d mm_arg_parser \<Rightarrow> bool" where
  "is_completing parser \<longleftrightarrow> p_flags parser AND MM_ARG_PARSER_COMPLETION \<noteq> 0"

text \<open>The candidates that \<open>complete_longopt\<close> prints for one option.\<close>

definition complete_longopt :: "nat \<Rightarrow> string \<Rightarrow> mm_arg_opt \<Rightarrow> string" where
  "complete_longopt len name_start opt =
     (case mm_arg_opt_get_name opt of
        None \<Rightarrow> []
      | Some lname \<Rightarrow>
          if \<not> strncmp_eq name_start lname len then []
          else
            let req = opt_flags opt AND MM_OPT_REQMASK
            in if req = MM_OPT_NOVAL then ''--'' @ lname @ [LF]
               else if req = MM_OPT_NEEDVAL then ''--'' @ lname @ ''='' @ [LF]
               else if req = MM_OPT_OPTVAL then ''--'' @ lname @ ''='' @ [LF] @ ''--'' @ lname @ [LF]
               else [])"

definition complete_longopts :: "'d mm_arg_parser \<Rightarrow> string option \<Rightarrow> 'd parse_state \<Rightarrow> int \<times> 'd parse_state" where
  "complete_longopts parser arg0 st =
     (let arg = (case arg0 of None \<Rightarrow> [] | Some a \<Rightarrow> a); len = length arg
      in (MM_ARGPARSE_COMPLETE,
          put_out (concat (map (complete_longopt len arg) (p_optv parser))
                   @ complete_longopt len arg help_opt) st))"

definition complete_shortopts :: "'d mm_arg_parser \<Rightarrow> string option \<Rightarrow> 'd parse_state \<Rightarrow> int \<times> 'd parse_state" where
  "complete_shortopts parser arg0 st =
     (let arg = (case arg0 of None \<Rightarrow> [] | Some a \<Rightarrow> a)
      in if list_ex (\<lambda>c. find_opt parser c [] 0 = None) arg then (MM_ARGPARSE_COMPLETE, st)
         else if arg \<noteq> [] then (MM_ARGPARSE_COMPLETE, put_out (''-'' @ arg @ [LF]) st)
         else
           let keys = filter (\<lambda>k. k \<noteq> NUL) (map mm_arg_opt_get_key (p_optv parser))
           in (MM_ARGPARSE_COMPLETE,
               put_out (concat (map (\<lambda>k. ''-'' @ [k] @ [LF]) keys) @ ''-h'' @ [LF]) st))"

text \<open>
  \<open>mm_arg_complete_path\<close>: the candidate that is printed for one directory entry, then the function.
  The callback gets the name, the directory and the type of an entry.
\<close>

definition path_candidate ::
  "string \<Rightarrow> int \<Rightarrow> (string \<Rightarrow> string \<Rightarrow> int \<Rightarrow> int) option \<Rightarrow> string \<Rightarrow> string \<Rightarrow> string \<times> int \<Rightarrow> string" where
  "path_candidate base type_mask cb dirpath disp_dir entry =
     (let (name, type) = entry
      in if \<not> strncmp_eq name base (length base) \<or> is_wildcard_directory name then []
         else if (case cb of None \<Rightarrow> False | Some f \<Rightarrow> f name dirpath type \<noteq> 1) then []
         else if type AND type_mask = 0 then []
         else disp_dir @ name @ (if type AND MM_DT_DIR \<noteq> 0 then ''/'' else []) @ [LF])"

definition mm_arg_complete_path ::
  "arg_env \<Rightarrow> string option \<Rightarrow> int \<Rightarrow> (string \<Rightarrow> string \<Rightarrow> int \<Rightarrow> int) option \<Rightarrow> 'd parse_state
     \<Rightarrow> int \<times> 'd parse_state" where
  "mm_arg_complete_path env arg0 type_mask cb st =
     (case arg0 of
        None \<Rightarrow> (- 1, set_errno EINVAL st)
      | Some arg \<Rightarrow>
          if \<not> e_alloc env then (- 1, st)
          else
            let (dirpath, base) =
                  (if arg = [] \<or> is_path_separator (e_win32 env) (last arg)
                   then (if arg \<noteq> [] then arg else ''./'', [])
                   else (mm_dirname (e_win32 env) (Some arg) @ ''/'', mm_basename (e_win32 env) (Some arg)));
                disp_dir = (if list_ex (is_path_separator (e_win32 env)) arg then dirpath else [])
            in (case e_listdir env dirpath of
                  None \<Rightarrow> (- 1, st)
                | Some entries \<Rightarrow>
                    (0, put_out (concat (map (path_candidate base type_mask cb dirpath disp_dir) entries)) st)))"

definition complete_opt_value ::
  "arg_env \<Rightarrow> 'd mm_arg_parser \<Rightarrow> mm_arg_opt \<Rightarrow> string option \<Rightarrow> 'd parse_state \<Rightarrow> int \<times> 'd parse_state" where
  "complete_opt_value env parser opt arg st =
     (let (rv, st) = (case p_cb parser of
            None \<Rightarrow> (0, st)
          | Some cb \<Rightarrow>
              let (r, d) = cb opt (ValStr arg) (s_data st) MM_ARG_OPT_COMPLETION in (r, st\<lparr>s_data := d\<rparr>))
      in if rv \<noteq> 0 then (MM_ARGPARSE_COMPLETE, st)
         else if opt_flags opt AND (MM_OPT_FILEPATH OR MM_OPT_DIRPATH) \<noteq> 0
         then
           let flags = (if opt_flags opt AND MM_OPT_FILEPATH \<noteq> 0 then MM_DT_REG OR MM_DT_DIR else 0);
               flags = (if opt_flags opt AND MM_OPT_DIRPATH \<noteq> 0 then flags OR MM_DT_DIR else flags)
           in (MM_ARGPARSE_COMPLETE, snd (mm_arg_complete_path env arg flags None st))
         else (case arg of
                 None \<Rightarrow> (MM_ARGPARSE_COMPLETE, st)
               | Some a \<Rightarrow> (MM_ARGPARSE_COMPLETE, put_out (a @ [LF]) st)))"

section \<open>One option\<close>

definition process_opt_value ::
  "arg_env \<Rightarrow> found_opt \<Rightarrow> string option \<Rightarrow> 'd mm_arg_parser \<Rightarrow> 'd parse_state \<Rightarrow> int \<times> 'd parse_state" where
  "process_opt_value env f value0 parser st =
     (let opt = opt_of parser f; reqflags = opt_flags opt AND MM_OPT_REQMASK
      in if f = HelpOpt
         then if is_completing parser then (0, st)
              else (MM_ARGPARSE_STOP, put_out (print_help parser) st)
         else if reqflags = MM_OPT_NOVAL \<and> value0 \<noteq> None
         then (MM_ARGPARSE_ERROR, print_opt_error opt ''does not accept any value.'' st)
         else if reqflags = MM_OPT_NEEDVAL \<and> value0 = None
         then (MM_ARGPARSE_ERROR, print_opt_error opt ''needs value.'' st)
         else
           let value1 = (if value0 = None then opt_defval opt else value0)
           in case conv_str_to_argval (e_strerror env) opt value1 st of
                (None, st) \<Rightarrow> (- 1, st)
              | (Some argval, st) \<Rightarrow>
                  let (rv, st) = (case p_cb parser of
                         None \<Rightarrow> (0, st)
                       | Some cb \<Rightarrow>
                           let (r, d) = cb opt argval (s_data st) 0 in (r, st\<lparr>s_data := d\<rparr>))
                  in if rv < 0 then (rv, st) else mm_arg_opt_set_value opt argval st)"

text \<open>
  The loop of \<open>process_short_opt\<close> over the concatenated keys; \<open>val\<close> and \<open>move\<close> are its local
  variables \<open>value\<close> and \<open>move_arg_index\<close>.
\<close>

fun process_short_loop ::
  "arg_env \<Rightarrow> 'd mm_arg_parser \<Rightarrow> string \<Rightarrow> string option \<Rightarrow> string \<Rightarrow> bool \<Rightarrow> string option \<Rightarrow> int \<Rightarrow> 'd parse_state
     \<Rightarrow> int \<times> 'd parse_state" where
  "process_short_loop env parser [] next_arg behind next_is_last val move st = (move, st)"
| "process_short_loop env parser (c # opts) next_arg behind next_is_last val move st =
     (case find_opt parser c [] 0 of
        None \<Rightarrow> (- 1, put_err (''Unsupported option -'' @ [c] @ [LF]) st)
      | Some f \<Rightarrow>
          let reqflags = opt_flags (opt_of parser f) AND MM_OPT_REQMASK;
              take_next = (reqflags \<noteq> MM_OPT_NOVAL \<and> opts = [] \<and> \<not> is_arg_an_option behind next_arg);
              val' = (if take_next then next_arg else val);
              move' = (if take_next then 1 else move)
          in if take_next \<and> is_completing parser \<and> next_is_last
             then complete_opt_value env parser (opt_of parser f) val' st
             else case process_opt_value env f val' parser st of
                    (rv, st) \<Rightarrow>
                      if rv < 0 then (rv, st)
                      else process_short_loop env parser opts next_arg behind next_is_last val' move' st)"

definition process_short_opt ::
  "arg_env \<Rightarrow> 'd mm_arg_parser \<Rightarrow> string \<Rightarrow> string option \<Rightarrow> string \<Rightarrow> bool \<Rightarrow> 'd parse_state \<Rightarrow> int \<times> 'd parse_state" where
  "process_short_opt env parser opts next_arg behind next_is_last st =
     (if is_completing parser \<and> next_arg = None then complete_shortopts parser (Some opts) st
      else process_short_loop env parser opts next_arg behind next_is_last None 0 st)"

definition process_long_opt ::
  "arg_env \<Rightarrow> 'd mm_arg_parser \<Rightarrow> string \<Rightarrow> bool \<Rightarrow> 'd parse_state \<Rightarrow> int \<times> 'd parse_state" where
  "process_long_opt env parser arg do_complete st =
     (let namelen = get_first_token_length arg CHR ''='';
          val = (if cstr_char arg namelen = CHR ''='' then Some (drop (namelen + 1) arg) else None)
      in if do_complete \<and> cstr_char arg namelen \<noteq> CHR ''=''
         then (MM_ARGPARSE_COMPLETE, snd (complete_longopts parser (Some arg) st))
         else case find_opt parser IGNORE_KEY arg namelen of
           None \<Rightarrow>
             if do_complete then (MM_ARGPARSE_COMPLETE, st)
             else (MM_ARGPARSE_ERROR, put_err (''Unsupported option --'' @ take namelen arg @ [LF]) st)
         | Some f \<Rightarrow>
             if do_complete then complete_opt_value env parser (opt_of parser f) val st
             else case process_opt_value env f val parser st of
                    (rv, st) \<Rightarrow> if rv < 0 then (rv, st) else (0, st))"

section \<open>The command line\<close>

datatype outcome = Return int | Exit int

definition early_stop_parsing :: "'d mm_arg_parser \<Rightarrow> int \<Rightarrow> 'd parse_state \<Rightarrow> outcome \<times> 'd parse_state" where
  "early_stop_parsing parser retval st =
     (let st = (if retval = MM_ARGPARSE_ERROR
                then put_err (''Use -h or --help to display usage.'' @ [LF]) st else st);
          exitcode = (if retval = MM_ARGPARSE_ERROR then 1 else 0)
      in if p_flags parser AND MM_ARG_PARSER_NOEXIT \<noteq> 0 then (Return retval, st) else (Exit exitcode, st))"

definition mm_arg_parse_complete ::
  "'d mm_arg_parser \<Rightarrow> string option \<Rightarrow> 'd parse_state \<Rightarrow> outcome \<times> 'd parse_state" where
  "mm_arg_parse_complete parser arg0 st =
     (case validate_options parser of
        Some msg \<Rightarrow> early_stop_parsing parser MM_ARGPARSE_ERROR (put_err msg st)
      | None \<Rightarrow>
          (case arg0 of
             None \<Rightarrow> (Return 0, st)
           | Some arg \<Rightarrow>
               let len = length arg;
                   dash = (cstr_char arg 0 = CHR ''-'');
                   st = (if len < 1 \<or> dash
                         then snd (complete_shortopts parser (Some (if len \<ge> 1 then drop 1 arg else [])) st)
                         else st);
                   st = (if len = 0 \<or> (len = 1 \<and> dash) \<or> (len \<ge> 2 \<and> dash \<and> cstr_char arg 1 = CHR ''-'')
                         then snd (complete_longopts parser (Some (if len \<ge> 2 then drop 2 arg else [])) st)
                         else st)
               in (Return 0, st)))"

text \<open>The loop of \<open>mm_arg_parse\<close> at \<open>index\<close>.\<close>

function parse_loop ::
  "arg_env \<Rightarrow> 'd mm_arg_parser \<Rightarrow> string list \<Rightarrow> nat \<Rightarrow> bool \<Rightarrow> 'd parse_state \<Rightarrow> outcome \<times> 'd parse_state" where
  "parse_loop env parser argv index do_complete st =
     (if \<not> index < length argv
      then (Return (if index > length argv then int (length argv) else int index), st)
      else
        let arg = argv ! index
        in if cstr_char arg 0 \<noteq> CHR ''-'' then (Return (int index), st)
           else if is_valid_short_opt_key (cstr_char arg 1)
           then
             let next_arg = (if index + 1 < length argv then Some (argv ! (index + 1)) else None)
             in case process_short_opt env parser (drop 1 arg) next_arg (e_behind env (index + 1)) (index + 2 = length argv) st of
                  (r, st) \<Rightarrow>
                    if r < 0 then early_stop_parsing parser r st
                    else parse_loop env parser argv (index + nat r + 1) do_complete st
           else
             let do_complete = (do_complete \<or> (index = length argv - 1 \<and> is_completing parser))
             in if cstr_char arg 1 = NUL \<and> do_complete
                then (case mm_arg_parse_complete parser (Some arg) st of
                        (Exit c, st) \<Rightarrow> (Exit c, st)
                      | (Return _, st) \<Rightarrow> early_stop_parsing parser MM_ARGPARSE_COMPLETE st)
                else if cstr_char arg 1 \<noteq> CHR ''-'' then (Return (int index), st)
                else if cstr_char arg 2 = NUL \<and> \<not> do_complete then (Return (int index + 1), st)
                else case process_long_opt env parser (drop 2 arg) do_complete st of
                       (r, st) \<Rightarrow>
                         if r < 0 then early_stop_parsing parser r st
                         else parse_loop env parser argv (index + 1) do_complete st)"
  by pat_completeness auto
termination
  by (relation "measure (\<lambda>(env, parser, argv, index, c, st). length argv - index)") auto

declare parse_loop.simps [simp del]

definition mm_arg_parse ::
  "arg_env \<Rightarrow> 'd mm_arg_parser \<Rightarrow> string list \<Rightarrow> 'd parse_state \<Rightarrow> outcome \<times> 'd parse_state" where
  "mm_arg_parse env parser argv st =
     (case validate_options parser of
        Some msg \<Rightarrow> early_stop_parsing parser MM_ARGPARSE_ERROR (put_err msg st)
      | None \<Rightarrow> parse_loop env parser argv 1 False st)"

definition mm_arg_optv_parse ::
  "arg_env \<Rightarrow> int \<Rightarrow> mm_arg_opt list \<Rightarrow> string list \<Rightarrow> 'd parse_state \<Rightarrow> outcome \<times> 'd parse_state" where
  "mm_arg_optv_parse env optn optv argv st =
     mm_arg_parse env \<lparr>p_flags = 0, p_optv = take (nat optn) optv, p_doc = None, p_args_doc = None,
       p_execname = Some (hd argv), p_cb = None\<rparr> argv st"

text \<open>\<open>mm_arg_is_completing\<close>: the static variable caches the first answer of the environment.\<close>

definition mm_arg_is_completing :: "bool \<Rightarrow> int \<Rightarrow> int \<times> int" where
  "mm_arg_is_completing env_set cached =
     (if cached \<ge> 0 then (cached, cached)
      else let c = (if env_set then 1 else 0) in (c, c))"

section \<open>The variables of the options\<close>

text \<open>
  \<open>store_typed parser s0 st\<close>: every variable has its value of \<open>s0\<close>, or one that an option of the
  parser with that address may receive.
\<close>

definition store_typed :: "'d mm_arg_parser \<Rightarrow> (nat \<rightharpoonup> mm_arg_val) \<Rightarrow> 'd parse_state \<Rightarrow> bool" where
  "store_typed parser s0 st \<longleftrightarrow>
     (\<forall>ptr v. s_store st ptr = Some v \<longrightarrow> s0 ptr = Some v \<or>
        (\<exists>opt \<in> set (p_optv parser). opt_val opt = Some ptr \<and> val_in_type (mm_arg_opt_get_type opt) v))"

named_theorems same_store \<open>operations that leave the variables alone\<close>

lemma store_put [simp, same_store]:
  "s_store (put_out m st) = s_store st" "s_store (put_err m st) = s_store st"
  "s_store (set_errno e st) = s_store st" "s_store (print_opt_error opt m st) = s_store st"
  by (simp_all add: put_out_def put_err_def set_errno_def print_opt_error_def Let_def)

lemma store_complete [simp, same_store]:
  "s_store (snd (complete_longopts parser arg st)) = s_store st"
  "s_store (snd (complete_shortopts parser arg st)) = s_store st"
  "s_store (snd (mm_arg_complete_path env arg tmask cb st)) = s_store st"
  by (auto simp: complete_longopts_def complete_shortopts_def mm_arg_complete_path_def Let_def
      split: option.splits prod.splits)

lemma store_complete_value [simp, same_store]:
  "s_store (snd (complete_opt_value env parser opt arg st)) = s_store st"
  by (auto simp: complete_opt_value_def Let_def split: option.splits prod.splits)

lemma store_early_stop [simp, same_store]:
  "s_store (snd (early_stop_parsing parser r st)) = s_store st"
  by (simp add: early_stop_parsing_def Let_def)

lemma store_parse_complete [simp, same_store]:
  "s_store (snd (mm_arg_parse_complete parser arg st)) = s_store st"
  by (simp add: mm_arg_parse_complete_def Let_def split: option.splits)

lemma store_typed_same: "s_store st' = s_store st \<Longrightarrow> store_typed parser s0 st' = store_typed parser s0 st"
  by (simp add: store_typed_def)

lemma conv_store: "s_store (snd (conv_str_to_argval se opt v st)) = s_store st"
  by (simp add: conv_str_to_argval_def split: sum.split)

lemma set_value_typed:
  assumes "store_typed parser s0 st" "opt \<in> set (p_optv parser)" "val_in_type (mm_arg_opt_get_type opt) v"
  shows "store_typed parser s0 (snd (mm_arg_opt_set_value opt v st))"
  using assms by (auto simp: mm_arg_opt_set_value_def store_typed_def split: option.splits)

lemma process_opt_value_typed:
  assumes "store_typed parser s0 st" "f \<noteq> HelpOpt \<Longrightarrow> opt_of parser f \<in> set (p_optv parser)"
  shows "store_typed parser s0 (snd (process_opt_value env f v parser st))"
proof -
  let ?v = "if v = None then opt_defval (opt_of parser f) else v"
  obtain c st1 where c: "conv_str_to_argval (e_strerror env) (opt_of parser f) ?v st = (c, st1)"
    by fastforce
  have st1: "s_store st1 = s_store st" using conv_store [of "e_strerror env" "opt_of parser f" ?v st] c by simp
  have ty: "c = Some w \<Longrightarrow> val_in_type (mm_arg_opt_get_type (opt_of parser f)) w" for w
    using c conv_value_in_type [of "opt_of parser f" ?v w]
    by (auto simp: conv_str_to_argval_def split: sum.splits)
  have set: "store_typed parser s0 (snd (mm_arg_opt_set_value (opt_of parser f) w st2))"
    if "c = Some w" "s_store st2 = s_store st" "f \<noteq> HelpOpt" for w st2
    using set_value_typed [OF _ assms(2) [OF that(3)] ty [OF that(1)], of s0 st2]
      assms(1) store_typed_same [OF that(2), of parser s0] by simp
  have keep: "store_typed parser s0 st2" if "s_store st2 = s_store st" for st2
    using assms(1) store_typed_same [OF that] by simp
  show ?thesis
    using c st1
    by (auto simp: process_opt_value_def Let_def intro: keep set split: option.splits prod.splits)
qed

lemma find_opt_in: "find_opt parser key name n = Some f \<Longrightarrow> f \<noteq> HelpOpt \<Longrightarrow> opt_of parser f \<in> set (p_optv parser)"
  using find_opt_UserOpt [of parser key name n] by (cases f) (auto simp: opt_of_def)

lemma short_loop_typed:
  "store_typed parser s0 st \<Longrightarrow>
     store_typed parser s0 (snd (process_short_loop env parser opts next_arg behind last_arg v mv st))"
proof (induction opts arbitrary: v mv st)
  case (Cons c opts)
  show ?case
  proof (cases "find_opt parser c [] 0")
    case None
    then show ?thesis using Cons.prems store_typed_same [OF store_put(2)] by auto
  next
    case (Some f)
    have p: "store_typed parser s0 (snd (process_opt_value env f w parser st))" for w
      by (rule process_opt_value_typed [OF Cons.prems find_opt_in [OF Some]])
    have k: "store_typed parser s0 (snd (complete_opt_value env parser opt w st))" for opt w
      using Cons.prems store_typed_same [OF store_complete_value] by blast
    show ?thesis using Some p k Cons.IH
      by (auto simp: Let_def split: prod.splits) (metis snd_conv)+
  qed
qed simp

lemma short_opt_typed:
  "store_typed parser s0 st \<Longrightarrow>
     store_typed parser s0 (snd (process_short_opt env parser opts next_arg behind last_arg st))"
  by (simp add: process_short_opt_def short_loop_typed store_typed_same [OF store_complete(2)])

lemma long_opt_typed:
  assumes "store_typed parser s0 st"
  shows "store_typed parser s0 (snd (process_long_opt env parser arg dc st))"
proof -
  have p: "store_typed parser s0 (snd (process_opt_value env f w parser st))"
    if "find_opt parser NUL arg n = Some f" for f w n
    by (rule process_opt_value_typed [OF assms find_opt_in [OF that]])
  have k: "store_typed parser s0 (snd (complete_opt_value env parser opt w st))"
    "store_typed parser s0 (snd (complete_longopts parser w st))"
    "store_typed parser s0 (put_err m st)" for opt w m
    using assms store_typed_same [OF store_complete_value] store_typed_same [OF store_complete(1)]
      store_typed_same [OF store_put(2)] by blast+
  show ?thesis
    using p k assms by (auto simp: process_long_opt_def Let_def split: option.splits prod.splits) (metis snd_conv)+
qed

lemma early_stop_typed:
  "store_typed parser s0 st \<Longrightarrow> store_typed parser s0 (snd (early_stop_parsing parser r st))"
  using store_typed_same [OF store_early_stop] by blast

lemma parse_complete_typed:
  "store_typed parser s0 st \<Longrightarrow> store_typed parser s0 (snd (mm_arg_parse_complete parser arg st))"
  using store_typed_same [OF store_parse_complete] by blast

lemmas typed_intros = short_opt_typed long_opt_typed early_stop_typed parse_complete_typed

lemma parse_loop_typed:
  "store_typed parser s0 st \<Longrightarrow> store_typed parser s0 (snd (parse_loop env parser argv index dc st))"
proof (induction env parser argv index dc st rule: parse_loop.induct)
  case (1 env parser argv index dc st)
  let ?arg = "argv ! index"
  let ?next = "if index + 1 < length argv then Some (argv ! (index + 1)) else None"
  obtain r1 st1 where s: "process_short_opt env parser (drop 1 ?arg) ?next (e_behind env (index + 1)) (index + 2 = length argv) st = (r1, st1)"
    by fastforce
  let ?dc = "dc \<or> (index = length argv - 1 \<and> is_completing parser)"
  obtain r2 st2 where l: "process_long_opt env parser (drop 2 ?arg) ?dc st = (r2, st2)" by fastforce
  obtain o3 st3 where c: "mm_arg_parse_complete parser (Some ?arg) st = (o3, st3)" by fastforce
  have t: "store_typed parser s0 st1" "store_typed parser s0 st2" "store_typed parser s0 st3"
    using short_opt_typed [OF 1(3)] long_opt_typed [OF 1(3)] parse_complete_typed [OF 1(3)] s l c
    by (metis snd_conv)+
  show ?case
    using 1(1) [OF _ refl _ _ refl s [symmetric]] 1(2) [OF _ refl _ _ refl _ _ _ l [symmetric]] 1(3) t early_stop_typed s l c
    by (subst parse_loop.simps) (auto simp: Let_def split: outcome.splits)
qed

section \<open>The returned index\<close>

definition noexit :: "'d mm_arg_parser \<Rightarrow> bool" where
  "noexit parser \<longleftrightarrow> p_flags parser AND MM_ARG_PARSER_NOEXIT \<noteq> 0"

text \<open>
  What an outcome may be when the parse started at \<open>index\<close>: an index up to the argument count, or an
  early stop that returns a negative code with the flag NOEXIT, and exits without it.
\<close>

definition outcome_ok :: "'d mm_arg_parser \<Rightarrow> nat \<Rightarrow> nat \<Rightarrow> outcome \<Rightarrow> bool" where
  "outcome_ok parser argc index oc =
     (case oc of
        Return r \<Rightarrow> (int (min index argc) \<le> r \<and> r \<le> int argc) \<or> (noexit parser \<and> r < 0)
      | Exit c \<Rightarrow> \<not> noexit parser \<and> (c = 0 \<or> c = 1))"

lemma early_stop_ok: "r < 0 \<Longrightarrow> outcome_ok parser argc index (fst (early_stop_parsing parser r st))"
  by (auto simp: early_stop_parsing_def outcome_ok_def noexit_def Let_def)

lemma outcome_ok_mono: "outcome_ok parser argc i oc \<Longrightarrow> index \<le> i \<Longrightarrow> outcome_ok parser argc index oc"
  by (auto simp: outcome_ok_def split: outcome.splits)

lemma parse_complete_ok:
  "mm_arg_parse_complete parser arg st = (Exit c, st') \<Longrightarrow> outcome_ok parser argc index (Exit c)"
  using early_stop_ok [of MM_ARGPARSE_ERROR parser argc index "put_err (the (validate_options parser)) st"]
  by (auto simp: mm_arg_parse_complete_def Let_def argparse_codes split: option.splits)

lemma parse_loop_ok:
  "outcome_ok parser (length argv) index (fst (parse_loop env parser argv index dc st))"
proof (induction env parser argv index dc st rule: parse_loop.induct)
  case (1 env parser argv index dc st)
  let ?arg = "argv ! index"
  let ?next = "if index + 1 < length argv then Some (argv ! (index + 1)) else None"
  obtain r1 st1 where s: "process_short_opt env parser (drop 1 ?arg) ?next (e_behind env (index + 1)) (index + 2 = length argv) st = (r1, st1)"
    by fastforce
  let ?dc = "dc \<or> (index = length argv - 1 \<and> is_completing parser)"
  obtain r2 st2 where l: "process_long_opt env parser (drop 2 ?arg) ?dc st = (r2, st2)" by fastforce
  obtain o3 st3 where c: "mm_arg_parse_complete parser (Some ?arg) st = (o3, st3)" by fastforce
  have neg: "MM_ARGPARSE_COMPLETE < 0" by (simp add: argparse_codes)
  have ret: "index < length argv \<Longrightarrow> outcome_ok parser (length argv) index (Return (int index))"
    "index < length argv \<Longrightarrow> outcome_ok parser (length argv) index (Return (int index + 1))"
    "\<not> index < length argv \<Longrightarrow> outcome_ok parser (length argv) index
       (Return (if index > length argv then int (length argv) else int index))"
    by (auto simp: outcome_ok_def)
  show ?case
    using outcome_ok_mono [OF 1(1) [OF _ refl _ _ refl s [symmetric]], of index]
      outcome_ok_mono [OF 1(2) [OF _ refl _ _ refl _ _ _ l [symmetric]], of index]
      early_stop_ok [of _ parser] parse_complete_ok [of parser "Some ?arg" st] ret s l c neg
    by (subst parse_loop.simps) (auto simp: Let_def split: outcome.splits)
qed

lemma find_opt_UserOpt_not_help: "find_opt parser key name n = Some (UserOpt i) \<Longrightarrow>
    opt_of parser (UserOpt i) = p_optv parser ! i"
  by (simp add: opt_of_def)

section \<open>Giving a value to an option\<close>

text \<open>An option that takes a value and has a variable, in a parser without callback.\<close>

definition takes_value :: "'d mm_arg_parser \<Rightarrow> nat \<Rightarrow> string \<Rightarrow> mm_arg_val \<Rightarrow> nat \<Rightarrow> bool" where
  "takes_value parser i val v ptr \<longleftrightarrow>
     i < length (p_optv parser) \<and> p_cb parser = None \<and> \<not> is_completing parser \<and>
     opt_flags (p_optv parser ! i) AND MM_OPT_REQMASK \<noteq> MM_OPT_NOVAL \<and>
     opt_val (p_optv parser ! i) = Some ptr \<and> conv_value (p_optv parser ! i) (Some val) = Inr v"

lemma val_type_known:
  "val_in_type type v \<Longrightarrow> type \<in> {MM_OPT_STR, MM_OPT_INT, MM_OPT_UINT, MM_OPT_LLONG, MM_OPT_ULLONG}"
  by (auto simp: val_in_type_def split: mm_arg_val.splits)

lemma process_value_sets:
  assumes "takes_value parser i val v ptr"
  shows "process_opt_value env (UserOpt i) (Some val) parser st = (0, st\<lparr>s_store := (s_store st)(ptr \<mapsto> v)\<rparr>)"
proof -
  have c: "conv_value (p_optv parser ! i) (Some val) = Inr v" using assms by (simp add: takes_value_def)
  show ?thesis
    using assms val_type_known [OF conv_value_in_type [OF c]]
    by (auto simp: process_opt_value_def takes_value_def conv_str_to_argval_def mm_arg_opt_set_value_def
        opt_of_def Let_def)
qed

section \<open>Properties\<close>

text \<open>
  C11. The result of \<open>mm_arg_parse\<close>: it always terminates; it returns the index of the first
  argument that is not an option, at least 1 (when there is an argument at all) and at most the
  argument count, or it stops early, and then it returns a negative code exactly when the parser
  has the flag NOEXIT and exits the process with code 0 or 1 when it does not.
\<close>

theorem mm_arg_parse_outcome:
  "outcome_ok parser (length argv) 1 (fst (mm_arg_parse env parser argv st))"
  using parse_loop_ok [of parser argv 1 env False st] early_stop_ok [of MM_ARGPARSE_ERROR parser "length argv" 1]
  by (auto simp: mm_arg_parse_def argparse_codes split: option.splits)

text \<open>
  C12. Type safety of the option variables: whatever the command line, the callback and the
  environment, every variable that \<open>mm_arg_parse\<close> changes belongs to an option of the parser and
  receives a value of that option's type, within the range of the type.
\<close>

theorem mm_arg_parse_typed:
  assumes "mm_arg_parse env parser argv st = (oc, st')" "s_store st' ptr = Some v" "s_store st ptr \<noteq> Some v"
  shows "\<exists>opt \<in> set (p_optv parser). opt_val opt = Some ptr \<and> val_in_type (mm_arg_opt_get_type opt) v"
proof -
  have s0: "store_typed parser (s_store st) st" by (simp add: store_typed_def)
  then have e: "store_typed parser (s_store st) (put_err m st)" for m
    using store_typed_same [OF store_put(2)] by blast
  have "store_typed parser (s_store st) (snd (mm_arg_parse env parser argv st))"
    using parse_loop_typed [OF s0] early_stop_typed [OF e]
    by (simp add: mm_arg_parse_def split: option.split)
  then have "store_typed parser (s_store st) st'" using assms(1) by simp
  then show ?thesis using assms(2,3) by (auto simp: store_typed_def)
qed

definition env0 :: arg_env where
  "env0 = \<lparr>e_strerror = (\<lambda>_. ''error''), e_listdir = (\<lambda>_. None), e_alloc = True, e_win32 = False, e_behind = (\<lambda>_. [])\<rparr>"

lemma sample_takes: "takes_value sample_parser 0 ''42'' (ValInt 42) 0"
proof -
  have "conv_value (p_optv sample_parser ! 0) (Some ''42'') = Inr (ValInt 42)" "\<not> is_completing sample_parser"
    "opt_flags (p_optv sample_parser ! 0) AND MM_OPT_REQMASK \<noteq> MM_OPT_NOVAL" by code_simp+
  then show ?thesis by (simp add: takes_value_def sample_parser_def sample_opts_def)
qed

lemma sample_long_lookup:
  "find_opt sample_parser NUL ''number=42'' (length ''number'') = Some (UserOpt 0)" "find_opt sample_parser CHR ''n'' [] 0 = Some (UserOpt 0)"
  "validate_options sample_parser = None" "is_valid_short_opt_key CHR ''n''" "\<not> is_arg_an_option [] (Some ''42'')"
  by code_simp+

lemma long_option_step:
  assumes "validate_options parser = None" "takes_value parser i val v ptr" "no_nul name" "name \<noteq> []"
    "CHR ''='' \<notin> set name" "find_opt parser NUL (name @ ''='' @ val) (length name) = Some (UserOpt i)"
  shows "mm_arg_parse env parser [prog, ''--'' @ name @ ''='' @ val] st =
    (Return 2, st\<lparr>s_store := (s_store st)(ptr \<mapsto> v)\<rparr>)"
proof -
  have tok: "get_first_token_length (name @ ''='' @ val) CHR ''='' = length name"
    using assms(5) by (induction name) auto
  have nz: "cstr_char name 0 \<noteq> NUL" using assms(3,4) by (simp add: cstr_char_eq_nul_iff)
  have nd: "\<not> is_valid_short_opt_key CHR ''-''" "\<not> is_completing parser"
    using assms(2) by (simp_all add: is_valid_short_opt_key_def char_in_def takes_value_def)
  have long: "process_long_opt env parser (name @ ''='' @ val) False st =
      (0, st\<lparr>s_store := (s_store st)(ptr \<mapsto> v)\<rparr>)"
    using tok assms(6) process_value_sets [OF assms(2), of env st]
    by (simp add: process_long_opt_def cstr_char_def nth_append)
  show ?thesis
    using assms(1,4) nz nd long
    by (simp add: mm_arg_parse_def parse_loop.simps [of _ _ _ "Suc 0"] parse_loop.simps [of _ _ _ "Suc (Suc 0)"]
        numeral_2_eq_2 cstr_char_def neq_Nil_conv nth_append split: if_splits)
qed

lemma short_option_step:
  assumes "validate_options parser = None" "takes_value parser i val v ptr" "is_valid_short_opt_key k"
    "find_opt parser k [] 0 = Some (UserOpt i)" "\<not> is_arg_an_option (e_behind env 2) (Some val)"
  shows "mm_arg_parse env parser [prog, [CHR ''-'', k], val] st =
    (Return 3, st\<lparr>s_store := (s_store st)(ptr \<mapsto> v)\<rparr>)"
proof -
  have "opt_flags (opt_of parser (UserOpt i)) AND MM_OPT_REQMASK \<noteq> MM_OPT_NOVAL" "\<not> is_completing parser"
    using assms(2) by (simp_all add: takes_value_def opt_of_def)
  then have "process_short_opt env parser [k] (Some val) (e_behind env 2) True st = (1, st\<lparr>s_store := (s_store st)(ptr \<mapsto> v)\<rparr>)"
    using assms(4,5) process_value_sets [OF assms(2), of env st] by (simp add: process_short_opt_def)
  then show ?thesis
    using assms(1,3)
    by (simp add: mm_arg_parse_def parse_loop.simps [of _ _ _ "Suc 0"]
        parse_loop.simps [of _ _ _ "Suc (Suc (Suc 0))"] numeral_3_eq_3 numeral_2_eq_2)
qed

theorem mm_arg_parse_typed_witness:
  "\<exists>opt \<in> set (p_optv sample_parser). opt_val opt = Some 0 \<and>
     val_in_type (mm_arg_opt_get_type opt) (ValInt 42)"
proof -
  have "mm_arg_parse env0 sample_parser [''prog'', ''--number=42''] state0 =
      (Return 2, state0\<lparr>s_store := (s_store state0)(0 \<mapsto> ValInt 42)\<rparr>)"
    using long_option_step [of sample_parser 0 "''42''" "ValInt 42" 0 "''number''" env0 "''prog''" state0]
      sample_takes sample_long_lookup by simp
  from mm_arg_parse_typed [OF this, of 0 "ValInt 42"] show ?thesis by (simp add: state0_def)
qed

text \<open>
  C13. The two ways to give a value are equivalent, on a command line with this option alone, for a valid parser without
  callback that is not completing: for an option that takes a value (of any type, and convertible) and stores it in a variable,
  \<open>--name=value\<close> and \<open>-k value\<close> store the same value in that variable, change nothing else, and the parse goes on to the end of
  the command line. The value must not read like an option; whether \<open>-\<close> does depends on the memory behind it
  (\<open>dash_as_option\<close>).
\<close>

theorem long_short_equivalent:
  assumes "validate_options parser = None" "takes_value parser i val v ptr"
    "no_nul name" "name \<noteq> []" "CHR ''='' \<notin> set name"
    "find_opt parser NUL (name @ ''='' @ val) (length name) = Some (UserOpt i)"
    "is_valid_short_opt_key k" "find_opt parser k [] 0 = Some (UserOpt i)" "\<not> is_arg_an_option (e_behind env 2) (Some val)"
  shows "mm_arg_parse env parser [prog, ''--'' @ name @ ''='' @ val] st =
      (Return 2, st\<lparr>s_store := (s_store st)(ptr \<mapsto> v)\<rparr>) \<and>
    mm_arg_parse env parser [prog, [CHR ''-'', k], val] st =
      (Return 3, st\<lparr>s_store := (s_store st)(ptr \<mapsto> v)\<rparr>)"
  using long_option_step [OF assms(1-6)] short_option_step [OF assms(1,2,7-9)] by blast

theorem long_short_equivalent_witness:
  "mm_arg_parse env0 sample_parser [''prog'', ''--number=42''] state0 =
     (Return 2, state0\<lparr>s_store := [0 \<mapsto> ValInt 42]\<rparr>) \<and>
   mm_arg_parse env0 sample_parser [''prog'', ''-n'', ''42''] state0 =
     (Return 3, state0\<lparr>s_store := [0 \<mapsto> ValInt 42]\<rparr>)"
  using long_short_equivalent [of sample_parser 0 "''42''" "ValInt 42" 0 "''number''" "CHR ''n''" env0
      "''prog''" state0] sample_takes sample_long_lookup
  by (simp add: state0_def env0_def)

text \<open>
  Errors leave the variables alone: an option that does not exist, a value for an option that
  takes none, a missing value and a value that does not convert each give the code
  \<open>MM_ARGPARSE_ERROR\<close>, with a message on standard error, and no variable changes.
\<close>

theorem process_long_opt_errors:
  assumes "\<not> is_completing parser" "namelen = get_first_token_length arg CHR ''=''"
    "val = (if cstr_char arg namelen = CHR ''='' then Some (drop (namelen + 1) arg) else None)"
    "case find_opt parser NUL arg namelen of
       None \<Rightarrow> True
     | Some HelpOpt \<Rightarrow> False
     | Some (UserOpt i) \<Rightarrow>
         let opt = p_optv parser ! i; req = opt_flags opt AND MM_OPT_REQMASK
         in (req = MM_OPT_NOVAL \<and> val \<noteq> None) \<or> (req = MM_OPT_NEEDVAL \<and> val = None) \<or>
            (\<exists>e. conv_value opt (if val = None then opt_defval opt else val) = Inl e)"
  shows "\<exists>st'. process_long_opt env parser arg False st = (MM_ARGPARSE_ERROR, st') \<and>
    s_store st' = s_store st \<and> s_out st' = s_out st \<and> length (s_err st) < length (s_err st')"
proof -
  have msg: "length (s_err st) < length (s_err (print_opt_error opt m st))"
    "s_out (print_opt_error opt m st) = s_out st" for opt m and st :: "'a parse_state"
    by (auto simp: print_opt_error_def put_err_def Let_def split: option.split)
  have put: "s_out (put_err m st) = s_out st" "s_err (put_err m st) = s_err st @ m"
    "s_out (set_errno e st) = s_out st" "s_err (set_errno e st) = s_err st" for m e and st :: "'a parse_state"
    by (simp_all add: put_err_def set_errno_def)
  have conv: "\<exists>st'. conv_str_to_argval (e_strerror env) opt w st = (None, st') \<and>
      s_store st' = s_store st \<and> s_out st' = s_out st \<and> length (s_err st) < length (s_err st')"
    if "conv_value opt w = Inl e" for opt w e
    using that msg [where st = "set_errno e st"] by (simp add: conv_str_to_argval_def put)
  show ?thesis
  proof (cases "find_opt parser NUL arg namelen")
    case None
    then show ?thesis using assms(2) by (simp add: process_long_opt_def put)
  next
    case (Some f)
    then obtain i where f: "f = UserOpt i" using assms(4) by (cases f) auto
    let ?opt = "p_optv parser ! i"
    let ?w = "if val = None then opt_defval ?opt else val"
    have fo: "find_opt parser NUL arg (get_first_token_length arg CHR ''='') = Some (UserOpt i)"
      using Some f assms(2) by simp
    have "\<exists>st'. process_opt_value env (UserOpt i) val parser st = (MM_ARGPARSE_ERROR, st') \<and>
      s_store st' = s_store st \<and> s_out st' = s_out st \<and> length (s_err st) < length (s_err st')"
      using assms(4) Some f msg [where st = st] conv [of ?opt ?w]
      by (auto simp: process_opt_value_def opt_of_def Let_def argparse_codes)
    then show ?thesis
      using fo assms(2,3) by (auto simp: process_long_opt_def Let_def argparse_codes)
  qed
qed

theorem process_long_opt_errors_witness:
  "\<exists>st'. process_long_opt env0 sample_parser ''number=abc'' False state0 = (MM_ARGPARSE_ERROR, st') \<and>
     s_store st' = Map.empty"
proof -
  have f: "find_opt sample_parser NUL ''number=abc'' 6 = Some (UserOpt 0)" and n: "\<not> is_completing sample_parser"
    and c: "conv_value (p_optv sample_parser ! 0) (Some ''abc'') = Inl EINVAL"
    and l: "6 = get_first_token_length ''number=abc'' CHR ''=''"
    and v: "Some ''abc'' = (if cstr_char ''number=abc'' 6 = CHR ''='' then Some (drop (6 + 1) ''number=abc'') else None)"
    by code_simp+
  have "\<exists>st'. process_long_opt env0 sample_parser ''number=abc'' False state0 = (MM_ARGPARSE_ERROR, st') \<and>
      s_store st' = s_store state0 \<and> s_out st' = s_out state0 \<and> length (s_err state0) < length (s_err st')"
    by (rule process_long_opt_errors [OF n l v]) (simp add: f c)
  then show ?thesis by (auto simp: state0_def)
qed

end
