(* ===== verification/Lockref_Links.thy ===== *)
theory Lockref_Links
  imports Timespec
begin

text \<open>
  Doubly linked nodes of the lock referee server (\<^verbatim>\<open>src/src/lock-referee-server.c\<close>): the queue of the
  waiters of a lock and the lists of timed waits. Both kinds of nodes are embedded in the thread
  clients, so a node is named by its client (a number) and a heap gives its two pointers.
\<close>

section \<open>Nodes and pointers\<close>

type_synonym nodeid = nat

record queue_node =
  prev :: "nodeid option"
  nxt :: "nodeid option"

type_synonym node_heap = "nodeid \<Rightarrow> queue_node"

abbreviation set_next :: "node_heap \<Rightarrow> nodeid \<Rightarrow> nodeid option \<Rightarrow> node_heap" where
  "set_next h x n \<equiv> h(x := (h x)\<lparr>nxt := n\<rparr>)"

abbreviation set_prev :: "node_heap \<Rightarrow> nodeid \<Rightarrow> nodeid option \<Rightarrow> node_heap" where
  "set_prev h x p \<equiv> h(x := (h x)\<lparr>prev := p\<rparr>)"

text \<open>\<open>links h p xs n\<close>: the nodes \<open>xs\<close> are linked in this order, between \<open>p\<close> and \<open>n\<close>.\<close>

definition hd_or :: "nodeid list \<Rightarrow> nodeid option \<Rightarrow> nodeid option" where
  "hd_or xs n = (case xs of [] \<Rightarrow> n | x # _ \<Rightarrow> Some x)"

definition last_or :: "nodeid list \<Rightarrow> nodeid option \<Rightarrow> nodeid option" where
  "last_or xs p = (if xs = [] then p else Some (last xs))"

lemma hd_or_simps [simp]: "hd_or [] n = n" "hd_or (x # xs) n = Some x"
  "hd_or (xs @ ys) n = hd_or xs (hd_or ys n)"
  by (simp_all add: hd_or_def split: list.split)

lemma last_or_simps [simp]: "last_or [] p = p" "last_or (x # xs) p = last_or xs (Some x)"
  "last_or (xs @ ys) p = last_or ys (last_or xs p)"
  by (simp_all add: last_or_def)

fun links :: "node_heap \<Rightarrow> nodeid option \<Rightarrow> nodeid list \<Rightarrow> nodeid option \<Rightarrow> bool" where
  "links h p [] n = True"
| "links h p (x # xs) n = (prev (h x) = p \<and> nxt (h x) = hd_or xs n \<and> links h (Some x) xs n)"

lemma links_append: "links h p (xs @ ys) n \<longleftrightarrow> links h p xs (hd_or ys n) \<and> links h (last_or xs p) ys n"
  by (induction xs arbitrary: p) auto

lemma links_other: "(\<And>x. x \<in> set xs \<Longrightarrow> h' x = h x) \<Longrightarrow> links h' p xs n = links h p xs n"
  by (induction xs arbitrary: p) auto

lemma links_upd_other [simp]: "x \<notin> set xs \<Longrightarrow> links (h(x := v)) p xs n = links h p xs n"
  by (rule links_other) auto

lemma links_snoc_next:
  "x \<notin> set xs \<Longrightarrow> links h p (xs @ [x]) n \<Longrightarrow> links (set_next h x m) p (xs @ [x]) m"
  by (simp add: links_append)

lemma links_Cons_prev:
  "x \<notin> set xs \<Longrightarrow> links h p (x # xs) n \<Longrightarrow> links (set_prev h x q) q (x # xs) n"
  by simp

lemma links_tail_next:
  assumes "links h p xs n" "xs \<noteq> []" "distinct xs"
  shows "links (set_next h (last xs) m) p xs m"
proof -
  obtain ys x where xs: "xs = ys @ [x]" using assms(2) by (cases xs rule: rev_cases) auto
  then have "x \<notin> set ys" using assms(3) by simp
  then show ?thesis using links_snoc_next assms(1) xs by simp
qed

section \<open>The queue of waiters\<close>

record queue =
  first :: "nodeid option"
  lst :: "nodeid option"

definition append_to_queue :: "queue \<Rightarrow> nodeid \<Rightarrow> node_heap \<Rightarrow> queue \<times> node_heap" where
  "append_to_queue q node h =
     (let last = lst q;
          (q, h) = (case first q of
              None \<Rightarrow> (q\<lparr>first := Some node\<rparr>, h)
            | Some _ \<Rightarrow> (q, set_next h (the last) (Some node)));
          h = set_prev h node last;
          h = set_next h node None
      in (q\<lparr>lst := Some node\<rparr>, h))"

definition drop_from_queue :: "queue \<Rightarrow> nodeid \<Rightarrow> node_heap \<Rightarrow> queue \<times> node_heap" where
  "drop_from_queue q node h =
     (let p = prev (h node); n = nxt (h node);
          (q, h) = (case p of Some x \<Rightarrow> (q, set_next h x n) | None \<Rightarrow> (q\<lparr>first := n\<rparr>, h))
      in (case n of Some x \<Rightarrow> (q, set_prev h x p) | None \<Rightarrow> (q\<lparr>lst := p\<rparr>, h)))"

definition queue_rep :: "node_heap \<Rightarrow> queue \<Rightarrow> nodeid list \<Rightarrow> bool" where
  "queue_rep h q xs \<longleftrightarrow> distinct xs \<and> links h None xs None \<and> first q = hd_or xs None \<and> lst q = last_or xs None"

lemma queue_rep_other: "queue_rep h q xs \<Longrightarrow> (\<And>x. x \<in> set xs \<Longrightarrow> h' x = h x) \<Longrightarrow> queue_rep h' q xs"
  using links_other [of xs h' h] by (simp add: queue_rep_def)

lemma append_to_queue_rep:
  assumes "queue_rep h q xs" "node \<notin> set xs" "append_to_queue q node h = (q', h')"
  shows "queue_rep h' q' (xs @ [node])"
    "y \<notin> set xs \<Longrightarrow> y \<noteq> node \<Longrightarrow> h' y = h y"
proof -
  consider "xs = []" | "xs \<noteq> []" by blast
  then have "queue_rep h' q' (xs @ [node]) \<and> (y \<notin> set xs \<longrightarrow> y \<noteq> node \<longrightarrow> h' y = h y)"
  proof cases
    case 1
    then show ?thesis using assms by (auto simp: queue_rep_def append_to_queue_def)
  next
    case 2
    then have l: "first q = Some (hd xs)" "lst q = Some (last xs)"
      using assms(1) by (auto simp: queue_rep_def last_or_def hd_or_def split: list.splits)
    define h1 where "h1 = set_next h (last xs) (Some node)"
    have k: "links h1 None xs (Some node)"
      unfolding h1_def using assms(1) 2 by (intro links_tail_next) (auto simp: queue_rep_def)
    have r: "q' = q\<lparr>lst := Some node\<rparr>" "h' = h1(node := \<lparr>prev = Some (last xs), nxt = None\<rparr>)"
      using assms(3) l by (auto simp: append_to_queue_def h1_def Let_def intro!: ext queue_node.equality)
    have "hd_or xs m = Some (hd xs)" for m using 2 by (cases xs) auto
    then show ?thesis
      using assms(1,2) 2 k by (auto simp: r queue_rep_def links_append last_or_def h1_def)
  qed
  then show "queue_rep h' q' (xs @ [node])" "y \<notin> set xs \<Longrightarrow> y \<noteq> node \<Longrightarrow> h' y = h y" by auto
qed

text \<open>Taking a node out of its place.\<close>

lemma links_unlink:
  assumes "links h p (xs @ x # ys) n" "distinct (xs @ x # ys)"
  defines "h1 \<equiv> (if xs = [] then h else set_next h (last xs) (hd_or ys n))"
  defines "h2 \<equiv> (if ys = [] then h1 else set_prev h1 (hd ys) (last_or xs p))"
  shows "links h2 p (xs @ ys) n"
proof -
  have 1: "links h1 p xs (hd_or ys n)"
    using assms(1,2) links_tail_next [of h p xs "Some x" "hd_or ys n"]
    by (auto simp: h1_def links_append)
  have "y \<noteq> last xs" if "y \<in> set ys" "xs \<noteq> []" for y using that assms(2) last_in_set [of xs] by (auto simp: disjoint_iff)
  then have "h1 y = h y" if "y \<in> set ys" for y using that by (auto simp: h1_def)
  then have ys: "links h1 (Some x) ys n"
    using assms(1) links_other [of ys h1 h] by (simp add: links_append)
  have 2: "links h2 (last_or xs p) ys n"
    using ys assms(2) by (cases ys) (auto simp: h2_def)
  have "links h2 p xs (hd_or ys n)"
    using 1 assms(2) links_other [of xs h2 h1] by (cases ys) (auto simp: h2_def)
  with 2 show ?thesis by (simp add: links_append)
qed

lemma drop_from_queue_rep:
  assumes "queue_rep h q (xs @ node # ys)" "drop_from_queue q node h = (q', h')"
  shows "queue_rep h' q' (xs @ ys)" "y \<notin> set (xs @ ys) \<Longrightarrow> h' y = h y"
proof -
  have l: "links h None (xs @ node # ys) None" "distinct (xs @ node # ys)"
    and q: "first q = hd_or (xs @ node # ys) None" "lst q = last_or (xs @ node # ys) None"
    using assms(1) by (auto simp: queue_rep_def)
  have n: "prev (h node) = last_or xs None" "nxt (h node) = hd_or ys None"
    using l(1) by (auto simp: links_append)
  have h: "h' = (let h1 = (if xs = [] then h else set_next h (last xs) (hd_or ys None))
      in if ys = [] then h1 else set_prev h1 (hd ys) (last_or xs None))"
    "first q' = hd_or (xs @ ys) None" "lst q' = last_or (xs @ ys) None"
    using assms(2) n q by (cases xs; cases ys; simp add: drop_from_queue_def last_or_def hd_or_def Let_def;
        auto split: if_splits list.splits)+
  show "queue_rep h' q' (xs @ ys)"
    using links_unlink [OF l] l(2) h by (simp add: queue_rep_def Let_def)
  show "y \<notin> set (xs @ ys) \<Longrightarrow> h' y = h y"
    using h(1) by (cases ys) (auto simp: Let_def)
qed

section \<open>The lists of timed waits\<close>

text \<open>A list has a head node of its own; its nodes follow the head.\<close>

definition list_rep :: "node_heap \<Rightarrow> nodeid \<Rightarrow> nodeid list \<Rightarrow> bool" where
  "list_rep h head xs \<longleftrightarrow> distinct (head # xs) \<and> links h None (head # xs) None"

definition detach_list_node :: "node_heap \<Rightarrow> nodeid \<Rightarrow> node_heap" where
  "detach_list_node h node =
     (let h = (case nxt (h node) of
            Some n \<Rightarrow> set_next (set_prev h n (prev (h node))) node None
          | None \<Rightarrow> h)
      in (case prev (h node) of
            Some p \<Rightarrow> set_prev (set_next h p (nxt (h node))) node None
          | None \<Rightarrow> h))"

definition insert_list_node_after :: "node_heap \<Rightarrow> nodeid \<Rightarrow> nodeid \<Rightarrow> node_heap" where
  "insert_list_node_after h node_to_insert after =
     (let h = set_prev h node_to_insert (Some after);
          h = set_next h node_to_insert (nxt (h after));
          h = (case nxt (h after) of Some n \<Rightarrow> set_prev h n (Some node_to_insert) | None \<Rightarrow> h)
      in set_next h after (Some node_to_insert))"

text \<open>
  The search of \<open>timeout_list_add_waiter\<close>: the node after which a wait until \<open>timeout\<close> is inserted.
  It follows the pointers, so it ends only when they do. \<open>wt\<close> gives the timeouts of the clients.
\<close>

partial_function (option) timeout_position ::
  "node_heap \<Rightarrow> (nodeid \<Rightarrow> mm_timespec) \<Rightarrow> mm_timespec \<Rightarrow> nodeid \<Rightarrow> nodeid option" where
  "timeout_position h wt timeout node =
     (case nxt (h node) of
        None \<Rightarrow> Some node
      | Some next \<Rightarrow>
          if mm_timediff_ns timeout (wt next) < 0 then Some node
          else timeout_position h wt timeout next)"

definition timeout_list_add_waiter ::
  "node_heap \<Rightarrow> nodeid \<Rightarrow> (nodeid \<Rightarrow> mm_timespec) \<Rightarrow> nodeid \<Rightarrow> node_heap option" where
  "timeout_list_add_waiter h head wt tc =
     map_option (insert_list_node_after h tc) (timeout_position h wt (wt tc) head)"

lemma insert_after_rep:
  assumes "list_rep h head xs" "head # xs = pre @ a # post" "n \<notin> set (head # xs)"
  shows "links (insert_list_node_after h n a) None (pre @ a # n # post) None"
proof -
  have l: "links h None (pre @ a # post) None" "distinct (pre @ a # post)" "n \<notin> set (pre @ a # post)"
    using assms(1,3) unfolding list_rep_def assms(2) by auto
  have a: "nxt (h a) = hd_or post None" "a \<noteq> n" using l by (auto simp: links_append)
  show ?thesis
    using l a by (cases post) (auto simp: links_append insert_list_node_after_def Let_def)
qed

definition before :: "(nodeid \<Rightarrow> mm_timespec) \<Rightarrow> nodeid \<Rightarrow> nodeid \<Rightarrow> bool" where
  "before wt x y \<longleftrightarrow> ts_ns (wt x) \<le> ts_ns (wt y)"

lemma timeout_position_walk:
  "links h p (node # xs) None \<Longrightarrow>
     timeout_position h wt (wt n) node = Some (last (node # takeWhile (\<lambda>x. before wt x n) xs))"
proof (induction xs arbitrary: node p)
  case Nil
  then show ?case by (subst timeout_position.simps) simp
next
  case (Cons x xs)
  then show ?case
    by (subst timeout_position.simps) (auto simp: timediff_ns_abs before_def)
qed

lemma distinct_insert_mid:
  "distinct (y # t @ d) \<Longrightarrow> n \<notin> set (y # t @ d) \<Longrightarrow> distinct (y # t @ n # d)"
  by auto

lemma timeout_add_rep:
  fixes wt :: "nodeid \<Rightarrow> mm_timespec"
  assumes "list_rep h head xs" "n \<notin> set (head # xs)"
  defines "P \<equiv> \<lambda>x. before wt x n"
  shows "\<exists>h'. timeout_list_add_waiter h head wt n = Some h' \<and>
    list_rep h' head (takeWhile P xs @ n # dropWhile P xs)"
proof -
  let ?t = "takeWhile P xs" and ?d = "dropWhile P xs"
  define a where "a = last (head # ?t)"
  have pos: "timeout_position h wt (wt n) head = Some a"
    unfolding P_def a_def using assms(1) by (intro timeout_position_walk) (simp add: list_rep_def)
  define b where "b = butlast (head # ?t)"
  have bl: "head # ?t = b @ [a]" unfolding b_def a_def by (rule append_butlast_last_id [symmetric]) simp
  have split: "head # xs = b @ a # ?d"
  proof -
    have "head # xs = (head # ?t) @ ?d" by simp
    then show ?thesis unfolding bl by simp
  qed
  have e: "b @ a # n # ?d = head # (?t @ n # ?d)"
  proof -
    have "b @ a # n # ?d = (b @ [a]) @ n # ?d" by simp
    then show ?thesis unfolding bl [symmetric] by simp
  qed
  have "distinct (head # (?t @ n # ?d))"
    using assms(1,2) by (intro distinct_insert_mid) (simp_all add: list_rep_def)
  moreover have "links (insert_list_node_after h n a) None (head # (?t @ n # ?d)) None"
    using insert_after_rep [OF assms(1) split assms(2)] e by simp
  ultimately show ?thesis
    by (auto simp: timeout_list_add_waiter_def pos list_rep_def simp del: links.simps)
qed

lemma insert_sorted:
  assumes "sorted (map (ts_ns \<circ> wt) xs)"
  shows "sorted (map (ts_ns \<circ> wt) (takeWhile (\<lambda>x. before wt x n) xs @ n # dropWhile (\<lambda>x. before wt x n) xs))"
  using assms
proof (induction xs)
  case (Cons x xs)
  show ?case
  proof (cases "before wt x n")
    case True
    then show ?thesis using Cons by (auto simp: before_def dest: set_takeWhileD set_dropWhileD)
  next
    case False
    then show ?thesis using Cons by (auto simp: before_def)
  qed
qed simp

text \<open>What the detaching really does: everything behind the node is lost with it.\<close>

lemma detach_truncates:
  assumes "list_rep h head (xs @ n # ys)"
  shows "list_rep (detach_list_node h n) head xs"
proof -
  have l: "links h None ((head # xs) @ n # ys) None" "distinct ((head # xs) @ n # ys)"
    using assms by (simp_all add: list_rep_def)
  define a where "a = last (head # xs)"
  have p: "prev (h n) = Some a" "nxt (h n) = hd_or ys None"
    using l(1) unfolding links_append by (auto simp: a_def last_or_def)
  have a: "a \<in> set (head # xs)" "a \<noteq> n" "hd_or ys None \<noteq> Some a" "\<forall>x \<in> set (head # xs). hd_or ys None \<noteq> Some x"
  proof -
    show "a \<in> set (head # xs)" unfolding a_def by (rule last_in_set) simp
    then show "a \<noteq> n" "hd_or ys None \<noteq> Some a" "\<forall>x \<in> set (head # xs). hd_or ys None \<noteq> Some x"
      using l(2) by (cases ys; force)+
  qed
  have d: "detach_list_node h n x = (set_next h a None) x" if "x \<in> set (head # xs)" for x
    using that a p l(2) by (cases ys) (auto simp: detach_list_node_def Let_def)
  have "links (set_next h a None) None (head # xs) None"
    unfolding a_def using l unfolding links_append by (intro links_tail_next) auto
  then show ?thesis
    using links_other [of "head # xs" "detach_list_node h n" "set_next h a None"] d l(2)
    by (simp add: list_rep_def del: links.simps)
qed

section \<open>The interface of a queue of waiters\<close>

text \<open>
  What the lock operations rely on: a new node goes to the end, any node can be taken out, and the
  front is the oldest node.
\<close>

locale waiter_queue =
  fixes rep :: "'s \<Rightarrow> 'n list \<Rightarrow> bool"
    and push :: "'n \<Rightarrow> 's \<Rightarrow> 's"
    and drop_node :: "'n \<Rightarrow> 's \<Rightarrow> 's"
    and front :: "'s \<Rightarrow> 'n option"
  assumes rep_distinct: "rep s xs \<Longrightarrow> distinct xs"
    and rep_push: "rep s xs \<Longrightarrow> n \<notin> set xs \<Longrightarrow> rep (push n s) (xs @ [n])"
    and rep_drop: "rep s xs \<Longrightarrow> n \<in> set xs \<Longrightarrow> rep (drop_node n s) (remove1 n xs)"
    and rep_front: "rep s xs \<Longrightarrow> front s = (case xs of [] \<Rightarrow> None | x # _ \<Rightarrow> Some x)"
begin

lemma rep_push_all: "rep s xs \<Longrightarrow> distinct (xs @ ns) \<Longrightarrow> rep (fold push ns s) (xs @ ns)"
proof (induction ns arbitrary: s xs)
  case (Cons n ns)
  then have "rep (push n s) (xs @ [n])" by (intro rep_push) auto
  with Cons.IH [of "push n s" "xs @ [n]"] Cons.prems show ?case by simp
qed simp

text \<open>Taking the front \<open>k\<close> times gives the \<open>k\<close> oldest nodes, in their order.\<close>

fun take_front :: "nat \<Rightarrow> 's \<Rightarrow> 'n list" where
  "take_front 0 s = []"
| "take_front (Suc k) s = (case front s of None \<Rightarrow> [] | Some n \<Rightarrow> n # take_front k (drop_node n s))"

lemma take_front_rep: "rep s xs \<Longrightarrow> take_front k s = take k xs"
proof (induction k arbitrary: s xs)
  case (Suc k)
  show ?case
  proof (cases xs)
    case Nil
    then show ?thesis using rep_front [OF Suc.prems] by simp
  next
    case (Cons x ys)
    then have "rep (drop_node x s) ys" using rep_drop [OF Suc.prems, of x] by simp
    then show ?thesis using Suc.IH rep_front [OF Suc.prems] Cons by simp
  qed
qed simp

lemma fifo: "rep s [] \<Longrightarrow> distinct ns \<Longrightarrow> take_front k (fold push ns s) = take k ns"
  using rep_push_all [of s "[]" ns] take_front_rep by auto

end

interpretation wq: waiter_queue
  "\<lambda>(q, h). queue_rep h q"
  "\<lambda>n (q, h). append_to_queue q n h"
  "\<lambda>n (q, h). drop_from_queue q n h"
  "\<lambda>(q, h). first q"
proof (unfold_locales, goal_cases)
  case (1 s xs)
  then show ?case by (auto simp: queue_rep_def split: prod.splits)
next
  case (2 s xs n)
  then show ?case by (auto intro: append_to_queue_rep split: prod.splits)
next
  case (3 s xs n)
  obtain q h where s: "s = (q, h)" by fastforce
  obtain ys zs where xs: "xs = ys @ n # zs" "n \<notin> set ys" using 3(2) by (meson split_list_first)
  then have "remove1 n xs = ys @ zs" by (simp add: remove1_append)
  then show ?case using 3(1) xs s by (auto intro: drop_from_queue_rep split: prod.splits)
next
  case (4 s xs)
  then show ?case by (auto simp: queue_rep_def hd_or_def split: prod.splits)
qed

section \<open>Properties\<close>

text \<open>
  C19. The linked queue of waiters implements a list: appending a node that is not queued puts it at
  the end, also of the empty queue, dropping any queued node removes it, also the last one, and
  keeps the order of the others, and no node outside of the queue is written.
\<close>

theorem queue_refines_list:
  assumes "queue_rep h q xs"
  shows "(\<forall>n. n \<notin> set xs \<longrightarrow> (case append_to_queue q n h of (q', h') \<Rightarrow>
      queue_rep h' q' (xs @ [n]) \<and> (\<forall>y. y \<notin> set xs \<longrightarrow> y \<noteq> n \<longrightarrow> h' y = h y))) \<and>
    (\<forall>ys node zs. xs = ys @ node # zs \<longrightarrow> (case drop_from_queue q node h of (q', h') \<Rightarrow>
      queue_rep h' q' (ys @ zs) \<and> (\<forall>y. y \<notin> set (ys @ zs) \<longrightarrow> h' y = h y)))"
proof (intro conjI allI impI)
  fix n assume "n \<notin> set xs"
  moreover obtain q1 h1 where "append_to_queue q n h = (q1, h1)" by fastforce
  ultimately show "case append_to_queue q n h of (q', h') \<Rightarrow>
      queue_rep h' q' (xs @ [n]) \<and> (\<forall>y. y \<notin> set xs \<longrightarrow> y \<noteq> n \<longrightarrow> h' y = h y)"
    using append_to_queue_rep [OF assms] by simp
next
  fix ys node zs assume "xs = ys @ node # zs"
  moreover obtain q2 h2 where "drop_from_queue q node h = (q2, h2)" by fastforce
  ultimately show "case drop_from_queue q node h of (q', h') \<Rightarrow>
      queue_rep h' q' (ys @ zs) \<and> (\<forall>y. y \<notin> set (ys @ zs) \<longrightarrow> h' y = h y)"
    using drop_from_queue_rep assms by simp
qed

definition heap3 :: node_heap where
  "heap3 = (\<lambda>_. \<lparr>prev = None, nxt = None\<rparr>)
     (5 := \<lparr>prev = None, nxt = Some 6\<rparr>, 6 := \<lparr>prev = Some 5, nxt = Some 7\<rparr>, 7 := \<lparr>prev = Some 6, nxt = None\<rparr>)"

theorem queue_refines_list_witness:
  "(case drop_from_queue \<lparr>first = Some 5, lst = Some 7\<rparr> 6 heap3 of (q', h') \<Rightarrow> queue_rep h' q' [5, 7])
   \<and> (case append_to_queue \<lparr>first = None, lst = None\<rparr> 9 heap3 of (q', h') \<Rightarrow> queue_rep h' q' [9])"
proof -
  have r: "queue_rep heap3 \<lparr>first = Some 5, lst = Some 7\<rparr> ([5] @ 6 # [7])" "queue_rep heap3 \<lparr>first = None, lst = None\<rparr> []"
    by (simp_all add: queue_rep_def heap3_def)
  from queue_refines_list [OF r(1), THEN conjunct2, rule_format, OF refl] queue_refines_list [OF r(2), THEN conjunct1, rule_format, of 9]
  show ?thesis by (auto split: prod.splits)
qed

text \<open>
  First in, first out: starting from an empty queue, after any sequence of appends the \<open>k\<close>
  nodes that are taken from the front are the \<open>k\<close> oldest ones, in the order of their arrival.
\<close>

theorem queue_fifo:
  assumes "queue_rep h q []" "distinct ns"
  shows "wq.take_front k (fold (\<lambda>n (q, h). append_to_queue q n h) ns (q, h)) = take k ns"
  using wq.fifo [of "(q, h)" ns k] assms by simp

theorem queue_fifo_witness:
  "wq.take_front 2 (fold (\<lambda>n (q, h). append_to_queue q n h) [8, 3, 4]
     (\<lparr>first = None, lst = None\<rparr>, heap3)) = [8, 3]"
  using queue_fifo [of heap3 "\<lparr>first = None, lst = None\<rparr>" "[8, 3, 4]" 2]
  by (simp add: queue_rep_def numeral_eq_Suc)

text \<open>
  The timeout list stays ordered: inserting a timed wait ends, keeps the list well formed and
  sorted by date, and adds exactly the new client, behind the clients with an equal or earlier date.
\<close>

theorem timeout_list_add_sorted:
  assumes "list_rep h head xs" "sorted (map (ts_ns \<circ> wt) xs)" "n \<notin> set (head # xs)"
  shows "\<exists>h' ys zs. timeout_list_add_waiter h head wt n = Some h' \<and> xs = ys @ zs \<and>
    list_rep h' head (ys @ n # zs) \<and> sorted (map (ts_ns \<circ> wt) (ys @ n # zs))"
proof -
  let ?P = "\<lambda>x. before wt x n"
  obtain h' where "timeout_list_add_waiter h head wt n = Some h'"
    "list_rep h' head (takeWhile ?P xs @ n # dropWhile ?P xs)"
    using timeout_add_rep [OF assms(1,3)] by blast
  moreover have "xs = takeWhile ?P xs @ dropWhile ?P xs" by simp
  ultimately show ?thesis using insert_sorted [OF assms(2), of n] by blast
qed

definition dates :: "nodeid \<Rightarrow> mm_timespec" where
  "dates n = \<lparr>tv_sec = int n, tv_nsec = 0\<rparr>"

theorem timeout_list_add_sorted_witness:
  "\<exists>h' ys zs. timeout_list_add_waiter heap3 5 dates 2 = Some h' \<and> [6, 7] = ys @ zs \<and>
     list_rep h' 5 (ys @ 2 # zs)"
proof -
  have "list_rep heap3 5 [6, 7]" "sorted (map (ts_ns \<circ> dates) [6, 7])"
    by (simp_all add: list_rep_def heap3_def dates_def ts_ns_def unit_defs)
  from timeout_list_add_sorted [OF this, of 2] show ?thesis by auto
qed

text \<open>
  Detaching a timed wait loses the rest of the list: the node's next pointer is cleared before
  it is copied to the previous node, so after detaching a node the list ends where the node was,
  and every wait with a later date is no longer found.
\<close>

theorem detach_list_node_truncates:
  assumes "list_rep h head (xs @ n # ys)"
  shows "list_rep (detach_list_node h n) head xs"
  by (rule detach_truncates [OF assms])

theorem detach_list_node_truncates_witness:
  "list_rep heap3 5 ([] @ 6 # [7]) \<and> list_rep (detach_list_node heap3 6) 5 []"
proof -
  have r: "list_rep heap3 5 ([] @ 6 # [7])" by (simp add: list_rep_def heap3_def)
  from detach_list_node_truncates [OF r] r show ?thesis by blast
qed

end
