(* ===== verification/Lockref_Array.thy ===== *)
theory Lockref_Array
  imports Lockref_Links Pshared_Mutex
begin

unbundle bit_operations_syntax

text \<open>
  The sorted array of watched locks of the lock referee server
  (\<^verbatim>\<open>src/src/lock-referee-server.c\<close>): binary search, insertion and garbage collection. Only the used
  part of the array is kept as a list; \<open>num_max\<close> is the allocated length.
\<close>

section \<open>Locks\<close>

text \<open>A cleanup job: whether a client works on it, and the dead threads it lists.\<close>

record dead_thread =
  dt_is_waiter :: int
  dt_tid :: dword

record mutex_cleanup_job =
  in_progress :: bool
  deadlist :: "dead_thread list"

record lock =
  lk_key :: int
  max_wakeup_val :: int
  nwaiter :: int
  waiters_queue :: queue
  job :: "mutex_cleanup_job option"

definition lock_init :: "int \<Rightarrow> lock" where
  "lock_init key = \<lparr>lk_key = key, max_wakeup_val = 0, nwaiter = 0,
     waiters_queue = \<lparr>first = None, lst = None\<rparr>, job = None\<rparr>"

definition lock_is_unused :: "lock \<Rightarrow> bool" where
  "lock_is_unused lock = (if nwaiter lock = 0 \<and> first (waiters_queue lock) = None \<and> job lock = None then True else False)"

section \<open>Search\<close>

definition KEY_NOTFOUND_FLAG :: "32 word" where
  "KEY_NOTFOUND_FLAG = 0x80000000"

text \<open>The loop of \<open>search_key_index\<close>; the result is the 32-bit value that the function returns.\<close>

function search_loop :: "lock list \<Rightarrow> int \<Rightarrow> int \<Rightarrow> int \<Rightarrow> 32 word" where
  "search_loop locks key l h =
     (if l \<le> h
      then
        let m = (l + h) div 2
        in if key = lk_key (locks ! nat m) then word_of_int m
           else if key < lk_key (locks ! nat m) then search_loop locks key l (m - 1)
           else search_loop locks key (m + 1) h
      else word_of_int l OR KEY_NOTFOUND_FLAG)"
  by pat_completeness auto
termination
  by (relation "measure (\<lambda>(locks, key, l, h). nat (h - l + 1))") auto

declare search_loop.simps [simp del]

definition search_key_index :: "lock list \<Rightarrow> int \<Rightarrow> int \<Rightarrow> 32 word" where
  "search_key_index locks len key = search_loop locks key 0 (len - 1)"

section \<open>Insertion and collection\<close>

record lock_array =
  used :: "lock list"
  num_max :: int

definition LOCK_LIST_INITIAL_LEN :: int where
  "LOCK_LIST_INITIAL_LEN = 128"

definition lock_array_init :: lock_array where
  "lock_array_init = \<lparr>used = [], num_max = LOCK_LIST_INITIAL_LEN\<rparr>"

text \<open>
  \<open>lock_array_get_lock\<close>: the index of the lock, the new array, and how many elements the
  \<open>memmove\<close> wrote behind the end of the allocation. \<open>alloc_ok\<close> is the success of \<open>realloc\<close>; when
  it fails, the allocated length has been doubled all the same.
\<close>

definition lock_array_get_lock :: "bool \<Rightarrow> lock_array \<Rightarrow> int \<Rightarrow> bool \<Rightarrow> nat option \<times> lock_array \<times> nat" where
  "lock_array_get_lock alloc_ok arr key create =
     (let index = search_key_index (used arr) (int (length (used arr))) key
      in if index AND KEY_NOTFOUND_FLAG \<noteq> 0
         then if \<not> create then (None, arr, 0)
              else
                let index = unat (index AND NOT KEY_NOTFOUND_FLAG);
                    full = (int (length (used arr)) + 1 > num_max arr);
                    arr = (if full then arr\<lparr>num_max := num_max arr * 2\<rparr> else arr)
                in if full \<and> \<not> alloc_ok then (None, arr, 0)
                   else
                     let num_used = length (used arr) + 1;
                         len = num_used - index;
                         overrun = nat (int (index + 1 + len) - num_max arr)
                     in (Some index,
                         arr\<lparr>used := take index (used arr) @ lock_init key # drop index (used arr)\<rparr>,
                         overrun)
         else (Some (unat index), arr, 0))"

text \<open>The copy loop of \<open>lock_array_drop_unused\<close>, element by element.\<close>

fun drop_unused_loop :: "lock list \<Rightarrow> nat \<Rightarrow> nat \<Rightarrow> nat \<Rightarrow> lock list" where
  "drop_unused_loop locks src dst 0 = take dst locks"
| "drop_unused_loop locks src dst (Suc n) =
     (if lock_is_unused (locks ! src) then drop_unused_loop locks (src + 1) dst n
      else if src = dst then drop_unused_loop locks (src + 1) (dst + 1) n
      else drop_unused_loop (locks[dst := locks ! src]) (src + 1) (dst + 1) n)"

definition lock_array_drop_unused :: "lock_array \<Rightarrow> lock_array" where
  "lock_array_drop_unused arr =
     arr\<lparr>used := drop_unused_loop (used arr) 0 0 (length (used arr))\<rparr>"

section \<open>Facts\<close>

definition sorted_keys :: "lock list \<Rightarrow> bool" where
  "sorted_keys locks \<longleftrightarrow> sorted_wrt (<) (map lk_key locks)"

lemma sorted_keys_nth: "sorted_keys locks \<Longrightarrow> i < j \<Longrightarrow> j < length locks \<Longrightarrow> lk_key (locks ! i) < lk_key (locks ! j)"
  using sorted_wrt_nth_less [of "(<)" "map lk_key locks" i j] by (simp add: sorted_keys_def)

text \<open>The index returned for a key that is not there: the flag and the place to insert.\<close>

lemma flag_clear:
  "unat (w :: 32 word) < 2 ^ 31 \<Longrightarrow> w AND KEY_NOTFOUND_FLAG = 0 \<and>
     (w OR KEY_NOTFOUND_FLAG) AND KEY_NOTFOUND_FLAG \<noteq> 0 \<and> (w OR KEY_NOTFOUND_FLAG) AND NOT KEY_NOTFOUND_FLAG = w"
proof -
  assume w: "unat w < 2 ^ 31"
  have "unat (take_bit 31 w) = unat w" using w by (simp add: unsigned_take_bit_eq take_bit_nat_eq_self)
  then have t: "take_bit 31 w = w" by (simp only: word_unat_eq_iff)
  have nb: "\<not> bit w n" if "31 \<le> n" for n
    using that by (subst t [symmetric]) (simp add: bit_take_bit_iff)
  have f: "bit KEY_NOTFOUND_FLAG n \<longleftrightarrow> n = 31" for n
  proof -
    have e: "KEY_NOTFOUND_FLAG = 2 ^ 31" by (simp add: KEY_NOTFOUND_FLAG_def)
    show ?thesis unfolding e bit_exp_iff by (auto simp: possible_bit_def)
  qed
  have z: "w AND KEY_NOTFOUND_FLAG = 0" by (rule bit_eqI) (use nb f in \<open>auto simp: bit_simps\<close>)
  moreover have "bit ((w OR KEY_NOTFOUND_FLAG) AND KEY_NOTFOUND_FLAG) 31" using f by (simp add: bit_simps)
  then have "(w OR KEY_NOTFOUND_FLAG) AND KEY_NOTFOUND_FLAG \<noteq> 0" by auto
  moreover have "(w OR KEY_NOTFOUND_FLAG) AND NOT KEY_NOTFOUND_FLAG = w"
    by (rule bit_eqI) (use nb f in \<open>auto simp: bit_simps\<close>)
  ultimately show ?thesis by blast
qed

text \<open>The place of a key: everything before is smaller, everything from there on is larger.\<close>

definition key_place :: "lock list \<Rightarrow> int \<Rightarrow> nat \<Rightarrow> bool" where
  "key_place locks key p \<longleftrightarrow> p \<le> length locks \<and>
     (\<forall>i < p. lk_key (locks ! i) < key) \<and> (\<forall>i. p \<le> i \<longrightarrow> i < length locks \<longrightarrow> key < lk_key (locks ! i))"

lemma word_of_int_as_nat: "0 \<le> i \<Longrightarrow> (word_of_int i :: 32 word) = word_of_nat (nat i)"
  by simp

lemma search_loop_correct:
  assumes "sorted_keys locks" "0 \<le> l" "l \<le> h + 1" "h < int (length locks)"
    "\<forall>i. int i < l \<longrightarrow> lk_key (locks ! i) < key"
    "\<forall>i. h < int i \<longrightarrow> i < length locks \<longrightarrow> key < lk_key (locks ! i)"
  shows "(\<exists>m < length locks. lk_key (locks ! m) = key \<and> search_loop locks key l h = word_of_nat m) \<or>
    (\<exists>p. key_place locks key p \<and> search_loop locks key l h = word_of_nat p OR KEY_NOTFOUND_FLAG)"
  using assms
proof (induction locks key l h rule: search_loop.induct)
  case (1 locks key l h)
  show ?case
  proof (cases "l \<le> h")
    case False
    then have e: "l = h + 1" using 1(5) by simp
    have "nat l \<le> length locks" using e 1(6) by simp
    moreover have "lk_key (locks ! i) < key" if "i < nat l" for i using that 1(7) by simp
    moreover have "key < lk_key (locks ! i)" if "nat l \<le> i" "i < length locks" for i
      using that e 1(4) by (intro 1(8) [rule_format]) simp_all
    ultimately have "key_place locks key (nat l)" unfolding key_place_def by blast
    moreover have "search_loop locks key l h = word_of_nat (nat l) OR KEY_NOTFOUND_FLAG"
      using False word_of_int_as_nat [OF 1(4)] by (subst search_loop.simps) simp
    ultimately show ?thesis by blast
  next
    case True
    define m where "m = (l + h) div 2"
    have m: "l \<le> m" "m \<le> h" "nat m < length locks" "int (nat m) = m" using True 1(4,6) by (auto simp: m_def)
    have lt: "lk_key (locks ! i) < lk_key (locks ! nat m)" if "int i < m" for i
      using that m by (intro sorted_keys_nth [OF 1(3)]) auto
    have gt: "lk_key (locks ! nat m) < lk_key (locks ! i)" if "m < int i" "i < length locks" for i
      using that m(1) 1(4) by (intro sorted_keys_nth [OF 1(3)]) linarith+
    have unf: "search_loop locks key l h = (if key = lk_key (locks ! nat m) then word_of_int m
        else if key < lk_key (locks ! nat m) then search_loop locks key l (m - 1)
        else search_loop locks key (m + 1) h)"
      using True by (subst search_loop.simps) (simp add: m_def Let_def)
    consider "key = lk_key (locks ! nat m)" | "key < lk_key (locks ! nat m)" | "lk_key (locks ! nat m) < key"
      by linarith
    then show ?thesis
    proof cases
      case a: 1
      then have "search_loop locks key l h = word_of_nat (nat m)" 
        using unf word_of_int_as_nat [of m] order_trans [OF 1(4) m(1)] by metis
      then show ?thesis using m(3) a by metis
    next
      case a: 2
      have g: "key < lk_key (locks ! i)" if "m - 1 < int i" "i < length locks" for i
      proof (cases "int i = m")
        case True
        then show ?thesis using a by auto
      next
        case False
        then show ?thesis using that a gt [of i] by linarith
      qed
      have "search_loop locks key l h = search_loop locks key l (m - 1)" using unf a by simp
      then show ?thesis using 1(1) [OF True m_def _ a 1(3,4) _ _ 1(7)] a g m 1(6) by simp
    next
      case a: 3
      have g: "lk_key (locks ! i) < key" if "int i < m + 1" for i
      proof (cases "int i = m")
        case True
        then show ?thesis using a by auto
      next
        case False
        then show ?thesis using that a lt [of i] by linarith
      qed
      have "search_loop locks key l h = search_loop locks key (m + 1) h" using unf a by simp
      then show ?thesis using 1(2) [OF True m_def _ _ 1(3) _ _ 1(6) _ 1(8)] a g m 1(4) by simp
    qed
  qed
qed

lemma key_place_inj:
  assumes "sorted_keys locks" "key_place locks key p"
  shows "sorted_keys (take p locks @ lock_init key # drop p locks)"
proof -
  have s: "sorted_wrt (<) (map lk_key (take p locks @ drop p locks))"
    using assms(1) by (simp add: sorted_keys_def)
  have "\<forall>x \<in> set (take p locks). lk_key x < key"
    using assms(2) by (auto simp: key_place_def in_set_conv_nth)
  moreover have "\<forall>x \<in> set (drop p locks). key < lk_key x"
    using assms(2) by (auto simp: key_place_def in_set_conv_nth)
  ultimately show ?thesis
    using s unfolding sorted_keys_def map_append sorted_wrt_append by (auto simp: lock_init_def)
qed

lemma key_place_not_in: "key_place locks key p \<Longrightarrow> key \<notin> lk_key ` set locks"
  by (auto simp: key_place_def in_set_conv_nth) (metis less_irrefl not_le)

text \<open>The two results of the search on a sorted array of less than \<open>2 ^ 31\<close> locks.\<close>

lemma search_cases:
  assumes "sorted_keys locks" "length locks < 2 ^ 31"
  obtains (found) m where "m < length locks" "lk_key (locks ! m) = key"
      "search_key_index locks (int (length locks)) key = word_of_nat m"
      "unat (word_of_nat m :: 32 word) = m" "word_of_nat m AND KEY_NOTFOUND_FLAG = 0"
  | (absent) p where "key_place locks key p"
      "search_key_index locks (int (length locks)) key AND KEY_NOTFOUND_FLAG \<noteq> 0"
      "unat (search_key_index locks (int (length locks)) key AND NOT KEY_NOTFOUND_FLAG) = p"
proof -
  have u: "unat (word_of_nat n :: 32 word) = n" if "n \<le> length locks" for n
    using that assms(2) by (simp add: unat_of_nat)
  consider (f) m where "m < length locks" "lk_key (locks ! m) = key"
      "search_loop locks key 0 (int (length locks) - 1) = word_of_nat m"
    | (a) p where "key_place locks key p"
      "search_loop locks key 0 (int (length locks) - 1) = word_of_nat p OR KEY_NOTFOUND_FLAG"
    using search_loop_correct [OF assms(1), of 0 "int (length locks) - 1" key] by auto
  then show ?thesis
  proof cases
    case f
    then show ?thesis
      using found [of m] u [of m] flag_clear [of "word_of_nat m"] assms(2) by (auto simp: search_key_index_def)
  next
    case a
    then have "p \<le> length locks" by (simp add: key_place_def)
    then show ?thesis
      using absent [of p] a u [of p] flag_clear [of "word_of_nat p"] assms(2) by (auto simp: search_key_index_def)
  qed
qed

lemma drop_unused_loop_filter:
  "src + n = length locks \<Longrightarrow> dst \<le> src \<Longrightarrow>
     drop_unused_loop locks src dst n = take dst locks @ filter (\<lambda>l. \<not> lock_is_unused l) (drop src locks)"
proof (induction n arbitrary: locks src dst)
  case (Suc n)
  have d: "drop src locks = locks ! src # drop (src + 1) locks"
    using Suc.prems by (simp add: Cons_nth_drop_Suc)
  have t: "take (dst + 1) (locks[dst := locks ! src]) = take dst locks @ [locks ! src]"
    using Suc.prems by (simp add: take_Suc_conv_app_nth)
  have t': "src = dst \<Longrightarrow> take (dst + 1) locks = take dst locks @ [locks ! src]"
    using Suc.prems by (simp add: take_Suc_conv_app_nth)
  show ?case
    using Suc.prems Suc.IH [of "src + 1" locks dst] Suc.IH [of "src + 1" locks "dst + 1"]
      Suc.IH [of "src + 1" "locks[dst := locks ! src]" "dst + 1"] d t t'
    by auto
qed simp

text \<open>The array as a map from keys to locks.\<close>

definition lock_of :: "lock list \<Rightarrow> int \<Rightarrow> lock option" where
  "lock_of locks key = find (\<lambda>l. lk_key l = key) locks"

lemma lock_of_insert:
  assumes "key_place locks key p"
  shows "lock_of (take p locks @ lock_init key # drop p locks) = (lock_of locks)(key \<mapsto> lock_init key)"
proof
  fix k
  have none: "lock_of locks key = None"
    using key_place_not_in [OF assms] by (auto simp: lock_of_def find_None_iff)
  have app: "find P (xs @ ys) = (case find P xs of None \<Rightarrow> find P ys | Some x \<Rightarrow> Some x)" for P and xs ys :: "lock list"
    by (induction xs) auto
  have "find (\<lambda>l. lk_key l = k) locks = find (\<lambda>l. lk_key l = k) (take p locks @ drop p locks)" by simp
  then show "lock_of (take p locks @ lock_init key # drop p locks) k = ((lock_of locks)(key \<mapsto> lock_init key)) k"
    using none unfolding lock_of_def app by (cases "k = key") (auto simp: lock_init_def split: option.splits)
qed

section \<open>Properties\<close>

text \<open>
  Binary search: on a sorted array of less than \<open>2 ^ 31\<close> locks, \<open>search_key_index\<close> ends and
  returns the index of the lock with the key when there is one, and otherwise the not-found flag
  with the index where the key has to be inserted to keep the order.
\<close>

theorem search_key_index_correct:
  assumes "sorted_keys locks" "length locks < 2 ^ 31"
  shows "let r = search_key_index locks (int (length locks)) key in if key \<in> lk_key ` set locks
     then r AND KEY_NOTFOUND_FLAG = 0 \<and> unat r < length locks \<and> lk_key (locks ! unat r) = key
     else r AND KEY_NOTFOUND_FLAG \<noteq> 0 \<and> key_place locks key (unat (r AND NOT KEY_NOTFOUND_FLAG))"
  using assms(1,2)
proof (cases rule: search_cases [where key = key])
  case (found m)
  then show ?thesis using nth_mem [of m locks] by (auto simp: Let_def)
next
  case (absent p)
  then show ?thesis using key_place_not_in [of locks key p] by (simp add: Let_def)
qed

definition lock_with :: "int \<Rightarrow> lock" where
  "lock_with k = lock_init k"

theorem search_key_index_correct_witness:
  "search_key_index (map lock_with [3, 7, 9]) 3 7 = 1 \<and>
   7 \<in> lk_key ` set (map lock_with [3, 7, 9]) \<and> lk_key (map lock_with [3, 7, 9] ! 1) = 7"
proof -
  have s: "sorted_keys (map lock_with [3, 7, 9])" "length (map lock_with [3, 7, 9]) < 2 ^ 31"
    by (simp_all add: sorted_keys_def lock_with_def lock_init_def)
  have "search_key_index (map lock_with [3, 7, 9]) (int (length (map lock_with [3, 7, 9]))) 7 = 1"
    by (simp add: search_key_index_def search_loop.simps lock_with_def lock_init_def numeral_eq_Suc)
  then show ?thesis
    using search_key_index_correct [OF s, of 7] by (simp add: lock_with_def lock_init_def)
qed

text \<open>
  Getting a lock, with creation: the array stays sorted, the returned index is that of the lock
  with the key, and the array as a map changes at that key only, where a fresh lock appears exactly
  when there was none.
\<close>

theorem lock_array_get_lock_correct:
  assumes "sorted_keys (used arr)" "length (used arr) < 2 ^ 31"
    "lock_array_get_lock alloc_ok arr key True = (Some i, arr', overrun)"
  shows "sorted_keys (used arr') \<and> i < length (used arr') \<and> lk_key (used arr' ! i) = key \<and>
    lock_of (used arr') = (if key \<in> lk_key ` set (used arr) then lock_of (used arr)
      else (lock_of (used arr))(key \<mapsto> lock_init key))"
  using assms(1,2)
proof (cases rule: search_cases [where key = key])
  case (found m)
  then have "i = m" "arr' = arr" using assms(3) by (auto simp: lock_array_get_lock_def Let_def)
  then show ?thesis using found assms(1) nth_mem [of m "used arr"] by auto
next
  case (absent p)
  then have p: "p \<le> length (used arr)" by (simp add: key_place_def)
  have "i = p" "used arr' = take p (used arr) @ lock_init key # drop p (used arr)"
    using absent(2,3) assms(3) by (auto simp: lock_array_get_lock_def Let_def split: if_splits)
  then show ?thesis
    using absent(1) p key_place_inj [OF assms(1) absent(1)] key_place_not_in [OF absent(1)]
      lock_of_insert [OF absent(1)]
    by (auto simp: nth_append lock_init_def)
qed

definition three_locks :: lock_array where
  "three_locks = \<lparr>used = map lock_with [3, 7, 9], num_max = 4\<rparr>"

lemma three_locks_get: "lock_array_get_lock True three_locks 8 True =
    (Some 2, \<lparr>used = map lock_with [3, 7, 8, 9], num_max = 4\<rparr>, 1)"
  by code_simp

theorem lock_array_get_lock_correct_witness:
  "sorted_keys (used \<lparr>used = map lock_with [3, 7, 8, 9], num_max = 4\<rparr>) \<and>
   lock_array_get_lock True three_locks 8 True = (Some 2, \<lparr>used = map lock_with [3, 7, 8, 9], num_max = 4\<rparr>, 1)"
proof -
  have "sorted_keys (used three_locks)" "length (used three_locks) < 2 ^ 31"
    by (simp_all add: three_locks_def sorted_keys_def lock_with_def lock_init_def)
  from lock_array_get_lock_correct [OF this three_locks_get] three_locks_get show ?thesis by blast
qed

text \<open>
  The \<open>memmove\<close> of the insertion moves one element too many: an insertion that fills the
  allocated array (its last free place is used) writes one element behind its end, and no other
  insertion writes out of bounds.
\<close>

theorem lock_array_insert_overrun:
  assumes "sorted_keys (used arr)" "length (used arr) < 2 ^ 31" "key \<notin> lk_key ` set (used arr)"
    "int (length (used arr)) \<le> num_max arr" "1 \<le> num_max arr"
  shows "snd (snd (lock_array_get_lock True arr key True)) =
    (if int (length (used arr)) + 1 = num_max arr \<or> (int (length (used arr)) = num_max arr \<and> num_max arr = 1)
     then 1 else 0)"
  using assms(1,2)
proof (cases rule: search_cases [where key = key])
  case (found m)
  then show ?thesis using assms(3) nth_mem [of m "used arr"] by auto
next
  case (absent p)
  then have "p \<le> length (used arr)" by (simp add: key_place_def)
  then show ?thesis using absent(2,3) assms(4,5) by (auto simp: lock_array_get_lock_def Let_def)
qed

theorem lock_array_insert_overrun_witness:
  "snd (snd (lock_array_get_lock True three_locks 8 True)) = 1"
  using lock_array_insert_overrun [of three_locks 8]
  by (simp add: three_locks_def sorted_keys_def lock_with_def lock_init_def)

text \<open>
  Garbage collection keeps exactly the locks that are in use, in their order, and so keeps the
  array sorted.
\<close>

theorem lock_array_drop_unused_correct:
  "used (lock_array_drop_unused arr) = filter (\<lambda>l. \<not> lock_is_unused l) (used arr) \<and>
   num_max (lock_array_drop_unused arr) = num_max arr"
  using drop_unused_loop_filter [of 0 "length (used arr)" "used arr" 0]
  by (simp add: lock_array_drop_unused_def)

end
