(* ===== verification/Lockref_Server.thy ===== *)
theory Lockref_Server
  imports Lockref_Array "HOL-Library.Monad_Syntax"
begin

unbundle bit_operations_syntax

text \<open>
  The lock referee server (\<^verbatim>\<open>src/src/lock-referee-server.c\<close>): locks, thread clients, timeouts and
  the request handlers, on the state of the whole server. A lock is named by its index in the
  sorted array, a thread client by its address. The result \<^const>\<open>None\<close> is an invalid memory access:
  a null lock is dereferenced or a client is used after it has been freed. What Windows decides
  (whether an asynchronous read or write can be started, a mapping can be created, a handle can be
  duplicated) is a record of parameters.
\<close>

section \<open>State\<close>

datatype req_msg =
    ReqWake int int int
  | ReqWait int int int mm_timespec
  | ReqInitlock
  | ReqGetrobust int
  | ReqCleanupDone int int
  | ReqUnknown

datatype resp_msg =
    RespWake
  | RespWait int
  | RespInitlock int
  | RespGetrobust int
  | RespCleanup int
  | RespError

record thread_client =
  num_pending_request :: int
  being_destroyed :: bool
  wakeup_val :: int
  waiting_lock_key :: int
  tc_robust_data :: "robust_data option"
  wait_timeout :: mm_timespec

record lockref_server =
  watched_locks :: lock_array
  lock_nodes :: node_heap
  timeout_nodes :: node_heap
  clients :: "nodeid \<rightharpoonup> thread_client"
  sent :: "(nodeid \<times> resp_msg) list"
  num_thread_client :: int
  quit :: bool
  last_value :: "32 word"
  overruns :: nat

record win_env =
  read_ok :: "nodeid \<Rightarrow> bool"
  write_ok :: "nodeid \<Rightarrow> bool"
  map_ok :: bool
  dup_ok :: bool
  realloc_ok :: bool
  page_size :: int
  time_low :: "32 word"

text \<open>A machine on which every call of Windows succeeds.\<close>

definition win_ok :: win_env where
  "win_ok = \<lparr>read_ok = (\<lambda>_. True), write_ok = (\<lambda>_. True), map_ok = True, dup_ok = True, realloc_ok = True,
     page_size = 4096, time_low = 7\<rparr>"

text \<open>The heads of the two timeout lists; the clients have other addresses.\<close>

definition realtime_timeout_list :: nodeid where "realtime_timeout_list = 0"
definition monotonic_timeout_list :: nodeid where "monotonic_timeout_list = 1"

abbreviation lock_at :: "lockref_server \<Rightarrow> nat \<Rightarrow> lock" where
  "lock_at s l \<equiv> used (watched_locks s) ! l"

definition set_lock :: "nat \<Rightarrow> lock \<Rightarrow> lockref_server \<Rightarrow> lockref_server" where
  "set_lock l lk s = s\<lparr>watched_locks := (watched_locks s)\<lparr>used := (used (watched_locks s))[l := lk]\<rparr>\<rparr>"

definition set_client :: "nodeid \<Rightarrow> thread_client \<Rightarrow> lockref_server \<Rightarrow> lockref_server" where
  "set_client i tc s = s\<lparr>clients := (clients s)(i \<mapsto> tc)\<rparr>"

section \<open>Helpers\<close>

text \<open>The key and the new value of the counter.\<close>

definition gen_pshared_key :: "win_env \<Rightarrow> 32 word \<Rightarrow> int \<times> 32 word" where
  "gen_pshared_key env lastval =
     (sint (push_bit 32 (ucast lastval :: 64 word) OR ucast (time_low env)), lastval + 1)"

definition DWORD_MAX :: int where "DWORD_MAX = 0xFFFFFFFF"

definition clamp_i64_to_dword :: "int \<Rightarrow> int" where
  "clamp_i64_to_dword i64val =
     (if i64val > DWORD_MAX then DWORD_MAX else if i64val < 0 then 0 else i64val)"

definition ROUND_UP :: "int \<Rightarrow> int \<Rightarrow> int" where
  "ROUND_UP x y = ((x + y - 1) div y) * y"

text \<open>The header of the robust data takes 32 bytes, each key 8.\<close>

definition get_robust_data_size :: "win_env \<Rightarrow> int \<Rightarrow> int" where
  "get_robust_data_size env num_keys =
     (let num_keys = (if num_keys \<le> 0 then 1 else num_keys)
      in ROUND_UP (32 + num_keys * 8) (page_size env))"

definition lockref_server_get_lock ::
  "win_env \<Rightarrow> lockref_server \<Rightarrow> int \<Rightarrow> bool \<Rightarrow> nat option \<times> lockref_server" where
  "lockref_server_get_lock env s key create =
     (case lock_array_get_lock (realloc_ok env) (watched_locks s) key create of
        (l, arr, n) \<Rightarrow> (l, s\<lparr>watched_locks := arr, overruns := overruns s + n\<rparr>))"

definition lockref_server_get_timeout_list :: "int \<Rightarrow> nodeid option" where
  "lockref_server_get_timeout_list clk_flags =
     (let f = clk_flags AND 6
      in if f = 0 then None
         else if f = 2 then Some monotonic_timeout_list
         else if f = 4 then Some realtime_timeout_list
         else None)"

definition lockref_server_update_thread_count :: "int \<Rightarrow> lockref_server \<Rightarrow> lockref_server" where
  "lockref_server_update_thread_count adjustment s =
     (let n = num_thread_client s + adjustment in s\<lparr>num_thread_client := n, quit := (n = 0)\<rparr>)"

section \<open>Death of a client\<close>

definition lock_create_cleanup_job :: "win_env \<Rightarrow> lock \<Rightarrow> lock option" where
  "lock_create_cleanup_job env lk =
     (if map_ok env then Some (lk\<lparr>job := Some \<lparr>in_progress = False, deadlist = []\<rparr>\<rparr>) else None)"

definition lock_destroy_cleanup_job :: "lock \<Rightarrow> lock" where
  "lock_destroy_cleanup_job lk = (if job lk = None then lk else lk\<lparr>job := None\<rparr>)"

definition lock_report_dead :: "win_env \<Rightarrow> nat \<Rightarrow> int \<Rightarrow> dword \<Rightarrow> lockref_server \<Rightarrow> lockref_server" where
  "lock_report_dead env l waiter tid s =
     (case (if job (lock_at s l) = None then lock_create_cleanup_job env (lock_at s l) else Some (lock_at s l)) of
        None \<Rightarrow> s
      | Some lk \<Rightarrow>
          let j = the (job lk);
              j = j\<lparr>deadlist := deadlist j @ [\<lparr>dt_is_waiter = waiter, dt_tid = tid\<rparr>]\<rparr>
          in set_lock l (lk\<lparr>job := Some j\<rparr>) s)"

definition lock_drop_waiter :: "nat \<Rightarrow> nodeid \<Rightarrow> lockref_server \<Rightarrow> lockref_server" where
  "lock_drop_waiter l i s =
     (let lk = (lock_at s l)\<lparr>nwaiter := nwaiter (lock_at s l) - 1\<rparr>;
          (q, h) = drop_from_queue (waiters_queue lk) i (lock_nodes s)
      in set_lock l (lk\<lparr>waiters_queue := q\<rparr>) (s\<lparr>lock_nodes := h\<rparr>))"

fun report_owned :: "win_env \<Rightarrow> dword \<Rightarrow> int list \<Rightarrow> lockref_server \<Rightarrow> lockref_server option" where
  "report_owned env tid [] s = Some s"
| "report_owned env tid (key # keys) s =
     (case lockref_server_get_lock env s key True of
        (None, s) \<Rightarrow> None
      | (Some l, s) \<Rightarrow> report_owned env tid keys (lock_report_dead env l 0 tid s))"

definition thread_client_cleanup_robust_data :: "win_env \<Rightarrow> thread_client \<Rightarrow> lockref_server \<Rightarrow> lockref_server option" where
  "thread_client_cleanup_robust_data env tc s =
     (case tc_robust_data tc of
        None \<Rightarrow> Some s
      | Some rd \<Rightarrow>
          do { s \<leftarrow> report_owned env (thread_id rd) (take (nat (num_locked rd)) (locked_keys rd)) s;
               if attempt_key rd \<noteq> 0
               then (case lockref_server_get_lock env s (attempt_key rd) True of
                       (None, s) \<Rightarrow> None
                     | (Some l, s) \<Rightarrow>
                         Some (lock_report_dead env l (if is_waiter rd then 1 else 0) (thread_id rd) s))
               else Some s })"

definition thread_client_destroy :: "win_env \<Rightarrow> nodeid \<Rightarrow> lockref_server \<Rightarrow> lockref_server option" where
  "thread_client_destroy env i s =
     do { tc \<leftarrow> clients s i;
          let tc = tc\<lparr>being_destroyed := True\<rparr>;
          let s = set_client i tc s;
          if num_pending_request tc \<noteq> 0 then Some s
          else do {
            s \<leftarrow> (if waiting_lock_key tc \<noteq> 0
                 then (case lockref_server_get_lock env s (waiting_lock_key tc) False of
                         (None, s) \<Rightarrow> None
                       | (Some l, s) \<Rightarrow>
                           let s = lock_drop_waiter l i s
                           in Some (s\<lparr>timeout_nodes := detach_list_node (timeout_nodes s) i\<rparr>))
                 else Some s);
            s \<leftarrow> thread_client_cleanup_robust_data env tc s;
            Some (lockref_server_update_thread_count (- 1) (s\<lparr>clients := (clients s)(i := None)\<rparr>)) } }"

section \<open>Input and output of a client\<close>

definition thread_client_queue_read :: "win_env \<Rightarrow> nodeid \<Rightarrow> lockref_server \<Rightarrow> lockref_server option" where
  "thread_client_queue_read env i s =
     do { tc \<leftarrow> clients s i;
          if being_destroyed tc then Some s
          else if \<not> read_ok env i then thread_client_destroy env i s
          else Some (set_client i (tc\<lparr>num_pending_request := num_pending_request tc + 1\<rparr>) s) }"

definition thread_client_queue_write :: "win_env \<Rightarrow> nodeid \<Rightarrow> resp_msg \<Rightarrow> lockref_server \<Rightarrow> lockref_server option" where
  "thread_client_queue_write env i msg s =
     do { tc \<leftarrow> clients s i;
          if being_destroyed tc then Some s
          else if \<not> write_ok env i then thread_client_destroy env i s
          else Some (set_client i (tc\<lparr>num_pending_request := num_pending_request tc + 1\<rparr>)
                       (s\<lparr>sent := sent s @ [(i, msg)]\<rparr>)) }"

definition thread_client_wakeup :: "win_env \<Rightarrow> nodeid \<Rightarrow> bool \<Rightarrow> lockref_server \<Rightarrow> lockref_server option" where
  "thread_client_wakeup env i timedout s =
     do { tc \<leftarrow> clients s i;
          let s = s\<lparr>timeout_nodes := detach_list_node (timeout_nodes s) i\<rparr>;
          let s = set_client i (tc\<lparr>waiting_lock_key := 0\<rparr>) s;
          thread_client_queue_write env i (RespWait (if timedout then 0 else 1)) s }"

definition thread_client_do_cleanup_job :: "win_env \<Rightarrow> nodeid \<Rightarrow> int \<Rightarrow> lockref_server \<Rightarrow> lockref_server option" where
  "thread_client_do_cleanup_job env i key s =
     (if \<not> dup_ok env then Some s else thread_client_queue_write env i (RespCleanup key) s)"

section \<open>Waiting and waking\<close>

text \<open>Whether the client now waits, and the new state.\<close>

definition lock_add_waiter :: "win_env \<Rightarrow> nat \<Rightarrow> nodeid \<Rightarrow> lockref_server \<Rightarrow> (bool \<times> lockref_server) option" where
  "lock_add_waiter env l i s =
     do { tc \<leftarrow> clients s i;
          let lk = (lock_at s l)\<lparr>nwaiter := nwaiter (lock_at s l) + 1\<rparr>;
          let s = set_lock l lk s;
          if nwaiter lk \<le> 0 \<and> max_wakeup_val lk \<ge> wakeup_val tc
          then do { s \<leftarrow> thread_client_wakeup env i False s; Some (False, s) }
          else
            let (q, h) = append_to_queue (waiters_queue lk) i (lock_nodes s)
            in Some (True, set_lock l (lk\<lparr>waiters_queue := q\<rparr>) (s\<lparr>lock_nodes := h\<rparr>)) }"

text \<open>The loop of \<open>lock_wake_waiters\<close> at \<open>node\<close>, with \<open>num\<close> threads still to wake up.\<close>

partial_function (option) wake_loop ::
  "win_env \<Rightarrow> nat \<Rightarrow> nodeid option \<Rightarrow> int \<Rightarrow> int \<Rightarrow> lockref_server \<Rightarrow> lockref_server option" where
  "wake_loop env l node num val s =
     (case node of
        None \<Rightarrow> Some s
      | Some n \<Rightarrow>
          if num = 0 then Some s
          else do {
            tc \<leftarrow> clients s n;
            if wakeup_val tc > val then wake_loop env l (nxt (lock_nodes s n)) num val s
            else do {
              let (q, h) = drop_from_queue (waiters_queue (lock_at s l)) n (lock_nodes s);
              let s = set_lock l ((lock_at s l)\<lparr>waiters_queue := q\<rparr>) (s\<lparr>lock_nodes := h\<rparr>);
              s \<leftarrow> thread_client_wakeup env n False s;
              _ \<leftarrow> clients s n;
              wake_loop env l (nxt (lock_nodes s n)) (num - 1) val s } })"

definition lock_wake_waiters :: "win_env \<Rightarrow> nat \<Rightarrow> int \<Rightarrow> int \<Rightarrow> lockref_server \<Rightarrow> lockref_server option" where
  "lock_wake_waiters env l num val s =
     (let lk = (lock_at s l)\<lparr>nwaiter := nwaiter (lock_at s l) - num\<rparr>;
          lk = (if max_wakeup_val lk < val then lk\<lparr>max_wakeup_val := val\<rparr> else lk)
      in wake_loop env l (first (waiters_queue lk)) num val (set_lock l lk s))"

definition lock_start_or_remove_cleanup_job :: "win_env \<Rightarrow> nat \<Rightarrow> lockref_server \<Rightarrow> lockref_server option" where
  "lock_start_or_remove_cleanup_job env l s =
     (let lk = lock_at s l
      in case job lk of
           None \<Rightarrow> Some s
         | Some j \<Rightarrow>
             if in_progress j then Some s
             else if deadlist j = [] then Some (set_lock l (lock_destroy_cleanup_job lk) s)
             else (case first (waiters_queue lk) of
                     None \<Rightarrow> Some s
                   | Some i \<Rightarrow>
                       thread_client_do_cleanup_job env i (lk_key lk)
                         (set_lock l (lk\<lparr>job := Some (j\<lparr>in_progress := True\<rparr>)\<rparr>) s)))"

definition lock_report_cleanup_job_done :: "nat \<Rightarrow> lockref_server \<Rightarrow> lockref_server option" where
  "lock_report_cleanup_job_done l s =
     (case job (lock_at s l) of
        None \<Rightarrow> None
      | Some j \<Rightarrow> Some (set_lock l ((lock_at s l)\<lparr>job := Some (j\<lparr>in_progress := False\<rparr>)\<rparr>) s))"

text \<open>\<open>lock_array_update_cleanup_jobs\<close> over the locks of index \<open>l\<close> and up.\<close>

fun update_cleanup_jobs_from :: "win_env \<Rightarrow> nat \<Rightarrow> nat \<Rightarrow> lockref_server \<Rightarrow> lockref_server option" where
  "update_cleanup_jobs_from env l 0 s = Some s"
| "update_cleanup_jobs_from env l (Suc n) s =
     do { s \<leftarrow> lock_start_or_remove_cleanup_job env l s; update_cleanup_jobs_from env (l + 1) n s }"

definition lockref_server_garbage_collection :: "win_env \<Rightarrow> lockref_server \<Rightarrow> lockref_server option" where
  "lockref_server_garbage_collection env s =
     (let s = s\<lparr>watched_locks := lock_array_drop_unused (watched_locks s)\<rparr>
      in update_cleanup_jobs_from env 0 (length (used (watched_locks s))) s)"

section \<open>Timeouts\<close>

definition thread_client_process_timeout :: "win_env \<Rightarrow> nodeid \<Rightarrow> lockref_server \<Rightarrow> lockref_server option" where
  "thread_client_process_timeout env i s =
     do { tc \<leftarrow> clients s i;
          case lockref_server_get_lock env s (waiting_lock_key tc) False of
            (None, s) \<Rightarrow> None
          | (Some l, s) \<Rightarrow> thread_client_wakeup env i True (lock_drop_waiter l i s) }"

text \<open>The loop of \<open>timeout_list_update\<close>: the time to the next timeout and the new state.\<close>

partial_function (option) timeout_update_loop ::
  "win_env \<Rightarrow> mm_timespec \<Rightarrow> nodeid option \<Rightarrow> lockref_server \<Rightarrow> (int \<times> lockref_server) option" where
  "timeout_update_loop env now node s =
     (case node of
        None \<Rightarrow> Some (INT64_MAX, s)
      | Some n \<Rightarrow>
          do { tc \<leftarrow> clients s n;
               let diff_ns = mm_timediff_ns (wait_timeout tc) now;
               if diff_ns \<ge> 0 then Some (diff_ns, s)
               else do {
                 let next = nxt (timeout_nodes s n);
                 s \<leftarrow> thread_client_process_timeout env n s;
                 timeout_update_loop env now next s } })"

definition timeout_list_update ::
  "win_env \<Rightarrow> nodeid \<Rightarrow> mm_timespec \<Rightarrow> lockref_server \<Rightarrow> (int \<times> lockref_server) option" where
  "timeout_list_update env head now s = timeout_update_loop env now (nxt (timeout_nodes s head)) s"

definition lockref_server_update_next_timeout_ns ::
  "win_env \<Rightarrow> mm_timespec \<Rightarrow> mm_timespec \<Rightarrow> lockref_server \<Rightarrow> (int \<times> lockref_server) option" where
  "lockref_server_update_next_timeout_ns env wallclock monotonic s =
     do { (d1, s) \<leftarrow> timeout_list_update env realtime_timeout_list wallclock s;
          let timeout = (if INT64_MAX > d1 then d1 else INT64_MAX);
          (d2, s) \<leftarrow> timeout_list_update env monotonic_timeout_list monotonic s;
          Some (if timeout > d2 then d2 else timeout, s) }"

section \<open>Requests\<close>

definition thread_client_handle_req_wake ::
  "win_env \<Rightarrow> nodeid \<Rightarrow> int \<Rightarrow> int \<Rightarrow> int \<Rightarrow> lockref_server \<Rightarrow> lockref_server option" where
  "thread_client_handle_req_wake env i num_wakeup key val s =
     (case lockref_server_get_lock env s key True of
        (None, s) \<Rightarrow> None
      | (Some l, s) \<Rightarrow>
          do { s \<leftarrow> lock_wake_waiters env l num_wakeup val s;
               thread_client_queue_write env i RespWake s })"

definition thread_client_handle_req_wait ::
  "win_env \<Rightarrow> nodeid \<Rightarrow> int \<Rightarrow> int \<Rightarrow> int \<Rightarrow> mm_timespec \<Rightarrow> lockref_server \<Rightarrow> lockref_server option" where
  "thread_client_handle_req_wait env i key val clk_flags timeout s =
     do { tc \<leftarrow> clients s i;
          let s = set_client i (tc\<lparr>wakeup_val := val\<rparr>) s;
          case lockref_server_get_lock env s key True of
            (None, s) \<Rightarrow> None
          | (Some l, s) \<Rightarrow>
              do { (waiting, s) \<leftarrow> lock_add_waiter env l i s;
                   if \<not> waiting then Some s
                   else (case lockref_server_get_timeout_list clk_flags of
                           None \<Rightarrow> Some s
                         | Some head \<Rightarrow>
                             do { tc \<leftarrow> clients s i;
                                  let s = set_client i (tc\<lparr>wait_timeout := timeout\<rparr>) s;
                                  let wt = (\<lambda>n. case clients s n of Some c \<Rightarrow> wait_timeout c | None \<Rightarrow> timeout);
                                  h \<leftarrow> timeout_list_add_waiter (timeout_nodes s) head wt i;
                                  Some (s\<lparr>timeout_nodes := h\<rparr>) }) } }"

definition thread_client_handle_req_initlock :: "win_env \<Rightarrow> nodeid \<Rightarrow> lockref_server \<Rightarrow> lockref_server option" where
  "thread_client_handle_req_initlock env i s =
     (let (key, v) = gen_pshared_key env (last_value s)
      in thread_client_queue_write env i (RespInitlock key) (s\<lparr>last_value := v\<rparr>))"

text \<open>
  The robust data of a client is a fresh mapping, zero filled, with room for as many keys as fit
  the rounded size. It is kept even when the handle cannot be passed to the client.
\<close>

definition thread_client_add_robust_data ::
  "win_env \<Rightarrow> nodeid \<Rightarrow> int \<Rightarrow> lockref_server \<Rightarrow> (bool \<times> lockref_server) option" where
  "thread_client_add_robust_data env i num_keys s =
     (if \<not> map_ok env then Some (False, s)
      else
        let keylocked_max = (get_robust_data_size env num_keys - 32) div 8;
            rd = \<lparr>thread_id = 0, attempt_key = 0, is_waiter = False, num_locked = 0,
                  locked_keys = replicate (nat keylocked_max) 0\<rparr>
        in do { tc \<leftarrow> clients s i;
                Some (dup_ok env, set_client i (tc\<lparr>tc_robust_data := Some rd\<rparr>) s) })"

definition thread_client_handle_req_getrobust ::
  "win_env \<Rightarrow> nodeid \<Rightarrow> int \<Rightarrow> lockref_server \<Rightarrow> lockref_server option" where
  "thread_client_handle_req_getrobust env i num_keys s =
     do { (ok, s) \<leftarrow> thread_client_add_robust_data env i num_keys s;
          thread_client_queue_write env i (if ok then RespGetrobust (int i) else RespError) s }"

definition thread_client_handle_req_cleanup_done ::
  "win_env \<Rightarrow> int \<Rightarrow> int \<Rightarrow> lockref_server \<Rightarrow> lockref_server option" where
  "thread_client_handle_req_cleanup_done env key num_wakeup s =
     (case lockref_server_get_lock env s key False of
        (None, s) \<Rightarrow> None
      | (Some l, s) \<Rightarrow>
          do { s \<leftarrow> lock_report_cleanup_job_done l s; lock_wake_waiters env l num_wakeup 1 s })"

fun handle_request :: "win_env \<Rightarrow> nodeid \<Rightarrow> req_msg \<Rightarrow> lockref_server \<Rightarrow> lockref_server option" where
  "handle_request env i (ReqWake num key val) s = thread_client_handle_req_wake env i num key val s"
| "handle_request env i (ReqWait key val clk t) s = thread_client_handle_req_wait env i key val clk t s"
| "handle_request env i ReqInitlock s = thread_client_handle_req_initlock env i s"
| "handle_request env i (ReqGetrobust num) s = thread_client_handle_req_getrobust env i num s"
| "handle_request env i (ReqCleanupDone key num) s = thread_client_handle_req_cleanup_done env key num s"
| "handle_request env i ReqUnknown s = thread_client_queue_write env i RespError s"

text \<open>\<open>read_completed\<close>: \<open>msg\<close> is \<^const>\<open>None\<close> for an error or a short read.\<close>

definition read_completed :: "win_env \<Rightarrow> nodeid \<Rightarrow> req_msg option \<Rightarrow> lockref_server \<Rightarrow> lockref_server option" where
  "read_completed env i msg s =
     do { tc \<leftarrow> clients s i;
          let s = set_client i (tc\<lparr>num_pending_request := num_pending_request tc - 1\<rparr>) s;
          if msg = None \<or> being_destroyed tc then thread_client_destroy env i s
          else do { s \<leftarrow> handle_request env i (the msg) s; thread_client_queue_read env i s } }"

definition write_completed :: "win_env \<Rightarrow> nodeid \<Rightarrow> bool \<Rightarrow> lockref_server \<Rightarrow> lockref_server option" where
  "write_completed env i ok s =
     do { tc \<leftarrow> clients s i;
          let s = set_client i (tc\<lparr>num_pending_request := num_pending_request tc - 1\<rparr>) s;
          if \<not> ok \<or> being_destroyed tc then thread_client_destroy env i s else Some s }"

section \<open>Connections\<close>

text \<open>The new client has the fresh address \<open>i\<close>; its structure is zero but for the pipe.\<close>

definition thread_client_create :: "nodeid \<Rightarrow> lockref_server \<Rightarrow> lockref_server" where
  "thread_client_create i s =
     (let tc = \<lparr>num_pending_request = 0, being_destroyed = False, wakeup_val = 0, waiting_lock_key = 0,
                tc_robust_data = None, wait_timeout = \<lparr>tv_sec = 0, tv_nsec = 0\<rparr>\<rparr>;
          node = \<lparr>prev = None, nxt = None\<rparr>
      in lockref_server_update_thread_count 1
           (set_client i tc (s\<lparr>lock_nodes := (lock_nodes s)(i := node),
                               timeout_nodes := (timeout_nodes s)(i := node)\<rparr>)))"

definition lockref_server_handle_new_connection ::
  "win_env \<Rightarrow> nodeid \<Rightarrow> lockref_server \<Rightarrow> lockref_server option" where
  "lockref_server_handle_new_connection env i s = thread_client_queue_read env i (thread_client_create i s)"

text \<open>The static server structure after \<open>lockref_server_init\<close>.\<close>

definition server_init :: lockref_server where
  "server_init = \<lparr>watched_locks = lock_array_init, lock_nodes = (\<lambda>_. \<lparr>prev = None, nxt = None\<rparr>),
     timeout_nodes = (\<lambda>_. \<lparr>prev = None, nxt = None\<rparr>), clients = Map.empty, sent = [],
     num_thread_client = 0, quit = False, last_value = 0, overruns = 0\<rparr>"

text \<open>
  What can happen to the server: a connection, the completion of a read or of a write of a client,
  the update of the timeouts at the start of a turn of the main loop, and the garbage collection at
  its end. A client also writes, at any moment, the memory it shares with the server: its robust
  data, and the list of dead threads of the job it is given.
\<close>

datatype srv_event =
    Connected nodeid
  | ReadDone nodeid "req_msg option"
  | WriteDone nodeid bool
  | UpdateTimeouts mm_timespec mm_timespec
  | Collect
  | RobustWritten nodeid robust_data
  | JobWritten nat "dead_thread list"

fun srv_handle :: "win_env \<Rightarrow> srv_event \<Rightarrow> lockref_server \<Rightarrow> lockref_server option" where
  "srv_handle env (Connected i) s =
     (if i > 1 \<and> clients s i = None then lockref_server_handle_new_connection env i s else Some s)"
| "srv_handle env (ReadDone i msg) s = (if clients s i = None then Some s else read_completed env i msg s)"
| "srv_handle env (WriteDone i ok) s = (if clients s i = None then Some s else write_completed env i ok s)"
| "srv_handle env (UpdateTimeouts wall mclk) s =
     map_option snd (lockref_server_update_next_timeout_ns env wall mclk s)"
| "srv_handle env Collect s = lockref_server_garbage_collection env s"
| "srv_handle env (RobustWritten i rd) s =
     (case clients s i of
        Some tc \<Rightarrow> Some (if tc_robust_data tc = None then s else set_client i (tc\<lparr>tc_robust_data := Some rd\<rparr>) s)
      | None \<Rightarrow> Some s)"
| "srv_handle env (JobWritten l dead) s =
     (if l < length (used (watched_locks s))
      then (case job (lock_at s l) of
              Some j \<Rightarrow> Some (set_lock l ((lock_at s l)\<lparr>job := Some (j\<lparr>deadlist := dead\<rparr>)\<rparr>) s)
            | None \<Rightarrow> Some s)
      else Some s)"

inductive srv_reachable :: "lockref_server \<Rightarrow> bool" where
  srv_start: "srv_reachable server_init"
| srv_next: "srv_reachable s \<Longrightarrow> srv_handle env ev s = Some s' \<Longrightarrow> srv_reachable s'"

end
