(* ===== verification/Pshared_Client.thy ===== *)
theory Pshared_Client
  imports Lockref_Server
begin

unbundle bit_operations_syntax

text \<open>
  The client side of the lock referee (\<^verbatim>\<open>src/src/pshared-lock.c\<close>): the connection of a thread to the
  server, its wait and wake requests, and the cleanup of a mutex whose users have died. The pipe,
  the mappings shared with the server and the value of the lock are parameters on a world \<open>'w\<close>; a
  transaction that fails aborts the program, and the result is \<^const>\<open>None\<close>.
\<close>

section \<open>Operations\<close>

record 'w client_env =
  TransactNamedPipe :: "req_msg \<Rightarrow> 'w \<Rightarrow> (resp_msg \<times> 'w) option"
  WaitNamedPipe :: "'w \<Rightarrow> bool \<times> 'w"
  try_spawn_lockserver :: "'w \<Rightarrow> 'w"
  open_pipe :: "'w \<Rightarrow> bool \<times> 'w"
  map_robust :: "int \<Rightarrow> 'w \<Rightarrow> robust_data option"
  map_job :: "int \<Rightarrow> 'w \<Rightarrow> dead_thread list"
  end_job :: "int \<Rightarrow> 'w \<Rightarrow> 'w"
  lock_val :: "'w \<Rightarrow> lockval"
  store_lock :: "lockval \<Rightarrow> 'w \<Rightarrow> 'w"
  get_tid :: dword

record lockref_connection =
  conn_robust_data :: "robust_data option"
  is_init :: bool

record lock_timeout =
  clk_flags :: int
  ts :: mm_timespec

text \<open>The union of a response, when the code of the response says what it holds.\<close>

fun resp_value :: "resp_msg \<Rightarrow> int option" where
  "resp_value (RespInitlock key) = Some key"
| "resp_value (RespGetrobust hmap) = Some hmap"
| "resp_value (RespCleanup hmap) = Some hmap"
| "resp_value (RespWait timedout) = Some timedout"
| "resp_value RespWake = None"
| "resp_value RespError = None"

partial_function (option) connect_to_lockref_server :: "'w client_env \<Rightarrow> 'w \<Rightarrow> 'w option" where
  "connect_to_lockref_server env w =
     (let (ready, w) = WaitNamedPipe env w
      in if \<not> ready then connect_to_lockref_server env (try_spawn_lockserver env w)
         else let (opened, w) = open_pipe env w
              in if opened then Some w else connect_to_lockref_server env w)"

definition get_lockval_change :: "lockval \<Rightarrow> int \<Rightarrow> dword \<Rightarrow> lockval" where
  "get_lockval_change lockval waiter tid =
     (if is_thread_mtx_owner lockval tid then MTX_NEED_RECOVER_MASK - mtx_lockval tid 0 0
      else if is_thread_mtx_waiterlist_owner lockval tid then - mtx_lockval 0 tid 1
      else if waiter \<noteq> 0 then - mtx_lockval 0 0 1
      else 0)"

text \<open>The loop over the dead threads, with the change summed up so far.\<close>

fun sum_changes :: "lockval \<Rightarrow> dead_thread list \<Rightarrow> lockval \<Rightarrow> lockval" where
  "sum_changes lockval [] cleanup_val = cleanup_val"
| "sum_changes lockval (d # ds) cleanup_val =
     sum_changes lockval ds (cleanup_val + get_lockval_change lockval (dt_is_waiter d) (dt_tid d))"

text \<open>
  \<open>cleanup_mutex_lock\<close>: the value \<open>loaded\<close> is inspected, the change is added to the value \<open>lock\<close> that the
  mutex has at that moment. The result is the new value and the number of wakeups of the reply.
\<close>

definition cleanup_mutex_lock :: "lockval \<Rightarrow> lockval \<Rightarrow> dead_thread list \<Rightarrow> lockval \<times> int" where
  "cleanup_mutex_lock loaded lock dead =
     (let cleanup_val = sum_changes loaded dead 0;
          (old, new) = atomic_fetch_add lock cleanup_val;
          lockval = old + cleanup_val
      in (new, if is_mtx_waited lockval \<and> \<not> is_mtx_locked lockval then 1 else 0))"

definition create_robust_data :: "'w client_env \<Rightarrow> 'w \<Rightarrow> (robust_data \<times> 'w) option" where
  "create_robust_data env w =
     do { (response, w) \<leftarrow> TransactNamedPipe env (ReqGetrobust 0) w;
          hmap \<leftarrow> resp_value response;
          rd \<leftarrow> map_robust env hmap w;
          Some (rd\<lparr>thread_id := get_tid env\<rparr>, w) }"

definition init_lock_referee_connection ::
  "'w client_env \<Rightarrow> lockref_connection \<Rightarrow> 'w \<Rightarrow> (lockref_connection \<times> 'w) option" where
  "init_lock_referee_connection env conn w =
     (if is_init conn then Some (conn, w)
      else do { w \<leftarrow> connect_to_lockref_server env w;
                (rd, w) \<leftarrow> create_robust_data env w;
                Some (conn\<lparr>conn_robust_data := Some rd, is_init := True\<rparr>, w) })"

definition deinit_lock_referee_connection :: "lockref_connection \<Rightarrow> lockref_connection" where
  "deinit_lock_referee_connection conn =
     (if \<not> is_init conn then conn else conn\<lparr>conn_robust_data := None, is_init := False\<rparr>)"

definition pshared_get_robust_data ::
  "'w client_env \<Rightarrow> lockref_connection \<Rightarrow> 'w \<Rightarrow> (robust_data option \<times> lockref_connection \<times> 'w) option" where
  "pshared_get_robust_data env conn w =
     do { (conn, w) \<leftarrow> (if \<not> is_init conn then init_lock_referee_connection env conn w else Some (conn, w));
          Some (conn_robust_data conn, conn, w) }"

definition pshared_init_lock ::
  "'w client_env \<Rightarrow> lockref_connection \<Rightarrow> 'w \<Rightarrow> (int \<times> lockref_connection \<times> 'w) option" where
  "pshared_init_lock env conn w =
     do { (conn, w) \<leftarrow> (if \<not> is_init conn then init_lock_referee_connection env conn w else Some (conn, w));
          (response, w) \<leftarrow> TransactNamedPipe env ReqInitlock w;
          key \<leftarrow> resp_value response;
          Some (key, conn, w) }"

text \<open>The loop of \<open>pshared_wait_on_lock\<close>: a response that asks for a cleanup is answered by its result.\<close>

partial_function (option) wait_on_lock_loop ::
  "'w client_env \<Rightarrow> int \<Rightarrow> req_msg \<Rightarrow> 'w \<Rightarrow> (retcode \<times> 'w) option" where
  "wait_on_lock_loop env key request w =
     do { (response, w) \<leftarrow> TransactNamedPipe env request w;
          (case response of
             RespCleanup hmap \<Rightarrow>
               let (lock, num_wakeup) = cleanup_mutex_lock (lock_val env w) (lock_val env w) (map_job env hmap w)
               in wait_on_lock_loop env key (ReqCleanupDone key num_wakeup) (end_job env hmap (store_lock env lock w))
           | _ \<Rightarrow> do { timedout \<leftarrow> resp_value response;
                      Some (if timedout \<noteq> 0 then Some ETIMEDOUT else None, w) }) }"

text \<open>The wait request; without a timeout the server does not read the date.\<close>

definition wait_request :: "int \<Rightarrow> int \<Rightarrow> lock_timeout option \<Rightarrow> req_msg" where
  "wait_request key val timeout =
     (case timeout of
        Some t \<Rightarrow> ReqWait key val (clk_flags t) (ts t)
      | None \<Rightarrow> ReqWait key val 0 \<lparr>tv_sec = 0, tv_nsec = 0\<rparr>)"

definition pshared_wait_on_lock ::
  "'w client_env \<Rightarrow> int \<Rightarrow> int \<Rightarrow> lock_timeout option \<Rightarrow> 'w \<Rightarrow> (retcode \<times> 'w) option" where
  "pshared_wait_on_lock env key val timeout w = wait_on_lock_loop env key (wait_request key val timeout) w"

definition pshared_wake_lock :: "'w client_env \<Rightarrow> int \<Rightarrow> int \<Rightarrow> int \<Rightarrow> 'w \<Rightarrow> 'w option" where
  "pshared_wake_lock env key val num_wakeup w =
     do { (response, w) \<leftarrow> TransactNamedPipe env (ReqWake num_wakeup key val) w; Some w }"

section \<open>What a cleanup changes\<close>

text \<open>The role of a dead thread, read from the lock value.\<close>

definition dead_owner :: "lockval \<Rightarrow> dead_thread \<Rightarrow> bool" where
  "dead_owner lv d \<longleftrightarrow> unat (dt_tid d) = owner_of lv"

definition dead_registering :: "lockval \<Rightarrow> dead_thread \<Rightarrow> bool" where
  "dead_registering lv d \<longleftrightarrow> \<not> dead_owner lv d \<and> unat (dt_tid d) mod 2 ^ 23 = waiter_tid_of lv"

definition dead_waiter :: "lockval \<Rightarrow> dead_thread \<Rightarrow> bool" where
  "dead_waiter lv d \<longleftrightarrow> \<not> dead_owner lv d \<and> (dead_registering lv d \<or> dt_is_waiter d \<noteq> 0)"

lemma mk_lockval_eq_iff:
  assumes "a < 2 ^ 32" "b < 2 ^ 8" "c < 2" "d < 2 ^ 23" "a' < 2 ^ 32" "b' < 2 ^ 8" "c' < 2" "d' < 2 ^ 23"
  shows "mk_lockval a b c d = mk_lockval a' b' c' d' \<longleftrightarrow> a = a' \<and> b = b' \<and> c = c' \<and> d = d'"
  using fields_mk_lockval [OF assms(1-4)] fields_mk_lockval [OF assms(5-8)] by metis

lemma owner_iff: "is_thread_mtx_owner lv tid \<longleftrightarrow> unat tid = owner_of lv"
proof -
  have "unat tid < 2 ^ 32" using unsigned_less [of tid] by simp
  then show ?thesis
    unfolding is_thread_mtx_owner_def and_masks_mk mtx_lockval_eq [of 0 tid 0, simplified]
    using owner_of_less [of lv] by (simp add: mk_lockval_eq_iff)
qed

lemma registering_iff: "is_thread_mtx_waiterlist_owner lv tid \<longleftrightarrow> unat tid mod 2 ^ 23 = waiter_tid_of lv"
  unfolding is_thread_mtx_waiterlist_owner_def and_masks_mk mtx_lockval_eq [of 0 0 tid, simplified]
  using waiter_tid_of_less [of lv] by (simp add: mk_lockval_eq_iff)

lemma need_recover_mk: "MTX_NEED_RECOVER_MASK = mk_lockval 0 0 1 0"
  by (simp add: MTX_NEED_RECOVER_MASK_def mk_lockval_def)

lemma change_cases:
  "dead_owner lv d \<Longrightarrow> get_lockval_change lv (dt_is_waiter d) (dt_tid d) = mk_lockval 0 0 1 0 - mk_lockval (owner_of lv) 0 0 0"
  "dead_registering lv d \<Longrightarrow> get_lockval_change lv (dt_is_waiter d) (dt_tid d) = - mk_lockval 0 1 0 (waiter_tid_of lv)"
  "dead_waiter lv d \<Longrightarrow> \<not> dead_registering lv d \<Longrightarrow>
     get_lockval_change lv (dt_is_waiter d) (dt_tid d) = - mk_lockval 0 1 0 0"
  "\<not> dead_owner lv d \<Longrightarrow> \<not> dead_waiter lv d \<Longrightarrow> get_lockval_change lv (dt_is_waiter d) (dt_tid d) = 0"
  by (auto simp: get_lockval_change_def dead_owner_def dead_registering_def dead_waiter_def owner_iff
      registering_iff need_recover_mk mtx_lockval_eq)

lemma sum_changes_acc: "sum_changes lv ds c = c + sum_changes lv ds 0"
proof (induction ds arbitrary: c)
  case (Cons d ds)
  show ?case
    using Cons [of "c + get_lockval_change lv (dt_is_waiter d) (dt_tid d)"]
      Cons [of "get_lockval_change lv (dt_is_waiter d) (dt_tid d)"] by (simp add: add.assoc)
qed simp

text \<open>The change for all the dead threads: no two of them have the same role of owner or of registering thread.\<close>

lemma sum_changes_roles:
  assumes "distinct (map (\<lambda>d. unat (dt_tid d) mod 2 ^ 23) ds)"
  shows "sum_changes lv ds 0 =
    (if \<exists>d \<in> set ds. dead_owner lv d then mk_lockval 0 0 1 0 - mk_lockval (owner_of lv) 0 0 0 else 0)
    - mk_lockval 0 (length (filter (dead_waiter lv) ds)) 0 0
    - (if \<exists>d \<in> set ds. dead_registering lv d then mk_lockval 0 0 0 (waiter_tid_of lv) else 0)"
  using assms
proof (induction ds)
  case Nil
  show ?case by (simp add: mk_lockval_def)
next
  case (Cons d ds)
  let ?D = "length (filter (dead_waiter lv) ds)"
  have s: "mk_lockval 0 (Suc ?D) 0 0 = mk_lockval 0 (Suc 0) 0 0 + mk_lockval 0 ?D 0 0"
    and t: "mk_lockval 0 (Suc 0) 0 (waiter_tid_of lv) = mk_lockval 0 (Suc 0) 0 0 + mk_lockval 0 0 0 (waiter_tid_of lv)"
    by (simp_all add: mk_lockval_add)
  have uo: "dead_owner lv d \<Longrightarrow> \<forall>e \<in> set ds. \<not> dead_owner lv e"
    and ur: "dead_registering lv d \<Longrightarrow> \<forall>e \<in> set ds. \<not> dead_registering lv e"
    using Cons.prems by (auto simp: dead_owner_def dead_registering_def image_iff)
  have e: "sum_changes lv (d # ds) 0 = get_lockval_change lv (dt_is_waiter d) (dt_tid d) + sum_changes lv ds 0"
    using sum_changes_acc [of lv ds "get_lockval_change lv (dt_is_waiter d) (dt_tid d)"] by simp
  have IH: "sum_changes lv ds 0 =
    (if \<exists>d \<in> set ds. dead_owner lv d then mk_lockval 0 0 1 0 - mk_lockval (owner_of lv) 0 0 0 else 0)
    - mk_lockval 0 ?D 0 0 - (if \<exists>d \<in> set ds. dead_registering lv d then mk_lockval 0 0 0 (waiter_tid_of lv) else 0)"
    using Cons.IH Cons.prems by simp
  consider "dead_owner lv d" | "dead_registering lv d" | "dead_waiter lv d" "\<not> dead_registering lv d"
    | "\<not> dead_owner lv d" "\<not> dead_waiter lv d" by (auto simp: dead_waiter_def)
  then show ?case
  proof cases
    case 1
    then have "\<not> dead_waiter lv d" "\<not> dead_registering lv d" by (auto simp: dead_waiter_def dead_registering_def)
    then show ?thesis using 1 uo IH unfolding e by (simp add: change_cases)
  next
    case 2
    then have n: "dead_waiter lv d" "\<not> dead_owner lv d" by (auto simp: dead_waiter_def dead_registering_def)
    then show ?thesis using 2 ur IH unfolding e by (simp add: change_cases s t algebra_simps)
  next
    case 3
    then have n: "\<not> dead_owner lv d" by (auto simp: dead_waiter_def)
    show ?thesis using 3 n IH unfolding e by (simp add: change_cases s algebra_simps)
  next
    case 4
    then have "\<not> dead_registering lv d" by (auto simp: dead_waiter_def)
    then show ?thesis using 4 IH unfolding e by (simp add: change_cases)
  qed
qed

lemma cleanup_fields:
  assumes "distinct (map (\<lambda>d. unat (dt_tid d) mod 2 ^ 23) ds)" "length (filter (dead_waiter lv) ds) \<le> nwaiter_of lock"
    "own \<longleftrightarrow> (\<exists>d \<in> set ds. dead_owner lv d)" "reg \<longleftrightarrow> (\<exists>d \<in> set ds. dead_registering lv d)"
    "own \<longrightarrow> owner_of lock = owner_of lv \<and> recover_of lock = 0" "reg \<longrightarrow> waiter_tid_of lock = waiter_tid_of lv"
  shows "lock + sum_changes lv ds 0 = mk_lockval (if own then 0 else owner_of lock)
    (nwaiter_of lock - length (filter (dead_waiter lv) ds)) (if own then 1 else recover_of lock)
    (if reg then 0 else waiter_tid_of lock)"
proof -
  let ?D = "length (filter (dead_waiter lv) ds)"
  have l: "lock = mk_lockval (owner_of lock) (nwaiter_of lock) (recover_of lock) (waiter_tid_of lock)"
    by (simp add: mk_lockval_fields)
  have r: "lock - mk_lockval 0 ?D 0 0 - (if reg then mk_lockval 0 0 0 (waiter_tid_of lv) else 0) =
      mk_lockval (owner_of lock) (nwaiter_of lock - ?D) (recover_of lock) (if reg then 0 else waiter_tid_of lock)"
    using assms(2,6) by (subst l) (auto simp: mk_lockval_sub)
  have o: "mk_lockval ow nw 0 wt + (mk_lockval 0 0 1 0 - mk_lockval ow 0 0 0) = mk_lockval 0 nw 1 wt" for ow nw wt
    by (simp add: add_diff_eq mk_lockval_add mk_lockval_sub)
  have "lock + sum_changes lv ds 0 =
      (lock - mk_lockval 0 ?D 0 0 - (if reg then mk_lockval 0 0 0 (waiter_tid_of lv) else 0)) +
      (if own then mk_lockval 0 0 1 0 - mk_lockval (owner_of lv) 0 0 0 else 0)"
    unfolding sum_changes_roles [OF assms(1)] assms(3,4) by (simp add: algebra_simps)
  then show ?thesis unfolding r using assms(5) o by simp
qed

section \<open>Properties\<close>

text \<open>
  A cleanup undoes exactly what the dead threads had done to the mutex. Let the dead threads have
  different ids; if the owner is among them, let the mutex be consistent. Then the owner is removed
  and the mutex marked for recovery, the waiter list is released if the thread that held it is
  dead, the number of waiters is reduced by the dead ones, and nothing else changes, also when
  other threads have modified the lock value since it was inspected. The server is asked to wake up
  a waiter exactly when one remains and the mutex is free.
\<close>
theorem cleanup_mutex_lock_undoes:
  assumes "distinct (map (\<lambda>d. unat (dt_tid d) mod 2 ^ 23) dead)"
    "length (filter (dead_waiter loaded) dead) \<le> nwaiter_of lock"
    "(\<exists>d \<in> set dead. dead_owner loaded d) \<Longrightarrow> owner_of lock = owner_of loaded \<and> recover_of lock = 0"
    "(\<exists>d \<in> set dead. dead_registering loaded d) \<Longrightarrow> waiter_tid_of lock = waiter_tid_of loaded"
  shows "case cleanup_mutex_lock loaded lock dead of (lock', num_wakeup) \<Rightarrow>
    owner_of lock' = (if \<exists>d \<in> set dead. dead_owner loaded d then 0 else owner_of lock) \<and>
    recover_of lock' = (if \<exists>d \<in> set dead. dead_owner loaded d then 1 else recover_of lock) \<and>
    waiter_tid_of lock' = (if \<exists>d \<in> set dead. dead_registering loaded d then 0 else waiter_tid_of lock) \<and>
    nwaiter_of lock' + length (filter (dead_waiter loaded) dead) = nwaiter_of lock \<and>
    num_wakeup = (if nwaiter_of lock' \<noteq> 0 \<and> owner_of lock' = 0 then 1 else 0)"
proof -
  define own where "own \<longleftrightarrow> (\<exists>d \<in> set dead. dead_owner loaded d)"
  define reg where "reg \<longleftrightarrow> (\<exists>d \<in> set dead. dead_registering loaded d)"
  let ?D = "length (filter (dead_waiter loaded) dead)"
  define v where "v = mk_lockval (if own then 0 else owner_of lock) (nwaiter_of lock - ?D)
    (if own then 1 else recover_of lock) (if reg then 0 else waiter_tid_of lock)"
  have f: "lock + sum_changes loaded dead 0 = v"
    unfolding v_def by (rule cleanup_fields [OF assms(1,2) own_def reg_def]) (use assms(3,4) own_def reg_def in auto)
  have "nwaiter_of lock - ?D < 2 ^ 8" using nwaiter_of_less [of lock] by linarith
  then have "owner_of v = (if own then 0 else owner_of lock)" "nwaiter_of v = nwaiter_of lock - ?D"
    "recover_of v = (if own then 1 else recover_of lock)" "waiter_tid_of v = (if reg then 0 else waiter_tid_of lock)"
    using owner_of_less [of lock] recover_of_less [of lock] waiter_tid_of_less [of lock]
    unfolding v_def by (simp_all add: fields_mk_lockval)
  then show ?thesis
    using assms(2) by (simp add: cleanup_mutex_lock_def atomic_fetch_add_def f Let_def lockval own_def reg_def)
qed

definition dead1 :: "dword \<Rightarrow> int \<Rightarrow> dead_thread" where
  "dead1 tid w = \<lparr>dt_is_waiter = w, dt_tid = tid\<rparr>"

lemma fields_example:
  "owner_of (mk_lockval 8 3 0 12) = 8" "nwaiter_of (mk_lockval 8 3 0 12) = 3"
  "recover_of (mk_lockval 8 3 0 12) = 0" "waiter_tid_of (mk_lockval 8 3 0 12) = 12"
  by (simp_all add: fields_mk_lockval)

theorem cleanup_mutex_lock_undoes_witness:
  "case cleanup_mutex_lock (mk_lockval 8 3 0 12) (mk_lockval 8 3 0 12) [dead1 8 0, dead1 12 0, dead1 20 1] of
    (lock', num_wakeup) \<Rightarrow> owner_of lock' = 0 \<and> recover_of lock' = 1 \<and> waiter_tid_of lock' = 0 \<and>
      nwaiter_of lock' = 1 \<and> num_wakeup = 1"
  using cleanup_mutex_lock_undoes [of "[dead1 8 0, dead1 12 0, dead1 20 1]" "mk_lockval 8 3 0 12" "mk_lockval 8 3 0 12"]
  by (simp add: dead1_def dead_waiter_def dead_registering_def dead_owner_def fields_example split: prod.splits)

text \<open>
  The second death. When the owner of a mutex that is already marked for recovery dies, the
  cleanup adds the recovery flag a second time: the flag is lost, and the carry goes into the
  field of the registering thread. The next owner is not told that the data may be inconsistent.
\<close>
theorem cleanup_second_death_loses_recovery:
  assumes "recover_of lock = 1" "unat tid = owner_of lock" "waiter_tid_of lock < 2 ^ 23 - 1"
  shows "case cleanup_mutex_lock lock lock [dead1 tid w] of (lock', num_wakeup) \<Rightarrow>
    recover_of lock' = 0 \<and> \<not> is_mtx_ownerdead lock' \<and> owner_of lock' = 0 \<and>
    waiter_tid_of lock' = waiter_tid_of lock + 1"
proof -
  have d: "dead_owner lock (dead1 tid w)" using assms(2) by (simp add: dead_owner_def dead1_def)
  have c: "mk_lockval 0 n 2 t = mk_lockval 0 n 0 (t + 1)" for n t by (simp add: mk_lockval_def algebra_simps)
  have l: "lock = mk_lockval (owner_of lock) (nwaiter_of lock) 1 (waiter_tid_of lock)"
    using mk_lockval_fields [of lock] assms(1) by simp
  have "lock + sum_changes lock [dead1 tid w] 0 =
      mk_lockval (owner_of lock) (nwaiter_of lock) 1 (waiter_tid_of lock) +
        (mk_lockval 0 0 1 0 - mk_lockval (owner_of lock) 0 0 0)"
    using change_cases(1) [OF d] l by simp
  also have "\<dots> = mk_lockval 0 (nwaiter_of lock) 2 (waiter_tid_of lock)"
    by (simp add: add_diff_eq mk_lockval_add mk_lockval_sub numeral_2_eq_2)
  finally have "lock + sum_changes lock [dead1 tid w] 0 = mk_lockval 0 (nwaiter_of lock) 0 (waiter_tid_of lock + 1)"
    unfolding c .
  then show ?thesis
    using assms(3) nwaiter_of_less [of lock]
    by (simp add: cleanup_mutex_lock_def atomic_fetch_add_def Let_def lockval fields_mk_lockval del: sum_changes.simps)
qed

lemma fields_second: "owner_of (mk_lockval 8 1 1 0) = 8" "recover_of (mk_lockval 8 1 1 0) = 1"
    "waiter_tid_of (mk_lockval 8 1 1 0) = 0"
  by (simp_all add: fields_mk_lockval)

theorem cleanup_second_death_loses_recovery_witness:
  "case cleanup_mutex_lock (mk_lockval 8 1 1 0) (mk_lockval 8 1 1 0) [dead1 8 0] of (lock', num_wakeup) \<Rightarrow>
    recover_of lock' = 0 \<and> waiter_tid_of lock' = 1"
  using cleanup_second_death_loses_recovery [of "mk_lockval 8 1 1 0" 8 0]
  by (simp add: fields_second [simplified] split: prod.splits)

text \<open>
  The answer to a wait. When the answer that the server sends at the end of a wait reaches the
  client, the function reports a timeout exactly when the wait was ended by a wakeup: the flag has
  opposite meanings on the two sides.
\<close>
theorem wait_answer_inverted:
  assumes "clients s i = Some tc" "\<not> being_destroyed tc" "write_ok wenv i"
    "thread_client_wakeup wenv i timedout s = Some s'"
    "TransactNamedPipe cenv (wait_request key val timeout) w = Some (snd (last (sent s')), w')"
  shows "pshared_wait_on_lock cenv key val timeout w = Some (if timedout then None else Some ETIMEDOUT, w')"
proof -
  have "last (sent s') = (i, RespWait (if timedout then 0 else 1))"
    using assms(1-4)
    by (auto simp: thread_client_wakeup_def thread_client_queue_write_def set_client_def Let_def)
  then show ?thesis
    using assms(5) unfolding pshared_wait_on_lock_def by (subst wait_on_lock_loop.simps) simp
qed

text \<open>A server with one client, and a pipe that gives the answer of a wakeup.\<close>

definition lone_client :: lockref_server where
  "lone_client = thread_client_create 2 server_init"

definition quiet_env :: "(req_msg \<Rightarrow> resp_msg) \<Rightarrow> unit client_env" where
  "quiet_env answer = \<lparr>TransactNamedPipe = (\<lambda>req w. Some (answer req, w)), WaitNamedPipe = (\<lambda>w. (True, w)),
     try_spawn_lockserver = (\<lambda>w. w), open_pipe = (\<lambda>w. (True, w)), map_robust = (\<lambda>_ _. None),
     map_job = (\<lambda>_ _. []), end_job = (\<lambda>_ w. w), lock_val = (\<lambda>_. 0), store_lock = (\<lambda>_ w. w), get_tid = 4\<rparr>"

theorem wait_answer_inverted_witness:
  "\<exists>s'. thread_client_wakeup win_ok 2 False lone_client = Some s' \<and>
     pshared_wait_on_lock (quiet_env (\<lambda>_. snd (last (sent s')))) 5 1 None () = Some (Some ETIMEDOUT, ())"
proof -
  obtain tc where c: "clients lone_client 2 = Some tc" "\<not> being_destroyed tc"
    by (simp add: lone_client_def thread_client_create_def set_client_def lockref_server_update_thread_count_def Let_def)
  have w: "write_ok win_ok 2" by (simp add: win_ok_def)
  obtain s' where s': "thread_client_wakeup win_ok 2 False lone_client = Some s'"
    using c w by (auto simp: thread_client_wakeup_def thread_client_queue_write_def set_client_def Let_def)
  have "TransactNamedPipe (quiet_env (\<lambda>_. snd (last (sent s')))) (wait_request 5 1 None) () = Some (snd (last (sent s')), ())"
    by (simp add: quiet_env_def)
  from wait_answer_inverted [OF c w s' this] s' show ?thesis by simp
qed

end
