(* ===== verification/Lockref_Proofs.thy ===== *)
theory Lockref_Proofs
  imports Lockref_Server
begin

unbundle bit_operations_syntax

text \<open>
  Properties of the lock referee server: what a wake request does to the queue of a lock, that no
  wake-up is lost, and what the server does with timed waits.
\<close>

section \<open>The key of the awaited lock\<close>

text \<open>Every client has a zero \<open>waiting_lock_key\<close>: no code stores another value there.\<close>

definition no_waiting_key :: "lockref_server \<Rightarrow> bool" where
  "no_waiting_key s \<longleftrightarrow> (\<forall>tc \<in> ran (clients s). waiting_lock_key tc = 0)"

named_theorems keeps_key \<open>operations that keep the waiting keys zero\<close>

lemma clients_simps [simp]:
  "clients (set_lock l lk s) = clients s" "clients (set_client i tc s) = (clients s)(i \<mapsto> tc)"
  "clients (lockref_server_update_thread_count n s) = clients s"
  by (simp_all add: set_lock_def set_client_def lockref_server_update_thread_count_def Let_def)

lemma clients_get_lock: "lockref_server_get_lock env s key c = (l, s') \<Longrightarrow> clients s' = clients s"
  by (auto simp: lockref_server_get_lock_def split: prod.splits)

lemma clients_report_dead [simp]: "clients (lock_report_dead env l w tid s) = clients s"
  by (simp add: lock_report_dead_def Let_def split: option.split)

lemma clients_drop_waiter [simp]: "clients (lock_drop_waiter l i s) = clients s"
  by (simp add: lock_drop_waiter_def Let_def split: prod.split)

lemma clients_report_owned: "report_owned env tid keys s = Some s' \<Longrightarrow> clients s' = clients s"
  by (induction env tid keys s rule: report_owned.induct)
    (auto split: prod.splits option.splits dest: clients_get_lock)

lemma clients_cleanup:
  assumes "thread_client_cleanup_robust_data env tc s = Some s'"
  shows "clients s' = clients s"
proof (cases "tc_robust_data tc")
  case None
  then show ?thesis using assms by (simp add: thread_client_cleanup_robust_data_def)
next
  case (Some rd)
  then obtain s1 where o: "report_owned env (thread_id rd) (take (nat (num_locked rd)) (locked_keys rd)) s = Some s1"
    using assms by (auto simp: thread_client_cleanup_robust_data_def bind_eq_Some_conv)
  obtain l s2 where g: "lockref_server_get_lock env s1 (attempt_key rd) True = (l, s2)" by fastforce
  show ?thesis
    using assms Some o g clients_report_owned [OF o] clients_get_lock [OF g]
    by (auto simp: thread_client_cleanup_robust_data_def split: if_splits option.splits)
qed

lemma no_key_same: "clients s' = clients s \<Longrightarrow> no_waiting_key s' = no_waiting_key s"
  by (simp add: no_waiting_key_def)

lemma no_key_upd:
  "no_waiting_key s \<Longrightarrow> clients s' = (clients s)(i \<mapsto> tc) \<Longrightarrow> waiting_lock_key tc = 0 \<Longrightarrow> no_waiting_key s'"
  by (auto simp: no_waiting_key_def ran_def split: if_splits)

lemma no_key_del: "no_waiting_key s \<Longrightarrow> clients s' = (clients s)(i := None) \<Longrightarrow> no_waiting_key s'"
  by (auto simp: no_waiting_key_def ran_def split: if_splits)

lemma no_key_at: "no_waiting_key s \<Longrightarrow> clients s i = Some tc \<Longrightarrow> waiting_lock_key tc = 0"
  by (auto simp: no_waiting_key_def ran_def)

lemma no_key_set_client [intro!]:
  "no_waiting_key s \<Longrightarrow> waiting_lock_key tc = 0 \<Longrightarrow> no_waiting_key (set_client i tc s)"
  by (rule no_key_upd) simp_all

lemma no_key_fields [simp]:
  "no_waiting_key (s\<lparr>sent := x\<rparr>) = no_waiting_key s" "no_waiting_key (s\<lparr>lock_nodes := h\<rparr>) = no_waiting_key s"
  "no_waiting_key (s\<lparr>timeout_nodes := h\<rparr>) = no_waiting_key s" "no_waiting_key (s\<lparr>last_value := v\<rparr>) = no_waiting_key s"
  "no_waiting_key (s\<lparr>watched_locks := w\<rparr>) = no_waiting_key s" "no_waiting_key (set_lock l lk s) = no_waiting_key s"
  "no_waiting_key (lock_drop_waiter l i s) = no_waiting_key s"
  by (simp_all add: no_waiting_key_def)

lemma destroy_clients:
  assumes "thread_client_destroy env i s = Some s'" "no_waiting_key s"
  shows "\<exists>tc. clients s i = Some tc \<and>
    clients s' = (if num_pending_request tc \<noteq> 0 then (clients s)(i \<mapsto> tc\<lparr>being_destroyed := True\<rparr>)
      else (clients s)(i := None))"
proof -
  obtain tc where tc: "clients s i = Some tc"
    using assms(1) by (auto simp: thread_client_destroy_def bind_eq_Some_conv)
  show ?thesis
    using assms tc no_key_at [OF assms(2) tc]
    by (auto simp: thread_client_destroy_def bind_eq_Some_conv Let_def split: if_splits
        dest!: clients_cleanup)
qed

lemma destroy_no_key [keeps_key]:
  assumes "thread_client_destroy env i s = Some s'" "no_waiting_key s"
  shows "no_waiting_key s'"
proof -
  obtain tc where tc: "clients s i = Some tc" "clients s' = (if num_pending_request tc \<noteq> 0
      then (clients s)(i \<mapsto> tc\<lparr>being_destroyed := True\<rparr>) else (clients s)(i := None))"
    using destroy_clients [OF assms] by blast
  show ?thesis
  proof (cases "num_pending_request tc = 0")
    case True
    then show ?thesis using tc no_key_del [OF assms(2)] by simp
  next
    case False
    then show ?thesis using tc no_key_upd [OF assms(2)] no_key_at [OF assms(2) tc(1)] by simp
  qed
qed

lemma queue_write_no_key [keeps_key]:
  "thread_client_queue_write env i msg s = Some s' \<Longrightarrow> no_waiting_key s \<Longrightarrow> no_waiting_key s'"
  by (auto simp: thread_client_queue_write_def bind_eq_Some_conv split: if_splits
      intro: destroy_no_key dest: no_key_at)

lemma queue_read_no_key [keeps_key]:
  "thread_client_queue_read env i s = Some s' \<Longrightarrow> no_waiting_key s \<Longrightarrow> no_waiting_key s'"
  by (auto simp: thread_client_queue_read_def bind_eq_Some_conv split: if_splits
      intro: destroy_no_key dest: no_key_at)

lemma wakeup_no_key [keeps_key]:
  assumes "thread_client_wakeup env i t s = Some s'" "no_waiting_key s"
  shows "no_waiting_key s'"
proof -
  obtain tc where tc: "clients s i = Some tc" and w: "thread_client_queue_write env i (RespWait (if t then 0 else 1))
      (set_client i (tc\<lparr>waiting_lock_key := 0\<rparr>)
        (s\<lparr>timeout_nodes := detach_list_node (timeout_nodes s) i\<rparr>)) = Some s'"
    using assms(1) by (auto simp: thread_client_wakeup_def bind_eq_Some_conv Let_def)
  show ?thesis
    by (rule queue_write_no_key [OF w]) (auto simp: assms(2))
qed

lemma get_lock_no_key: "lockref_server_get_lock env s key c = (l, s') \<Longrightarrow> no_waiting_key s \<Longrightarrow> no_waiting_key s'"
  using no_key_same [OF clients_get_lock] by blast

lemma add_waiter_no_key:
  assumes "lock_add_waiter env l i s = Some (b, s')" "no_waiting_key s"
  shows "no_waiting_key s'"
  using assms wakeup_no_key [of env i False _ s']
  by (auto simp: lock_add_waiter_def bind_eq_Some_conv Let_def split: if_splits prod.splits)

lemma wake_loop_no_key:
  assumes "wake_loop env l node num val s = Some s'"
  shows "no_waiting_key s \<longrightarrow> no_waiting_key s'"
proof (rule wake_loop.raw_induct [where P = "\<lambda>env l node num val s s'. no_waiting_key s \<longrightarrow> no_waiting_key s'",
      OF _ assms], goal_cases)
  case (1 wl env l node num val s s')
  show ?case
  proof (cases node)
    case None
    then show ?thesis using 1(2) by simp
  next
    case (Some n)
    show ?thesis
    proof (cases "num = 0")
      case True
      then show ?thesis using 1(2) Some by simp
    next
      case False
      then obtain tc where tc: "clients s n = Some tc" using 1(2) Some by (auto simp: bind_eq_Some_conv)
      show ?thesis
      proof (cases "wakeup_val tc > val")
        case True
        then show ?thesis using 1 Some False tc by auto
      next
        case le: False
        obtain q h where qh: "drop_from_queue (waiters_queue (lock_at s l)) n (lock_nodes s) = (q, h)" by fastforce
        define s1 where "s1 = set_lock l ((lock_at s l)\<lparr>waiters_queue := q\<rparr>) (s\<lparr>lock_nodes := h\<rparr>)"
        obtain s2 where w: "thread_client_wakeup env n False s1 = Some s2"
          and r: "wl env l (nxt (lock_nodes s2 n)) (num - 1) val s2 = Some s'"
          using 1(2) Some False tc le qh by (auto simp: bind_eq_Some_conv Let_def s1_def)
        have "no_waiting_key s \<longrightarrow> no_waiting_key s1" by (simp add: no_waiting_key_def s1_def)
        then show ?thesis using wakeup_no_key [OF w] 1(1) [OF r] by blast
      qed
    qed
  qed
qed

lemma wake_waiters_no_key:
  "lock_wake_waiters env l num val s = Some s' \<Longrightarrow> no_waiting_key s \<Longrightarrow> no_waiting_key s'"
  using wake_loop_no_key [of env l _ num val _ s']
  by (auto simp: lock_wake_waiters_def Let_def)

lemma start_cleanup_no_key:
  "lock_start_or_remove_cleanup_job env l s = Some s' \<Longrightarrow> no_waiting_key s \<Longrightarrow> no_waiting_key s'"
  by (auto simp: lock_start_or_remove_cleanup_job_def thread_client_do_cleanup_job_def Let_def
      split: option.splits if_splits intro: queue_write_no_key)

lemma update_cleanup_no_key:
  "update_cleanup_jobs_from env l n s = Some s' \<Longrightarrow> no_waiting_key s \<Longrightarrow> no_waiting_key s'"
  by (induction env l n s rule: update_cleanup_jobs_from.induct)
    (auto simp: bind_eq_Some_conv dest: start_cleanup_no_key)

lemma process_timeout_no_key:
  assumes "thread_client_process_timeout env i s = Some s'" "no_waiting_key s"
  shows "no_waiting_key s'"
proof -
  obtain tc where tc: "clients s i = Some tc"
    using assms(1) by (auto simp: thread_client_process_timeout_def bind_eq_Some_conv)
  obtain l s1 where g: "lockref_server_get_lock env s (waiting_lock_key tc) False = (l, s1)" by fastforce
  show ?thesis
    using assms tc g get_lock_no_key [OF g] wakeup_no_key [of env i True _ s']
    by (auto simp: thread_client_process_timeout_def split: option.splits)
qed

lemma timeout_loop_no_key:
  assumes "timeout_update_loop env now node s = Some r"
  shows "no_waiting_key s \<longrightarrow> no_waiting_key (snd r)"
proof (rule timeout_update_loop.raw_induct
    [where P = "\<lambda>env now node s r. no_waiting_key s \<longrightarrow> no_waiting_key (snd r)", OF _ assms], goal_cases)
  case (1 tl env now node s r)
  consider "snd r = s" | n s1 where "thread_client_process_timeout env n s = Some s1"
      "tl env now (nxt (timeout_nodes s n)) s1 = Some r"
    using 1(2) by (cases r) (auto simp: bind_eq_Some_conv Let_def split: option.splits if_splits)
  then show ?case
  proof cases
    case 2
    then show ?thesis using process_timeout_no_key [OF 2(1)] 1(1) [OF 2(2)] by blast
  qed simp
qed

lemma update_timeouts_no_key:
  "lockref_server_update_next_timeout_ns env w m s = Some r \<Longrightarrow> no_waiting_key s \<Longrightarrow> no_waiting_key (snd r)"
  using timeout_loop_no_key
  by (fastforce simp: lockref_server_update_next_timeout_ns_def timeout_list_update_def bind_eq_Some_conv Let_def)

lemma handle_wait_no_key:
  assumes "thread_client_handle_req_wait env i key val clk t s = Some s'" "no_waiting_key s"
  shows "no_waiting_key s'"
proof -
  obtain tc where tc: "clients s i = Some tc"
    using assms(1) by (auto simp: thread_client_handle_req_wait_def bind_eq_Some_conv)
  let ?s0 = "set_client i (tc\<lparr>wakeup_val := val\<rparr>) s"
  have k0: "no_waiting_key ?s0" using assms(2) no_key_at [OF assms(2) tc] by auto
  obtain l s1 where g: "lockref_server_get_lock env ?s0 key True = (l, s1)" by fastforce
  obtain l' where l: "l = Some l'"
    using assms(1) tc g by (auto simp: thread_client_handle_req_wait_def split: option.splits)
  obtain b s2 where a: "lock_add_waiter env l' i s1 = Some (b, s2)"
    using assms(1) tc g l by (auto simp: thread_client_handle_req_wait_def bind_eq_Some_conv)
  have k2: "no_waiting_key s2" by (rule add_waiter_no_key [OF a get_lock_no_key [OF g k0]])
  show ?thesis
    using assms(1) tc g l a k2 no_key_at [OF k2]
    by (auto simp: thread_client_handle_req_wait_def bind_eq_Some_conv Let_def split: if_splits option.splits)
qed

lemma handle_request_no_key:
  assumes "handle_request env i msg s = Some s'" "no_waiting_key s"
  shows "no_waiting_key s'"
proof (cases msg)
  case (ReqWake num key val)
  obtain l s1 where g: "lockref_server_get_lock env s key True = (l, s1)" by fastforce
  then show ?thesis
    using ReqWake assms get_lock_no_key [OF g]
    by (auto simp: thread_client_handle_req_wake_def bind_eq_Some_conv split: option.splits
        dest!: wake_waiters_no_key queue_write_no_key)
next
  case (ReqWait key val clk t)
  then show ?thesis using assms handle_wait_no_key by simp
next
  case ReqInitlock
  then show ?thesis using assms
    by (auto simp: thread_client_handle_req_initlock_def split: prod.splits dest: queue_write_no_key)
next
  case (ReqGetrobust n)
  then show ?thesis using assms no_key_at [OF assms(2)]
    by (auto simp: thread_client_handle_req_getrobust_def thread_client_add_robust_data_def bind_eq_Some_conv Let_def
        split: if_splits dest!: queue_write_no_key)
next
  case (ReqCleanupDone key num)
  obtain l s1 where g: "lockref_server_get_lock env s key False = (l, s1)" by fastforce
  then show ?thesis
    using ReqCleanupDone assms get_lock_no_key [OF g]
    by (auto simp: thread_client_handle_req_cleanup_done_def lock_report_cleanup_job_done_def bind_eq_Some_conv
        split: option.splits dest!: wake_waiters_no_key)
next
  case ReqUnknown
  then show ?thesis using assms by (auto dest: queue_write_no_key)
qed

lemma read_completed_no_key:
  assumes "read_completed env i msg s = Some s'" "no_waiting_key s"
  shows "no_waiting_key s'"
proof -
  obtain tc where tc: "clients s i = Some tc"
    using assms(1) by (auto simp: read_completed_def bind_eq_Some_conv)
  have k: "no_waiting_key (set_client i (tc\<lparr>num_pending_request := num_pending_request tc - 1\<rparr>) s)"
    using assms(2) no_key_at [OF assms(2) tc] by auto
  show ?thesis
    using assms(1) tc destroy_no_key [OF _ k] handle_request_no_key [OF _ k] queue_read_no_key
    by (auto simp: read_completed_def bind_eq_Some_conv Let_def split: if_splits)
qed

lemma write_completed_no_key:
  assumes "write_completed env i ok s = Some s'" "no_waiting_key s"
  shows "no_waiting_key s'"
proof -
  obtain tc where tc: "clients s i = Some tc"
    using assms(1) by (auto simp: write_completed_def bind_eq_Some_conv)
  have k: "no_waiting_key (set_client i (tc\<lparr>num_pending_request := num_pending_request tc - 1\<rparr>) s)"
    using assms(2) no_key_at [OF assms(2) tc] by auto
  show ?thesis
    using assms(1) tc destroy_no_key [OF _ k] k
    by (auto simp: write_completed_def bind_eq_Some_conv Let_def split: if_splits)
qed

lemma connect_no_key:
  "lockref_server_handle_new_connection env i s = Some s' \<Longrightarrow> no_waiting_key s \<Longrightarrow> no_waiting_key s'"
  unfolding lockref_server_handle_new_connection_def
  by (erule queue_read_no_key) (auto simp: thread_client_create_def Let_def intro: no_key_upd)

lemma srv_handle_no_key: "srv_handle env ev s = Some s' \<Longrightarrow> no_waiting_key s \<Longrightarrow> no_waiting_key s'"
  by (cases ev) (auto split: if_splits option.splits simp: lockref_server_garbage_collection_def Let_def
      dest: no_key_at connect_no_key read_completed_no_key write_completed_no_key update_timeouts_no_key update_cleanup_no_key)

lemma srv_reachable_no_key: "srv_reachable s \<Longrightarrow> no_waiting_key s"
proof (induction rule: srv_reachable.induct)
  case srv_start
  show ?case by (simp add: no_waiting_key_def server_init_def)
next
  case (srv_next s env ev s')
  then show ?case using srv_handle_no_key by blast
qed

section \<open>A timeout that has passed\<close>

text \<open>A key that is not in the array is not found, whether the array is sorted or not.\<close>

lemma flag_set: "((w :: 32 word) OR KEY_NOTFOUND_FLAG) AND KEY_NOTFOUND_FLAG \<noteq> 0"
proof -
  have "(w OR KEY_NOTFOUND_FLAG) AND KEY_NOTFOUND_FLAG = KEY_NOTFOUND_FLAG"
    by (rule bit_eqI) (auto simp: bit_simps)
  then show ?thesis by (simp add: KEY_NOTFOUND_FLAG_def)
qed

lemma search_absent:
  "0 \<le> l \<Longrightarrow> h < int (length locks) \<Longrightarrow> key \<notin> lk_key ` set locks \<Longrightarrow>
     search_loop locks key l h AND KEY_NOTFOUND_FLAG \<noteq> 0"
proof (induction locks key l h rule: search_loop.induct)
  case (1 locks key l h)
  show ?case
  proof (cases "l \<le> h")
    case True
    define m where "m = (l + h) div 2"
    have m: "l \<le> m" "m \<le> h" "nat m < length locks" using True 1(3,4) by (auto simp: m_def)
    then have ne: "key \<noteq> lk_key (locks ! nat m)" using 1(5) by auto
    have "search_loop locks key l h = (if key < lk_key (locks ! nat m) then search_loop locks key l (m - 1)
        else search_loop locks key (m + 1) h)"
      using True ne by (subst search_loop.simps) (simp add: m_def Let_def)
    then show ?thesis using 1(1) [OF True m_def ne] 1(2) [OF True m_def ne] m 1(3-5) by simp
  next
    case False
    then show ?thesis using flag_set by (subst search_loop.simps) simp
  qed
qed

lemma get_lock_absent:
  "key \<notin> lk_key ` set (used (watched_locks s)) \<Longrightarrow> fst (lockref_server_get_lock env s key False) = None"
  using search_absent [of 0 "int (length (used (watched_locks s))) - 1" "used (watched_locks s)" key]
  by (simp add: lockref_server_get_lock_def lock_array_get_lock_def search_key_index_def split: prod.splits)

section \<open>Waking up the waiters of a lock\<close>

text \<open>Which of the waiters are woken up, and which stay, in the order of the queue.\<close>

fun select :: "(nodeid \<Rightarrow> int) \<Rightarrow> int \<Rightarrow> int \<Rightarrow> nodeid list \<Rightarrow> nodeid list \<times> nodeid list" where
  "select wv val num [] = ([], [])"
| "select wv val num (x # xs) =
     (if num = 0 then ([], x # xs)
      else if wv x > val then (case select wv val num xs of (w, k) \<Rightarrow> (w, x # k))
      else (case select wv val (num - 1) xs of (w, k) \<Rightarrow> (x # w, k)))"

text \<open>A client that waits: it is alive, has not been marked for destruction, and can be written to.\<close>

definition waiting_client :: "win_env \<Rightarrow> lockref_server \<Rightarrow> (nodeid \<Rightarrow> int) \<Rightarrow> nodeid \<Rightarrow> bool" where
  "waiting_client env s wv x \<longleftrightarrow> write_ok env x \<and>
     (\<exists>tc. clients s x = Some tc \<and> \<not> being_destroyed tc \<and> wakeup_val tc = wv x)"

lemma wakeup_writes:
  assumes "waiting_client env s wv x"
  shows "\<exists>s'. thread_client_wakeup env x t s = Some s' \<and> lock_nodes s' = lock_nodes s \<and>
    watched_locks s' = watched_locks s \<and> sent s' = sent s @ [(x, RespWait (if t then 0 else 1))] \<and>
    (\<forall>v y. waiting_client env s v y \<longrightarrow> waiting_client env s' v y)"
  using assms
  by (auto simp: waiting_client_def thread_client_wakeup_def thread_client_queue_write_def set_client_def Let_def)

lemma set_lock_simps [simp]:
  "lock_nodes (set_lock l lk s) = lock_nodes s" "sent (set_lock l lk s) = sent s"
  "length (used (watched_locks (set_lock l lk s))) = length (used (watched_locks s))"
  "l < length (used (watched_locks s)) \<Longrightarrow> lock_at (set_lock l lk s) l = lk"
  "lock_nodes (set_client i tc s) = lock_nodes s" "watched_locks (set_client i tc s) = watched_locks s"
  "sent (set_client i tc s) = sent s"
  by (simp_all add: set_lock_def set_client_def)

lemma waiting_other: "waiting_client env s wv x \<Longrightarrow> clients s' x = clients s x \<Longrightarrow> waiting_client env s' wv x"
  by (simp add: waiting_client_def)

lemma drop_keeps_node:
  assumes "queue_rep h q (xs @ n # ys)" "drop_from_queue q n h = (q', h')"
  shows "nxt (h' n) = hd_or ys None"
proof -
  have "n \<notin> set (xs @ ys)" "nxt (h n) = hd_or ys None"
    using assms(1) by (auto simp: queue_rep_def links_append)
  then show ?thesis using drop_from_queue_rep(2) [OF assms, of n] by simp
qed

lemma wake_loop_rep:
  assumes "l < length (used (watched_locks s))"
    "queue_rep (lock_nodes s) (waiters_queue (lock_at s l)) (pre @ xs)"
    "\<forall>x \<in> set xs. waiting_client env s wv x"
  shows "\<exists>s' q'. wake_loop env l (hd_or xs None) num val s = Some s' \<and>
    queue_rep (lock_nodes s') q' (pre @ snd (select wv val num xs)) \<and>
    sent s' = sent s @ map (\<lambda>x. (x, RespWait 1)) (fst (select wv val num xs)) \<and>
    watched_locks s' = watched_locks (set_lock l ((lock_at s l)\<lparr>waiters_queue := q'\<rparr>) s) \<and>
    (\<forall>v y. waiting_client env s v y \<longrightarrow> waiting_client env s' v y)"
  using assms
proof (induction xs arbitrary: pre s num)
  case Nil
  then show ?case
    by (subst wake_loop.simps) (auto intro!: exI [of _ "waiters_queue (lock_at s l)"] simp: set_lock_def)
next
  case (Cons x xs)
  obtain tc where tc: "clients s x = Some tc" "wakeup_val tc = wv x" "\<not> being_destroyed tc"
    using Cons.prems(3) by (auto simp: waiting_client_def)
  consider "num = 0" | "num \<noteq> 0" "wv x > val" | "num \<noteq> 0" "wv x \<le> val" by linarith
  then show ?case
  proof cases
    case 1
    then show ?thesis using Cons.prems
      by (subst wake_loop.simps) (auto intro!: exI [of _ "waiters_queue (lock_at s l)"] simp: set_lock_def)
  next
    case 2
    have n: "nxt (lock_nodes s x) = hd_or xs None"
      using Cons.prems(2) by (auto simp: queue_rep_def links_append)
    have u: "wake_loop env l (hd_or (x # xs) None) num val s = wake_loop env l (hd_or xs None) num val s"
      using 2 tc n by (subst wake_loop.simps) simp
    have r: "queue_rep (lock_nodes s) (waiters_queue (lock_at s l)) ((pre @ [x]) @ xs)" using Cons.prems(2) by simp
    have w: "\<forall>y \<in> set xs. waiting_client env s wv y" using Cons.prems(3) by simp
    have "fst (select wv val num (x # xs)) = fst (select wv val num xs)"
      "snd (select wv val num (x # xs)) = x # snd (select wv val num xs)"
      using 2 by (auto split: prod.splits)
    then show ?thesis using Cons.IH [OF Cons.prems(1) r w, of num] unfolding u by simp
  next
    case 3
    obtain q h where qh: "drop_from_queue (waiters_queue (lock_at s l)) x (lock_nodes s) = (q, h)" by fastforce
    define s1 where "s1 = set_lock l ((lock_at s l)\<lparr>waiters_queue := q\<rparr>) (s\<lparr>lock_nodes := h\<rparr>)"
    have s1: "waiting_client env s1 v y \<longleftrightarrow> waiting_client env s v y" for v y
      by (simp add: waiting_client_def s1_def)
    then have w1: "waiting_client env s1 wv x" using Cons.prems(3) by simp
    obtain s2 where s2: "thread_client_wakeup env x False s1 = Some s2" "lock_nodes s2 = lock_nodes s1"
        "watched_locks s2 = watched_locks s1" "sent s2 = sent s @ [(x, RespWait 1)]"
        "\<And>v y. waiting_client env s v y \<Longrightarrow> waiting_client env s2 v y"
      using wakeup_writes [OF w1, of False] s1 by (auto simp: s1_def)
    have n: "nxt (lock_nodes s2 x) = hd_or xs None"
      using drop_keeps_node [OF Cons.prems(2) qh] s2(2) by (simp add: s1_def)
    obtain tc2 where "clients s2 x = Some tc2"
      using s2(5) [of wv x] Cons.prems(3) by (auto simp: waiting_client_def)
    then have u: "wake_loop env l (hd_or (x # xs) None) num val s = wake_loop env l (hd_or xs None) (num - 1) val s2"
      using 3 tc n s2(1) qh by (subst wake_loop.simps) (auto simp: s1_def Let_def)
    have l2: "l < length (used (watched_locks s2))" using Cons.prems(1) s2(3) by (simp add: s1_def)
    have lk: "lock_at s2 l = (lock_at s l)\<lparr>waiters_queue := q\<rparr>"
      using Cons.prems(1) s2(3) by (simp add: s1_def set_lock_def)
    have r: "queue_rep (lock_nodes s2) (waiters_queue (lock_at s2 l)) (pre @ xs)"
      using drop_from_queue_rep(1) [OF Cons.prems(2) qh] s2(2) lk by (simp add: s1_def)
    have w: "\<forall>y \<in> set xs. waiting_client env s2 wv y" using Cons.prems(3) s2(5) by simp
    have sel: "fst (select wv val num (x # xs)) = x # fst (select wv val (num - 1) xs)"
      "snd (select wv val num (x # xs)) = snd (select wv val (num - 1) xs)"
      using 3 by (auto split: prod.splits)
    have same: "watched_locks (set_lock l ((lock_at s2 l)\<lparr>waiters_queue := q'\<rparr>) s2) =
        watched_locks (set_lock l ((lock_at s l)\<lparr>waiters_queue := q'\<rparr>) s)" for q'
      unfolding lk by (simp add: set_lock_def s2(3) s1_def)
    show ?thesis using Cons.IH [OF l2 r w, of "num - 1"] s2(4,5) unfolding u sel same by fastforce
  qed
qed

text \<open>The whole of \<open>lock_wake_waiters\<close>.\<close>

lemma wake_waiters_rep:
  assumes "l < length (used (watched_locks s))" "queue_rep (lock_nodes s) (waiters_queue (lock_at s l)) xs"
    "\<forall>x \<in> set xs. waiting_client env s wv x"
  shows "\<exists>s' q'. lock_wake_waiters env l num val s = Some s' \<and>
    queue_rep (lock_nodes s') q' (snd (select wv val num xs)) \<and>
    sent s' = sent s @ map (\<lambda>x. (x, RespWait 1)) (fst (select wv val num xs)) \<and>
    watched_locks s' = watched_locks (set_lock l ((lock_at s l)\<lparr>nwaiter := nwaiter (lock_at s l) - num,
      max_wakeup_val := max (max_wakeup_val (lock_at s l)) val, waiters_queue := q'\<rparr>) s) \<and>
    (\<forall>v y. waiting_client env s v y \<longrightarrow> waiting_client env s' v y)"
proof -
  define lk where "lk = (lock_at s l)\<lparr>nwaiter := nwaiter (lock_at s l) - num,
    max_wakeup_val := max (max_wakeup_val (lock_at s l)) val\<rparr>"
  define s1 where "s1 = set_lock l lk s"
  have l1: "l < length (used (watched_locks s1))" "lock_at s1 l = lk" using assms(1) by (simp_all add: s1_def)
  have w1: "waiting_client env s1 v y = waiting_client env s v y" for v y
    by (simp add: waiting_client_def s1_def)
  have f: "first (waiters_queue lk) = hd_or xs None" using assms(2) by (simp add: lk_def queue_rep_def)
  have u: "lock_wake_waiters env l num val s = wake_loop env l (hd_or xs None) num val s1"
    unfolding f [symmetric] by (auto simp: lock_wake_waiters_def s1_def lk_def Let_def max_def)
  have r: "queue_rep (lock_nodes s1) (waiters_queue (lock_at s1 l)) ([] @ xs)"
    unfolding l1(2) using assms(2) by (simp add: s1_def lk_def)
  have a: "\<forall>x \<in> set xs. waiting_client env s1 wv x" using assms(3) by (simp add: w1)
  have same: "watched_locks (set_lock l ((lock_at s1 l)\<lparr>waiters_queue := q'\<rparr>) s1) =
     watched_locks (set_lock l (lk\<lparr>waiters_queue := q'\<rparr>) s)" for q'
    unfolding l1(2) by (simp add: s1_def set_lock_def)
  show ?thesis
    using wake_loop_rep [OF l1(1) r a, of num val] unfolding u same w1 by (simp add: lk_def s1_def)
qed

end
