(* ===== verification/Lockref_Sem.thy ===== *)
theory Lockref_Sem
  imports Lockref_Proofs
begin

text \<open>
  A lock of the referee server (\<^verbatim>\<open>src/src/lock-referee-server.c\<close>) as a counting semaphore with a first
  come, first served queue: the wait and wake requests of the clients, with the wakeup value 1 that
  the mutexes use, against the abstract semaphore. The run of the abstract semaphore and its
  consequences are proved once, for every implementation of the interface \<open>fifo_semaphore\<close>.
\<close>

section \<open>The abstract semaphore\<close>

text \<open>\<open>SemPost j n\<close>: the client \<open>j\<close> gives \<open>n\<close> units. The state is the waiting clients and the units left.\<close>

datatype sem_event = SemWait nodeid | SemPost nodeid nat

type_synonym sem_state = "nodeid list \<times> nat"

fun sem_next :: "sem_event \<Rightarrow> sem_state \<Rightarrow> sem_state" where
  "sem_next (SemWait i) (xs, p) = (if p = 0 then (xs @ [i], 0) else (xs, p - 1))"
| "sem_next (SemPost j n) (xs, p) = (drop n xs, p + (n - length xs))"

fun sem_woken :: "sem_event \<Rightarrow> sem_state \<Rightarrow> nodeid list" where
  "sem_woken (SemWait i) (xs, p) = (if p = 0 then [] else [i])"
| "sem_woken (SemPost j n) (xs, p) = take n xs"

text \<open>The requests the clients \<open>C\<close> can make: one that waits already does not wait a second time.\<close>

fun sem_ok :: "nodeid set \<Rightarrow> sem_event \<Rightarrow> sem_state \<Rightarrow> bool" where
  "sem_ok C (SemWait i) (xs, p) = (i \<in> C \<and> i \<notin> set xs)"
| "sem_ok C (SemPost j n) (xs, p) = (j \<in> C)"

fun sem_run_ok :: "nodeid set \<Rightarrow> sem_event list \<Rightarrow> sem_state \<Rightarrow> bool" where
  "sem_run_ok C [] st = True"
| "sem_run_ok C (e # es) st = (sem_ok C e st \<and> sem_run_ok C es (sem_next e st))"

fun arrivals :: "sem_event list \<Rightarrow> nodeid list" where
  "arrivals [] = []"
| "arrivals (SemWait i # es) = i # arrivals es"
| "arrivals (SemPost j n # es) = arrivals es"

fun posts :: "sem_event list \<Rightarrow> nat" where
  "posts [] = 0"
| "posts (SemWait i # es) = posts es"
| "posts (SemPost j n # es) = n + posts es"

section \<open>The interface\<close>

locale fifo_semaphore =
  fixes do_op :: "sem_event \<Rightarrow> 's \<Rightarrow> 's option"
    and rep :: "'s \<Rightarrow> sem_state \<Rightarrow> bool"
    and out :: "'s \<Rightarrow> nodeid list"
    and users :: "nodeid set"
  assumes step: "rep s st \<Longrightarrow> sem_ok users e st \<Longrightarrow>
      \<exists>s'. do_op e s = Some s' \<and> rep s' (sem_next e st) \<and> out s' = out s @ sem_woken e st"
    and wait_or_units: "rep s (xs, p) \<Longrightarrow> p = 0 \<or> xs = []"
begin

fun do_ops :: "sem_event list \<Rightarrow> 's \<Rightarrow> 's option" where
  "do_ops [] s = Some s"
| "do_ops (e # es) s = (case do_op e s of None \<Rightarrow> None | Some s' \<Rightarrow> do_ops es s')"

text \<open>The clients served are the first ones to arrive, one for each unit.\<close>

lemma run_fifo:
  assumes "rep s (xs, p)" "sem_run_ok users es (xs, p)"
  shows "\<exists>s'. do_ops es s = Some s' \<and> out s' = out s @ take (p + posts es) (xs @ arrivals es) \<and>
    rep s' (drop (p + posts es) (xs @ arrivals es), p + posts es - length (xs @ arrivals es))"
  using assms
proof (induction es arbitrary: s xs p)
  case Nil
  then show ?case using wait_or_units [OF Nil(1)] by auto
next
  case (Cons e es)
  have ok: "sem_ok users e (xs, p)" "sem_run_ok users es (sem_next e (xs, p))" using Cons.prems(2) by simp_all
  obtain s' where s': "do_op e s = Some s'" "rep s' (sem_next e (xs, p))" "out s' = out s @ sem_woken e (xs, p)"
    using step [OF Cons.prems(1) ok(1)] by blast
  obtain ys q where yq: "sem_next e (xs, p) = (ys, q)" by fastforce
  obtain s'' where s'': "do_ops es s' = Some s''" "out s'' = out s' @ take (q + posts es) (ys @ arrivals es)"
      "rep s'' (drop (q + posts es) (ys @ arrivals es), q + posts es - length (ys @ arrivals es))"
    using Cons.IH [of s' ys q] s'(2) ok(2) yq by auto
  have w: "p = 0 \<or> xs = []" by (rule wait_or_units [OF Cons.prems(1)])
  have "sem_woken e (xs, p) @ take (q + posts es) (ys @ arrivals es) = take (p + posts (e # es)) (xs @ arrivals (e # es))
    \<and> drop (q + posts es) (ys @ arrivals es) = drop (p + posts (e # es)) (xs @ arrivals (e # es))
    \<and> q + posts es - length (ys @ arrivals es) = p + posts (e # es) - length (xs @ arrivals (e # es))"
  proof (cases e)
    case (SemWait i)
    then show ?thesis using yq w by (cases p) (auto split: if_splits simp del: take_append drop_append)
  next
    case (SemPost j n)
    then have y: "ys = drop n xs" "q = p + (n - length xs)" using yq by auto
    consider "xs = []" | "p = 0" "n \<le> length xs" | "p = 0" "length xs < n" using w by linarith
    then show ?thesis
    proof cases
      case 1
      then show ?thesis using SemPost y by (simp add: add.assoc)
    next
      case 2
      then show ?thesis using SemPost y take_add [of n "posts es" "xs @ arrivals es"] by (simp add: add.commute)
    next
      case 3
      then have "n + posts es - length xs = n - length xs + posts es" by simp
      then show ?thesis using SemPost y 3 by simp
    qed
  qed
  then show ?case using s'(1,3) s'' by auto
qed

end

section \<open>The lock of the server is such a semaphore\<close>

text \<open>The value with which every waiter waits.\<close>

abbreviation one :: "nodeid \<Rightarrow> int" where "one \<equiv> \<lambda>_. 1"

lemma select_one: "0 \<le> n \<Longrightarrow> select one 1 n xs = (take (nat n) xs, drop (nat n) xs)"
proof (induction xs arbitrary: n)
  case (Cons x xs)
  then show ?case by (cases "n = 0") (auto simp: take_Cons' drop_Cons' nat_diff_distrib)
qed simp

text \<open>A client that is connected and can be written to.\<close>

definition alive :: "win_env \<Rightarrow> lockref_server \<Rightarrow> nodeid \<Rightarrow> bool" where
  "alive env s i \<longleftrightarrow> write_ok env i \<and> (\<exists>tc. clients s i = Some tc \<and> \<not> being_destroyed tc)"

lemma alive_waiting: "alive env s i \<longleftrightarrow> (\<exists>v. waiting_client env s v i)"
  by (auto simp: alive_def waiting_client_def)

fun sem_do :: "win_env \<Rightarrow> int \<Rightarrow> sem_event \<Rightarrow> lockref_server \<Rightarrow> lockref_server option" where
  "sem_do env key (SemWait i) s = handle_request env i (ReqWait key 1 0 \<lparr>tv_sec = 0, tv_nsec = 0\<rparr>) s"
| "sem_do env key (SemPost j n) s = handle_request env j (ReqWake (int n) key 1) s"

definition woken :: "lockref_server \<Rightarrow> nodeid list" where
  "woken s = map fst (filter (\<lambda>m. snd m = RespWait 1) (sent s))"

definition lock_rep :: "nat \<Rightarrow> win_env \<Rightarrow> nodeid set \<Rightarrow> lockref_server \<Rightarrow> sem_state \<Rightarrow> bool" where
  "lock_rep l env C s = (\<lambda>(xs, p).
     l < length (used (watched_locks s)) \<and>
     queue_rep (lock_nodes s) (waiters_queue (lock_at s l)) xs \<and>
     nwaiter (lock_at s l) = int (length xs) - int p \<and>
     (p = 0 \<or> xs = [] \<and> max_wakeup_val (lock_at s l) \<ge> 1) \<and>
     (\<forall>i \<in> set xs. waiting_client env s one i) \<and> (\<forall>i \<in> C. alive env s i))"

text \<open>The lock of the key is in the array, so that the search finds it.\<close>

definition sem_rep :: "win_env \<Rightarrow> nodeid set \<Rightarrow> int \<Rightarrow> lockref_server \<Rightarrow> sem_state \<Rightarrow> bool" where
  "sem_rep env C key s st \<longleftrightarrow>
     (\<exists>l. lock_array_get_lock (realloc_ok env) (watched_locks s) key True = (Some l, watched_locks s, 0) \<and>
        lock_rep l env C s st)"

lemma search_loop_keys:
  "map lk_key a = map lk_key b \<Longrightarrow> 0 \<le> l \<Longrightarrow> h < int (length a) \<Longrightarrow> search_loop a key l h = search_loop b key l h"
proof (induction a key l h rule: search_loop.induct)
  case (1 a key l h)
  define m where "m = (l + h) div 2"
  show ?case
  proof (cases "l \<le> h")
    case True
    then have m: "l \<le> m" "m \<le> h" "nat m < length a" using 1(4,5) by (auto simp: m_def)
    have e: "lk_key (a ! nat m) = lk_key (b ! nat m)" using m 1(3) by (metis nth_map map_eq_imp_length_eq)
    show ?thesis
      using 1(1) [OF True m_def] 1(2) [OF True m_def] m 1(3-5) e
      by (subst (1 2) search_loop.simps) (simp add: True Let_def m_def [symmetric])
  next
    case False
    then show ?thesis by (subst (1 2) search_loop.simps) simp
  qed
qed

lemma get_lock_found_keys:
  assumes "lock_array_get_lock ok a key True = (Some l, a, 0)" "map lk_key (used b) = map lk_key (used a)"
  shows "lock_array_get_lock ok b key True = (Some l, b, 0)"
proof -
  have len: "length (used b) = length (used a)" using assms(2) by (metis length_map)
  have s: "search_key_index (used b) (int (length (used b))) key = search_key_index (used a) (int (length (used a))) key"
    unfolding search_key_index_def len by (rule search_loop_keys) (use assms(2) len in auto)
  have f: "search_key_index (used a) (int (length (used a))) key AND KEY_NOTFOUND_FLAG = 0"
  proof (rule ccontr)
    assume "search_key_index (used a) (int (length (used a))) key AND KEY_NOTFOUND_FLAG \<noteq> 0"
    then have "length (used (fst (snd (lock_array_get_lock ok a key True)))) \<noteq> length (used a)
        \<or> fst (lock_array_get_lock ok a key True) = None"
      by (auto simp: lock_array_get_lock_def Let_def)
    then show False using assms(1) by simp
  qed
  then show ?thesis using assms(1) unfolding lock_array_get_lock_def s by (simp add: Let_def)
qed

lemma keys_set_lock:
  "lk_key lk = lk_key (lock_at s l) \<Longrightarrow> map lk_key (used (watched_locks (set_lock l lk s))) = map lk_key (used (watched_locks s))"
  by (simp add: set_lock_def map_update)
    (metis list_update_beyond list_update_id linorder_not_less length_map nth_map)

lemma sem_rep_keys:
  assumes "lock_array_get_lock (realloc_ok env) (watched_locks s) key True = (Some l, watched_locks s, 0)"
    "watched_locks s' = watched_locks (set_lock l lk s0)" "watched_locks s0 = watched_locks s"
    "lk_key lk = lk_key (lock_at s l)" "lock_rep l env C s' st"
  shows "sem_rep env C key s' st"
  unfolding sem_rep_def using assms get_lock_found_keys [OF assms(1), of "watched_locks s'"] keys_set_lock [of lk s0 l]
  by auto

text \<open>A wake request, for waiters with any wakeup values.\<close>

lemma handle_wake_rep:
  assumes "lock_array_get_lock (realloc_ok env) (watched_locks s) key True = (Some l, watched_locks s, 0)"
    "l < length (used (watched_locks s))" "queue_rep (lock_nodes s) (waiters_queue (lock_at s l)) xs"
    "\<forall>x \<in> set xs. waiting_client env s wv x" "alive env s j"
  shows "\<exists>s' q. handle_request env j (ReqWake num key val) s = Some s' \<and>
    queue_rep (lock_nodes s') q (snd (select wv val num xs)) \<and> woken s' = woken s @ fst (select wv val num xs) \<and>
    watched_locks s' = watched_locks (set_lock l ((lock_at s l)\<lparr>nwaiter := nwaiter (lock_at s l) - num,
      max_wakeup_val := max (max_wakeup_val (lock_at s l)) val, waiters_queue := q\<rparr>) s) \<and>
    (\<forall>v y. waiting_client env s v y \<longrightarrow> waiting_client env s' v y)"
proof -
  have g: "lockref_server_get_lock env s key True = (Some l, s)" using assms(1) by (simp add: lockref_server_get_lock_def)
  obtain s1 q where s1: "lock_wake_waiters env l num val s = Some s1"
      "queue_rep (lock_nodes s1) q (snd (select wv val num xs))"
      "sent s1 = sent s @ map (\<lambda>x. (x, RespWait 1)) (fst (select wv val num xs))"
      "watched_locks s1 = watched_locks (set_lock l ((lock_at s l)\<lparr>nwaiter := nwaiter (lock_at s l) - num,
        max_wakeup_val := max (max_wakeup_val (lock_at s l)) val, waiters_queue := q\<rparr>) s)"
      "\<forall>v y. waiting_client env s v y \<longrightarrow> waiting_client env s1 v y"
    using wake_waiters_rep [OF assms(2-4), of num val] by blast
  have "alive env s1 j" using assms(5) s1(5) unfolding alive_waiting by blast
  then obtain tc where tc: "clients s1 j = Some tc" "\<not> being_destroyed tc" "write_ok env j" by (auto simp: alive_def)
  define s2 where "s2 = set_client j (tc\<lparr>num_pending_request := num_pending_request tc + 1\<rparr>)
    (s1\<lparr>sent := sent s1 @ [(j, RespWake)]\<rparr>)"
  have d: "handle_request env j (ReqWake num key val) s = Some s2"
    using tc by (simp add: thread_client_handle_req_wake_def g s1(1) thread_client_queue_write_def s2_def)
  have w2: "waiting_client env s1 v y \<Longrightarrow> waiting_client env s2 v y" for v y
    using tc by (auto simp: waiting_client_def s2_def set_client_def)
  have w: "woken s2 = woken s @ fst (select wv val num xs)"
    by (simp add: woken_def s2_def s1(3) filter_map o_def)
  show ?thesis using d w w2 s1(2,4,5) by (intro exI [of _ s2] exI [of _ q]) (auto simp: s2_def)
qed

lemma sem_post_step:
  assumes "sem_rep env C key s (xs, p)" "j \<in> C"
  shows "\<exists>s'. sem_do env key (SemPost j n) s = Some s' \<and> sem_rep env C key s' (sem_next (SemPost j n) (xs, p)) \<and>
    woken s' = woken s @ sem_woken (SemPost j n) (xs, p)"
proof -
  obtain l where l: "lock_array_get_lock (realloc_ok env) (watched_locks s) key True = (Some l, watched_locks s, 0)"
      "lock_rep l env C s (xs, p)" using assms(1) by (auto simp: sem_rep_def)
  have r: "l < length (used (watched_locks s))" "queue_rep (lock_nodes s) (waiters_queue (lock_at s l)) xs"
      "\<forall>x \<in> set xs. waiting_client env s one x" "\<forall>i \<in> C. alive env s i"
      "nwaiter (lock_at s l) = int (length xs) - int p" "p = 0 \<or> xs = [] \<and> max_wakeup_val (lock_at s l) \<ge> 1"
    using l(2) by (simp_all add: lock_rep_def)
  obtain s1 q where s1: "handle_request env j (ReqWake (int n) key 1) s = Some s1" "queue_rep (lock_nodes s1) q (drop n xs)"
      "woken s1 = woken s @ take n xs"
      "watched_locks s1 = watched_locks (set_lock l ((lock_at s l)\<lparr>nwaiter := nwaiter (lock_at s l) - int n,
        max_wakeup_val := max (max_wakeup_val (lock_at s l)) 1, waiters_queue := q\<rparr>) s)"
      "\<forall>v y. waiting_client env s v y \<longrightarrow> waiting_client env s1 v y"
    using handle_wake_rep [OF l(1) r(1-3), of j "int n" 1] select_one [of "int n" xs] assms(2) r(4) by auto
  have lk: "lock_at s1 l = (lock_at s l)\<lparr>nwaiter := nwaiter (lock_at s l) - int n,
      max_wakeup_val := max (max_wakeup_val (lock_at s l)) 1, waiters_queue := q\<rparr>"
    "l < length (used (watched_locks s1))"
    unfolding s1(4) using r(1) by simp_all
  have wx: "\<forall>i \<in> set (drop n xs). waiting_client env s1 one i" using r(3) s1(5) by (meson in_set_dropD)
  have al: "\<forall>i \<in> C. alive env s1 i" using r(4) s1(5) unfolding alive_waiting by blast
  have "lock_rep l env C s1 (drop n xs, p + (n - length xs))"
    unfolding lock_rep_def using s1(2) r(5,6) al wx lk by auto
  then show ?thesis using s1(1,3) sem_rep_keys [OF l(1) s1(4) refl] by simp
qed

text \<open>A wait request: it is answered at once when units are left, and queued otherwise.\<close>

lemma add_waiter_blocks:
  assumes "l < length (used (watched_locks s))" "queue_rep (lock_nodes s) (waiters_queue (lock_at s l)) xs"
    "i \<notin> set xs" "clients s i = Some tc" "nwaiter (lock_at s l) \<ge> 0"
  shows "\<exists>s' q. lock_add_waiter env l i s = Some (True, s') \<and> queue_rep (lock_nodes s') q (xs @ [i]) \<and>
    watched_locks s' = watched_locks (set_lock l ((lock_at s l)\<lparr>nwaiter := nwaiter (lock_at s l) + 1, waiters_queue := q\<rparr>) s) \<and>
    clients s' = clients s \<and> sent s' = sent s"
proof -
  define lk where "lk = (lock_at s l)\<lparr>nwaiter := nwaiter (lock_at s l) + 1\<rparr>"
  define s1 where "s1 = set_lock l lk s"
  obtain q h where qh: "append_to_queue (waiters_queue lk) i (lock_nodes s1) = (q, h)" by fastforce
  define s2 where "s2 = set_lock l (lk\<lparr>waiters_queue := q\<rparr>) (s1\<lparr>lock_nodes := h\<rparr>)"
  have "lock_add_waiter env l i s = Some (True, s2)"
    using assms(4,5) qh by (simp add: lock_add_waiter_def lk_def s1_def s2_def Let_def)
  moreover have "queue_rep h q (xs @ [i])"
    using append_to_queue_rep(1) [OF _ assms(3) qh] assms(2) by (simp add: s1_def lk_def)
  moreover have "watched_locks s2 = watched_locks (set_lock l (lk\<lparr>waiters_queue := q\<rparr>) s)"
    by (simp add: s2_def s1_def set_lock_def)
  ultimately show ?thesis by (intro exI [of _ s2] exI [of _ q]) (simp add: s2_def s1_def lk_def)
qed

lemma add_waiter_rep:
  assumes "lock_rep l env C s (xs, p)" "i \<in> C" "i \<notin> set xs" "waiting_client env s one i"
  shows "\<exists>b s' lk. lock_add_waiter env l i s = Some (b, s') \<and> lock_rep l env C s' (sem_next (SemWait i) (xs, p)) \<and>
    watched_locks s' = watched_locks (set_lock l lk s) \<and> lk_key lk = lk_key (lock_at s l) \<and>
    woken s' = woken s @ sem_woken (SemWait i) (xs, p)"
proof -
  define lk where "lk = (lock_at s l)\<lparr>nwaiter := nwaiter (lock_at s l) + 1\<rparr>"
  define s1 where "s1 = set_lock l lk s"
  have r: "l < length (used (watched_locks s))" "queue_rep (lock_nodes s) (waiters_queue (lock_at s l)) xs"
      "\<forall>x \<in> set xs. waiting_client env s one x" "\<forall>i \<in> C. alive env s i"
      "nwaiter (lock_at s l) = int (length xs) - int p" "p = 0 \<or> xs = [] \<and> max_wakeup_val (lock_at s l) \<ge> 1"
    using assms(1) by (simp_all add: lock_rep_def)
  obtain tc where tc: "clients s i = Some tc" "wakeup_val tc = 1" using assms(4) by (auto simp: waiting_client_def)
  have w1: "waiting_client env s1 v y \<longleftrightarrow> waiting_client env s v y" for v y
    by (simp add: waiting_client_def s1_def)
  have l1: "lock_at s1 l = lk" "l < length (used (watched_locks s1))" using r(1) by (simp_all add: s1_def)
  show ?thesis
  proof (cases "p = 0")
    case True
    then obtain s2 q where s2: "lock_add_waiter env l i s = Some (True, s2)" "queue_rep (lock_nodes s2) q (xs @ [i])"
        "watched_locks s2 = watched_locks (set_lock l ((lock_at s l)\<lparr>nwaiter := nwaiter (lock_at s l) + 1, waiters_queue := q\<rparr>) s)"
        "clients s2 = clients s" "sent s2 = sent s"
      using add_waiter_blocks [OF r(1,2) assms(3) tc(1), of env] r(5) by auto
    have "waiting_client env s2 v y \<longleftrightarrow> waiting_client env s v y" for v y
      by (simp add: waiting_client_def s2(4))
    then have "lock_rep l env C s2 (xs @ [i], 0)"
      using True r s2(2,3) assms(4) by (simp add: lock_rep_def alive_waiting)
    then show ?thesis using s2(1,3,5) True
      by (intro exI [of _ True] exI [of _ s2]) (auto simp: woken_def)
  next
    case False
    obtain s2 where s2: "thread_client_wakeup env i False s1 = Some s2" "lock_nodes s2 = lock_nodes s1"
        "watched_locks s2 = watched_locks s1" "sent s2 = sent s @ [(i, RespWait 1)]"
        "\<And>v y. waiting_client env s v y \<Longrightarrow> waiting_client env s2 v y"
      using wakeup_writes [of env s1 one i False] w1 assms(4) by (auto simp: s1_def)
    have a: "lock_add_waiter env l i s = Some (False, s2)"
      using False r(5,6) tc s2(1) by (simp add: lock_add_waiter_def lk_def s1_def Let_def)
    have "\<forall>i \<in> C. alive env s2 i" using r(4) s2(5) unfolding alive_waiting by blast
    then have "lock_rep l env C s2 (xs, p - 1)"
      using False r(2,5,6) s2(2,3) l1 by (simp add: lock_rep_def s1_def lk_def)
    then show ?thesis using a False s2(3,4)
      by (intro exI [of _ False] exI [of _ s2] exI [of _ lk]) (simp add: s1_def lk_def woken_def)
  qed
qed

lemma sem_wait_step:
  assumes "sem_rep env C key s (xs, p)" "i \<in> C" "i \<notin> set xs"
  shows "\<exists>s'. sem_do env key (SemWait i) s = Some s' \<and> sem_rep env C key s' (sem_next (SemWait i) (xs, p)) \<and>
    woken s' = woken s @ sem_woken (SemWait i) (xs, p)"
proof -
  obtain l where l: "lock_array_get_lock (realloc_ok env) (watched_locks s) key True = (Some l, watched_locks s, 0)"
      "lock_rep l env C s (xs, p)" using assms(1) by (auto simp: sem_rep_def)
  obtain tc where tc: "clients s i = Some tc" "\<not> being_destroyed tc" "write_ok env i"
    using l(2) assms(2) by (auto simp: lock_rep_def alive_def)
  define s1 where "s1 = set_client i (tc\<lparr>wakeup_val := 1\<rparr>) s"
  have g: "lockref_server_get_lock env s1 key True = (Some l, s1)"
    using l(1) by (simp add: lockref_server_get_lock_def s1_def)
  have w: "waiting_client env s one y \<Longrightarrow> waiting_client env s1 one y" "alive env s y \<Longrightarrow> alive env s1 y" for y
    using tc by (auto simp: waiting_client_def alive_def s1_def set_client_def)
  have r1: "lock_rep l env C s1 (xs, p)" using l(2) w by (auto simp: lock_rep_def s1_def)
  have wi: "waiting_client env s1 one i" using tc by (simp add: waiting_client_def s1_def set_client_def)
  obtain b s2 lk where s2: "lock_add_waiter env l i s1 = Some (b, s2)"
      "lock_rep l env C s2 (sem_next (SemWait i) (xs, p))" "watched_locks s2 = watched_locks (set_lock l lk s1)"
      "lk_key lk = lk_key (lock_at s1 l)" "woken s2 = woken s1 @ sem_woken (SemWait i) (xs, p)"
    using add_waiter_rep [OF r1 assms(2,3) wi] by blast
  have "sem_do env key (SemWait i) s = Some s2"
    using tc s2(1) g by (simp add: thread_client_handle_req_wait_def s1_def [symmetric] lockref_server_get_timeout_list_def)
  moreover have "sem_rep env C key s2 (sem_next (SemWait i) (xs, p))"
    using sem_rep_keys [OF l(1) s2(3) _ _ s2(2)] s2(4) by (simp add: s1_def)
  ultimately show ?thesis using s2(5) by (simp add: woken_def s1_def)
qed

interpretation srv: fifo_semaphore "sem_do env key" "sem_rep env C key" woken C for env key C
proof (unfold_locales, goal_cases)
  case (1 s st e)
  obtain xs p where "st = (xs, p)" by fastforce
  then show ?case using 1 sem_wait_step [of env C key s xs p] sem_post_step [of env C key s xs p] by (cases e) auto
next
  case (2 s xs p)
  then show ?case by (auto simp: sem_rep_def lock_rep_def)
qed

section \<open>Properties\<close>

text \<open>The requests of the clients on one lock, in the order in which the server handles them.\<close>

fun sem_do_all :: "win_env \<Rightarrow> int \<Rightarrow> sem_event list \<Rightarrow> lockref_server \<Rightarrow> lockref_server option" where
  "sem_do_all env key [] s = Some s"
| "sem_do_all env key (e # es) s = (case sem_do env key e s of None \<Rightarrow> None | Some s' \<Rightarrow> sem_do_all env key es s')"

lemma sem_do_all_ops: "sem_do_all env key es s = srv.do_ops env key es s"
  by (induction es arbitrary: s) (auto split: option.split)

text \<open>
  C18. First come, first served, and no lost wakeup. Whatever the order in which clients ask to wait
  on a lock and to wake its waiters, the server answers every request, and the clients it releases
  are the first ones to have waited, in this order, as many as there were units: a wake request
  that finds no waiter is kept for the next one, and none is counted twice.
\<close>
theorem server_lock_fifo:
  assumes "sem_rep env C key s (xs, p)" "sem_run_ok C es (xs, p)"
  shows "\<exists>s'. sem_do_all env key es s = Some s' \<and>
    woken s' = woken s @ take (p + posts es) (xs @ arrivals es) \<and>
    sem_rep env C key s' (drop (p + posts es) (xs @ arrivals es), p + posts es - length (xs @ arrivals es))"
  unfolding sem_do_all_ops by (rule srv.run_fifo [OF assms])

definition fresh_client :: thread_client where
  "fresh_client = \<lparr>num_pending_request = 1, being_destroyed = False, wakeup_val = 0, waiting_lock_key = 0,
     tc_robust_data = None, wait_timeout = \<lparr>tv_sec = 0, tv_nsec = 0\<rparr>\<rparr>"

definition one_lock :: lockref_server where
  "one_lock = server_init\<lparr>watched_locks := \<lparr>used = [lock_init 5], num_max = 128\<rparr>,
     clients := [2 \<mapsto> fresh_client, 3 \<mapsto> fresh_client, 4 \<mapsto> fresh_client]\<rparr>"

lemma one_lock_rep: "sem_rep win_ok {2, 3, 4} 5 one_lock ([], 0)"
proof -
  have "search_loop [lock_init 5] 5 0 0 = 0" by (subst search_loop.simps) (simp add: lock_init_def)
  then have "lock_array_get_lock True (watched_locks one_lock) 5 True = (Some 0, watched_locks one_lock, 0)"
    by (simp add: lock_array_get_lock_def one_lock_def search_key_index_def)
  then show ?thesis unfolding sem_rep_def
    by (intro exI [of _ 0]) (simp add: lock_rep_def one_lock_def queue_rep_def lock_init_def alive_def win_ok_def fresh_client_def)
qed

theorem server_lock_fifo_witness:
  "\<exists>s'. sem_do_all win_ok 5 [SemWait 3, SemWait 2, SemPost 4 1, SemPost 4 2, SemWait 4] one_lock = Some s' \<and>
    woken s' = [3, 2, 4]"
proof -
  have "woken one_lock = []" by (simp add: woken_def one_lock_def server_init_def)
  then show ?thesis
    using server_lock_fifo [OF one_lock_rep, of "[SemWait 3, SemWait 2, SemPost 4 1, SemPost 4 2, SemWait 4]"] by auto
qed

text \<open>
  A timed wait that expires. In every state the server can reach, when the first client of a
  list of timed waits is late and the key 0 is not in use, the update of the list looks up the lock
  of the key 0, finds none and dereferences the null pointer: the key of the lock a client waits on
  is never recorded.
\<close>
theorem timeout_list_update_crash:
  assumes "srv_reachable s" "nxt (timeout_nodes s head) = Some i" "clients s i = Some tc"
    "mm_timediff_ns (wait_timeout tc) now < 0" "0 \<notin> lk_key ` set (used (watched_locks s))"
  shows "timeout_list_update env head now s = None"
proof -
  have k: "waiting_lock_key tc = 0" using srv_reachable_no_key [OF assms(1)] no_key_at assms(3) by blast
  have "fst (lockref_server_get_lock env s 0 False) = None" using get_lock_absent [OF assms(5)] .
  then have "thread_client_process_timeout env i s = None"
    using assms(3) k by (auto simp: thread_client_process_timeout_def split: prod.splits)
  then show ?thesis
    unfolding timeout_list_update_def using assms(2-4) by (subst timeout_update_loop.simps) simp
qed

definition timed_wait :: "lockref_server option" where
  "timed_wait = do { s \<leftarrow> srv_handle win_ok (Connected 2) server_init;
     srv_handle win_ok (ReadDone 2 (Some (ReqWait 5 1 4 \<lparr>tv_sec = 10, tv_nsec = 0\<rparr>))) s }"

declare timeout_position.simps [code]

lemma timed_wait_state:
  "(case timed_wait of None \<Rightarrow> False | Some s \<Rightarrow> nxt (timeout_nodes s 0) = Some 2 \<and>
     map_option (\<lambda>tc. wait_timeout tc) (clients s 2) = Some \<lparr>tv_sec = 10, tv_nsec = 0\<rparr> \<and>
     map lk_key (used (watched_locks s)) = [5])"
  by code_simp

theorem timeout_list_update_crash_witness:
  "\<exists>s. timed_wait = Some s \<and> srv_reachable s \<and> timeout_list_update win_ok 0 \<lparr>tv_sec = 20, tv_nsec = 0\<rparr> s = None"
proof -
  obtain s where s: "timed_wait = Some s" "nxt (timeout_nodes s 0) = Some 2"
      "map_option (\<lambda>tc. wait_timeout tc) (clients s 2) = Some \<lparr>tv_sec = 10, tv_nsec = 0\<rparr>"
      "map lk_key (used (watched_locks s)) = [5]"
    using timed_wait_state by (auto split: option.splits)
  obtain tc where tc: "clients s 2 = Some tc" "wait_timeout tc = \<lparr>tv_sec = 10, tv_nsec = 0\<rparr>" using s(3) by auto
  have r: "srv_reachable s"
    using s(1) unfolding timed_wait_def 
    by (elim bind_eq_Some_conv [THEN iffD1, elim_format] exE conjE) (rule srv_next [OF srv_next [OF srv_start]])
  have "0 \<notin> lk_key ` set (used (watched_locks s))" using s(4) by (metis list.set_map empty_iff insert_iff list.set(1,2) zero_neq_numeral)
  moreover have "mm_timediff_ns (wait_timeout tc) \<lparr>tv_sec = 20, tv_nsec = 0\<rparr> < 0" unfolding tc(2) by code_simp
  ultimately show ?thesis using timeout_list_update_crash [OF r s(2) tc(1)] s(1) r by blast
qed

end
