(* ===== verification/Pshared_Cond.thy ===== *)
theory Pshared_Cond
  imports Pshared_Client Lockref_Sem
begin

unbundle bit_operations_syntax

text \<open>
  Process shared condition variables (\<^verbatim>\<open>src/src/thread-win32.c\<close>, lines 643 to 776) on top of the client of the
  lock referee and of the server itself. A condition variable numbers its waiters; a signal wakes
  a waiter whose number is not above its own. The two sequence numbers are 64-bit in the code and
  unbounded here.
\<close>

section \<open>Operations\<close>

record mm_thr_cond_pshared =
  cond_key :: int
  waiter_seq :: int
  wakeup_seq :: int

definition WAITCLK_FLAG_REALTIME :: int where
  "WAITCLK_FLAG_REALTIME = push_bit 2 1"

text \<open>The condition and the mutex are in the world of the client too.\<close>

record 'w cond_env = "'w client_env" +
  get_cond :: "'w \<Rightarrow> mm_thr_cond_pshared"
  put_cond :: "mm_thr_cond_pshared \<Rightarrow> 'w \<Rightarrow> 'w"
  mutex_unlock :: "'w \<Rightarrow> (retcode \<times> 'w) option"
  mutex_lock :: "'w \<Rightarrow> (retcode \<times> 'w) option"

definition cond_timeout :: "mm_timespec option \<Rightarrow> lock_timeout option" where
  "cond_timeout abstime = map_option (\<lambda>t. \<lparr>clk_flags = WAITCLK_FLAG_REALTIME, ts = t\<rparr>) abstime"

text \<open>The atomic increments of the two sequences: the previous number and the new condition.\<close>

definition take_waiter_seq :: "mm_thr_cond_pshared \<Rightarrow> int \<times> mm_thr_cond_pshared" where
  "take_waiter_seq cond = (waiter_seq cond, cond\<lparr>waiter_seq := waiter_seq cond + 1\<rparr>)"

definition take_wakeup_seq :: "int \<Rightarrow> mm_thr_cond_pshared \<Rightarrow> int \<times> mm_thr_cond_pshared" where
  "take_wakeup_seq n cond = (wakeup_seq cond, cond\<lparr>wakeup_seq := wakeup_seq cond + n\<rparr>)"

definition pshared_cond_wait :: "('w, 'e) cond_env_scheme \<Rightarrow> mm_timespec option \<Rightarrow> 'w \<Rightarrow> (retcode \<times> 'w) option" where
  "pshared_cond_wait env abstime w =
     (let (wakeup_val, cond) = take_waiter_seq (get_cond env w)
      in do { (_, w) \<leftarrow> mutex_unlock env (put_cond env cond w);
              (wait_ret, w) \<leftarrow>
                pshared_wait_on_lock (client_env.truncate env) (cond_key cond) wakeup_val (cond_timeout abstime) w;
              (ret, w) \<leftarrow> mutex_lock env w;
              Some (if abstime \<noteq> None \<and> ret = None then wait_ret else ret, w) })"

definition pshared_cond_signal :: "('w, 'e) cond_env_scheme \<Rightarrow> 'w \<Rightarrow> 'w option" where
  "pshared_cond_signal env w =
     (let num_waiter = waiter_seq (get_cond env w) - wakeup_seq (get_cond env w)
      in if num_waiter \<le> 0 then Some w
         else
           let (wakeup_val, cond) = take_wakeup_seq 1 (get_cond env w)
           in pshared_wake_lock (client_env.truncate env) (cond_key cond) wakeup_val 1 (put_cond env cond w))"

definition pshared_cond_broadcast :: "('w, 'e) cond_env_scheme \<Rightarrow> 'w \<Rightarrow> 'w option" where
  "pshared_cond_broadcast env w =
     (let num_waiter = waiter_seq (get_cond env w) - wakeup_seq (get_cond env w)
      in if num_waiter \<le> 0 then Some w
         else
           let (wakeup_val, cond) = take_wakeup_seq num_waiter (get_cond env w);
               wakeup_val = wakeup_val + num_waiter - 1
           in pshared_wake_lock (client_env.truncate env) (cond_key cond) wakeup_val num_waiter (put_cond env cond w))"

text \<open>\<open>pshared_cond_init\<close> sets the key only; the sequence numbers keep what the memory held.\<close>

definition pshared_cond_init ::
  "('w, 'e) cond_env_scheme \<Rightarrow> lockref_connection \<Rightarrow> 'w \<Rightarrow> (lockref_connection \<times> 'w) option" where
  "pshared_cond_init env conn w =
     do { (key, conn, w) \<leftarrow> pshared_init_lock (client_env.truncate env) conn w;
          Some (conn, put_cond env ((get_cond env w)\<lparr>cond_key := key\<rparr>) w) }"

section \<open>Threads, a condition and the server\<close>

text \<open>
  The world of the clients: the condition and the server. A request of client \<open>j\<close> is handled by the
  server and its answer is the last message that the server has sent to \<open>j\<close>.
\<close>

type_synonym cond_world = "mm_thr_cond_pshared \<times> lockref_server"

definition transact_with :: "win_env \<Rightarrow> nodeid \<Rightarrow> req_msg \<Rightarrow> cond_world \<Rightarrow> (resp_msg \<times> cond_world) option" where
  "transact_with wenv j req w =
     (case handle_request wenv j req (snd w) of
        None \<Rightarrow> None
      | Some s \<Rightarrow> Some (snd (last (filter (\<lambda>m. fst m = j) (sent s))), (fst w, s)))"

definition thread_env :: "win_env \<Rightarrow> nodeid \<Rightarrow> cond_world cond_env" where
  "thread_env wenv j = \<lparr>TransactNamedPipe = transact_with wenv j, WaitNamedPipe = (\<lambda>w. (True, w)),
     try_spawn_lockserver = (\<lambda>w. w), open_pipe = (\<lambda>w. (True, w)), map_robust = (\<lambda>_ _. None),
     map_job = (\<lambda>_ _. []), end_job = (\<lambda>_ w. w), lock_val = (\<lambda>_. 0), store_lock = (\<lambda>_ w. w), get_tid = of_nat j,
     get_cond = fst, put_cond = (\<lambda>c w. (c, snd w)), mutex_unlock = (\<lambda>w. Some (None, w)),
     mutex_lock = (\<lambda>w. Some (None, w))\<rparr>"

lemma thread_env_simps [simp]:
  "get_cond (thread_env wenv j) = fst" "put_cond (thread_env wenv j) c w = (c, snd w)"
  by (simp_all add: thread_env_def)

text \<open>
  What the threads do. \<open>CondEnter i\<close> is a wait up to the point where the request has been handled and
  the thread sleeps.
\<close>

datatype cond_event = CondEnter nodeid | CondSignal nodeid | CondBroadcast nodeid

definition cond_request :: "win_env \<Rightarrow> nodeid \<Rightarrow> int \<Rightarrow> cond_world \<Rightarrow> cond_world option" where
  "cond_request wenv i val w =
     map_option (\<lambda>s. (fst w, s)) (handle_request wenv i (wait_request (cond_key (fst w)) val None) (snd w))"

fun cond_do :: "win_env \<Rightarrow> cond_event \<Rightarrow> cond_world \<Rightarrow> cond_world option" where
  "cond_do wenv (CondEnter i) w =
     (let (wakeup_val, cond) = take_waiter_seq (fst w) in cond_request wenv i wakeup_val (cond, snd w))"
| "cond_do wenv (CondSignal j) w = pshared_cond_signal (thread_env wenv j) w"
| "cond_do wenv (CondBroadcast j) w = pshared_cond_broadcast (thread_env wenv j) w"

text \<open>The abstract condition variable: its waiters, in order.\<close>

fun cv_next :: "cond_event \<Rightarrow> nodeid list \<Rightarrow> nodeid list" where
  "cv_next (CondEnter i) xs = xs @ [i]"
| "cv_next (CondSignal j) xs = drop 1 xs"
| "cv_next (CondBroadcast j) xs = []"

fun cv_woken :: "cond_event \<Rightarrow> nodeid list \<Rightarrow> nodeid list" where
  "cv_woken (CondEnter i) xs = []"
| "cv_woken (CondSignal j) xs = take 1 xs"
| "cv_woken (CondBroadcast j) xs = xs"

fun cv_ok :: "nodeid set \<Rightarrow> cond_event \<Rightarrow> nodeid list \<Rightarrow> bool" where
  "cv_ok C (CondEnter i) xs = (i \<in> C \<and> i \<notin> set xs)"
| "cv_ok C (CondSignal j) xs = (j \<in> C)"
| "cv_ok C (CondBroadcast j) xs = (j \<in> C)"

definition cond_rep :: "win_env \<Rightarrow> nodeid set \<Rightarrow> cond_world \<Rightarrow> nodeid list \<Rightarrow> bool" where
  "cond_rep wenv C w xs \<longleftrightarrow> (\<exists>l wv.
     lock_array_get_lock (realloc_ok wenv) (watched_locks (snd w)) (cond_key (fst w)) True
       = (Some l, watched_locks (snd w), 0) \<and>
     l < length (used (watched_locks (snd w))) \<and>
     queue_rep (lock_nodes (snd w)) (waiters_queue (lock_at (snd w) l)) xs \<and>
     nwaiter (lock_at (snd w) l) = int (length xs) \<and>
     waiter_seq (fst w) = wakeup_seq (fst w) + int (length xs) \<and>
     (\<forall>k < length xs. wv (xs ! k) = wakeup_seq (fst w) + int k \<and> waiting_client wenv (snd w) wv (xs ! k)) \<and>
     (\<forall>i \<in> C. alive wenv (snd w) i))"

text \<open>Which waiters a request selects, when their numbers grow along the queue.\<close>

lemma select_first:
  "(\<And>k. k < length xs \<Longrightarrow> wv (xs ! k) = b + int k) \<Longrightarrow> 0 \<le> n \<Longrightarrow> n \<le> int (length xs) \<Longrightarrow>
     select wv (b + n - 1) n xs = (take (nat n) xs, drop (nat n) xs)"
proof (induction xs arbitrary: b n)
  case (Cons x xs)
  show ?case
  proof (cases "n = 0")
    case False
    have "wv (xs ! k) = (b + 1) + int k" if "k < length xs" for k
      using Cons.prems(1) [of "Suc k"] that by simp
    then have "select wv ((b + 1) + (n - 1) - 1) (n - 1) xs = (take (nat (n - 1)) xs, drop (nat (n - 1)) xs)"
      using Cons.IH [of "b + 1" "n - 1"] Cons.prems(2,3) False by simp
    moreover have "wv x = b" using Cons.prems(1) [of 0] by simp
    moreover have "nat n = Suc (nat (n - 1))" using Cons.prems(2) False by simp
    ultimately show ?thesis using Cons.prems(2) False by simp
  qed simp
qed simp

lemma cond_wake_step:
  assumes "cond_rep wenv C (c, s) xs" "j \<in> C" "0 \<le> n" "n \<le> int (length xs)"
  shows "\<exists>s'. handle_request wenv j (ReqWake n (cond_key c) (wakeup_seq c + n - 1)) s = Some s' \<and>
    cond_rep wenv C (c\<lparr>wakeup_seq := wakeup_seq c + n\<rparr>, s') (drop (nat n) xs) \<and> woken s' = woken s @ take (nat n) xs"
proof -
  obtain l wv where r: "lock_array_get_lock (realloc_ok wenv) (watched_locks s) (cond_key c) True = (Some l, watched_locks s, 0)"
      "l < length (used (watched_locks s))" "queue_rep (lock_nodes s) (waiters_queue (lock_at s l)) xs"
      "nwaiter (lock_at s l) = int (length xs)" "waiter_seq c = wakeup_seq c + int (length xs)"
      "\<And>k. k < length xs \<Longrightarrow> wv (xs ! k) = wakeup_seq c + int k"
      "\<And>k. k < length xs \<Longrightarrow> waiting_client wenv s wv (xs ! k)" "\<forall>i \<in> C. alive wenv s i"
    using assms(1) unfolding cond_rep_def by auto
  have w: "\<forall>x \<in> set xs. waiting_client wenv s wv x" using r(7) by (auto simp: in_set_conv_nth)
  have al: "alive wenv s j" using r(8) assms(2) by blast
  have sel: "select wv (wakeup_seq c + n - 1) n xs = (take (nat n) xs, drop (nat n) xs)"
    using select_first r(6) assms(3,4) by blast
  obtain s' q where s': "handle_request wenv j (ReqWake n (cond_key c) (wakeup_seq c + n - 1)) s = Some s'"
      "queue_rep (lock_nodes s') q (drop (nat n) xs)" "woken s' = woken s @ take (nat n) xs"
      "watched_locks s' = watched_locks (set_lock l ((lock_at s l)\<lparr>nwaiter := nwaiter (lock_at s l) - n,
        max_wakeup_val := max (max_wakeup_val (lock_at s l)) (wakeup_seq c + n - 1), waiters_queue := q\<rparr>) s)"
      "\<forall>v y. waiting_client wenv s v y \<longrightarrow> waiting_client wenv s' v y"
    using handle_wake_rep [OF r(1-3) w al, of n "wakeup_seq c + n - 1"] unfolding sel fst_conv snd_conv by blast
  have g: "lock_array_get_lock (realloc_ok wenv) (watched_locks s') (cond_key c) True = (Some l, watched_locks s', 0)"
    by (rule get_lock_found_keys [OF r(1)]) (simp add: s'(4) keys_set_lock)
  have lk: "lock_at s' l = (lock_at s l)\<lparr>nwaiter := nwaiter (lock_at s l) - n,
        max_wakeup_val := max (max_wakeup_val (lock_at s l)) (wakeup_seq c + n - 1), waiters_queue := q\<rparr>"
      "l < length (used (watched_locks s'))" unfolding s'(4) using r(2) by simp_all
  have al': "\<forall>i \<in> C. alive wenv s' i" using r(8) s'(5) unfolding alive_waiting by blast
  have "cond_rep wenv C (c\<lparr>wakeup_seq := wakeup_seq c + n\<rparr>, s') (drop (nat n) xs)"
    unfolding cond_rep_def
    using g lk s'(2,5) r(4-7) al' assms(3,4) by (intro exI [of _ l] exI [of _ wv]) auto
  then show ?thesis using s'(1,3) by blast
qed

lemma wake_lock_world:
  "handle_request wenv j (ReqWake n key val) s = Some s' \<Longrightarrow>
     pshared_wake_lock (client_env.truncate (thread_env wenv j)) key val n (c, s) = Some (c, s')"
  by (simp add: pshared_wake_lock_def thread_env_def client_env.truncate_def transact_with_def)

lemma cond_enter_step:
  assumes "cond_rep wenv C (c, s) xs" "i \<in> C" "i \<notin> set xs"
  shows "\<exists>w'. cond_do wenv (CondEnter i) (c, s) = Some w' \<and> cond_rep wenv C w' (xs @ [i]) \<and> woken (snd w') = woken s"
proof -
  obtain l wv where r: "lock_array_get_lock (realloc_ok wenv) (watched_locks s) (cond_key c) True = (Some l, watched_locks s, 0)"
      "l < length (used (watched_locks s))" "queue_rep (lock_nodes s) (waiters_queue (lock_at s l)) xs"
      "nwaiter (lock_at s l) = int (length xs)" "waiter_seq c = wakeup_seq c + int (length xs)"
      "\<And>k. k < length xs \<Longrightarrow> wv (xs ! k) = wakeup_seq c + int k"
      "\<And>k. k < length xs \<Longrightarrow> waiting_client wenv s wv (xs ! k)" "\<forall>i \<in> C. alive wenv s i"
    using assms(1) unfolding cond_rep_def by auto
  obtain tc where tc: "clients s i = Some tc" "\<not> being_destroyed tc" "write_ok wenv i"
    using r(8) assms(2) by (auto simp: alive_def)
  define s1 where "s1 = set_client i (tc\<lparr>wakeup_val := waiter_seq c\<rparr>) s"
  have g: "lockref_server_get_lock wenv s1 (cond_key c) True = (Some l, s1)"
    using r(1) by (simp add: lockref_server_get_lock_def s1_def)
  obtain s2 q where s2: "lock_add_waiter wenv l i s1 = Some (True, s2)" "queue_rep (lock_nodes s2) q (xs @ [i])"
      "watched_locks s2 = watched_locks (set_lock l ((lock_at s1 l)\<lparr>nwaiter := nwaiter (lock_at s1 l) + 1, waiters_queue := q\<rparr>) s1)"
      "clients s2 = clients s1" "sent s2 = sent s1"
    using add_waiter_blocks [of l s1 xs i "tc\<lparr>wakeup_val := waiter_seq c\<rparr>" wenv] r(2-4) assms(3)
    by (auto simp: s1_def)
  define c' where "c' = c\<lparr>waiter_seq := waiter_seq c + 1\<rparr>"
  have d: "cond_do wenv (CondEnter i) (c, s) = Some (c', s2)"
    using tc g s2(1) by (simp add: take_waiter_seq_def cond_request_def wait_request_def c'_def s1_def [symmetric]
        thread_client_handle_req_wait_def lockref_server_get_timeout_list_def)
  have lk: "lock_at s2 l = (lock_at s l)\<lparr>nwaiter := nwaiter (lock_at s l) + 1, waiters_queue := q\<rparr>"
      "l < length (used (watched_locks s2))" unfolding s2(3) using r(2) by (simp_all add: s1_def)
  have k: "map lk_key (used (watched_locks s2)) = map lk_key (used (watched_locks s))"
    by (simp add: s2(3) keys_set_lock) (simp add: s1_def)
  have g2: "lock_array_get_lock (realloc_ok wenv) (watched_locks s2) (cond_key c) True = (Some l, watched_locks s2, 0)"
    by (rule get_lock_found_keys [OF r(1) k])
  let ?wv = "wv(i := waiter_seq c)"
  have ne: "xs ! k \<noteq> i" if "k < length xs" for k using assms(3) that by (metis nth_mem)
  have "waiting_client wenv s2 ?wv (xs ! k)" if "k < length xs" for k
    using r(7) [OF that] ne [OF that] by (simp add: waiting_client_def s2(4) s1_def)
  moreover have "waiting_client wenv s2 ?wv i" using tc by (simp add: waiting_client_def s2(4) s1_def)
  ultimately have w: "\<forall>k < length (xs @ [i]). ?wv ((xs @ [i]) ! k) = wakeup_seq c + int k \<and>
      waiting_client wenv s2 ?wv ((xs @ [i]) ! k)"
    using r(5,6) ne by (auto simp: nth_append less_Suc_eq)
  have al: "\<forall>i \<in> C. alive wenv s2 i" using r(8) tc by (auto simp: alive_def s2(4) s1_def)
  have "cond_rep wenv C (c', s2) (xs @ [i])"
    unfolding cond_rep_def using g2 lk s2(2) r(4,5) w al
    by (intro exI [of _ l] exI [of _ ?wv]) (simp add: c'_def)
  then show ?thesis using d s2(5) by (simp add: woken_def s1_def)
qed

lemma cond_step:
  assumes "cond_rep wenv C w xs" "cv_ok C e xs"
  shows "\<exists>w'. cond_do wenv e w = Some w' \<and> cond_rep wenv C w' (cv_next e xs) \<and>
    woken (snd w') = woken (snd w) @ cv_woken e xs"
proof -
  obtain c s where w: "w = (c, s)" by fastforce
  have num: "waiter_seq c - wakeup_seq c = int (length xs)" using assms(1) by (auto simp: cond_rep_def w)
  show ?thesis
  proof (cases e)
    case (CondEnter i)
    then show ?thesis using cond_enter_step [of wenv C c s xs i] assms w by auto
  next
    case (CondSignal j)
    show ?thesis
    proof (cases "xs = []")
      case True
      then show ?thesis using CondSignal num assms(1) by (simp add: pshared_cond_signal_def w)
    next
      case False
      then have "1 \<le> int (length xs)" by (cases xs) auto
      then obtain s' where s': "handle_request wenv j (ReqWake 1 (cond_key c) (wakeup_seq c + 1 - 1)) s = Some s'"
          "cond_rep wenv C (c\<lparr>wakeup_seq := wakeup_seq c + 1\<rparr>, s') (drop 1 xs)" "woken s' = woken s @ take 1 xs"
        using cond_wake_step [of wenv C c s xs j 1] assms CondSignal w by auto
      have e: "cond_do wenv e w = pshared_wake_lock (client_env.truncate (thread_env wenv j)) (cond_key c) (wakeup_seq c) 1
          (c\<lparr>wakeup_seq := wakeup_seq c + 1\<rparr>, s)"
        using num \<open>1 \<le> int (length xs)\<close> unfolding CondSignal
        by (auto simp: pshared_cond_signal_def take_wakeup_seq_def w)
      show ?thesis using e wake_lock_world [of wenv j 1 "cond_key c" "wakeup_seq c" s s'] s' CondSignal w by simp
    qed
  next
    case (CondBroadcast j)
    show ?thesis
    proof (cases "xs = []")
      case True
      then show ?thesis using CondBroadcast num assms(1) by (simp add: pshared_cond_broadcast_def w)
    next
      case False
      let ?n = "int (length xs)"
      obtain s' where s': "handle_request wenv j (ReqWake ?n (cond_key c) (wakeup_seq c + ?n - 1)) s = Some s'"
          "cond_rep wenv C (c\<lparr>wakeup_seq := wakeup_seq c + ?n\<rparr>, s') []" "woken s' = woken s @ xs"
        using cond_wake_step [of wenv C c s xs j ?n] assms CondBroadcast w by auto
      have e: "cond_do wenv e w = pshared_wake_lock (client_env.truncate (thread_env wenv j)) (cond_key c)
          (wakeup_seq c + ?n - 1) ?n (c\<lparr>wakeup_seq := wakeup_seq c + ?n\<rparr>, s)"
        using num False unfolding CondBroadcast by (auto simp: pshared_cond_broadcast_def take_wakeup_seq_def w Let_def)
      show ?thesis using e wake_lock_world [OF s'(1)] s' CondBroadcast w by simp
    qed
  qed
qed

section \<open>Properties\<close>

fun cond_do_all :: "win_env \<Rightarrow> cond_event list \<Rightarrow> cond_world \<Rightarrow> cond_world option" where
  "cond_do_all wenv [] w = Some w"
| "cond_do_all wenv (e # es) w = (case cond_do wenv e w of None \<Rightarrow> None | Some w' \<Rightarrow> cond_do_all wenv es w')"

fun cv_run :: "cond_event list \<Rightarrow> nodeid list \<Rightarrow> nodeid list \<times> nodeid list" where
  "cv_run [] xs = ([], xs)"
| "cv_run (e # es) xs = (case cv_run es (cv_next e xs) of (ws, ys) \<Rightarrow> (cv_woken e xs @ ws, ys))"

fun cv_run_ok :: "nodeid set \<Rightarrow> cond_event list \<Rightarrow> nodeid list \<Rightarrow> bool" where
  "cv_run_ok C [] xs = True"
| "cv_run_ok C (e # es) xs = (cv_ok C e xs \<and> cv_run_ok C es (cv_next e xs))"

text \<open>
  C20. A process shared condition variable, with the client code, the sequence numbers and the server
  together, refines the abstract condition variable, as long as each request is handled before
  the next operation starts: a wait always sleeps, a signal wakes the thread that has slept for the
  longest time, if any, a broadcast wakes all of them in order, and nobody else is woken.
\<close>
theorem pshared_cond_refines:
  assumes "cond_rep wenv C w xs" "cv_run_ok C es xs"
  shows "\<exists>w'. cond_do_all wenv es w = Some w' \<and> cond_rep wenv C w' (snd (cv_run es xs)) \<and>
    woken (snd w') = woken (snd w) @ fst (cv_run es xs)"
  using assms
proof (induction es arbitrary: w xs)
  case Nil
  then show ?case by simp
next
  case (Cons e es)
  obtain w1 where w1: "cond_do wenv e w = Some w1" "cond_rep wenv C w1 (cv_next e xs)"
      "woken (snd w1) = woken (snd w) @ cv_woken e xs"
    using cond_step [OF Cons.prems(1), of e] Cons.prems(2) by auto
  obtain w2 where "cond_do_all wenv es w1 = Some w2" "cond_rep wenv C w2 (snd (cv_run es (cv_next e xs)))"
      "woken (snd w2) = woken (snd w1) @ fst (cv_run es (cv_next e xs))"
    using Cons.IH [OF w1(2)] Cons.prems(2) by auto
  then show ?case using w1 by (auto split: prod.splits)
qed

definition cond0 :: mm_thr_cond_pshared where
  "cond0 = \<lparr>cond_key = 5, waiter_seq = 0, wakeup_seq = 0\<rparr>"

lemma cond0_rep: "cond_rep win_ok {2, 3, 4} (cond0, one_lock) []"
proof -
  obtain l where l: "lock_array_get_lock (realloc_ok win_ok) (watched_locks one_lock) 5 True = (Some l, watched_locks one_lock, 0)"
      "lock_rep l win_ok {2, 3, 4} one_lock ([], 0)"
    using one_lock_rep by (auto simp: sem_rep_def)
  then show ?thesis unfolding cond_rep_def
    by (intro exI [of _ l] exI [of _ one]) (simp add: cond0_def lock_rep_def)
qed

theorem pshared_cond_refines_witness:
  "\<exists>w'. cond_do_all win_ok [CondSignal 4, CondEnter 2, CondEnter 3, CondSignal 4, CondEnter 2, CondBroadcast 4]
     (cond0, one_lock) = Some w' \<and> woken (snd w') = [2, 3, 2]"
proof -
  have "woken one_lock = []" by (simp add: woken_def one_lock_def server_init_def)
  then show ?thesis
    using pshared_cond_refines [OF cond0_rep,
        of "[CondSignal 4, CondEnter 2, CondEnter 3, CondSignal 4, CondEnter 2, CondBroadcast 4]"] by auto
qed

definition overtaken_wait :: "cond_world option" where
  "overtaken_wait =
     (let (v2, c) = take_waiter_seq cond0; (v3, c) = take_waiter_seq c
      in do { w \<leftarrow> cond_request win_ok 3 v3 (c, one_lock);
              w \<leftarrow> cond_do win_ok (CondSignal 4) w;
              cond_request win_ok 2 v2 w })"

declare wake_loop.simps [code]

text \<open>
  Without that order a signal can be lost. Two threads have taken their numbers 0 and 1 and
  released the mutex, but the request of the second one reaches the server first; then a signal is
  sent, for number 0, and the server, which finds no such waiter, keeps no trace that lets the
  first one pass: it goes to sleep after the signal. At the end both sleep and nobody was woken.
\<close>
theorem pshared_cond_signal_lost:
  "\<exists>c s. overtaken_wait = Some (c, s) \<and> wakeup_seq c = 1 \<and> waiter_seq c = 2 \<and> woken s = [] \<and>
     first (waiters_queue (lock_at s 0)) = Some 3 \<and> lst (waiters_queue (lock_at s 0)) = Some 2"
proof -
  have "case overtaken_wait of None \<Rightarrow> False | Some (c, s) \<Rightarrow> wakeup_seq c = 1 \<and> waiter_seq c = 2 \<and> woken s = [] \<and>
     first (waiters_queue (lock_at s 0)) = Some 3 \<and> lst (waiters_queue (lock_at s 0)) = Some 2"
    by code_simp
  then show ?thesis by (auto split: option.splits)
qed

end
