(* ===== verification/Thread_Win32.thy ===== *)
theory Thread_Win32
  imports Timespec "HOL-Library.Monad_Syntax"
begin

unbundle bit_operations_syntax

text \<open>
  Threads and in-process synchronisation of \<^verbatim>\<open>src/src/thread-win32.c\<close>: the life of the structure that
  describes a thread, one-time initialisation, and the mutexes and condition variables that are
  not shared between processes. The slim locks and the condition variables of Windows are state,
  with the behaviour their documentation gives.
\<close>

section \<open>The structure of a thread\<close>

definition STATE_STOPPED :: int where "STATE_STOPPED = 0x01"
definition STATE_DETACHED :: int where "STATE_DETACHED = 0x02"

record mm_thread =
  hnd :: bool
  routine :: "int option"
  arg :: int
  retval :: int
  thr_state :: int

text \<open>
  The memory of one thread structure: \<^const>\<open>None\<close> once it has been freed, how often it was freed, how often its handle
  was closed, and whether the thread is still running. Using a freed structure gives \<^const>\<open>None\<close>.
\<close>

record thr_mem =
  cell :: "mm_thread option"
  freed :: nat
  closed :: nat
  running :: bool

definition create_mm_thread_data :: mm_thread where
  "create_mm_thread_data = \<lparr>hnd = False, routine = None, arg = 0, retval = 0, thr_state = STATE_DETACHED\<rparr>"

definition destroy_mm_thread_data :: "thr_mem \<Rightarrow> thr_mem" where
  "destroy_mm_thread_data m =
     m\<lparr>cell := None, freed := freed m + 1,
       closed := closed m + (case cell m of Some th \<Rightarrow> if hnd th then 1 else 0 | None \<Rightarrow> 0)\<rparr>"

text \<open>
  The two parts of \<open>mm_thr_create\<close>, before and after the call of \<open>_beginthreadex\<close>. From this call on the new thread runs: the
  handle is stored in the structure while the thread may already use it, or have freed it. \<open>alloc_err\<close> and \<open>begin_err\<close>: the
  errors of the allocation and of the call, if any.
\<close>

definition thr_create_data :: "int \<Rightarrow> int \<Rightarrow> thr_mem" where
  "thr_create_data proc a =
     (let th = create_mm_thread_data;
          th = th\<lparr>thr_state := thr_state th AND NOT STATE_DETACHED, routine := Some proc, arg := a\<rparr>
      in \<lparr>cell = Some th, freed = 0, closed = 0, running = False\<rparr>)"

definition thr_create_store :: "retcode \<Rightarrow> thr_mem \<Rightarrow> (retcode \<times> thr_mem) option" where
  "thr_create_store begin_err m =
     do { th \<leftarrow> cell m;
          let m = m\<lparr>cell := Some (th\<lparr>hnd := (begin_err = None)\<rparr>)\<rparr>;
          Some (begin_err, if begin_err = None then m else destroy_mm_thread_data m) }"

text \<open>\<open>between\<close> is what the new thread does to the structure before its handle is stored.\<close>

definition mm_thr_create ::
  "retcode \<Rightarrow> retcode \<Rightarrow> (thr_mem \<Rightarrow> thr_mem option) \<Rightarrow> int \<Rightarrow> int \<Rightarrow> (retcode \<times> thr_mem option) option" where
  "mm_thr_create alloc_err begin_err between proc a =
     (if alloc_err \<noteq> None then Some (alloc_err, None)
      else do { m \<leftarrow> (if begin_err = None then between ((thr_create_data proc a)\<lparr>running := True\<rparr>) else Some (thr_create_data proc a));
                (r, m) \<leftarrow> thr_create_store begin_err m;
                Some (r, Some m) })"

text \<open>The structure of a thread that was not created by the library, at its first \<open>mm_thr_self\<close>.\<close>

definition mm_thr_self_data :: thr_mem where
  "mm_thr_self_data = \<lparr>cell = Some create_mm_thread_data, freed = 0, closed = 0, running = True\<rparr>"

text \<open>The end of a thread: the result of the routine is stored, then the exit handler runs.\<close>

definition thread_local_data_on_exit :: "thr_mem \<Rightarrow> thr_mem option" where
  "thread_local_data_on_exit m =
     do { th \<leftarrow> cell m;
          let prev_state = thr_state th;
          let m = m\<lparr>cell := Some (th\<lparr>thr_state := thr_state th + STATE_STOPPED\<rparr>)\<rparr>;
          Some (if prev_state AND STATE_DETACHED \<noteq> 0 then destroy_mm_thread_data m else m) }"

definition thread_proc_wrapper :: "(int \<Rightarrow> int \<Rightarrow> int) \<Rightarrow> thr_mem \<Rightarrow> thr_mem option" where
  "thread_proc_wrapper run m =
     do { th \<leftarrow> cell m;
          proc \<leftarrow> routine th;
          m \<leftarrow> thread_local_data_on_exit (m\<lparr>cell := Some (th\<lparr>retval := run proc (arg th)\<rparr>)\<rparr>);
          Some (m\<lparr>running := False\<rparr>) }"

text \<open>\<open>mm_thr_join\<close> up to the wait for the end of the thread, and after it.\<close>

definition mm_thr_join_check :: "thr_mem \<Rightarrow> retcode option" where
  "mm_thr_join_check m =
     do { th \<leftarrow> cell m; Some (if thr_state th AND STATE_DETACHED \<noteq> 0 then Some EINVAL else None) }"

definition mm_thr_join_finish :: "thr_mem \<Rightarrow> (int \<times> thr_mem) option" where
  "mm_thr_join_finish m = do { th \<leftarrow> cell m; Some (retval th, destroy_mm_thread_data m) }"

definition mm_thr_detach :: "thr_mem \<Rightarrow> (retcode \<times> thr_mem) option" where
  "mm_thr_detach m =
     do { th \<leftarrow> cell m;
          let prev_state = thr_state th;
          let m = m\<lparr>cell := Some (th\<lparr>thr_state := thr_state th + STATE_DETACHED\<rparr>)\<rparr>;
          if prev_state AND STATE_DETACHED \<noteq> 0 then Some (Some EINVAL, m)
          else Some (None, if prev_state AND STATE_STOPPED \<noteq> 0 then destroy_mm_thread_data m else m) }"

section \<open>The life of a thread\<close>

text \<open>
  A thread that was created, seen by a program that joins or detaches it once: the routine returns at
  any moment, and a join ends when the thread has ended. \<open>stored\<close>: \<open>mm_thr_create\<close> has stored the handle and returned; \<open>asked\<close>:
  the program has called join or detach; \<open>joining\<close>: it waits in the join; \<open>got\<close>: the value that the join gave. Other threads know the
  structure only once \<open>mm_thr_create\<close> has returned; with \<open>early\<close> the new thread may detach itself before.
\<close>

record thr_use =
  mem :: thr_mem
  stored :: bool
  asked :: bool
  joining :: bool
  got :: "int option"

inductive thr_life :: "(int \<Rightarrow> int \<Rightarrow> int) \<Rightarrow> int \<Rightarrow> int \<Rightarrow> bool \<Rightarrow> thr_use \<Rightarrow> bool" for run proc a early where
  begun: "thr_life run proc a early
    \<lparr>mem = (thr_create_data proc a)\<lparr>running := True\<rparr>, stored = False, asked = False, joining = False, got = None\<rparr>"
| stores: "thr_life run proc a early u \<Longrightarrow> \<not> stored u \<Longrightarrow> thr_create_store None (mem u) = Some (None, m) \<Longrightarrow>
    thr_life run proc a early (u\<lparr>mem := m, stored := True\<rparr>)"
| returned: "thr_life run proc a early u \<Longrightarrow> running (mem u) \<Longrightarrow> thread_proc_wrapper run (mem u) = Some m \<Longrightarrow>
    thr_life run proc a early (u\<lparr>mem := m\<rparr>)"
| detached: "thr_life run proc a early u \<Longrightarrow> \<not> asked u \<Longrightarrow> stored u \<or> early \<and> running (mem u) \<Longrightarrow>
    mm_thr_detach (mem u) = Some (r, m) \<Longrightarrow>
    thr_life run proc a early (u\<lparr>mem := m, asked := True\<rparr>)"
| joins: "thr_life run proc a early u \<Longrightarrow> \<not> asked u \<Longrightarrow> stored u \<Longrightarrow> mm_thr_join_check (mem u) = Some None \<Longrightarrow>
    thr_life run proc a early (u\<lparr>asked := True, joining := True\<rparr>)"
| joined: "thr_life run proc a early u \<Longrightarrow> joining u \<Longrightarrow> \<not> running (mem u) \<Longrightarrow>
    mm_thr_join_finish (mem u) = Some (v, m) \<Longrightarrow>
    thr_life run proc a early (u\<lparr>mem := m, joining := False, got := Some v\<rparr>)"

lemmas thr_defs = mm_thr_create_def thr_create_data_def thr_create_store_def create_mm_thread_data_def destroy_mm_thread_data_def
  thread_local_data_on_exit_def thread_proc_wrapper_def mm_thr_join_check_def mm_thr_join_finish_def
  mm_thr_detach_def STATE_STOPPED_def STATE_DETACHED_def

text \<open>What the structure holds at each stage, when the thread does not detach itself early.\<close>

definition thr_inv :: "(int \<Rightarrow> int \<Rightarrow> int) \<Rightarrow> int \<Rightarrow> int \<Rightarrow> thr_use \<Rightarrow> bool" where
  "thr_inv run proc a u \<longleftrightarrow>
     (let over = (asked u \<and> \<not> joining u); detached = (over \<and> got u = None)
      in (joining u \<longrightarrow> asked u) \<and> (asked u \<longrightarrow> stored u) \<and> closed (mem u) = freed (mem u) \<and>
         (got u \<noteq> None \<longrightarrow> over \<and> \<not> running (mem u) \<and> got u = Some (run proc a)) \<and>
         (if \<not> running (mem u) \<and> over then cell (mem u) = None \<and> freed (mem u) = 1
          else freed (mem u) = 0 \<and>
               (\<exists>th. cell (mem u) = Some th \<and> hnd th = stored u \<and> routine th = Some proc \<and> arg th = a \<and>
                  thr_state th = (if detached then 2 else 0) + (if running (mem u) then 0 else 1) \<and>
                  (\<not> running (mem u) \<longrightarrow> retval th = run proc a))))"

lemma thr_life_inv: "thr_life run proc a False u \<Longrightarrow> thr_inv run proc a u"
proof (induction rule: thr_life.induct)
  case begun
  then show ?case by (simp add: thr_inv_def thr_defs Let_def)
next
  case (stores u m)
  then show ?case by (auto simp: thr_inv_def thr_defs Let_def split: if_splits)
next
  case (returned u m)
  then show ?case by (auto simp: thr_inv_def thr_defs Let_def split: if_splits)
next
  case (detached u r m)
  then show ?case by (auto simp: thr_inv_def thr_defs Let_def split: if_splits)
next
  case (joins u)
  then show ?case by (auto simp: thr_inv_def thr_defs Let_def split: if_splits)
next
  case (joined u v m)
  then show ?case by (auto simp: thr_inv_def thr_defs Let_def split: if_splits)
qed

section \<open>Mutexes and condition variables of one process\<close>

definition MM_THR_PSHARED :: int where "MM_THR_PSHARED = 0x00000001"
definition MM_THR_WAIT_MONOTONIC :: int where "MM_THR_WAIT_MONOTONIC = 0x00000002"
definition WAITCLK_FLAG_MONOTONIC :: int where "WAITCLK_FLAG_MONOTONIC = push_bit 1 MM_THR_PSHARED"
definition WAITCLK_FLAG_REALTIME_W32 :: int where "WAITCLK_FLAG_REALTIME_W32 = push_bit 2 MM_THR_PSHARED"
definition WAITCLK_MASK :: int where "WAITCLK_MASK = WAITCLK_FLAG_MONOTONIC OR WAITCLK_FLAG_REALTIME_W32"

text \<open>
  A mutex with its flag and the slim lock; the process shared variant is the argument \<open>pshared\<close> of the
  operations, which works on its own part of the union. Acquiring a slim lock that is held does
  not return: \<^const>\<open>None\<close>.
\<close>

record mm_thr_mutex =
  mtx_flag :: int
  srw_locked :: bool

definition mm_thr_mutex_is_pshared :: "mm_thr_mutex \<Rightarrow> bool" where
  "mm_thr_mutex_is_pshared mutex \<longleftrightarrow> mtx_flag mutex AND MM_THR_PSHARED = MM_THR_PSHARED"

definition TryAcquireSRWLockExclusive :: "mm_thr_mutex \<Rightarrow> bool \<times> mm_thr_mutex" where
  "TryAcquireSRWLockExclusive mutex = (\<not> srw_locked mutex, mutex\<lparr>srw_locked := True\<rparr>)"

definition mm_thr_mutex_lock ::
  "(mm_thr_mutex \<Rightarrow> (retcode \<times> mm_thr_mutex) option) \<Rightarrow> mm_thr_mutex \<Rightarrow> (retcode \<times> mm_thr_mutex) option" where
  "mm_thr_mutex_lock pshared mutex =
     (if mm_thr_mutex_is_pshared mutex then pshared mutex
      else if srw_locked mutex then None else Some (None, mutex\<lparr>srw_locked := True\<rparr>))"

definition mm_thr_mutex_trylock ::
  "(mm_thr_mutex \<Rightarrow> (retcode \<times> mm_thr_mutex) option) \<Rightarrow> mm_thr_mutex \<Rightarrow> (retcode \<times> mm_thr_mutex) option" where
  "mm_thr_mutex_trylock pshared mutex =
     (if mm_thr_mutex_is_pshared mutex then pshared mutex
      else let (_, mutex) = TryAcquireSRWLockExclusive mutex in Some (None, mutex))"

definition mm_thr_mutex_consistent ::
  "(mm_thr_mutex \<Rightarrow> (retcode \<times> mm_thr_mutex) option) \<Rightarrow> mm_thr_mutex \<Rightarrow> (retcode \<times> mm_thr_mutex) option" where
  "mm_thr_mutex_consistent pshared mutex =
     (if mm_thr_mutex_is_pshared mutex then pshared mutex else Some (Some EINVAL, mutex))"

definition mm_thr_mutex_unlock ::
  "(mm_thr_mutex \<Rightarrow> (retcode \<times> mm_thr_mutex) option) \<Rightarrow> mm_thr_mutex \<Rightarrow> (retcode \<times> mm_thr_mutex) option" where
  "mm_thr_mutex_unlock pshared mutex =
     (if mm_thr_mutex_is_pshared mutex then pshared mutex else Some (None, mutex\<lparr>srw_locked := False\<rparr>))"

definition mm_thr_mutex_init ::
  "(mm_thr_mutex \<Rightarrow> (retcode \<times> mm_thr_mutex) option) \<Rightarrow> int \<Rightarrow> mm_thr_mutex \<Rightarrow> (retcode \<times> mm_thr_mutex) option" where
  "mm_thr_mutex_init pshared flags mutex =
     (let mutex = mutex\<lparr>mtx_flag := flags\<rparr>
      in if mm_thr_mutex_is_pshared mutex then pshared mutex else Some (None, mutex\<lparr>srw_locked := False\<rparr>))"

text \<open>The flags of a condition variable after \<open>mm_thr_cond_init\<close>, and whether it is process shared.\<close>

definition mm_thr_cond_init_flag :: "int \<Rightarrow> int" where
  "mm_thr_cond_init_flag flags =
     (flags AND NOT WAITCLK_MASK)
     OR (if flags AND MM_THR_WAIT_MONOTONIC \<noteq> 0 then WAITCLK_FLAG_MONOTONIC else WAITCLK_FLAG_REALTIME_W32)"

definition mm_thr_cond_is_pshared :: "int \<Rightarrow> bool" where
  "mm_thr_cond_is_pshared flag \<longleftrightarrow> flag AND MM_THR_PSHARED = MM_THR_PSHARED"

text \<open>
  The outcome of \<open>SleepConditionVariableSRW\<close> is a parameter: woken up, timed out, or another error.
  The clocks are parameters too: the first argument says whether the monotonic one is read.
\<close>

datatype sleep_result = SleepOk | SleepTimeout | SleepError

record 'w cv_env =
  SleepConditionVariableSRW :: "32 word \<Rightarrow> 'w \<Rightarrow> sleep_result \<times> 'w"
  cv_gettime :: "bool \<Rightarrow> 'w \<Rightarrow> mm_timespec \<times> 'w"

definition sleep_win32cv :: "'w cv_env \<Rightarrow> 32 word \<Rightarrow> 'w \<Rightarrow> retcode \<times> 'w" where
  "sleep_win32cv env timeout_ms w =
     (case SleepConditionVariableSRW env timeout_ms w of
        (SleepOk, w) \<Rightarrow> (None, w)
      | (SleepTimeout, w) \<Rightarrow> (Some ETIMEDOUT, w)
      | (SleepError, w) \<Rightarrow> (Some EINVAL, w))"

definition INFINITE :: "32 word" where "INFINITE = 0xFFFFFFFF"

definition mm_thr_cond_wait :: "('w \<Rightarrow> retcode \<times> 'w) \<Rightarrow> 'w cv_env \<Rightarrow> int \<Rightarrow> 'w \<Rightarrow> retcode \<times> 'w" where
  "mm_thr_cond_wait pshared env flag w =
     (if mm_thr_cond_is_pshared flag then pshared w else sleep_win32cv env INFINITE w)"

text \<open>The loop of \<open>mm_thr_cond_timedwait\<close>.\<close>

partial_function (option) timedwait_loop ::
  "'w cv_env \<Rightarrow> bool \<Rightarrow> mm_timespec \<Rightarrow> 'w \<Rightarrow> (retcode \<times> 'w) option" where
  "timedwait_loop env monotonic abstime w =
     (let (now, w) = cv_gettime env monotonic w;
          delta_ns = mm_timediff_ns abstime now
      in if delta_ns < 0 then Some (Some ETIMEDOUT, w)
         else
           let timeout_ms = word_of_int (delta_ns sdiv (NS_IN_SEC sdiv MS_IN_SEC));
               (ret, w) = sleep_win32cv env timeout_ms w
           in if ret = Some ETIMEDOUT then timedwait_loop env monotonic abstime w else Some (ret, w))"

definition mm_thr_cond_timedwait ::
  "('w \<Rightarrow> (retcode \<times> 'w) option) \<Rightarrow> 'w cv_env \<Rightarrow> int \<Rightarrow> mm_timespec \<Rightarrow> 'w \<Rightarrow> (retcode \<times> 'w) option" where
  "mm_thr_cond_timedwait pshared env flag abstime w =
     (if mm_thr_cond_is_pshared flag then pshared w
      else timedwait_loop env (flag AND WAITCLK_FLAG_MONOTONIC \<noteq> 0) abstime w)"

text \<open>
  What a result of the timed wait rests on: a timeout on a reading of the clock past the deadline,
  any other result on a sleep that began before the deadline.
\<close>

definition timedwait_ok :: "'w cv_env \<Rightarrow> bool \<Rightarrow> mm_timespec \<Rightarrow> retcode \<times> 'w \<Rightarrow> bool" where
  "timedwait_ok env mclk abstime x \<longleftrightarrow>
     (if fst x = Some ETIMEDOUT
      then \<exists>w0 now. cv_gettime env mclk w0 = (now, snd x) \<and> mm_timediff_ns abstime now < 0
      else \<exists>w0 now w1. cv_gettime env mclk w0 = (now, w1) \<and> mm_timediff_ns abstime now \<ge> 0 \<and>
        sleep_win32cv env (word_of_int (mm_timediff_ns abstime now sdiv (NS_IN_SEC sdiv MS_IN_SEC))) w1 = x)"

lemma timedwait_loop_result:
  assumes "timedwait_loop env mclk abstime w = Some x"
  shows "timedwait_ok env mclk abstime x"
proof (rule timedwait_loop.raw_induct [where P = "\<lambda>env mclk abstime w x. timedwait_ok env mclk abstime x",
      OF _ assms], goal_cases)
  case (1 loop env mclk abstime w x)
  obtain now w1 where g: "cv_gettime env mclk w = (now, w1)" by fastforce
  define d where "d = mm_timediff_ns abstime now"
  obtain r w2 where sl: "sleep_win32cv env (word_of_int (d sdiv (NS_IN_SEC sdiv MS_IN_SEC))) w1 = (r, w2)" by fastforce
  consider "d < 0" "x = (Some ETIMEDOUT, w1)" | "d \<ge> 0" "r = Some ETIMEDOUT" "loop env mclk abstime w2 = Some x"
    | "d \<ge> 0" "r \<noteq> Some ETIMEDOUT" "x = (r, w2)"
    using 1(2) g sl by (auto simp: d_def Let_def split: if_splits)
  then show ?case
  proof cases
    case 1
    then show ?thesis using g by (auto simp: timedwait_ok_def d_def)
  next
    case 2
    then show ?thesis using 1(1) by blast
  next
    case 3
    then show ?thesis using g sl by (auto simp: timedwait_ok_def d_def)
  qed
qed

text \<open>The timed wait ends when the clock, read before each sleep, gets past the deadline.\<close>

fun sleeps :: "'w cv_env \<Rightarrow> bool \<Rightarrow> mm_timespec \<Rightarrow> nat \<Rightarrow> 'w \<Rightarrow> 'w" where
  "sleeps env mclk abstime 0 w = w"
| "sleeps env mclk abstime (Suc n) w =
     (let (now, w) = cv_gettime env mclk w
      in sleeps env mclk abstime n
           (snd (sleep_win32cv env (word_of_int (mm_timediff_ns abstime now sdiv (NS_IN_SEC sdiv MS_IN_SEC))) w)))"

lemma timedwait_loop_ends:
  "mm_timediff_ns abstime (fst (cv_gettime env mclk (sleeps env mclk abstime n w))) < 0 \<Longrightarrow>
     \<exists>x. timedwait_loop env mclk abstime w = Some x"
proof (induction n arbitrary: w)
  case 0
  then show ?case by (subst timedwait_loop.simps) (auto split: prod.splits)
next
  case (Suc n)
  obtain now w1 where g: "cv_gettime env mclk w = (now, w1)" by fastforce
  obtain r w2 where sl: "sleep_win32cv env (word_of_int (mm_timediff_ns abstime now sdiv (NS_IN_SEC sdiv MS_IN_SEC))) w1 = (r, w2)"
    by fastforce
  have "\<exists>x. timedwait_loop env mclk abstime w2 = Some x" using Suc g sl by simp
  then show ?case using g sl by (subst timedwait_loop.simps) (auto simp: Let_def)
qed

section \<open>Properties\<close>

text \<open>
  C21. The structure of a thread that does not detach itself before \<open>mm_thr_create\<close> has returned in its creator: however the end of the
  thread, the store of its handle, and the join or detach interleave, the structure is freed exactly once, with its handle,
  when both the thread has ended and the program has joined or detached it, whatever comes first. Until then every operation
  on it is safe: the store of the handle, the end of the thread, the join and the detach find it, a join waits on the stored
  handle and gives the value returned by the routine. (Without the restriction the store uses freed memory:
  \<open>early_detach_use_after_free\<close>.)
\<close>
theorem thread_data_freed_once:
  assumes "thr_life run proc a False u"
  shows "freed (mem u) = (if \<not> running (mem u) \<and> asked u \<and> \<not> joining u then 1 else 0) \<and> closed (mem u) = freed (mem u) \<and>
    (\<not> stored u \<longrightarrow> (\<exists>m. thr_create_store None (mem u) = Some (None, m))) \<and>
    (running (mem u) \<longrightarrow> (\<exists>m. thread_proc_wrapper run (mem u) = Some m)) \<and>
    (stored u \<and> \<not> asked u \<longrightarrow> (\<exists>m. mm_thr_detach (mem u) = Some (None, m)) \<and> mm_thr_join_check (mem u) = Some None
       \<and> (\<exists>th. cell (mem u) = Some th \<and> hnd th)) \<and>
    (joining u \<and> \<not> running (mem u) \<longrightarrow> (\<exists>m. mm_thr_join_finish (mem u) = Some (run proc a, m))) \<and>
    (\<forall>v. got u = Some v \<longrightarrow> v = run proc a)"
  using thr_life_inv [OF assms]
  by (auto simp: thr_inv_def thr_defs Let_def split: if_splits)

definition thr_born :: thr_mem where "thr_born = (thr_create_data 1 5)\<lparr>running := True\<rparr>"
definition thr_left :: thr_mem where "thr_left = the (thread_proc_wrapper (\<lambda>p x. x + 1) thr_born)"
definition thr_known :: thr_mem where "thr_known = snd (the (thr_create_store None thr_left))"
definition thr_gone :: thr_mem where "thr_gone = snd (the (mm_thr_detach thr_known))"

lemmas thr_example = thr_born_def thr_left_def thr_known_def thr_gone_def

lemma thr_gone_life:
  "thr_life (\<lambda>p x. x + 1) 1 5 False \<lparr>mem = thr_gone, stored = True, asked = True, joining = False, got = None\<rparr>"
proof -
  have l: "running thr_born" "thread_proc_wrapper (\<lambda>p x. x + 1) thr_born = Some thr_left"
    "thr_create_store None thr_left = Some (None, thr_known)" "mm_thr_detach thr_known = Some (None, thr_gone)"
    by (simp_all add: thr_example thr_defs)
  note 1 = thr_life.begun [of "\<lambda>p x. x + 1" 1 5 False, folded thr_born_def]
  note 2 = thr_life.returned [OF 1, simplified, OF l(1,2)]
  note 3 = thr_life.stores [OF 2, simplified, OF l(3)]
  show ?thesis using thr_life.detached [OF 3, simplified, OF l(4)] by simp
qed

theorem thread_data_freed_once_witness: "freed thr_gone = 1 \<and> closed thr_gone = 1"
  using thread_data_freed_once [OF thr_gone_life] by (simp add: thr_example thr_defs)

text \<open>
  A thread that detaches itself and ends before \<open>mm_thr_create\<close> has stored its handle has freed the structure: the store uses
  freed memory, and the handle is never closed.
\<close>

lemma early_detach_use_after_free:
  "\<exists>u. thr_life run proc a True u \<and> \<not> stored u \<and> cell (mem u) = None \<and> closed (mem u) = 0 \<and> thr_create_store None (mem u) = None"
proof -
  let ?m = "(thr_create_data proc a)\<lparr>running := True\<rparr>"
  obtain m1 where d: "mm_thr_detach ?m = Some (None, m1)" "running m1" by (simp add: thr_defs)
  obtain m2 where r: "thread_proc_wrapper run m1 = Some m2" "cell m2 = None" "closed m2 = 0"
    using d by (auto simp: thr_defs)
  note 1 = thr_life.begun [of run proc a True]
  note 2 = thr_life.detached [OF 1, simplified, OF d(1)]
  note 3 = thr_life.returned [OF 2, simplified, OF d(2) r(1)]
  show ?thesis by (rule exI, intro conjI, rule 3) (simp_all add: r thr_create_store_def)
qed

lemma create_uses_freed_structure:
  "mm_thr_create None None (\<lambda>m. do { (r, m) \<leftarrow> mm_thr_detach m; thread_proc_wrapper run m }) proc a = None"
  by (simp add: thr_defs)

text \<open>When the thread cannot be begun its structure is freed, and there is no handle to close.\<close>

lemma create_fails:
  "mm_thr_create None (Some e) between proc a
     = Some (Some e, Some \<lparr>cell = None, freed = 1, closed = 0, running = False\<rparr>)"
  by (simp add: thr_defs)

text \<open>
  Detaching a thread that is already detached reports an error, but the addition carries out of the
  detached bit: the thread counts as joinable again, its structure is not freed when it ends, and
  the next detach is accepted.
\<close>
theorem mm_thr_detach_twice:
  assumes "thr_state th = STATE_DETACHED"
  shows "\<exists>m1 m2. mm_thr_detach \<lparr>cell = Some th, freed = 0, closed = 0, running = True\<rparr> = Some (Some EINVAL, m1) \<and>
    mm_thr_join_check m1 = Some None \<and> (\<exists>m. mm_thr_detach m1 = Some (None, m)) \<and>
    thread_local_data_on_exit m1 = Some m2 \<and> freed m2 = 0"
  using assms by (simp add: thr_defs)

theorem mm_thr_detach_twice_witness:
  "\<exists>m1 m2. mm_thr_detach \<lparr>cell = Some create_mm_thread_data, freed = 0, closed = 0, running = True\<rparr> = Some (Some EINVAL, m1) \<and>
    thread_local_data_on_exit m1 = Some m2 \<and> freed m2 = 0"
  using mm_thr_detach_twice [of create_mm_thread_data] by (auto simp: create_mm_thread_data_def)

text \<open>
  C22. The timed wait on a condition variable of one process. A timeout is reported only after the clock of
  the condition was read past the deadline; any other result is that of a sleep which began
  before it. When the clock gets past the deadline after some number of sleeps, the wait ends.
\<close>
theorem mm_thr_cond_timedwait_sound:
  assumes "\<not> mm_thr_cond_is_pshared flag"
    "mm_timediff_ns abstime (fst (cv_gettime env (flag AND WAITCLK_FLAG_MONOTONIC \<noteq> 0)
       (sleeps env (flag AND WAITCLK_FLAG_MONOTONIC \<noteq> 0) abstime n w))) < 0"
  shows "\<exists>x. mm_thr_cond_timedwait pshared env flag abstime w = Some x \<and>
    timedwait_ok env (flag AND WAITCLK_FLAG_MONOTONIC \<noteq> 0) abstime x"
  using timedwait_loop_ends [OF assms(2)] timedwait_loop_result assms(1)
  unfolding mm_thr_cond_timedwait_def by fastforce

text \<open>A world where each reading of the clock is one second later and each sleep times out.\<close>

definition slow_env :: "nat cv_env" where
  "slow_env = \<lparr>SleepConditionVariableSRW = (\<lambda>_ w. (SleepTimeout, w)),
     cv_gettime = (\<lambda>_ w. (\<lparr>tv_sec = int w, tv_nsec = 0\<rparr>, Suc w))\<rparr>"

theorem mm_thr_cond_timedwait_sound_witness:
  "\<exists>x. mm_thr_cond_timedwait (\<lambda>_. None) slow_env 4 \<lparr>tv_sec = 1, tv_nsec = 500\<rparr> 0 = Some x \<and>
    timedwait_ok slow_env False \<lparr>tv_sec = 1, tv_nsec = 500\<rparr> x"
proof -
  have f: "\<not> mm_thr_cond_is_pshared 4" "((4 :: int) AND WAITCLK_FLAG_MONOTONIC \<noteq> 0) = False" by code_simp+
  have "mm_timediff_ns \<lparr>tv_sec = 1, tv_nsec = 500\<rparr>
      (fst (cv_gettime slow_env False (sleeps slow_env False \<lparr>tv_sec = 1, tv_nsec = 500\<rparr> 2 0))) < 0"
    by code_simp
  then show ?thesis using mm_thr_cond_timedwait_sound [OF f(1), of _ slow_env 2 0 "\<lambda>_. None"] unfolding f(2) by blast
qed

text \<open>
  Trying to lock a mutex of one process reports success whether or not the lock was free: a thread that
  gets 0 for a mutex held by another one enters the section it protects, and its unlock releases
  the lock of the other one.
\<close>
theorem mm_thr_mutex_trylock_ignores_failure:
  assumes "\<not> mm_thr_mutex_is_pshared mutex" "srw_locked mutex"
  shows "mm_thr_mutex_trylock pshared mutex = Some (None, mutex) \<and> fst (TryAcquireSRWLockExclusive mutex) = False \<and>
    mm_thr_mutex_lock pshared mutex = None \<and>
    (\<exists>m. mm_thr_mutex_unlock pshared mutex = Some (None, m) \<and> \<not> srw_locked m)"
  using assms
  by (simp add: mm_thr_mutex_trylock_def mm_thr_mutex_lock_def mm_thr_mutex_unlock_def TryAcquireSRWLockExclusive_def)

theorem mm_thr_mutex_trylock_ignores_failure_witness:
  "mm_thr_mutex_trylock (\<lambda>_. None) \<lparr>mtx_flag = 0, srw_locked = True\<rparr> = Some (None, \<lparr>mtx_flag = 0, srw_locked = True\<rparr>)"
  using mm_thr_mutex_trylock_ignores_failure [of "\<lparr>mtx_flag = 0, srw_locked = True\<rparr>" "\<lambda>_. None"]
  by (simp add: mm_thr_mutex_is_pshared_def MM_THR_PSHARED_def)

end
