(* ===== verification/Win_Cmdline.thy ===== *)
theory Win_Cmdline
  imports Prelude
begin

text \<open>
  The command line and the environment block of a new process (\<^verbatim>\<open>src/src/process-win32.c\<close>): the
  escaping of the arguments and the concatenation of the strings. Characters stand for the code
  units of both encodings; the conversion from UTF-8 to UTF-16 is left out.
\<close>

section \<open>Escaping an argument\<close>

abbreviation BS :: char where "BS \<equiv> CHR 0x5C"
abbreviation DQ :: char where "DQ \<equiv> CHR 0x22"
abbreviation SP :: char where "SP \<equiv> CHR '' ''"

text \<open>
  The loop of \<open>escape_cmd_str\<close> with \<open>nbackslash\<close> backslashes held back: what it writes from there on. The
  result of the C function is the number of bytes written.
\<close>

fun escape_loop :: "string \<Rightarrow> nat \<Rightarrow> string" where
  "escape_loop [] nbackslash = replicate (2 * nbackslash) BS @ [DQ, NUL]"
| "escape_loop (c # src) nbackslash =
     (if c = BS then escape_loop src (nbackslash + 1)
      else if c = DQ then replicate (2 * nbackslash) BS @ [BS, DQ] @ escape_loop src 0
      else replicate nbackslash BS @ [c] @ escape_loop src 0)"

definition escape_cmd_str :: "string \<Rightarrow> string" where
  "escape_cmd_str src = DQ # escape_loop src 0"

section \<open>Escaping the arguments of a program\<close>

text \<open>
  The memory block of \<open>escape_argv\<close>: its size, where the strings have been written, and whether
  every write was inside. The offsets of the strings are first kept in the array of 8-byte
  pointers at the start of the block.
\<close>

record argv_block =
  maxlen :: nat
  strings :: "(nat \<times> string) list"
  in_block :: bool

function grow :: "nat \<Rightarrow> nat \<Rightarrow> nat" where
  "grow m len = (if m < len \<and> 0 < m then grow (m * 2) len else m)"
  by pat_completeness auto
termination by (relation "measure (\<lambda>(m, len). len - m)") auto

declare grow.simps [simp del]

text \<open>\<open>realloc_ok n\<close>: a block of \<open>n\<close> bytes can be allocated.\<close>

fun escape_argv_loop :: "(nat \<Rightarrow> bool) \<Rightarrow> string list \<Rightarrow> nat \<Rightarrow> nat \<Rightarrow> argv_block \<Rightarrow> argv_block option" where
  "escape_argv_loop realloc_ok [] i index b = Some b"
| "escape_argv_loop realloc_ok (a # argv) i index b =
     (let b = b\<lparr>in_block := in_block b \<and> 8 * i + 8 \<le> maxlen b\<rparr>;
          len = length (escape_cmd_str a);
          fits = (index + len \<le> maxlen b);
          newlen = (if fits then maxlen b else grow (maxlen b) (index + len))
      in if \<not> fits \<and> \<not> realloc_ok newlen then None
         else
           escape_argv_loop realloc_ok argv (i + 1) (index + len)
             (b\<lparr>maxlen := newlen, strings := strings b @ [(index, escape_cmd_str a)],
                in_block := in_block b \<and> index + len \<le> newlen\<rparr>))"

definition escape_argv :: "(nat \<Rightarrow> bool) \<Rightarrow> string list \<Rightarrow> argv_block option" where
  "escape_argv realloc_ok argv =
     (if \<not> realloc_ok 256 then None
      else
        case escape_argv_loop realloc_ok argv 0 ((length argv + 1) * 8)
               \<lparr>maxlen = 256, strings = [], in_block = True\<rparr> of
          None \<Rightarrow> None
        | Some b \<Rightarrow> Some (b\<lparr>in_block := in_block b \<and> 8 * length argv + 8 \<le> maxlen b\<rparr>))"

section \<open>Concatenation\<close>

text \<open>
  A buffer of \<open>tot_len\<close> units, not initialised but for what is written: each string without its
  terminator, separated by \<open>sep\<close>, and the final terminator.
\<close>

definition join :: "char \<Rightarrow> string list \<Rightarrow> string" where
  "join sep strv = concat (case strv of [] \<Rightarrow> [] | s # ss \<Rightarrow> s # map (\<lambda>t. sep # t) ss)"

definition concat_tot_len :: "string list \<Rightarrow> nat" where
  "concat_tot_len strv = 1 + sum_list (map (\<lambda>s. length s + 1) strv)"

definition concat_strv :: "string list option \<Rightarrow> char \<Rightarrow> char option list option" where
  "concat_strv strv sep =
     (case strv of
        None \<Rightarrow> None
      | Some ss \<Rightarrow>
          let w = join sep ss @ [NUL]
          in Some (map Some w @ replicate (concat_tot_len ss - length w) None))"

section \<open>The documented interpretation of a command line\<close>

text \<open>
  How a command line is cut into arguments is decided by the new process. The documentation that
  the comment of \<open>escape_cmd_str\<close> names gives the rules: \<open>scan inq arg s\<close> are the arguments of the rest \<open>s\<close>,
  where \<open>inq\<close> tells whether a quoted part is open and \<open>arg\<close> is what has been read of the current
  argument; \<open>prog s\<close> is the whole line, whose first argument is read without escapes.
\<close>

definition argv_rules :: "(bool \<Rightarrow> string \<Rightarrow> string \<Rightarrow> string list) \<Rightarrow> (string \<Rightarrow> string list) \<Rightarrow> bool" where
  "argv_rules scan prog \<longleftrightarrow>
     (\<forall>inq arg n s. scan inq arg (replicate (2 * n) BS @ DQ # s) = scan (\<not> inq) (arg @ replicate n BS) s) \<and>
     (\<forall>inq arg n s. scan inq arg (replicate (2 * n + 1) BS @ DQ # s) = scan inq (arg @ replicate n BS @ [DQ]) s) \<and>
     (\<forall>arg n c s. c \<noteq> BS \<longrightarrow> c \<noteq> DQ \<longrightarrow>
        scan True arg (replicate n BS @ c # s) = scan True (arg @ replicate n BS @ [c]) s) \<and>
     (\<forall>arg c s. c \<noteq> SP \<longrightarrow> scan False arg (SP # c # s) = arg # scan False [] (c # s)) \<and>
     (\<forall>arg. scan False arg [] = [arg]) \<and>
     (\<forall>a c s. DQ \<notin> set a \<longrightarrow> c \<noteq> SP \<longrightarrow> prog (DQ # a @ DQ # SP # c # s) = a # scan False [] (c # s)) \<and>
     (\<forall>a. DQ \<notin> set a \<longrightarrow> prog (DQ # a @ [DQ]) = [a])"

lemma argv_rulesD:
  assumes "argv_rules scan prog"
  shows "scan inq arg (replicate (2 * n) BS @ DQ # s) = scan (\<not> inq) (arg @ replicate n BS) s"
    "scan inq arg (replicate (2 * n + 1) BS @ DQ # s) = scan inq (arg @ replicate n BS @ [DQ]) s"
    "c \<noteq> BS \<Longrightarrow> c \<noteq> DQ \<Longrightarrow> scan True arg (replicate n BS @ c # s) = scan True (arg @ replicate n BS @ [c]) s"
    "c \<noteq> SP \<Longrightarrow> scan False arg (SP # c # s) = arg # scan False [] (c # s)"
    "scan False arg [] = [arg]"
    "DQ \<notin> set a \<Longrightarrow> c \<noteq> SP \<Longrightarrow> prog (DQ # a @ DQ # SP # c # s) = a # scan False [] (c # s)"
    "DQ \<notin> set a \<Longrightarrow> prog (DQ # a @ [DQ]) = [a]"
proof -
  note r = assms [unfolded argv_rules_def]
  show "scan inq arg (replicate (2 * n) BS @ DQ # s) = scan (\<not> inq) (arg @ replicate n BS) s"
    by (rule r [THEN conjunct1, rule_format])
  show "scan inq arg (replicate (2 * n + 1) BS @ DQ # s) = scan inq (arg @ replicate n BS @ [DQ]) s"
    by (rule r [THEN conjunct2, THEN conjunct1, rule_format])
  show "c \<noteq> BS \<Longrightarrow> c \<noteq> DQ \<Longrightarrow> scan True arg (replicate n BS @ c # s) = scan True (arg @ replicate n BS @ [c]) s"
    by (rule r [THEN conjunct2, THEN conjunct2, THEN conjunct1, rule_format])
  show "c \<noteq> SP \<Longrightarrow> scan False arg (SP # c # s) = arg # scan False [] (c # s)"
    by (rule r [THEN conjunct2, THEN conjunct2, THEN conjunct2, THEN conjunct1, rule_format])
  show "scan False arg [] = [arg]"
    by (rule r [THEN conjunct2, THEN conjunct2, THEN conjunct2, THEN conjunct2, THEN conjunct1, rule_format])
  show "DQ \<notin> set a \<Longrightarrow> c \<noteq> SP \<Longrightarrow> prog (DQ # a @ DQ # SP # c # s) = a # scan False [] (c # s)"
    by (rule r [THEN conjunct2, THEN conjunct2, THEN conjunct2, THEN conjunct2, THEN conjunct2, THEN conjunct1, rule_format])
  show "DQ \<notin> set a \<Longrightarrow> prog (DQ # a @ [DQ]) = [a]"
    by (rule r [THEN conjunct2, THEN conjunct2, THEN conjunct2, THEN conjunct2, THEN conjunct2, THEN conjunct2, rule_format])
qed

lemma escape_loop_not_Nil [simp]: "escape_loop s n \<noteq> []"
  by (induction s n rule: escape_loop.induct) auto

lemma escape_scan:
  assumes "argv_rules scan prog"
  shows "scan True arg (butlast (escape_loop s n) @ rest) = scan False (arg @ replicate n BS @ s) rest"
proof (induction s n arbitrary: arg rule: escape_loop.induct)
  case (1 n)
  show ?case using argv_rulesD(1) [OF assms, of True arg n rest] by (simp add: butlast_append)
next
  case (2 c s n)
  consider "c = BS" | "c = DQ" | "c \<noteq> BS" "c \<noteq> DQ" by blast
  then show ?case
  proof cases
    case 1
    then show ?thesis using 2(1) [of arg] by (simp add: replicate_app_Cons_same)
  next
    case c: 2
    then show ?thesis
      using 2(2) [of "arg @ replicate n BS @ [DQ]"]
        argv_rulesD(2) [OF assms, of True arg n "butlast (escape_loop s 0) @ rest"]
      by (simp add: butlast_append replicate_app_Cons_same)
  next
    case 3
    then show ?thesis
      using 2(3) [of "arg @ replicate n BS @ [c]"]
        argv_rulesD(3) [OF assms 3, of arg n "butlast (escape_loop s 0) @ rest"]
      by (simp add: butlast_append)
  qed
qed

text \<open>The string of an escaped argument, up to its terminator.\<close>

definition escaped :: "string \<Rightarrow> string" where
  "escaped a = butlast (escape_cmd_str a)"

lemma escaped_eq: "escaped a = DQ # butlast (escape_loop a 0)"
  by (simp add: escaped_def escape_cmd_str_def)

lemma escape_plain:
  "DQ \<notin> set s \<Longrightarrow> (if s = [] then n = 0 else last s \<noteq> BS) \<Longrightarrow> butlast (escape_loop s n) = replicate n BS @ s @ [DQ]"
proof (induction s n rule: escape_loop.induct)
  case (2 c s n)
  then show ?case by (auto simp: butlast_append replicate_append_same split: if_splits)
qed auto

lemma join_simps: "join sep [] = []" "join sep [s] = s" "join sep (s # t # ss) = s @ sep # join sep (t # ss)"
  by (simp_all add: join_def)

lemma scan_args:
  assumes "argv_rules scan prog"
  shows "as \<noteq> [] \<Longrightarrow> scan False [] (join SP (map escaped as)) = as"
proof (induction as)
  case (Cons a as)
  have o: "scan False [] (DQ # t) = scan True [] t" for t
    using argv_rulesD(1) [OF assms, of False "[]" 0 t] by simp
  have e: "scan False [] (escaped a @ t) = scan False a t" for t
    using escape_scan [OF assms, of "[]" a 0 t] o by (simp add: escaped_eq)
  show ?case
  proof (cases as)
    case Nil
    then show ?thesis using e [of "[]"] argv_rulesD(5) [OF assms] by (simp add: join_simps)
  next
    case (Cons b bs)
    obtain t where t: "join SP (map escaped as) = DQ # t"
      using Cons by (cases bs) (auto simp: join_simps escaped_eq)
    have "scan False [] (join SP (map escaped (a # as))) = scan False a (SP # DQ # t)"
      using e Cons t by (simp add: join_simps)
    also have "\<dots> = a # scan False [] (DQ # t)" by (rule argv_rulesD(4) [OF assms]) simp
    finally show ?thesis using Cons.IH Cons t by simp
  qed
qed simp

section \<open>A reader that follows the rules\<close>

text \<open>A concrete reader, to run the rules: \<open>nb\<close> backslashes are held back.\<close>

fun cl_scan :: "bool \<Rightarrow> nat \<Rightarrow> string \<Rightarrow> string \<Rightarrow> string list" where
  "cl_scan inq nb arg [] = [arg @ replicate nb BS]"
| "cl_scan inq nb arg (c # s) =
     (if c = BS then cl_scan inq (nb + 1) arg s
      else if c = DQ then
        (if even nb then cl_scan (\<not> inq) 0 (arg @ replicate (nb div 2) BS) s
         else cl_scan inq 0 (arg @ replicate (nb div 2) BS @ [DQ]) s)
      else if c = SP \<and> \<not> inq then (arg @ replicate nb BS) # cl_scan False 0 [] s
      else cl_scan inq 0 (arg @ replicate nb BS @ [c]) s)"

definition cl_prog :: "string \<Rightarrow> string list" where
  "cl_prog s =
     (let a = takeWhile (\<lambda>c. c \<noteq> DQ) (tl s); r = drop (length a + 3) s
      in if length s \<le> length a + 2 then [a] else a # cl_scan False 0 [] r)"

lemma cl_scan_bs: "cl_scan inq nb arg (replicate n BS @ s) = cl_scan inq (nb + n) arg s"
  by (induction n arbitrary: nb) simp_all

lemma takeWhile_quoted: "DQ \<notin> set a \<Longrightarrow> takeWhile (\<lambda>c. c \<noteq> DQ) (a @ DQ # s) = a"
  by (induction a) auto

lemma drop_quoted: "drop (length a + 3) (DQ # a @ DQ # SP # s) = s"
  by (simp add: numeral_3_eq_3)

lemma cl_rules: "argv_rules (\<lambda>inq. cl_scan inq 0) cl_prog"
  unfolding argv_rules_def
  by (intro conjI allI impI) (simp_all add: cl_scan_bs cl_prog_def takeWhile_quoted drop_quoted Let_def del: drop_Suc_Cons)

section \<open>The memory block of the arguments\<close>

lemma grow_enough: "0 < m \<Longrightarrow> len \<le> grow m len \<and> m \<le> grow m len"
proof (induction m len rule: grow.induct)
  case (1 m len)
  then show ?case by (subst (1 2) grow.simps) auto
qed

text \<open>Where the strings are written: one behind the other, from \<open>index\<close> on.\<close>

fun placed :: "nat \<Rightarrow> string list \<Rightarrow> (nat \<times> string) list" where
  "placed index [] = []"
| "placed index (a # argv) = (index, escape_cmd_str a) # placed (index + length (escape_cmd_str a)) argv"

lemma escape_argv_loop_ok:
  assumes "\<And>n. realloc_ok n" "in_block b" "256 \<le> maxlen b" "i = 0 \<or> 8 * (i + length argv + 1) \<le> maxlen b"
    "8 * (i + length argv + 1) \<le> index"
  shows "\<exists>b'. escape_argv_loop realloc_ok argv i index b = Some b' \<and> in_block b' \<and> 256 \<le> maxlen b' \<and>
    strings b' = strings b @ placed index argv \<and> (i = 0 \<and> argv = [] \<or> 8 * (i + length argv + 1) \<le> maxlen b')"
  using assms
proof (induction argv arbitrary: i index b)
  case Nil
  then show ?case by auto
next
  case (Cons a argv)
  let ?l = "length (escape_cmd_str a)"
  define m where "m = (if index + ?l \<le> maxlen b then maxlen b else grow (maxlen b) (index + ?l))"
  have m: "index + ?l \<le> m" "maxlen b \<le> m" using grow_enough [of "maxlen b" "index + ?l"] Cons.prems(3) by (auto simp: m_def)
  let ?b = "b\<lparr>maxlen := m, strings := strings b @ [(index, escape_cmd_str a)], in_block := True\<rparr>"
  have "8 * i + 8 \<le> maxlen b" using Cons.prems(3,4) by auto
  then have e: "escape_argv_loop realloc_ok (a # argv) i index b = escape_argv_loop realloc_ok argv (i + 1) (index + ?l) ?b"
    using Cons.prems(1,2) m(1) by (auto simp: Let_def m_def split: if_splits)
  have "8 * (i + 1 + length argv + 1) \<le> m" using Cons.prems(5) m(1) by simp
  then obtain b' where "escape_argv_loop realloc_ok argv (i + 1) (index + ?l) ?b = Some b'" "in_block b'" "256 \<le> maxlen b'"
      "strings b' = strings ?b @ placed (index + ?l) argv" "8 * (i + 1 + length argv + 1) \<le> maxlen b'"
    using Cons.IH [of ?b "i + 1" "index + ?l", OF Cons.prems(1)] Cons.prems(3,5) m by auto
  then show ?case unfolding e by simp
qed

section \<open>Properties\<close>

text \<open>
  The arguments of a new process arrive as they were given: the escaped arguments, joined by
  spaces, are read back as the same list by every reader that follows the documented rules. The
  name of the program, which is read without escapes, must not contain a quotation mark nor end
  with a backslash; the other arguments are arbitrary.
\<close>
theorem escaped_command_line_roundtrip:
  assumes "argv_rules scan prog" "DQ \<notin> set a0" "a0 \<noteq> [] \<longrightarrow> last a0 \<noteq> BS"
  shows "prog (join SP (map escaped (a0 # as))) = a0 # as"
proof -
  have e: "escaped a0 = DQ # a0 @ [DQ]" using escape_plain [OF assms(2), of 0] assms(3) by (simp add: escaped_eq)
  show ?thesis
  proof (cases as)
    case Nil
    then show ?thesis using argv_rulesD(7) [OF assms(1,2)] by (simp add: join_simps e)
  next
    case (Cons b bs)
    obtain t where t: "join SP (map escaped as) = DQ # t"
      using Cons by (cases bs) (auto simp: join_simps escaped_eq)
    have "prog (join SP (map escaped (a0 # as))) = a0 # scan False [] (DQ # t)"
      using argv_rulesD(6) [OF assms(1,2), of DQ t] Cons t by (simp add: join_simps e)
    then show ?thesis using scan_args [OF assms(1), of as] Cons t by simp
  qed
qed

theorem escaped_command_line_roundtrip_witness:
  "cl_prog (join SP (map escaped [''C:'' @ [BS] @ ''a b'', [BS, DQ, SP, BS], [], ''x y''])) =
     [''C:'' @ [BS] @ ''a b'', [BS, DQ, SP, BS], [], ''x y'']"
  using escaped_command_line_roundtrip [OF cl_rules, of "''C:'' @ [BS] @ ''a b''" "[[BS, DQ, SP, BS], [], ''x y'']"]
  by simp

text \<open>
  The memory of the escaped arguments. When memory is available the block always grows in time: no
  pointer and no character is written outside of it, whatever the number and the length of the
  arguments, and each escaped string stands behind the array of pointers and behind the previous
  string.
\<close>
theorem escape_argv_in_block:
  assumes "\<And>n. realloc_ok n"
  shows "\<exists>b. escape_argv realloc_ok argv = Some b \<and> in_block b \<and> strings b = placed ((length argv + 1) * 8) argv"
proof -
  obtain b' where b': "escape_argv_loop realloc_ok argv 0 ((length argv + 1) * 8) \<lparr>maxlen = 256, strings = [], in_block = True\<rparr> = Some b'"
      "in_block b'" "256 \<le> maxlen b'" "strings b' = placed ((length argv + 1) * 8) argv"
      "argv = [] \<or> 8 * (length argv + 1) \<le> maxlen b'"
    using escape_argv_loop_ok [of realloc_ok "\<lparr>maxlen = 256, strings = [], in_block = True\<rparr>" 0 argv "(length argv + 1) * 8"] assms
    by auto
  then show ?thesis using assms by (auto simp: escape_argv_def)
qed

theorem escape_argv_in_block_witness:
  "\<exists>b. escape_argv (\<lambda>_. True) [''a'', ''b''] = Some b \<and> in_block b \<and>
     strings b = [(24, [DQ, CHR ''a'', DQ, NUL]), (28, [DQ, CHR ''b'', DQ, NUL])]"
  using escape_argv_in_block [of "\<lambda>_. True" "[''a'', ''b'']"] by (simp add: escape_cmd_str_def)

lemma sum_list_Suc_lengths: "sum_list (map (\<lambda>s. length s + 1) ss) = length (concat ss) + length ss"
  by (induction ss) auto

lemma length_join: "length (join sep ss) + (if ss = [] then 0 else 1) = length (concat ss) + length ss"
  by (cases ss) (auto simp: join_def length_concat o_def sum_list_Suc_lengths [simplified])

text \<open>
  The buffer of a concatenation is large enough, but the environment block that it builds is not
  terminated: the documentation of process creation asks for a null character behind the
  terminator of the last string, and the place behind it is allocated and never written.
\<close>
theorem concat_strv_environment_block:
  assumes "ss \<noteq> []"
  shows "\<exists>cells. concat_strv (Some ss) NUL = Some cells \<and> length cells = concat_tot_len ss \<and>
    take (length (join NUL ss) + 1) cells = map Some (join NUL ss @ [NUL]) \<and>
    length cells = length (join NUL ss) + 2 \<and> last cells = None"
proof -
  have l: "concat_tot_len ss = length (join NUL ss) + 2"
    using length_join [of NUL ss] assms sum_list_Suc_lengths [of ss] by (simp add: concat_tot_len_def)
  then show ?thesis by (simp add: concat_strv_def)
qed

theorem concat_strv_environment_block_witness:
  "\<exists>cells. concat_strv (Some [''A=1'', ''B='']) NUL = Some cells \<and> length cells = 8 \<and> last cells = None"
  using concat_strv_environment_block [of "[''A=1'', ''B='']"] by (auto simp: concat_tot_len_def)

end
