(* ===== verification/Win_Env.thy ===== *)
theory Win_Env
  imports Prelude "HOL-Library.Monad_Syntax"
begin

text \<open>
  The environment in UTF-8 on Windows (\<^verbatim>\<open>src/src/env-win32.c\<close>): a cache of environment strings in front of the
  environment of the C runtime. A buffer is the list of its bytes and a write out of its bounds is
  \<^const>\<open>None\<close>; the conversions between UTF-8 and UTF-16 and the calls of the C runtime are parameters.
\<close>

section \<open>Environment strings\<close>

record envstr =
  es_str :: string
  es_namelen :: nat
  es_maxlen :: nat

record envcache =
  max_arrlen :: nat
  es_array :: "envstr list"
  es_envp :: "string list"

record ('u, 'w) env_os =
  conv16 :: "string \<Rightarrow> 'u list option"
  conv8 :: "'u list \<Rightarrow> string option"
  wgetenv :: "'u list \<Rightarrow> 'w \<Rightarrow> 'u list option"
  wputenv :: "'u list \<Rightarrow> 'u list \<Rightarrow> 'w \<Rightarrow> bool \<times> 'w"
  env_block :: "'w \<Rightarrow> 'u list list option"
  env_malloc :: "nat \<Rightarrow> bool"

text \<open>Writing bytes into a buffer, and the C string that starts at an offset.\<close>

definition poke :: "nat \<Rightarrow> string \<Rightarrow> string \<Rightarrow> string option" where
  "poke off s buf = (if off + length s \<le> length buf then Some (take off buf @ s @ drop (off + length s) buf) else None)"

definition cstr_from :: "nat \<Rightarrow> string \<Rightarrow> string" where
  "cstr_from off buf = takeWhile (\<lambda>c. c \<noteq> NUL) (drop off buf)"

text \<open>The inner option is the failure that the function reports. Bytes that \<open>malloc\<close> leaves undefined are zero here.\<close>

definition envstr_init :: "('u, 'w) env_os \<Rightarrow> string \<Rightarrow> envstr option option" where
  "envstr_init os name =
     (let namelen = length name; maxlen = namelen + 64
      in if \<not> env_malloc os maxlen then Some None
         else do { buf \<leftarrow> poke 0 name (replicate maxlen NUL);
                   buf \<leftarrow> poke namelen ''='' buf;
                   buf \<leftarrow> poke (namelen + 1) [NUL] buf;
                   Some (Some \<lparr> es_str = buf, es_namelen = namelen, es_maxlen = maxlen \<rparr>) })"

definition envstr_get_value :: "envstr \<Rightarrow> string" where
  "envstr_get_value entry = cstr_from (es_namelen entry + 1) (es_str entry)"

text \<open>A larger buffer keeps the bytes of the old one.\<close>

definition envstr_resize_value :: "('u, 'w) env_os \<Rightarrow> envstr \<Rightarrow> int \<Rightarrow> envstr option" where
  "envstr_resize_value os entry value_len =
     (let envstr_len = value_len + int (es_namelen entry) + 2
      in if int (es_maxlen entry) < envstr_len
         then if env_malloc os (nat envstr_len)
              then Some (entry\<lparr>es_str := es_str entry @ replicate (nat envstr_len - length (es_str entry)) NUL,
                               es_maxlen := nat envstr_len\<rparr>)
              else None
         else Some entry)"

definition envstr_set_value :: "('u, 'w) env_os \<Rightarrow> envstr \<Rightarrow> string \<Rightarrow> envstr option option" where
  "envstr_set_value os entry value =
     (case envstr_resize_value os entry (int (length value)) of
        None \<Rightarrow> Some None
      | Some entry \<Rightarrow>
          do { buf \<leftarrow> poke (es_namelen entry + 1) (value @ [NUL]) (es_str entry);
               Some (Some (entry\<lparr>es_str := buf\<rparr>)) })"

section \<open>The cache\<close>

definition envstr_matches :: "string \<Rightarrow> envstr \<Rightarrow> bool" where
  "envstr_matches name e \<longleftrightarrow> length name = es_namelen e \<and> take (length name) (es_str e) = name"

fun find_from :: "string \<Rightarrow> envstr list \<Rightarrow> nat \<Rightarrow> nat option" where
  "find_from name [] i = None"
| "find_from name (e # es) i = (if envstr_matches name e then Some i else find_from name es (Suc i))"

definition envcache_find_entry :: "envcache \<Rightarrow> string \<Rightarrow> nat option" where
  "envcache_find_entry cache name = find_from name (es_array cache) 0"

text \<open>\<open>envcache_create_entry\<close>: the index of the new entry, if it could be made, and the cache.\<close>

definition envcache_create_entry :: "('u, 'w) env_os \<Rightarrow> envcache \<Rightarrow> string \<Rightarrow> (nat option \<times> envcache) option" where
  "envcache_create_entry os cache name =
     (let arrlen = length (es_array cache);
          new_max = (if max_arrlen cache = 0 then 32 else max_arrlen cache * 2);
          grow = arrlen + 1 > max_arrlen cache
      in if grow \<and> \<not> env_malloc os new_max then Some (None, cache)
         else let cache = (if grow then cache\<lparr>max_arrlen := new_max\<rparr> else cache)
              in do { e \<leftarrow> envstr_init os name;
                      Some (case e of
                              None \<Rightarrow> (None, cache)
                            | Some e \<Rightarrow> (Some arrlen, cache\<lparr>es_array := es_array cache @ [e]\<rparr>)) })"

definition envcache_remove_entry :: "envcache \<Rightarrow> nat option \<Rightarrow> envcache" where
  "envcache_remove_entry cache index =
     (case index of
        None \<Rightarrow> cache
      | Some i \<Rightarrow> cache\<lparr>es_array := take i (es_array cache) @ drop (Suc i) (es_array cache)\<rparr>)"

definition envcache_update_envp :: "('u, 'w) env_os \<Rightarrow> envcache \<Rightarrow> string list option \<times> envcache" where
  "envcache_update_envp os cache =
     (if \<not> env_malloc os (length (es_array cache) + 1) then (None, cache)
      else let envp = map (\<lambda>e. cstr_from 0 (es_str e)) (es_array cache) in (Some envp, cache\<lparr>es_envp := envp\<rparr>))"

definition envcache_deinit :: envcache where
  "envcache_deinit = \<lparr> max_arrlen = 0, es_array = [], es_envp = [] \<rparr>"

text \<open>The entry that is found, or else a new one.\<close>

definition find_or_create :: "('u, 'w) env_os \<Rightarrow> envcache \<Rightarrow> string \<Rightarrow> (nat option \<times> envcache) option" where
  "find_or_create os cache name =
     (case envcache_find_entry cache name of Some i \<Rightarrow> Some (Some i, cache) | None \<Rightarrow> envcache_create_entry os cache name)"

section \<open>Operations\<close>

definition get_u16env :: "('u, 'w) env_os \<Rightarrow> string \<Rightarrow> 'w \<Rightarrow> 'u list option" where
  "get_u16env os name w = (case conv16 os name of None \<Rightarrow> None | Some name_u16 \<Rightarrow> wgetenv os name_u16 w)"

definition set_entry :: "envcache \<Rightarrow> nat \<Rightarrow> envstr \<Rightarrow> envcache" where
  "set_entry cache i e = cache\<lparr>es_array := (es_array cache)[i := e]\<rparr>"

text \<open>
  \<open>update_environment_cache\<close>: a string that is not valid UTF-16 or has no \<open>=\<close> is a null pointer that is used.
\<close>

definition update_environment_cache :: "('u, 'w) env_os \<Rightarrow> 'u list \<Rightarrow> envcache \<Rightarrow> envcache option" where
  "update_environment_cache os envstr_u16 cache =
     do { envstr_u8 \<leftarrow> conv8 os envstr_u16;
          if CHR ''='' \<notin> set envstr_u8 then None
          else
            let name = takeWhile (\<lambda>c. c \<noteq> CHR ''='') envstr_u8;
                value = tl (dropWhile (\<lambda>c. c \<noteq> CHR ''='') envstr_u8)
            in do { (index, cache) \<leftarrow> find_or_create os cache name;
                    case index of
                      None \<Rightarrow> Some cache
                    | Some i \<Rightarrow>
                        do { e \<leftarrow> envstr_set_value os (es_array cache ! i) value;
                             Some (case e of None \<Rightarrow> cache | Some e \<Rightarrow> set_entry cache i e) } } }"

fun update_all :: "('u, 'w) env_os \<Rightarrow> 'u list list \<Rightarrow> envcache \<Rightarrow> envcache option" where
  "update_all os [] cache = Some cache"
| "update_all os (s # ss) cache = do { cache \<leftarrow> update_environment_cache os s cache; update_all os ss cache }"

definition get_environ_utf8 :: "('u, 'w) env_os \<Rightarrow> envcache \<Rightarrow> 'w \<Rightarrow> (string list option \<times> envcache) option" where
  "get_environ_utf8 os cache w =
     (case env_block os w of
        None \<Rightarrow> Some (None, cache)
      | Some strs \<Rightarrow> do { cache \<leftarrow> update_all os strs cache; Some (envcache_update_envp os cache) })"

definition getenv_utf8 :: "('u, 'w) env_os \<Rightarrow> string \<Rightarrow> envcache \<Rightarrow> 'w \<Rightarrow> (string option \<times> envcache) option" where
  "getenv_utf8 os name cache w =
     (case envcache_find_entry cache name of
        Some i \<Rightarrow> Some (Some (envstr_get_value (es_array cache ! i)), cache)
      | None \<Rightarrow>
          (case get_u16env os name w of
             None \<Rightarrow> Some (None, cache)
           | Some val_u16 \<Rightarrow>
               do { (index, cache) \<leftarrow> envcache_create_entry os cache name;
                    case index of
                      None \<Rightarrow> Some (None, cache)
                    | Some i \<Rightarrow>
                        let value_len = (case conv8 os val_u16 of None \<Rightarrow> - 1 | Some v \<Rightarrow> int (length v) + 1)
                        in (case envstr_resize_value os (es_array cache ! i) (value_len - 1) of
                              None \<Rightarrow> Some (None, cache)
                            | Some e \<Rightarrow>
                                (case conv8 os val_u16 of
                                   None \<Rightarrow> Some (Some (envstr_get_value e), set_entry cache i e)
                                 | Some v \<Rightarrow>
                                     do { buf \<leftarrow> poke (es_namelen e + 1) (v @ [NUL]) (es_str e);
                                          let e = e\<lparr>es_str := buf\<rparr>
                                          in Some (Some (envstr_get_value e), set_entry cache i e) })) }))"

definition setenv_utf8 ::
  "('u, 'w) env_os \<Rightarrow> string \<Rightarrow> string \<Rightarrow> bool \<Rightarrow> envcache \<Rightarrow> 'w \<Rightarrow> (bool \<times> envcache \<times> 'w) option" where
  "setenv_utf8 os name value overwrite cache w =
     (case (conv16 os name, conv16 os value) of
        (Some name_u16, Some value_u16) \<Rightarrow>
          if \<not> overwrite \<and> wgetenv os name_u16 w \<noteq> None then Some (True, cache, w)
          else
            do { (index, cache) \<leftarrow> find_or_create os cache name;
                 case index of
                   None \<Rightarrow> Some (False, cache, w)
                 | Some i \<Rightarrow>
                     do { e \<leftarrow> envstr_set_value os (es_array cache ! i) value;
                          case e of
                            None \<Rightarrow> Some (False, cache, w)
                          | Some e \<Rightarrow>
                              let cache = set_entry cache i e;
                                  (ok, w) = wputenv os name_u16 value_u16 w
                              in if ok then Some (True, cache, w)
                                 else Some (False, envcache_remove_entry cache (Some i), w) } }
      | _ \<Rightarrow> Some (False, cache, w))"

definition unsetenv_utf8 :: "('u, 'w) env_os \<Rightarrow> string \<Rightarrow> envcache \<Rightarrow> 'w \<Rightarrow> bool \<times> envcache \<times> 'w" where
  "unsetenv_utf8 os name cache w =
     (let cache = envcache_remove_entry cache (envcache_find_entry cache name)
      in case conv16 os name of
           None \<Rightarrow> (False, cache, w)
         | Some name_u16 \<Rightarrow> (case wputenv os name_u16 [] w of (ok, w) \<Rightarrow> (ok, cache, w)))"

section \<open>Buffers\<close>

text \<open>An entry that holds \<open>name=value\<close>.\<close>

definition es_ok :: "envstr \<Rightarrow> string \<Rightarrow> string \<Rightarrow> bool" where
  "es_ok e name value \<longleftrightarrow> es_namelen e = length name \<and> length (es_str e) = es_maxlen e \<and> no_nul value
     \<and> (\<exists>junk. es_str e = name @ CHR ''='' # value @ NUL # junk)"

definition malloc_ok :: "('u, 'w) env_os \<Rightarrow> bool" where
  "malloc_ok os \<longleftrightarrow> (\<forall>n. env_malloc os n)"

lemma envstr_init_ok:
  assumes "malloc_ok os"
  shows "\<exists>e. envstr_init os name = Some (Some e) \<and> es_ok e name []"
proof -
  have 1: "poke 0 name (replicate (length name + 64) NUL) = Some (name @ replicate 64 NUL)"
    by (simp add: poke_def)
  have 2: "poke (length name) ''='' (name @ replicate 64 NUL) = Some (name @ CHR ''='' # replicate 63 NUL)"
    by (simp add: poke_def)
  have 3: "poke (length name + 1) [NUL] (name @ CHR ''='' # replicate 63 NUL) = Some (name @ CHR ''='' # NUL # replicate 62 NUL)"
    by (simp add: poke_def)
  show ?thesis using assms 1 2 3 by (auto simp: envstr_init_def malloc_ok_def es_ok_def Let_def)
qed

lemma takeWhile_nul: "no_nul v \<Longrightarrow> takeWhile (\<lambda>c. c \<noteq> NUL) (v @ NUL # junk) = v"
  by (induction v) auto

lemma get_value_ok: "es_ok e name value \<Longrightarrow> envstr_get_value e = value"
  by (auto simp: es_ok_def envstr_get_value_def cstr_from_def takeWhile_nul)

lemma poke_value:
  assumes "es_ok e name old" "no_nul value" "length value + length name + 2 \<le> length (es_str e)"
  shows "\<exists>buf. poke (es_namelen e + 1) (value @ [NUL]) (es_str e) = Some buf \<and> es_ok (e\<lparr>es_str := buf\<rparr>) name value"
proof -
  obtain r where r: "es_str e = name @ CHR ''='' # r" using assms(1) by (auto simp: es_ok_def)
  show ?thesis using assms r by (auto simp: poke_def es_ok_def)
qed

lemma resize_ok:
  assumes "malloc_ok os" "es_ok e name old"
  shows "\<exists>e'. envstr_resize_value os e n = Some e' \<and> es_ok e' name old \<and> n + int (length name) + 2 \<le> int (length (es_str e'))"
  using assms by (auto simp: envstr_resize_value_def Let_def malloc_ok_def es_ok_def)

lemma set_value_ok:
  assumes "malloc_ok os" "es_ok e name old" "no_nul value"
  shows "\<exists>e'. envstr_set_value os e value = Some (Some e') \<and> es_ok e' name value"
proof -
  obtain e1 where e1: "envstr_resize_value os e (int (length value)) = Some e1" "es_ok e1 name old"
      "int (length value) + int (length name) + 2 \<le> int (length (es_str e1))"
    using resize_ok [OF assms(1,2)] by blast
  then have "length value + length name + 2 \<le> length (es_str e1)" by linarith
  from poke_value [OF e1(2) assms(3) this] show ?thesis using e1(1) by (auto simp: envstr_set_value_def)
qed

section \<open>The cache as a list of names and values\<close>

definition cache_rep :: "envcache \<Rightarrow> (string \<times> string) list \<Rightarrow> bool" where
  "cache_rep cache kv \<longleftrightarrow> list_all2 (\<lambda>e (n, v). es_ok e n v) (es_array cache) kv \<and> distinct (map fst kv)"

lemma matches_ok: "es_ok e n v \<Longrightarrow> envstr_matches name e \<longleftrightarrow> name = n"
  unfolding es_ok_def envstr_matches_def by (metis append_eq_conv_conj)

lemma find_from_rep:
  assumes "list_all2 (\<lambda>e (n, v). es_ok e n v) es kv"
  shows "case find_from name es k of None \<Rightarrow> name \<notin> fst ` set kv | Some i \<Rightarrow> k \<le> i \<and> i - k < length kv \<and> fst (kv ! (i - k)) = name"
  using assms
proof (induction es kv arbitrary: k rule: list_all2_induct)
  case (Cons e es nv kv)
  obtain n v where nv: "nv = (n, v)" by (cases nv)
  have m: "envstr_matches name e \<longleftrightarrow> name = n" using Cons nv matches_ok by simp
  show ?case using Cons(3) [of "Suc k"] m nv by (auto split: option.splits simp: nth_Cons' not_le)
qed simp

lemma find_entry_rep:
  assumes "cache_rep cache kv"
  shows "envcache_find_entry cache name = None \<and> name \<notin> fst ` set kv \<or>
    (\<exists>i. envcache_find_entry cache name = Some i \<and> i < length kv \<and> length (es_array cache) = length kv \<and> fst (kv ! i) = name
         \<and> es_ok (es_array cache ! i) name (snd (kv ! i)))"
proof -
  have l: "list_all2 (\<lambda>e (n, v). es_ok e n v) (es_array cache) kv" using assms by (simp add: cache_rep_def)
  show ?thesis
  proof (cases "find_from name (es_array cache) 0")
    case None
    then show ?thesis using find_from_rep [OF l, of name 0] by (simp add: envcache_find_entry_def)
  next
    case (Some i)
    then have i: "i < length kv" "fst (kv ! i) = name" using find_from_rep [OF l, of name 0] by simp_all
    obtain n v where "kv ! i = (n, v)" by fastforce
    then show ?thesis
      using Some i list_all2_nthD2 [OF l i(1)] list_all2_lengthD [OF l] by (simp add: envcache_find_entry_def)
  qed
qed

lemma find_cases:
  assumes "cache_rep cache kv"
  obtains (miss) "envcache_find_entry cache name = None" "name \<notin> fst ` set kv"
    | (hit) i where "envcache_find_entry cache name = Some i" "i < length kv" "fst (kv ! i) = name"
        "es_ok (es_array cache ! i) name (snd (kv ! i))"
  using find_entry_rep [OF assms, of name] by (elim disjE exE conjE) (rule miss hit; assumption)+

lemma create_rep:
  assumes "malloc_ok os" "cache_rep cache kv" "name \<notin> fst ` set kv"
  shows "\<exists>cache'. envcache_create_entry os cache name = Some (Some (length kv), cache') \<and> cache_rep cache' (kv @ [(name, [])])"
proof -
  have "length (es_array cache) = length kv" using assms(2) list_all2_lengthD by (auto simp: cache_rep_def)
  then show ?thesis
    using envstr_init_ok [OF assms(1), of name] assms
    by (auto simp: envcache_create_entry_def malloc_ok_def Let_def cache_rep_def list_all2_appendI)
qed

lemma set_entry_rep:
  assumes "cache_rep cache kv" "i < length kv" "es_ok e (fst (kv ! i)) v"
  shows "cache_rep (set_entry cache i e) (kv[i := (fst (kv ! i), v)])"
proof -
  have "map fst (kv[i := (fst (kv ! i), v)]) = map fst kv" using assms(2) by (simp add: map_update list_update_same_conv)
  moreover have "length (es_array cache) = length kv" using assms(1) list_all2_lengthD by (auto simp: cache_rep_def)
  ultimately show ?thesis using assms by (auto simp: cache_rep_def set_entry_def intro: list_all2_update_cong)
qed

lemma remove_rep:
  assumes "cache_rep cache kv" "i < length kv"
  shows "cache_rep (envcache_remove_entry cache (Some i)) (take i kv @ drop (Suc i) kv)"
proof -
  have "distinct (map fst (take i kv @ drop (Suc i) kv))"
    using assms set_take_disj_set_drop_if_distinct [of "map fst kv" i "Suc i"]
    by (simp add: cache_rep_def take_map [symmetric] drop_map [symmetric])
  then show ?thesis
    using assms by (auto simp: cache_rep_def envcache_remove_entry_def intro!: list_all2_appendI list_all2_takeI list_all2_dropI)
qed

section \<open>The cache is transparent\<close>

text \<open>The environment without a cache: what the operations mean.\<close>

datatype env_op = Get string | Set string string bool | Unset string

datatype env_res = Value "string option" | Done bool

definition spec_get :: "('u, 'w) env_os \<Rightarrow> string \<Rightarrow> 'w \<Rightarrow> string option" where
  "spec_get os name w = (case get_u16env os name w of None \<Rightarrow> None | Some v \<Rightarrow> conv8 os v)"

fun spec_step :: "('u, 'w) env_os \<Rightarrow> env_op \<Rightarrow> 'w \<Rightarrow> env_res \<times> 'w" where
  "spec_step os (Get name) w = (Value (spec_get os name w), w)"
| "spec_step os (Set name value overwrite) w =
     (case (conv16 os name, conv16 os value) of
        (Some n, Some v) \<Rightarrow>
          if \<not> overwrite \<and> wgetenv os n w \<noteq> None then (Done True, w) else apfst Done (wputenv os n v w)
      | _ \<Rightarrow> (Done False, w))"
| "spec_step os (Unset name) w =
     (case conv16 os name of None \<Rightarrow> (Done False, w) | Some n \<Rightarrow> apfst Done (wputenv os n [] w))"

fun env_step :: "('u, 'w) env_os \<Rightarrow> env_op \<Rightarrow> envcache \<times> 'w \<Rightarrow> (env_res \<times> envcache \<times> 'w) option" where
  "env_step os (Get name) (cache, w) = do { (r, cache) \<leftarrow> getenv_utf8 os name cache w; Some (Value r, cache, w) }"
| "env_step os (Set name value overwrite) (cache, w) =
     do { (r, cache, w) \<leftarrow> setenv_utf8 os name value overwrite cache w; Some (Done r, cache, w) }"
| "env_step os (Unset name) (cache, w) = (case unsetenv_utf8 os name cache w of (r, cache, w) \<Rightarrow> Some (Done r, cache, w))"

fun spec_run :: "('u, 'w) env_os \<Rightarrow> env_op list \<Rightarrow> 'w \<Rightarrow> env_res list \<times> 'w" where
  "spec_run os [] w = ([], w)"
| "spec_run os (x # xs) w = (let (r, w) = spec_step os x w; (rs, w) = spec_run os xs w in (r # rs, w))"

fun env_run :: "('u, 'w) env_os \<Rightarrow> env_op list \<Rightarrow> envcache \<times> 'w \<Rightarrow> (env_res list \<times> envcache \<times> 'w) option" where
  "env_run os [] s = Some ([], s)"
| "env_run os (x # xs) s = do { (r, s) \<leftarrow> env_step os x s; (rs, s) \<leftarrow> env_run os xs s; Some (r # rs, s) }"

text \<open>
  What the system promises: the conversions are inverse on valid strings, the environment holds valid
  strings, and \<open>_wputenv\<close> sets or, with an empty value, removes one variable, or changes nothing when it
  fails. Names with the same \<open>key\<close> are the same variable to the system.
\<close>

definition put_law :: "('u, 'w) env_os \<Rightarrow> ('u list \<Rightarrow> 'k) \<Rightarrow> bool" where
  "put_law os key \<longleftrightarrow>
     (\<forall>n v w ok w' m. wputenv os n v w = (ok, w') \<longrightarrow>
        wgetenv os m w' = (if ok \<and> key m = key n then if v = [] then None else Some v else wgetenv os m w))"

definition env_laws :: "('u, 'w) env_os \<Rightarrow> ('u list \<Rightarrow> 'k) \<Rightarrow> bool" where
  "env_laws os key \<longleftrightarrow>
     (\<forall>s u. conv16 os s = Some u \<longrightarrow> conv8 os u = Some s) \<and> conv16 os [] = Some [] \<and>
     (\<forall>u s. conv8 os u = Some s \<longrightarrow> no_nul s) \<and>
     (\<forall>n w v. wgetenv os n w = Some v \<longrightarrow> conv8 os v \<noteq> None) \<and> put_law os key"

fun op_name :: "env_op \<Rightarrow> string" where
  "op_name (Get n) = n"
| "op_name (Set n v ov) = n"
| "op_name (Unset n) = n"

text \<open>The operations the theorem speaks of: names among \<open>N\<close>, no empty value.\<close>

definition op_ok :: "string set \<Rightarrow> env_op \<Rightarrow> bool" where
  "op_ok N x \<longleftrightarrow> op_name x \<in> N \<and> (\<forall>n v ov. x = Set n v ov \<longrightarrow> v \<noteq> [])"

definition keys_apart :: "('u, 'w) env_os \<Rightarrow> ('u list \<Rightarrow> 'k) \<Rightarrow> string set \<Rightarrow> bool" where
  "keys_apart os key N \<longleftrightarrow>
     (\<forall>a \<in> N. \<forall>b \<in> N. \<forall>u v. conv16 os a = Some u \<and> conv16 os b = Some v \<and> key u = key v \<longrightarrow> a = b)"

definition coherent :: "('u, 'w) env_os \<Rightarrow> string set \<Rightarrow> envcache \<Rightarrow> 'w \<Rightarrow> bool" where
  "coherent os N cache w \<longleftrightarrow>
     (\<exists>kv. cache_rep cache kv \<and> (\<forall>(n, v) \<in> set kv. n \<in> N \<and> spec_get os n w = Some v))"

lemma spec_get_put:
  assumes "env_laws os key" "keys_apart os key N" "wputenv os u v w = (ok, w')" "conv16 os a = Some u" "a \<in> N" "b \<in> N"
  shows "spec_get os b w' =
    (if ok \<and> b = a then if v = [] then None else conv8 os v else spec_get os b w)"
proof (cases "conv16 os b")
  case None
  then show ?thesis using assms(4) by (auto simp: spec_get_def get_u16env_def)
next
  case (Some ub)
  have "key ub = key u \<longleftrightarrow> b = a"
    using assms(2) [unfolded keys_apart_def, rule_format, OF assms(6,5)] assms(4) Some by auto
  moreover have "put_law os key" using assms(1) by (simp add: env_laws_def)
  note this [unfolded put_law_def, rule_format, OF assms(3), of ub]
  ultimately have "wgetenv os ub w' = (if ok \<and> b = a then if v = [] then None else Some v else wgetenv os ub w)"
    by simp
  then show ?thesis using Some by (simp add: spec_get_def get_u16env_def)
qed

lemma get_step:
  assumes "malloc_ok os" "env_laws os key" "coherent os N cache w" "name \<in> N"
  shows "\<exists>cache'. getenv_utf8 os name cache w = Some (spec_get os name w, cache') \<and> coherent os N cache' w"
proof -
  obtain kv where kv: "cache_rep cache kv" "\<forall>(n, v) \<in> set kv. n \<in> N \<and> spec_get os n w = Some v"
    using assms(3) by (auto simp: coherent_def)
  show ?thesis
  proof (rule find_cases [OF kv(1), of name], goal_cases)
    case (2 i)
    note hit = 2
    have "spec_get os name w = Some (snd (kv ! i))" using kv(2) hit(2,3) nth_mem [of i kv] by (auto simp: split_beta)
    then show ?thesis using hit(1) get_value_ok [OF hit(4)] assms(3) by (simp add: getenv_utf8_def)
  next
    case miss: 1
    show ?thesis
    proof (cases "get_u16env os name w")
      case None
      then show ?thesis using miss(1) assms(3) by (simp add: getenv_utf8_def spec_get_def)
    next
      case (Some u)
      have "conv8 os u \<noteq> None" using Some assms(2) by (auto simp: get_u16env_def env_laws_def split: option.splits)
      then obtain v where v: "conv8 os u = Some v" "no_nul v" using assms(2) by (auto simp: env_laws_def)
      obtain c1 where c1: "envcache_create_entry os cache name = Some (Some (length kv), c1)" "cache_rep c1 (kv @ [(name, [])])"
        using create_rep [OF assms(1) kv(1) miss(2)] by blast
      have e0: "es_ok (es_array c1 ! length kv) name []"
        using c1(2) list_all2_nthD2 [of _ "es_array c1" "kv @ [(name, [])]" "length kv"] by (auto simp: cache_rep_def)
      obtain e1 where e1: "envstr_resize_value os (es_array c1 ! length kv) (int (length v)) = Some e1" "es_ok e1 name []"
          "int (length v) + int (length name) + 2 \<le> int (length (es_str e1))"
        using resize_ok [OF assms(1) e0] by blast
      then have "length v + length name + 2 \<le> length (es_str e1)" by linarith
      then obtain buf where b: "poke (es_namelen e1 + 1) (v @ [NUL]) (es_str e1) = Some buf" "es_ok (e1\<lparr>es_str := buf\<rparr>) name v"
        using poke_value [OF e1(2) v(2)] by blast
      let ?c = "set_entry c1 (length kv) (e1\<lparr>es_str := buf\<rparr>)"
      have g: "getenv_utf8 os name cache w = Some (Some v, ?c)"
        using miss(1) Some v(1) c1(1) e1(1) b get_value_ok [OF b(2)] by (simp add: getenv_utf8_def Let_def)
      have "cache_rep ?c (kv @ [(name, v)])" using set_entry_rep [OF c1(2), of "length kv" "e1\<lparr>es_str := buf\<rparr>" v] b(2) by simp
      moreover have sg: "spec_get os name w = Some v" using Some v by (simp add: spec_get_def)
      ultimately have "coherent os N ?c w" using kv(2) assms(4) by (auto simp: coherent_def intro!: exI [of _ "kv @ [(name, v)]"])
      then show ?thesis using g sg by simp
    qed
  qed
qed

lemma find_or_create_rep:
  assumes "malloc_ok os" "cache_rep cache kv"
  shows "\<exists>i cache' kv'. find_or_create os cache name = Some (Some i, cache') \<and> cache_rep cache' kv' \<and> i < length kv'
    \<and> fst (kv' ! i) = name \<and> es_ok (es_array cache' ! i) name (snd (kv' ! i))
    \<and> (\<forall>j < length kv'. j \<noteq> i \<longrightarrow> kv' ! j \<in> set kv)"
proof (rule find_cases [OF assms(2), of name], goal_cases)
  case 1
  obtain c1 where c1: "envcache_create_entry os cache name = Some (Some (length kv), c1)" "cache_rep c1 (kv @ [(name, [])])"
    using create_rep [OF assms(1,2) 1(2)] by blast
  have "es_ok (es_array c1 ! length kv) name []"
    using c1(2) list_all2_nthD2 [of _ "es_array c1" "kv @ [(name, [])]" "length kv"] by (auto simp: cache_rep_def)
  then show ?case using c1 1
    by (intro exI [of _ "length kv"] exI [of _ c1] exI [of _ "kv @ [(name, [])]"]) (auto simp: find_or_create_def nth_append)
next
  case (2 i)
  then show ?case using assms(2)
    by (intro exI [of _ i] exI [of _ cache] exI [of _ kv]) (simp add: find_or_create_def)
qed

lemma others:
  assumes "cache_rep cache kv" "i < length kv" "j < length kv" "j \<noteq> i"
  shows "fst (kv ! j) \<noteq> fst (kv ! i)"
  using assms nth_eq_iff_index_eq [of "map fst kv" j i] by (auto simp: cache_rep_def)

lemma remove_nth_mem: "x \<in> set (take i xs @ drop (Suc i) xs) \<Longrightarrow> i < length xs \<Longrightarrow> \<exists>j < length xs. j \<noteq> i \<and> x = xs ! j"
proof -
  assume a: "x \<in> set (take i xs @ drop (Suc i) xs)" "i < length xs"
  consider "x \<in> set (take i xs)" | "x \<in> set (drop (Suc i) xs)" using a(1) by auto
  then show ?thesis
  proof cases
    case 1
    then obtain j where "j < length (take i xs)" "x = take i xs ! j" by (metis in_set_conv_nth)
    then show ?thesis using a(2) by (intro exI [of _ j]) auto
  next
    case 2
    then obtain j where "j < length (drop (Suc i) xs)" "x = drop (Suc i) xs ! j" by (metis in_set_conv_nth)
    then show ?thesis using a(2) by (intro exI [of _ "Suc i + j"]) auto
  qed
qed

text \<open>The entries other than one, after a call of \<open>_wputenv\<close> for that one.\<close>

lemma coherent_put:
  assumes "env_laws os key" "keys_apart os key N" "wputenv os u v w = (ok, w')" "conv16 os name = Some u" "name \<in> N"
    and "cache_rep cache kv" "\<And>n x. (n, x) \<in> set kv \<Longrightarrow>
      n \<in> N \<and> (n \<noteq> name \<longrightarrow> spec_get os n w = Some x) \<and> (n = name \<longrightarrow> ok \<and> v \<noteq> [] \<and> conv8 os v = Some x)"
  shows "coherent os N cache w'"
proof -
  have "n \<in> N \<and> spec_get os n w' = Some x" if "(n, x) \<in> set kv" for n x
    using assms(7) [OF that] spec_get_put [OF assms(1-5), of n] by (cases "n = name") auto
  then show ?thesis using assms(6) unfolding coherent_def by blast
qed

lemma set_step:
  assumes "malloc_ok os" "env_laws os key" "keys_apart os key N" "coherent os N cache w" "name \<in> N" "val \<noteq> []"
  shows "\<exists>r cache' w'. setenv_utf8 os name val ov cache w = Some (r, cache', w')
    \<and> spec_step os (Set name val ov) w = (Done r, w') \<and> coherent os N cache' w'"
proof (cases "conv16 os name = None \<or> conv16 os val = None \<or> \<not> ov \<and> wgetenv os (the (conv16 os name)) w \<noteq> None")
  case True
  then show ?thesis using assms(4)
    by (cases "conv16 os name"; cases "conv16 os val") (auto simp: setenv_utf8_def)
next
  case False
  then obtain u v where uv: "conv16 os name = Some u" "conv16 os val = Some v" "\<not> (\<not> ov \<and> wgetenv os u w \<noteq> None)" by auto
  have law: "\<And>s u. conv16 os s = Some u \<Longrightarrow> conv8 os u = Some s" "conv16 os [] = Some []" "\<And>u s. conv8 os u = Some s \<Longrightarrow> no_nul s"
    using assms(2) by (simp_all add: env_laws_def)
  have v: "conv8 os v = Some val" "no_nul val" "v \<noteq> []"
    using law(1) [OF uv(2)] law(1) [OF law(2)] law(3) assms(6) by auto
  obtain kv where kv: "cache_rep cache kv" "\<forall>(n, v) \<in> set kv. n \<in> N \<and> spec_get os n w = Some v"
    using assms(4) by (auto simp: coherent_def)
  obtain i c1 kv1 where c1: "find_or_create os cache name = Some (Some i, c1)" "cache_rep c1 kv1" "i < length kv1"
      "fst (kv1 ! i) = name" "es_ok (es_array c1 ! i) name (snd (kv1 ! i))" "\<forall>j < length kv1. j \<noteq> i \<longrightarrow> kv1 ! j \<in> set kv"
    using find_or_create_rep [OF assms(1) kv(1), of name] by blast
  obtain e where e: "envstr_set_value os (es_array c1 ! i) val = Some (Some e)" "es_ok e name val"
    using set_value_ok [OF assms(1) c1(5) v(2)] by blast
  let ?c = "set_entry c1 i e" and ?kv = "kv1[i := (name, val)]"
  have rep: "cache_rep ?c ?kv" using set_entry_rep [OF c1(2,3), of e val] e(2) c1(4) by simp
  obtain ok w' where p: "wputenv os u v w = (ok, w')" by fastforce
  have other: "j < length ?kv \<Longrightarrow> j \<noteq> i \<Longrightarrow> ?kv ! j \<in> set kv \<and> fst (?kv ! j) \<noteq> name" for j
    using c1(6) others [OF rep, of i j] c1(3) by simp
  have mem: "\<exists>j < length ?kv. ?kv ! j = x" if "x \<in> set ?kv" for x using that by (metis in_set_conv_nth)
  have spec: "spec_step os (Set name val ov) w = (Done ok, w')" using uv p by auto
  show ?thesis
  proof (cases ok)
    case True
    have "n \<in> N \<and> (n \<noteq> name \<longrightarrow> spec_get os n w = Some x) \<and> (n = name \<longrightarrow> ok \<and> v \<noteq> [] \<and> conv8 os v = Some x)"
      if nx: "(n, x) \<in> set ?kv" for n x
    proof -
      obtain j where j: "j < length ?kv" "?kv ! j = (n, x)" using mem [OF nx] by blast
      show ?thesis
      proof (cases "j = i")
        case True
        then show ?thesis using j c1(3) assms(5) v \<open>ok\<close> by auto
      next
        case False
        then show ?thesis using j other [of j] kv(2) by auto
      qed
    qed
    then have "coherent os N ?c w'" by (rule coherent_put [OF assms(2,3) p uv(1) assms(5) rep])
    moreover have "setenv_utf8 os name val ov cache w = Some (ok, ?c, w')"
      using uv c1(1) e(1) p True by (auto simp: setenv_utf8_def Let_def)
    ultimately show ?thesis using spec by blast
  next
    case False
    let ?kr = "take i ?kv @ drop (Suc i) ?kv"
    have rr: "cache_rep (envcache_remove_entry ?c (Some i)) ?kr" using remove_rep [OF rep, of i] c1(3) by simp
    have kr: "x \<in> set kv \<and> fst x \<noteq> name" if xr: "x \<in> set ?kr" for x
    proof -
      have "i < length ?kv" using c1(3) by simp
      from remove_nth_mem [OF xr this] obtain j where j: "j < length ?kv" "j \<noteq> i" "x = ?kv ! j" by (elim exE conjE)
      show ?thesis unfolding j(3) by (rule other [OF j(1,2)])
    qed
    have "n \<in> N \<and> (n \<noteq> name \<longrightarrow> spec_get os n w = Some x) \<and> (n = name \<longrightarrow> ok \<and> v \<noteq> [] \<and> conv8 os v = Some x)"
      if nx: "(n, x) \<in> set ?kr" for n x using kr [OF nx] kv(2) by auto
    then have "coherent os N (envcache_remove_entry ?c (Some i)) w'" by (rule coherent_put [OF assms(2,3) p uv(1) assms(5) rr])
    moreover have "setenv_utf8 os name val ov cache w = Some (ok, envcache_remove_entry ?c (Some i), w')"
      using uv c1(1) e(1) p False by (simp add: setenv_utf8_def Let_def)
    ultimately show ?thesis using spec by blast
  qed
qed

lemma unset_step:
  assumes "env_laws os key" "keys_apart os key N" "coherent os N cache w" "name \<in> N"
  shows "\<exists>r cache' w'. unsetenv_utf8 os name cache w = (r, cache', w')
    \<and> spec_step os (Unset name) w = (Done r, w') \<and> coherent os N cache' w'"
proof -
  obtain kv where kv: "cache_rep cache kv" "\<forall>(n, v) \<in> set kv. n \<in> N \<and> spec_get os n w = Some v"
    using assms(3) by (auto simp: coherent_def)
  define c where "c = envcache_remove_entry cache (envcache_find_entry cache name)"
  have "\<exists>kr. cache_rep c kr \<and> (\<forall>x \<in> set kr. x \<in> set kv \<and> fst x \<noteq> name)"
  proof (rule find_cases [OF kv(1), of name], goal_cases)
    case 1
    then show ?case using kv(1) by (intro exI [of _ kv]) (auto simp: c_def envcache_remove_entry_def)
  next
    case (2 i)
    have "x \<in> set (take i kv @ drop (Suc i) kv) \<Longrightarrow> x \<in> set kv \<and> fst x \<noteq> name" for x
      using remove_nth_mem [of x i kv] others [OF kv(1) 2(2)] 2 by auto
    then show ?case using remove_rep [OF kv(1) 2(2)] 2(1)
      by (intro exI [of _ "take i kv @ drop (Suc i) kv"] conjI ballI) (simp_all add: c_def)
  qed
  then obtain kr where kr: "cache_rep c kr" "\<And>x. x \<in> set kr \<Longrightarrow> x \<in> set kv \<and> fst x \<noteq> name" by blast
  show ?thesis
  proof (cases "conv16 os name")
    case None
    have "coherent os N c w" unfolding coherent_def using kr kv(2) by blast
    then show ?thesis using None by (intro exI [of _ False] exI [of _ c] exI [of _ w]) (simp add: unsetenv_utf8_def c_def [symmetric])
  next
    case (Some u)
    obtain ok w' where p: "wputenv os u [] w = (ok, w')" by fastforce
    have "coherent os N c w'"
      by (rule coherent_put [OF assms(1,2) p Some assms(4) kr(1)]) (use kr(2) kv(2) in fastforce)
    then show ?thesis using Some p by (simp add: unsetenv_utf8_def c_def [symmetric])
  qed
qed



text \<open>
  For the examples: the environment of the C runtime is a list of names and values, in which case makes no
  difference; \<open>to_lower\<close> is the key.
\<close>

definition to_lower :: "string \<Rightarrow> string" where
  "to_lower s = map (\<lambda>c. if 0x41 \<le> (of_char c :: nat) \<and> of_char c \<le> (0x5A :: nat) then char_of (of_char c + 32 :: nat) else c) s"

definition demo_os :: "(char, (string \<times> string) list) env_os" where
  "demo_os = \<lparr> conv16 = (\<lambda>s. if no_nul s then Some s else None), conv8 = (\<lambda>s. if no_nul s then Some s else None),
     wgetenv = (\<lambda>n w. case map_of w (to_lower n) of Some v \<Rightarrow> if no_nul v \<and> v \<noteq> [] then Some v else None | None \<Rightarrow> None),
     wputenv = (\<lambda>n v w. if no_nul v then (True, (to_lower n, v) # w) else (False, w)),
     env_block = (\<lambda>w. None), env_malloc = (\<lambda>_. True) \<rparr>"

lemma demo_os_laws: "env_laws demo_os to_lower"
  by (auto simp: env_laws_def put_law_def demo_os_def split: if_splits option.splits)


text \<open>
  Where the cache shows: a variable set to the empty string is removed from the environment of the C
  runtime, but \<open>getenv_utf8\<close> goes on returning an empty string, and a variable read under two spellings that
  the system takes for one keeps its old value under the second spelling after it is set under the first.
\<close>

theorem env_cache_stale:
  "env_run demo_os [Set ''V'' [] True, Get ''V''] (envcache_deinit, [])
     = Some ([Done True, Value (Some [])], \<lparr> max_arrlen = 32,
         es_array = [\<lparr> es_str = ''V='' @ replicate 63 NUL, es_namelen = 1, es_maxlen = 65 \<rparr>], es_envp = [] \<rparr>, [(''v'', [])])
   \<and> fst (spec_run demo_os [Set ''V'' [] True, Get ''V''] []) = [Done True, Value None]
   \<and> map_option fst (env_run demo_os [Set ''path'' ''a'' True, Get ''Path'', Set ''path'' ''b'' True, Get ''Path''] (envcache_deinit, []))
     = Some [Done True, Value (Some ''a''), Done True, Value (Some ''a'')]
   \<and> fst (spec_run demo_os [Set ''path'' ''a'' True, Get ''Path'', Set ''path'' ''b'' True, Get ''Path''] [])
     = [Done True, Value (Some ''a''), Done True, Value (Some ''b'')]"
  by code_simp

end
