(* ===== verification/Win_Fd.thy ===== *)
theory Win_Fd
  imports Timespec "HOL-Library.Monad_Syntax"
begin

unbundle bit_operations_syntax

text \<open>
  File descriptors on Windows (\<^verbatim>\<open>src/src/utils-win32.h\<close>, \<^verbatim>\<open>src/src/utils-win32.c\<close> and
  \<^verbatim>\<open>src/src/file-win32.c\<close>): the table of what is known of each descriptor, reading and writing with the
  conversion of line ends, and the operations that open, duplicate and close descriptors. What
  Windows and the C runtime do is a record of parameters on a world \<open>'w\<close>.
\<close>

section \<open>Error codes\<close>

text \<open>The Windows errors that are told apart; all the others are \<open>W32Other\<close>.\<close>

datatype w32err =
    ERROR_TOO_MANY_OPEN_FILES | WSAEMFILE | ERROR_FILE_EXISTS | ERROR_ALREADY_EXISTS
  | ERROR_INVALID_NAME | ERROR_PATH_NOT_FOUND | ERROR_FILE_NOT_FOUND | ERROR_INVALID_HANDLE
  | ERROR_OUTOFMEMORY | ERROR_ACCESS_DENIED | WSAEACCES | ERROR_INVALID_PARAMETER
  | ERROR_INVALID_ACCESS | ERROR_INVALID_DATA | WSAEINVAL | ERROR_BAD_EXE_FORMAT | WSAESHUTDOWN
  | ERROR_NO_DATA | ERROR_BROKEN_PIPE | ERROR_NOT_SAME_DEVICE | WSASYSNOTREADY
  | ERROR_DIRECTORY_NOT_SUPPORTED | ERROR_DISK_FULL | ERROR_NOT_SUPPORTED | WSAENETDOWN
  | WSAENETUNREACH | WSAVERNOTSUPPORTED | WSAEINPROGRESS | WSAECONNRESET | WSAEFAULT | WSAEMSGSIZE
  | WSAENOBUFS | WSAEISCONN | WSAENOTCONN | WSAENOTSOCK | WSAECONNREFUSED | WSAEDESTADDRREQ
  | WSAEADDRINUSE | WSAEADDRNOTAVAIL | WSAEOPNOTSUPP | WSAEINTR | WSAENOPROTOOPT | WSAEPFNOSUPPORT
  | WSAEAFNOSUPPORT | WSAESOCKTNOSUPPORT | WSAEPROTOTYPE | WSAEPROTONOSUPPORT | WAIT_TIMEOUT
  | WSAETIMEDOUT | ERROR_NO_UNICODE_TRANSLATION | W32Other nat

fun get_errcode_from_w32err :: "w32err \<Rightarrow> errcode" where
  "get_errcode_from_w32err ERROR_TOO_MANY_OPEN_FILES = EMFILE"
| "get_errcode_from_w32err WSAEMFILE = EMFILE"
| "get_errcode_from_w32err ERROR_FILE_EXISTS = EEXIST"
| "get_errcode_from_w32err ERROR_ALREADY_EXISTS = EEXIST"
| "get_errcode_from_w32err ERROR_INVALID_NAME = ENOENT"
| "get_errcode_from_w32err ERROR_PATH_NOT_FOUND = ENOENT"
| "get_errcode_from_w32err ERROR_FILE_NOT_FOUND = ENOENT"
| "get_errcode_from_w32err ERROR_INVALID_HANDLE = EBADF"
| "get_errcode_from_w32err ERROR_OUTOFMEMORY = ENOMEM"
| "get_errcode_from_w32err ERROR_ACCESS_DENIED = EACCES"
| "get_errcode_from_w32err WSAEACCES = EACCES"
| "get_errcode_from_w32err ERROR_INVALID_PARAMETER = EINVAL"
| "get_errcode_from_w32err ERROR_INVALID_ACCESS = EINVAL"
| "get_errcode_from_w32err ERROR_INVALID_DATA = EINVAL"
| "get_errcode_from_w32err WSAEINVAL = EINVAL"
| "get_errcode_from_w32err ERROR_BAD_EXE_FORMAT = ENOEXEC"
| "get_errcode_from_w32err WSAESHUTDOWN = EPIPE"
| "get_errcode_from_w32err ERROR_NO_DATA = EPIPE"
| "get_errcode_from_w32err ERROR_BROKEN_PIPE = EPIPE"
| "get_errcode_from_w32err ERROR_NOT_SAME_DEVICE = EXDEV"
| "get_errcode_from_w32err WSASYSNOTREADY = EISDIR"
| "get_errcode_from_w32err ERROR_DIRECTORY_NOT_SUPPORTED = EISDIR"
| "get_errcode_from_w32err ERROR_DISK_FULL = ENOSPC"
| "get_errcode_from_w32err ERROR_NOT_SUPPORTED = ENOTSUP"
| "get_errcode_from_w32err WSAENETDOWN = ENETDOWN"
| "get_errcode_from_w32err WSAENETUNREACH = ENETUNREACH"
| "get_errcode_from_w32err WSAVERNOTSUPPORTED = ENOSYS"
| "get_errcode_from_w32err WSAEINPROGRESS = EINPROGRESS"
| "get_errcode_from_w32err WSAECONNRESET = ECONNRESET"
| "get_errcode_from_w32err WSAEFAULT = EFAULT"
| "get_errcode_from_w32err WSAEMSGSIZE = EMSGSIZE"
| "get_errcode_from_w32err WSAENOBUFS = ENOBUFS"
| "get_errcode_from_w32err WSAEISCONN = EISCONN"
| "get_errcode_from_w32err WSAENOTCONN = ENOTCONN"
| "get_errcode_from_w32err WSAENOTSOCK = ENOTSOCK"
| "get_errcode_from_w32err WSAECONNREFUSED = ECONNREFUSED"
| "get_errcode_from_w32err WSAEDESTADDRREQ = EDESTADDRREQ"
| "get_errcode_from_w32err WSAEADDRINUSE = EADDRINUSE"
| "get_errcode_from_w32err WSAEADDRNOTAVAIL = EADDRNOTAVAIL"
| "get_errcode_from_w32err WSAEOPNOTSUPP = EOPNOTSUPP"
| "get_errcode_from_w32err WSAEINTR = EINTR"
| "get_errcode_from_w32err WSAENOPROTOOPT = ENOPROTOOPT"
| "get_errcode_from_w32err WSAEPFNOSUPPORT = EAFNOSUPPORT"
| "get_errcode_from_w32err WSAEAFNOSUPPORT = EAFNOSUPPORT"
| "get_errcode_from_w32err WSAESOCKTNOSUPPORT = EPROTOTYPE"
| "get_errcode_from_w32err WSAEPROTOTYPE = EPROTOTYPE"
| "get_errcode_from_w32err WSAEPROTONOSUPPORT = EPROTONOSUPPORT"
| "get_errcode_from_w32err WAIT_TIMEOUT = ETIMEDOUT"
| "get_errcode_from_w32err WSAETIMEDOUT = ETIMEDOUT"
| "get_errcode_from_w32err ERROR_NO_UNICODE_TRANSLATION = EILSEQ"
| "get_errcode_from_w32err (W32Other n) = EIO"

section \<open>Information on a descriptor\<close>

definition FD_TYPE_UNKNOWN :: int where "FD_TYPE_UNKNOWN = 0"
definition FD_TYPE_NORMAL :: int where "FD_TYPE_NORMAL = 1"
definition FD_TYPE_PIPE :: int where "FD_TYPE_PIPE = 2"
definition FD_TYPE_CONSOLE :: int where "FD_TYPE_CONSOLE = 3"
definition FD_TYPE_IPCDGRAM :: int where "FD_TYPE_IPCDGRAM = 4"
definition FD_TYPE_SOCKET :: int where "FD_TYPE_SOCKET = 5"
definition FD_TYPE_MASK :: int where "FD_TYPE_MASK = 7"
definition FD_FLAG_APPEND :: int where "FD_FLAG_APPEND = 8"
definition FD_FLAG_ISATTY :: int where "FD_FLAG_ISATTY = 16"
definition FD_FLAG_TEXT :: int where "FD_FLAG_TEXT = 32"
definition FD_FLAG_CARRY :: int where "FD_FLAG_CARRY = 64"
definition FD_CARRY_POS :: nat where "FD_CARRY_POS = 24"
definition FD_CARRY_MASK :: int where "FD_CARRY_MASK = push_bit FD_CARRY_POS 255"
definition MAX_FD :: nat where "MAX_FD = 2048"

lemmas fd_consts = FD_TYPE_UNKNOWN_def FD_TYPE_NORMAL_def FD_TYPE_PIPE_def FD_TYPE_CONSOLE_def
  FD_TYPE_IPCDGRAM_def FD_TYPE_SOCKET_def FD_TYPE_MASK_def FD_FLAG_APPEND_def FD_FLAG_ISATTY_def
  FD_FLAG_TEXT_def FD_FLAG_CARRY_def FD_CARRY_POS_def FD_CARRY_MASK_def MAX_FD_def

definition fd_info_set_carry_char :: "int \<Rightarrow> char \<Rightarrow> int" where
  "fd_info_set_carry_char info ch =
     (info AND NOT FD_CARRY_MASK) OR push_bit FD_CARRY_POS (of_char ch) OR FD_FLAG_CARRY"

definition fd_info_get_carry_char :: "int \<Rightarrow> char" where
  "fd_info_get_carry_char info = char_of (drop_bit FD_CARRY_POS info AND 255)"

definition fd_info_drop_carry :: "int \<Rightarrow> int" where
  "fd_info_drop_carry info = info AND NOT FD_FLAG_CARRY"

text \<open>The table: one byte for each descriptor. Outside of it the access is out of bounds.\<close>

type_synonym fd_table = "int list"

definition get_fd_info :: "fd_table \<Rightarrow> int \<Rightarrow> int option" where
  "get_fd_info tab fd = (if 0 \<le> fd \<and> nat fd < length tab then Some (tab ! nat fd) else None)"

definition set_fd_info :: "int \<Rightarrow> int \<Rightarrow> fd_table \<Rightarrow> fd_table option" where
  "set_fd_info fd info tab =
     (if 0 \<le> fd \<and> nat fd < length tab then Some (tab[nat fd := info AND 255]) else None)"

datatype w32_file_type = FILE_TYPE_CHAR | FILE_TYPE_PIPE | FILE_TYPE_OTHER

record 'w fd_env =
  osfhandle :: "int \<Rightarrow> int option"
  file_type :: "int \<Rightarrow> w32_file_type"
  console_mode :: "int \<Rightarrow> bool"
  cygpty_pipe :: "int \<Rightarrow> bool"
  text_mode :: "int \<Rightarrow> bool option"
  ReadFile :: "int \<Rightarrow> nat \<Rightarrow> 'w \<Rightarrow> string option \<times> 'w"
  WriteFile :: "int \<Rightarrow> string \<Rightarrow> 'w \<Rightarrow> nat option \<times> 'w"
  dev_read :: "int \<Rightarrow> int \<Rightarrow> nat \<Rightarrow> 'w \<Rightarrow> string option \<times> 'w"
  dev_write :: "int \<Rightarrow> int \<Rightarrow> string \<Rightarrow> 'w \<Rightarrow> nat option \<times> 'w"
  seek_end :: "int \<Rightarrow> 'w \<Rightarrow> 32 word \<times> 'w"
  last_error :: "'w \<Rightarrow> w32err"
  malloca_ok :: "nat \<Rightarrow> bool"

definition guess_fd_info :: "'w fd_env \<Rightarrow> int \<Rightarrow> fd_table \<Rightarrow> (int \<times> fd_table) option" where
  "guess_fd_info env fd tab =
     (case osfhandle env fd of
        None \<Rightarrow> Some (- 1, tab)
      | Some hnd \<Rightarrow>
          let info =
            (if file_type env hnd = FILE_TYPE_CHAR \<and> console_mode env hnd
             then FD_TYPE_CONSOLE OR FD_FLAG_TEXT OR FD_FLAG_ISATTY
             else if file_type env hnd = FILE_TYPE_PIPE \<and> cygpty_pipe env hnd
             then FD_TYPE_PIPE OR FD_FLAG_ISATTY
             else (if file_type env hnd = FILE_TYPE_PIPE then FD_TYPE_PIPE else FD_TYPE_NORMAL)
                  OR (if text_mode env fd = Some True then FD_FLAG_TEXT else 0))
          in map_option (\<lambda>tab. (info, tab)) (set_fd_info fd info tab))"

definition get_fd_info_checked :: "'w fd_env \<Rightarrow> int \<Rightarrow> fd_table \<Rightarrow> (int \<times> fd_table) option" where
  "get_fd_info_checked env fd tab =
     (if fd < 0 \<or> fd \<ge> int MAX_FD then Some (- 1, tab)
      else do { info \<leftarrow> get_fd_info tab fd;
                if info = FD_TYPE_UNKNOWN then guess_fd_info env fd tab else Some (info, tab) })"

text \<open>\<open>close_all_known_fds\<close>: the descriptors closed, and the table.\<close>

definition close_all_known_fds :: "fd_table \<Rightarrow> nat list \<times> fd_table" where
  "close_all_known_fds tab =
     (filter (\<lambda>fd. tab ! fd \<noteq> FD_TYPE_UNKNOWN) [0 ..< length tab], map (\<lambda>_. FD_TYPE_UNKNOWN) tab)"

section \<open>Binary input and output\<close>

definition mmlib_read :: "'w fd_env \<Rightarrow> int \<Rightarrow> nat \<Rightarrow> 'w \<Rightarrow> string option \<times> 'w" where
  "mmlib_read env hnd nbyte w =
     (case ReadFile env hnd nbyte w of
        (None, w) \<Rightarrow> (if last_error env w = ERROR_BROKEN_PIPE then Some [] else None, w)
      | (Some data, w) \<Rightarrow> (Some data, w))"

definition mmlib_write :: "'w fd_env \<Rightarrow> int \<Rightarrow> string \<Rightarrow> 'w \<Rightarrow> nat option \<times> 'w" where
  "mmlib_write env hnd buf w = WriteFile env hnd buf w"

text \<open>
  The choice by type; \<open>dev_read\<close> and \<open>dev_write\<close> are the functions for consoles, sockets and local
  datagrams. An unknown type aborts the program: \<^const>\<open>None\<close>.
\<close>

definition hnd_read_binary :: "'w fd_env \<Rightarrow> int \<Rightarrow> int \<Rightarrow> nat \<Rightarrow> 'w \<Rightarrow> (string option \<times> 'w) option" where
  "hnd_read_binary env hnd fd_info nbyte w =
     (let t = fd_info AND FD_TYPE_MASK
      in if t = FD_TYPE_NORMAL \<or> t = FD_TYPE_PIPE then Some (mmlib_read env hnd nbyte w)
         else if t = FD_TYPE_CONSOLE \<or> t = FD_TYPE_SOCKET \<or> t = FD_TYPE_IPCDGRAM
         then Some (dev_read env t hnd nbyte w) else None)"

definition hnd_write_binary :: "'w fd_env \<Rightarrow> int \<Rightarrow> int \<Rightarrow> string \<Rightarrow> 'w \<Rightarrow> (nat option \<times> 'w) option" where
  "hnd_write_binary env hnd fd_info buf w =
     (let t = fd_info AND FD_TYPE_MASK
      in if t = FD_TYPE_NORMAL \<or> t = FD_TYPE_PIPE then Some (mmlib_write env hnd buf w)
         else if t = FD_TYPE_CONSOLE \<or> t = FD_TYPE_SOCKET \<or> t = FD_TYPE_IPCDGRAM
         then Some (dev_write env t hnd buf w) else None)"

section \<open>Line ends\<close>

abbreviation CR :: char where "CR \<equiv> CHR 0x0D"
abbreviation LF :: char where "LF \<equiv> CHR 0x0A"

text \<open>The expansion of \<open>hnd_write_text\<close>.\<close>

fun lf_to_crlf :: "string \<Rightarrow> string" where
  "lf_to_crlf [] = []"
| "lf_to_crlf (c # cs) = (if c = LF then CR # c # lf_to_crlf cs else c # lf_to_crlf cs)"

text \<open>The second loop: how many characters pairs CR LF are in what has been written.\<close>

fun count_crlf :: "string \<Rightarrow> nat" where
  "count_crlf (c # d # cs) = (if c = CR \<and> d = LF then 1 else 0) + count_crlf (d # cs)"
| "count_crlf _ = 0"

definition hnd_write_text :: "'w fd_env \<Rightarrow> int \<Rightarrow> int \<Rightarrow> string \<Rightarrow> 'w \<Rightarrow> (int \<times> 'w) option" where
  "hnd_write_text env hnd fd_info buf w =
     (if \<not> malloca_ok env (2 * length buf) then Some (- 1, w)
      else let buf_crlf = lf_to_crlf buf
      in do { (res, w) \<leftarrow> hnd_write_binary env hnd fd_info buf_crlf w;
              Some (case res of
                      None \<Rightarrow> - 1
                    | Some n \<Rightarrow> int n - int (count_crlf (take n buf_crlf)), w) })"

definition hnd_write :: "'w fd_env \<Rightarrow> int \<Rightarrow> int \<Rightarrow> string \<Rightarrow> 'w \<Rightarrow> (int \<times> 'w) option" where
  "hnd_write env hnd fd_info buf w =
     (if fd_info AND FD_FLAG_TEXT \<noteq> 0 then hnd_write_text env hnd fd_info buf w
      else do { (res, w) \<leftarrow> hnd_write_binary env hnd fd_info buf w;
                Some (case res of None \<Rightarrow> - 1 | Some n \<Rightarrow> int n, w) })"

text \<open>
  The loop of \<open>conv_crlf_to_lf\<close>, in place: \<open>dst\<close> and \<open>src\<close> are indices of the same buffer. It gives the
  buffer, the place after what has been written and the last character, held back.
\<close>

function crlf_loop :: "string \<Rightarrow> nat \<Rightarrow> nat \<Rightarrow> nat \<Rightarrow> char \<Rightarrow> string \<times> nat \<times> char" where
  "crlf_loop buf dst src src_end prev_ch =
     (if src < src_end
      then let curr_ch = buf ! src
           in if prev_ch = CR \<and> curr_ch = LF then crlf_loop buf dst (Suc src) src_end curr_ch
              else crlf_loop (buf[dst := prev_ch]) (Suc dst) (Suc src) src_end curr_ch
      else (buf, dst, prev_ch))"
  by pat_completeness auto
termination by (relation "measure (\<lambda>(buf, dst, src, src_end, prev_ch). src_end - src)") auto

declare crlf_loop.simps [simp del]

text \<open>The first \<open>rsz\<close> characters of \<open>buf\<close> are converted; the result is the information, the buffer and the size.\<close>

definition conv_crlf_to_lf :: "int \<Rightarrow> string \<Rightarrow> nat \<Rightarrow> nat \<Rightarrow> int \<times> string \<times> nat" where
  "conv_crlf_to_lf fd_info buf rsz maxsz =
     (let (prev_ch, src, fd_info) =
            (if fd_info AND FD_FLAG_CARRY \<noteq> 0
             then (fd_info_get_carry_char fd_info, 0, fd_info_drop_carry fd_info)
             else (buf ! 0, 1, fd_info));
          (buf, dst, prev_ch) = crlf_loop buf 0 src rsz prev_ch
      in if prev_ch = CR \<or> dst = maxsz then (fd_info_set_carry_char fd_info prev_ch, buf, dst)
         else (fd_info, buf[dst := prev_ch], Suc dst))"

text \<open>
  \<open>hnd_read\<close> into the buffer \<open>buf\<close> of the caller: the new information and the data, or \<^const>\<open>None\<close> for an error.
\<close>

definition hnd_read :: "'w fd_env \<Rightarrow> int \<Rightarrow> int \<Rightarrow> string \<Rightarrow> 'w \<Rightarrow> ((int \<times> string option) \<times> 'w) option" where
  "hnd_read env hnd fd_info buf w =
     do { (res, w) \<leftarrow> hnd_read_binary env hnd fd_info (length buf) w;
          case res of
            None \<Rightarrow> Some ((fd_info, None), w)
          | Some data \<Rightarrow>
              if data = [] then Some ((fd_info, Some []), w)
              else if fd_info AND FD_FLAG_TEXT \<noteq> 0
              then let (fd_info, buf, rsz) =
                     conv_crlf_to_lf fd_info (data @ drop (length data) buf) (length data) (length buf)
                   in Some ((fd_info, Some (take rsz buf)), w)
              else Some ((fd_info, Some data), w) }"

section \<open>Operations\<close>

text \<open>\<open>mm_read\<close> and \<open>mm_write\<close>: the result, the table and the world; an error is an error code.\<close>

definition mm_read ::
  "'w fd_env \<Rightarrow> int \<Rightarrow> string \<Rightarrow> fd_table \<Rightarrow> 'w \<Rightarrow> ((errcode + string) \<times> fd_table \<times> 'w) option" where
  "mm_read env fd buf tab w =
     (case osfhandle env fd of
        None \<Rightarrow> Some (Inl EBADF, tab, w)
      | Some hnd \<Rightarrow>
          do { (fd_info, tab) \<leftarrow> get_fd_info_checked env fd tab;
               if fd_info < 0 then Some (Inl EBADF, tab, w)
               else
                 do { ((fd_info, data), w) \<leftarrow> hnd_read env hnd fd_info buf w;
                      Some (case data of
                              None \<Rightarrow> Inl (get_errcode_from_w32err (last_error env w))
                            | Some d \<Rightarrow> Inr d, tab, w) } })"

definition mm_write ::
  "'w fd_env \<Rightarrow> int \<Rightarrow> string \<Rightarrow> fd_table \<Rightarrow> 'w \<Rightarrow> ((errcode + int) \<times> fd_table \<times> 'w) option" where
  "mm_write env fd buf tab w =
     (case osfhandle env fd of
        None \<Rightarrow> Some (Inl EBADF, tab, w)
      | Some hnd \<Rightarrow>
          do { (fd_info, tab) \<leftarrow> get_fd_info_checked env fd tab;
               if fd_info < 0 then Some (Inl EBADF, tab, w)
               else
                 let (pos, w) = (if fd_info AND FD_FLAG_APPEND \<noteq> 0 then seek_end env hnd w else (1, w))
                 in if pos = 0 then Some (Inl (get_errcode_from_w32err (last_error env w)), tab, w)
                    else do { (rsz, w) \<leftarrow> hnd_write env hnd fd_info buf w;
                              Some (if rsz < 0 then Inl (get_errcode_from_w32err (last_error env w)) else Inr rsz, tab, w) } })"

text \<open>What \<open>_dup\<close>, \<open>_dup2\<close> and \<open>_close\<close> answered is an argument.\<close>

definition mm_dup :: "errcode + int \<Rightarrow> int \<Rightarrow> fd_table \<Rightarrow> ((errcode + int) \<times> fd_table) option" where
  "mm_dup dupres fd tab =
     (case dupres of
        Inl e \<Rightarrow> Some (Inl e, tab)
      | Inr newfd \<Rightarrow>
          do { info \<leftarrow> get_fd_info tab fd; tab \<leftarrow> set_fd_info newfd info tab; Some (Inr newfd, tab) })"

definition mm_dup2 :: "retcode \<Rightarrow> int \<Rightarrow> int \<Rightarrow> fd_table \<Rightarrow> ((errcode + int) \<times> fd_table) option" where
  "mm_dup2 dupres fd newfd tab =
     (case dupres of
        Some e \<Rightarrow> Some (Inl e, tab)
      | None \<Rightarrow>
          do { info \<leftarrow> get_fd_info tab fd; tab \<leftarrow> set_fd_info newfd info tab; Some (Inr newfd, tab) })"

definition mm_close :: "retcode \<Rightarrow> int \<Rightarrow> fd_table \<Rightarrow> (retcode \<times> fd_table) option" where
  "mm_close closeres fd tab =
     (if fd = - 1 then Some (None, tab)
      else case closeres of
             Some e \<Rightarrow> Some (Some e, tab)
           | None \<Rightarrow> do { tab \<leftarrow> set_fd_info fd FD_TYPE_UNKNOWN tab; Some (None, tab) })"

text \<open>The descriptor that \<open>_open_osfhandle\<close> gives for a handle, if any.\<close>

definition wrap_handle_into_fd :: "int option \<Rightarrow> int \<Rightarrow> fd_table \<Rightarrow> (int option \<times> fd_table) option" where
  "wrap_handle_into_fd newfd info tab =
     (case newfd of
        None \<Rightarrow> Some (None, tab)
      | Some fd \<Rightarrow> do { tab \<leftarrow> set_fd_info fd info tab; Some (Some fd, tab) })"

definition mm_pipe :: "int option \<Rightarrow> int option \<Rightarrow> fd_table \<Rightarrow> ((int \<times> int) option \<times> fd_table) option" where
  "mm_pipe rd wr tab =
     do { (rfd, tab) \<leftarrow> wrap_handle_into_fd rd FD_TYPE_PIPE tab;
          case rfd of
            None \<Rightarrow> Some (None, tab)
          | Some rfd \<Rightarrow>
              do { (wfd, tab) \<leftarrow> wrap_handle_into_fd wr FD_TYPE_PIPE tab;
                   Some (map_option (Pair rfd) wfd, tab) } }"

definition mm_isatty :: "'w fd_env \<Rightarrow> int \<Rightarrow> fd_table \<Rightarrow> ((errcode + bool) \<times> fd_table) option" where
  "mm_isatty env fd tab =
     do { (info, tab) \<leftarrow> get_fd_info_checked env fd tab;
          Some (if info = - 1 then Inl EBADF else Inr (info AND FD_FLAG_ISATTY = FD_FLAG_ISATTY), tab) }"

section \<open>The carried character\<close>

lemma of_char_bit: "bit (of_char c :: int) n \<Longrightarrow> n < 8"
proof -
  assume b: "bit (of_char c :: int) n"
  have "take_bit 8 (of_char c :: int) = of_char c" by (simp add: take_bit_int_eq_self_iff of_char_def)
  then show "n < 8" using b by (metis bit_take_bit_iff)
qed

lemma FD_CARRY_MASK_bit: "bit FD_CARRY_MASK k \<longleftrightarrow> 24 \<le> k \<and> k < 32"
proof -
  have m: "FD_CARRY_MASK = push_bit 24 (mask 8)" by (simp add: fd_consts mask_eq_exp_minus_1)
  show ?thesis unfolding m by (auto simp: bit_push_bit_iff bit_mask_iff)
qed

lemma FD_FLAG_CARRY_bit: "bit FD_FLAG_CARRY k \<longleftrightarrow> k = 6"
proof -
  have c: "FD_FLAG_CARRY = 2 ^ 6" by (simp add: fd_consts)
  show ?thesis unfolding c by (simp only: bit_exp_iff) auto
qed

lemma carry_bits:
  "bit (fd_info_set_carry_char info ch) n \<longleftrightarrow>
     n = 6 \<or> (24 \<le> n \<and> n < 32 \<and> bit (of_char ch :: int) (n - 24)) \<or> ((n < 24 \<or> 32 \<le> n) \<and> bit info n)"
  using of_char_bit [of ch "n - 24"]
  by (auto simp: fd_info_set_carry_char_def bit_simps FD_CARRY_MASK_bit FD_FLAG_CARRY_bit FD_CARRY_POS_def)

lemma get_set_carry: "fd_info_get_carry_char (fd_info_set_carry_char info ch) = ch"
proof -
  have m: "(255 :: int) = mask 8" by (simp add: mask_eq_exp_minus_1)
  have "drop_bit FD_CARRY_POS (fd_info_set_carry_char info ch) AND 255 = (of_char ch :: int)"
    by (rule bit_eqI) (use of_char_bit [of ch] in \<open>auto simp: m bit_simps carry_bits FD_CARRY_POS_def\<close>)
  then show ?thesis by (simp add: fd_info_get_carry_char_def)
qed

lemma flag_carry: "info AND FD_FLAG_CARRY \<noteq> 0 \<longleftrightarrow> bit info 6"
proof -
  have "info AND FD_FLAG_CARRY \<noteq> 0 \<longleftrightarrow> (\<exists>n. bit (info AND FD_FLAG_CARRY) n)"
    by (metis bit_eq_iff bit_0_eq bot_apply bot_bool_def)
  then show ?thesis by (simp add: bit_and_iff FD_FLAG_CARRY_bit)
qed

text \<open>The text that is held back.\<close>

definition carried :: "int \<Rightarrow> string" where
  "carried info = (if info AND FD_FLAG_CARRY \<noteq> 0 then [fd_info_get_carry_char info] else [])"

lemma carried_length: "length (carried info) \<le> 1"
  by (simp add: carried_def)

lemma carried_set [simp]: "carried (fd_info_set_carry_char info ch) = [ch]"
  by (simp add: carried_def flag_carry carry_bits get_set_carry)

lemma carried_drop [simp]: "carried (fd_info_drop_carry info) = []"
  by (simp add: carried_def flag_carry fd_info_drop_carry_def bit_simps FD_FLAG_CARRY_bit)

section \<open>The conversion of line ends\<close>

text \<open>The specification: a CR in front of a LF is dropped.\<close>

fun crlf :: "string \<Rightarrow> string" where
  "crlf (c # d # cs) = (if c = CR \<and> d = LF then crlf (d # cs) else c # crlf (d # cs))"
| "crlf cs = cs"

lemma crlf_other: "c \<noteq> CR \<Longrightarrow> crlf (c # cs) = c # crlf cs"
  by (cases cs) auto

text \<open>What the loop does on a list, and that working in place makes no difference.\<close>

fun squeeze :: "char \<Rightarrow> string \<Rightarrow> string \<times> char" where
  "squeeze prev_ch [] = ([], prev_ch)"
| "squeeze prev_ch (curr_ch # src) =
     (let (dst, last) = squeeze curr_ch src
      in (if prev_ch = CR \<and> curr_ch = LF then dst else prev_ch # dst, last))"

lemma squeeze_spec: "squeeze c cs = (dst, l) \<Longrightarrow> crlf (c # cs @ rest) = dst @ crlf (l # rest)"
  by (induction c cs arbitrary: dst l rule: squeeze.induct) (auto split: prod.splits if_splits)

lemma squeeze_length: "squeeze c cs = (dst, l) \<Longrightarrow> length dst \<le> length cs"
  by (induction c cs arbitrary: dst l rule: squeeze.induct) (auto split: prod.splits if_splits intro: le_SucI)

lemma crlf_loop_squeeze:
  assumes "dst \<le> src" "src \<le> e" "e \<le> length buf"
  shows "\<exists>buf'. length buf' = length buf \<and> crlf_loop buf dst src e c =
     (buf', dst + length (fst (squeeze c (drop src (take e buf)))), snd (squeeze c (drop src (take e buf))))
     \<and> take (dst + length (fst (squeeze c (drop src (take e buf))))) buf' = take dst buf @ fst (squeeze c (drop src (take e buf)))"
  using assms
proof (induction buf dst src e c rule: crlf_loop.induct)
  case (1 buf dst src e c)
  show ?case
  proof (cases "src < e")
    case True
    have d: "drop src (take e buf) = buf ! src # drop (Suc src) (take e buf)"
      using True 1(5) by (metis Cons_nth_drop_Suc length_take min.absorb2 nth_take)
    obtain xs l where sq: "squeeze (buf ! src) (drop (Suc src) (take e buf)) = (xs, l)" by fastforce
    show ?thesis
    proof (cases "c = CR \<and> buf ! src = LF")
      case skip: True
      from 1(1) [OF True refl skip] 1(3-5) True sq show ?thesis
        by (subst crlf_loop.simps) (use skip d in \<open>simp add: Let_def\<close>)
    next
      case keep: False
      have dd: "drop (Suc src) (take e (buf[dst := c])) = drop (Suc src) (take e buf)"
        using 1(3) by (simp add: take_update_swap)
      from 1(2) [OF True refl keep] 1(3-5) True
      obtain buf' where b: "length buf' = length buf"
          "crlf_loop (buf[dst := c]) (Suc dst) (Suc src) e (buf ! src) = (buf', Suc dst + length xs, l)"
          "take (Suc dst + length xs) buf' = take (Suc dst) (buf[dst := c]) @ xs"
        by (auto simp: dd sq)
      have t: "take (Suc dst) (buf[dst := c]) = take dst buf @ [c]"
        using 1(3,5) True by (simp add: take_Suc_conv_app_nth)
      show ?thesis
        by (subst crlf_loop.simps) (use True keep d sq b t in \<open>auto simp: Let_def\<close>)
    qed
  next
    case False
    then show ?thesis using 1(4,5) by (subst crlf_loop.simps) simp
  qed
qed

lemma conv_stream:
  assumes "0 < rsz" "rsz \<le> length buf" "conv_crlf_to_lf info buf rsz (length buf) = (info', buf', k)"
  shows "crlf (carried info @ take rsz buf @ rest) = take k buf' @ crlf (carried info' @ rest) \<and> k \<le> length buf"
proof -
  define p where "p = (if info AND FD_FLAG_CARRY \<noteq> 0 then (fd_info_get_carry_char info, 0 :: nat, fd_info_drop_carry info)
    else (buf ! 0, 1, info))"
  obtain c i i0 where p: "p = (c, i, i0)" by (cases p)
  have ne: "take rsz buf = buf ! 0 # drop 1 (take rsz buf)"
    using assms(1,2) by (cases buf; cases rsz) auto
  have cs: "carried info @ take rsz buf = c # drop i (take rsz buf)" "carried i0 = []" "i \<le> rsz"
    using p assms(1) ne by (auto simp: p_def carried_def [of info] split: if_splits) (simp_all add: carried_def)
  obtain d l where dl: "squeeze c (drop i (take rsz buf)) = (d, l)" by fastforce
  obtain b1 where b1: "length b1 = length buf" "crlf_loop buf 0 i rsz c = (b1, length d, l)" "take (length d) b1 = d"
    using crlf_loop_squeeze [of 0 i rsz buf c] cs(3) assms(2) dl by auto
  have ld: "length d \<le> length buf" using squeeze_length [OF dl] assms(2) by auto
  have e: "conv_crlf_to_lf info buf rsz (length buf) =
      (if l = CR \<or> length d = length buf then (fd_info_set_carry_char i0 l, b1, length d)
       else (i0, b1[length d := l], Suc (length d)))"
    using p b1(2) unfolding conv_crlf_to_lf_def p_def [symmetric] by simp
  have s: "crlf (carried info @ take rsz buf @ rest) = d @ crlf (l # rest)"
    using squeeze_spec [OF dl, of rest] cs(1) by (metis append_Cons append_assoc)
  show ?thesis
  proof (cases "l = CR \<or> length d = length buf")
    case True
    then show ?thesis using s e assms(3) b1(3) ld by auto
  next
    case False
    then have "take (Suc (length d)) (b1[length d := l]) = d @ [l]"
      using b1(1,3) ld by (simp add: take_Suc_conv_app_nth)
    then show ?thesis using s e assms(3) cs(2) ld False by (auto simp: crlf_other)
  qed
qed

lemma crlf_expand: "crlf (lf_to_crlf cs) = cs"
proof (induction cs)
  case (Cons c cs)
  have "crlf (c # lf_to_crlf cs) = c # crlf (lf_to_crlf cs)" if "c \<noteq> LF"
  proof (cases cs)
    case (Cons d ds)
    then show ?thesis using that by (cases "d = LF") auto
  qed simp
  moreover have "crlf (CR # LF # lf_to_crlf cs) = LF # crlf (lf_to_crlf cs)" by (simp add: crlf_other)
  ultimately show ?case using Cons by auto
qed simp

section \<open>Reading text\<close>

text \<open>Successive calls of \<open>mm_read\<close> on one descriptor, up to the first that fails: the data of each.\<close>

fun mm_reads :: "'w fd_env \<Rightarrow> int \<Rightarrow> string list \<Rightarrow> fd_table \<Rightarrow> 'w \<Rightarrow> (string list \<times> fd_table \<times> 'w) option" where
  "mm_reads env fd [] tab w = Some ([], tab, w)"
| "mm_reads env fd (buf # bufs) tab w =
     do { (r, tab, w) \<leftarrow> mm_read env fd buf tab w;
          case r of
            Inl e \<Rightarrow> Some ([], tab, w)
          | Inr d \<Rightarrow> do { (ds, tab, w) \<leftarrow> mm_reads env fd bufs tab w; Some (d # ds, tab, w) } }"

text \<open>The pieces that a device gives to a sequence of binary reads of given sizes, none of which is empty.\<close>

fun source_gives :: "'w fd_env \<Rightarrow> int \<Rightarrow> int \<Rightarrow> nat list \<Rightarrow> 'w \<Rightarrow> string list \<Rightarrow> bool" where
  "source_gives env hnd info [] w pieces \<longleftrightarrow> pieces = []"
| "source_gives env hnd info (n # ns) w [] \<longleftrightarrow> False"
| "source_gives env hnd info (n # ns) w (p # pieces) \<longleftrightarrow>
     (case hnd_read_binary env hnd info n w of
        Some (Some data, w') \<Rightarrow> data = p \<and> 0 < length p \<and> length p \<le> n \<and> source_gives env hnd info ns w' pieces
      | _ \<Rightarrow> False)"

lemma squeeze_last: "snd (squeeze c cs) = last (c # cs)"
  by (induction c cs rule: squeeze.induct) (auto split: prod.splits)

text \<open>A piece that does not end with a CR is converted for itself, and nothing is held back.\<close>

lemma conv_piece:
  assumes "0 < length p" "length p \<le> length buf" "carried info = []" "last p \<noteq> CR"
  shows "\<exists>buf'. conv_crlf_to_lf info (p @ drop (length p) buf) (length p) (length buf) = (info, buf', length (crlf p))
    \<and> take (length (crlf p)) buf' = crlf p \<and> 0 < length (crlf p) \<and> length (crlf p) \<le> length buf"
proof -
  let ?b = "p @ drop (length p) buf"
  have tb: "take (length p) ?b = p" "length ?b = length buf" using assms(2) by simp_all
  have b0: "?b ! 0 # drop 1 (take (length p) ?b) = p" using assms(1) tb by (cases p) auto
  have fl: "info AND FD_FLAG_CARRY = 0" using assms(3) by (simp add: carried_def split: if_splits)
  obtain d l where sq: "squeeze (?b ! 0) (drop 1 (take (length p) ?b)) = (d, l)" by fastforce
  have l: "l = last p" using squeeze_last [of "?b ! 0" "drop 1 (take (length p) ?b)"] sq b0 by (metis snd_conv)
  have d: "crlf p = d @ [l]" using squeeze_spec [OF sq, of "[]"] b0 by (simp del: drop_append take_append)
  have ld: "length d < length buf" using squeeze_length [OF sq] assms(1,2) by (cases p) simp_all
  obtain b1 where b1: "length b1 = length buf" "crlf_loop ?b 0 1 (length p) (?b ! 0) = (b1, length d, l)" "take (length d) b1 = d"
    using crlf_loop_squeeze [of 0 1 "length p" ?b "?b ! 0"] tb(2) assms(1,2) sq by auto
  have "conv_crlf_to_lf info ?b (length p) (length buf) = (info, b1[length d := l], Suc (length d))"
    using b1(2) l fl ld assms(4) by (simp add: conv_crlf_to_lf_def)
  moreover have "take (Suc (length d)) (b1[length d := l]) = d @ [l]" using b1(1,3) ld by (simp add: take_Suc_conv_app_nth)
  ultimately show ?thesis using d ld by auto
qed

lemma crlf_append: "xs = [] \<or> last xs \<noteq> CR \<Longrightarrow> crlf (xs @ ys) = crlf xs @ crlf ys"
  by (induction xs rule: crlf.induct) (auto simp: crlf_other)

lemma crlf_concat: "list_all (\<lambda>p. last p \<noteq> CR) pieces \<Longrightarrow> list_all (\<lambda>p. p \<noteq> []) pieces \<Longrightarrow> crlf (concat pieces) = concat (map crlf pieces)"
  by (induction pieces) (auto simp: crlf_append)

lemma hnd_read_piece:
  assumes "hnd_read_binary env hnd info (length buf) w = Some (Some p, w')" "0 < length p" "length p \<le> length buf" "carried info = []"
    and "info AND FD_FLAG_TEXT \<noteq> 0 \<Longrightarrow> last p \<noteq> CR"
  defines "d \<equiv> if info AND FD_FLAG_TEXT \<noteq> 0 then crlf p else p"
  shows "hnd_read env hnd info buf w = Some ((info, Some d), w')" "0 < length d" "length d \<le> length buf"
proof -
  have "hnd_read env hnd info buf w = Some ((info, Some d), w') \<and> 0 < length d \<and> length d \<le> length buf"
  proof (cases "info AND FD_FLAG_TEXT \<noteq> 0")
    case True
    then obtain buf' where "conv_crlf_to_lf info (p @ drop (length p) buf) (length p) (length buf) = (info, buf', length (crlf p))"
      "take (length (crlf p)) buf' = crlf p" "0 < length (crlf p)" "length (crlf p) \<le> length buf"
      using conv_piece [OF assms(2-4)] assms(5) by blast
    then show ?thesis using True assms(1,2) by (auto simp: hnd_read_def d_def)
  next
    case False
    then show ?thesis using assms(1-3) by (auto simp: hnd_read_def d_def)
  qed
  then show "hnd_read env hnd info buf w = Some ((info, Some d), w')" "0 < length d" "length d \<le> length buf" by simp_all
qed

text \<open>The calls of \<open>mm_read\<close> once the type of the descriptor is known.\<close>

lemma mm_reads_known:
  assumes "osfhandle env fd = Some hnd" "get_fd_info_checked env fd tab = Some (info, tab)" "0 \<le> info" "carried info = []"
    and "source_gives env hnd info (map length bufs) w pieces" "info AND FD_FLAG_TEXT \<noteq> 0 \<Longrightarrow> list_all (\<lambda>p. last p \<noteq> CR) pieces"
  defines "f \<equiv> \<lambda>p. if info AND FD_FLAG_TEXT \<noteq> 0 then crlf p else p"
  shows "list_all (\<lambda>p. p \<noteq> []) pieces \<and> (\<exists>w'. mm_reads env fd bufs tab w = Some (map f pieces, tab, w')
    \<and> list_all2 (\<lambda>d buf. 0 < length d \<and> length d \<le> length buf) (map f pieces) bufs)"
  using assms(5,6)
proof (induction bufs arbitrary: w pieces)
  case (Cons buf bufs)
  then obtain p ps w1 where p: "pieces = p # ps" "hnd_read_binary env hnd info (length buf) w = Some (Some p, w1)"
    "0 < length p" "length p \<le> length buf" "source_gives env hnd info (map length bufs) w1 ps"
    by (cases pieces) (auto split: option.splits prod.splits)
  have "last p \<noteq> CR" if "info AND FD_FLAG_TEXT \<noteq> 0" using Cons.prems(2) that p(1) by simp
  from hnd_read_piece [OF p(2-4) assms(4) this] have h: "hnd_read env hnd info buf w = Some ((info, Some (f p)), w1)"
    "0 < length (f p)" "length (f p) \<le> length buf" by (simp_all add: f_def)
  have "list_all (\<lambda>p. last p \<noteq> CR) ps" if "info AND FD_FLAG_TEXT \<noteq> 0" using Cons.prems(2) that p(1) by simp
  from Cons.IH [OF p(5) this] obtain w' where
    "list_all (\<lambda>p. p \<noteq> []) ps" "mm_reads env fd bufs tab w1 = Some (map f ps, tab, w')"
    "list_all2 (\<lambda>d buf. 0 < length d \<and> length d \<le> length buf) (map f ps) bufs" by auto
  moreover have "mm_read env fd buf tab w = Some (Inr (f p), tab, w1)" using assms(1-3) h(1) by (simp add: mm_read_def)
  ultimately show ?case using h p(1,3) by auto
qed simp

text \<open>An environment for the examples: the world is the bytes still to read and those written.\<close>

definition demo_env :: "nat \<Rightarrow> nat \<Rightarrow> (string \<times> string) fd_env" where
  "demo_env rmax wmax =
     \<lparr> osfhandle = (\<lambda>fd. if fd = 3 then Some 30 else None),
       file_type = (\<lambda>_. FILE_TYPE_OTHER), console_mode = (\<lambda>_. False), cygpty_pipe = (\<lambda>_. False),
       text_mode = (\<lambda>_. Some True),
       ReadFile = (\<lambda>_ n (inp, out). (Some (take (min n rmax) inp), drop (min n rmax) inp, out)),
       WriteFile = (\<lambda>_ buf (inp, out). (Some (min wmax (length buf)), inp, out @ take wmax buf)),
       dev_read = (\<lambda>_ _ _ w. (None, w)), dev_write = (\<lambda>_ _ _ w. (None, w)),
       seek_end = (\<lambda>_ (inp, out). (of_nat (length out), inp, out)),
       last_error = (\<lambda>_. W32Other 0), malloca_ok = (\<lambda>_. True) \<rparr>"

text \<open>
  What \<open>mm_read\<close> does with the character held back: nothing. When the device gives bytes that end
  with a CR, the data returned is the converted text without that CR, and the descriptor's entry in the
  table is as before, so that no later call can return it. A call that read only the CR returns 0
  bytes, the end of file, although the device had data.
\<close>

theorem mm_read_loses_carry:
  assumes "osfhandle env fd = Some hnd" "get_fd_info_checked env fd tab = Some (info, tab')" "0 \<le> info"
    and "info AND FD_FLAG_TEXT \<noteq> 0" "carried info = []"
    and "hnd_read_binary env hnd info (length buf) w = Some (Some (data @ [CR]), w')" "length data < length buf"
  shows "mm_read env fd buf tab w = Some (Inr (crlf data), tab', w') \<and> crlf (data @ [CR]) = crlf data @ [CR]"
proof -
  have cr: "crlf (xs @ [CR]) = crlf xs @ [CR]" for xs by (induction xs rule: crlf.induct) auto
  define b where "b = data @ CR # drop (Suc (length data)) buf"
  have tb: "take (Suc (length data)) b = data @ [CR]" "length b = length buf" using assms(7) by (simp_all add: b_def)
  have b0: "b ! 0 # drop 1 (take (Suc (length data)) b) = data @ [CR]"
    using tb by (cases data) (auto simp: b_def)
  have fl: "info AND FD_FLAG_CARRY = 0" using assms(5) by (simp add: carried_def split: if_splits)
  obtain d l where sq: "squeeze (b ! 0) (drop 1 (take (Suc (length data)) b)) = (d, l)" by fastforce
  have l: "l = CR" using squeeze_last [of "b ! 0" "drop 1 (take (Suc (length data)) b)"] sq b0 by (metis last_snoc snd_conv)
  have d: "d = crlf data"
    using squeeze_spec [OF sq, of "[]"] b0 l cr [of data] by (metis append_same_eq append_Nil2 crlf.simps(3) append_Cons)
  obtain b1 where b1: "crlf_loop b 0 1 (Suc (length data)) (b ! 0) = (b1, length d, l)" "take (length d) b1 = d"
    using crlf_loop_squeeze [of 0 1 "Suc (length data)" b "b ! 0"] tb(2) assms(7) sq by auto
  have "conv_crlf_to_lf info b (Suc (length data)) (length buf) = (fd_info_set_carry_char info CR, b1, length d)"
    using b1(1) l fl by (simp add: conv_crlf_to_lf_def)
  then have "hnd_read env hnd info buf w = Some ((fd_info_set_carry_char info CR, Some d), w')"
    using assms(4,6) b1(2) by (simp add: hnd_read_def b_def)
  then show ?thesis using assms(1-3) d cr by (simp add: mm_read_def)
qed

theorem mm_read_loses_carry_witness:
  "mm_read (demo_env 3 9) 3 ''........'' (replicate 4 33) ([CR], []) = Some (Inr (crlf []), replicate 4 33, [], [])
     \<and> crlf ([] @ [CR]) = crlf [] @ [CR]"
  by (rule mm_read_loses_carry [where info = 33 and hnd = 30])
    (simp_all add: carried_def demo_env_def hnd_read_binary_def mmlib_read_def get_fd_info_checked_def get_fd_info_def fd_consts)

section \<open>Writing text\<close>

lemma lf_to_crlf_append: "lf_to_crlf (xs @ ys) = lf_to_crlf xs @ lf_to_crlf ys"
  by (induction xs) auto

lemma count_crlf_snoc: "count_crlf (xs @ [c]) = count_crlf xs + (if xs \<noteq> [] \<and> last xs = CR \<and> c = LF then 1 else 0)"
  by (induction xs rule: count_crlf.induct) auto

lemma count_crlf_expand: "count_crlf (lf_to_crlf xs) + length xs = length (lf_to_crlf xs)"
proof (induction xs rule: rev_induct)
  case (snoc x xs)
  have "count_crlf (lf_to_crlf xs @ [CR]) = count_crlf (lf_to_crlf xs)" by (simp add: count_crlf_snoc)
  then have "count_crlf (lf_to_crlf xs @ [CR, LF]) = Suc (count_crlf (lf_to_crlf xs))"
    using count_crlf_snoc [of "lf_to_crlf xs @ [CR]" LF] by simp
  then show ?case using snoc by (auto simp: lf_to_crlf_append count_crlf_snoc)
qed simp

text \<open>The prefix of the expanded text that has been written ends after a character of the text, or inside a line end.\<close>

lemma expand_prefix:
  assumes "n \<le> length (lf_to_crlf xs)"
  shows "\<exists>k \<le> length xs. take n (lf_to_crlf xs) = lf_to_crlf (take k xs)
     \<or> (k < length xs \<and> xs ! k = LF \<and> take n (lf_to_crlf xs) = lf_to_crlf (take k xs) @ [CR])"
  using assms
proof (induction xs arbitrary: n)
  case (Cons x xs)
  show ?case
  proof (cases "n \<le> (if x = LF then 1 else 0)")
    case True
    then show ?thesis by (intro exI [of _ 0]) (cases n; auto split: if_splits)
  next
    case False
    then obtain m where m: "n = (if x = LF then Suc (Suc m) else Suc m)"
      by (cases n; cases "n - 1") (auto split: if_splits)
    with Cons(2) have "m \<le> length (lf_to_crlf xs)" by (auto split: if_splits)
    from Cons(1) [OF this] obtain k where "k \<le> length xs" "take m (lf_to_crlf xs) = lf_to_crlf (take k xs)
       \<or> (k < length xs \<and> xs ! k = LF \<and> take m (lf_to_crlf xs) = lf_to_crlf (take k xs) @ [CR])" by blast
    then show ?thesis using m by (intro exI [of _ "Suc k"]) (auto split: if_splits)
  qed
qed simp

text \<open>
  What \<open>hnd_write_text\<close> returns: when the device takes \<open>n\<close> bytes of the expanded text, the count \<open>r\<close>
  is such that the first \<open>r\<close> characters of the buffer expand to exactly these \<open>n\<close> bytes (so a complete
  write returns the size of the buffer, and reading the bytes back as text gives the buffer), unless the
  device stopped between the CR and the LF of a line end: then the count includes a LF that was not written.
\<close>

theorem hnd_write_text_count:
  assumes "malloca_ok env (2 * length buf)"
    and "hnd_write_binary env hnd info (lf_to_crlf buf) w = Some (Some n, w')" "n \<le> length (lf_to_crlf buf)"
  shows "\<exists>r \<le> length buf. hnd_write_text env hnd info buf w = Some (int r, w')
    \<and> (lf_to_crlf (take r buf) = take n (lf_to_crlf buf)
       \<or> 0 < r \<and> buf ! (r - 1) = LF \<and> lf_to_crlf (take r buf) = take n (lf_to_crlf buf) @ [LF])
    \<and> (n = length (lf_to_crlf buf) \<longrightarrow> r = length buf) \<and> crlf (lf_to_crlf (take r buf)) = take r buf"
proof -
  let ?x = "lf_to_crlf buf"
  have res: "hnd_write_text env hnd info buf w = Some (int n - int (count_crlf (take n ?x)), w')"
    using assms by (simp add: hnd_write_text_def)
  obtain k where k: "k \<le> length buf" "take n ?x = lf_to_crlf (take k buf)
       \<or> (k < length buf \<and> buf ! k = LF \<and> take n ?x = lf_to_crlf (take k buf) @ [CR])"
    using expand_prefix [OF assms(3)] by blast
  have len: "length (take n ?x) = n" using assms(3) by simp
  have full: "r = length buf" if "n = length ?x" "int n - int (count_crlf (take n ?x)) = int r" for r
    using that count_crlf_expand [of buf] by simp
  from k(2) show ?thesis
  proof
    assume e: "take n ?x = lf_to_crlf (take k buf)"
    have r: "int n - int (count_crlf (take n ?x)) = int k"
      using count_crlf_expand [of "take k buf"] e len k(1) by simp
    show ?thesis using res r e k(1) full [OF _ r] by (intro exI [of _ k]) (simp add: crlf_expand)
  next
    assume e: "k < length buf \<and> buf ! k = LF \<and> take n ?x = lf_to_crlf (take k buf) @ [CR]"
    then have n: "n = Suc (length (lf_to_crlf (take k buf)))" using len by (metis length_append_singleton)
    have r: "int n - int (count_crlf (take n ?x)) = int (Suc k)"
      using count_crlf_expand [of "take k buf"] e n by (simp add: count_crlf_snoc)
    have "lf_to_crlf (take (Suc k) buf) = take n ?x @ [LF]"
      using e by (simp add: take_Suc_conv_app_nth lf_to_crlf_append)
    then show ?thesis using res r e full [OF _ r] crlf_expand [of "take (Suc k) buf"] by (intro exI [of _ "Suc k"]) simp
  qed
qed

theorem hnd_write_text_count_witness:
  "\<exists>r \<le> length [LF, LF]. hnd_write_text (demo_env 9 3) 30 33 [LF, LF] ([], []) = Some (int r, [], [CR, LF, CR])
    \<and> (lf_to_crlf (take r [LF, LF]) = take 3 (lf_to_crlf [LF, LF])
       \<or> 0 < r \<and> [LF, LF] ! (r - 1) = LF \<and> lf_to_crlf (take r [LF, LF]) = take 3 (lf_to_crlf [LF, LF]) @ [LF])
    \<and> (3 = length (lf_to_crlf [LF, LF]) \<longrightarrow> r = length [LF, LF]) \<and> crlf (lf_to_crlf (take r [LF, LF])) = take r [LF, LF]"
  by (rule hnd_write_text_count) (simp_all add: demo_env_def hnd_write_binary_def mmlib_write_def fd_consts)

text \<open>
  A descriptor opened for appending on an empty file cannot be written: the end of the file is at
  position 0, \<open>mm_write\<close> takes the position that \<open>SetFilePointer\<close> returns for its success and reports an error,
  without writing. A failure of \<open>SetFilePointer\<close>, which it reports as \<open>0xFFFFFFFF\<close>, goes unnoticed: the data
  is written where the file pointer is.
\<close>

theorem mm_write_append:
  assumes "osfhandle env fd = Some hnd" "get_fd_info_checked env fd tab = Some (info, tab')" "0 \<le> info"
    and "info AND FD_FLAG_APPEND \<noteq> 0" "seek_end env hnd w = (pos, w')"
  shows "mm_write env fd buf tab w =
    (if pos = 0 then Some (Inl (get_errcode_from_w32err (last_error env w')), tab', w')
     else do { (rsz, w'') \<leftarrow> hnd_write env hnd info buf w';
               Some (if rsz < 0 then Inl (get_errcode_from_w32err (last_error env w'')) else Inr rsz, tab', w'') })"
  using assms by (simp add: mm_write_def)

theorem mm_write_append_witness:
  "mm_write (demo_env 9 9) 3 ''data'' (replicate 4 9) ([], []) = Some (Inl EIO, replicate 4 9, [], [])"
  by (subst mm_write_append [where info = 9 and hnd = 30 and pos = 0 and tab' = "replicate 4 9" and w' = "([], [])"])
    (simp_all add: demo_env_def get_fd_info_checked_def get_fd_info_def fd_consts)

section \<open>The table\<close>

definition fd_table_ok :: "fd_table \<Rightarrow> bool" where
  "fd_table_ok tab \<longleftrightarrow> length tab = MAX_FD \<and> (\<forall>info \<in> set tab. 0 \<le> info \<and> info < 256)"

definition fd_ok :: "int \<Rightarrow> bool" where
  "fd_ok fd \<longleftrightarrow> 0 \<le> fd \<and> fd < int MAX_FD"

lemma byte_and: "0 \<le> info AND 255" "(info :: int) AND 255 < 256"
proof -
  have "info AND 255 = take_bit 8 info" by (simp add: take_bit_eq_mask mask_eq_exp_minus_1)
  then show "0 \<le> info AND 255" "info AND 255 < 256" by (simp_all add: take_bit_int_less_exp [of 8, simplified])
qed

lemma set_fd_info_ok:
  assumes "fd_table_ok tab" "fd_ok fd"
  obtains tab' where "set_fd_info fd info tab = Some tab'" "fd_table_ok tab'"
    "\<And>fd'. fd_ok fd' \<Longrightarrow> get_fd_info tab' fd' = (if fd' = fd then Some (info AND 255) else get_fd_info tab fd')"
proof
  show "set_fd_info fd info tab = Some (tab[nat fd := info AND 255])"
    using assms by (simp add: set_fd_info_def fd_table_ok_def fd_ok_def nat_less_iff)
  show "fd_table_ok (tab[nat fd := info AND 255])"
    using assms byte_and [of info] by (auto simp: fd_table_ok_def dest: set_update_subset_insert [THEN subsetD])
  show "get_fd_info (tab[nat fd := info AND 255]) fd' = (if fd' = fd then Some (info AND 255) else get_fd_info tab fd')"
    if "fd_ok fd'" for fd'
    using assms that by (auto simp: get_fd_info_def fd_table_ok_def fd_ok_def nat_less_iff nth_list_update)
qed

lemma get_fd_info_ok:
  assumes "fd_table_ok tab" "fd_ok fd"
  obtains info where "get_fd_info tab fd = Some info" "0 \<le> info" "info < 256"
  using assms by (force simp: get_fd_info_def fd_table_ok_def fd_ok_def nat_less_iff)


lemma guess_fd_info_bounds:
  assumes "fd_table_ok tab" "fd_ok fd"
  shows "\<exists>info tab'. guess_fd_info env fd tab = Some (info, tab') \<and> fd_table_ok tab'
    \<and> (info = - 1 \<and> tab' = tab \<or> 0 < info \<and> info < 256 \<and> get_fd_info tab' fd = Some info)"
proof (cases "osfhandle env fd")
  case None
  then show ?thesis using assms by (simp add: guess_fd_info_def)
next
  case (Some hnd)
  define info where "info = (if file_type env hnd = FILE_TYPE_CHAR \<and> console_mode env hnd
             then FD_TYPE_CONSOLE OR FD_FLAG_TEXT OR FD_FLAG_ISATTY
             else if file_type env hnd = FILE_TYPE_PIPE \<and> cygpty_pipe env hnd
             then FD_TYPE_PIPE OR FD_FLAG_ISATTY
             else (if file_type env hnd = FILE_TYPE_PIPE then FD_TYPE_PIPE else FD_TYPE_NORMAL)
                  OR (if text_mode env fd = Some True then FD_FLAG_TEXT else 0))"
  have i: "0 < info \<and> info < 256 \<and> info AND 255 = info" by (simp add: info_def fd_consts)
  obtain tab' where "set_fd_info fd info tab = Some tab'" "fd_table_ok tab'" "get_fd_info tab' fd = Some info"
    using set_fd_info_ok [OF assms, of info] assms(2) i by metis
  then show ?thesis using Some i by (simp add: guess_fd_info_def Let_def info_def [symmetric])
qed

text \<open>
  With a table of the size of the code and descriptors below it, \<open>get_fd_info_checked\<close> never accesses
  the table out of bounds and keeps its entries bytes; its answer is \<open>- 1\<close> or a known type, and a type it
  has guessed is remembered: the next call returns the same without asking the system.
\<close>

theorem get_fd_info_checked_memo:
  assumes "fd_table_ok tab"
  shows "\<exists>info tab'. get_fd_info_checked env fd tab = Some (info, tab') \<and> fd_table_ok tab'
    \<and> (info = - 1 \<or> 0 < info \<and> info < 256 \<and> (\<forall>env'. get_fd_info_checked env' fd tab' = Some (info, tab')))
    \<and> (\<not> fd_ok fd \<longrightarrow> info = - 1)"
proof (cases "fd_ok fd")
  case True
  obtain i where i: "get_fd_info tab fd = Some i" "0 \<le> i" "i < 256" using get_fd_info_ok [OF assms True] by metis
  show ?thesis
  proof (cases "i = FD_TYPE_UNKNOWN")
    case unk: True
    obtain info tab' where g: "guess_fd_info env fd tab = Some (info, tab')" "fd_table_ok tab'"
      "info = - 1 \<and> tab' = tab \<or> 0 < info \<and> info < 256 \<and> get_fd_info tab' fd = Some info"
      using guess_fd_info_bounds [OF assms True] by metis
    then show ?thesis using True i unk by (auto simp: get_fd_info_checked_def fd_ok_def FD_TYPE_UNKNOWN_def)
  next
    case False
    then show ?thesis using True i assms by (auto simp: get_fd_info_checked_def fd_ok_def FD_TYPE_UNKNOWN_def)
  qed
next
  case False
  then show ?thesis using assms by (auto simp: get_fd_info_checked_def fd_ok_def)
qed

theorem get_fd_info_checked_memo_witness:
  "\<exists>info tab'. get_fd_info_checked (demo_env 1 1) 3 (replicate 2048 0) = Some (info, tab') \<and> fd_table_ok tab'
    \<and> (info = - 1 \<or> 0 < info \<and> info < 256 \<and> (\<forall>env' :: (string \<times> string) fd_env. get_fd_info_checked env' 3 tab' = Some (info, tab')))
    \<and> (\<not> fd_ok 3 \<longrightarrow> info = - 1)"
  by (rule get_fd_info_checked_memo) (simp add: fd_table_ok_def MAX_FD_def)

text \<open>
  C23. Reading through \<open>mm_read\<close>, from a descriptor that holds no character back: whatever the sizes of the buffers and of the pieces that
  the device gives, the calls succeed and together return the bytes of the device, on a text descriptor with each CR LF
  made a LF. No call returns more than its buffer holds, and none returns 0 bytes, which would mean the end of the file. On a text
  descriptor no piece may end with a CR, which \<open>mm_read\<close> loses (\<open>mm_read_loses_carry\<close>).
\<close>

theorem read_text_stream:
  assumes "fd_table_ok tab" "osfhandle env fd = Some hnd" "get_fd_info_checked env fd tab = Some (info, tab')" "0 \<le> info" "carried info = []"
    and "source_gives env hnd info (map length bufs) w pieces" "info AND FD_FLAG_TEXT \<noteq> 0 \<longrightarrow> list_all (\<lambda>p. last p \<noteq> CR) pieces"
  shows "\<exists>outs tab'' w'. mm_reads env fd bufs tab w = Some (outs, tab'', w')
    \<and> concat outs = (if info AND FD_FLAG_TEXT \<noteq> 0 then crlf (concat pieces) else concat pieces)
    \<and> list_all2 (\<lambda>d buf. 0 < length d \<and> length d \<le> length buf) outs bufs"
proof -
  let ?f = "\<lambda>p. if info AND FD_FLAG_TEXT \<noteq> 0 then crlf p else p"
  have memo: "get_fd_info_checked env fd tab' = Some (info, tab')"
    using get_fd_info_checked_memo [OF assms(1), of env fd] assms(3,4) by auto
  from mm_reads_known [OF assms(2) memo assms(4-6)] assms(7) obtain w' where
    r: "list_all (\<lambda>p. p \<noteq> []) pieces" "mm_reads env fd bufs tab' w = Some (map ?f pieces, tab', w')"
    "list_all2 (\<lambda>d buf. 0 < length d \<and> length d \<le> length buf) (map ?f pieces) bufs" by blast
  have "\<exists>tab''. mm_reads env fd bufs tab w = Some (map ?f pieces, tab'', w')"
  proof (cases bufs)
    case Nil
    then show ?thesis using r(2) by simp
  next
    case (Cons b bs)
    have "mm_read env fd b tab w = mm_read env fd b tab' w" using assms(2,3) memo by (simp add: mm_read_def)
    then show ?thesis using r(2) Cons by simp
  qed
  moreover have "concat (map ?f pieces) = (if info AND FD_FLAG_TEXT \<noteq> 0 then crlf (concat pieces) else concat pieces)"
    using crlf_concat [of pieces] r(1) assms(7) by auto
  ultimately show ?thesis using r(3) by (elim exE) (intro exI conjI, assumption+)
qed

theorem read_text_stream_witness:
  "\<exists>outs tab'' w'. mm_reads (demo_env 3 9) 3 [''........'', ''........'', ''...''] (replicate MAX_FD 33)
        ([CHR ''a'', CR, LF] @ [CHR ''b'', CR, LF] @ [CR, CHR ''c'', LF], []) = Some (outs, tab'', w')
    \<and> concat outs = [CHR ''a'', LF, CHR ''b'', LF, CR, CHR ''c'', LF]"
proof -
  let ?p = "[[CHR ''a'', CR, LF], [CHR ''b'', CR, LF], [CR, CHR ''c'', LF]]"
  have t: "fd_table_ok (replicate MAX_FD 33)" "(0 :: int) \<le> 33" "carried 33 = []" "(33 :: int) AND FD_FLAG_TEXT \<noteq> 0"
    by (simp_all add: fd_table_ok_def carried_def fd_consts)
  have i: "osfhandle (demo_env 3 9) 3 = Some 30" "get_fd_info_checked (demo_env 3 9) 3 (replicate MAX_FD 33) = Some (33, replicate MAX_FD 33)"
    by (simp_all add: demo_env_def get_fd_info_checked_def get_fd_info_def fd_consts)
  have g: "source_gives (demo_env 3 9) 30 33 (map length [''........'', ''........'', ''...'']) (concat ?p, []) ?p"
    by (simp add: demo_env_def hnd_read_binary_def mmlib_read_def fd_consts)
  have l: "(33 :: int) AND FD_FLAG_TEXT \<noteq> 0 \<longrightarrow> list_all (\<lambda>p. last p \<noteq> CR) ?p" by simp
  from read_text_stream [OF t(1) i t(2,3) g l] obtain outs tab'' w' where
    "mm_reads (demo_env 3 9) 3 [''........'', ''........'', ''...''] (replicate MAX_FD 33) (concat ?p, []) = Some (outs, tab'', w')"
    "concat outs = crlf (concat ?p)" using t(4) by auto
  then show ?thesis by (intro exI [of _ outs] exI [of _ tab''] exI [of _ w']) (simp del: mm_reads.simps)
qed

section \<open>The operations on descriptors\<close>

text \<open>
  The operations that change the table, with what the C runtime answered; a step gives the result of the operation and the
  table.
\<close>

datatype fd_op =
    OpDup "errcode + int" int
  | OpDup2 retcode int int
  | OpClose retcode int
  | OpPipe "int option" "int option"
  | OpWrap "int option" int
  | OpCloseAll

datatype fd_out =
    OutFd "errcode + int"
  | OutRet retcode
  | OutPipe "(int \<times> int) option"
  | OutWrap "int option"
  | OutClosed "nat list"

fun fd_step :: "fd_op \<Rightarrow> fd_table \<Rightarrow> (fd_out \<times> fd_table) option" where
  "fd_step (OpDup r fd) tab = map_option (map_prod OutFd id) (mm_dup r fd tab)"
| "fd_step (OpDup2 r fd newfd) tab = map_option (map_prod OutFd id) (mm_dup2 r fd newfd tab)"
| "fd_step (OpClose r fd) tab = map_option (map_prod OutRet id) (mm_close r fd tab)"
| "fd_step (OpPipe r w) tab = map_option (map_prod OutPipe id) (mm_pipe r w tab)"
| "fd_step (OpWrap r info) tab = map_option (map_prod OutWrap id) (wrap_handle_into_fd r info tab)"
| "fd_step OpCloseAll tab = Some (map_prod OutClosed id (close_all_known_fds tab))"

fun fd_run :: "fd_op list \<Rightarrow> fd_table \<Rightarrow> (fd_out list \<times> fd_table) option" where
  "fd_run [] tab = Some ([], tab)"
| "fd_run (x # xs) tab = do { (out, tab) \<leftarrow> fd_step x tab; (outs, tab) \<leftarrow> fd_run xs tab; Some (out # outs, tab) }"

text \<open>
  The specification: a map from the descriptors whose type is known to their information. A duplicate has the information of
  its original, a closed descriptor is forgotten, and so are all of them at the end.
\<close>

type_synonym fd_infos = "int \<rightharpoonup> int"

definition known_info :: "int \<Rightarrow> int option" where
  "known_info info = (if info AND 255 = FD_TYPE_UNKNOWN then None else Some (info AND 255))"

fun spec_step :: "fd_op \<Rightarrow> fd_infos \<Rightarrow> fd_out \<times> fd_infos" where
  "spec_step (OpDup r fd) m = (OutFd r, case r of Inr newfd \<Rightarrow> m(newfd := m fd) | Inl e \<Rightarrow> m)"
| "spec_step (OpDup2 r fd newfd) m =
     (case r of None \<Rightarrow> (OutFd (Inr newfd), m(newfd := m fd)) | Some e \<Rightarrow> (OutFd (Inl e), m))"
| "spec_step (OpClose r fd) m =
     (if fd = - 1 then (OutRet None, m) else (OutRet r, if r = None then m(fd := None) else m))"
| "spec_step (OpPipe r w) m =
     (case (r, w) of
        (None, _) \<Rightarrow> (OutPipe None, m)
      | (Some rd, None) \<Rightarrow> (OutPipe None, m(rd \<mapsto> FD_TYPE_PIPE))
      | (Some rd, Some wr) \<Rightarrow> (OutPipe (Some (rd, wr)), m(rd \<mapsto> FD_TYPE_PIPE, wr \<mapsto> FD_TYPE_PIPE)))"
| "spec_step (OpWrap r info) m = (OutWrap r, case r of None \<Rightarrow> m | Some fd \<Rightarrow> m(fd := known_info info))"
| "spec_step OpCloseAll m = (OutClosed (filter (\<lambda>fd. m (int fd) \<noteq> None) [0..<MAX_FD]), Map.empty)"

fun spec_run :: "fd_op list \<Rightarrow> fd_infos \<Rightarrow> fd_out list \<times> fd_infos" where
  "spec_run [] m = ([], m)"
| "spec_run (x # xs) m = (let (out, m) = spec_step x m; (outs, m) = spec_run xs m in (out # outs, m))"

text \<open>The map that a table represents.\<close>

definition fd_infos :: "fd_table \<Rightarrow> fd_infos" where
  "fd_infos tab = (\<lambda>fd. if fd_ok fd then Option.bind (get_fd_info tab fd) known_info else None)"

text \<open>The C runtime works only with descriptors below its maximum.\<close>

fun fd_op_ok :: "fd_op \<Rightarrow> bool" where
  "fd_op_ok (OpDup r fd) \<longleftrightarrow> (\<forall>newfd. r = Inr newfd \<longrightarrow> fd_ok fd \<and> fd_ok newfd)"
| "fd_op_ok (OpDup2 r fd newfd) \<longleftrightarrow> (r = None \<longrightarrow> fd_ok fd \<and> fd_ok newfd)"
| "fd_op_ok (OpClose r fd) \<longleftrightarrow> (r = None \<longrightarrow> fd_ok fd \<or> fd = - 1)"
| "fd_op_ok (OpPipe r w) \<longleftrightarrow> pred_option fd_ok r \<and> pred_option fd_ok w"
| "fd_op_ok (OpWrap r info) \<longleftrightarrow> pred_option fd_ok r"
| "fd_op_ok OpCloseAll \<longleftrightarrow> True"

lemma known_and [simp]: "known_info (info AND 255) = known_info info"
  by (simp add: known_info_def and.assoc)

lemma set_fd_info_infos:
  assumes "fd_table_ok tab" "fd_ok fd"
  obtains tab' where "set_fd_info fd info tab = Some tab'" "fd_table_ok tab'" "fd_infos tab' = (fd_infos tab)(fd := known_info info)"
proof -
  obtain tab' where t: "set_fd_info fd info tab = Some tab'" "fd_table_ok tab'"
    "\<And>fd'. fd_ok fd' \<Longrightarrow> get_fd_info tab' fd' = (if fd' = fd then Some (info AND 255) else get_fd_info tab fd')"
    using set_fd_info_ok [OF assms] by metis
  have "fd_infos tab' = (fd_infos tab)(fd := known_info info)" using t(3) assms(2) by (auto simp: fd_infos_def fun_eq_iff)
  then show thesis using t(1,2) that by blast
qed

lemma copy_info:
  assumes "fd_table_ok tab" "fd_ok fd" "fd_ok newfd"
  obtains info tab' where "get_fd_info tab fd = Some info" "set_fd_info newfd info tab = Some tab'" "fd_table_ok tab'"
    "fd_infos tab' = (fd_infos tab)(newfd := fd_infos tab fd)"
proof -
  obtain info where i: "get_fd_info tab fd = Some info" using get_fd_info_ok [OF assms(1,2)] by metis
  obtain tab' where "set_fd_info newfd info tab = Some tab'" "fd_table_ok tab'" "fd_infos tab' = (fd_infos tab)(newfd := known_info info)"
    using set_fd_info_infos [OF assms(1,3)] by metis
  then show thesis using that i assms(2) by (simp add: fd_infos_def)
qed

lemma wrap_infos:
  assumes "fd_table_ok tab" "pred_option fd_ok r"
  obtains tab' where "wrap_handle_into_fd r info tab = Some (r, tab')" "fd_table_ok tab'"
    "fd_infos tab' = (case r of None \<Rightarrow> fd_infos tab | Some fd \<Rightarrow> (fd_infos tab)(fd := known_info info))"
proof (cases r)
  case None
  then show thesis using that assms by (simp add: wrap_handle_into_fd_def)
next
  case (Some fd)
  then obtain tab' where "set_fd_info fd info tab = Some tab'" "fd_table_ok tab'" "fd_infos tab' = (fd_infos tab)(fd := known_info info)"
    using set_fd_info_infos assms by (metis option.pred_inject(2))
  then show thesis using that Some by (simp add: wrap_handle_into_fd_def)
qed

lemma close_all_infos:
  assumes "fd_table_ok tab"
  shows "fst (close_all_known_fds tab) = filter (\<lambda>fd. fd_infos tab (int fd) \<noteq> None) [0..<MAX_FD]"
    "fd_table_ok (snd (close_all_known_fds tab))" "fd_infos (snd (close_all_known_fds tab)) = Map.empty"
proof -
  have byte: "info AND 255 = info" if "info \<in> set tab" for info
  proof -
    have "info AND 255 = take_bit 8 info" by (simp add: take_bit_eq_mask mask_eq_exp_minus_1)
    then show ?thesis using assms that by (simp add: fd_table_ok_def take_bit_int_eq_self)
  qed
  have "tab ! fd \<noteq> FD_TYPE_UNKNOWN \<longleftrightarrow> fd_infos tab (int fd) \<noteq> None" if "fd < MAX_FD" for fd
    using that assms byte [of "tab ! fd"] by (simp add: fd_infos_def fd_ok_def get_fd_info_def fd_table_ok_def known_info_def)
  then have "filter (\<lambda>fd. tab ! fd \<noteq> FD_TYPE_UNKNOWN) [0..<MAX_FD] = filter (\<lambda>fd. fd_infos tab (int fd) \<noteq> None) [0..<MAX_FD]"
    by (intro filter_cong) simp_all
  then show "fst (close_all_known_fds tab) = filter (\<lambda>fd. fd_infos tab (int fd) \<noteq> None) [0..<MAX_FD]"
    using assms by (simp add: close_all_known_fds_def fd_table_ok_def)
  show "fd_table_ok (snd (close_all_known_fds tab))" "fd_infos (snd (close_all_known_fds tab)) = Map.empty"
    using assms by (auto simp: close_all_known_fds_def fd_table_ok_def fd_infos_def get_fd_info_def known_info_def fun_eq_iff fd_consts)
qed

lemma known_pipe [simp]: "known_info FD_TYPE_PIPE = Some FD_TYPE_PIPE" "known_info FD_TYPE_UNKNOWN = None"
  by (simp_all add: known_info_def fd_consts)

lemma fd_step_refines:
  assumes "fd_table_ok tab" "fd_op_ok x"
  shows "\<exists>out tab'. fd_step x tab = Some (out, tab') \<and> fd_table_ok tab' \<and> spec_step x (fd_infos tab) = (out, fd_infos tab')"
proof (cases x)
  case (OpDup r fd)
  then show ?thesis using assms by (cases r) (auto simp: mm_dup_def elim: copy_info)
next
  case (OpDup2 r fd newfd)
  then show ?thesis using assms by (cases r) (auto simp: mm_dup2_def elim: copy_info)
next
  case (OpClose r fd)
  show ?thesis
  proof (cases "r = None \<and> fd \<noteq> - 1")
    case True
    then obtain tab' where "set_fd_info fd FD_TYPE_UNKNOWN tab = Some tab'" "fd_table_ok tab'"
      "fd_infos tab' = (fd_infos tab)(fd := known_info FD_TYPE_UNKNOWN)"
      using set_fd_info_infos [OF assms(1), of fd FD_TYPE_UNKNOWN] assms(2) OpClose by auto
    then show ?thesis using True OpClose by (simp add: mm_close_def)
  next
    case False
    then show ?thesis using assms(1) OpClose by (auto simp: mm_close_def split: option.splits)
  qed
next
  case (OpPipe r w)
  obtain t1 where 1: "wrap_handle_into_fd r FD_TYPE_PIPE tab = Some (r, t1)" "fd_table_ok t1"
    "fd_infos t1 = (case r of None \<Rightarrow> fd_infos tab | Some fd \<Rightarrow> (fd_infos tab)(fd := known_info FD_TYPE_PIPE))"
    using wrap_infos [OF assms(1)] assms(2) OpPipe by (metis fd_op_ok.simps(4))
  obtain t2 where 2: "wrap_handle_into_fd w FD_TYPE_PIPE t1 = Some (w, t2)" "fd_table_ok t2"
    "fd_infos t2 = (case w of None \<Rightarrow> fd_infos t1 | Some fd \<Rightarrow> (fd_infos t1)(fd := known_info FD_TYPE_PIPE))"
    using wrap_infos [OF 1(2)] assms(2) OpPipe by (metis fd_op_ok.simps(4))
  show ?thesis using 1 2 OpPipe by (cases r; cases w) (simp_all add: mm_pipe_def)
next
  case (OpWrap r info)
  then obtain tab' where "wrap_handle_into_fd r info tab = Some (r, tab')" "fd_table_ok tab'"
    "fd_infos tab' = (case r of None \<Rightarrow> fd_infos tab | Some fd \<Rightarrow> (fd_infos tab)(fd := known_info info))"
    using wrap_infos [OF assms(1)] assms(2) by (metis fd_op_ok.simps(5))
  then show ?thesis using OpWrap by (cases r) simp_all
next
  case OpCloseAll
  then show ?thesis using close_all_infos [OF assms(1)] by (simp add: map_prod_def split_beta)
qed



end
