(* ===== verification/Win_Attr.thy ===== *)
theory Win_Attr
  imports Win_Fd
begin

text \<open>
  Attributes of files on Windows (\<^verbatim>\<open>src/src/utils-win32.h\<close>, \<^verbatim>\<open>src/src/utils-win32.c\<close>,
  \<^verbatim>\<open>src/src/file-win32.c\<close>): how the open flags become the arguments of \<open>CreateFile\<close>, how permission bits
  become access control entries and come back from them, the two representations of time, and what
  \<open>mm_stat\<close> reports.
\<close>

section \<open>Open flags\<close>

text \<open>The flags of \<^verbatim>\<open>fcntl.h\<close> and the constants of \<^verbatim>\<open>windows.h\<close>, with their values there.\<close>

definition O_WRONLY :: int where "O_WRONLY = 1"
definition O_RDWR :: int where "O_RDWR = 2"
definition O_APPEND :: int where "O_APPEND = 8"
definition O_CREAT :: int where "O_CREAT = 256"
definition O_TRUNC :: int where "O_TRUNC = 512"
definition O_EXCL :: int where "O_EXCL = 1024"
definition GENERIC_READ :: int where "GENERIC_READ = 0x80000000"
definition GENERIC_WRITE :: int where "GENERIC_WRITE = 0x40000000"
definition FILE_ATTRIBUTE_NORMAL :: int where "FILE_ATTRIBUTE_NORMAL = 128"

datatype creation_mode = CREATE_NEW | CREATE_ALWAYS | OPEN_EXISTING | OPEN_ALWAYS | TRUNCATE_EXISTING

record w32_create_file_options =
  access_mode :: int
  create_mode :: creation_mode
  file_attribute :: int

lemmas oflag_consts = O_WRONLY_def O_RDWR_def O_APPEND_def O_CREAT_def O_TRUNC_def O_EXCL_def
  GENERIC_READ_def GENERIC_WRITE_def FILE_ATTRIBUTE_NORMAL_def

text \<open>\<open>O_RDONLY\<close> is 0. The access mode, or EINVAL.\<close>

definition set_access_mode :: "int \<Rightarrow> errcode + int" where
  "set_access_mode oflags =
     (let m = oflags AND (O_WRONLY OR O_RDWR)
      in if m = 0 then Inr GENERIC_READ
         else if m = O_WRONLY then Inr GENERIC_WRITE
         else if m = O_RDWR then Inr (GENERIC_READ OR GENERIC_WRITE)
         else Inl EINVAL)"

text \<open>\<^const>\<open>None\<close>: the case the code takes for impossible, in which it aborts.\<close>

definition set_creation_mode :: "int \<Rightarrow> creation_mode option" where
  "set_creation_mode oflags =
     (let m = oflags AND (O_TRUNC OR O_CREAT OR O_EXCL)
      in if m = 0 \<or> m = O_EXCL then Some OPEN_EXISTING
         else if m = O_CREAT then Some OPEN_ALWAYS
         else if m = O_TRUNC \<or> m = (O_TRUNC OR O_EXCL) then Some TRUNCATE_EXISTING
         else if m = (O_CREAT OR O_EXCL) \<or> m = (O_CREAT OR O_TRUNC OR O_EXCL) then Some CREATE_NEW
         else if m = (O_CREAT OR O_TRUNC) then Some CREATE_ALWAYS
         else None)"

definition set_w32_create_file_options :: "int \<Rightarrow> (errcode + w32_create_file_options) option" where
  "set_w32_create_file_options oflags =
     (case set_access_mode oflags of
        Inl e \<Rightarrow> Some (Inl e)
      | Inr acc \<Rightarrow>
          map_option (\<lambda>cr. Inr \<lparr> access_mode = acc, create_mode = cr, file_attribute = FILE_ATTRIBUTE_NORMAL \<rparr>)
            (set_creation_mode oflags))"

section \<open>Permission bits\<close>

definition S_IREAD :: int where "S_IREAD = 0x100"
definition S_IWRITE :: int where "S_IWRITE = 0x80"
definition S_IEXEC :: int where "S_IEXEC = 0x40"
definition FILE_READ_DATA :: int where "FILE_READ_DATA = 1"
definition FILE_WRITE_DATA :: int where "FILE_WRITE_DATA = 2"
definition FILE_EXECUTE :: int where "FILE_EXECUTE = 0x20"
definition FILE_GENERIC_READ :: int where "FILE_GENERIC_READ = 0x120089"
definition FILE_GENERIC_WRITE :: int where "FILE_GENERIC_WRITE = 0x120116"
definition FILE_GENERIC_EXECUTE :: int where "FILE_GENERIC_EXECUTE = 0x1200A0"

text \<open>READ\_CONTROL, SYNCHRONIZE, FILE\_READ\_ATTRIBUTES, FILE\_READ\_EA.\<close>

definition MIN_ACCESS_FLAGS :: int where
  "MIN_ACCESS_FLAGS = 0x20000 OR 0x100000 OR 0x80 OR 8"

text \<open>DELETE, WRITE\_DAC, WRITE\_OWNER, FILE\_WRITE\_EA, FILE\_WRITE\_ATTRIBUTES.\<close>

definition MIN_OWNER_ACCESS_FLAGS :: int where
  "MIN_OWNER_ACCESS_FLAGS = 0x10000 OR 0x40000 OR 0x80000 OR 0x10 OR 0x100"

definition MODE_DEF :: int where "MODE_DEF = 0x10000"

lemmas mode_consts = S_IREAD_def S_IWRITE_def S_IEXEC_def FILE_READ_DATA_def FILE_WRITE_DATA_def
  FILE_EXECUTE_def FILE_GENERIC_READ_def FILE_GENERIC_WRITE_def FILE_GENERIC_EXECUTE_def
  MIN_ACCESS_FLAGS_def MIN_OWNER_ACCESS_FLAGS_def MODE_DEF_def

definition access_to_mode :: "int \<Rightarrow> int" where
  "access_to_mode access =
     (if access AND FILE_READ_DATA \<noteq> 0 then S_IREAD else 0) OR
     (if access AND FILE_WRITE_DATA \<noteq> 0 then S_IWRITE else 0) OR
     (if access AND FILE_EXECUTE \<noteq> 0 then S_IEXEC else 0)"

definition get_access_from_perm_bits :: "int \<Rightarrow> int" where
  "get_access_from_perm_bits mode =
     MIN_ACCESS_FLAGS OR
     (if mode AND S_IREAD \<noteq> 0 then FILE_GENERIC_READ else 0) OR
     (if mode AND S_IWRITE \<noteq> 0 then FILE_GENERIC_WRITE else 0) OR
     (if mode AND S_IEXEC \<noteq> 0 then FILE_GENERIC_EXECUTE else 0)"

text \<open>
  An access control entry, and a security descriptor: owner, group, whether an access control list is
  present and the list, which may be a null pointer.
\<close>

record 's ace =
  ace_allowed :: bool
  ace_mask :: int
  ace_sid :: 's

record 's secdesc =
  sd_owner :: "'s option"
  sd_group :: "'s option"
  dacl_present :: bool
  dacl :: "'s ace list option"

text \<open>
  The list that \<open>local_secdesc_init_from_mode\<close> builds from the identities of the caller; \<^const>\<open>None\<close> when the
  default descriptor is asked for. The owner and the group of the descriptor are left to the system.
\<close>

definition local_secdesc_init_from_mode :: "'s \<Rightarrow> 's \<Rightarrow> 's \<Rightarrow> int \<Rightarrow> 's secdesc option" where
  "local_secdesc_init_from_mode owner grp everyone mode =
     (if mode AND MODE_DEF \<noteq> 0 then None
      else Some \<lparr> sd_owner = None, sd_group = None, dacl_present = True,
             dacl = Some
               [\<lparr> ace_allowed = True, ace_mask = get_access_from_perm_bits mode OR MIN_OWNER_ACCESS_FLAGS, ace_sid = owner \<rparr>,
                \<lparr> ace_allowed = True, ace_mask = get_access_from_perm_bits (push_bit 3 mode), ace_sid = grp \<rparr>,
                \<lparr> ace_allowed = True, ace_mask = get_access_from_perm_bits (push_bit 6 mode), ace_sid = everyone \<rparr>] \<rparr>)"

definition ace_mode :: "'s \<Rightarrow> 's secdesc \<Rightarrow> 's ace \<Rightarrow> int" where
  "ace_mode everyone sd a =
     (if \<not> ace_allowed a then 0
      else if sd_owner sd = Some (ace_sid a) then access_to_mode (ace_mask a)
      else if sd_group sd = Some (ace_sid a) then drop_bit 3 (access_to_mode (ace_mask a))
      else if ace_sid a = everyone then drop_bit 6 (access_to_mode (ace_mask a))
      else 0)"

definition local_secdesc_get_mode :: "'s \<Rightarrow> 's secdesc \<Rightarrow> int" where
  "local_secdesc_get_mode everyone sd =
     (case dacl sd of
        None \<Rightarrow> if dacl_present sd then 0 else 0x1FF
      | Some acl \<Rightarrow> fold (\<lambda>a mode. mode OR ace_mode everyone sd a) acl 0)"

section \<open>Time\<close>

record filetime =
  dwLowDateTime :: "32 word"
  dwHighDateTime :: "32 word"

definition FT_EPOCH :: "64 word" where
  "FT_EPOCH = push_bit 32 27111902 + 3577643008"

definition filetime_to_timespec :: "filetime \<Rightarrow> mm_timespec" where
  "filetime_to_timespec ft =
     (let q = (word_cat (dwHighDateTime ft) (dwLowDateTime ft) :: 64 word) - FT_EPOCH
      in \<lparr> tv_sec = uint (q div 10000000), tv_nsec = uint ((q mod 10000000) * 100) \<rparr>)"

definition filetime_to_time :: "filetime \<Rightarrow> int" where
  "filetime_to_time ft = tv_sec (filetime_to_timespec ft)"

text \<open>The product of the signed seconds must be representable; \<^const>\<open>None\<close> is undefined behaviour.\<close>

definition timespec_to_filetime :: "mm_timespec \<Rightarrow> filetime option" where
  "timespec_to_filetime ts =
     (if in_i64 (tv_sec ts * 10000000)
      then let q = word_of_int (tv_sec ts * 10000000) + word_of_int (tv_nsec ts sdiv 100) + FT_EPOCH :: 64 word
           in Some \<lparr> dwLowDateTime = ucast q, dwHighDateTime = ucast (drop_bit 32 q) \<rparr>
      else None)"

definition UTIME_NOW :: int where "UTIME_NOW = - 1"
definition UTIME_OMIT :: int where "UTIME_OMIT = - 2"

text \<open>\<open>hnd_utimens\<close>: the two times given to \<open>SetFileTime\<close>; a zero time leaves the file's time as it is.\<close>

definition utimens_arg :: "filetime \<Rightarrow> mm_timespec option \<Rightarrow> filetime option" where
  "utimens_arg now ts =
     (case ts of
        None \<Rightarrow> Some now
      | Some t \<Rightarrow> if tv_nsec t = UTIME_NOW then Some now
                  else if tv_nsec t = UTIME_OMIT then Some \<lparr> dwLowDateTime = 0, dwHighDateTime = 0 \<rparr>
                  else timespec_to_filetime t)"

definition hnd_utimens :: "filetime \<Rightarrow> (mm_timespec \<times> mm_timespec) option \<Rightarrow> (filetime \<times> filetime) option" where
  "hnd_utimens now ts =
     do { aft \<leftarrow> utimens_arg now (map_option fst ts);
          mft \<leftarrow> utimens_arg now (map_option snd ts);
          Some (aft, mft) }"

section \<open>Status of a file\<close>

definition FILE_ATTRIBUTE_DIRECTORY :: int where "FILE_ATTRIBUTE_DIRECTORY = 0x10"
definition FILE_ATTRIBUTE_ARCHIVE :: int where "FILE_ATTRIBUTE_ARCHIVE = 0x20"
definition FILE_ATTRIBUTE_REPARSE_POINT :: int where "FILE_ATTRIBUTE_REPARSE_POINT = 0x400"
definition IO_REPARSE_TAG_SYMLINK :: int where "IO_REPARSE_TAG_SYMLINK = 0xA000000C"
definition IO_REPARSE_TAG_MOUNT_POINT :: int where "IO_REPARSE_TAG_MOUNT_POINT = 0xA0000003"
definition MAXDWORD :: int where "MAXDWORD = 0xFFFFFFFF"

definition MM_DT_UNKNOWN :: int where "MM_DT_UNKNOWN = 0"
definition MM_DT_FIFO :: int where "MM_DT_FIFO = 2"
definition MM_DT_CHR :: int where "MM_DT_CHR = 4"
definition MM_DT_BLK :: int where "MM_DT_BLK = 8"
definition MM_DT_DIR :: int where "MM_DT_DIR = 16"
definition MM_DT_REG :: int where "MM_DT_REG = 32"
definition MM_DT_LNK :: int where "MM_DT_LNK = 64"
definition MM_DT_SOCK :: int where "MM_DT_SOCK = 128"

lemmas stat_consts = FILE_ATTRIBUTE_DIRECTORY_def FILE_ATTRIBUTE_ARCHIVE_def FILE_ATTRIBUTE_REPARSE_POINT_def
  IO_REPARSE_TAG_SYMLINK_def IO_REPARSE_TAG_MOUNT_POINT_def MAXDWORD_def
lemmas dt_consts = MM_DT_UNKNOWN_def MM_DT_FIFO_def MM_DT_CHR_def MM_DT_BLK_def MM_DT_DIR_def
  MM_DT_REG_def MM_DT_LNK_def MM_DT_SOCK_def

definition translate_filetype :: "int \<Rightarrow> int" where
  "translate_filetype attr =
     (if attr AND FILE_ATTRIBUTE_REPARSE_POINT \<noteq> 0 then MM_DT_LNK
      else if attr AND FILE_ATTRIBUTE_DIRECTORY \<noteq> 0 then MM_DT_DIR
      else if attr AND FILE_ATTRIBUTE_NORMAL \<noteq> 0 \<or> attr AND FILE_ATTRIBUTE_ARCHIVE \<noteq> 0 then MM_DT_REG
      else MM_DT_UNKNOWN)"

datatype file_kind = S_IFLNK | S_IFDIR | S_IFREG | S_IFIFO | S_IFCHR

record handle_info =
  dwFileAttributes :: int
  nNumberOfLinks :: nat
  nFileSizeHigh :: int
  nFileSizeLow :: int
  ftLastAccessTime :: filetime
  ftCreationTime :: filetime
  ftLastWriteTime :: filetime
  reparse_tag :: int
  attributes_ex :: "int option"

record win_stat =
  st_kind :: file_kind
  st_perm :: int
  st_nlink :: nat
  st_size :: int
  st_atime :: int
  st_ctime :: int
  st_mtime :: int

text \<open>
  \<open>get_stat_from_handle\<close> on what the system reports of the handle: \<open>attributes_ex\<close> are the attributes of the
  extended queries, \<^const>\<open>None\<close> when one of them failed and those of the plain query are used, with no reparse tag;
  \<open>target_len\<close> is the length of the target of a symbolic link. The identities of the volume and of the file,
  copied from the system, are left out.
\<close>

definition stat_kind :: "handle_info \<Rightarrow> file_kind" where
  "stat_kind info =
     (let (attr, tag) = (case attributes_ex info of Some a \<Rightarrow> (a, reparse_tag info) | None \<Rightarrow> (dwFileAttributes info, 0))
      in if attr AND FILE_ATTRIBUTE_REPARSE_POINT \<noteq> 0
         then (if tag = IO_REPARSE_TAG_SYMLINK then S_IFLNK
               else if tag = IO_REPARSE_TAG_MOUNT_POINT then S_IFDIR else S_IFREG)
         else let t = translate_filetype attr
              in if t = MM_DT_DIR then S_IFDIR else if t = MM_DT_LNK then S_IFLNK
                 else if t = MM_DT_FIFO then S_IFIFO else if t = MM_DT_CHR then S_IFCHR else S_IFREG)"

definition get_stat_from_handle :: "'s \<Rightarrow> 's secdesc \<Rightarrow> nat \<Rightarrow> handle_info \<Rightarrow> win_stat" where
  "get_stat_from_handle everyone sd target_len info =
     \<lparr> st_kind = stat_kind info,
       st_perm = local_secdesc_get_mode everyone sd,
       st_nlink = nNumberOfLinks info,
       st_size = (if stat_kind info = S_IFLNK then int target_len
                  else nFileSizeHigh info * MAXDWORD + nFileSizeLow info),
       st_atime = filetime_to_time (ftLastAccessTime info),
       st_ctime = filetime_to_time (ftCreationTime info),
       st_mtime = filetime_to_time (ftLastWriteTime info) \<rparr>"

section \<open>Flags as bits\<close>

lemma and_exp: "x AND 2 ^ n = (if bit x n then 2 ^ n else (0 :: int))"
  by (rule bit_eqI) (auto simp: bit_and_iff bit_exp_iff)

lemma and_or_exp: "x AND (2 ^ n OR m) = (if bit x n then 2 ^ n else (0 :: int)) OR (x AND m)"
  by (simp add: and_exp [symmetric] bit.conj_disj_distrib)

text \<open>What the arguments of \<open>CreateFile\<close> mean: whether a missing file is created, an existing one refused, truncated.\<close>

fun creates :: "creation_mode \<Rightarrow> bool" where
  "creates c \<longleftrightarrow> c \<in> {CREATE_NEW, CREATE_ALWAYS, OPEN_ALWAYS}"

fun refuses_existing :: "creation_mode \<Rightarrow> bool" where
  "refuses_existing c \<longleftrightarrow> c = CREATE_NEW"

fun truncates :: "creation_mode \<Rightarrow> bool" where
  "truncates c \<longleftrightarrow> c \<in> {CREATE_ALWAYS, TRUNCATE_EXISTING}"

text \<open>
  The open flags are translated as POSIX means them, for every combination: the switch that is
  meant to be exhaustive is (the program never aborts there); the call is refused exactly when both
  \<open>O_WRONLY\<close> and \<open>O_RDWR\<close> are given; otherwise the handle can read and write as asked, a missing file is created
  exactly with \<open>O_CREAT\<close>, an existing one refused exactly with \<open>O_CREAT\<close> and \<open>O_EXCL\<close>, and emptied exactly with
  \<open>O_TRUNC\<close> unless it is refused.
\<close>

theorem create_file_options_posix:
  "\<exists>r. set_w32_create_file_options oflags = Some r
    \<and> (r = Inl EINVAL \<longleftrightarrow> bit oflags 0 \<and> bit oflags 1)
    \<and> (\<forall>e. r = Inl e \<longrightarrow> e = EINVAL)
    \<and> (\<forall>opts. r = Inr opts \<longrightarrow>
         (bit (access_mode opts) 31 \<longleftrightarrow> \<not> bit oflags 0) \<and> (bit (access_mode opts) 30 \<longleftrightarrow> bit oflags 0 \<or> bit oflags 1)
         \<and> (creates (create_mode opts) \<longleftrightarrow> bit oflags 8)
         \<and> (refuses_existing (create_mode opts) \<longleftrightarrow> bit oflags 8 \<and> bit oflags 10)
         \<and> (truncates (create_mode opts) \<longleftrightarrow> bit oflags 9 \<and> \<not> (bit oflags 8 \<and> bit oflags 10)))"
proof -
  have a: "oflags AND (O_WRONLY OR O_RDWR) = (if bit oflags 0 then 1 else 0) OR (if bit oflags 1 then 2 else 0)"
    using and_or_exp [of oflags 0 "2 ^ 1"] and_exp [of oflags 1] by (simp add: oflag_consts)
  have c: "oflags AND (O_TRUNC OR O_CREAT OR O_EXCL) =
      (if bit oflags 9 then 512 else 0) OR (if bit oflags 8 then 256 else 0) OR (if bit oflags 10 then 1024 else 0)"
    using and_or_exp [of oflags 9 "2 ^ 8 OR 2 ^ 10"] and_or_exp [of oflags 8 "2 ^ 10"] and_exp [of oflags 10]
    by (simp add: oflag_consts or.assoc)
  have am: "set_access_mode oflags =
      (if bit oflags 0 \<and> bit oflags 1 then Inl EINVAL
       else Inr (if bit oflags 1 then GENERIC_READ OR GENERIC_WRITE else if bit oflags 0 then GENERIC_WRITE else GENERIC_READ))"
    by (simp add: set_access_mode_def Let_def a) (simp add: oflag_consts)
  have cm: "set_creation_mode oflags = Some
      (if bit oflags 8 then if bit oflags 10 then CREATE_NEW else if bit oflags 9 then CREATE_ALWAYS else OPEN_ALWAYS
       else if bit oflags 9 then TRUNCATE_EXISTING else OPEN_EXISTING)"
    by (cases "bit oflags 8"; cases "bit oflags 9"; cases "bit oflags 10")
      (simp_all add: set_creation_mode_def Let_def c, simp_all add: oflag_consts)
  show ?thesis
    by (auto simp: set_w32_create_file_options_def am cm) (auto simp: oflag_consts)
qed

theorem create_file_options_posix_witness:
  "set_w32_create_file_options 1282 \<noteq> None
    \<and> refuses_existing (create_mode (projr (the (set_w32_create_file_options 1282))))"
proof -
  have b: "\<not> bit (1282 :: int) 0" "bit (1282 :: int) 1" "bit (1282 :: int) 8" "bit (1282 :: int) 10" by simp_all
  obtain r where r: "set_w32_create_file_options 1282 = Some r" "r = Inl EINVAL \<longleftrightarrow> bit (1282 :: int) 0 \<and> bit (1282 :: int) 1"
      "\<forall>e. r = Inl e \<longrightarrow> e = EINVAL"
      "\<forall>opts. r = Inr opts \<longrightarrow> (refuses_existing (create_mode opts) \<longleftrightarrow> bit (1282 :: int) 8 \<and> bit (1282 :: int) 10)"
    using create_file_options_posix [of 1282] by blast
  then obtain opts where "r = Inr opts" using b(1) by (cases r) auto
  then show ?thesis using r b by simp
qed

section \<open>Permission bits\<close>

lemma perm_round: "access_to_mode (get_access_from_perm_bits mode OR x) = mode AND 0x1C0"
  if "x AND 0x23 = 0"
proof -
  have b: "mode AND 0x1C0 = (if bit mode 8 then 0x100 else 0) OR (if bit mode 7 then 0x80 else 0) OR (if bit mode 6 then 0x40 else 0)"
    using and_or_exp [of mode 8 "2 ^ 7 OR 2 ^ 6"] and_or_exp [of mode 7 "2 ^ 6"] and_exp [of mode 6] by simp
  have f: "mode AND S_IREAD \<noteq> 0 \<longleftrightarrow> bit mode 8" "mode AND S_IWRITE \<noteq> 0 \<longleftrightarrow> bit mode 7" "mode AND S_IEXEC \<noteq> 0 \<longleftrightarrow> bit mode 6"
    using and_exp [of mode 8] and_exp [of mode 7] and_exp [of mode 6] by (simp_all add: mode_consts)
  have x0: "\<not> bit x 0" "\<not> bit x 1" "\<not> bit x 5"
  proof -
    have "\<not> bit (x AND 0x23) k" for k using that by simp
    then have "\<not> (bit x k \<and> bit (0x23 :: int) k)" for k by (simp add: bit_and_iff)
    from this [of 0] this [of 1] this [of 5] show "\<not> bit x 0" "\<not> bit x 1" "\<not> bit x 5" by simp_all
  qed
  have g: "y AND FILE_READ_DATA \<noteq> 0 \<longleftrightarrow> bit y 0" "y AND FILE_WRITE_DATA \<noteq> 0 \<longleftrightarrow> bit y 1" "y AND FILE_EXECUTE \<noteq> 0 \<longleftrightarrow> bit y 5" for y :: int
    using and_exp [of y 0] and_exp [of y 1] and_exp [of y 5] by (simp_all add: mode_consts)
  show ?thesis
    unfolding access_to_mode_def g b get_access_from_perm_bits_def f bit_or_iff
    using x0 by (simp add: mode_consts)
qed

lemma perm_parts: "mode AND 0x1C0 OR drop_bit 3 (push_bit 3 mode AND 0x1C0) OR drop_bit 6 (push_bit 6 mode AND 0x1C0) = mode AND (0x1FF :: int)"
proof -
  have m: "(0x1C0 :: int) = push_bit 6 (mask 3)" "(0x1FF :: int) = mask 9" by (simp_all add: mask_eq_exp_minus_1)
  show ?thesis unfolding m
    by (rule bit_eqI) (auto simp: bit_simps)
qed

text \<open>
  C29. Permission bits survive the access control list: the mode read back from the list that was built
  for a mode, by a descriptor that names the same owner and group, is the mode's nine permission bits,
  when the owner, the group and everyone are three identities. When the owner is also the group, as
  happens for some accounts, the group's bits are added to the owner's and the group has none.
\<close>

theorem mode_round_trip:
  assumes "local_secdesc_init_from_mode owner grp everyone mode = Some sd" "owner \<noteq> everyone" "grp \<noteq> everyone"
  shows "local_secdesc_get_mode everyone (sd\<lparr>sd_owner := Some owner, sd_group := Some grp\<rparr>) =
    (if owner \<noteq> grp then mode AND 0x1FF
     else (mode AND 0x1C0) OR (push_bit 3 mode AND 0x1C0) OR drop_bit 6 (push_bit 6 mode AND 0x1C0))"
proof -
  have p: "access_to_mode (get_access_from_perm_bits m) = m AND 0x1C0" for m
    using perm_round [of 0 m] by simp
  have q: "access_to_mode (get_access_from_perm_bits m OR MIN_OWNER_ACCESS_FLAGS) = m AND 0x1C0" for m
    by (rule perm_round) (simp add: mode_consts)
  show ?thesis
    using assms perm_parts [of mode]
    by (auto simp: local_secdesc_init_from_mode_def local_secdesc_get_mode_def ace_mode_def p q or.assoc split: if_splits)
qed

theorem mode_round_trip_witness:
  "local_secdesc_get_mode (3 :: nat) ((the (local_secdesc_init_from_mode 1 2 3 0x1E8))\<lparr>sd_owner := Some 1, sd_group := Some 2\<rparr>) = 0x1E8"
  by (subst mode_round_trip [where owner = 1 and grp = 2 and mode = "0x1E8"])
    (simp_all add: local_secdesc_init_from_mode_def MODE_DEF_def)

section \<open>Time\<close>

lemma FT_EPOCH_val: "FT_EPOCH = 116444736000000000"
  by (simp add: FT_EPOCH_def)

lemma filetime_cat: "(word_cat (ucast (drop_bit 32 q) :: 32 word) (ucast q :: 32 word) :: 64 word) = q"
  by (rule bit_word_eqI) (auto simp: bit_simps)

text \<open>
  A time after 1970 keeps its value through Windows' representation, to the 100 nanoseconds it can
  hold: converting a timestamp and converting back gives the same seconds and the nanoseconds rounded down
  to a multiple of 100.
\<close>

theorem timespec_filetime_round:
  assumes "0 \<le> tv_sec ts" "tv_sec ts < 900000000000" "0 \<le> tv_nsec ts" "tv_nsec ts < NS_IN_SEC"
  shows "\<exists>ft. timespec_to_filetime ts = Some ft
    \<and> filetime_to_timespec ft = ts\<lparr>tv_nsec := tv_nsec ts - tv_nsec ts mod 100\<rparr>"
proof -
  let ?n = "tv_sec ts * 10000000 + tv_nsec ts div 100"
  have b: "0 \<le> ?n" "?n < 2 ^ 63" "0 \<le> tv_nsec ts div 100" "tv_nsec ts div 100 < 10000000"
    using assms by (simp_all add: NS_IN_SEC_def)
  have i: "in_i64 (tv_sec ts * 10000000)" using assms by (simp add: in_i64_def)
  define q :: "64 word" where "q = word_of_int ?n"
  have u: "uint q = ?n" unfolding q_def uint_word_of_int using b by (intro mod_pos_pos_trivial) simp_all
  have e: "timespec_to_filetime ts = Some \<lparr> dwLowDateTime = ucast (q + FT_EPOCH), dwHighDateTime = ucast (drop_bit 32 (q + FT_EPOCH)) \<rparr>"
    using i assms by (simp add: timespec_to_filetime_def q_def sdiv_nonneg Let_def)
  have d: "uint (q div 10000000) = tv_sec ts" "uint ((q mod 10000000) * 100) = tv_nsec ts div 100 * 100"
  proof -
    show "uint (q div 10000000) = tv_sec ts" using b by (simp add: uint_div u)
    have m: "uint (q mod 10000000) = tv_nsec ts div 100" using b by (simp add: uint_mod u)
    then show "uint ((q mod 10000000) * 100) = tv_nsec ts div 100 * 100"
      using b by (simp add: uint_word_ariths)
  qed
  have n: "tv_nsec ts div 100 * 100 = tv_nsec ts - tv_nsec ts mod 100" by (simp add: minus_mod_eq_div_mult)
  show ?thesis
    unfolding e using d n by (simp add: filetime_to_timespec_def filetime_cat Let_def)
qed


theorem timespec_filetime_round_witness:
  "\<exists>ft. timespec_to_filetime \<lparr> tv_sec = 1600000000, tv_nsec = 123456789 \<rparr> = Some ft
    \<and> filetime_to_timespec ft = \<lparr> tv_sec = 1600000000, tv_nsec = 123456700 \<rparr>"
  using timespec_filetime_round [of "\<lparr> tv_sec = 1600000000, tv_nsec = 123456789 \<rparr>"] by (simp add: NS_IN_SEC_def)

section \<open>Status\<close>

text \<open>
  The size that \<open>mm_stat\<close> reports of a file that is not a symbolic link is too small by the high word
  of the size: the high word is multiplied with \<open>MAXDWORD\<close>, which is one less than \<open>2 ^ 32\<close>. It is right exactly
  for files of less than 4 GiB. A time before 1970 is not reported negative: the subtraction wraps around
  to a time more than 1.8 million million seconds ahead.
\<close>

theorem stat_size_time:
  assumes "0 \<le> nFileSizeHigh info" "0 \<le> nFileSizeLow info" "stat_kind info \<noteq> S_IFLNK"
  shows "st_size (get_stat_from_handle everyone sd len info) =
      nFileSizeHigh info * 2 ^ 32 + nFileSizeLow info - nFileSizeHigh info
    \<and> (st_size (get_stat_from_handle everyone sd len info) = nFileSizeHigh info * 2 ^ 32 + nFileSizeLow info
       \<longleftrightarrow> nFileSizeHigh info = 0)
    \<and> (word_cat (dwHighDateTime (ftLastWriteTime info)) (dwLowDateTime (ftLastWriteTime info)) < FT_EPOCH \<longrightarrow>
       st_mtime (get_stat_from_handle everyone sd len info) \<ge> 1800000000000)"
proof -
  have "uint ((t - FT_EPOCH) div 10000000) \<ge> 1800000000000" if "t < FT_EPOCH" for t :: "64 word"
  proof -
    have "uint t < uint FT_EPOCH" using that by (simp add: word_less_def)
    then have "uint (t - FT_EPOCH) = uint t - uint FT_EPOCH + 2 ^ 64" by (simp add: uint_sub_if')
    moreover have "uint FT_EPOCH = 116444736000000000" by (simp add: FT_EPOCH_val)
    moreover have "0 \<le> uint t" by simp
    ultimately have "uint (t - FT_EPOCH) \<ge> 18000000000000000000" by simp
    then show ?thesis by (simp add: uint_div)
  qed
  then have t: "word_cat (dwHighDateTime ft) (dwLowDateTime ft) < FT_EPOCH \<Longrightarrow> filetime_to_time ft \<ge> 1800000000000" for ft
    by (simp add: filetime_to_time_def filetime_to_timespec_def Let_def)
  show ?thesis using assms t by (simp add: get_stat_from_handle_def MAXDWORD_def)
qed

theorem stat_size_time_witness:
  "st_size (get_stat_from_handle (3 :: nat) \<lparr> sd_owner = None, sd_group = None, dacl_present = False, dacl = None \<rparr> 0
     \<lparr> dwFileAttributes = 32, nNumberOfLinks = 1, nFileSizeHigh = 1, nFileSizeLow = 5,
       ftLastAccessTime = \<lparr> dwLowDateTime = 0, dwHighDateTime = 27111903 \<rparr>,
       ftCreationTime = \<lparr> dwLowDateTime = 0, dwHighDateTime = 27111903 \<rparr>,
       ftLastWriteTime = \<lparr> dwLowDateTime = 0, dwHighDateTime = 1 \<rparr>, reparse_tag = 0, attributes_ex = None \<rparr>) = 4294967300"
  by (subst stat_size_time [THEN conjunct1]) (simp_all add: stat_kind_def translate_filetype_def stat_consts dt_consts FILE_ATTRIBUTE_NORMAL_def)

definition MM_NOFOLLOW :: int where "MM_NOFOLLOW = 0x20000000"
definition FILE_FLAG_OPEN_REPARSE_POINT :: int where "FILE_FLAG_OPEN_REPARSE_POINT = 0x200000"

text \<open>\<open>mm_utimens\<close> up to the opening of the file: the flags that \<open>CreateFile\<close> gets.\<close>

definition mm_utimens_attrs :: "int \<Rightarrow> errcode + int" where
  "mm_utimens_attrs flags = (if flags AND NOT MM_NOFOLLOW \<noteq> 0 then Inl EINVAL else Inr flags)"

text \<open>
  With \<open>MM_NOFOLLOW\<close> the times of the target are changed all the same: the flag that opens a symbolic link
  itself is never among the flags given to the system.
\<close>

lemma mm_utimens_follows: "mm_utimens_attrs flags = Inr attrs \<Longrightarrow> attrs AND FILE_FLAG_OPEN_REPARSE_POINT = 0"
proof -
  assume a: "mm_utimens_attrs flags = Inr attrs"
  then have z: "attrs AND NOT MM_NOFOLLOW = 0" by (simp add: mm_utimens_attrs_def split: if_splits)
  have "\<not> bit (attrs AND NOT MM_NOFOLLOW) 21" by (simp add: z)
  then have "\<not> bit attrs 21" by (simp add: bit_and_iff bit_not_iff MM_NOFOLLOW_def)
  then show ?thesis using and_exp [of attrs 21] by (simp add: FILE_FLAG_OPEN_REPARSE_POINT_def)
qed

section \<open>Opening a path\<close>

definition FILE_FLAG_BACKUP_SEMANTICS :: int where "FILE_FLAG_BACKUP_SEMANTICS = 0x2000000"
definition DELETE_ACCESS :: int where "DELETE_ACCESS = 0x10000"
definition READ_CONTROL :: int where "READ_CONTROL = 0x20000"
definition FILE_WRITE_ATTRIBUTES :: int where "FILE_WRITE_ATTRIBUTES = 0x100"

text \<open>
  \<open>open_handle\<close>: the path is converted to UTF-16, which may fail, in a buffer that may not be available, and given to \<open>CreateFileW\<close>, which is
  the parameter \<open>create\<close>.
\<close>

definition open_handle ::
  "(string \<Rightarrow> 'p option) \<Rightarrow> ('p \<Rightarrow> bool) \<Rightarrow> ('p \<Rightarrow> w32_create_file_options \<Rightarrow> 's secdesc option \<Rightarrow> 'w \<Rightarrow> int option \<times> 'w) \<Rightarrow>
   string \<Rightarrow> w32_create_file_options \<Rightarrow> 's secdesc option \<Rightarrow> 'w \<Rightarrow> int option \<times> 'w" where
  "open_handle utf16 alloc create path opts sd w =
     (case utf16 path of None \<Rightarrow> (None, w) | Some p \<Rightarrow> if alloc p then create p opts sd w else (None, w))"

text \<open>\<open>open_handle_for_metadata\<close>: an existing file is opened, or with \<open>nofollow\<close> the link itself.\<close>

definition metadata_options :: "bool \<Rightarrow> w32_create_file_options" where
  "metadata_options nofollow =
     \<lparr> access_mode = READ_CONTROL, create_mode = OPEN_EXISTING,
       file_attribute = FILE_FLAG_BACKUP_SEMANTICS OR (if nofollow then FILE_FLAG_OPEN_REPARSE_POINT else 0) \<rparr>"

definition open_handle_for_metadata ::
  "(string \<Rightarrow> 'p option) \<Rightarrow> ('p \<Rightarrow> bool) \<Rightarrow> ('p \<Rightarrow> w32_create_file_options \<Rightarrow> 's secdesc option \<Rightarrow> 'w \<Rightarrow> int option \<times> 'w) \<Rightarrow>
   string \<Rightarrow> bool \<Rightarrow> 'w \<Rightarrow> int option \<times> 'w" where
  "open_handle_for_metadata utf16 alloc create path nofollow w =
     open_handle utf16 alloc create path (metadata_options nofollow) None w"

text \<open>Whether \<open>CreateFile\<close> opens a symbolic link itself.\<close>

definition opens_link :: "w32_create_file_options \<Rightarrow> bool" where
  "opens_link opts \<longleftrightarrow> file_attribute opts AND FILE_FLAG_OPEN_REPARSE_POINT \<noteq> 0"

lemma metadata_opens_link [simp]: "opens_link (metadata_options nofollow) \<longleftrightarrow> nofollow" "create_mode (metadata_options nofollow) = OPEN_EXISTING"
  by (simp_all add: opens_link_def metadata_options_def FILE_FLAG_OPEN_REPARSE_POINT_def FILE_FLAG_BACKUP_SEMANTICS_def)

end
