(* ===== verification/File_Copy.thy ===== *)
theory File_Copy
  imports Win_Attr
begin

text \<open>
  Copying files: \<open>mm_copy\<close> of \<^verbatim>\<open>src/src/file.c\<close>, its POSIX implementation in \<^verbatim>\<open>src/src/file-posix.c\<close> and the
  Windows one in \<^verbatim>\<open>src/src/file-win32.c\<close>. What the system does is a record of parameters on a world \<open>'w\<close>; a
  loop that may run forever is a partial function.
\<close>

section \<open>The copy loops\<close>

definition COPYBUFFER_SIZE :: nat where "COPYBUFFER_SIZE = 1024 * 1024"

text \<open>
  The two loops of \<open>clone_fd_fallback\<close>, which \<open>clone_hnd_fallback\<close> repeats on handles: \<open>rd\<close> and \<open>wr\<close> read and write,
  with an error code of their own.
\<close>

partial_function (option) write_all ::
  "(string \<Rightarrow> 'w \<Rightarrow> ('e + nat) \<times> 'w) \<Rightarrow> string \<Rightarrow> 'w \<Rightarrow> ('e option \<times> 'w) option" where
  "write_all wr wbuf w =
     (if wbuf = [] then Some (None, w)
      else case wr wbuf w of
             (Inl e, w) \<Rightarrow> Some (Some e, w)
           | (Inr wsz, w) \<Rightarrow> write_all wr (drop wsz wbuf) w)"

partial_function (option) copy_loop ::
  "(nat \<Rightarrow> 'w \<Rightarrow> ('e + string) \<times> 'w) \<Rightarrow> (string \<Rightarrow> 'w \<Rightarrow> ('e + nat) \<times> 'w) \<Rightarrow> 'w \<Rightarrow> ('e option \<times> 'w) option" where
  "copy_loop rd wr w =
     (case rd COPYBUFFER_SIZE w of
        (Inl e, w) \<Rightarrow> Some (Some e, w)
      | (Inr buf, w) \<Rightarrow>
          (case write_all wr buf w of
             None \<Rightarrow> None
           | Some (Some e, w) \<Rightarrow> Some (Some e, w)
           | Some (None, w) \<Rightarrow> if buf \<noteq> [] then copy_loop rd wr w else Some (None, w)))"

section \<open>POSIX\<close>

definition MM_NOCOW :: int where "MM_NOCOW = 0x10000000"
definition MM_FORCECOW :: int where "MM_FORCECOW = 0x8000000"

lemmas copy_flags = MM_NOFOLLOW_def MM_NOCOW_def MM_FORCECOW_def

record 'w posix_io =
  px_read :: "int \<Rightarrow> nat \<Rightarrow> 'w \<Rightarrow> (errcode + string) \<times> 'w"
  px_write :: "int \<Rightarrow> string \<Rightarrow> 'w \<Rightarrow> (errcode + nat) \<times> 'w"
  px_copy_range :: "(int \<Rightarrow> int \<Rightarrow> 'w \<Rightarrow> (errcode + nat) \<times> 'w) option"
  px_ficlone :: "(int \<Rightarrow> int \<Rightarrow> 'w \<Rightarrow> retcode \<times> 'w) option"
  px_malloc :: "nat \<Rightarrow> bool"
  px_open :: "string \<Rightarrow> int \<Rightarrow> 'w \<Rightarrow> (errcode + int) \<times> 'w"
  px_create :: "string \<Rightarrow> int \<Rightarrow> 'w \<Rightarrow> (errcode + int) \<times> 'w"
  px_close :: "int \<Rightarrow> 'w \<Rightarrow> 'w"
  px_unlink :: "string \<Rightarrow> 'w \<Rightarrow> 'w"
  px_link_size :: "string \<Rightarrow> 'w \<Rightarrow> errcode + nat"
  px_readlink :: "string \<Rightarrow> nat \<Rightarrow> 'w \<Rightarrow> errcode + string"
  px_symlink :: "string \<Rightarrow> string \<Rightarrow> 'w \<Rightarrow> retcode \<times> 'w"

definition clone_fd_fallback :: "'w posix_io \<Rightarrow> int \<Rightarrow> int \<Rightarrow> 'w \<Rightarrow> (retcode \<times> 'w) option" where
  "clone_fd_fallback io fd_in fd_out w =
     (if \<not> px_malloc io COPYBUFFER_SIZE then Some (Some ENOMEM, w)
      else copy_loop (px_read io fd_in) (px_write io fd_out) w)"

text \<open>
  The loop of \<open>clone_fd_try_cow\<close>: how much has been copied, and the error or the end that stopped it.
  \<open>px_copy_range\<close> and \<open>px_ficlone\<close> are \<^const>\<open>None\<close> on a platform that lacks the call.
\<close>

partial_function (option) cow_loop ::
  "('w \<Rightarrow> (errcode + nat) \<times> 'w) \<Rightarrow> nat \<Rightarrow> 'w \<Rightarrow> ((retcode \<times> nat) \<times> 'w) option" where
  "cow_loop cfr written w =
     (case cfr w of
        (Inl e, w) \<Rightarrow> Some ((Some e, written), w)
      | (Inr rsz, w) \<Rightarrow> if rsz > 0 then cow_loop cfr (written + rsz) w else Some ((None, written), w))"

definition clone_fd_try_cow :: "'w posix_io \<Rightarrow> int \<Rightarrow> int \<Rightarrow> 'w \<Rightarrow> (retcode \<times> 'w) option" where
  "clone_fd_try_cow io fd_in fd_out w =
     (case px_copy_range io of
        None \<Rightarrow> clone_fd_fallback io fd_in fd_out w
      | Some cfr \<Rightarrow>
          do { ((err, written), w) \<leftarrow> cow_loop (cfr fd_in fd_out) 0 w;
               case err of
                 Some e \<Rightarrow> if e = ENOSYS \<or> e = EXDEV then clone_fd_fallback io fd_in fd_out w else Some (Some e, w)
               | None \<Rightarrow> if written \<noteq> 0 then Some (None, w) else clone_fd_fallback io fd_in fd_out w })"

definition clone_fd_force_cow :: "'w posix_io \<Rightarrow> int \<Rightarrow> int \<Rightarrow> 'w \<Rightarrow> retcode \<times> 'w" where
  "clone_fd_force_cow io fd_in fd_out w =
     (case px_ficlone io of None \<Rightarrow> (Some ENOTSUP, w) | Some clone \<Rightarrow> clone fd_in fd_out w)"

text \<open>\<open>mm_readlink\<close>: \<open>px_readlink\<close> gives at most \<open>bufsize\<close> characters of the target.\<close>

definition mm_readlink :: "'w posix_io \<Rightarrow> string \<Rightarrow> nat \<Rightarrow> 'w \<Rightarrow> errcode + string" where
  "mm_readlink io path bufsize w =
     (case px_readlink io path bufsize w of
        Inl e \<Rightarrow> Inl e
      | Inr target \<Rightarrow> if length target = bufsize then Inl EOVERFLOW else Inr target)"

definition copy_symlink :: "'w posix_io \<Rightarrow> string \<Rightarrow> string \<Rightarrow> 'w \<Rightarrow> retcode \<times> 'w" where
  "copy_symlink io src dst w =
     (case px_link_size io src w of
        Inl e \<Rightarrow> (Some e, w)
      | Inr sz \<Rightarrow>
          let tgt_sz = sz + 1
          in if \<not> px_malloc io tgt_sz then (Some ENOMEM, w)
             else (case mm_readlink io src tgt_sz w of
                     Inl e \<Rightarrow> (Some e, w)
                   | Inr target \<Rightarrow> px_symlink io target dst w))"

definition clone_srcfd :: "'w posix_io \<Rightarrow> int \<Rightarrow> string \<Rightarrow> int \<Rightarrow> int \<Rightarrow> 'w \<Rightarrow> (retcode \<times> 'w) option" where
  "clone_srcfd io fd_in dst flags mode w =
     (case px_create io dst mode w of
        (Inl e, w) \<Rightarrow> Some (Some e, w)
      | (Inr fd_out, w) \<Rightarrow>
          do { (rv, w) \<leftarrow>
                 (let sel = flags AND (MM_NOCOW AND MM_FORCECOW)
                  in if sel = MM_FORCECOW then Some (clone_fd_force_cow io fd_in fd_out w)
                     else if sel = MM_NOCOW then clone_fd_fallback io fd_in fd_out w
                     else clone_fd_try_cow io fd_in fd_out w);
               let w = (if rv \<noteq> None then px_unlink io dst w else w)
               in Some (rv, px_close io fd_out w) })"

definition O_RDONLY :: int where "O_RDONLY = 0"
definition O_NOFOLLOW :: int where "O_NOFOLLOW = 0x20000"

text \<open>\<open>ELOOP\<close> is not among the codes that have a name in the model: \<open>eloop\<close> stands for it.\<close>

definition copy_internal :: "errcode \<Rightarrow> 'w posix_io \<Rightarrow> string \<Rightarrow> string \<Rightarrow> int \<Rightarrow> int \<Rightarrow> 'w \<Rightarrow> (retcode \<times> 'w) option" where
  "copy_internal eloop io src dst flags mode w =
     (case px_open io src (O_RDONLY OR (if flags AND MM_NOFOLLOW \<noteq> 0 then O_NOFOLLOW else 0)) w of
        (Inl err, w) \<Rightarrow>
          Some (if flags AND MM_NOFOLLOW \<noteq> 0 \<and> err = eloop then copy_symlink io src dst w else (Some err, w))
      | (Inr fd_in, w) \<Rightarrow>
          do { (rv, w) \<leftarrow> clone_srcfd io fd_in dst flags mode w;
               Some (rv, px_close io fd_in w) })"

definition mm_copy :: "errcode \<Rightarrow> 'w posix_io \<Rightarrow> string \<Rightarrow> string \<Rightarrow> int \<Rightarrow> int \<Rightarrow> 'w \<Rightarrow> (retcode \<times> 'w) option" where
  "mm_copy eloop io src dst flags mode w =
     (if flags AND NOT (MM_NOFOLLOW OR MM_NOCOW OR MM_FORCECOW) \<noteq> 0 then Some (Some EINVAL, w)
      else if flags AND MM_NOCOW \<noteq> 0 \<and> flags AND MM_FORCECOW \<noteq> 0 then Some (Some EINVAL, w)
      else copy_internal eloop io src dst flags mode w)"

section \<open>Windows\<close>

text \<open>
  \<open>clone_hnd_fallback\<close> reads and writes handles with \<open>mmlib_read\<close> and \<open>mmlib_write\<close>; an error is the system's last
  error.
\<close>

definition rd_hnd :: "'w fd_env \<Rightarrow> int \<Rightarrow> nat \<Rightarrow> 'w \<Rightarrow> (w32err + string) \<times> 'w" where
  "rd_hnd env hnd n w =
     (case mmlib_read env hnd n w of (None, w) \<Rightarrow> (Inl (last_error env w), w) | (Some buf, w) \<Rightarrow> (Inr buf, w))"

definition wr_hnd :: "'w fd_env \<Rightarrow> int \<Rightarrow> string \<Rightarrow> 'w \<Rightarrow> (w32err + nat) \<times> 'w" where
  "wr_hnd env hnd buf w =
     (case mmlib_write env hnd buf w of (None, w) \<Rightarrow> (Inl (last_error env w), w) | (Some n, w) \<Rightarrow> (Inr n, w))"

record 'w w32_io =
  w32_fd :: "'w fd_env"
  w32_malloc :: "nat \<Rightarrow> bool"
  w32_create_new :: "string \<Rightarrow> int \<Rightarrow> 'w \<Rightarrow> (w32err + int) \<times> 'w"
  w32_open_read :: "string \<Rightarrow> int \<Rightarrow> 'w \<Rightarrow> (w32err + int) \<times> 'w"
  w32_open_metadata :: "string \<Rightarrow> bool \<Rightarrow> 'w \<Rightarrow> (w32err + int) \<times> 'w"
  w32_tag_info :: "int \<Rightarrow> 'w \<Rightarrow> w32err + int \<times> int"
  w32_delete :: "int \<Rightarrow> 'w \<Rightarrow> 'w"
  w32_close :: "int \<Rightarrow> 'w \<Rightarrow> 'w"
  w32_copy_symlink :: "int \<Rightarrow> string \<Rightarrow> 'w \<Rightarrow> w32err option \<times> 'w"

definition clone_hnd_fallback :: "'w w32_io \<Rightarrow> int \<Rightarrow> int \<Rightarrow> 'w \<Rightarrow> (w32err option \<times> 'w) option" where
  "clone_hnd_fallback io hnd_src hnd_dst w =
     (if \<not> w32_malloc io COPYBUFFER_SIZE then Some (Some (last_error (w32_fd io) w), w)
      else copy_loop (rd_hnd (w32_fd io) hnd_src) (wr_hnd (w32_fd io) hnd_dst) w)"

definition clone_hnd_force_cow :: "w32err option" where
  "clone_hnd_force_cow = Some ERROR_NOT_SUPPORTED"

definition clone_src_hnd :: "'w w32_io \<Rightarrow> int \<Rightarrow> string \<Rightarrow> int \<Rightarrow> int \<Rightarrow> 'w \<Rightarrow> (w32err option \<times> 'w) option" where
  "clone_src_hnd io hnd_src dst flags mode w =
     (case w32_create_new io dst mode w of
        (Inl e, w) \<Rightarrow> Some (Some e, w)
      | (Inr hnd_dst, w) \<Rightarrow>
          do { (rv, w) \<leftarrow>
                 (if flags AND (MM_NOCOW AND MM_FORCECOW) = MM_FORCECOW then Some (clone_hnd_force_cow, w)
                  else clone_hnd_fallback io hnd_src hnd_dst w);
               let w = (if rv \<noteq> None then w32_delete io hnd_dst w else w)
               in Some (rv, w32_close io hnd_dst w) })"

definition w32_copy_internal :: "'w w32_io \<Rightarrow> string \<Rightarrow> string \<Rightarrow> int \<Rightarrow> int \<Rightarrow> 'w \<Rightarrow> (retcode \<times> 'w) option" where
  "w32_copy_internal io src dst flags mode w =
     (let attrs = FILE_ATTRIBUTE_NORMAL OR (if flags AND MM_NOFOLLOW \<noteq> 0 then FILE_FLAG_OPEN_REPARSE_POINT else 0);
          (res, w) = w32_open_read io src attrs w;
          (res, w) = (if res = Inl ERROR_ACCESS_DENIED then w32_open_metadata io src (flags AND MM_NOFOLLOW \<noteq> 0) w
                      else (res, w))
      in case res of
           Inl e \<Rightarrow> Some (Some (get_errcode_from_w32err e), w)
         | Inr hnd_src \<Rightarrow>
             do { (rv, w) \<leftarrow>
                    (case w32_tag_info io hnd_src w of
                       Inl e \<Rightarrow> Some (Some e, w)
                     | Inr (attributes, tag) \<Rightarrow>
                         if attributes AND FILE_ATTRIBUTE_REPARSE_POINT \<noteq> 0 \<and> tag = IO_REPARSE_TAG_SYMLINK
                         then Some (w32_copy_symlink io hnd_src dst w)
                         else if attributes AND FILE_ATTRIBUTE_DIRECTORY \<noteq> 0
                         then Some (Some ERROR_DIRECTORY_NOT_SUPPORTED, w)
                         else clone_src_hnd io hnd_src dst flags mode w);
                  Some (map_option get_errcode_from_w32err rv, w32_close io hnd_src w) })"

section \<open>Copying copies\<close>

text \<open>
  What a file to read and a file to write promise of a world: \<open>rest\<close> is what remains to be read, \<open>out\<close> what has
  been written. A read takes a piece from the front, an empty one only at the end, and a write appends a
  piece that is not empty; none of them fails.
\<close>

definition reads_from :: "(nat \<Rightarrow> 'w \<Rightarrow> ('e + string) \<times> 'w) \<Rightarrow> ('w \<Rightarrow> string) \<Rightarrow> ('w \<Rightarrow> string) \<Rightarrow> bool" where
  "reads_from rd rest out \<longleftrightarrow>
     (\<forall>n w. 0 < n \<longrightarrow> (\<exists>k w'. rd n w = (Inr (take k (rest w)), w') \<and> (rest w \<noteq> [] \<longrightarrow> 0 < k)
                     \<and> rest w' = drop k (rest w) \<and> out w' = out w))"

definition writes_to :: "(string \<Rightarrow> 'w \<Rightarrow> ('e + nat) \<times> 'w) \<Rightarrow> ('w \<Rightarrow> string) \<Rightarrow> ('w \<Rightarrow> string) \<Rightarrow> bool" where
  "writes_to wr rest out \<longleftrightarrow>
     (\<forall>buf w. buf \<noteq> [] \<longrightarrow> (\<exists>k w'. wr buf w = (Inr k, w') \<and> 0 < k \<and> k \<le> length buf
                     \<and> out w' = out w @ take k buf \<and> rest w' = rest w))"

lemma write_all_ok:
  assumes "writes_to wr rest out"
  shows "\<exists>w'. write_all wr buf w = Some (None, w') \<and> out w' = out w @ buf \<and> rest w' = rest w"
proof (induction "length buf" arbitrary: buf w rule: less_induct)
  case less
  show ?case
  proof (cases "buf = []")
    case True
    then show ?thesis by (subst write_all.simps) simp
  next
    case False
    then obtain k w1 where w1: "wr buf w = (Inr k, w1)" "0 < k" "k \<le> length buf"
        "out w1 = out w @ take k buf" "rest w1 = rest w"
      using assms unfolding writes_to_def by meson
    then have "length (drop k buf) < length buf" by auto
    from less [OF this, of w1] obtain w' where "write_all wr (drop k buf) w1 = Some (None, w')"
        "out w' = out w1 @ drop k buf" "rest w' = rest w1" by blast
    then show ?thesis using w1 False by (subst write_all.simps) auto
  qed
qed

lemma copy_loop_ok:
  assumes "reads_from rd rest out" "writes_to wr rest out"
  shows "\<exists>w'. copy_loop rd wr w = Some (None, w') \<and> out w' = out w @ rest w \<and> rest w' = []"
proof (induction "length (rest w)" arbitrary: w rule: less_induct)
  case less
  have "0 < COPYBUFFER_SIZE" by (simp add: COPYBUFFER_SIZE_def)
  then obtain k w1 where r: "rd COPYBUFFER_SIZE w = (Inr (take k (rest w)), w1)" "rest w \<noteq> [] \<longrightarrow> 0 < k"
      "rest w1 = drop k (rest w)" "out w1 = out w"
    using assms(1) unfolding reads_from_def by meson
  obtain w2 where w2: "write_all wr (take k (rest w)) w1 = Some (None, w2)" "out w2 = out w @ take k (rest w)" "rest w2 = drop k (rest w)"
    using write_all_ok [OF assms(2), of "take k (rest w)" w1] r by auto
  show ?case
  proof (cases "rest w = []")
    case True
    then show ?thesis using r w2 by (subst copy_loop.simps) auto
  next
    case False
    then have "length (rest w2) < length (rest w)" using r(2) w2(3) by auto
    from less [OF this] obtain w' where "copy_loop rd wr w2 = Some (None, w')" "out w' = out w2 @ rest w2" "rest w' = []"
      by blast
    then show ?thesis using r w2 False by (subst copy_loop.simps) auto
  qed
qed


text \<open>
  What the system promises of \<open>copy_file_range\<close> between two files: it moves a piece, or moves nothing and reports
  that it cannot do it at all (\<open>ENOSYS\<close>, \<open>EXDEV\<close> or 0), or reports 0 at the end of the file.
\<close>

definition range_copies ::
  "('w \<Rightarrow> (errcode + nat) \<times> 'w) \<Rightarrow> ('w \<Rightarrow> bool) \<Rightarrow> ('w \<Rightarrow> string) \<Rightarrow> ('w \<Rightarrow> string) \<Rightarrow> bool" where
  "range_copies cfr capable rest out \<longleftrightarrow>
     (\<forall>w. \<exists>r w'. cfr w = (r, w') \<and> capable w' = capable w
        \<and> (case r of
             Inl e \<Rightarrow> (e = ENOSYS \<or> e = EXDEV) \<and> rest w' = rest w \<and> out w' = out w
           | Inr k \<Rightarrow> k \<le> length (rest w) \<and> rest w' = drop k (rest w) \<and> out w' = out w @ take k (rest w)
                      \<and> (k = 0 \<and> rest w \<noteq> [] \<longrightarrow> \<not> capable w) \<and> (0 < k \<longrightarrow> capable w)))"

lemma cow_loop_ok:
  assumes "range_copies cfr capable rest out" "0 < n \<longrightarrow> capable w"
  shows "\<exists>err m w'. cow_loop cfr n w = Some ((err, m), w')
    \<and> out w' @ rest w' = out w @ rest w \<and> n \<le> m
    \<and> (\<forall>e. err = Some e \<longrightarrow> e = ENOSYS \<or> e = EXDEV) \<and> (err = None \<and> 0 < m \<longrightarrow> rest w' = [])"
  using assms(2)
proof (induction "length (rest w)" arbitrary: w n rule: less_induct)
  case less
  obtain r w1 where c: "cfr w = (r, w1)" "capable w1 = capable w" and r: "case r of
             Inl e \<Rightarrow> (e = ENOSYS \<or> e = EXDEV) \<and> rest w1 = rest w \<and> out w1 = out w
           | Inr k \<Rightarrow> k \<le> length (rest w) \<and> rest w1 = drop k (rest w) \<and> out w1 = out w @ take k (rest w)
                      \<and> (k = 0 \<and> rest w \<noteq> [] \<longrightarrow> \<not> capable w) \<and> (0 < k \<longrightarrow> capable w)"
    using assms unfolding range_copies_def by meson
  show ?case
  proof (cases r)
    case (Inl e)
    then show ?thesis using c r by (subst cow_loop.simps) auto
  next
    case (Inr k)
    show ?thesis
    proof (cases "k = 0")
      case True
      then show ?thesis using Inr c r less(2) by (subst cow_loop.simps) auto
    next
      case False
      then have "length (rest w1) < length (rest w)" "0 < n + k \<longrightarrow> capable w1" using Inr r c by auto
      then obtain err m w' where ih: "cow_loop cfr (n + k) w1 = Some ((err, m), w')"
          "out w' @ rest w' = out w1 @ rest w1" "n + k \<le> m"
          "\<forall>e. err = Some e \<longrightarrow> e = ENOSYS \<or> e = EXDEV" "err = None \<and> 0 < m \<longrightarrow> rest w' = []"
        using less(1) by blast
      have "cow_loop cfr n w = cow_loop cfr (n + k) w1" using c Inr False by (subst cow_loop.simps) simp
      moreover have "out w' @ rest w' = out w @ rest w" using ih(2) r Inr by simp
      ultimately show ?thesis using ih by auto
    qed
  qed
qed

text \<open>The promises that a pair of descriptors makes, for the calls that a platform has.\<close>

definition io_ok :: "'w posix_io \<Rightarrow> int \<Rightarrow> int \<Rightarrow> ('w \<Rightarrow> bool) \<Rightarrow> ('w \<Rightarrow> string) \<Rightarrow> ('w \<Rightarrow> string) \<Rightarrow> bool" where
  "io_ok io fd_in fd_out capable rest out \<longleftrightarrow>
     px_malloc io COPYBUFFER_SIZE \<and> reads_from (px_read io fd_in) rest out \<and> writes_to (px_write io fd_out) rest out
     \<and> (\<forall>cfr. px_copy_range io = Some cfr \<longrightarrow> range_copies (cfr fd_in fd_out) capable rest out)"

lemma clone_fd_fallback_ok:
  assumes "io_ok io fd_in fd_out capable rest out"
  shows "\<exists>w'. clone_fd_fallback io fd_in fd_out w = Some (None, w') \<and> out w' = out w @ rest w \<and> rest w' = []"
  using assms copy_loop_ok [of "px_read io fd_in" rest out "px_write io fd_out" w]
  by (auto simp: clone_fd_fallback_def io_ok_def)

lemma clone_fd_try_cow_ok:
  assumes "io_ok io fd_in fd_out capable rest out"
  shows "\<exists>w'. clone_fd_try_cow io fd_in fd_out w = Some (None, w') \<and> out w' = out w @ rest w"
proof (cases "px_copy_range io")
  case None
  then show ?thesis using clone_fd_fallback_ok [OF assms, of w] by (auto simp: clone_fd_try_cow_def)
next
  case (Some cfr)
  then have "range_copies (cfr fd_in fd_out) capable rest out" using assms by (simp add: io_ok_def)
  from cow_loop_ok [OF this, of 0 w] obtain err m w1 where
      l: "cow_loop (cfr fd_in fd_out) 0 w = Some ((err, m), w1)" "out w1 @ rest w1 = out w @ rest w"
      "\<forall>e. err = Some e \<longrightarrow> e = ENOSYS \<or> e = EXDEV" "err = None \<and> 0 < m \<longrightarrow> rest w1 = []" by auto
  obtain w2 where "clone_fd_fallback io fd_in fd_out w1 = Some (None, w2)" "out w2 = out w @ rest w"
    using clone_fd_fallback_ok [OF assms, of w1] l(2) by auto
  then show ?thesis using Some l by (cases err) (auto simp: clone_fd_try_cow_def)
qed

lemma cow_select: "flags AND (MM_NOCOW AND MM_FORCECOW) = 0"
  by (simp add: copy_flags)

lemma clone_srcfd_try: "clone_srcfd io fd_in dst flags mode w = clone_srcfd io fd_in dst 0 mode w"
  unfolding clone_srcfd_def cow_select ..

text \<open>
  C30. A regular file is copied completely: when the source opens and the destination can be created, and
  reads, writes and \<open>copy_file_range\<close> keep their promises (partial writes, a \<open>copy_file_range\<close> that is missing,
  stops half-way with \<open>EXDEV\<close> or reports 0 from the start included), \<open>mm_copy\<close> ends, reports success, the
  destination holds what was in the source, and both descriptors are closed last. This is stated for a copy
  that does not ask about copy on write, with or without \<open>MM_NOFOLLOW\<close>; the other two flags are the subject
  of \<open>cow_flags_ignored\<close> below.
\<close>

theorem mm_copy_complete:
  assumes "flags = 0 \<or> flags = MM_NOFOLLOW"
    and "px_open io src (O_RDONLY OR (if flags AND MM_NOFOLLOW \<noteq> 0 then O_NOFOLLOW else 0)) w = (Inr fd_in, w1)"
    and "px_create io dst mode w1 = (Inr fd_out, w2)" "rest w2 = content" "out w2 = []"
    and "io_ok io fd_in fd_out capable rest out" "\<And>fd w. out (px_close io fd w) = out w"
  shows "\<exists>w3 w'. mm_copy eloop io src dst flags mode w = Some (None, w') \<and> w' = px_close io fd_in (px_close io fd_out w3)
    \<and> out w3 = content \<and> out w' = content"
proof -
  obtain w3 where c: "clone_fd_try_cow io fd_in fd_out w2 = Some (None, w3)" "out w3 = content"
    using clone_fd_try_cow_ok [OF assms(6), of w2] assms(4,5) by auto
  have "0 \<noteq> MM_FORCECOW" "0 \<noteq> MM_NOCOW" by (simp_all add: copy_flags)
  then have "clone_srcfd io fd_in dst flags mode w1 = Some (None, px_close io fd_out w3)"
    using assms(3) c(1) by (simp add: clone_srcfd_def cow_select Let_def)
  moreover have "flags AND NOT (MM_NOFOLLOW OR MM_NOCOW OR MM_FORCECOW) = 0" "flags AND MM_NOCOW = 0"
    using assms(1) by (auto simp: copy_flags)
  ultimately have "mm_copy eloop io src dst flags mode w = Some (None, px_close io fd_in (px_close io fd_out w3))"
    using assms(2) by (auto simp: mm_copy_def copy_internal_def)
  then show ?thesis using c(2) assms(7) by (auto intro!: exI [of _ w3])
qed

text \<open>
  \<open>MM_FORCECOW\<close> and \<open>MM_NOCOW\<close> have no effect: the documentation says that the first fails rather than
  copies and that the second never shares blocks, but the selection is masked with the conjunction of the
  two flags, which is 0, so a copy with one of them is the copy with neither, on both platforms.
\<close>

theorem cow_flags_ignored:
  assumes "flags \<in> {MM_FORCECOW, MM_NOCOW}"
  shows "mm_copy eloop io src dst flags mode w = mm_copy eloop io src dst 0 mode w
    \<and> mm_copy eloop io src dst (flags OR MM_NOFOLLOW) mode w = mm_copy eloop io src dst MM_NOFOLLOW mode w
    \<and> clone_src_hnd io' hnd dst flags mode w' = clone_src_hnd io' hnd dst 0 mode w'"
proof -
  have f: "flags AND MM_NOFOLLOW = 0" "(flags OR MM_NOFOLLOW) AND MM_NOFOLLOW = MM_NOFOLLOW"
    using assms by (auto simp: copy_flags)
  have ci: "copy_internal eloop io src dst f1 mode w = copy_internal eloop io src dst f2 mode w"
    if "f1 AND MM_NOFOLLOW = f2 AND MM_NOFOLLOW" for f1 f2
    unfolding copy_internal_def that clone_srcfd_try [of io _ dst f1] clone_srcfd_try [of io _ dst f2] ..
  have a: "\<not> (fl AND NOT (MM_NOFOLLOW OR MM_NOCOW OR MM_FORCECOW) \<noteq> 0)" "\<not> (fl AND MM_NOCOW \<noteq> 0 \<and> fl AND MM_FORCECOW \<noteq> 0)"
    if "fl \<in> {flags, flags OR MM_NOFOLLOW, 0, MM_NOFOLLOW}" for fl
    using that assms by (auto simp: copy_flags)
  have "mm_copy eloop io src dst flags mode w = mm_copy eloop io src dst 0 mode w"
    unfolding mm_copy_def using a [of flags] a [of 0] ci [of flags 0] f by auto
  moreover have "mm_copy eloop io src dst (flags OR MM_NOFOLLOW) mode w = mm_copy eloop io src dst MM_NOFOLLOW mode w"
    unfolding mm_copy_def using a [of "flags OR MM_NOFOLLOW"] a [of MM_NOFOLLOW] ci [of "flags OR MM_NOFOLLOW" MM_NOFOLLOW] f by auto
  moreover have "clone_src_hnd io' hnd dst flags mode w' = clone_src_hnd io' hnd dst 0 mode w'"
    unfolding clone_src_hnd_def cow_select ..
  ultimately show ?thesis by blast
qed

text \<open>For the examples: a source of which \<open>copy_file_range\<close> moves 3 bytes and then reports \<open>EXDEV\<close>.\<close>

definition demo_io :: "(string \<times> string) posix_io" where
  "demo_io = \<lparr> px_read = (\<lambda>_ n (inp, out). (Inr (take (min 2 n) inp), drop (min 2 n) inp, out)),
     px_write = (\<lambda>_ buf (inp, out). (Inr 1, inp, out @ take 1 buf)),
     px_copy_range = Some (\<lambda>_ _ (inp, out). if length inp > 3 then (Inr 3, drop 3 inp, out @ take 3 inp) else (Inl EXDEV, inp, out)),
     px_ficlone = None, px_malloc = (\<lambda>_. True), px_open = (\<lambda>_ _ w. (Inr 3, w)), px_create = (\<lambda>_ _ w. (Inr 4, w)),
     px_close = (\<lambda>_ w. w), px_unlink = (\<lambda>_ w. w), px_link_size = (\<lambda>_ _. Inl EINVAL),
     px_readlink = (\<lambda>_ _ _. Inl EINVAL), px_symlink = (\<lambda>_ _ w. (None, w)) \<rparr>"

lemma demo_io_ok: "io_ok demo_io 3 4 (\<lambda>_. True) fst snd"
proof -
  have r: "reads_from (px_read demo_io 3) fst snd" "px_malloc demo_io COPYBUFFER_SIZE"
    unfolding reads_from_def by (auto simp: demo_io_def split: prod.splits)
  have w: "writes_to (px_write demo_io 4) fst snd"
    unfolding writes_to_def by (auto simp: demo_io_def Suc_le_eq split: prod.splits)
  have c: "range_copies (\<lambda>(inp, out). if length inp > 3 then (Inr 3, drop 3 inp, out @ take 3 inp) else (Inl EXDEV, inp, out))
      (\<lambda>_. True) fst snd"
    unfolding range_copies_def by (auto split: prod.splits)
  show ?thesis using r w c by (simp add: io_ok_def) (simp add: demo_io_def)
qed

theorem mm_copy_complete_witness:
  "\<exists>w3 w'. mm_copy (OtherErr 40) demo_io ''a'' ''b'' MM_NOFOLLOW 420 (''content'', []) = Some (None, w')
    \<and> w' = px_close demo_io 3 (px_close demo_io 4 w3) \<and> snd w3 = ''content'' \<and> snd w' = ''content''"
  by (rule mm_copy_complete [OF _ _ _ _ _ demo_io_ok, where ?w1.0 = "(''content'', [])" and ?w2.0 = "(''content'', [])"])
    (simp_all add: demo_io_def)

theorem cow_flags_ignored_witness:
  "mm_copy (OtherErr 40) demo_io ''a'' ''b'' MM_FORCECOW 420 (''x'', []) = mm_copy (OtherErr 40) demo_io ''a'' ''b'' 0 420 (''x'', [])
    \<and> mm_copy (OtherErr 40) demo_io ''a'' ''b'' (MM_FORCECOW OR MM_NOFOLLOW) 420 (''x'', [])
      = mm_copy (OtherErr 40) demo_io ''a'' ''b'' MM_NOFOLLOW 420 (''x'', [])
    \<and> (\<forall>io' :: unit w32_io. clone_src_hnd io' 5 ''b'' MM_FORCECOW 420 () = clone_src_hnd io' 5 ''b'' 0 420 ())"
  by (intro conjI allI; rule cow_flags_ignored [THEN conjunct1] cow_flags_ignored [THEN conjunct2, THEN conjunct1]
      cow_flags_ignored [THEN conjunct2, THEN conjunct2]; simp)

end
