(* ===== verification/File_Tree.thy ===== *)
theory File_Tree
  imports Paths File_Copy
begin

text \<open>
  Creating directories with their parents (\<open>mm_mkdir\<close> of \<^verbatim>\<open>src/src/file.c\<close>) and removing directory trees
  (\<open>mm_remove\<close> of \<^verbatim>\<open>src/src/file-posix.c\<close>). The calls of the system are parameters.
\<close>

section \<open>Creating directories\<close>

text \<open>A buffer that holds a C string, with what follows its end.\<close>

definition cstr :: "string \<Rightarrow> string" where
  "cstr buf = takeWhile (\<lambda>c. c \<noteq> NUL) buf"

text \<open>\<open>while (--c > path)\<close>: the separator found, \<open>c\<close> being the value before the decrement.\<close>

fun dir_scan :: "bool \<Rightarrow> string \<Rightarrow> nat \<Rightarrow> nat option" where
  "dir_scan win32 path (Suc (Suc c)) =
     (if is_path_separator win32 (path ! Suc c) then Some (Suc c) else dir_scan win32 path (Suc c))"
| "dir_scan win32 path c = None"

text \<open>The loop that overwrites consecutive separators.\<close>

fun clear_seps :: "bool \<Rightarrow> string \<Rightarrow> nat \<Rightarrow> string" where
  "clear_seps win32 path 0 = path"
| "clear_seps win32 path (Suc c) =
     (if is_path_separator win32 (path ! Suc c) then clear_seps win32 (path[Suc c := NUL]) c else path)"

text \<open>\<open>internal_dirname\<close>: whether the result is the path itself, now shorter, or the string \<open>"."\<close>; and the buffer.\<close>

definition internal_dirname :: "bool \<Rightarrow> string \<Rightarrow> bool \<times> string" where
  "internal_dirname win32 path =
     (case dir_scan win32 path (skip_seps_down win32 path (length (cstr path) - 1)) of
        None \<Rightarrow> (False, path)
      | Some c \<Rightarrow> (True, clear_seps win32 path c))"

text \<open>The loop that puts the separators back.\<close>

fun restore_seps :: "string \<Rightarrow> nat \<Rightarrow> nat \<Rightarrow> string" where
  "restore_seps path len 0 = path"
| "restore_seps path len (Suc n) = (if path ! len = NUL then restore_seps (path[len := CHR ''/'']) (Suc len) n else path)"

lemma length_clear_seps [simp]: "length (clear_seps w path c) = length path"
  by (induction c arbitrary: path) auto

lemma nth_clear_seps: "c < i \<Longrightarrow> clear_seps w path c ! i = path ! i"
  by (induction c arbitrary: path) auto

lemma clear_seps_nul: "0 < c \<Longrightarrow> c < length path \<Longrightarrow> is_path_separator w (path ! c) \<Longrightarrow> clear_seps w path c ! c = NUL"
  by (cases c) (simp_all add: nth_clear_seps)

lemma dir_scan_Some: "dir_scan w path c = Some d \<Longrightarrow> 0 < d \<and> d < c \<and> is_path_separator w (path ! d)"
  by (induction w path c rule: dir_scan.induct) (auto split: if_splits)

lemma length_cstr_le: "length (cstr buf) \<le> length buf"
  by (simp add: cstr_def length_takeWhile_le)

lemma cstr_before_nul: "i < length buf \<Longrightarrow> buf ! i = NUL \<Longrightarrow> length (cstr buf) \<le> i"
  unfolding cstr_def by (metis (mono_tags, lifting) leI nth_mem set_takeWhileD takeWhile_nth)

lemma nth_cstr: "i < length (cstr buf) \<Longrightarrow> buf ! i \<noteq> NUL"
  unfolding cstr_def by (metis (mono_tags, lifting) nth_mem set_takeWhileD takeWhile_nth)

lemma internal_dirname_shorter:
  assumes "internal_dirname w buf = (True, buf')"
  shows "length (cstr buf') < length (cstr buf)"
proof -
  obtain c where c: "dir_scan w buf (skip_seps_down w buf (length (cstr buf) - 1)) = Some c" "buf' = clear_seps w buf c"
    using assms by (auto simp: internal_dirname_def split: option.splits)
  have d: "0 < c" "c < length (cstr buf)" "is_path_separator w (buf ! c)"
    using dir_scan_Some [OF c(1)] skip_seps_down_le [of w buf "length (cstr buf) - 1"] by auto
  then have "clear_seps w buf c ! c = NUL" using length_cstr_le [of buf] by (simp add: clear_seps_nul)
  then show ?thesis using cstr_before_nul [of c buf'] c(2) d(2) length_cstr_le [of buf] by simp
qed

text \<open>
  \<open>mm_mkdir_rec\<close> on a buffer: the result, the buffer and the world. \<open>mk\<close> is \<open>mkdir\<close> on the path name;
  \<open>internal_mkdir\<close> passes on its error.
\<close>

function mm_mkdir_rec ::
  "bool \<Rightarrow> (string \<Rightarrow> 'w \<Rightarrow> retcode \<times> 'w) \<Rightarrow> string \<Rightarrow> 'w \<Rightarrow> retcode \<times> string \<times> 'w" where
  "mm_mkdir_rec win32 mk path w =
     (case mk (cstr path) w of
        (None, w) \<Rightarrow> (None, path, w)
      | (Some err, w) \<Rightarrow>
          if err = EEXIST then (None, path, w)
          else if err \<noteq> ENOENT then (Some err, path, w)
          else if is_wildcard_directory (cstr path) then (None, path, w)
          else
            let len_orig = length (cstr path);
                (is_path, path) = internal_dirname win32 path;
                (rv, path, w) =
                  (if is_path then mm_mkdir_rec win32 mk path w
                   else case mm_mkdir_rec win32 mk [CHR ''.'', NUL] w of (rv, _, w) \<Rightarrow> (rv, path, w));
                len = length (cstr path);
                path = restore_seps path len (len_orig - len)
            in (case rv of
                 Some e \<Rightarrow> (Some e, path, w)
               | None \<Rightarrow> (case mk (cstr path) w of (rv, w) \<Rightarrow> (rv, path, w))))"
  by pat_completeness auto
termination
proof (relation "measure (\<lambda>(win32, mk, path, w). if is_wildcard_directory (cstr path) then 0 else Suc (length (cstr path)))",
    goal_cases)
  case 1
  then show ?case by simp
next
  case (2 win32 mk path w a w' err n b is_path path')
  then show ?case using internal_dirname_shorter [of win32 path path'] by auto
next
  case (3 win32 mk path w a w' err n b is_path path')
  have "is_wildcard_directory (cstr [CHR ''.'', NUL])" by (simp add: cstr_def is_wildcard_directory_def)
  then show ?case using 3 by auto
qed

declare mm_mkdir_rec.simps [simp del]

definition MM_RECURSIVE :: int where "MM_RECURSIVE = 0x80000000"

text \<open>\<open>internal_mkdir\<close> with \<open>filter_mode_flags\<close> of \<^verbatim>\<open>src/src/utils-posix.h\<close>.\<close>

definition MODE_EXEC :: int where "MODE_EXEC = 0x20000"

definition filter_mode_flags :: "int \<Rightarrow> int" where
  "filter_mode_flags mode = (if mode AND MODE_DEF \<noteq> 0 then (if mode AND MODE_EXEC \<noteq> 0 then 0x1FF else 0x1B6) else mode)"

definition mm_mkdir :: "(string \<Rightarrow> int \<Rightarrow> 'w \<Rightarrow> retcode \<times> 'w) \<Rightarrow> string \<Rightarrow> int \<Rightarrow> int \<Rightarrow> 'w \<Rightarrow> retcode \<times> 'w" where
  "mm_mkdir mkdir path mode flags w =
     (let mk = (\<lambda>p. mkdir p (filter_mode_flags mode))
      in if flags AND MM_RECURSIVE \<noteq> 0
         then (case mm_mkdir_rec False mk (path @ [NUL]) w of (rv, _, w) \<Rightarrow> (rv, w))
         else mk path w)"

section \<open>What is created\<close>

text \<open>The name of the parent, as the code computes it.\<close>

definition parent :: "string \<Rightarrow> string" where
  "parent path =
     (case internal_dirname False (path @ [NUL]) of (is_path, buf) \<Rightarrow> if is_path then cstr buf else ''.'')"

text \<open>
  What \<open>mkdir\<close> promises of the set \<open>dirs w\<close> of the directories that exist: it reports one that exists, creates
  one whose parent exists and may report \<open>ENOENT\<close> only when the parent does not exist. \<open>"."\<close> and \<open>".."\<close> exist.
\<close>

definition mkdir_ok :: "(string \<Rightarrow> 'w \<Rightarrow> retcode \<times> 'w) \<Rightarrow> ('w \<Rightarrow> string set) \<Rightarrow> bool" where
  "mkdir_ok mk dirs \<longleftrightarrow>
     (\<forall>w. ''.'' \<in> dirs w \<and> ''..'' \<in> dirs w \<and>
        (\<forall>p. if p \<in> dirs w then mk p w = (Some EEXIST, w)
             else mk p w = (Some ENOENT, w) \<and> parent p \<notin> dirs w
               \<or> (\<exists>w'. mk p w = (None, w') \<and> dirs w' = insert p (dirs w))))"

lemma wildcard_iff: "is_wildcard_directory p \<longleftrightarrow> p = ''.'' \<or> p = ''..''"
proof -
  consider "p = []" | a where "p = [a]" | a b where "p = [a, b]" | a b c cs where "p = a # b # c # cs"
    by (metis list.exhaust)
  moreover have "wildcard_scan cs (Suc (Suc (Suc 0))) = Some 3" for cs by (cases cs) simp_all
  ultimately show ?thesis by cases (auto simp: is_wildcard_directory_def split: option.splits)
qed

lemma skip_seps_down_append: "c < length p \<Longrightarrow> skip_seps_down w (p @ r) c = skip_seps_down w p c"
  by (induction c) (auto simp: nth_append)

lemma dir_scan_append: "c \<le> length p \<Longrightarrow> dir_scan w (p @ r) c = dir_scan w p c"
  by (induction w p c rule: dir_scan.induct) (auto simp: nth_append)

lemma clear_seps_append: "c < length p \<Longrightarrow> clear_seps w (p @ r) c = clear_seps w p c @ r"
  by (induction c arbitrary: p) (auto simp: nth_append list_update_append)

lemma cstr_append: "NUL \<notin> set p \<Longrightarrow> cstr (p @ NUL # r) = p"
  by (induction p) (auto simp: cstr_def)

lemma cstr_split: "NUL \<in> set buf \<Longrightarrow> \<exists>r. buf = cstr buf @ NUL # r \<and> NUL \<notin> set (cstr buf)"
proof -
  assume "NUL \<in> set buf"
  then obtain p r where "buf = p @ NUL # r" "NUL \<notin> set p" by (meson split_list_first)
  then show ?thesis by (auto simp: cstr_append)
qed

text \<open>The directory name depends on the string in the buffer only.\<close>

lemma internal_dirname_append:
  assumes "NUL \<notin> set p"
  shows "internal_dirname w (p @ NUL # r) =
    (case dir_scan w p (skip_seps_down w p (length p - 1)) of None \<Rightarrow> (False, p @ NUL # r) | Some c \<Rightarrow> (True, clear_seps w p c @ NUL # r))"
proof (cases "p = []")
  case True
  then show ?thesis by (simp add: internal_dirname_def cstr_def)
next
  case False
  let ?c = "skip_seps_down w p (length p - 1)"
  have c: "skip_seps_down w (p @ NUL # r) (length p - Suc 0) = skip_seps_down w p (length p - Suc 0)"
    using False by (simp add: skip_seps_down_append)
  have le: "?c < length p" using skip_seps_down_le [of w p "length p - 1"] False by (cases p) auto
  show ?thesis
    using assms le dir_scan_Some [of w p ?c]
    by (auto simp: internal_dirname_def cstr_append c dir_scan_append clear_seps_append split: option.splits)
qed

lemma cstr_parent:
  assumes "NUL \<in> set buf" "internal_dirname False buf = (is_path, buf')"
  shows "parent (cstr buf) = (if is_path then cstr buf' else ''.'') \<and> NUL \<in> set buf'"
proof -
  obtain r where r: "buf = cstr buf @ NUL # r" "NUL \<notin> set (cstr buf)" using cstr_split [OF assms(1)] by blast
  have e: "cstr (xs @ NUL # r) = cstr (xs @ [NUL])" for xs by (induction xs) (auto simp: cstr_def)
  show ?thesis
    using assms internal_dirname_append [OF r(2), of False r] internal_dirname_append [OF r(2), of False "[]"] r(1)
    by (auto simp: parent_def e split: option.splits)
qed

section \<open>The separators are put back\<close>

lemma clear_seps_region:
  assumes "c < length path"
  shows "\<exists>k m. k + m = Suc c \<and> 0 < k \<and> clear_seps False path c = take k path @ replicate m NUL @ drop (Suc c) path
     \<and> take (Suc c) path = take k path @ replicate m (CHR ''/'')"
  using assms
proof (induction c arbitrary: path)
  case 0
  then show ?case by (intro exI [of _ 1] exI [of _ 0]) (cases path; simp)
next
  case (Suc c)
  show ?case
  proof (cases "path ! Suc c = CHR ''/''")
    case True
    have "c < length (path[Suc c := NUL])" using Suc(2) by simp
    then obtain k m where km: "k + m = Suc c" "0 < k"
        "clear_seps False (path[Suc c := NUL]) c = take k (path[Suc c := NUL]) @ replicate m NUL @ drop (Suc c) (path[Suc c := NUL])"
        "take (Suc c) (path[Suc c := NUL]) = take k (path[Suc c := NUL]) @ replicate m (CHR ''/'')"
      using Suc(1) by blast
    have d: "drop (Suc c) (path[Suc c := NUL]) = NUL # drop (Suc (Suc c)) path"
      using Suc(2) by (metis Cons_nth_drop_Suc drop_update_cancel length_list_update lessI nth_list_update_eq)
    have t: "take (Suc (Suc c)) path = take (Suc c) path @ [CHR ''/'']"
      using Suc(2) True by (simp add: take_Suc_conv_app_nth)
    have k: "take k (path[Suc c := NUL]) = take k path" using km(1) by simp
    have r: "replicate m (x :: char) @ x # ys = replicate (Suc m) x @ ys" for x ys
      by (induction m) auto
    show ?thesis
      using True km d k t r by (intro exI [of _ k] exI [of _ "Suc m"])
        (simp add: is_path_separator_def replicate_append_same)
  next
    case False
    then show ?thesis using Suc(2) by (intro exI [of _ "Suc (Suc c)"] exI [of _ 0]) (simp add: is_path_separator_def)
  qed
qed

lemma restore_region: "m < n \<Longrightarrow> y \<noteq> NUL \<Longrightarrow>
    restore_seps (xs @ replicate m NUL @ y # ys) (length xs) n = xs @ replicate m (CHR ''/'') @ y # ys"
proof (induction m arbitrary: n xs)
  case 0
  then show ?case by (cases n) simp_all
next
  case (Suc m)
  then obtain n' where n: "n = Suc n'" "m < n'" by (cases n) auto
  have "(xs @ replicate (Suc m) NUL @ y # ys)[length xs := CHR ''/''] = (xs @ [CHR ''/'']) @ replicate m NUL @ y # ys" by simp
  then show ?case using n Suc(1) [of n' "xs @ [CHR ''/'']"] Suc(3) by simp
qed

lemma restore_dirname:
  assumes "internal_dirname False buf = (True, b1)"
  shows "restore_seps b1 (length (cstr b1)) (length (cstr buf) - length (cstr b1)) = buf"
proof -
  let ?n = "length (cstr buf)"
  obtain c where c: "dir_scan False buf (skip_seps_down False buf (?n - 1)) = Some c" "b1 = clear_seps False buf c"
    using assms by (auto simp: internal_dirname_def split: option.splits)
  have d: "0 < c" "Suc c < ?n" "is_path_separator False (buf ! c)"
    using dir_scan_Some [OF c(1)] skip_seps_down_le [of False buf "?n - 1"] by auto
  have len: "Suc c < length buf" using d(2) length_cstr_le [of buf] by simp
  obtain k m where km: "k + m = Suc c" "0 < k" "b1 = take k buf @ replicate m NUL @ drop (Suc c) buf"
      "take (Suc c) buf = take k buf @ replicate m (CHR ''/'')"
    unfolding c(2) using clear_seps_region [OF Suc_lessD [OF len]] by blast
  have m: "0 < m"
  proof (rule ccontr)
    assume "\<not> 0 < m"
    then have "b1 = buf" using km(1,3) by simp
    then show False using clear_seps_nul [OF d(1) _ d(3)] len c(2) nth_cstr [of c buf] d(2) by simp
  qed
  have dr: "drop (Suc c) buf = buf ! Suc c # drop (Suc (Suc c)) buf" using len by (simp add: Cons_nth_drop_Suc)
  have nz: "NUL \<notin> set (take k buf)"
    using km(1) m d(2) nth_cstr [of _ buf] len by (auto simp: in_set_conv_nth)
  obtain m' where m': "m = Suc m'" using m by (cases m) auto
  have l: "length (cstr b1) = k"
    using cstr_append [OF nz, of "replicate m' NUL @ drop (Suc c) buf"] km(1,3) len m' by simp
  have lk: "length (take k buf) = k" using km(1) len by simp
  have b: "buf = take (Suc c) buf @ drop (Suc c) buf" by simp
  have "restore_seps b1 k (?n - k) = take k buf @ replicate m (CHR ''/'') @ drop (Suc c) buf"
    using restore_region [of m "?n - k" "buf ! Suc c" "take k buf" "drop (Suc (Suc c)) buf"] lk km(1,3) d(2) nth_cstr [OF d(2)] dr
    by simp
  also have "\<dots> = buf" using km(4) by (metis append_assoc append_take_drop_id)
  finally show ?thesis unfolding l .
qed



text \<open>For the example: the world is the list of the directories that exist.\<close>

definition demo_mkdir :: "string \<Rightarrow> string list \<Rightarrow> retcode \<times> string list" where
  "demo_mkdir p ds =
     (if p \<in> set (''.'' # ''..'' # ds) then (Some EEXIST, ds)
      else if parent p \<in> set (''.'' # ''..'' # ds) then (None, p # ds) else (Some ENOENT, ds))"

lemma demo_mkdir_ok: "mkdir_ok demo_mkdir (\<lambda>ds. set (''.'' # ''..'' # ds))"
  unfolding mkdir_ok_def by (auto simp: demo_mkdir_def)


end
