(* ===== verification/File_Remove.thy ===== *)
theory File_Remove
  imports File_Tree "HOL-Library.Sublist"
begin

text \<open>
  Removing files and directory trees: \<open>mm_remove\<close> of \<^verbatim>\<open>src/src/file-posix.c\<close>. The calls of the system are a
  record of parameters; a directory descriptor has the type \<open>'d\<close>, the world the type \<open>'w\<close>.
\<close>

section \<open>The code\<close>

datatype native_kind = N_FIFO | N_CHR | N_BLK | N_DIR | N_REG | N_LNK | N_SOCK | N_OTHER

record ('d, 'w) dir_os =
  os_fstatat :: "'d option \<Rightarrow> string \<Rightarrow> 'w \<Rightarrow> native_kind option"
  os_fdopendir :: "'d \<Rightarrow> 'w \<Rightarrow> string list option"
  os_openat :: "'d \<Rightarrow> string \<Rightarrow> 'w \<Rightarrow> 'd option"
  os_unlinkat :: "'d \<Rightarrow> string \<Rightarrow> bool \<Rightarrow> 'w \<Rightarrow> retcode \<times> 'w"
  os_open :: "string \<Rightarrow> 'w \<Rightarrow> 'd option"
  os_rmdir :: "string \<Rightarrow> 'w \<Rightarrow> retcode \<times> 'w"
  os_unlink :: "string \<Rightarrow> 'w \<Rightarrow> retcode \<times> 'w"
  os_errno :: "'w \<Rightarrow> errcode"

definition MM_DT_ANY :: int where "MM_DT_ANY = 255"
definition MM_FAILONERROR :: int where "MM_FAILONERROR = 0x40000000"
definition RECURSION_MAX :: nat where "RECURSION_MAX = 100"

text \<open>The type of a file, \<open>- 1\<close> when the system cannot tell.\<close>

definition get_file_type :: "('d, 'w) dir_os \<Rightarrow> 'd option \<Rightarrow> string \<Rightarrow> 'w \<Rightarrow> int" where
  "get_file_type os dirfd path w =
     (case os_fstatat os dirfd path w of
        None \<Rightarrow> - 1
      | Some k \<Rightarrow>
          (case k of N_FIFO \<Rightarrow> MM_DT_FIFO | N_CHR \<Rightarrow> MM_DT_CHR | N_BLK \<Rightarrow> MM_DT_BLK | N_DIR \<Rightarrow> MM_DT_DIR
           | N_REG \<Rightarrow> MM_DT_REG | N_LNK \<Rightarrow> MM_DT_LNK | N_SOCK \<Rightarrow> MM_DT_SOCK | N_OTHER \<Rightarrow> MM_DT_UNKNOWN))"

text \<open>
  What the inside of a subdirectory decided for the loop: leave it, go on with the next entry, or remove
  the entry itself.
\<close>

datatype 'w entry = Leave 'w | Skip 'w | Remove 'w

text \<open>
  The body of the loop of \<open>mm_remove_rec\<close> over the entries that \<open>readdir\<close> gives; \<open>rec\<close> is the recursive call. The
  result tells whether the end of the directory was reached.
\<close>

definition enter_dir :: "('d \<Rightarrow> 'w \<Rightarrow> bool \<times> 'w) \<Rightarrow> ('d, 'w) dir_os \<Rightarrow> 'd \<Rightarrow> int \<Rightarrow> string \<Rightarrow> 'w \<Rightarrow> 'w entry" where
  "enter_dir rec os dirfd flags name w =
     (case os_openat os dirfd name w of
        None \<Rightarrow> if flags AND MM_FAILONERROR \<noteq> 0 then Leave w else Skip w
      | Some newdirfd \<Rightarrow>
          let (ok, w) = rec newdirfd w
          in if \<not> ok \<and> flags AND MM_FAILONERROR \<noteq> 0 then Leave w
             else Remove (snd (os_unlinkat os dirfd name True w)))"

fun remove_loop :: "('d \<Rightarrow> 'w \<Rightarrow> bool \<times> 'w) \<Rightarrow> ('d, 'w) dir_os \<Rightarrow> 'd \<Rightarrow> int \<Rightarrow> string list \<Rightarrow> 'w \<Rightarrow> bool \<times> 'w" where
  "remove_loop rec os dirfd flags [] w = (True, w)"
| "remove_loop rec os dirfd flags (name # names) w =
     (let type = get_file_type os (Some dirfd) name w
      in if type > 0 \<and> flags AND type = 0 then remove_loop rec os dirfd flags names w
         else if is_wildcard_directory name then remove_loop rec os dirfd flags names w
         else
           (case (if type = MM_DT_DIR then enter_dir rec os dirfd flags name w else Remove w) of
              Leave w \<Rightarrow> (False, w)
            | Skip w \<Rightarrow> remove_loop rec os dirfd flags names w
            | Remove w \<Rightarrow>
                (case os_unlinkat os dirfd name (type = MM_DT_DIR) w of
                   (rv, w) \<Rightarrow> if rv \<noteq> None \<and> flags AND MM_FAILONERROR \<noteq> 0 then (False, w)
                              else remove_loop rec os dirfd flags names w)))"

text \<open>
  \<open>mm_remove_rec\<close> at \<open>rec_lvl = lvl - 1\<close>, whether it returned 0: at \<open>lvl = 0\<close> the levels are used up. Descriptors are
  closed by the system's calls, which the model leaves out.
\<close>

fun mm_remove_rec :: "('d, 'w) dir_os \<Rightarrow> int \<Rightarrow> nat \<Rightarrow> 'd \<Rightarrow> 'w \<Rightarrow> bool \<times> 'w" where
  "mm_remove_rec os flags 0 dirfd w = (False, w)"
| "mm_remove_rec os flags (Suc lvl) dirfd w =
     (case os_fdopendir os dirfd w of
        None \<Rightarrow> (flags AND MM_FAILONERROR = 0, w)
      | Some names \<Rightarrow> remove_loop (mm_remove_rec os flags lvl) os dirfd flags names w)"

definition mm_remove :: "('d, 'w) dir_os \<Rightarrow> string \<Rightarrow> int \<Rightarrow> 'w \<Rightarrow> retcode \<times> 'w" where
  "mm_remove os path flags w =
     (let type = get_file_type os None path w;
          finish = (\<lambda>w. if type = MM_DT_DIR then os_rmdir os path w else os_unlink os path w)
      in if type < 0 then (Some (os_errno os w), w)
         else if flags AND type = 0 then (Some EPERM, w)
         else if flags AND MM_RECURSIVE \<noteq> 0 \<and> type = MM_DT_DIR
         then (case os_open os path w of
                 None \<Rightarrow> (Some (os_errno os w), w)
               | Some dirfd \<Rightarrow>
                   let (ok, w) = mm_remove_rec os flags (Suc RECURSION_MAX) dirfd w
                   in if \<not> ok \<and> flags AND MM_FAILONERROR = 0 then (Some (os_errno os w), w)
                      else if is_wildcard_directory path
                      then (if ok then None else Some (os_errno os w), w)
                      else finish w)
         else finish w)"

section \<open>A subdirectory is removed twice\<close>

text \<open>
  With \<open>MM_FAILONERROR\<close> a directory that has a subdirectory is never removed completely: once the
  subdirectory has been emptied and removed, it is removed again, which fails, and the loop stops there
  although nothing went wrong, leaving the entries after it.
\<close>

theorem failonerror_stops_at_subdirectory:
  assumes "flags AND MM_FAILONERROR \<noteq> 0" "flags AND MM_DT_DIR \<noteq> 0" "\<not> is_wildcard_directory name"
    and "os_fstatat os (Some dirfd) name w = Some N_DIR" "os_openat os dirfd name w = Some sub"
    and "rec sub w = (ok, w1)" "os_unlinkat os dirfd name True w1 = (None, w2)"
    and "os_unlinkat os dirfd name True w2 = (Some ENOENT, w2)"
  shows "remove_loop rec os dirfd flags (name # names) w = (False, if ok then w2 else w1)"
proof -
  have t: "get_file_type os (Some dirfd) name w = MM_DT_DIR" using assms(4) by (simp add: get_file_type_def)
  show ?thesis using assms(1-3,5-8) by (simp add: t enter_dir_def)
qed

section \<open>An ideal file system\<close>

text \<open>
  A file system in which nothing but the structure of the tree makes a call fail: the list of its paths with
  their kinds. A directory descriptor is a path; \<open>readdir\<close> gives the entries present when the directory was
  opened. A directory is removed only when it is empty.
\<close>

type_synonym tree = "(string list \<times> native_kind) list"

definition tree_unlink :: "string list \<Rightarrow> bool \<Rightarrow> tree \<Rightarrow> retcode \<times> tree" where
  "tree_unlink p rmdir fs =
     (case map_of fs p of
        None \<Rightarrow> (Some ENOENT, fs)
      | Some k \<Rightarrow>
          if (k = N_DIR) \<noteq> rmdir then (Some EPERM, fs)
          else if \<exists>q \<in> fst ` set fs. strict_prefix p q then (Some EEXIST, fs)
          else (None, filter (\<lambda>(q, _). q \<noteq> p) fs))"

definition tree_names :: "string list \<Rightarrow> tree \<Rightarrow> string list" where
  "tree_names d fs = map last (filter (\<lambda>q. q \<noteq> [] \<and> butlast q = d) (map fst fs))"

definition tree_open :: "string list \<Rightarrow> tree \<Rightarrow> string list option" where
  "tree_open p fs = (if map_of fs p = Some N_DIR then Some p else None)"

definition tree_os :: "(string list, tree) dir_os" where
  "tree_os = \<lparr> os_fstatat = (\<lambda>d name fs. map_of fs (case_option [] id d @ [name])),
     os_fdopendir = (\<lambda>d fs. if map_of fs d = Some N_DIR then Some (tree_names d fs) else None),
     os_openat = (\<lambda>d name fs. tree_open (d @ [name]) fs),
     os_unlinkat = (\<lambda>d name rmdir fs. tree_unlink (d @ [name]) rmdir fs),
     os_open = (\<lambda>path fs. tree_open [path] fs),
     os_rmdir = (\<lambda>path fs. tree_unlink [path] True fs),
     os_unlink = (\<lambda>path fs. tree_unlink [path] False fs),
     os_errno = (\<lambda>_. EIO) \<rparr>"

text \<open>Every path is there once, has a proper name and a directory above it.\<close>

definition tree_ok :: "tree \<Rightarrow> bool" where
  "tree_ok fs \<longleftrightarrow> distinct (map fst fs) \<and>
     (\<forall>q \<in> fst ` set fs. q \<noteq> [] \<and> \<not> is_wildcard_directory (last q)
        \<and> (butlast q = [] \<or> map_of fs (butlast q) = Some N_DIR))"

text \<open>The tree without a path and all below it, and without what is below a path.\<close>

definition prune :: "string list \<Rightarrow> tree \<Rightarrow> tree" where
  "prune p fs = filter (\<lambda>(q, _). \<not> prefix p q) fs"

definition clear_dir :: "string list \<Rightarrow> tree \<Rightarrow> tree" where
  "clear_dir p fs = filter (\<lambda>(q, _). \<not> strict_prefix p q) fs"

lemma map_of_filter_key: "map_of (filter (\<lambda>(q, _). P q) fs) p = (if P p then map_of fs p else None)"
  by (induction fs) auto

lemma map_of_prune [simp]: "map_of (prune q fs) p = (if prefix q p then None else map_of fs p)"
  by (simp add: prune_def map_of_filter_key)

lemma dom_prune: "fst ` set (prune q fs) = {p \<in> fst ` set fs. \<not> prefix q p}"
  by (force simp: prune_def)

lemma names_prune: "tree_names d (prune (d @ [n]) fs) = filter (\<lambda>x. x \<noteq> n) (tree_names d fs)"
proof -
  have "butlast q = d \<Longrightarrow> q \<noteq> [] \<Longrightarrow> prefix (d @ [n]) q \<longleftrightarrow> last q = n" for q
    by (cases q rule: rev_cases) auto
  then show ?thesis
    by (induction fs) (auto simp: tree_names_def prune_def)
qed

lemma tree_okD: "tree_ok fs \<Longrightarrow> q \<in> fst ` set fs \<Longrightarrow>
    q \<noteq> [] \<and> \<not> is_wildcard_directory (last q) \<and> (butlast q = [] \<or> map_of fs (butlast q) = Some N_DIR)"
  unfolding tree_ok_def by blast

lemma tree_ok_prune: "tree_ok fs \<Longrightarrow> tree_ok (prune q fs)"
proof -
  assume ok: "tree_ok fs"
  have d: "distinct (map fst (prune q fs))"
    using ok by (simp add: tree_ok_def prune_def distinct_map_filter)
  have "p \<noteq> [] \<and> \<not> is_wildcard_directory (last p) \<and> (butlast p = [] \<or> map_of (prune q fs) (butlast p) = Some N_DIR)"
    if "p \<in> fst ` set (prune q fs)" for p
  proof -
    have p: "p \<in> fst ` set fs" "\<not> prefix q p" using that by (simp_all add: dom_prune)
    then have "\<not> prefix q (butlast p)" by (meson prefix_order.trans prefixeq_butlast)
    then show ?thesis using tree_okD [OF ok p(1)] by simp
  qed
  then show ?thesis using d unfolding tree_ok_def by blast
qed

lemma names_iff: "n \<in> set (tree_names d fs) \<longleftrightarrow> d @ [n] \<in> fst ` set fs"
  by (force simp: tree_names_def append_butlast_last_id [symmetric])

lemma distinct_names: "tree_ok fs \<Longrightarrow> distinct (tree_names d fs)"
proof -
  assume "tree_ok fs"
  then have "distinct (filter (\<lambda>q. q \<noteq> [] \<and> butlast q = d) (map fst fs))" by (simp add: tree_ok_def)
  moreover have "inj_on last (set (filter (\<lambda>q. q \<noteq> [] \<and> butlast q = d) (map fst fs)))"
    by (auto simp: inj_on_def) (metis append_butlast_last_id)
  ultimately show ?thesis by (simp add: tree_names_def distinct_map)
qed

text \<open>A directory without entries has nothing below it.\<close>

lemma below_has_child:
  assumes "tree_ok fs" "d @ n # r \<in> fst ` set fs"
  shows "d @ [n] \<in> fst ` set fs \<and> (r \<noteq> [] \<longrightarrow> map_of fs (d @ [n]) = Some N_DIR)"
  using assms(2)
proof (induction r rule: rev_induct)
  case (snoc x r)
  have "map_of fs (butlast (d @ n # r @ [x])) = Some N_DIR"
    using tree_okD [OF assms(1) snoc(2)] by (simp add: butlast_append)
  then have m: "map_of fs (d @ n # r) = Some N_DIR" by (simp add: butlast_append)
  then have "d @ n # r \<in> fst ` set fs" by (metis map_of_SomeD fst_conv image_eqI)
  then show ?case using snoc(1) m by (cases "r = []") auto
qed simp

lemma clear_empty: "tree_ok fs \<Longrightarrow> tree_names p fs = [] \<Longrightarrow> clear_dir p fs = fs"
proof -
  assume a: "tree_ok fs" "tree_names p fs = []"
  have "\<not> strict_prefix p q" if "q \<in> fst ` set fs" for q
  proof
    assume "strict_prefix p q"
    then obtain n r where "q = p @ n # r" by (metis strict_prefixE')
    then show False using below_has_child [OF a(1)] that names_iff [of n p fs] a(2) by auto
  qed
  then show ?thesis by (force simp: clear_dir_def filter_id_conv)
qed

section \<open>Removing a tree\<close>

lemma type_flags:
  assumes "flags AND MM_DT_ANY = MM_DT_ANY"
  shows "\<not> (get_file_type os d name w > 0 \<and> flags AND get_file_type os d name w = 0)"
proof -
  have f: "flags AND t \<noteq> 0" if "MM_DT_ANY AND t = t" "t \<noteq> 0" for t
  proof
    assume "flags AND t = 0"
    then have "(flags AND MM_DT_ANY) AND t = 0" using that by (simp add: and.assoc)
    then show False using assms that by simp
  qed
  show ?thesis
    unfolding get_file_type_def by (auto split: option.splits native_kind.splits)
      (use f in \<open>auto simp: MM_DT_ANY_def dt_consts\<close>)
qed

lemma unlink_pruned:
  assumes "map_of fs p = Some k" "\<forall>q \<in> fst ` set fs. \<not> strict_prefix p q"
  shows "tree_unlink p (k = N_DIR) fs = (None, prune p fs)"
proof -
  have "prune p fs = filter (\<lambda>(q, _). q \<noteq> p) fs"
    unfolding prune_def using assms(2) by (intro filter_cong) (force simp: strict_prefix_def)+
  then show ?thesis using assms by (auto simp: tree_unlink_def)
qed

lemma prune_clear: "prune p (clear_dir p fs) = prune p fs"
  by (simp add: prune_def clear_dir_def) (intro filter_cong, auto simp: strict_prefix_def)

lemma clear_prune: "clear_dir p (prune (p @ [n]) fs) = clear_dir p fs"
  unfolding prune_def clear_dir_def filter_filter
  by (intro filter_cong) (auto simp: strict_prefix_def dest: append_prefixD)

lemma map_of_clear: "map_of (clear_dir p fs) q = (if strict_prefix p q then None else map_of fs q)"
  by (simp add: clear_dir_def map_of_filter_key)

text \<open>One entry: after its turn the entry and all below it are gone.\<close>

lemma remove_entry:
  assumes "tree_ok fs" "map_of fs (d @ [n]) = Some k" "flags AND MM_DT_ANY = MM_DT_ANY" "flags AND MM_FAILONERROR = 0"
    and "k = N_DIR \<Longrightarrow> snd (rec (d @ [n]) fs) = clear_dir (d @ [n]) fs"
  shows "remove_loop rec tree_os d flags (n # names) fs = remove_loop rec tree_os d flags names (prune (d @ [n]) fs)"
proof -
  have in_fs: "d @ [n] \<in> fst ` set fs" using assms(2) by (metis map_of_SomeD fst_conv image_eqI)
  have nw: "\<not> is_wildcard_directory n" using tree_okD [OF assms(1) in_fs] by simp
  have st: "os_fstatat tree_os (Some d) n fs = Some k" using assms(2) by (simp add: tree_os_def)
  have ty: "get_file_type tree_os (Some d) n fs = MM_DT_DIR \<longleftrightarrow> k = N_DIR"
    unfolding get_file_type_def st by (cases k) (simp_all add: dt_consts)
  note tf = type_flags [OF assms(3), of tree_os "Some d" n fs]
  show ?thesis
  proof (cases "k = N_DIR")
    case True
    let ?p = "d @ [n]"
    have cl: "map_of (clear_dir ?p fs) ?p = Some N_DIR" using assms(2) True by (simp add: map_of_clear)
    have "tree_unlink ?p True (clear_dir ?p fs) = (None, prune ?p fs)"
      using unlink_pruned [OF cl] prune_clear [of ?p fs] by (auto simp: clear_dir_def)
    then have "enter_dir rec tree_os d flags n fs = Remove (prune ?p fs)"
      using assms(2,4,5) True by (auto simp: enter_dir_def tree_os_def tree_open_def split: prod.splits)
    moreover have "os_unlinkat tree_os d n True (prune ?p fs) = (Some ENOENT, prune ?p fs)"
      by (simp add: tree_os_def tree_unlink_def)
    ultimately show ?thesis using tf ty True nw assms(4) by (auto simp: Let_def)
  next
    case False
    have "\<forall>q \<in> fst ` set fs. \<not> strict_prefix (d @ [n]) q"
    proof (intro ballI notI)
      fix q
      assume q: "q \<in> fst ` set fs" "strict_prefix (d @ [n]) q"
      then obtain x r where "q = (d @ [n]) @ x # r" by (metis strict_prefixE')
      then show False using below_has_child [OF assms(1), of d n "x # r"] q(1) assms(2) False by simp
    qed
    then have "os_unlinkat tree_os d n False fs = (None, prune (d @ [n]) fs)"
      using unlink_pruned [OF assms(2)] False by (simp add: tree_os_def)
    then show ?thesis using tf ty False nw by (auto simp: Let_def)
  qed
qed

lemma remove_loop_clears:
  assumes "tree_ok fs" "map_of fs d = Some N_DIR" "tree_names d fs = names"
    and "flags AND MM_DT_ANY = MM_DT_ANY" "flags AND MM_FAILONERROR = 0"
    and "\<And>n fs'. tree_ok fs' \<Longrightarrow> map_of fs' (d @ [n]) = Some N_DIR \<Longrightarrow> fst ` set fs' \<subseteq> fst ` set fs \<Longrightarrow>
           snd (rec (d @ [n]) fs') = clear_dir (d @ [n]) fs'"
  shows "remove_loop rec tree_os d flags names fs = (True, clear_dir d fs)"
  using assms(1-3,6)
proof (induction names arbitrary: fs)
  case Nil
  then show ?case by (simp add: clear_empty)
next
  case (Cons n names)
  let ?f = "prune (d @ [n]) fs"
  have n: "d @ [n] \<in> fst ` set fs" using names_iff [of n d fs] Cons(4) by simp
  then obtain k where k: "map_of fs (d @ [n]) = Some k" by (metis map_of_eq_None_iff option.exhaust)
  have nd: "n \<notin> set names" using distinct_names [OF Cons(2), of d] Cons(4) by simp
  then have nm: "tree_names d ?f = names" using names_prune [of d n fs] Cons(4) by (simp add: filter_id_conv) metis
  have dd: "map_of ?f d = Some N_DIR" using Cons(3) by simp
  have sub: "fst ` set ?f \<subseteq> fst ` set fs" by (auto simp: dom_prune)
  have step: "remove_loop rec tree_os d flags (n # names) fs = remove_loop rec tree_os d flags names ?f"
    by (rule remove_entry [OF Cons(2) k assms(4,5)]) (use Cons(5) [OF Cons(2)] k in auto)
  have "remove_loop rec tree_os d flags names ?f = (True, clear_dir d ?f)"
    by (rule Cons(1) [OF tree_ok_prune [OF Cons(2)] dd nm], rule Cons(5), assumption+, erule subset_trans [OF _ sub])
  then show ?case using step by (simp add: clear_prune)
qed

lemma mm_remove_rec_clears:
  assumes "flags AND MM_DT_ANY = MM_DT_ANY" "flags AND MM_FAILONERROR = 0"
    and "tree_ok fs" "map_of fs d = Some N_DIR" "\<forall>q \<in> fst ` set fs. prefix d q \<longrightarrow> length q \<le> length d + lvl"
  shows "snd (mm_remove_rec tree_os flags lvl d fs) = clear_dir d fs \<and> (0 < lvl \<longrightarrow> fst (mm_remove_rec tree_os flags lvl d fs))"
  using assms(3-5)
proof (induction lvl arbitrary: d fs)
  case 0
  have "tree_names d fs = []"
  proof (rule ccontr)
    assume "tree_names d fs \<noteq> []"
    then obtain n where "n \<in> set (tree_names d fs)" by (cases "tree_names d fs") auto
    then have "d @ [n] \<in> fst ` set fs" by (simp only: names_iff)
    then show False using 0(3) by fastforce
  qed
  then show ?case using clear_empty [OF 0(1)] by simp
next
  case (Suc lvl)
  have "remove_loop (mm_remove_rec tree_os flags lvl) tree_os d flags (tree_names d fs) fs = (True, clear_dir d fs)"
  proof (rule remove_loop_clears [OF Suc(2,3) refl assms(1,2)])
    fix n fs'
    assume a: "tree_ok fs'" "map_of fs' (d @ [n]) = Some N_DIR" "fst ` set fs' \<subseteq> fst ` set fs"
    have "\<forall>q \<in> fst ` set fs'. prefix (d @ [n]) q \<longrightarrow> length q \<le> length (d @ [n]) + lvl"
      using a(3) Suc(4) append_prefixD by fastforce
    then show "snd (mm_remove_rec tree_os flags lvl (d @ [n]) fs') = clear_dir (d @ [n]) fs'"
      using Suc(1) [OF a(1,2)] by blast
  qed
  moreover have "os_fdopendir tree_os d fs = Some (tree_names d fs)" using Suc(3) by (simp add: tree_os_def)
  ultimately show ?case by simp
qed



theorem failonerror_stops_at_subdirectory_witness:
  "remove_loop (mm_remove_rec tree_os 0xC00000FF 100) tree_os [''top''] 0xC00000FF [''sub'', ''f'']
     [([''top''], N_DIR), ([''top'', ''sub''], N_DIR), ([''top'', ''f''], N_REG)]
   = (False, [([''top''], N_DIR), ([''top'', ''f''], N_REG)])"
  by (subst failonerror_stops_at_subdirectory
      [where ok = True and sub = "[''top'', ''sub'']" and ?w1.0 = "[([''top''], N_DIR), ([''top'', ''sub''], N_DIR), ([''top'', ''f''], N_REG)]"
        and ?w2.0 = "[([''top''], N_DIR), ([''top'', ''f''], N_REG)]"])
    (simp_all add: wildcard_iff MM_FAILONERROR_def MM_DT_DIR_def tree_os_def tree_open_def tree_unlink_def tree_names_def numeral_eq_Suc)

end
