(* ===== verification/Err_Log.thy ===== *)
theory Err_Log
  imports File_Copy
begin

text \<open>
  Error state and log (\<^verbatim>\<open>src/src/error.c\<close>, \<^verbatim>\<open>src/src/error-internal.h\<close>, \<^verbatim>\<open>src/src/log.c\<close>): what raising an error
  leaves in the state of the thread, and how a log line is put in a buffer of fixed size. A buffer is the
  list of its bytes; the texts that \<open>printf\<close> makes of a format and its arguments are arguments of the model.
\<close>

section \<open>Strings in buffers\<close>

text \<open>\<open>strncpy(buf, s, n)\<close>: \<open>n\<close> bytes are written, padded with NUL, and no terminator when \<open>s\<close> is longer.\<close>

definition c_strncpy :: "nat \<Rightarrow> string \<Rightarrow> string \<Rightarrow> string" where
  "c_strncpy n s buf = take n (s @ replicate n NUL) @ drop n buf"

text \<open>\<open>snprintf(buf, n, ...)\<close> for the text \<open>s\<close>: at most \<open>n - 1\<close> characters and a terminator.\<close>

definition c_snprintf :: "nat \<Rightarrow> string \<Rightarrow> string \<Rightarrow> string" where
  "c_snprintf n s buf = (if n = 0 then buf else let t = take (n - 1) s @ [NUL] in t @ drop (length t) buf)"

definition c_string :: "string \<Rightarrow> string" where
  "c_string buf = takeWhile (\<lambda>c. c \<noteq> NUL) buf"

section \<open>Error state\<close>

definition MM_ERROR_IGNORE :: int where "MM_ERROR_IGNORE = 1"
definition MM_ERROR_NOLOG :: int where "MM_ERROR_NOLOG = 2"
definition MM_ERROR_SET :: int where "MM_ERROR_SET = - 1"

record error_info =
  ei_flags :: int
  ei_errnum :: int
  extended_id :: string
  ei_module :: string
  ei_location :: string
  ei_desc :: string

definition EXTID_SIZE :: nat where "EXTID_SIZE = 64"
definition MODULE_SIZE :: nat where "MODULE_SIZE = 32"
definition LOCATION_SIZE :: nat where "LOCATION_SIZE = 256"
definition DESC_SIZE :: nat where "DESC_SIZE = 256"

lemmas ei_sizes = EXTID_SIZE_def MODULE_SIZE_def LOCATION_SIZE_def DESC_SIZE_def

text \<open>A thread's state with its \<open>errno\<close>; a new thread has all zero.\<close>

type_synonym thread_err = "error_info \<times> int"

definition initial_error :: error_info where
  "initial_error = \<lparr> ei_flags = 0, ei_errnum = 0, extended_id = replicate EXTID_SIZE NUL,
     ei_module = replicate MODULE_SIZE NUL, ei_location = replicate LOCATION_SIZE NUL, ei_desc = replicate DESC_SIZE NUL \<rparr>"

definition mm_error_set_flags :: "int \<Rightarrow> int \<Rightarrow> error_info \<Rightarrow> int \<times> error_info" where
  "mm_error_set_flags flags msk state =
     (ei_flags state, state\<lparr>ei_flags := (msk AND flags) OR (NOT msk AND ei_flags state)\<rparr>)"

text \<open>
  An error that is raised: its number, the module and extended id that may be absent, and the texts of the
  location and of the description.
\<close>

record raised =
  r_errnum :: int
  r_module :: "string option"
  r_extid :: "string option"
  r_location :: string
  r_desc :: string

text \<open>The part of \<open>mm_raise_error_vfull\<close> before the log.\<close>

definition set_error :: "raised \<Rightarrow> thread_err \<Rightarrow> thread_err" where
  "set_error r s =
     (let (state, errno) = s in
      (state\<lparr>ei_errnum := r_errnum r,
             ei_module := c_strncpy (MODULE_SIZE - 1) (case_option ''unknown'' id (r_module r)) (ei_module state),
             extended_id := c_strncpy (EXTID_SIZE - 1) (case_option '''' id (r_extid r)) (extended_id state),
             ei_location := c_snprintf LOCATION_SIZE (r_location r) (ei_location state),
             ei_desc := c_snprintf DESC_SIZE (r_desc r) (ei_desc state)\<rparr>,
       if r_errnum r \<noteq> 0 then r_errnum r else errno))"

text \<open>
  \<open>mm_raise_error_vfull\<close>; \<open>log\<close> is \<open>mm_log\<close>, which gets the module and the message and may itself raise errors.
\<close>

definition mm_raise_error_vfull :: "(string \<Rightarrow> string \<Rightarrow> thread_err \<Rightarrow> thread_err) \<Rightarrow> raised \<Rightarrow> thread_err \<Rightarrow> thread_err" where
  "mm_raise_error_vfull log r s =
     (if ei_flags (fst s) AND MM_ERROR_IGNORE \<noteq> 0 then s
      else
        let s = set_error r s
        in if ei_flags (fst s) AND MM_ERROR_NOLOG \<noteq> 0 then s
           else let (flags, state) = mm_error_set_flags MM_ERROR_SET MM_ERROR_IGNORE (fst s);
                    msg = c_string (ei_desc state) @ '' ('' @ c_string (ei_location state) @ '')'';
                    s = log (case_option ''unknown'' id (r_module r)) msg (state, snd s)
                in (snd (mm_error_set_flags flags MM_ERROR_IGNORE (fst s)), snd s))"

text \<open>
  \<open>mm_raise_from_errno_full\<close> makes the format of the description of the given one and the text of \<open>errno\<close>, in 254 characters;
  \<open>strerror\<close> is the function of the C library and \<open>format\<close> what \<open>printf\<close> makes of a format with the arguments of the call.
\<close>

definition mm_raise_from_errno_full ::
  "(int \<Rightarrow> string) \<Rightarrow> (string \<Rightarrow> string) \<Rightarrow> (string \<Rightarrow> string \<Rightarrow> thread_err \<Rightarrow> thread_err) \<Rightarrow> raised \<Rightarrow> thread_err \<Rightarrow> thread_err" where
  "mm_raise_from_errno_full strerror format log r s =
     (let new_fmt = take 254 (r_desc r @ '' ; '' @ strerror (snd s))
      in mm_raise_error_vfull log (r\<lparr>r_errnum := snd s, r_desc := format new_fmt\<rparr>) s)"

definition mm_save_errorstate :: "thread_err \<Rightarrow> error_info" where
  "mm_save_errorstate s = fst s"

definition mm_set_errorstate :: "error_info \<Rightarrow> thread_err \<Rightarrow> thread_err" where
  "mm_set_errorstate saved s = (saved, ei_errnum saved)"

definition mm_get_lasterror_number :: "thread_err \<Rightarrow> int" where
  "mm_get_lasterror_number s = ei_errnum (fst s)"

definition mm_get_lasterror_desc :: "thread_err \<Rightarrow> string" where
  "mm_get_lasterror_desc s = c_string (ei_desc (fst s))"

definition mm_get_lasterror_location :: "thread_err \<Rightarrow> string" where
  "mm_get_lasterror_location s = c_string (ei_location (fst s))"

definition mm_get_lasterror_extid :: "thread_err \<Rightarrow> string option" where
  "mm_get_lasterror_extid s = (if extended_id (fst s) ! 0 = NUL then None else Some (c_string (extended_id (fst s))))"

definition mm_get_lasterror_module :: "thread_err \<Rightarrow> string" where
  "mm_get_lasterror_module s = c_string (ei_module (fst s))"

section \<open>Messages\<close>

definition error_tab :: "(int \<times> string) list" where
  "error_tab = [(1000, ''The device has been disconnected.''), (1003, ''Object in wrong state''),
     (1005, ''Object not found''), (1006, ''Bad format''), (1010, ''Specified hostname cannot be resolved'')]"

definition get_mm_errmsg :: "int \<Rightarrow> string option" where
  "get_mm_errmsg errnum =
     (if errnum < fst (hd error_tab) \<or> errnum > fst (last error_tab) then None else map_of error_tab errnum)"

text \<open>\<open>strerror\<close> and \<open>strerror_r\<close> of the C library are arguments.\<close>

definition mm_strerror :: "(int \<Rightarrow> string) \<Rightarrow> int \<Rightarrow> string" where
  "mm_strerror strerror errnum = (case get_mm_errmsg errnum of Some msg \<Rightarrow> msg | None \<Rightarrow> strerror errnum)"

definition mm_strerror_r :: "(int \<Rightarrow> string \<Rightarrow> retcode \<times> string) \<Rightarrow> int \<Rightarrow> string \<Rightarrow> retcode \<times> string" where
  "mm_strerror_r strerror_r errnum buf =
     (case get_mm_errmsg errnum of
        None \<Rightarrow> strerror_r errnum buf
      | Some msg \<Rightarrow>
          if length buf < 1 then (Some ERANGE, buf)
          else let msglen = length msg + 1;
                   trunclen = min (length buf) msglen;
                   buf = take (trunclen - 1) msg @ NUL # drop trunclen buf
               in (if trunclen \<noteq> msglen then Some ERANGE else None, buf))"

section \<open>Log\<close>

definition MM_LOG_NONE :: int where "MM_LOG_NONE = - 1"
definition MM_LOG_INFO :: int where "MM_LOG_INFO = 3"
definition MM_LOG_LINE_MAXLEN :: nat where "MM_LOG_LINE_MAXLEN = 256"

definition loglevel :: "string list" where
  "loglevel = [''FATAL'', ''ERROR'', ''WARN'', ''INFO'', ''DEBUG'']"

fun level_index :: "string \<Rightarrow> string list \<Rightarrow> int \<Rightarrow> int option" where
  "level_index s [] i = None"
| "level_index s (l # ls) i = (if l = s then Some i else level_index s ls (i + 1))"

definition init_log :: "string option \<Rightarrow> int \<Rightarrow> int" where
  "init_log envlvl maxloglvl =
     (case envlvl of
        None \<Rightarrow> maxloglvl
      | Some s \<Rightarrow> (case level_index s loglevel 0 of Some i \<Rightarrow> i | None \<Rightarrow> MM_LOG_NONE))"

text \<open>\<open>" %-5s %-16s : "\<close>.\<close>

definition pad :: "nat \<Rightarrow> string \<Rightarrow> string" where
  "pad n s = s @ replicate (n - length s) CHR '' ''"

definition log_header :: "string \<Rightarrow> string \<Rightarrow> string" where
  "log_header lvl location = '' '' @ pad 5 lvl @ '' '' @ pad 16 location @ '' : ''"

text \<open>
  \<open>format_log_str\<close> into the buffer \<open>buff\<close>, with \<open>stamp\<close> the time and \<open>msg\<close> the message: the sizes are of type \<open>size_t\<close>
  and wrap around. The result is the buffer and the number of bytes; \<^const>\<open>None\<close> is a write out of the
  buffer or a level out of the table. \<open>put\<close> writes at an offset.
\<close>

definition put :: "nat \<Rightarrow> string \<Rightarrow> string \<Rightarrow> string option" where
  "put off s buf = (if off + length s \<le> length buf then Some (take off buf @ s @ drop (off + length s) buf) else None)"

definition snprintf_out :: "64 word \<Rightarrow> string \<Rightarrow> string" where
  "snprintf_out n s = (if n = 0 then [] else take (unat n - 1) s @ [NUL])"

definition format_log_str :: "string \<Rightarrow> string \<Rightarrow> int \<Rightarrow> string \<Rightarrow> string \<Rightarrow> (string \<times> nat) option" where
  "format_log_str buff stamp lvl location msg =
     (if lvl < 0 \<or> nat lvl \<ge> length loglevel then None
      else
        let blen = of_nat (length buff) :: 64 word; header = log_header (loglevel ! nat lvl) location
        in do { b \<leftarrow> put 0 stamp buff;
                let rlen = blen - of_nat (length stamp);
                let off = length stamp;
                b \<leftarrow> put off (snprintf_out (rlen - 1) header) b;
                let rlen = rlen - of_nat (length header);
                let off = off + length header;
                b \<leftarrow> put off (snprintf_out rlen msg) b;
                let len = (if of_nat (length msg) < rlen - 1 then of_nat (length msg) else rlen - 1);
                b \<leftarrow> put (off + unat len) [CHR 0x0A] b;
                Some (b, unat (blen - (rlen - (len + 1)))) })"

text \<open>\<open>mm_log\<close>: nothing, or the line written piece by piece to the standard error.\<close>

definition mm_log ::
  "(string \<Rightarrow> 'w \<Rightarrow> (errcode + nat) \<times> 'w) \<Rightarrow> int \<Rightarrow> string \<Rightarrow> int \<Rightarrow> string \<Rightarrow> string \<Rightarrow> 'w \<Rightarrow> 'w option" where
  "mm_log wr maxloglvl stamp lvl location msg w =
     (if lvl > maxloglvl \<or> lvl < 0 then Some w
      else do { (b, len) \<leftarrow> format_log_str (replicate MM_LOG_LINE_MAXLEN NUL) stamp lvl location msg;
                (_, w) \<leftarrow> write_all wr (take len b) w;
                Some w })"

definition mm_log_set_maxlvl :: "int \<Rightarrow> int \<Rightarrow> int \<times> int" where
  "mm_log_set_maxlvl lvl maxloglvl = (maxloglvl, lvl)"

section \<open>What an error leaves behind\<close>

text \<open>The buffers have their sizes and end with a NUL.\<close>

definition err_ok :: "error_info \<Rightarrow> bool" where
  "err_ok st \<longleftrightarrow>
     length (extended_id st) = EXTID_SIZE \<and> extended_id st ! (EXTID_SIZE - 1) = NUL \<and>
     length (ei_module st) = MODULE_SIZE \<and> ei_module st ! (MODULE_SIZE - 1) = NUL \<and>
     length (ei_location st) = LOCATION_SIZE \<and> length (ei_desc st) = DESC_SIZE"

lemma c_string_nul: "no_nul s \<Longrightarrow> c_string (s @ NUL # r) = s"
  by (induction s) (auto simp: c_string_def)

lemma c_string_strncpy:
  assumes "no_nul s" "length buf = Suc n" "buf ! n = NUL"
  shows "c_string (c_strncpy n s buf) = take n s"
    "length (c_strncpy n s buf) = Suc n" "c_strncpy n s buf ! n = NUL"
proof -
  have d: "drop n buf = [NUL]" using assms(2,3) by (metis Cons_nth_drop_Suc drop_all lessI order_refl)
  have t: "take n (s @ replicate n NUL) = take n s @ replicate (n - length s) NUL" by simp
  have e: "c_strncpy n s buf = take n s @ replicate (n - length s) NUL @ [NUL]" by (simp add: c_strncpy_def d t)
  then have e': "c_strncpy n s buf = take n s @ NUL # replicate (n - length s) NUL" by (simp add: replicate_append_same)
  show "c_string (c_strncpy n s buf) = take n s" unfolding e' by (rule c_string_nul) (use assms(1) in auto)
  show "length (c_strncpy n s buf) = Suc n" by (simp add: e)
  show "c_strncpy n s buf ! n = NUL" by (simp add: e nth_append min_def)
qed

lemma c_string_snprintf:
  assumes "no_nul s" "length buf = n" "0 < n"
  shows "c_string (c_snprintf n s buf) = take (n - 1) s" "length (c_snprintf n s buf) = n"
proof -
  have e: "c_snprintf n s buf = take (n - 1) s @ NUL # drop (Suc (length (take (n - 1) s))) buf"
    using assms(3) by (simp add: c_snprintf_def)
  show "c_string (c_snprintf n s buf) = take (n - 1) s" unfolding e by (rule c_string_nul) (use assms(1) in auto)
  show "length (c_snprintf n s buf) = n" unfolding e using assms(2,3) by auto
qed

text \<open>
  A log function is harmless when it leaves the error state alone while errors are ignored. One that does
  nothing but raise errors is.
\<close>

definition harmless :: "(string \<Rightarrow> string \<Rightarrow> thread_err \<Rightarrow> thread_err) \<Rightarrow> bool" where
  "harmless log \<longleftrightarrow> (\<forall>m t s. ei_flags (fst s) AND MM_ERROR_IGNORE \<noteq> 0 \<longrightarrow> fst (log m t s) = fst s)"

lemma raising_log_harmless: "harmless (\<lambda>m t s. fold (mm_raise_error_vfull log) (rs m t) s)"
proof -
  have "fold (mm_raise_error_vfull log) xs s = s" if "ei_flags (fst s) AND MM_ERROR_IGNORE \<noteq> 0" for xs s
    using that by (induction xs) (auto simp: mm_raise_error_vfull_def)
  then show ?thesis by (simp add: harmless_def)
qed

lemma flags_restored: "(msk AND fl) OR (NOT msk AND ((msk AND - 1) OR (NOT msk AND fl))) = (fl :: int)"
  by (rule bit_eqI) (auto simp: bit_simps)

lemma raise_state:
  assumes "harmless log" "ei_flags (fst s) AND MM_ERROR_IGNORE = 0"
  shows "fst (mm_raise_error_vfull log r s) = fst (set_error r s)"
proof -
  obtain st e where s: "set_error r s = (st, e)" by fastforce
  let ?st = "snd (mm_error_set_flags MM_ERROR_SET MM_ERROR_IGNORE st)"
  have "ei_flags ?st AND MM_ERROR_IGNORE \<noteq> 0"
    using and_exp [of "ei_flags ?st" 0] by (simp add: mm_error_set_flags_def MM_ERROR_SET_def MM_ERROR_IGNORE_def bit_simps)
  then have l: "fst (log m t (?st, e)) = ?st" for m t using assms(1) by (simp add: harmless_def)
  have "snd (mm_error_set_flags (ei_flags st) MM_ERROR_IGNORE ?st) = st"
    using flags_restored [of MM_ERROR_IGNORE "ei_flags st"] by (simp add: mm_error_set_flags_def MM_ERROR_SET_def)
  then show ?thesis using assms(2) s l
    by (simp add: mm_raise_error_vfull_def Let_def split_beta mm_error_set_flags_def)
qed



section \<open>Log lines\<close>

lemma length_pad: "length (pad n s) = max n (length s)"
  by (simp add: pad_def)

lemma length_header: "0 \<le> lvl \<Longrightarrow> lvl < 5 \<Longrightarrow> length (log_header (loglevel ! nat lvl) location) = 10 + max 16 (length location)"
proof -
  assume "0 \<le> lvl" "lvl < 5"
  then have "nat lvl \<in> {0, 1, 2, 3, 4}" by auto
  then show ?thesis by (auto simp: log_header_def length_pad loglevel_def)
qed

lemma put_at: "off = length a \<Longrightarrow> length s \<le> length r \<Longrightarrow> put off s (a @ r) = Some (a @ s @ drop (length s) r)"
  by (simp add: put_def)

lemma unat64: "n < 2 ^ 64 \<Longrightarrow> unat (of_nat n :: 64 word) = n"
  by (simp add: unat_of_nat)

text \<open>The buffer after the time and the header, and what remains to be done.\<close>

definition after_header :: "string \<Rightarrow> string \<Rightarrow> string \<Rightarrow> string" where
  "after_header buff stamp header = stamp @ (take 237 header @ [NUL]) @ drop (17 + length (take 237 header @ [NUL])) buff"

lemma format_from_header:
  assumes "length buff = 256" "length stamp = 17" "0 \<le> lvl" "lvl < 5" "header = log_header (loglevel ! nat lvl) location"
  shows "format_log_str buff stamp lvl location msg =
    (let rlen = 239 - of_nat (length header) :: 64 word;
         len = (if of_nat (length msg) < rlen - 1 then of_nat (length msg) else rlen - 1)
     in do { b \<leftarrow> put (17 + length header) (snprintf_out rlen msg) (after_header buff stamp header);
             b \<leftarrow> put (17 + length header + unat len) [CHR 0x0A] b;
             Some (b, unat (256 - (rlen - (len + 1)))) })"
    "length (after_header buff stamp header) = 256"
proof -
  have lv: "\<not> (lvl < 0 \<or> nat lvl \<ge> length loglevel)" using assms(3,4) by (auto simp: loglevel_def)
  have p0: "put 0 stamp buff = Some (stamp @ drop 17 buff)" using put_at [of 0 "[]" stamp buff] assms(1,2) by simp
  have hd: "snprintf_out 238 header = take 237 header @ [NUL]" by (simp add: snprintf_out_def)
  have "put 17 (take 237 header @ [NUL]) (stamp @ drop 17 buff) =
      Some (stamp @ (take 237 header @ [NUL]) @ drop (length (take 237 header @ [NUL])) (drop 17 buff))"
    by (rule put_at) (use assms(1,2) in auto)
  then have p1: "put 17 (take 237 header @ [NUL]) (stamp @ drop 17 buff) = Some (after_header buff stamp header)"
    by (simp add: after_header_def add.commute)
  show "format_log_str buff stamp lvl location msg =
    (let rlen = 239 - of_nat (length header) :: 64 word;
         len = (if of_nat (length msg) < rlen - 1 then of_nat (length msg) else rlen - 1)
     in do { b \<leftarrow> put (17 + length header) (snprintf_out rlen msg) (after_header buff stamp header);
             b \<leftarrow> put (17 + length header + unat len) [CHR 0x0A] b;
             Some (b, unat (256 - (rlen - (len + 1)))) })"
    using lv p0 p1 hd assms(1,2) unfolding format_log_str_def assms(5) [symmetric] by (simp add: Let_def ac_simps)
  show "length (after_header buff stamp header) = 256" using assms(1,2) by (simp add: after_header_def)
qed

lemma log_line_fits:
  assumes "length buff = 256" "length stamp = 17" "0 \<le> lvl" "lvl < 5" "length msg < 2 ^ 63" "length location \<le> 227"
    and header: "header = log_header (loglevel ! nat lvl) location" and m: "m = take (238 - length header) msg"
  shows "\<exists>r. format_log_str buff stamp lvl location msg = Some ((stamp @ header @ m @ [CHR 0x0A]) @ r, 18 + length header + length m)"
proof -
  define H where "H = length header"
  have H: "H \<le> 237" using length_header [OF assms(3,4), of location] assms(6) by (simp add: H_def header)
  define k where "k = 238 - H"
  have le: "length m \<le> k" "k + H = 238" "k < 239" using H by (simp_all add: m k_def H_def)
  have w2: "(239 - of_nat H :: 64 word) = of_nat (Suc k)" using H by (simp add: k_def of_nat_diff)
  have u: "unat (of_nat (Suc k) :: 64 word) = Suc k" by (rule unat64) (simp add: k_def)
  have nz: "(of_nat (Suc k) :: 64 word) \<noteq> 0" using u by (metis nat.distinct(1) unat_0)
  have sm: "snprintf_out (of_nat (Suc k)) msg = m @ [NUL]" using u nz by (simp add: snprintf_out_def m k_def H_def)
  have ab: "after_header buff stamp header = (stamp @ header) @ NUL # drop (Suc (17 + H)) buff" using H by (simp add: after_header_def H_def)
  define r where "r = drop (length (m @ [NUL])) (NUL # drop (Suc (17 + H)) buff)"
  have p2: "put (17 + H) (m @ [NUL]) (after_header buff stamp header) = Some ((stamp @ header) @ (m @ [NUL]) @ r)"
    unfolding ab r_def by (rule put_at) (use assms(1,2) le H in \<open>auto simp: H_def\<close>)
  have p3: "put (17 + H + length m) [CHR 0x0A] ((stamp @ header) @ (m @ [NUL]) @ r) = Some ((stamp @ header @ m @ [CHR 0x0A]) @ r)"
    using put_at [of "17 + H + length m" "stamp @ header @ m" "[CHR 0x0A]" "NUL # r"] assms(2) by (simp add: H_def)
  have len: "(if of_nat (length msg) < (of_nat (Suc k) - 1 :: 64 word) then of_nat (length msg) else of_nat (Suc k) - 1) = (of_nat (length m) :: 64 word)"
  proof -
    have "(of_nat (length msg) < (of_nat k :: 64 word)) \<longleftrightarrow> length msg < k"
      using assms(5) le(3) by (simp add: word_less_nat_alt unat64)
    then show ?thesis by (simp add: m min_def k_def H_def)
  qed
  have um: "unat (of_nat (length m) :: 64 word) = length m" using le by (intro unat64) simp
  have cnt: "unat (256 - (of_nat (Suc k) - (of_nat (length m) + 1)) :: 64 word) = 18 + H + length m"
  proof -
    have "(of_nat k :: 64 word) = 238 - of_nat H" using le(2) by (metis add_diff_cancel_right' of_nat_add of_nat_numeral)
    then have "(256 - (of_nat (Suc k) - (of_nat (length m) + 1)) :: 64 word) = of_nat (18 + H + length m)" by simp
    moreover have "unat (of_nat (18 + H + length m) :: 64 word) = 18 + H + length m" using le by (intro unat64) simp
    ultimately show ?thesis by (simp only:)
  qed
  show ?thesis
    unfolding format_from_header(1) [OF assms(1-4) header] Let_def H_def [symmetric] w2 len um cnt sm p2
    using p3 by simp
qed

lemma log_line_overruns:
  assumes "length buff = 256" "length stamp = 17" "0 \<le> lvl" "lvl < 5" "length msg < 2 ^ 63" "229 \<le> length location"
  shows "format_log_str buff stamp lvl location msg = None"
proof -
  define header where "header = log_header (loglevel ! nat lvl) location"
  note f = format_from_header [OF assms(1-4) header_def]
  have H: "239 \<le> length header" using length_header [OF assms(3,4), of location] assms(6) by (simp add: header_def)
  show ?thesis
  proof (cases "length header = 239")
    case True
    have "put 256 [] (after_header buff stamp header) = Some (after_header buff stamp header)"
      "put (256 + length msg) [CHR 0x0A] (after_header buff stamp header) = None"
      using f(2) by (simp_all add: put_def)
    moreover have "unat (of_nat (length msg) :: 64 word) = length msg" "(of_nat (length msg) :: 64 word) < - 1"
      using assms(5) by (simp_all add: word_less_nat_alt unat64 unsigned_minus_1_eq_mask mask_eq_exp_minus_1)
    ultimately show ?thesis unfolding f(1) True by (simp add: snprintf_out_def)
  next
    case False
    then have "put (17 + length header) t (after_header buff stamp header) = None" for t using f(2) H by (simp add: put_def)
    then show ?thesis unfolding f(1) by simp
  qed
qed

text \<open>
  A log line never leaves its buffer when the name of the origin has at most 227 characters: the line
  is the time, the level and the origin in columns, as much of the message as fits and an end of line, at
  most 256 bytes in all. With an origin of 229 characters or more the size left in the buffer wraps around
  and the line is written behind the end of the buffer, for every message.
\<close>

theorem log_line_bounds:
  assumes "length buff = 256" "length stamp = 17" "0 \<le> lvl" "lvl < 5" "length msg < 2 ^ 63"
  shows "(length location \<le> 227 \<longrightarrow>
      (let header = log_header (loglevel ! nat lvl) location;
           line = stamp @ header @ take (238 - length header) msg @ [CHR 0x0A]
       in length line \<le> 256 \<and> (\<exists>r. format_log_str buff stamp lvl location msg = Some (line @ r, length line))))
    \<and> (229 \<le> length location \<longrightarrow> format_log_str buff stamp lvl location msg = None)"
proof (intro conjI impI)
  assume l: "length location \<le> 227"
  define header where "header = log_header (loglevel ! nat lvl) location"
  have H: "length header \<le> 237" using length_header [OF assms(3,4), of location] l by (simp add: header_def)
  show "let header = log_header (loglevel ! nat lvl) location;
           line = stamp @ header @ take (238 - length header) msg @ [CHR 0x0A]
       in length line \<le> 256 \<and> (\<exists>r. format_log_str buff stamp lvl location msg = Some (line @ r, length line))"
    using log_line_fits [OF assms l header_def refl] assms(2) H unfolding header_def [symmetric] by (auto simp: Let_def)
qed (use log_line_overruns [OF assms] in auto)

theorem log_line_bounds_witness:
  "(let header = log_header (loglevel ! nat 1) ''mod'';
        line = ''01/01/24 10:00:00'' @ header @ take (238 - length header) ''hello'' @ [CHR 0x0A]
    in length line \<le> 256 \<and> (\<exists>r. format_log_str (replicate 256 NUL) ''01/01/24 10:00:00'' 1 ''mod'' ''hello'' = Some (line @ r, length line)))
    \<and> format_log_str (replicate 256 NUL) ''01/01/24 10:00:00'' 1 (replicate 229 CHR ''m'') ''hello'' = None"
  by (rule conjI, rule log_line_bounds [THEN conjunct1, rule_format], simp_all,
      rule log_line_bounds [THEN conjunct2, rule_format], simp_all)

text \<open>
  An unknown \<open>MM_LOG_MAXLEVEL\<close> turns the log off, although the documentation of \<open>mm_log\<close> promises warnings.
\<close>

lemma init_log_unknown: "s \<notin> set loglevel \<Longrightarrow> init_log (Some s) lvl = MM_LOG_NONE"
  by (auto simp: init_log_def loglevel_def)

end
