(* ===== verification/C_Double.thy ===== *)
theory C_Double
  imports Prelude
begin

text \<open>
  The part of C's \<open>double\<close> that \<^verbatim>\<open>src/src/profile.c\<close> and \<^verbatim>\<open>src/src/clock-win32.c\<close> use: the conversion of an integer, the product, the division, the
  conversion back to an integer and \<open>printf\<close>'s \<open>%.2f\<close>. A finite value is a fraction \<open>(a, b)\<close> in lowest terms with \<open>b > 0\<close>; every
  operation rounds its exact result to 53 significant bits, ties to even, as IEEE 754 has it. The values of the program
  are between \<open>2 ^ -30\<close> and \<open>2 ^ 64\<close> in magnitude, so that neither overflow nor subnormal numbers arise.
\<close>

section \<open>Rounding\<close>

fun bitlen_nat :: "nat \<Rightarrow> nat" where
  "bitlen_nat n = (if n = 0 then 0 else Suc (bitlen_nat (n div 2)))"

declare bitlen_nat.simps [simp del]

definition round_half_even :: "nat \<Rightarrow> nat \<Rightarrow> nat" where
  "round_half_even p q =
     (let d = p div q; r = p mod q
      in if 2 * r < q then d else if q < 2 * r then d + 1 else if even d then d else d + 1)"

type_synonym dbl = "int \<times> nat"

text \<open>
  \<open>p / q\<close> is scaled by a power of two into \<open>[2 ^ 52, 2 ^ 53)\<close>, rounded to an integer and scaled back.
\<close>

definition dbl_round_mag :: "nat \<Rightarrow> nat \<Rightarrow> nat \<times> nat" where
  "dbl_round_mag p q =
     (if p = 0 then (0, 1)
      else let bp = bitlen_nat p; bq = bitlen_nat q;
               a = 2 ^ (53 + bq - bp); b = 2 ^ (bp - (53 + bq));
               c = (if p * a < 2 ^ 53 * (q * b) then 1 else 2)
           in (round_half_even (p * a) (q * b * c) * (b * c), a))"

definition dbl_round :: "int \<Rightarrow> nat \<Rightarrow> dbl" where
  "dbl_round p q =
     (let (m, a) = dbl_round_mag (nat \<bar>p\<bar>) q; g = gcd m a in (sgn p * int (m div g), a div g))"

section \<open>Operations\<close>

definition dbl_of_int :: "int \<Rightarrow> dbl" where
  "dbl_of_int x = dbl_round x 1"

text \<open>A division by a positive value; the callers never divide by a negative one.\<close>

fun dbl_div :: "dbl \<Rightarrow> dbl \<Rightarrow> dbl" where
  "dbl_div (a, b) (c, d) = dbl_round (a * int d) (b * nat c)"

fun dbl_mult :: "dbl \<Rightarrow> dbl \<Rightarrow> dbl" where
  "dbl_mult (a, b) (c, d) = dbl_round (a * c) (b * d)"

fun dbl_trunc :: "dbl \<Rightarrow> int" where
  "dbl_trunc (a, b) = a sdiv int b"

text \<open>\<open>%.2f\<close>: the decimal with two digits nearest to the value, ties to even.\<close>

fun dbl_fixed2 :: "dbl \<Rightarrow> string" where
  "dbl_fixed2 (a, b) =
     (let n = round_half_even (100 * nat \<bar>a\<bar>) b
      in (if a < 0 then ''-'' else '''') @ dec_nat (n div 100) @ ''.''
         @ [char_of (48 + n mod 100 div 10), char_of (48 + n mod 10)])"

section \<open>Exactness\<close>

lemma bitlen_bounds: "0 < n \<Longrightarrow> 2 ^ (bitlen_nat n - 1) \<le> n \<and> n < 2 ^ bitlen_nat n \<and> 0 < bitlen_nat n"
proof (induction n rule: bitlen_nat.induct)
  case (1 n)
  show ?case
  proof (cases "n div 2 = 0")
    case True
    then have "n = 1" using 1 by auto
    then show ?thesis by (simp add: bitlen_nat.simps)
  next
    case False
    let ?b = "bitlen_nat (n div 2)"
    have n: "bitlen_nat n = Suc ?b" using 1(2) by (subst bitlen_nat.simps) simp
    from 1(1) False 1(2) have b: "2 ^ (?b - 1) \<le> n div 2" "n div 2 < 2 ^ ?b" "0 < ?b" by auto
    obtain k where k: "?b = Suc k" using b(3) gr0_implies_Suc by blast
    have "2 * 2 ^ k \<le> n" using b(1) k by simp
    moreover have "n < 2 * 2 ^ ?b" using b(2) by linarith
    ultimately show ?thesis using n k by simp
  qed
qed

lemma bitlen_0 [simp]: "bitlen_nat 0 = 0"
  by (simp add: bitlen_nat.simps)

lemma bitlen_1 [simp]: "bitlen_nat 1 = 1" "bitlen_nat (Suc 0) = 1"
  by (simp_all add: bitlen_nat.simps)

lemma bitlen_le: "n < 2 ^ k \<Longrightarrow> bitlen_nat n \<le> k"
proof (rule ccontr)
  assume n: "n < 2 ^ k" and "\<not> bitlen_nat n \<le> k"
  then have "k \<le> bitlen_nat n - 1" and "0 < n" by (cases n, auto)+
  then have "(2::nat) ^ k \<le> 2 ^ (bitlen_nat n - 1)" by (intro power_increasing) auto
  with bitlen_bounds [OF \<open>0 < n\<close>] n show False by linarith
qed

lemma round_half_even_bounds:
  assumes "0 < q"
  shows "p div q \<le> round_half_even p q" "2 * q * round_half_even p q \<le> 2 * p + q"
proof -
  let ?d = "p div q" and ?r = "p mod q"
  have p: "p = q * ?d + ?r" by simp
  show "?d \<le> round_half_even p q" by (simp add: round_half_even_def Let_def)
  show "2 * q * round_half_even p q \<le> 2 * p + q"
  proof (cases "2 * ?r < q")
    case True
    then have "round_half_even p q = ?d" by (simp add: round_half_even_def)
    moreover have "q * ?d \<le> p" by simp
    ultimately show ?thesis by (simp only: mult.assoc)
  next
    case False
    have "round_half_even p q \<le> ?d + 1" by (simp add: round_half_even_def Let_def)
    then have "2 * q * round_half_even p q \<le> 2 * q * (?d + 1)" by (rule mult_le_mono2)
    also have "\<dots> = 2 * (q * ?d) + 2 * q" by (simp add: algebra_simps)
    also have "\<dots> \<le> 2 * p + q" using False p by linarith
    finally show ?thesis .
  qed
qed

lemma round_half_even_exact: "0 < q \<Longrightarrow> round_half_even (q * k) q = k"
  by (simp add: round_half_even_def)

text \<open>The scaled quotient has 53 significant bits at least.\<close>

lemma scaled_quotient:
  assumes p: "0 < p" and q: "0 < q"
  shows "2 ^ 52 * (q * 2 ^ (bitlen_nat p - (53 + bitlen_nat q))) < p * 2 ^ (53 + bitlen_nat q - bitlen_nat p)"
proof (cases "bitlen_nat p \<le> 53 + bitlen_nat q")
  let ?bp = "bitlen_nat p" and ?bq = "bitlen_nat q"
  case True
  then have eq: "?bp - 1 + (53 + ?bq - ?bp) = 52 + ?bq" using bitlen_bounds [OF p] by simp
  have "2 ^ 52 * q < 2 ^ 52 * 2 ^ ?bq" using bitlen_bounds [OF q] by simp
  also have "\<dots> = (2::nat) ^ (?bp - 1 + (53 + ?bq - ?bp))" unfolding eq power_add ..
  also have "\<dots> = 2 ^ (?bp - 1) * 2 ^ (53 + ?bq - ?bp)" unfolding power_add ..
  also have "\<dots> \<le> p * 2 ^ (53 + ?bq - ?bp)" using bitlen_bounds [OF p] by simp
  finally show ?thesis using True by simp
next
  let ?bp = "bitlen_nat p" and ?bq = "bitlen_nat q"
  case False
  then have eq: "52 + (?bq + (?bp - (53 + ?bq))) = ?bp - 1" by simp
  have "2 ^ 52 * (q * 2 ^ (?bp - (53 + ?bq))) < 2 ^ 52 * (2 ^ ?bq * 2 ^ (?bp - (53 + ?bq)))"
    using bitlen_bounds [OF q] by simp
  also have "\<dots> = (2::nat) ^ (?bp - 1)" unfolding eq [symmetric] power_add ..
  also have "\<dots> \<le> p" using bitlen_bounds [OF p] by simp
  finally show ?thesis using False by simp
qed

text \<open>Rounding at most doubles a value: a coarse bound for the width of the printed values.\<close>

lemma dbl_round_mag_le:
  assumes q: "0 < q" and r: "dbl_round_mag p q = (m, a)"
  shows "m * q \<le> 2 * p * a" "0 < a"
proof -
  show "0 < a" using r by (auto simp: dbl_round_mag_def Let_def split: if_splits)
  show "m * q \<le> 2 * p * a"
  proof (cases "p = 0")
    case True
    then show ?thesis using r by (simp add: dbl_round_mag_def)
  next
    case False
    define b :: nat where "b = 2 ^ (bitlen_nat p - (53 + bitlen_nat q))"
    define c :: nat where "c = (if p * a < 2 ^ 53 * (q * b) then 1 else 2)"
    have m: "m = round_half_even (p * a) (q * b * c) * (b * c)" and a: "a = 2 ^ (53 + bitlen_nat q - bitlen_nat p)"
      using r False by (auto simp: dbl_round_mag_def Let_def b_def c_def split: if_splits)
    have "2 ^ 52 * (q * b) < p * a" unfolding a b_def by (rule scaled_quotient) (use False q in auto)
    then have le: "q * b * c \<le> p * a" unfolding c_def by (simp split: if_splits)
    have "2 * (q * b * c) * round_half_even (p * a) (q * b * c) \<le> 2 * (p * a) + q * b * c"
      by (rule round_half_even_bounds(2)) (use q in \<open>simp add: b_def c_def\<close>)
    also have "\<dots> \<le> 3 * (p * a)" using le by linarith
    finally have "2 * (m * q) \<le> 3 * (p * a)" by (simp add: m algebra_simps)
    then have "m * q \<le> 2 * (p * a)" by linarith
    then show ?thesis by (simp only: mult.assoc)
  qed
qed

lemma dbl_round_mag_trunc:
  assumes p: "p < 2 ^ 53" and q: "0 < q"
  shows "fst (dbl_round_mag p q) div snd (dbl_round_mag p q) = p div q" "0 < snd (dbl_round_mag p q)"
proof -
  show "0 < snd (dbl_round_mag p q)" by (simp add: dbl_round_mag_def Let_def)
  show "fst (dbl_round_mag p q) div snd (dbl_round_mag p q) = p div q"
  proof (cases "p = 0")
    case True
    then show ?thesis by (simp add: dbl_round_mag_def)
  next
    case False
    define a :: nat where "a = 2 ^ (53 + bitlen_nat q - bitlen_nat p)"
    define c :: nat where "c = (if p * a < 2 ^ 53 * q then 1 else 2)"
    define m where "m = round_half_even (p * a) (q * c)"
    have bp: "bitlen_nat p \<le> 53" by (rule bitlen_le [OF p])
    have r: "dbl_round_mag p q = (m * c, a)"
      using False bp by (simp add: dbl_round_mag_def Let_def a_def c_def m_def)
    have big: "2 ^ 52 * q < p * a" using scaled_quotient [of p q] False bp q unfolding a_def by simp
    have a0: "0 < a" by (simp add: a_def)
    have c0: "0 < c" by (simp add: c_def)
    have "53 + bitlen_nat q - bitlen_nat p \<noteq> 0" using bitlen_bounds [OF q] bp by simp
    then have ev: "c dvd a" unfolding a_def c_def by simp
    then obtain a' where a': "a = c * a'" by blast
    have m1: "p * a' div q = p * a div (q * c)" using c0 unfolding a' by (simp add: mult.left_commute mult.commute [of q])
    have lower: "p div q * a' \<le> m"
    proof -
      have "p div q * a' * q \<le> p * a'" by (simp add: mult.commute mult.left_commute)
      then have "p div q * a' \<le> p * a' div q" using q by (simp add: less_eq_div_iff_mult_less_eq)
      then show ?thesis using round_half_even_bounds(1) [of "q * c" "p * a"] q c0 unfolding m_def m1 by simp
    qed
    have upper: "m < (p div q + 1) * a'"
    proof -
      have half: "q < 2 * a'"
      proof -
        have "2 ^ 52 * q \<le> p * a'" 
        proof (cases "c = 1")
          case True
          then show ?thesis using big a' by simp
        next
          case False
          then have "c = 2" "2 ^ 53 * q \<le> p * a" by (auto simp: c_def split: if_splits)
          then show ?thesis using a' by (simp add: mult.commute [of a' p])
        qed
        then have "2 ^ 53 * q \<le> p * (2 * a')" by (simp add: mult.commute [of a' p])
        moreover have "p * q < 2 ^ 53 * q" using p q by simp
        ultimately have "p * q < p * (2 * a')" by linarith
        then show ?thesis using False by simp
      qed
      have "2 * (q * c) * m \<le> 2 * (p * a) + q * c"
        unfolding m_def by (rule round_half_even_bounds(2)) (use q c0 in simp)
      then have "c * (2 * q * m) \<le> c * (2 * p * a' + q)" unfolding a' by (simp add: algebra_simps)
      then have *: "2 * q * m \<le> 2 * p * a' + q" using c0 by simp
      have "p < q * (p div q + 1)" using dividend_less_div_times [OF q, of p] by (simp add: algebra_simps)
      then have "2 * (p + 1) * a' \<le> 2 * (q * (p div q + 1)) * a'" by (intro mult_le_mono) auto
      with * half have "2 * q * m < 2 * q * ((p div q + 1) * a')" by (simp add: algebra_simps)
      then show ?thesis using q by simp
    qed
    have "m * c div a = m div a'" using c0 unfolding a' by (simp add: mult.commute)
    also have "\<dots> = p div q" by (rule div_nat_eqI) (use lower upper in \<open>simp_all add: mult.commute\<close>)
    finally show ?thesis by (simp add: r)
  qed
qed

text \<open>An integer below \<open>2 ^ 53\<close> is converted exactly.\<close>

lemma dbl_round_mag_int:
  assumes "0 < p" "p < 2 ^ 53"
  shows "\<exists>a > 0. dbl_round_mag p 1 = (p * a, a)"
proof -
  define a :: nat where "a = 2 ^ (54 - bitlen_nat p)"
  define c :: nat where "c = (if p * a < 2 ^ 53 then 1 else 2)"
  have bp: "bitlen_nat p \<le> 53" by (rule bitlen_le [OF assms(2)])
  then have "c dvd a" unfolding a_def c_def by simp
  then obtain a' where a': "a = c * a'" by blast
  have c0: "0 < c" by (simp add: c_def)
  have "dbl_round_mag p 1 = (round_half_even (p * a) c * c, a)"
    using assms(1) bp by (simp add: dbl_round_mag_def Let_def a_def c_def)
  moreover have "round_half_even (p * a) c = p * a'"
    using round_half_even_exact [OF c0, of "p * a'"] by (simp add: a' mult.left_commute)
  moreover have "0 < a" by (simp add: a_def)
  ultimately show ?thesis using a' by (metis mult.assoc mult.commute)
qed

lemma dbl_of_int_exact:
  assumes "\<bar>x\<bar> < 2 ^ 53"
  shows "dbl_of_int x = (x, 1)"
proof (cases "x = 0")
  case True
  then show ?thesis by (simp add: dbl_of_int_def dbl_round_def dbl_round_mag_def)
next
  case False
  then obtain a where "0 < a" "dbl_round_mag (nat \<bar>x\<bar>) 1 = (nat \<bar>x\<bar> * a, a)"
    using dbl_round_mag_int [of "nat \<bar>x\<bar>"] assms by (auto simp: nat_less_iff)
  then show ?thesis by (simp add: dbl_of_int_def dbl_round_def sgn_mult_abs)
qed

text \<open>The quotient of two such integers, cut to an integer, is C's integer quotient.\<close>

lemma dbl_quotient:
  assumes s: "\<bar>s\<bar> < 2 ^ 53" and n: "0 < n" "n < 2 ^ 53"
  shows "dbl_trunc (dbl_div (dbl_of_int s) (dbl_of_int n)) = s sdiv n"
proof -
  obtain m a where ma: "dbl_round_mag (nat \<bar>s\<bar>) (nat n) = (m, a)" by fastforce
  have q: "m div a = nat \<bar>s\<bar> div nat n" "0 < a"
    using dbl_round_mag_trunc [of "nat \<bar>s\<bar>" "nat n"] ma s n by auto
  have g: "m div gcd m a div (a div gcd m a) = m div a"
    by (metis dvd_mult_div_cancel gcd_dvd1 gcd_dvd2 div_mult_mult1_if div_by_0)
  have a': "0 < a div gcd m a" using q(2) by (simp add: div_greater_zero_iff)
  have "dbl_trunc (dbl_div (dbl_of_int s) (dbl_of_int n)) = (sgn s * int (m div gcd m a)) sdiv int (a div gcd m a)"
    using s n ma by (simp add: dbl_of_int_exact dbl_round_def Let_def)
  also have "\<dots> = sgn s * int (m div a)"
    using a' g by (cases s "0::int" rule: linorder_cases)
      (auto simp: signed_divide_int_def zdiv_int [symmetric] sgn_mult)
  also have "\<dots> = s sdiv n"
    unfolding q(1) using n by (simp add: signed_divide_int_def zdiv_int)
  finally show ?thesis .
qed

text \<open>How wide \<open>%.2f\<close> can get for the quotient of a 64 bit integer.\<close>

lemma dbl_round_le:
  assumes "0 < q" "dbl_round p q = (x, b)"
  shows "nat \<bar>x\<bar> * q \<le> 2 * nat \<bar>p\<bar> * b" "0 < b"
proof -
  obtain m a where ma: "dbl_round_mag (nat \<bar>p\<bar>) q = (m, a)" by fastforce
  note le = dbl_round_mag_le [OF assms(1) ma]
  let ?g = "gcd m a"
  have x: "x = sgn p * int (m div ?g)" and b: "b = a div ?g" using assms(2) ma by (auto simp: dbl_round_def Let_def)
  have g: "0 < ?g" using le(2) by simp
  show "0 < b" unfolding b using le(2) g by (simp add: div_greater_zero_iff)
  have "nat \<bar>x\<bar> \<le> m div ?g" unfolding x by (cases p "0::int" rule: linorder_cases) (auto simp: abs_mult)
  then have "nat \<bar>x\<bar> * ?g \<le> m" by (metis dvd_div_mult_self gcd_dvd1 mult_le_mono1)
  then have "nat \<bar>x\<bar> * ?g * q \<le> 2 * nat \<bar>p\<bar> * a" using le(1) mult_le_mono1 order_trans by blast
  moreover have "a = b * ?g" unfolding b by simp
  ultimately have "?g * (nat \<bar>x\<bar> * q) \<le> ?g * (2 * nat \<bar>p\<bar> * b)" by (metis mult.assoc mult.commute)
  then show "nat \<bar>x\<bar> * q \<le> 2 * nat \<bar>p\<bar> * b" using g mult_le_cancel1 by blast
qed

lemma length_dbl_fixed2:
  assumes "0 < b" "nat \<bar>a\<bar> \<le> 2 ^ 65 * b"
  shows "length (dbl_fixed2 (a, b)) \<le> 24"
proof -
  define n where "n = round_half_even (100 * nat \<bar>a\<bar>) b"
  have "2 * b * n \<le> 2 * (100 * nat \<bar>a\<bar>) + b" unfolding n_def by (rule round_half_even_bounds(2) [OF assms(1)])
  also have "\<dots> \<le> 2 * b * (100 * 2 ^ 65 + 1)" using assms(2) by simp
  finally have "n \<le> 100 * 2 ^ 65 + 1" using assms(1) by simp
  then have "n div 100 < 10 ^ Suc 19" by simp
  from length_dec_nat [OF this] show ?thesis by (simp add: n_def [symmetric] Let_def)
qed

lemma length_dbl_div_fixed2:
  assumes x: "in_i64 x" and k: "0 < k" "k < 2 ^ 53"
  shows "length (dbl_fixed2 (dbl_div (dbl_of_int x) (dbl_of_int k))) \<le> 24"
proof -
  obtain a b where ab: "dbl_round x 1 = (a, b)" by fastforce
  obtain c d where cd: "dbl_round a (b * nat k) = (c, d)" by fastforce
  have "nat \<bar>x\<bar> \<le> 2 ^ 63" using x unfolding in_i64_def by (simp add: nat_le_iff abs_le_iff)
  then have le: "2 * nat \<bar>x\<bar> * b \<le> 2 ^ 64 * b" by (intro mult_le_mono1) simp
  have "nat \<bar>a\<bar> \<le> 2 * nat \<bar>x\<bar> * b" "0 < b" using dbl_round_le [OF _ ab] by simp_all
  note 1 = order_trans [OF this(1) le] this(2)
  have bk: "0 < b * nat k" using 1(2) k by simp
  note 2 = dbl_round_le [OF bk cd]
  have "nat \<bar>c\<bar> * (b * nat k) \<le> 2 * (2 ^ 64 * b) * d" using 2(1) 1(1) by (meson mult_le_mono1 mult_le_mono2 order_trans)
  then have "b * (nat \<bar>c\<bar> * nat k) \<le> b * (2 ^ 65 * d)" by (simp add: algebra_simps)
  then have "nat \<bar>c\<bar> * nat k \<le> 2 ^ 65 * d" using 1(2) by simp
  moreover have "nat \<bar>c\<bar> \<le> nat \<bar>c\<bar> * nat k" using k by (simp add: Suc_le_eq)
  ultimately have "nat \<bar>c\<bar> \<le> 2 ^ 65 * d" by (rule order_trans [rotated])
  from length_dbl_fixed2 [OF 2(2) this] show ?thesis
    using k ab cd by (simp add: dbl_of_int_exact [of k]) (simp add: dbl_of_int_def)
qed

text \<open>The relative error of a rounded quotient is at most \<open>2 ^ -53\<close>.\<close>

lemma round_half_even_lower: "0 < q \<Longrightarrow> 2 * p \<le> 2 * q * round_half_even p q + q"
proof -
  assume q: "0 < q"
  let ?d = "p div q" and ?r = "p mod q"
  have p: "p = q * ?d + ?r" by simp
  show ?thesis
  proof (cases "2 * ?r \<le> q")
    case True
    have "q * ?d \<le> q * round_half_even p q" using round_half_even_bounds(1) [OF q] by simp
    then show ?thesis using True p by linarith
  next
    case False
    then have "round_half_even p q = ?d + 1" by (simp add: round_half_even_def)
    then have "q * round_half_even p q = q * ?d + q" by simp
    then show ?thesis using p mod_less_divisor [OF q, of p] by linarith
  qed
qed

lemma dbl_round_mag_error:
  assumes q: "0 < q" and r: "dbl_round_mag p q = (m, a)"
  shows "2 ^ 53 * (m * q) \<le> (2 ^ 53 + 1) * (p * a)" "2 ^ 53 * (p * a) \<le> 2 ^ 53 * (m * q) + p * a"
proof -
  define b :: nat where "b = 2 ^ (bitlen_nat p - (53 + bitlen_nat q))"
  define c :: nat where "c = (if p * a < 2 ^ 53 * (q * b) then 1 else 2)"
  define R where "R = round_half_even (p * a) (q * b * c)"
  have "2 ^ 53 * (m * q) \<le> (2 ^ 53 + 1) * (p * a) \<and> 2 ^ 53 * (p * a) \<le> 2 ^ 53 * (m * q) + p * a"
  proof (cases "p = 0")
    case True
    then show ?thesis using r by (simp add: dbl_round_mag_def)
  next
    case False
    have m: "m = R * (b * c)" and a: "a = 2 ^ (53 + bitlen_nat q - bitlen_nat p)"
      using r False by (auto simp: dbl_round_mag_def Let_def b_def c_def R_def split: if_splits)
    have pos: "0 < q * b * c" using q by (simp add: b_def c_def)
    have "2 ^ 52 * (q * b) < p * a" unfolding a b_def by (rule scaled_quotient) (use False q in auto)
    then have le: "2 ^ 52 * (q * b * c) \<le> p * a" unfolding c_def by (simp split: if_splits)
    have "m * q = (q * b * c) * R" by (simp add: m)
    then have "2 * (m * q) \<le> 2 * (p * a) + q * b * c" "2 * (p * a) \<le> 2 * (m * q) + q * b * c"
      using round_half_even_bounds(2) [OF pos, of "p * a"] round_half_even_lower [OF pos, of "p * a"]
      unfolding R_def [symmetric] by (simp_all only: mult.assoc)
    moreover have "2 ^ 53 * X \<le> (2 ^ 53 + 1) * Y \<and> 2 ^ 53 * Y \<le> 2 ^ 53 * X + Y"
      if "2 * X \<le> 2 * Y + Z" "2 * Y \<le> 2 * X + Z" "2 ^ 52 * Z \<le> Y" for X Y Z :: nat
      using that by simp
    ultimately show ?thesis using le by blast
  qed
  then show "2 ^ 53 * (m * q) \<le> (2 ^ 53 + 1) * (p * a)" "2 ^ 53 * (p * a) \<le> 2 ^ 53 * (m * q) + p * a" by auto
qed

lemma dbl_round_error:
  assumes q: "0 < q" and p: "0 \<le> p" and r: "dbl_round p q = (x, b)"
  shows "0 \<le> x" "0 < b" "2 ^ 53 * (x * int q) \<le> (2 ^ 53 + 1) * (p * int b)" "2 ^ 53 * (p * int b) \<le> 2 ^ 53 * (x * int q) + p * int b"
proof -
  obtain m a where ma: "dbl_round_mag (nat p) q = (m, a)" by fastforce
  define g where "g = gcd m a"
  have x: "x = sgn p * int (m div g)" and b: "b = a div g" using r ma p by (auto simp: dbl_round_def Let_def g_def)
  show b0: "0 < b" using dbl_round_le(2) [OF q r] .
  show "0 \<le> x" using p by (simp add: x sgn_if)
  have g: "m = g * (m div g)" "a = g * b" by (simp_all add: g_def b)
  have mx: "int m = int g * x"
  proof (cases "p = 0")
    case True
    then show ?thesis using ma x by (simp add: dbl_round_mag_def)
  next
    case False
    then show ?thesis using p g(1) x by (metis mult_1 order_le_less sgn_pos of_nat_mult)
  qed
  have a: "int a = int g * int b" using g(2) by (metis of_nat_mult)
  have g0: "0 < int g" using b0 g(2) b by (metis div_by_0 gr0I of_nat_0_less_iff)
  obtain P where P: "p = int P" using p nonneg_int_cases by blast
  then have n: "nat p = P" by simp
  have e1: "2 ^ 53 * (int m * int q) \<le> (2 ^ 53 + 1) * (p * int a)"
    using dbl_round_mag_error(1) [OF q ma] unfolding n P by (simp flip: of_nat_mult)
  have e2: "2 ^ 53 * (p * int a) \<le> 2 ^ 53 * (int m * int q) + p * int a"
    using dbl_round_mag_error(2) [OF q ma] unfolding n P by (simp flip: of_nat_mult)
  have "int g * (2 ^ 53 * (x * int q)) \<le> int g * ((2 ^ 53 + 1) * (p * int b))" using e1 unfolding mx a by (simp add: algebra_simps)
  then show "2 ^ 53 * (x * int q) \<le> (2 ^ 53 + 1) * (p * int b)" using g0 by simp
  have "int g * (2 ^ 53 * (p * int b)) \<le> int g * (2 ^ 53 * (x * int q) + p * int b)" using e2 unfolding mx a by (simp add: algebra_simps)
  then show "2 ^ 53 * (p * int b) \<le> 2 ^ 53 * (x * int q) + p * int b" using g0 by simp
qed

end
