(* ===== verification/Profile.thy ===== *)
theory Profile
  imports C_Double File_Copy
begin

unbundle bit_operations_syntax

text \<open>
  The profiling functions of \<^verbatim>\<open>src/src/profile.c\<close>: the table of measure points, the statistics that every
  iteration updates, the approximate median, the printed table and the reset that estimates the overhead of a call.
  The static variables of the file are the fields of one record; the clock is a parameter
  \<open>gt\<close> that reads a time of a world \<open>'w\<close>, as \<open>mm_gettime\<close> does. Labels are offsets into \<open>label_storage\<close>.
\<close>

section \<open>Constants and units\<close>

definition SEC_IN_NSEC :: int where "SEC_IN_NSEC = 1000000000"
definition NUM_TS_MAX :: nat where "NUM_TS_MAX = 16"
definition MAX_LABEL_LEN :: nat where "MAX_LABEL_LEN = 64"
definition VALUESTR_LEN :: nat where "VALUESTR_LEN = 8"
definition UNITSTR_LEN :: nat where "UNITSTR_LEN = 2"
definition NUM_COL_MAX :: nat where "NUM_COL_MAX = 5"

definition PROF_CURR :: int where "PROF_CURR = 0x01"
definition PROF_MIN :: int where "PROF_MIN = 0x02"
definition PROF_MAX :: int where "PROF_MAX = 0x04"
definition PROF_MEAN :: int where "PROF_MEAN = 0x08"
definition PROF_MEDIAN :: int where "PROF_MEDIAN = 0x10"
definition PROF_FORCE_NSEC :: int where "PROF_FORCE_NSEC = 0x100"
definition PROF_FORCE_USEC :: int where "PROF_FORCE_USEC = 0x200"
definition PROF_FORCE_MSEC :: int where "PROF_FORCE_MSEC = 0x300"
definition PROF_FORCE_SEC :: int where "PROF_FORCE_SEC = 0x400"
definition PROF_RESET_CPUCLOCK :: int where "PROF_RESET_CPUCLOCK = 0x01"
definition PROF_RESET_KEEPLABEL :: int where "PROF_RESET_KEEPLABEL = 0x02"

definition UNIT_MASK :: int where
  "UNIT_MASK = PROF_FORCE_NSEC OR PROF_FORCE_USEC OR PROF_FORCE_MSEC OR PROF_FORCE_SEC"


lemmas prof_consts = SEC_IN_NSEC_def NUM_TS_MAX_def MAX_LABEL_LEN_def VALUESTR_LEN_def UNITSTR_LEN_def NUM_COL_MAX_def

lemmas prof_flags = PROF_CURR_def PROF_MIN_def PROF_MAX_def PROF_MEAN_def PROF_MEDIAN_def PROF_FORCE_NSEC_def
  PROF_FORCE_USEC_def PROF_FORCE_MSEC_def PROF_FORCE_SEC_def PROF_RESET_CPUCLOCK_def PROF_RESET_KEEPLABEL_def
  UNIT_MASK_def

record unit_def =
  u_scale :: int
  u_name :: string
  u_forcemask :: int

definition unit_list :: "unit_def list" where
  "unit_list =
     [\<lparr>u_scale = 1, u_name = ''ns'', u_forcemask = PROF_FORCE_NSEC\<rparr>,
      \<lparr>u_scale = 1000, u_name = ''us'', u_forcemask = PROF_FORCE_USEC\<rparr>,
      \<lparr>u_scale = 1000000, u_name = ''ms'', u_forcemask = PROF_FORCE_MSEC\<rparr>,
      \<lparr>u_scale = 1000000000, u_name = ''s'', u_forcemask = PROF_FORCE_SEC\<rparr>]"

definition NUM_UNIT :: nat where "NUM_UNIT = length unit_list"

section \<open>Approximate median\<close>

definition STEP_NEED_INIT :: int where "STEP_NEED_INIT = INT64_MAX"

record median_estimator =
  me_median :: int
  me_step :: int

definition median_estimator_init :: "median_estimator \<Rightarrow> median_estimator" where
  "median_estimator_init me = me\<lparr>me_step := STEP_NEED_INIT\<rparr>"

definition median_estimator_update :: "median_estimator \<Rightarrow> int \<Rightarrow> median_estimator" where
  "median_estimator_update me d =
     (let step = me_step me; median = me_median me
      in if step = STEP_NEED_INIT then \<lparr>me_median = d, me_step = max \<bar>d sdiv 2\<bar> SEC_IN_NSEC\<rparr>
         else let diff = d - median;
                  median = (if 0 < diff then median + step else if diff < 0 then median - step else median);
                  step = (if \<bar>diff\<bar> < me_step me then step sdiv 2 else step + max (step div 16) 1)
              in \<lparr>me_median = median, me_step = step\<rparr>)"

definition median_estimator_getvalue :: "median_estimator \<Rightarrow> int" where
  "median_estimator_getvalue me = me_median me"

section \<open>Profile data\<close>

record profile =
  clock_id :: int
  num_ts :: nat
  next_ts :: nat
  num_iter :: int
  toc_overhead :: int
  timestamps :: "mm_timespec list"
  max_diff_ts :: "int list"
  min_diff_ts :: "int list"
  sum_diff_ts :: "int list"
  median_diff_ts :: "median_estimator list"
  labels :: "nat option list"
  label_storage :: string

text \<open>Static storage: everything is zero when the program starts.\<close>

definition profile_startup :: profile where
  "profile_startup =
     \<lparr>clock_id = 0, num_ts = 0, next_ts = 0, num_iter = 0, toc_overhead = 0,
      timestamps = replicate NUM_TS_MAX \<lparr>tv_sec = 0, tv_nsec = 0\<rparr>,
      max_diff_ts = replicate NUM_TS_MAX 0, min_diff_ts = replicate NUM_TS_MAX 0,
      sum_diff_ts = replicate NUM_TS_MAX 0,
      median_diff_ts = replicate NUM_TS_MAX \<lparr>me_median = 0, me_step = 0\<rparr>,
      labels = replicate NUM_TS_MAX None, label_storage = replicate (MAX_LABEL_LEN * NUM_TS_MAX) NUL\<rparr>"

section \<open>Measure and statistics\<close>

definition get_diff_ts :: "nat \<Rightarrow> profile \<Rightarrow> int" where
  "get_diff_ts i s =
     (let diff = (tv_sec (timestamps s ! i) - tv_sec (timestamps s ! (i - 1))) * SEC_IN_NSEC;
          diff = diff + (tv_nsec (timestamps s ! i) - tv_nsec (timestamps s ! (i - 1)))
      in diff - toc_overhead s)"

definition update_diff :: "nat \<Rightarrow> profile \<Rightarrow> profile" where
  "update_diff i s =
     (let diff = get_diff_ts i s
      in s\<lparr>min_diff_ts := (min_diff_ts s)[i := min diff (min_diff_ts s ! i)],
           max_diff_ts := (max_diff_ts s)[i := max diff (max_diff_ts s ! i)],
           sum_diff_ts := (sum_diff_ts s)[i := sum_diff_ts s ! i + diff],
           median_diff_ts := (median_diff_ts s)[i := median_estimator_update (median_diff_ts s ! i) diff]\<rparr>)"

definition update_diffs :: "profile \<Rightarrow> profile" where
  "update_diffs s = fold update_diff [1..<next_ts s] s"

definition reset_diffs :: "profile \<Rightarrow> profile" where
  "reset_diffs s =
     s\<lparr>next_ts := 0, num_ts := 0, num_iter := 0,
       min_diff_ts := map (\<lambda>_. INT64_MAX) (min_diff_ts s), max_diff_ts := map (\<lambda>_. 0) (max_diff_ts s),
       sum_diff_ts := map (\<lambda>_. 0) (sum_diff_ts s),
       median_diff_ts := map median_estimator_init (median_diff_ts s)\<rparr>"

definition local_toc :: "(int \<Rightarrow> 'w \<Rightarrow> mm_timespec \<times> 'w) \<Rightarrow> profile \<times> 'w \<Rightarrow> profile \<times> 'w" where
  "local_toc gt = (\<lambda>(s, w).
     let (ts, w) = gt (clock_id s) w
     in if next_ts s = NUM_TS_MAX - 1 then (s, w)
        else (s\<lparr>timestamps := (timestamps s)[next_ts s := ts],
                num_ts := (if num_ts s \<le> next_ts s then next_ts s + 1 else num_ts s),
                next_ts := next_ts s + 1\<rparr>, w))"

definition mm_tic :: "(int \<Rightarrow> 'w \<Rightarrow> mm_timespec \<times> 'w) \<Rightarrow> profile \<times> 'w \<Rightarrow> profile \<times> 'w" where
  "mm_tic gt = (\<lambda>(s, w).
     let s = update_diffs s
     in local_toc gt (s\<lparr>next_ts := 0, num_iter := num_iter s + 1\<rparr>, w))"

definition mm_toc :: "(int \<Rightarrow> 'w \<Rightarrow> mm_timespec \<times> 'w) \<Rightarrow> profile \<times> 'w \<Rightarrow> profile \<times> 'w" where
  "mm_toc gt = local_toc gt"

text \<open>\<open>strncpy(dst, src, n)\<close> into the array \<open>mem\<close> at an offset: at most \<open>n\<close> characters, padded with NUL.\<close>

definition strncpy :: "nat \<Rightarrow> string \<Rightarrow> nat \<Rightarrow> string \<Rightarrow> string" where
  "strncpy off src n mem =
     take off mem @ take n (src @ replicate n NUL) @ drop (off + n) mem"

definition set_label :: "string \<Rightarrow> profile \<Rightarrow> profile" where
  "set_label l s =
     (if labels s ! next_ts s = None
      then s\<lparr>labels := (labels s)[next_ts s := Some (next_ts s * MAX_LABEL_LEN)],
             label_storage := strncpy (next_ts s * MAX_LABEL_LEN) l (MAX_LABEL_LEN - 1) (label_storage s)\<rparr>
      else s)"

definition mm_toc_label ::
  "(int \<Rightarrow> 'w \<Rightarrow> mm_timespec \<times> 'w) \<Rightarrow> string \<Rightarrow> profile \<times> 'w \<Rightarrow> profile \<times> 'w" where
  "mm_toc_label gt l = (\<lambda>(s, w). local_toc gt (set_label l s, w))"

definition overhead_round :: "(int \<Rightarrow> 'w \<Rightarrow> mm_timespec \<times> 'w) \<Rightarrow> nat \<Rightarrow> profile \<times> 'w \<Rightarrow> profile \<times> 'w" where
  "overhead_round gt i x =
     (let (s, w) = mm_toc gt (mm_toc gt (mm_tic gt x));
          (s, w) = mm_toc_label gt '''' (mm_toc_label gt '''' (mm_tic gt (s, w)))
      in (if i = 0 then reset_diffs s else s, w))"

definition estimate_toc_overhead ::
  "(int \<Rightarrow> 'w \<Rightarrow> mm_timespec \<times> 'w) \<Rightarrow> profile \<times> 'w \<Rightarrow> profile \<times> 'w" where
  "estimate_toc_overhead gt = (\<lambda>(s, w).
     let s = (reset_diffs s)\<lparr>toc_overhead := 0\<rparr>;
         (s, w) = fold (overhead_round gt) [0..<1000] (s, w)
     in (s\<lparr>toc_overhead := min (min_diff_ts s ! 1) (min_diff_ts s ! 2)\<rparr>, w))"

definition mm_profile_reset ::
  "(int \<Rightarrow> 'w \<Rightarrow> mm_timespec \<times> 'w) \<Rightarrow> int \<Rightarrow> profile \<times> 'w \<Rightarrow> profile \<times> 'w" where
  "mm_profile_reset gt flags = (\<lambda>(s, w).
     let s = s\<lparr>clock_id := (if flags AND PROF_RESET_CPUCLOCK \<noteq> 0 then MM_CLK_CPU_PROCESS else MM_CLK_MONOTONIC)\<rparr>;
         (s, w) = estimate_toc_overhead gt (s, w);
         s = reset_diffs s
     in (if flags AND PROF_RESET_KEEPLABEL \<noteq> 0 then s
         else s\<lparr>labels := Some 0 # map (\<lambda>_. None) (tl (labels s))\<rparr>, w))"

section \<open>Results\<close>

text \<open>A label is the C string that starts at its offset.\<close>

definition label_string :: "nat \<Rightarrow> profile \<Rightarrow> string" where
  "label_string off s = takeWhile (\<lambda>c. c \<noteq> NUL) (drop off (label_storage s))"

definition max_label_len :: "profile \<Rightarrow> nat" where
  "max_label_len s =
     (let m = fold (\<lambda>i m. max m (case labels s ! i of None \<Rightarrow> 2 | Some off \<Rightarrow> length (label_string off s)))
                [1..<num_ts s] 0
      in if MAX_LABEL_LEN - 1 < m then MAX_LABEL_LEN - 1 else m)"

text \<open>
  The columns of the result, one after the other. The mean is a quotient of doubles cut to an integer;
  a division by zero, whose conversion to an integer is undefined, is \<open>None\<close>.
\<close>

definition mean_value :: "int \<Rightarrow> int \<Rightarrow> int option" where
  "mean_value tot n =
     (if n = 0 then None else Some (dbl_trunc (dbl_div (dbl_of_int tot) (dbl_of_int n))))"

definition column :: "nat \<Rightarrow> (nat \<Rightarrow> 'a) \<Rightarrow> 'a list" where
  "column num_points f = map (\<lambda>i. f (i + 1)) [0..<num_points]"

definition compute_requested_timings :: "int \<Rightarrow> nat \<Rightarrow> profile \<Rightarrow> int list option" where
  "compute_requested_timings m num_points s =
     (let means = (if m AND PROF_MEAN \<noteq> 0
                then those (column num_points (\<lambda>i. mean_value (sum_diff_ts s ! i) (num_iter s))) else Some [])
      in case means of None \<Rightarrow> None
         | Some means \<Rightarrow>
             Some ((if m AND PROF_CURR \<noteq> 0 then column num_points (\<lambda>i. get_diff_ts i s) else [])
               @ means
               @ (if m AND PROF_MIN \<noteq> 0 then column num_points (\<lambda>i. min_diff_ts s ! i) else [])
               @ (if m AND PROF_MAX \<noteq> 0 then column num_points (\<lambda>i. max_diff_ts s ! i) else [])
               @ (if m AND PROF_MEDIAN \<noteq> 0 then column num_points (\<lambda>i. median_estimator_getvalue (median_diff_ts s ! i)) else [])))"

text \<open>The number of columns that \<open>compute_requested_timings\<close> returns.\<close>

definition num_columns :: "int \<Rightarrow> nat" where
  "num_columns m = length (filter (\<lambda>f. m AND f \<noteq> 0) [PROF_CURR, PROF_MEAN, PROF_MIN, PROF_MAX, PROF_MEDIAN])"

definition forced_unit :: "int \<Rightarrow> nat option" where
  "forced_unit m = find (\<lambda>i. u_forcemask (unit_list ! i) = m AND UNIT_MASK) [0..<NUM_UNIT]"

definition suitable_unit :: "int \<Rightarrow> int \<Rightarrow> nat" where
  "suitable_unit minval maxval =
     (case find (\<lambda>i. let scale = u_scale (unit_list ! i)
                     in (minval < scale * 100 \<and> maxval < scale * 10000) \<or> maxval - minval < scale) [0..<NUM_UNIT - 1]
      of Some i \<Rightarrow> i | None \<Rightarrow> NUM_UNIT - 1)"

definition get_display_unit :: "nat \<Rightarrow> nat \<Rightarrow> int list \<Rightarrow> int \<Rightarrow> nat" where
  "get_display_unit num_points num_cols dat m =
     (case forced_unit m of Some i \<Rightarrow> i
      | None \<Rightarrow> let vals = take (num_cols * num_points) dat
                 in suitable_unit (fold min vals INT64_MAX) (fold max vals 0))"

definition pad_left :: "nat \<Rightarrow> string \<Rightarrow> string" where
  "pad_left w t = replicate (w - length t) CHR '' '' @ t"

definition header_column :: "int \<Rightarrow> int \<Rightarrow> string \<Rightarrow> string" where
  "header_column m flag title =
     (if m AND flag \<noteq> 0 then pad_left VALUESTR_LEN title @ '' '' @ pad_left UNITSTR_LEN '''' @ '' |'' else [])"

definition format_header_line :: "int \<Rightarrow> nat \<Rightarrow> string" where
  "format_header_line m label_width =
     (let line = pad_left label_width '''' @ '' |''
            @ header_column m PROF_CURR ''current'' @ header_column m PROF_MEAN ''mean''
            @ header_column m PROF_MIN ''min'' @ header_column m PROF_MAX ''max''
            @ header_column m PROF_MEDIAN ''median''
      in line @ [CHR 0x0A] @ replicate (length line) CHR ''-'' @ [CHR 0x0A])"

definition format_result_line :: "nat \<Rightarrow> nat \<Rightarrow> nat \<Rightarrow> nat \<Rightarrow> nat \<Rightarrow> int list \<Rightarrow> profile \<Rightarrow> string" where
  "format_result_line ncol num_points v unit_index label_width dat s =
     (let scale = dbl_of_int (u_scale (unit_list ! unit_index)); unitname = u_name (unit_list ! unit_index)
      in (case labels s ! (v + 1) of
            Some off \<Rightarrow> pad_left label_width (label_string off s) @ '' |''
          | None \<Rightarrow> pad_left label_width (dec_nat (v + 1)) @ '' |'')
         @ concat (map (\<lambda>i. pad_left VALUESTR_LEN (dbl_fixed2 (dbl_div (dbl_of_int (dat ! (i * num_points + v))) scale))
                         @ '' '' @ pad_left UNITSTR_LEN unitname @ '' |'') [0..<ncol])
         @ [CHR 0x0A])"

definition overhead_line :: "profile \<Rightarrow> string" where
  "overhead_line s = ''toc overhead = '' @ dec_int (toc_overhead s) @ '' ns'' @ [CHR 0x0A]"

text \<open>
  \<open>full_mm_write\<close> is the write loop of \<^const>\<open>write_all\<close>. The lines are written one by one; the first failing one
  ends the function.
\<close>

fun print_lines ::
  "(string \<Rightarrow> 'w \<Rightarrow> ('e + nat) \<times> 'w) \<Rightarrow> string list \<Rightarrow> 'w \<Rightarrow> ('e option \<times> 'w) option" where
  "print_lines wr [] w = Some (None, w)"
| "print_lines wr (l # ls) w =
     (case write_all wr l w of
        None \<Rightarrow> None
      | Some (Some e, w) \<Rightarrow> Some (Some e, w)
      | Some (None, w) \<Rightarrow> print_lines wr ls w)"

definition profile_lines :: "int \<Rightarrow> profile \<Rightarrow> string list option" where
  "profile_lines m s =
     (let label_width = max_label_len s; num_points = num_ts s - 1
      in case compute_requested_timings m num_points s of None \<Rightarrow> None
         | Some dat \<Rightarrow>
             let ncol = num_columns m;
                 unit_index = get_display_unit ncol num_points dat m
             in Some (map (\<lambda>i. if i = 0 then format_header_line m label_width
                               else format_result_line ncol num_points (i - 1) unit_index label_width dat s)
                        [0..<num_ts s]
                      @ [overhead_line s]))"

definition mm_profile_print ::
  "(string \<Rightarrow> 'w \<Rightarrow> ('e + nat) \<times> 'w) \<Rightarrow> int \<Rightarrow> profile \<times> 'w \<Rightarrow> (int \<times> profile \<times> 'w) option" where
  "mm_profile_print wr m = (\<lambda>(s, w).
     let s = update_diffs s
     in case profile_lines m s of None \<Rightarrow> None
        | Some ls \<Rightarrow>
            (case print_lines wr ls w of None \<Rightarrow> None
             | Some (Some e, w) \<Rightarrow> Some (-1, s, w)
             | Some (None, w) \<Rightarrow> Some (0, s, w)))"

text \<open>A negative measure point reads outside of the array of results: \<open>None\<close>.\<close>

definition mm_profile_get_data :: "int \<Rightarrow> int \<Rightarrow> profile \<Rightarrow> int option" where
  "mm_profile_get_data measure_point type s =
     (if int (num_ts s) - 1 \<le> measure_point then Some (-1)
      else if type \<notin> set [PROF_CURR, PROF_MIN, PROF_MEAN, PROF_MAX, PROF_MEDIAN] then Some (-1)
      else let num_points = num_ts s - 1
           in case compute_requested_timings (type OR PROF_FORCE_NSEC) num_points s of None \<Rightarrow> None
              | Some dat \<Rightarrow> if measure_point < 0 then None else Some (dat ! nat measure_point))"

section \<open>The tables stay in range\<close>

definition profile_inv :: "profile \<Rightarrow> bool" where
  "profile_inv s \<longleftrightarrow>
     length (timestamps s) = 16 \<and> length (min_diff_ts s) = 16 \<and> length (max_diff_ts s) = 16
     \<and> length (sum_diff_ts s) = 16 \<and> length (median_diff_ts s) = 16
     \<and> next_ts s \<le> num_ts s \<and> num_ts s \<le> 15
     \<and> length (labels s) = 16 \<and> length (label_storage s) = 1024
     \<and> (\<forall>i < 16. labels s ! i \<in> {None, Some (64 * i)}) \<and> (\<forall>i < 16. label_storage s ! (64 * i + 63) = NUL)"

text \<open>What the program can do with the profile: the calls in any order from the start of the program.\<close>

inductive prof_reach ::
  "(int \<Rightarrow> 'w \<Rightarrow> mm_timespec \<times> 'w) \<Rightarrow> (string \<Rightarrow> 'w \<Rightarrow> ('e + nat) \<times> 'w) \<Rightarrow> profile \<times> 'w \<Rightarrow> bool"
  for gt wr where
  startup: "prof_reach gt wr (profile_startup, w)"
| tic: "prof_reach gt wr x \<Longrightarrow> prof_reach gt wr (mm_tic gt x)"
| toc: "prof_reach gt wr x \<Longrightarrow> prof_reach gt wr (mm_toc gt x)"
| toc_label: "prof_reach gt wr x \<Longrightarrow> prof_reach gt wr (mm_toc_label gt l x)"
| reset: "prof_reach gt wr x \<Longrightarrow> prof_reach gt wr (mm_profile_reset gt flags x)"
| print: "prof_reach gt wr x \<Longrightarrow> mm_profile_print wr m x = Some (rc, y) \<Longrightarrow> prof_reach gt wr y"

text \<open>The fields that the statistics do not touch.\<close>

lemma update_diff_fields [simp]:
  "clock_id (update_diff i s) = clock_id s" "num_ts (update_diff i s) = num_ts s"
  "next_ts (update_diff i s) = next_ts s" "num_iter (update_diff i s) = num_iter s"
  "toc_overhead (update_diff i s) = toc_overhead s" "timestamps (update_diff i s) = timestamps s"
  "labels (update_diff i s) = labels s" "label_storage (update_diff i s) = label_storage s"
  "length (min_diff_ts (update_diff i s)) = length (min_diff_ts s)"
  "length (max_diff_ts (update_diff i s)) = length (max_diff_ts s)"
  "length (sum_diff_ts (update_diff i s)) = length (sum_diff_ts s)"
  "length (median_diff_ts (update_diff i s)) = length (median_diff_ts s)"
  by (simp_all add: update_diff_def Let_def)

lemma fold_update_diff_fields [simp]:
  "clock_id (fold update_diff ks s) = clock_id s" "num_ts (fold update_diff ks s) = num_ts s"
  "next_ts (fold update_diff ks s) = next_ts s" "num_iter (fold update_diff ks s) = num_iter s"
  "toc_overhead (fold update_diff ks s) = toc_overhead s" "timestamps (fold update_diff ks s) = timestamps s"
  "labels (fold update_diff ks s) = labels s" "label_storage (fold update_diff ks s) = label_storage s"
  "length (min_diff_ts (fold update_diff ks s)) = length (min_diff_ts s)"
  "length (max_diff_ts (fold update_diff ks s)) = length (max_diff_ts s)"
  "length (sum_diff_ts (fold update_diff ks s)) = length (sum_diff_ts s)"
  "length (median_diff_ts (fold update_diff ks s)) = length (median_diff_ts s)"
  by (induction ks arbitrary: s) simp_all

lemma update_diffs_fields [simp]:
  "clock_id (update_diffs s) = clock_id s" "num_ts (update_diffs s) = num_ts s"
  "next_ts (update_diffs s) = next_ts s" "num_iter (update_diffs s) = num_iter s"
  "toc_overhead (update_diffs s) = toc_overhead s" "timestamps (update_diffs s) = timestamps s"
  "labels (update_diffs s) = labels s" "label_storage (update_diffs s) = label_storage s"
  "length (min_diff_ts (update_diffs s)) = length (min_diff_ts s)"
  "length (max_diff_ts (update_diffs s)) = length (max_diff_ts s)"
  "length (sum_diff_ts (update_diffs s)) = length (sum_diff_ts s)"
  "length (median_diff_ts (update_diffs s)) = length (median_diff_ts s)"
  by (simp_all add: update_diffs_def)

named_theorems profile_inv_intros \<open>operations keep the tables in range\<close>

lemma inv_startup [profile_inv_intros]: "profile_inv profile_startup"
  by (simp add: profile_inv_def profile_startup_def prof_consts)

lemma inv_update_diffs [profile_inv_intros]: "profile_inv s \<Longrightarrow> profile_inv (update_diffs s)"
  by (simp add: profile_inv_def)

lemma inv_reset_diffs [profile_inv_intros]: "profile_inv s \<Longrightarrow> profile_inv (reset_diffs s)"
  by (simp add: profile_inv_def reset_diffs_def)

lemma inv_overhead [profile_inv_intros]: "profile_inv s \<Longrightarrow> profile_inv (s\<lparr>toc_overhead := d\<rparr>)"
  by (simp add: profile_inv_def)

lemma inv_clock [profile_inv_intros]: "profile_inv s \<Longrightarrow> profile_inv (s\<lparr>clock_id := c\<rparr>)"
  by (simp add: profile_inv_def)

lemma inv_local_toc [profile_inv_intros]: "profile_inv (fst x) \<Longrightarrow> profile_inv (fst (local_toc gt x))"
  by (auto simp: profile_inv_def local_toc_def prof_consts split: prod.splits)

lemma inv_new_iteration [profile_inv_intros]:
  "profile_inv s \<Longrightarrow> profile_inv (s\<lparr>next_ts := 0, num_iter := n\<rparr>)"
  by (simp add: profile_inv_def)

lemma inv_tic [profile_inv_intros]: "profile_inv (fst x) \<Longrightarrow> profile_inv (fst (mm_tic gt x))"
  by (cases x) (simp add: mm_tic_def inv_local_toc inv_new_iteration inv_update_diffs)

lemma inv_toc [profile_inv_intros]: "profile_inv (fst x) \<Longrightarrow> profile_inv (fst (mm_toc gt x))"
  unfolding mm_toc_def by (rule inv_local_toc)

lemma nth_strncpy:
  assumes "off + n \<le> length mem" "k < length mem"
  shows "strncpy off src n mem ! k =
    (if k < off \<or> off + n \<le> k then mem ! k else (src @ replicate n NUL) ! (k - off))"
  using assms by (auto simp: strncpy_def nth_append min_def)

lemma length_strncpy [simp]: "off + n \<le> length mem \<Longrightarrow> length (strncpy off src n mem) = length mem"
  by (simp add: strncpy_def)

lemma inv_set_label [profile_inv_intros]: "profile_inv s \<Longrightarrow> profile_inv (set_label l s)"
proof -
  assume inv: "profile_inv s"
  let ?o = "next_ts s * 64"
  have n: "next_ts s \<le> 15" using inv by (auto simp: profile_inv_def)
  have "strncpy ?o l 63 (label_storage s) ! (64 * i + 63) = NUL" if "i < 16" for i
  proof -
    have "64 * i + 63 < ?o \<or> ?o + 63 \<le> 64 * i + 63" by (cases "i < next_ts s") auto
    then show ?thesis using inv that n by (subst nth_strncpy) (auto simp: profile_inv_def)
  qed
  then show ?thesis using inv n by (auto simp: profile_inv_def set_label_def prof_consts nth_list_update)
qed

lemma inv_toc_label [profile_inv_intros]: "profile_inv (fst x) \<Longrightarrow> profile_inv (fst (mm_toc_label gt l x))"
  unfolding mm_toc_label_def by (auto split: prod.splits intro!: inv_local_toc inv_set_label)

lemma inv_overhead_round [profile_inv_intros]: "profile_inv (fst x) \<Longrightarrow> profile_inv (fst (overhead_round gt i x))"
  unfolding overhead_round_def case_prod_beta Let_def by (simp add: profile_inv_intros)

lemma inv_fold_rounds [profile_inv_intros]:
  "profile_inv (fst x) \<Longrightarrow> profile_inv (fst (fold (overhead_round gt) ks x))"
  by (induction ks arbitrary: x) (simp_all add: inv_overhead_round)

lemma inv_estimate [profile_inv_intros]: "profile_inv (fst x) \<Longrightarrow> profile_inv (fst (estimate_toc_overhead gt x))"
  unfolding estimate_toc_overhead_def case_prod_beta Let_def by (simp add: profile_inv_intros)

lemma inv_reset [profile_inv_intros]: "profile_inv (fst x) \<Longrightarrow> profile_inv (fst (mm_profile_reset gt flags x))"
proof -
  assume inv: "profile_inv (fst x)"
  obtain s w where x: "x = (s, w)" by fastforce
  define c where "c = (if flags AND PROF_RESET_CPUCLOCK \<noteq> 0 then MM_CLK_CPU_PROCESS else MM_CLK_MONOTONIC)"
  obtain t v where e: "estimate_toc_overhead gt (s\<lparr>clock_id := c\<rparr>, w) = (t, v)" by fastforce
  have "profile_inv t" using inv_estimate [of "(s\<lparr>clock_id := c\<rparr>, w)" gt] inv_clock [of s c] inv x e by simp
  then have t: "profile_inv (reset_diffs t)" by (rule inv_reset_diffs)
  then have "profile_inv ((reset_diffs t)\<lparr>labels := Some 0 # map (\<lambda>_. None) (tl (labels (reset_diffs t)))\<rparr>)"
    by (auto simp: profile_inv_def nth_Cons split: nat.splits)
  then show ?thesis using t e x by (simp add: mm_profile_reset_def c_def [symmetric] Let_def)
qed

lemma print_updates: "mm_profile_print wr m x = Some (rc, y) \<Longrightarrow> fst y = update_diffs (fst x)"
  by (auto simp: mm_profile_print_def Let_def split: prod.splits option.splits)

lemma prof_reach_inv: "prof_reach gt wr x \<Longrightarrow> profile_inv (fst x)"
  by (induction rule: prof_reach.induct) (auto intro: profile_inv_intros dest!: print_updates)

section \<open>Statistics of the iterations\<close>

text \<open>What the four tables hold for one measure point, and what one more difference makes of it.\<close>

type_synonym stat = "int \<times> int \<times> int \<times> median_estimator"

definition stat_at :: "profile \<Rightarrow> nat \<Rightarrow> stat" where
  "stat_at s i = (min_diff_ts s ! i, max_diff_ts s ! i, sum_diff_ts s ! i, median_diff_ts s ! i)"

fun stat_add :: "int \<Rightarrow> stat \<Rightarrow> stat" where
  "stat_add d (mn, mx, sm, me) = (min d mn, max d mx, sm + d, median_estimator_update me d)"

lemma get_diff_timediff:
  "get_diff_ts i s = mm_timediff_ns (timestamps s ! i) (timestamps s ! (i - 1)) - toc_overhead s"
  by (simp add: get_diff_ts_def mm_timediff_ns_def SEC_IN_NSEC_def NS_IN_SEC_def)

lemma stat_at_update_diff:
  "profile_inv s \<Longrightarrow> i < 16 \<Longrightarrow>
    stat_at (update_diff j s) i = (if i = j then stat_add (get_diff_ts i s) (stat_at s i) else stat_at s i)"
  by (auto simp: stat_at_def update_diff_def Let_def profile_inv_def)

lemma inv_fold_update: "profile_inv s \<Longrightarrow> profile_inv (fold update_diff ks s)"
  by (simp add: profile_inv_def)

lemma get_diff_fold [simp]: "get_diff_ts i (fold update_diff ks s) = get_diff_ts i s"
  by (simp add: get_diff_timediff)

lemma stat_at_fold:
  assumes "profile_inv s" "i < 16"
  shows "stat_at (fold update_diff [1..<n] s) i =
    (if 1 \<le> i \<and> i < n then stat_add (get_diff_ts i s) (stat_at s i) else stat_at s i)"
proof (induction n)
  case (Suc n)
  then show ?case using assms
    by (cases "1 \<le> n") (auto simp: stat_at_update_diff inv_fold_update not_le)
qed simp

lemma stat_at_update_diffs:
  "profile_inv s \<Longrightarrow> i < 16 \<Longrightarrow> stat_at (update_diffs s) i =
    (if 1 \<le> i \<and> i < next_ts s then stat_add (get_diff_ts i s) (stat_at s i) else stat_at s i)"
  unfolding update_diffs_def by (rule stat_at_fold)

text \<open>
  One iteration: a call of \<open>mm_tic\<close> and then some calls of \<open>mm_toc\<close>. The clock returns the times of a
  list one after the other, whatever they are.
\<close>

fun scripted_clock :: "int \<Rightarrow> mm_timespec list \<Rightarrow> mm_timespec \<times> mm_timespec list" where
  "scripted_clock c [] = (\<lparr>tv_sec = 0, tv_nsec = 0\<rparr>, [])"
| "scripted_clock c (t # w) = (t, w)"

definition iteration :: "nat \<Rightarrow> profile \<times> mm_timespec list \<Rightarrow> profile \<times> mm_timespec list" where
  "iteration n x = (mm_toc scripted_clock ^^ n) (mm_tic scripted_clock x)"

definition iterations :: "nat list \<Rightarrow> profile \<times> mm_timespec list \<Rightarrow> profile \<times> mm_timespec list" where
  "iterations ns x = fold iteration ns x"

lemma toc_steps:
  assumes "profile_inv s" "next_ts s + length ts \<le> 15"
  shows "\<exists>s'. (mm_toc scripted_clock ^^ length ts) (s, ts @ w) = (s', w) \<and> profile_inv s'
    \<and> next_ts s' = next_ts s + length ts \<and> num_ts s' = max (num_ts s) (next_ts s + length ts)
    \<and> num_iter s' = num_iter s \<and> toc_overhead s' = toc_overhead s \<and> stat_at s' = stat_at s
    \<and> timestamps s' = take (next_ts s) (timestamps s) @ ts @ drop (next_ts s + length ts) (timestamps s)"
  using assms
proof (induction ts arbitrary: s)
  case Nil
  then show ?case by (auto simp: profile_inv_def max_def)
next
  case (Cons t ts)
  define s1 where "s1 = fst (local_toc scripted_clock (s, t # ts @ w))"
  have s1: "s1 = s\<lparr>timestamps := (timestamps s)[next_ts s := t],
      num_ts := (if num_ts s \<le> next_ts s then next_ts s + 1 else num_ts s), next_ts := next_ts s + 1\<rparr>"
    and step: "mm_toc scripted_clock (s, (t # ts) @ w) = (s1, ts @ w)"
    using Cons.prems by (auto simp: s1_def mm_toc_def local_toc_def prof_consts)
  have inv: "profile_inv s1" unfolding s1_def by (rule inv_local_toc) (use Cons.prems in simp)
  obtain s' where s': "(mm_toc scripted_clock ^^ length ts) (s1, ts @ w) = (s', w)" "profile_inv s'"
    "next_ts s' = next_ts s1 + length ts" "num_ts s' = max (num_ts s1) (next_ts s1 + length ts)"
    "num_iter s' = num_iter s1" "toc_overhead s' = toc_overhead s1" "stat_at s' = stat_at s1"
    "timestamps s' = take (next_ts s1) (timestamps s1) @ ts @ drop (next_ts s1 + length ts) (timestamps s1)"
    using Cons.IH [OF inv] Cons.prems by (auto simp: s1)
  have "length (timestamps s) = 16" using Cons.prems by (simp add: profile_inv_def)
  then have "take (next_ts s + 1) ((timestamps s)[next_ts s := t]) = take (next_ts s) (timestamps s) @ [t]"
    using Cons.prems by (simp add: take_Suc_conv_app_nth)
  then show ?case
    using s' step Cons.prems by (intro exI [of _ s']) (auto simp: funpow_swap1 s1 stat_at_def fun_eq_iff)
qed

lemma iteration_effect:
  assumes "profile_inv s" "b \<noteq> []" "length b \<le> 15"
  shows "\<exists>s'. iteration (length b - 1) (s, b @ w) = (s', w) \<and> profile_inv s'
    \<and> next_ts s' = length b \<and> num_ts s' = max (num_ts s) (length b) \<and> num_iter s' = num_iter s + 1
    \<and> toc_overhead s' = toc_overhead s \<and> stat_at s' = stat_at (update_diffs s)
    \<and> (\<forall>k < length b. timestamps s' ! k = b ! k)"
proof -
  obtain t ts where b: "b = t # ts" using assms(2) by (cases b) auto
  define s1 where "s1 = (update_diffs s)\<lparr>next_ts := 0, num_iter := num_iter s + 1\<rparr>"
  have inv: "profile_inv s1" unfolding s1_def by (intro profile_inv_intros assms)
  have "iteration (length b - 1) (s, b @ w) = (mm_toc scripted_clock ^^ length b) (s1, b @ w)"
    by (simp add: iteration_def b mm_tic_def s1_def mm_toc_def funpow_swap1)
  moreover have "next_ts s1 + length b \<le> 15" using assms(3) by (simp add: s1_def)
  note toc_steps [OF inv this, of w]
  ultimately show ?thesis
    by (auto simp: s1_def nth_append stat_at_def fun_eq_iff)
qed

definition block_diff :: "int \<Rightarrow> nat \<Rightarrow> mm_timespec list \<Rightarrow> int" where
  "block_diff ov i b = mm_timediff_ns (b ! i) (b ! (i - 1)) - ov"

definition point_diffs :: "int \<Rightarrow> nat \<Rightarrow> mm_timespec list list \<Rightarrow> int list" where
  "point_diffs ov i bs = map (block_diff ov i) (filter (\<lambda>b. i < length b) bs)"

lemma iterations_effect:
  assumes "profile_inv s" "\<forall>b \<in> set bs. b \<noteq> [] \<and> length b \<le> 15"
  shows "\<exists>s'. iterations (map (\<lambda>b. length b - 1) bs) (s, concat bs @ w) = (s', w) \<and> profile_inv s'
    \<and> num_iter s' = num_iter s + int (length bs) \<and> toc_overhead s' = toc_overhead s
    \<and> num_ts s' = fold max (map length bs) (num_ts s)
    \<and> (\<forall>i. 1 \<le> i \<and> i < 16 \<longrightarrow> stat_at (update_diffs s') i =
         fold stat_add (point_diffs (toc_overhead s) i bs) (stat_at (update_diffs s) i))"
  using assms
proof (induction bs arbitrary: s)
  case Nil
  then show ?case by (simp add: iterations_def point_diffs_def)
next
  case (Cons b bs)
  then obtain s1 where s1: "iteration (length b - 1) (s, b @ concat bs @ w) = (s1, concat bs @ w)" "profile_inv s1"
    "next_ts s1 = length b" "num_ts s1 = max (num_ts s) (length b)" "num_iter s1 = num_iter s + 1"
    "toc_overhead s1 = toc_overhead s" "stat_at s1 = stat_at (update_diffs s)" "\<forall>k < length b. timestamps s1 ! k = b ! k"
    using iteration_effect [of s b "concat bs @ w"] by auto
  have diff: "get_diff_ts i s1 = block_diff (toc_overhead s) i b" if "i < length b" for i
    using that s1(6,8) by (simp add: get_diff_timediff block_diff_def)
  have st: "stat_at (update_diffs s1) i =
      fold stat_add (point_diffs (toc_overhead s) i [b]) (stat_at (update_diffs s) i)" if "1 \<le> i" "i < 16" for i
    using that s1(2,3,7) diff by (simp add: stat_at_update_diffs point_diffs_def)
  obtain s' where "iterations (map (\<lambda>b. length b - 1) bs) (s1, concat bs @ w) = (s', w)" "profile_inv s'"
    "num_iter s' = num_iter s1 + int (length bs)" "toc_overhead s' = toc_overhead s1"
    "num_ts s' = fold max (map length bs) (num_ts s1)"
    "\<forall>i. 1 \<le> i \<and> i < 16 \<longrightarrow> stat_at (update_diffs s') i =
         fold stat_add (point_diffs (toc_overhead s1) i bs) (stat_at (update_diffs s1) i)"
    using Cons.IH [OF s1(2)] Cons.prems by auto
  then show ?case using s1(1,4,5,6) st
    by (intro exI [of _ s']) (auto simp: iterations_def point_diffs_def max.commute)
qed

section \<open>The overhead of a call\<close>

text \<open>\<open>mm_toc_label\<close> measures as \<open>mm_toc\<close> does; only the labels differ.\<close>

definition relabel :: "nat option list \<Rightarrow> string \<Rightarrow> profile \<Rightarrow> profile" where
  "relabel a b s = s\<lparr>labels := a, label_storage := b\<rparr>"

lemma relabel_fields [simp]:
  "num_ts (relabel a b s) = num_ts s" "next_ts (relabel a b s) = next_ts s" "num_iter (relabel a b s) = num_iter s"
  "toc_overhead (relabel a b s) = toc_overhead s" "timestamps (relabel a b s) = timestamps s"
  "stat_at (relabel a b s) = stat_at s" "relabel c d (relabel a b s) = relabel c d s"
  by (simp_all add: relabel_def stat_at_def fun_eq_iff)

lemma local_toc_relabel: "local_toc gt (relabel a b s, w) = map_prod (relabel a b) id (local_toc gt (s, w))"
  by (simp add: local_toc_def relabel_def split: prod.splits)

lemma set_label_relabel: "\<exists>a b. set_label l s = relabel a b s"
  by (cases s) (auto simp: set_label_def relabel_def)

lemma toc_label_relabel: "\<exists>a b. mm_toc_label gt l x = map_prod (relabel a b) id (mm_toc gt x)"
proof -
  obtain s w where x: "x = (s, w)" by fastforce
  obtain a b where "set_label l s = relabel a b s" using set_label_relabel by blast
  then have "mm_toc_label gt l x = map_prod (relabel a b) id (mm_toc gt x)"
    by (simp add: x mm_toc_label_def mm_toc_def local_toc_relabel)
  then show ?thesis by blast
qed

lemma labelled_iteration:
  "\<exists>a b. mm_toc_label gt l (mm_toc_label gt m x) = map_prod (relabel a b) id (mm_toc gt (mm_toc gt x))"
proof -
  obtain a b where 1: "mm_toc_label gt m x = map_prod (relabel a b) id (mm_toc gt x)"
    using toc_label_relabel by blast
  obtain s w where 2: "mm_toc gt x = (s, w)" by fastforce
  obtain c d where "mm_toc_label gt l (relabel a b s, w) = map_prod (relabel c d) id (mm_toc gt (relabel a b s, w))"
    using toc_label_relabel by blast
  moreover have "mm_toc gt (relabel a b s, w) = map_prod (relabel a b) id (mm_toc gt (s, w))"
    by (simp add: mm_toc_def local_toc_relabel)
  ultimately show ?thesis using 1 2 by (cases "mm_toc gt (s, w)") auto
qed

abbreviation min_at :: "profile \<Rightarrow> nat \<Rightarrow> int" where
  "min_at s j \<equiv> fst (stat_at s j)"

lemma fst_stat_add [simp]: "fst (stat_add d t) = min d (fst t)"
  by (cases t) simp

text \<open>One round of \<open>estimate_toc_overhead\<close> reads six times, three per iteration.\<close>

lemma round_effect:
  assumes "profile_inv s" "length b1 = 3" "length b2 = 3"
  shows "\<exists>s'. overhead_round scripted_clock i (s, b1 @ b2 @ w) = (if i = 0 then reset_diffs s' else s', w)
    \<and> profile_inv s' \<and> toc_overhead s' = toc_overhead s
    \<and> (\<forall>j \<in> {1, 2}. min_at s' j = min (block_diff (toc_overhead s) j b1) (min_at (update_diffs s) j)
        \<and> min_at (update_diffs s') j = min (block_diff (toc_overhead s) j b2) (min_at s' j))"
proof -
  have ne: "b1 \<noteq> []" "b2 \<noteq> []" using assms by auto
  obtain s1 where 1: "iteration 2 (s, b1 @ b2 @ w) = (s1, b2 @ w)" "profile_inv s1" "next_ts s1 = 3"
    "toc_overhead s1 = toc_overhead s" "stat_at s1 = stat_at (update_diffs s)" "\<forall>k < 3. timestamps s1 ! k = b1 ! k"
    using iteration_effect [of s b1 "b2 @ w"] assms ne by auto
  obtain s2 where 2: "iteration 2 (s1, b2 @ w) = (s2, w)" "profile_inv s2" "next_ts s2 = 3"
    "toc_overhead s2 = toc_overhead s" "stat_at s2 = stat_at (update_diffs s1)" "\<forall>k < 3. timestamps s2 ! k = b2 ! k"
    using iteration_effect [of s1 b2 w] 1 assms ne by auto
  have it: "iteration 2 x = mm_toc scripted_clock (mm_toc scripted_clock (mm_tic scripted_clock x))" for x
    by (simp add: iteration_def numeral_2_eq_2)
  obtain a b where lab: "mm_toc_label scripted_clock '''' (mm_toc_label scripted_clock '''' (mm_tic scripted_clock (s1, b2 @ w)))
      = (relabel a b s2, w)"
    using labelled_iteration [of scripted_clock "''''" "''''" "mm_tic scripted_clock (s1, b2 @ w)"] 2(1) it by auto
  have inv: "profile_inv (relabel a b s2)"
    using inv_toc_label [OF inv_toc_label [OF inv_tic]] 1(2) lab by (metis fst_conv)
  have "overhead_round scripted_clock i (s, b1 @ b2 @ w)
      = (if i = 0 then reset_diffs (relabel a b s2) else relabel a b s2, w)"
    using lab 1(1) it [of "(s, b1 @ b2 @ w)"] by (simp add: overhead_round_def)
  moreover have "get_diff_ts j s1 = block_diff (toc_overhead s) j b1"
    "get_diff_ts j (relabel a b s2) = block_diff (toc_overhead s) j b2" if "j \<in> {1, 2}" for j
    using that 1(4,6) 2(4,6) by (auto simp: get_diff_timediff block_diff_def)
  ultimately show ?thesis using inv 1(2,3,5) 2(3,4,5)
    by (intro exI [of _ "relabel a b s2"]) (auto simp: stat_at_update_diffs)
qed

lemma reset_stats: "profile_inv s \<Longrightarrow> i < 16 \<Longrightarrow>
    stat_at (reset_diffs s) i = (INT64_MAX, 0, 0, (median_diff_ts s ! i)\<lparr>me_step := STEP_NEED_INIT\<rparr>)"
  by (simp add: stat_at_def reset_diffs_def profile_inv_def median_estimator_init_def)

lemma reset_no_diffs [simp]: "update_diffs (reset_diffs s) = reset_diffs s"
  by (simp add: update_diffs_def reset_diffs_def)

text \<open>The times of the readings: consecutive ones differ by \<open>lo\<close> at least and \<open>hi\<close> at most.\<close>

definition steps_within :: "int \<Rightarrow> int \<Rightarrow> mm_timespec list \<Rightarrow> bool" where
  "steps_within lo hi ts \<longleftrightarrow>
     (\<forall>k. k + 1 < length ts \<longrightarrow> lo \<le> mm_timediff_ns (ts ! (k + 1)) (ts ! k) \<and> mm_timediff_ns (ts ! (k + 1)) (ts ! k) \<le> hi)"

lemma steps_within_block:
  "steps_within lo hi b \<Longrightarrow> 1 \<le> j \<Longrightarrow> j < length b \<Longrightarrow> lo \<le> block_diff 0 j b \<and> block_diff 0 j b \<le> hi"
  by (cases j) (auto simp: steps_within_def block_diff_def)

lemma steps_within_append: "steps_within lo hi (a @ b) \<Longrightarrow> steps_within lo hi a \<and> steps_within lo hi b"
proof -
  assume w: "steps_within lo hi (a @ b)"
  have "steps_within lo hi a" unfolding steps_within_def
  proof (intro allI impI)
    fix k assume "k + 1 < length a"
    then show "lo \<le> mm_timediff_ns (a ! (k + 1)) (a ! k) \<and> mm_timediff_ns (a ! (k + 1)) (a ! k) \<le> hi"
      using w [unfolded steps_within_def, rule_format, of k] by (simp add: nth_append)
  qed
  moreover have "steps_within lo hi b" unfolding steps_within_def
  proof (intro allI impI)
    fix k assume "k + 1 < length b"
    then show "lo \<le> mm_timediff_ns (b ! (k + 1)) (b ! k) \<and> mm_timediff_ns (b ! (k + 1)) (b ! k) \<le> hi"
      using w [unfolded steps_within_def, rule_format, of "length a + k"] by (simp add: nth_append)
  qed
  ultimately show ?thesis ..
qed

lemma round_bounds:
  assumes inv: "profile_inv s" "toc_overhead s = 0" and r: "length r = 6" "steps_within lo hi r"
    and lo: "\<forall>j \<in> {1, 2}. lo \<le> min_at (update_diffs s) j"
  shows "\<exists>s'. overhead_round scripted_clock i (s, r @ w) = (if i = 0 then reset_diffs s' else s', w)
    \<and> profile_inv s' \<and> toc_overhead s' = 0
    \<and> (\<forall>j \<in> {1, 2}. lo \<le> min_at s' j \<and> min_at s' j \<le> hi \<and> lo \<le> min_at (update_diffs s') j)"
proof -
  define b1 b2 where "b1 = take 3 r" and "b2 = drop 3 r"
  have r': "r = b1 @ b2" and len: "length b1 = 3" "length b2 = 3" using r(1) by (simp_all add: b1_def b2_def)
  have "steps_within lo hi b1" "steps_within lo hi b2" using r(2) unfolding r' by (blast dest: steps_within_append)+
  then have d: "lo \<le> block_diff 0 j b1 \<and> block_diff 0 j b1 \<le> hi" "lo \<le> block_diff 0 j b2" if "j \<in> {1, 2}" for j
    using that len steps_within_block [of lo hi b1 j] steps_within_block [of lo hi b2 j] by auto
  obtain s' where "overhead_round scripted_clock i (s, b1 @ b2 @ w) = (if i = 0 then reset_diffs s' else s', w)"
    "profile_inv s'" "toc_overhead s' = 0"
    "\<forall>j \<in> {1, 2}. min_at s' j = min (block_diff 0 j b1) (min_at (update_diffs s) j)
        \<and> min_at (update_diffs s') j = min (block_diff 0 j b2) (min_at s' j)"
    using round_effect [OF inv(1) len, of i w] inv(2) by auto
  then show ?thesis using lo d unfolding r' by (intro exI [of _ s']) (auto simp: min.coboundedI1)
qed

lemma rounds_bounds:
  assumes "profile_inv s" "toc_overhead s = 0" "length rs = 6 * length ks" "steps_within lo hi rs" "0 \<notin> set ks" "ks \<noteq> []"
    "\<forall>j \<in> {1, 2}. lo \<le> min_at (update_diffs s) j"
  shows "\<exists>s'. fold (overhead_round scripted_clock) ks (s, rs @ w) = (s', w) \<and> profile_inv s'
    \<and> (\<forall>j \<in> {1, 2}. lo \<le> min_at s' j \<and> min_at s' j \<le> hi)"
  using assms
proof (induction ks arbitrary: s rs)
  case (Cons k ks)
  define r rs' where "r = take 6 rs" and "rs' = drop 6 rs"
  have rs: "rs = r @ rs'" "length r = 6" "length rs' = 6 * length ks"
    using Cons.prems(3) by (simp_all add: r_def rs'_def)
  have w: "steps_within lo hi r" "steps_within lo hi rs'"
    using Cons.prems(4) unfolding rs(1) by (blast dest: steps_within_append)+
  obtain s1 where 1: "overhead_round scripted_clock k (s, r @ rs' @ w) = (s1, rs' @ w)" "profile_inv s1" "toc_overhead s1 = 0"
    "\<forall>j \<in> {1, 2}. lo \<le> min_at s1 j \<and> min_at s1 j \<le> hi \<and> lo \<le> min_at (update_diffs s1) j"
    using round_bounds [OF Cons.prems(1,2) rs(2) w(1) Cons.prems(7), of k "rs' @ w"] Cons.prems(5) by auto
  show ?case
  proof (cases "ks = []")
    case True
    then show ?thesis using 1 rs by auto
  next
    case False
    then show ?thesis using Cons.IH [OF 1(2,3) rs(3) w(2)] Cons.prems(5) 1 rs(1) by auto
  qed
qed simp

lemma estimate_bounds:
  assumes inv: "profile_inv s" and len: "length pre = 6000" and w: "steps_within lo hi pre" and lo: "lo \<le> INT64_MAX"
  shows "\<exists>s'. estimate_toc_overhead scripted_clock (s, pre @ w) = (s', w) \<and> profile_inv s'
    \<and> lo \<le> toc_overhead s' \<and> toc_overhead s' \<le> hi"
proof -
  define s0 where "s0 = (reset_diffs s)\<lparr>toc_overhead := 0\<rparr>"
  define r rs where "r = take 6 pre" and "rs = drop 6 pre"
  have pre: "pre = r @ rs" "length r = 6" "length rs = 6 * length [Suc 0..<1000]" using len by (simp_all add: r_def rs_def)
  have w': "steps_within lo hi r" "steps_within lo hi rs" using w unfolding pre(1) by (blast dest: steps_within_append)+
  have inv0: "profile_inv s0" "toc_overhead s0 = 0" unfolding s0_def using inv by (auto intro: profile_inv_intros)
  have "update_diffs s0 = s0" by (simp add: update_diffs_def s0_def reset_diffs_def)
  then have lo0: "\<forall>j \<in> {1, 2}. lo \<le> min_at (update_diffs s0) j"
    using lo inv by (auto simp: s0_def stat_at_def reset_diffs_def profile_inv_def)
  obtain s1 where 1: "overhead_round scripted_clock 0 (s0, r @ rs @ w) = (reset_diffs s1, rs @ w)" "profile_inv s1" "toc_overhead s1 = 0"
    using round_bounds [OF inv0 pre(2) w'(1) lo0, of 0 "rs @ w"] by auto
  have inv1: "profile_inv (reset_diffs s1)" "toc_overhead (reset_diffs s1) = 0"
    using 1(2,3) by (simp_all add: inv_reset_diffs, simp add: reset_diffs_def)
  have lo1: "\<forall>j \<in> {1, 2}. lo \<le> min_at (update_diffs (reset_diffs s1)) j"
    using lo 1(2) by (simp add: reset_stats)
  obtain s2 where 2: "fold (overhead_round scripted_clock) [Suc 0..<1000] (reset_diffs s1, rs @ w) = (s2, w)" "profile_inv s2"
    "\<forall>j \<in> {1, 2}. lo \<le> min_at s2 j \<and> min_at s2 j \<le> hi"
    using rounds_bounds [OF inv1 pre(3) w'(2) _ _ lo1, of w] by auto
  have "[0..<1000] = 0 # [Suc 0..<1000]" by (rule upt_conv_Cons) simp
  then have "estimate_toc_overhead scripted_clock (s, pre @ w) = (s2\<lparr>toc_overhead := min (min_diff_ts s2 ! 1) (min_diff_ts s2 ! 2)\<rparr>, w)"
    using 1(1) 2(1) pre(1) by (simp add: estimate_toc_overhead_def s0_def [symmetric])
  then show ?thesis using 2(2,3) by (auto simp: stat_at_def intro: inv_overhead)
qed

section \<open>Results of a measured program\<close>

lemma reset_effect:
  assumes inv: "profile_inv s" and len: "length pre = 6000" and st: "steps_within lo hi pre" and lo: "lo \<le> INT64_MAX"
  shows "\<exists>s0. mm_profile_reset scripted_clock flags (s, pre @ w) = (s0, w) \<and> profile_inv s0
    \<and> lo \<le> toc_overhead s0 \<and> toc_overhead s0 \<le> hi \<and> num_iter s0 = 0 \<and> num_ts s0 = 0 \<and> next_ts s0 = 0
    \<and> (\<forall>i < 16. \<exists>me. stat_at s0 i = (INT64_MAX, 0, 0, me) \<and> me_step me = STEP_NEED_INIT)"
proof -
  define c where "c = (if flags AND PROF_RESET_CPUCLOCK \<noteq> 0 then MM_CLK_CPU_PROCESS else MM_CLK_MONOTONIC)"
  obtain t where t: "estimate_toc_overhead scripted_clock (s\<lparr>clock_id := c\<rparr>, pre @ w) = (t, w)" "profile_inv t"
    "lo \<le> toc_overhead t" "toc_overhead t \<le> hi"
    using estimate_bounds [OF inv_clock [OF inv] len st lo] by blast
  define s0 where "s0 = fst (mm_profile_reset scripted_clock flags (s, pre @ w))"
  have s0: "mm_profile_reset scripted_clock flags (s, pre @ w) = (s0, w)"
    "s0 = (if flags AND PROF_RESET_KEEPLABEL \<noteq> 0 then reset_diffs t
           else (reset_diffs t)\<lparr>labels := Some 0 # map (\<lambda>_. None) (tl (labels (reset_diffs t)))\<rparr>)"
    using t(1) by (simp_all add: s0_def mm_profile_reset_def c_def [symmetric] Let_def)
  have "profile_inv s0" using inv_reset [of "(s, pre @ w)" scripted_clock flags] inv by (simp add: s0_def)
  moreover have "stat_at s0 = stat_at (reset_diffs t)" by (simp add: s0(2) stat_at_def fun_eq_iff)
  then have "\<forall>i < 16. \<exists>me. stat_at s0 i = (INT64_MAX, 0, 0, me) \<and> me_step me = STEP_NEED_INIT"
    using reset_stats [OF t(2)] by simp
  moreover have "toc_overhead s0 = toc_overhead t" "num_iter s0 = 0" "num_ts s0 = 0" "next_ts s0 = 0"
    by (simp_all add: s0(2) reset_diffs_def)
  ultimately show ?thesis using s0(1) t(3,4) by simp
qed

lemma fold_stat_add:
  "fold stat_add ds (mn, mx, sm, me) =
    (fold min ds mn, fold max ds mx, sm + sum_list ds, fold (\<lambda>d m. median_estimator_update m d) ds me)"
  by (induction ds arbitrary: mn mx sm me) simp_all

lemma those_Some: "those (map (\<lambda>i. Some (f i)) xs) = Some (map f xs)"
  by (induction xs) auto

lemma get_data_values:
  assumes "1 \<le> i" "i < num_ts s" "num_iter s \<noteq> 0"
  shows "mm_profile_get_data (int i - 1) PROF_MIN s = Some (min_diff_ts s ! i)"
    "mm_profile_get_data (int i - 1) PROF_MAX s = Some (max_diff_ts s ! i)"
    "mm_profile_get_data (int i - 1) PROF_MEDIAN s = Some (me_median (median_diff_ts s ! i))"
    "mm_profile_get_data (int i - 1) PROF_CURR s = Some (get_diff_ts i s)"
    "mm_profile_get_data (int i - 1) PROF_MEAN s =
      Some (dbl_trunc (dbl_div (dbl_of_int (sum_diff_ts s ! i)) (dbl_of_int (num_iter s))))"
proof -
  obtain k where k: "i = Suc k" using assms(1) by (cases i) auto
  then have n: "k < num_ts s - 1" "\<not> int (num_ts s) - 1 \<le> int k" using assms(2) by auto
  note defs = mm_profile_get_data_def compute_requested_timings_def column_def prof_flags mean_value_def
    median_estimator_getvalue_def those_Some k
  show "mm_profile_get_data (int i - 1) PROF_MIN s = Some (min_diff_ts s ! i)" using n by (simp add: defs)
  show "mm_profile_get_data (int i - 1) PROF_MAX s = Some (max_diff_ts s ! i)" using n by (simp add: defs)
  show "mm_profile_get_data (int i - 1) PROF_MEDIAN s = Some (me_median (median_diff_ts s ! i))" using n by (simp add: defs)
  show "mm_profile_get_data (int i - 1) PROF_CURR s = Some (get_diff_ts i s)" using n by (simp add: defs)
  show "mm_profile_get_data (int i - 1) PROF_MEAN s =
      Some (dbl_trunc (dbl_div (dbl_of_int (sum_diff_ts s ! i)) (dbl_of_int (num_iter s))))"
    using n assms(3) by (simp add: defs)
qed

lemma fold_max_length: "b \<in> set bs \<Longrightarrow> length b \<le> fold max (map length bs) (n :: nat)"
proof -
  have "fold max (map length bs) n = Max (set (n # map length bs))" by (rule Max.set_eq_fold [symmetric])
  then show "b \<in> set bs \<Longrightarrow> length b \<le> fold max (map length bs) n" by simp
qed

text \<open>
  C17. A program that resets the profile and then runs a number of iterations, each with a call of \<open>mm_tic\<close> and some calls of
  \<open>mm_toc\<close>, and then prints the table, is told of every measure point that all iterations reached: the smallest of the
  differences between the two times around it, less the overhead, the largest one (or 0 when all are negative),
  and their mean, the exact sum divided by the number of the iterations and cut to an integer, while the sum stays below
  \<open>2 ^ 53\<close> nanoseconds. The overhead lies between the shortest and the longest distance of two readings during the reset.
\<close>

theorem profile_statistics:
  assumes inv: "profile_inv s"
    and pre: "length pre = 6000" "steps_within lo hi pre" "lo \<le> INT64_MAX"
    and bs: "bs \<noteq> []" "\<forall>b \<in> set bs. i < length b \<and> length b \<le> 15" "1 \<le> i" "int (length bs) \<le> INT_MAX"
    and reset: "mm_profile_reset scripted_clock flags (s, pre @ concat bs @ w) = (s0, w0)"
    and run: "iterations (map (\<lambda>b. length b - 1) bs) (s0, w0) = (s1, w1)"
    and print: "mm_profile_print wr m (s1, v) = Some (rc, s2, v')"
    and ds: "ds = point_diffs (toc_overhead s0) i bs" "\<forall>d \<in> set ds. d \<le> INT64_MAX" "\<bar>sum_list ds\<bar> < 2 ^ 53"
  shows "length ds = length bs \<and> lo \<le> toc_overhead s0 \<and> toc_overhead s0 \<le> hi
    \<and> mm_profile_get_data (int i - 1) PROF_MIN s2 = Some (Min (set ds))
    \<and> mm_profile_get_data (int i - 1) PROF_MAX s2 = Some (Max (insert 0 (set ds)))
    \<and> mm_profile_get_data (int i - 1) PROF_MEAN s2 = Some (sum_list ds sdiv int (length bs))"
proof -
  have s0: "profile_inv s0" "lo \<le> toc_overhead s0" "toc_overhead s0 \<le> hi" "num_iter s0 = 0" "next_ts s0 = 0" "w0 = concat bs @ w"
    "\<forall>i < 16. \<exists>me. stat_at s0 i = (INT64_MAX, 0, 0, me) \<and> me_step me = STEP_NEED_INIT"
    using reset_effect [OF inv pre, of flags "concat bs @ w"] reset by auto
  have i: "i < 16" using bs(1,2) by (cases bs) auto
  have "\<forall>b \<in> set bs. b \<noteq> [] \<and> length b \<le> 15" using bs(2) by auto
  from iterations_effect [OF s0(1) this, of w]
  have s1: "profile_inv s1" "num_iter s1 = int (length bs)" "num_ts s1 = fold max (map length bs) (num_ts s0)"
    "stat_at (update_diffs s1) i = fold stat_add ds (stat_at (update_diffs s0) i)"
    using run s0(4,6) ds(1) bs(3) i by auto
  have s2: "s2 = update_diffs s1" using print_updates [OF print] by simp
  have "update_diffs s0 = s0" using s0(5) by (simp add: update_diffs_def)
  then obtain me where me: "stat_at s2 i = fold stat_add ds (INT64_MAX, 0, 0, me)" using s0(7) i s1(4) s2 by auto
  have len: "length ds = length bs" using bs(2) by (simp add: ds(1) point_diffs_def)
  then have ne: "ds \<noteq> []" using bs(1) by auto
  have "fold min ds INT64_MAX = Min (insert INT64_MAX (set ds))" using Min.set_eq_fold [of INT64_MAX ds] by simp
  moreover have "Min (set ds) \<le> INT64_MAX" using ne ds(2) Min_in [of "set ds"] by simp
  then have "Min (insert INT64_MAX (set ds)) = Min (set ds)" using ne by simp
  ultimately have mn: "min_diff_ts s2 ! i = Min (set ds)" using me by (simp add: stat_at_def fold_stat_add)
  have mx: "max_diff_ts s2 ! i = Max (insert 0 (set ds))"
    using me Max.set_eq_fold [of 0 ds] by (simp add: stat_at_def fold_stat_add)
  have sm: "sum_diff_ts s2 ! i = sum_list ds" using me by (simp add: stat_at_def fold_stat_add)
  obtain b where "b \<in> set bs" using bs(1) by (cases bs) auto
  then have "i < num_ts s2" using bs(2) fold_max_length [of b bs "num_ts s0"] s1(3) by (fastforce simp: s2)
  note get = get_data_values [OF bs(3) this]
  have ni: "num_iter s2 = int (length bs)" "0 < int (length bs)" using s1(2) bs(1) by (simp_all add: s2)
  have "dbl_trunc (dbl_div (dbl_of_int (sum_list ds)) (dbl_of_int (int (length bs)))) = sum_list ds sdiv int (length bs)"
    by (rule dbl_quotient [OF ds(3) ni(2)]) (use bs(4) in \<open>simp add: INT_MAX_def\<close>)
  then show ?thesis using get s0(2,3) len mn mx sm ni by simp
qed

section \<open>The printed table\<close>

lemma length_pad_left [simp]: "length (pad_left w t) = max w (length t)"
  by (simp add: pad_left_def)

lemma length_column [simp]: "length (column n f) = n"
  by (simp add: column_def)

lemma those_column: "those (column n (\<lambda>i. Some (f i))) = Some (column n f)"
  by (simp add: column_def those_Some)

lemma requested_timings_Some:
  assumes "num_iter s \<noteq> 0"
  shows "\<exists>dat. compute_requested_timings m n s = Some dat \<and> length dat = num_columns m * n"
  using assms by (simp add: compute_requested_timings_def mean_value_def those_column num_columns_def)

lemma num_columns_le: "num_columns m \<le> NUM_COL_MAX"
  unfolding num_columns_def NUM_COL_MAX_def
  by (rule order_trans [OF length_filter_le]) simp

text \<open>A label ends within its slot.\<close>

lemma label_string_length:
  assumes "profile_inv s" "i < 16" "labels s ! i = Some off"
  shows "length (label_string off s) \<le> 63"
proof (rule ccontr)
  assume "\<not> ?thesis"
  then have n: "63 < length (label_string off s)" by simp
  have off: "off = 64 * i" "label_storage s ! (64 * i + 63) = NUL" "length (label_storage s) = 1024"
    using assms by (auto simp: profile_inv_def)
  have "label_string off s ! 63 = label_storage s ! (64 * i + 63)"
    using n off assms(2) unfolding label_string_def by (subst takeWhile_nth) auto
  moreover have "label_string off s ! 63 \<noteq> NUL"
    using nth_mem [OF n] by (auto simp: label_string_def dest: set_takeWhileD)
  ultimately show False using off by simp
qed

lemma max_label_len_le: "max_label_len s \<le> 63"
  by (simp add: max_label_len_def Let_def MAX_LABEL_LEN_def)

lemma header_line_fits: "length (format_header_line m (max_label_len s)) < 512"
  using max_label_len_le [of s]
  by (simp add: format_header_line_def header_column_def Let_def VALUESTR_LEN_def UNITSTR_LEN_def)

lemma display_unit_range: "get_display_unit a b dat m < NUM_UNIT"
  by (auto simp: get_display_unit_def forced_unit_def suitable_unit_def Let_def NUM_UNIT_def unit_list_def find_Some_iff
      split: option.splits)

lemma unit_scale_range:
  "k < NUM_UNIT \<Longrightarrow> 0 < u_scale (unit_list ! k) \<and> u_scale (unit_list ! k) < 2 ^ 53 \<and> length (u_name (unit_list ! k)) \<le> 2"
  by (auto simp: NUM_UNIT_def unit_list_def less_Suc_eq)

lemma length_concat_le: "(\<And>x. x \<in> set xs \<Longrightarrow> length (f x) \<le> c) \<Longrightarrow> length (concat (map f xs)) \<le> length xs * c"
  by (induction xs) (auto intro: add_mono)

lemma result_line_fits:
  assumes inv: "profile_inv s" and v: "v < num_ts s - 1" and u: "u < NUM_UNIT" and nc: "ncol \<le> 5"
    and dat: "length dat = ncol * (num_ts s - 1)" "\<forall>x \<in> set dat. in_i64 x"
  shows "length (format_result_line ncol (num_ts s - 1) v u (max_label_len s) dat s) < 512"
proof -
  let ?np = "num_ts s - 1"
  let ?col = "\<lambda>i. pad_left VALUESTR_LEN (dbl_fixed2 (dbl_div (dbl_of_int (dat ! (i * ?np + v))) (dbl_of_int (u_scale (unit_list ! u)))))
    @ '' '' @ pad_left UNITSTR_LEN (u_name (unit_list ! u)) @ '' |''"
  have v16: "v + 1 < 16" using v inv by (auto simp: profile_inv_def)
  have "length (?col i) \<le> 29" if "i \<in> set [0..<ncol]" for i
  proof -
    have "i * ?np + v < (i + 1) * ?np" using v by simp
    also have "\<dots> \<le> ncol * ?np" using that by (intro mult_le_mono1) auto
    finally have "in_i64 (dat ! (i * ?np + v))" using dat by (metis nth_mem)
    from length_dbl_div_fixed2 [OF this] unit_scale_range [OF u]
    show ?thesis by (simp add: VALUESTR_LEN_def UNITSTR_LEN_def)
  qed
  from length_concat_le [OF this] have "length (concat (map ?col [0..<ncol])) \<le> 145" using nc by fastforce
  moreover have "length (case labels s ! (v + 1) of
            Some off \<Rightarrow> pad_left (max_label_len s) (label_string off s) @ '' |''
          | None \<Rightarrow> pad_left (max_label_len s) (dec_nat (v + 1)) @ '' |'') \<le> 65"
    using max_label_len_le [of s] label_string_length [OF inv v16] length_dec_nat [of "v + 1" 1] v16
    by (auto split: option.splits)
  ultimately show ?thesis by (simp add: format_result_line_def Let_def)
qed

lemma overhead_line_fits: "in_i64 (toc_overhead s) \<Longrightarrow> length (overhead_line s) < 512"
proof -
  assume "in_i64 (toc_overhead s)"
  then have "nat \<bar>toc_overhead s\<bar> < 10 ^ Suc 18" unfolding in_i64_def by (simp add: nat_less_iff abs_if)
  from length_dec_nat [OF this] show ?thesis by (auto simp: overhead_line_def dec_int_def)
qed

lemma print_lines_ok:
  assumes "writes_to wr (\<lambda>_. []) out"
  shows "\<exists>w'. print_lines wr ls w = Some (None, w') \<and> out w' = out w @ concat ls"
proof (induction ls arbitrary: w)
  case (Cons l ls)
  obtain w1 where w1: "write_all wr l w = Some (None, w1)" "out w1 = out w @ l"
    using write_all_ok [OF assms] by blast
  obtain w2 where "print_lines wr ls w1 = Some (None, w2)" "out w2 = out w1 @ concat ls" using Cons.IH by blast
  then show ?case using w1 by auto
qed simp

text \<open>
  From the start of the program on, whatever calls were made before, printing the table of a program that has begun an
  iteration succeeds on a file that takes what is written: a header, one line per measure point and the
  overhead are written in this order. The results fit the array of \<open>NUM_COL_MAX * NUM_TS_MAX\<close> values, and every line fits the
  512 bytes of its buffer with its terminating NUL, however long the labels, if the values are 64 bit integers.
\<close>

theorem profile_print_fits:
  assumes reach: "prof_reach gt wr (s, w)" and iter: "num_iter s \<noteq> 0" and wr: "writes_to wr (\<lambda>_. []) out"
    and dat: "compute_requested_timings m (num_ts s - 1) (update_diffs s) = Some dat"
    and range: "\<forall>x \<in> set dat. in_i64 x" "in_i64 (toc_overhead s)"
  shows "length dat \<le> NUM_COL_MAX * NUM_TS_MAX \<and> (\<exists>ls w'. mm_profile_print wr m (s, w) = Some (0, update_diffs s, w')
    \<and> out w' = out w @ concat ls \<and> length ls = num_ts s + 1 \<and> (\<forall>l \<in> set ls. length l < 512))"
proof -
  define t where "t = update_diffs s"
  have inv: "profile_inv t" using prof_reach_inv [OF reach] by (simp add: t_def inv_update_diffs)
  have t: "num_ts t = num_ts s" "toc_overhead t = toc_overhead s" "num_iter t = num_iter s" by (simp_all add: t_def)
  have len: "length dat = num_columns m * (num_ts s - 1)"
    using requested_timings_Some [of t m "num_ts s - 1"] dat iter t by (simp add: t_def)
  have "num_ts s \<le> 15" using inv t by (simp add: profile_inv_def)
  then have "length dat \<le> NUM_COL_MAX * NUM_TS_MAX"
    unfolding len by (intro mult_le_mono num_columns_le) (simp add: NUM_TS_MAX_def)
  define u where "u = get_display_unit (num_columns m) (num_ts s - 1) dat m"
  define ls where "ls = map (\<lambda>i. if i = 0 then format_header_line m (max_label_len t)
    else format_result_line (num_columns m) (num_ts s - 1) (i - 1) u (max_label_len t) dat t) [0..<num_ts s] @ [overhead_line t]"
  have "profile_lines m t = Some ls" using dat by (simp add: profile_lines_def t t_def [symmetric] Let_def u_def ls_def)
  moreover obtain w' where "print_lines wr ls w = Some (None, w')" "out w' = out w @ concat ls"
    using print_lines_ok [OF wr] by blast
  ultimately have "mm_profile_print wr m (s, w) = Some (0, t, w')" by (simp add: mm_profile_print_def t_def [symmetric])
  moreover have "\<forall>l \<in> set ls. length l < 512"
    using header_line_fits overhead_line_fits [of t] result_line_fits [OF inv, of _ u "num_columns m" dat]
      num_columns_le [of m] len range t display_unit_range
    by (auto simp: ls_def u_def NUM_COL_MAX_def)
  moreover have "length ls = num_ts s + 1" by (simp add: ls_def)
  ultimately show ?thesis using \<open>length dat \<le> _\<close> \<open>out w' = _\<close> unfolding t_def by blast
qed

theorem profile_print_fits_witness:
  "\<exists>s dat ls w'. mm_toc (\<lambda>c w. (\<lparr>tv_sec = 0, tv_nsec = 5\<rparr>, w))
        (mm_tic (\<lambda>c w. (\<lparr>tv_sec = 0, tv_nsec = 5\<rparr>, w)) (profile_startup, [])) = (s, [] :: string)
    \<and> compute_requested_timings 0x17 1 (update_diffs s) = Some dat \<and> length dat \<le> NUM_COL_MAX * NUM_TS_MAX
    \<and> mm_profile_print (\<lambda>buf w. (Inr (length buf) :: nat + nat, w @ buf)) 0x17 (s, []) = Some (0, update_diffs s, w')
    \<and> w' = concat ls \<and> length ls = 3 \<and> list_all (\<lambda>l. length l < 512) ls"
proof -
  let ?gt = "\<lambda>c w :: string. (\<lparr>tv_sec = 0, tv_nsec = 5\<rparr> :: mm_timespec, w)"
  let ?wr = "\<lambda>buf w. (Inr (length buf) :: nat + nat, w @ buf)"
  define s where "s = fst (mm_toc ?gt (mm_tic ?gt (profile_startup, [])))"
  have x: "mm_toc ?gt (mm_tic ?gt (profile_startup, [])) = (s, [])"
    by (simp add: s_def mm_toc_def mm_tic_def local_toc_def Let_def)
  have "prof_reach ?gt ?wr (mm_toc ?gt (mm_tic ?gt (profile_startup, [])))" by (intro prof_reach.intros)
  then have r: "prof_reach ?gt ?wr (s, [])" unfolding x .
  have n: "num_iter s \<noteq> 0" "num_ts s = 2" "toc_overhead s = 0" unfolding s_def by code_simp+
  have d: "compute_requested_timings 0x17 1 (update_diffs s) = Some [0, 0, 0, 0]" unfolding s_def by code_simp
  then have d': "compute_requested_timings 0x17 (num_ts s - 1) (update_diffs s) = Some [0, 0, 0, 0]" by (simp add: n)
  have wr: "writes_to ?wr (\<lambda>_. []) id" by (auto simp: writes_to_def intro!: exI [of _ "length _"])
  have i: "\<forall>x \<in> set [0, 0, 0, 0 :: int]. in_i64 x" "in_i64 (toc_overhead s)" by (simp_all add: n in_i64_def)
  obtain ls w' where "length [0, 0, 0, 0 :: int] \<le> NUM_COL_MAX * NUM_TS_MAX"
    "mm_profile_print ?wr 0x17 (s, []) = Some (0, update_diffs s, w')" "id w' = id [] @ concat ls" "length ls = num_ts s + 1"
    "\<forall>l \<in> set ls. length l < 512"
    using profile_print_fits [OF r n(1) wr d' i] by blast
  then show ?thesis using x d n(2)
    by (intro exI [of _ s] exI [of _ "[0, 0, 0, 0]"] exI [of _ ls] exI [of _ w']) (simp add: list_all_iff)
qed

text \<open>Two iterations of 100 and 300 nanoseconds, measured with a clock that stands still during the reset.\<close>

theorem profile_statistics_witness:
  "\<exists>s0 s1 s2.
     mm_profile_reset scripted_clock 0
       (profile_startup, replicate 6000 \<lparr>tv_sec = 0, tv_nsec = 0\<rparr> @
          [\<lparr>tv_sec = 1, tv_nsec = 0\<rparr>, \<lparr>tv_sec = 1, tv_nsec = 100\<rparr>, \<lparr>tv_sec = 2, tv_nsec = 0\<rparr>, \<lparr>tv_sec = 2, tv_nsec = 300\<rparr>])
     = (s0, [\<lparr>tv_sec = 1, tv_nsec = 0\<rparr>, \<lparr>tv_sec = 1, tv_nsec = 100\<rparr>, \<lparr>tv_sec = 2, tv_nsec = 0\<rparr>, \<lparr>tv_sec = 2, tv_nsec = 300\<rparr>])
   \<and> iterations [1, 1]
       (s0, [\<lparr>tv_sec = 1, tv_nsec = 0\<rparr>, \<lparr>tv_sec = 1, tv_nsec = 100\<rparr>, \<lparr>tv_sec = 2, tv_nsec = 0\<rparr>, \<lparr>tv_sec = 2, tv_nsec = 300\<rparr>])
     = (s1, [])
   \<and> mm_profile_print (\<lambda>buf w. (Inr (length buf) :: nat + nat, w @ buf)) 8 (s1, []) = Some (0, s2, concat (the (profile_lines 8 s2)))
   \<and> toc_overhead s0 = 0
   \<and> mm_profile_get_data 0 PROF_MIN s2 = Some 100 \<and> mm_profile_get_data 0 PROF_MAX s2 = Some 300
   \<and> mm_profile_get_data 0 PROF_MEAN s2 = Some 200"
proof -
  let ?pre = "replicate 6000 \<lparr>tv_sec = 0, tv_nsec = 0\<rparr>"
  let ?bs = "[[\<lparr>tv_sec = 1, tv_nsec = 0\<rparr>, \<lparr>tv_sec = 1, tv_nsec = 100\<rparr>], [\<lparr>tv_sec = 2, tv_nsec = 0\<rparr>, \<lparr>tv_sec = 2, tv_nsec = 300\<rparr>]]"
  let ?wr = "\<lambda>buf w. (Inr (length buf) :: nat + nat, w @ buf)"
  have pre: "length ?pre = 6000" "steps_within 0 0 ?pre" "0 \<le> INT64_MAX"
    by (simp_all add: steps_within_def mm_timediff_ns_def INT64_MAX_def)
  have bs: "?bs \<noteq> []" "\<forall>b \<in> set ?bs. 1 < length b \<and> length b \<le> 15" "1 \<le> (1 :: nat)" "int (length ?bs) \<le> INT_MAX"
    by (simp_all add: INT_MAX_def)
  obtain s0 where s0: "mm_profile_reset scripted_clock 0 (profile_startup, ?pre @ concat ?bs @ []) = (s0, concat ?bs)"
    "profile_inv s0" "toc_overhead s0 = 0" "num_iter s0 = 0"
    using reset_effect [OF inv_startup pre, of 0 "concat ?bs"] by auto
  obtain s1 where s1: "iterations (map (\<lambda>b. length b - 1) ?bs) (s0, concat ?bs) = (s1, [])" "num_iter s1 = 2"
    using iterations_effect [OF s0(2), of ?bs "[]"] s0(4) by auto
  have wr: "writes_to ?wr (\<lambda>_. []) id" by (auto simp: writes_to_def intro!: exI [of _ "length _"])
  obtain dat where dat: "compute_requested_timings 8 (num_ts s1 - 1) (update_diffs s1) = Some dat"
    using requested_timings_Some [of "update_diffs s1" 8] s1(2) by auto
  then obtain ls where ls: "profile_lines 8 (update_diffs s1) = Some ls" by (auto simp: profile_lines_def Let_def)
  obtain v where v: "print_lines ?wr ls [] = Some (None, v)" "id v = id [] @ concat ls"
    using print_lines_ok [OF wr, of ls "[]"] by blast
  have print: "mm_profile_print ?wr 8 (s1, []) = Some (0, update_diffs s1, concat ls)"
    using ls v by (simp add: mm_profile_print_def)
  have ds: "[100, 300] = point_diffs (toc_overhead s0) 1 ?bs" "\<forall>d \<in> set [100, 300]. d \<le> INT64_MAX" "\<bar>sum_list [100, 300 :: int]\<bar> < 2 ^ 53"
    by (simp_all add: s0(3) point_diffs_def block_diff_def mm_timediff_ns_def NS_IN_SEC_def INT64_MAX_def)
  have "(400 :: int) sdiv 2 = 200" by code_simp
  then show ?thesis
    using profile_statistics [OF inv_startup pre bs s0(1) s1(1) print ds] s0 s1(1) print ls
    by (intro exI [of _ s0] exI [of _ s1] exI [of _ "update_diffs s1"]) simp
qed

section \<open>What the statistics miss\<close>

text \<open>
  \<open>mm_profile_print\<close> counts the current iteration each time it is called, and the next \<open>mm_tic\<close> counts it once more; the
  number of iterations by which the mean is divided does not change.
\<close>

lemma print_counts_again:
  assumes "profile_inv s" "1 \<le> i" "i < next_ts s"
  shows "stat_at (update_diffs (update_diffs s)) i = stat_add (get_diff_ts i s) (stat_add (get_diff_ts i s) (stat_at s i))"
    "num_iter (update_diffs (update_diffs s)) = num_iter s"
proof -
  have "i < 16" "get_diff_ts i (update_diffs s) = get_diff_ts i s"
    using assms by (auto simp: profile_inv_def get_diff_timediff)
  then show "stat_at (update_diffs (update_diffs s)) i = stat_add (get_diff_ts i s) (stat_add (get_diff_ts i s) (stat_at s i))"
    using assms by (simp add: stat_at_update_diffs inv_update_diffs)
qed simp

text \<open>
  \<open>mm_profile_get_data\<close> does not count the current iteration at all: after one iteration the smallest difference is
  still \<open>INT64_MAX\<close>.
\<close>

lemma get_data_first_iteration:
  assumes inv: "profile_inv s" "next_ts s = 0" "num_iter s = 0" "stat_at s i = (INT64_MAX, 0, 0, me)"
    and b: "1 \<le> i" "i < length b" "length b \<le> 15" and run: "iteration (length b - 1) (s, b @ w) = (s', w)"
  shows "mm_profile_get_data (int i - 1) PROF_MIN s' = Some INT64_MAX"
proof -
  have "b \<noteq> []" using b by auto
  from iteration_effect [OF inv(1) this b(3), of w] run
  have s': "num_ts s' = max (num_ts s) (length b)" "num_iter s' = 1" "stat_at s' i = stat_at (update_diffs s) i"
    using inv(3) by auto
  have "update_diffs s = s" using inv(2) by (simp add: update_diffs_def)
  then have "min_diff_ts s' ! i = INT64_MAX" using s'(3) inv(4) by (simp add: stat_at_def)
  then show ?thesis using get_data_values(1) [of i s'] b s' by simp
qed

text \<open>
  A program that never calls \<open>mm_profile_reset\<close> measures with the clock 0, the real time, and not the processor time; its
  minima are 0 at most, since the table of minima starts with zeros.
\<close>

lemma startup_defaults:
  assumes "i < 16"
  shows "clock_id profile_startup \<noteq> MM_CLK_CPU_PROCESS" "fst (fold stat_add ds (stat_at profile_startup i)) \<le> 0"
proof -
  show "clock_id profile_startup \<noteq> MM_CLK_CPU_PROCESS" by (simp add: profile_startup_def MM_CLK_CPU_PROCESS_def)
  have "fold min ds a \<le> a" for a :: int
    using Min.set_eq_fold [of a ds] Min_le [of "set (a # ds)" a] by simp
  then show "fst (fold stat_add ds (stat_at profile_startup i)) \<le> 0"
    using assms by (simp add: stat_at_def profile_startup_def fold_stat_add NUM_TS_MAX_def)
qed

text \<open>The estimated median can leave the range of the data: it moves by a second at first.\<close>

lemma median_overshoots:
  "me_median (median_estimator_update (median_estimator_update (median_estimator_init me) 100) 200) = 1000000100"
  by (simp add: median_estimator_update_def median_estimator_init_def STEP_NEED_INIT_def INT64_MAX_def SEC_IN_NSEC_def
      signed_divide_int_def)

lemma get_data_negative: "0 < num_iter s \<Longrightarrow> 0 < num_ts s \<Longrightarrow> mm_profile_get_data (-1) PROF_MIN s = None"
  by (simp add: mm_profile_get_data_def compute_requested_timings_def prof_flags)

text \<open>Two calls of \<open>mm_toc\<close> without any \<open>mm_tic\<close> leave a mean that divides by zero.\<close>

lemma those_None: "None \<in> set xs \<Longrightarrow> those xs = None"
  by (induction xs) (auto split: option.splits)

lemma mean_without_tic:
  assumes "num_iter s = 0" "2 \<le> num_ts s" "m AND PROF_MEAN \<noteq> 0"
  shows "compute_requested_timings m (num_ts s - 1) s = None"
proof -
  have "None \<in> set (column (num_ts s - 1) (\<lambda>i. mean_value (sum_diff_ts s ! i) (num_iter s)))"
    using assms(1,2) by (auto simp: column_def mean_value_def image_iff intro!: exI [of _ 0])
  then have "those (column (num_ts s - 1) (\<lambda>i. mean_value (sum_diff_ts s ! i) (num_iter s))) = None"
    by (rule those_None)
  then show ?thesis using assms(3) by (simp add: compute_requested_timings_def)
qed

end
