(* ===== verification/Registry.thy ===== *)
theory Registry
  imports Prelude
begin

text \<open>
  Two tables of the library that grow on demand: the children of the process in
  \<^verbatim>\<open>src/src/process-win32.c\<close> (process identifier to handle) and the memory mappings in
  \<^verbatim>\<open>src/src/shm-posix.c\<close> (address to length). Both keep an allocated array with a used prefix, append at its end and
  close the gap of a removed entry with \<open>memmove\<close>. What they promise is one interface, a registry, whose
  lemmas both use; \<open>mm_mapfile\<close> and \<open>mm_unmap\<close> rely on it.
\<close>

section \<open>Arrays of the C program\<close>

text \<open>
  \<open>memmove\<close> within an array, in elements, and \<open>realloc\<close>: a request for \<open>n\<close> elements succeeds if \<open>ok n\<close>; the block has
  the old content as far as it fits, and what is behind is undetermined (\<open>junk\<close>).
\<close>

definition memmove :: "nat \<Rightarrow> nat \<Rightarrow> nat \<Rightarrow> 'a list \<Rightarrow> 'a list" where
  "memmove dst src n xs = take dst xs @ take n (drop src xs) @ drop (dst + n) xs"

definition realloc :: "(nat \<Rightarrow> bool) \<Rightarrow> (nat \<Rightarrow> 'a) \<Rightarrow> nat \<Rightarrow> 'a list \<Rightarrow> 'a list option" where
  "realloc ok junk n xs = (if ok n then Some (take n xs @ map junk [length xs..<n]) else None)"

text \<open>The loops that search the used prefix stop at the first index that matches.\<close>

definition first_index :: "('a \<Rightarrow> bool) \<Rightarrow> nat \<Rightarrow> 'a list \<Rightarrow> nat option" where
  "first_index P n xs = find (\<lambda>i. P (xs ! i)) [0..<n]"

section \<open>The children of the process\<close>

record child_entry =
  ce_pid :: int
  ce_hnd :: nat

record children_list =
  num_child :: nat
  cl_num_max :: nat
  cl_entries :: "child_entry list"

definition children_empty :: children_list where
  "children_empty = \<lparr>num_child = 0, cl_num_max = 0, cl_entries = []\<rparr>"

definition add_to_children_list ::
  "(nat \<Rightarrow> bool) \<Rightarrow> (nat \<Rightarrow> child_entry) \<Rightarrow> int \<Rightarrow> nat \<Rightarrow> children_list \<Rightarrow> bool \<times> children_list" where
  "add_to_children_list ok junk pid hnd l =
     (let register = (\<lambda>l. l\<lparr>cl_entries := (cl_entries l)[num_child l := \<lparr>ce_pid = pid, ce_hnd = hnd\<rparr>],
                            num_child := num_child l + 1\<rparr>)
      in if cl_num_max l \<le> num_child l
         then let nmax = (if cl_num_max l \<noteq> 0 then cl_num_max l * 2 else 16)
              in case realloc ok junk nmax (cl_entries l) of
                   None \<Rightarrow> (False, l)
                 | Some entries \<Rightarrow> (True, register (l\<lparr>cl_entries := entries, cl_num_max := nmax\<rparr>))
         else (True, register l))"

definition get_handle_from_children_list :: "int \<Rightarrow> children_list \<Rightarrow> nat option" where
  "get_handle_from_children_list pid l =
     map_option (\<lambda>i. ce_hnd (cl_entries l ! i)) (first_index (\<lambda>e. ce_pid e = pid) (num_child l) (cl_entries l))"

text \<open>\<open>mm_check\<close> ends the program when the child is not in the list: \<open>None\<close>.\<close>

definition drop_child_from_children_list :: "int \<Rightarrow> children_list \<Rightarrow> children_list option" where
  "drop_child_from_children_list pid l =
     map_option (\<lambda>i. l\<lparr>cl_entries := memmove i (i + 1) (num_child l - i - 1) (cl_entries l), num_child := num_child l - 1\<rparr>)
       (first_index (\<lambda>e. ce_pid e = pid) (num_child l) (cl_entries l))"

section \<open>The memory mappings\<close>

definition MIN_NUM_ENTRIES :: nat where "MIN_NUM_ENTRIES = 64"

record map_entry =
  me_ptr :: nat
  me_len :: nat

record mapping_list =
  ml_entries :: "map_entry list"
  num_entries :: nat
  num_max_entries :: nat

definition mapping_list_cleanup :: "mapping_list \<Rightarrow> mapping_list" where
  "mapping_list_cleanup l = \<lparr>ml_entries = [], num_entries = 0, num_max_entries = 0\<rparr>"

definition mapping_list_add_entry ::
  "(nat \<Rightarrow> bool) \<Rightarrow> (nat \<Rightarrow> map_entry) \<Rightarrow> nat \<Rightarrow> nat \<Rightarrow> mapping_list \<Rightarrow> bool \<times> mapping_list" where
  "mapping_list_add_entry ok junk ptr len l =
     (let register = (\<lambda>l. l\<lparr>ml_entries := (ml_entries l)[num_entries l := \<lparr>me_ptr = ptr, me_len = len\<rparr>],
                            num_entries := num_entries l + 1\<rparr>)
      in if num_max_entries l \<le> num_entries l
         then let num_max = (if num_max_entries l < MIN_NUM_ENTRIES then MIN_NUM_ENTRIES else num_max_entries l * 2)
              in case realloc ok junk num_max (ml_entries l) of
                   None \<Rightarrow> (False, l)
                 | Some entries \<Rightarrow> (True, register (l\<lparr>ml_entries := entries, num_max_entries := num_max\<rparr>))
         else (True, register l))"

definition mapping_list_remove_entry :: "nat \<Rightarrow> mapping_list \<Rightarrow> nat option \<times> mapping_list" where
  "mapping_list_remove_entry ptr l =
     (case first_index (\<lambda>e. me_ptr e = ptr) (num_entries l) (ml_entries l) of
        None \<Rightarrow> (None, l)
      | Some i \<Rightarrow>
          (Some (me_len (ml_entries l ! i)),
           l\<lparr>ml_entries := memmove i (i + 1) (num_entries l - i - 1) (ml_entries l), num_entries := num_entries l - 1\<rparr>))"

text \<open>
  \<open>mm_mapfile\<close> and \<open>mm_unmap\<close>: \<open>mmap\<close> and \<open>munmap\<close> of the system act on a world \<open>'w\<close>. The errors of the system are passed on;
  \<open>EFAULT\<close> is raised for an address that is not registered.
\<close>

definition PROT_READ :: int where "PROT_READ = 1"
definition PROT_WRITE :: int where "PROT_WRITE = 2"
definition PROT_EXEC :: int where "PROT_EXEC = 4"
definition MAP_SHARED :: int where "MAP_SHARED = 1"
definition MAP_PRIVATE :: int where "MAP_PRIVATE = 2"
definition MM_MAP_READ :: int where "MM_MAP_READ = 0x00000001"
definition MM_MAP_WRITE :: int where "MM_MAP_WRITE = 0x00000002"
definition MM_MAP_EXEC :: int where "MM_MAP_EXEC = 0x00000004"
definition MM_MAP_SHARED :: int where "MM_MAP_SHARED = 0x00000008"

definition get_mmap_prot :: "int \<Rightarrow> int" where
  "get_mmap_prot mflags =
     (let prot = 0;
          prot = (if and mflags MM_MAP_READ \<noteq> 0 then or prot PROT_READ else prot);
          prot = (if and mflags MM_MAP_WRITE \<noteq> 0 then or prot PROT_WRITE else prot)
      in if and mflags MM_MAP_EXEC \<noteq> 0 then or prot PROT_EXEC else prot)"

definition get_mmap_flags :: "int \<Rightarrow> int" where
  "get_mmap_flags mflags = (if and mflags MM_MAP_SHARED \<noteq> 0 then MAP_SHARED else MAP_PRIVATE)"

record 'w mmap_sys =
  sys_mmap :: "nat \<Rightarrow> int \<Rightarrow> int \<Rightarrow> int \<Rightarrow> int \<Rightarrow> 'w \<Rightarrow> (errcode + nat) \<times> 'w"
  sys_munmap :: "nat \<Rightarrow> nat \<Rightarrow> 'w \<Rightarrow> retcode \<times> 'w"

definition mm_mapfile ::
  "'w mmap_sys \<Rightarrow> (nat \<Rightarrow> bool) \<Rightarrow> (nat \<Rightarrow> map_entry) \<Rightarrow> int \<Rightarrow> int \<Rightarrow> nat \<Rightarrow> int \<Rightarrow>
   mapping_list \<times> 'w \<Rightarrow> (errcode + nat) \<times> mapping_list \<times> 'w" where
  "mm_mapfile sys ok junk fd offset len mflags = (\<lambda>(l, w).
     case sys_mmap sys len (get_mmap_prot mflags) (get_mmap_flags mflags) fd offset w of
       (Inl e, w) \<Rightarrow> (Inl e, l, w)
     | (Inr addr, w) \<Rightarrow>
         (case mapping_list_add_entry ok junk addr len l of
            (False, l) \<Rightarrow> (Inl ENOMEM, l, snd (sys_munmap sys addr len w))
          | (True, l) \<Rightarrow> (Inr addr, l, w)))"

definition mm_unmap :: "'w mmap_sys \<Rightarrow> nat \<Rightarrow> mapping_list \<times> 'w \<Rightarrow> retcode \<times> mapping_list \<times> 'w" where
  "mm_unmap sys addr = (\<lambda>(l, w).
     if addr = 0 then (None, l, w)
     else case mapping_list_remove_entry addr l of
            (None, l) \<Rightarrow> (Some EFAULT, l, w)
          | (Some len, l) \<Rightarrow>
              let (rv, w) = sys_munmap sys addr len w in (rv, l, w))"

section \<open>The interface\<close>

primrec drop_first :: "'k \<Rightarrow> ('k \<times> 'v) list \<Rightarrow> ('k \<times> 'v) list" where
  "drop_first k [] = []"
| "drop_first k (x # xs) = (if fst x = k then xs else x # drop_first k xs)"

lemma map_of_snoc: "map_of xs k = None \<Longrightarrow> map_of (xs @ [(k, v)]) = (map_of xs)(k \<mapsto> v)"
  by (induction xs) (auto simp: fun_eq_iff split: if_splits)

text \<open>
  A registry maps keys to values. \<open>add\<close> may fail for lack of memory and then changes nothing; \<open>remove\<close> takes the oldest
  entry of a key and returns its value.
\<close>

locale registry =
  fixes add :: "'k \<Rightarrow> 'v \<Rightarrow> 's \<Rightarrow> bool \<times> 's"
    and lookup :: "'k \<Rightarrow> 's \<Rightarrow> 'v option"
    and remove :: "'k \<Rightarrow> 's \<Rightarrow> 'v option \<times> 's"
    and items :: "'s \<Rightarrow> ('k \<times> 'v) list"
    and invar :: "'s \<Rightarrow> bool"
  assumes add_ok: "invar s \<Longrightarrow> add k v s = (True, t) \<Longrightarrow> invar t \<and> items t = items s @ [(k, v)]"
    and add_fail: "invar s \<Longrightarrow> add k v s = (False, t) \<Longrightarrow> t = s"
    and lookup_item: "invar s \<Longrightarrow> lookup k s = map_of (items s) k"
    and remove_item: "invar s \<Longrightarrow> remove k s = (u, t) \<Longrightarrow> u = map_of (items s) k \<and> invar t \<and> items t = drop_first k (items s)"
begin

text \<open>A registry without double keys is a finite map.\<close>

definition reg_ok :: "'s \<Rightarrow> bool" where
  "reg_ok s \<longleftrightarrow> invar s \<and> distinct (map fst (items s))"

definition map_rep :: "'s \<Rightarrow> 'k \<rightharpoonup> 'v" where
  "map_rep s = map_of (items s)"

lemma lookup_rep: "reg_ok s \<Longrightarrow> lookup k s = map_rep s k"
  by (simp add: reg_ok_def map_rep_def lookup_item)

lemma add_rep: "reg_ok s \<Longrightarrow> map_rep s k = None \<Longrightarrow> add k v s = (True, t) \<Longrightarrow> reg_ok t \<and> map_rep t = (map_rep s)(k \<mapsto> v)"
  using add_ok [of s k v t] map_of_snoc [of "items s" k v]
  by (auto simp: reg_ok_def map_rep_def map_of_eq_None_iff image_iff simp del: map_of_append)

lemma drop_first_map:
  "distinct (map fst xs) \<Longrightarrow> map_of (drop_first k xs) = (map_of xs)(k := None) \<and> distinct (map fst (drop_first k xs))
    \<and> set (drop_first k xs) \<subseteq> set xs"
  by (induction xs) (auto simp: fun_eq_iff map_of_eq_None_iff image_iff)

lemma remove_map_rep: "reg_ok s \<Longrightarrow> remove k s = (v, t) \<Longrightarrow> v = map_rep s k \<and> reg_ok t \<and> map_rep t = (map_rep s)(k := None)"
  using remove_item [of s k v t] drop_first_map [of "items s" k] by (auto simp: reg_ok_def map_rep_def)

end

section \<open>The two tables are registries\<close>

lemma first_index_Some:
  "first_index P n xs = Some i \<longleftrightarrow> i < n \<and> P (xs ! i) \<and> (\<forall>j < i. \<not> P (xs ! j))"
  by (auto simp: first_index_def find_Some_iff)

lemma first_index_None: "first_index P n xs = None \<longleftrightarrow> (\<forall>i < n. \<not> P (xs ! i))"
  by (auto simp: first_index_def find_None_iff)

lemma length_memmove: "dst + n \<le> length xs \<Longrightarrow> src + n \<le> length xs \<Longrightarrow> length (memmove dst src n xs) = length xs"
  by (simp add: memmove_def)

lemma take_memmove:
  assumes "i < n" "n \<le> length xs"
  shows "take (n - Suc 0) (memmove i (Suc i) (n - Suc i) xs) = take i xs @ drop (Suc i) (take n xs)"
proof -
  obtain d where n: "n = Suc (i + d)" using assms(1) less_iff_Suc_add by blast
  then show ?thesis using assms by (simp add: memmove_def drop_take)
qed

lemma drop_first_index:
  assumes "i < length xs" "fst (xs ! i) = k" "\<forall>j < i. fst (xs ! j) \<noteq> k"
  shows "drop_first k xs = take i xs @ drop (Suc i) xs \<and> map_of xs k = Some (snd (xs ! i))"
  using assms
proof (induction xs arbitrary: i)
  case (Cons x xs)
  show ?case
  proof (cases i)
    case 0
    then show ?thesis using Cons.prems by (cases x) auto
  next
    case (Suc j)
    then have "fst x \<noteq> k" "\<forall>m < j. fst (xs ! m) \<noteq> k" using Cons.prems(3) by (force, auto)
    then show ?thesis using Cons.IH [of j] Cons.prems Suc by (cases x) auto
  qed
qed simp

lemma drop_first_absent: "\<forall>x \<in> set xs. fst x \<noteq> k \<Longrightarrow> drop_first k xs = xs \<and> map_of xs k = None"
  by (induction xs) auto

text \<open>What the search finds, on the pairs of the used prefix.\<close>

lemma first_index_items:
  assumes "n \<le> length es" and key: "\<And>e. fst (f e) = key e"
  shows "case first_index (\<lambda>e. key e = k) n es of
      None \<Rightarrow> drop_first k (map f (take n es)) = map f (take n es) \<and> map_of (map f (take n es)) k = None
    | Some i \<Rightarrow> i < n \<and> map_of (map f (take n es)) k = Some (snd (f (es ! i)))
        \<and> drop_first k (map f (take n es)) = map f (take (n - 1) (memmove i (i + 1) (n - i - 1) es))"
proof (cases "first_index (\<lambda>e. key e = k) n es")
  case None
  have "\<forall>x \<in> set (map f (take n es)). fst x \<noteq> k"
  proof
    fix x assume "x \<in> set (map f (take n es))"
    then obtain i where "i < n" "x = f (es ! i)" using assms(1) by (auto simp: in_set_conv_nth)
    then show "fst x \<noteq> k" using None key by (simp add: first_index_None)
  qed
  from drop_first_absent [OF this] show ?thesis using None by simp
next
  case (Some i)
  then have i: "i < n" "key (es ! i) = k" "\<forall>j < i. key (es ! j) \<noteq> k" by (simp_all add: first_index_Some)
  then have "drop_first k (map f (take n es)) = take i (map f (take n es)) @ drop (Suc i) (map f (take n es))
      \<and> map_of (map f (take n es)) k = Some (snd (map f (take n es) ! i))"
    using assms by (intro drop_first_index) auto
  then show ?thesis using Some i assms
    by (simp add: take_memmove [OF i(1) assms(1)] take_map drop_map min_def)
qed

lemma grown_take:
  assumes "realloc ok junk m es = Some es'" "length es \<le> m" "n \<le> length es"
  shows "length es' = m" "take n es' = take n es"
  using assms by (auto simp: realloc_def split: if_splits)

lemma take_Suc_update: "n < length es \<Longrightarrow> take (Suc n) (es[n := e]) = take n es @ [e]"
  by (simp add: take_Suc_conv_app_nth)

definition children_items :: "children_list \<Rightarrow> (int \<times> nat) list" where
  "children_items l = map (\<lambda>e. (ce_pid e, ce_hnd e)) (take (num_child l) (cl_entries l))"

definition children_inv :: "children_list \<Rightarrow> bool" where
  "children_inv l \<longleftrightarrow> num_child l \<le> cl_num_max l \<and> length (cl_entries l) = cl_num_max l"

definition mapping_items :: "mapping_list \<Rightarrow> (nat \<times> nat) list" where
  "mapping_items l = map (\<lambda>e. (me_ptr e, me_len e)) (take (num_entries l) (ml_entries l))"

definition mapping_inv :: "mapping_list \<Rightarrow> bool" where
  "mapping_inv l \<longleftrightarrow> num_entries l \<le> num_max_entries l \<and> length (ml_entries l) = num_max_entries l"

text \<open>A child is waited for by looking its handle up and dropping it.\<close>

definition take_child :: "int \<Rightarrow> children_list \<Rightarrow> nat option \<times> children_list" where
  "take_child pid l =
     (get_handle_from_children_list pid l,
      case drop_child_from_children_list pid l of None \<Rightarrow> l | Some l' \<Rightarrow> l')"

interpretation children: registry
  "add_to_children_list ok junk" get_handle_from_children_list take_child children_items children_inv
  for ok junk
proof (unfold_locales, goal_cases)
  case (1 s k v t)
  then show ?case
    using grown_take [of ok junk _ "cl_entries s" _ "num_child s"]
    by (auto simp: add_to_children_list_def Let_def children_inv_def children_items_def take_Suc_update
        split: if_splits option.splits)
next
  case (2 s k v t)
  then show ?case by (auto simp: add_to_children_list_def Let_def split: if_splits option.splits)
next
  case (3 s k)
  then show ?case
    using first_index_items [of "num_child s" "cl_entries s" "\<lambda>e. (ce_pid e, ce_hnd e)" ce_pid k]
    by (auto simp: get_handle_from_children_list_def children_items_def children_inv_def split: option.splits)
next
  case (4 s k v t)
  then show ?case
    using first_index_items [of "num_child s" "cl_entries s" "\<lambda>e. (ce_pid e, ce_hnd e)" ce_pid k]
    by (auto simp: take_child_def get_handle_from_children_list_def drop_child_from_children_list_def
        children_items_def children_inv_def length_memmove split: option.splits)
qed

text \<open>The list of mappings has no search of its own: looking up is what a removal would return.\<close>

interpretation mappings: registry
  "mapping_list_add_entry ok junk" "\<lambda>ptr l. fst (mapping_list_remove_entry ptr l)" mapping_list_remove_entry
  mapping_items mapping_inv
  for ok junk
proof (unfold_locales, goal_cases)
  case (1 s k v t)
  then show ?case
    using grown_take [of ok junk _ "ml_entries s" _ "num_entries s"]
    by (auto simp: mapping_list_add_entry_def Let_def mapping_inv_def mapping_items_def take_Suc_update MIN_NUM_ENTRIES_def
        split: if_splits option.splits)
next
  case (2 s k v t)
  then show ?case by (auto simp: mapping_list_add_entry_def Let_def split: if_splits option.splits)
next
  case (3 s k)
  then show ?case
    using first_index_items [of "num_entries s" "ml_entries s" "\<lambda>e. (me_ptr e, me_len e)" me_ptr k]
    by (auto simp: mapping_list_remove_entry_def mapping_items_def mapping_inv_def split: option.splits)
next
  case (4 s k v t)
  then show ?case
    using first_index_items [of "num_entries s" "ml_entries s" "\<lambda>e. (me_ptr e, me_len e)" me_ptr k]
    by (auto simp: mapping_list_remove_entry_def mapping_items_def mapping_inv_def length_memmove split: option.splits)
qed

section \<open>Mappings are tracked\<close>

text \<open>
  What \<open>mmap\<close> and \<open>munmap\<close> promise of the mappings \<open>live w\<close> of the process: a new mapping starts at an address that is
  neither 0 nor the start of another one, and a whole mapping can be removed.
\<close>

definition mmap_law :: "'w mmap_sys \<Rightarrow> ('w \<Rightarrow> nat \<rightharpoonup> nat) \<Rightarrow> bool" where
  "mmap_law sys live \<longleftrightarrow>
     (\<forall>len prot flags fd off w e w'. sys_mmap sys len prot flags fd off w = (Inl e, w') \<longrightarrow> live w' = live w)
   \<and> (\<forall>len prot flags fd off w addr w'. sys_mmap sys len prot flags fd off w = (Inr addr, w') \<longrightarrow>
        addr \<noteq> 0 \<and> live w addr = None \<and> live w' = (live w)(addr \<mapsto> len))
   \<and> (\<forall>addr len w. live w addr = Some len \<longrightarrow>
        fst (sys_munmap sys addr len w) = None \<and> live (snd (sys_munmap sys addr len w)) = (live w)(addr := None))"

definition tracked :: "('w \<Rightarrow> nat \<rightharpoonup> nat) \<Rightarrow> mapping_list \<times> 'w \<Rightarrow> bool" where
  "tracked live = (\<lambda>(l, w). mapping_inv l \<and> distinct (map fst (mapping_items l))
     \<and> map_of (mapping_items l) = live w \<and> live w 0 = None)"

lemma tracked_iff: "tracked live (l, w) \<longleftrightarrow> mappings.reg_ok l \<and> mappings.map_rep l = live w \<and> live w 0 = None"
  by (auto simp: tracked_def mappings.reg_ok_def mappings.map_rep_def)

lemma mmap_lawD:
  assumes "mmap_law sys live"
  shows "sys_mmap sys len prot flags fd off w = (Inl e, w') \<Longrightarrow> live w' = live w"
    "sys_mmap sys len prot flags fd off w = (Inr a, w') \<Longrightarrow> a \<noteq> 0 \<and> live w a = None \<and> live w' = (live w)(a \<mapsto> len)"
    "live w addr = Some n \<Longrightarrow>
      fst (sys_munmap sys addr n w) = None \<and> live (snd (sys_munmap sys addr n w)) = (live w)(addr := None)"
  using assms unfolding mmap_law_def by blast+

lemma mapfile_tracked:
  assumes law: "mmap_law sys live" and tr: "tracked live (l, w)"
    and map: "mm_mapfile sys ok junk fd off len mflags (l, w) = (r, l1, w1)"
  shows "tracked live (l1, w1)
    \<and> (case r of Inl e \<Rightarrow> live w1 = live w | Inr a \<Rightarrow> a \<noteq> 0 \<and> live w a = None \<and> live w1 = (live w)(a \<mapsto> len))"
proof -
  from tr have l: "mappings.reg_ok l" "mappings.map_rep l = live w" "live w 0 = None" by (auto simp: tracked_iff)
  obtain res w' where m: "sys_mmap sys len (get_mmap_prot mflags) (get_mmap_flags mflags) fd off w = (res, w')" by fastforce
  show ?thesis
  proof (cases res)
    case (Inl e)
    then show ?thesis using map m tr mmap_lawD(1) [OF law] by (auto simp: mm_mapfile_def tracked_def)
  next
    case (Inr a)
    then have a: "a \<noteq> 0" "live w a = None" "live w' = (live w)(a \<mapsto> len)" using mmap_lawD(2) [OF law] m by auto
    obtain b l' where add: "mapping_list_add_entry ok junk a len l = (b, l')" by fastforce
    show ?thesis
    proof (cases b)
      case True
      then have "mappings.reg_ok l' \<and> mappings.map_rep l' = (live w)(a \<mapsto> len)"
        using mappings.add_rep [OF l(1)] add l(2) a(2) by simp
      moreover have "(r, l1, w1) = (Inr a, l', w')" using map m Inr add True by (simp add: mm_mapfile_def)
      ultimately show ?thesis using a l(3) by (simp add: tracked_iff)
    next
      case False
      then have "l' = l" using mappings.add_fail add l(1) by (simp add: mappings.reg_ok_def)
      moreover have "(r, l1, w1) = (Inl ENOMEM, l', snd (sys_munmap sys a len w'))"
        using map m Inr add False by (simp add: mm_mapfile_def)
      moreover have "live (snd (sys_munmap sys a len w')) = live w" using mmap_lawD(3) [OF law, of w' a len] a by auto
      ultimately show ?thesis using l by (simp add: tracked_iff)
    qed
  qed
qed

lemma unmap_tracked:
  assumes law: "mmap_law sys live" and tr: "tracked live (l, w)" and unmap: "mm_unmap sys addr (l, w) = (rv, l2, w2)"
  shows "tracked live (l2, w2) \<and> live w2 = (live w)(addr := None)
    \<and> rv = (if addr = 0 \<or> live w addr \<noteq> None then None else Some EFAULT)"
proof -
  from tr have l: "mappings.reg_ok l" "mappings.map_rep l = live w" "live w 0 = None" by (auto simp: tracked_iff)
  obtain n l' where rm: "mapping_list_remove_entry addr l = (n, l')" by fastforce
  have n: "n = live w addr" "mappings.reg_ok l'" "mappings.map_rep l' = (live w)(addr := None)"
    using mappings.remove_map_rep [OF l(1) rm] l(2) by auto
  consider "addr = 0" | "addr \<noteq> 0" "n = None" | k where "addr \<noteq> 0" "n = Some k" by blast
  then show ?thesis
  proof cases
    case 1
    then show ?thesis using unmap tr l(3) by (auto simp: mm_unmap_def)
  next
    case 2
    then have "(rv, l2, w2) = (Some EFAULT, l', w)" using unmap rm by (simp add: mm_unmap_def)
    then show ?thesis using n 2 l(3) by (auto simp: tracked_iff)
  next
    case 3
    then have "(rv, l2, w2) = (fst (sys_munmap sys addr k w), l', snd (sys_munmap sys addr k w))"
      using unmap rm by (simp add: mm_unmap_def case_prod_beta Let_def)
    moreover have "live w addr = Some k" using n(1) 3(2) by simp
    ultimately show ?thesis using n(2,3) 3(1) l(3) mmap_lawD(3) [OF law, of w addr k] by (auto simp: tracked_iff)
  qed
qed

text \<open>
  C16. Every call of \<open>mm_mapfile\<close> and \<open>mm_unmap\<close> keeps the list of mappings equal to the mappings of the process
  with their lengths: mapping adds the new mapping or, for lack of memory, takes it back and leaves everything as
  it was; unmapping an address removes the whole mapping that starts there, unmapping another address is refused with
  \<open>EFAULT\<close>, and unmapping the null pointer does nothing.
\<close>

theorem mappings_tracked:
  assumes law: "mmap_law sys live" and tr: "tracked live (l, w)"
    and map: "mm_mapfile sys ok junk fd off len mflags (l, w) = (r, l1, w1)"
    and unmap: "mm_unmap sys addr (l, w) = (rv, l2, w2)"
  shows "tracked live (l1, w1)
    \<and> (case r of Inl e \<Rightarrow> live w1 = live w | Inr a \<Rightarrow> a \<noteq> 0 \<and> live w a = None \<and> live w1 = (live w)(a \<mapsto> len))
    \<and> tracked live (l2, w2) \<and> live w2 = (live w)(addr := None)
    \<and> rv = (if addr = 0 \<or> live w addr \<noteq> None then None else Some EFAULT)"
  using mapfile_tracked [OF law tr map] unmap_tracked [OF law tr unmap] by blast

text \<open>A system that never reuses an address.\<close>

definition demo_mmap :: "(nat \<times> nat) list mmap_sys" where
  "demo_mmap =
     \<lparr>sys_mmap = (\<lambda>len prot flags fd off w. let a = Suc (sum_list (map fst w)) in (Inr a, (a, len) # w)),
      sys_munmap = (\<lambda>addr len w. (None, filter (\<lambda>(a, _). a \<noteq> addr) w))\<rparr>"

lemma demo_mmap_law: "mmap_law demo_mmap map_of"
proof -
  have "map_of w (Suc (sum_list (map fst w))) = None" for w :: "(nat \<times> nat) list"
    unfolding map_of_eq_None_iff using member_le_sum_list [of _ "map fst w"] by fastforce
  then show ?thesis by (auto simp: mmap_law_def demo_mmap_def Let_def map_of_filter_neq)
qed

theorem mappings_tracked_witness:
  "mm_mapfile demo_mmap (\<lambda>_. True) (\<lambda>_. \<lparr>me_ptr = 0, me_len = 0\<rparr>) 3 0 4096 3
     (\<lparr>ml_entries = [], num_entries = 0, num_max_entries = 0\<rparr>, []) = (Inr 1,
       \<lparr>ml_entries = \<lparr>me_ptr = 1, me_len = 4096\<rparr> # replicate 63 \<lparr>me_ptr = 0, me_len = 0\<rparr>, num_entries = 1, num_max_entries = 64\<rparr>,
       [(1, 4096)])
   \<and> tracked map_of (\<lparr>ml_entries = \<lparr>me_ptr = 1, me_len = 4096\<rparr> # replicate 63 \<lparr>me_ptr = 0, me_len = 0\<rparr>,
       num_entries = 1, num_max_entries = 64\<rparr>, [(1, 4096)])
   \<and> mm_unmap demo_mmap 9 (\<lparr>ml_entries = [], num_entries = 0, num_max_entries = 0\<rparr>, [])
     = (Some EFAULT, \<lparr>ml_entries = [], num_entries = 0, num_max_entries = 0\<rparr>, [])"
proof -
  let ?l = "\<lparr>ml_entries = [], num_entries = 0, num_max_entries = 0\<rparr>"
  let ?l1 = "\<lparr>ml_entries = \<lparr>me_ptr = 1, me_len = 4096\<rparr> # replicate 63 \<lparr>me_ptr = 0, me_len = 0\<rparr>, num_entries = 1, num_max_entries = 64\<rparr>"
  have t: "tracked map_of (?l, [] :: (nat \<times> nat) list)" by (simp add: tracked_def mapping_inv_def mapping_items_def)
  have m: "mm_mapfile demo_mmap (\<lambda>_. True) (\<lambda>_. \<lparr>me_ptr = 0, me_len = 0\<rparr>) 3 0 4096 3 (?l, []) = (Inr 1, ?l1, [(1, 4096)])"
    by code_simp
  have u: "mm_unmap demo_mmap 9 (?l, []) = (Some EFAULT, ?l, [])" by code_simp
  from mappings_tracked [OF demo_mmap_law t m u] m u show ?thesis by blast
qed

end
