(* ===== verification/Startup_Argv.thy ===== *)
theory Startup_Argv
  imports Win_Cmdline
begin

text \<open>
  The start of a program linked with the library on Windows (\<^verbatim>\<open>src/src/startup-win32.c\<close>): \<open>parse_cmdline\<close> cuts the
  command line of the process into the arguments of \<open>main\<close>. The pointers and the strings share one block whose
  size \<open>alloc_argv_block\<close> estimates. Its composition with the escaping in \<^verbatim>\<open>process-win32.c\<close> is the way of an argument from
  the parent to the child.
\<close>

section \<open>The parser\<close>

definition is_argv_space :: "char \<Rightarrow> bool" where
  "is_argv_space c \<longleftrightarrow> c \<in> {CHR 0x09, CHR 0x0D, CHR 0x0A, CHR 0x0B, CHR 0x0C, CHR '' ''}"

text \<open>
  What \<open>alloc_argv_block\<close> estimates: the largest number of arguments, and the bytes for the strings behind the
  \<open>maxnarg + 1\<close> pointers.
\<close>

definition max_narg :: "string \<Rightarrow> nat" where
  "max_narg cmdline = 1 + length (filter (\<lambda>c. c = CHR '' '') cmdline)"

definition alloc_argv_block :: "(nat \<Rightarrow> bool) \<Rightarrow> string \<Rightarrow> (nat \<times> nat) option" where
  "alloc_argv_block malloc_ok cmdline =
     (let maxnarg = max_narg cmdline; pool = length cmdline + 1
      in if malloc_ok (pool + (maxnarg + 1) * 8) then Some (maxnarg + 1, pool) else None)"

text \<open>
  The variables of \<open>parse_cmdline\<close>: what has been written to the strings, the offsets that have been stored in
  \<open>argv[0]\<close> to \<open>argv[argc]\<close>, and the state of the scanner.
\<close>

record argv_scan =
  as_pool :: string
  as_argv :: "nat list"
  as_nbackslash :: nat
  as_in_quotes :: bool
  as_prev_space :: bool

definition scan_init :: argv_scan where
  "scan_init = \<lparr>as_pool = [], as_argv = [0], as_nbackslash = 0, as_in_quotes = False, as_prev_space = False\<rparr>"

definition write_nbackslash :: "string \<Rightarrow> nat \<Rightarrow> string" where
  "write_nbackslash str n = str @ replicate n BS"

definition parse_char :: "char \<Rightarrow> argv_scan \<Rightarrow> argv_scan" where
  "parse_char c s =
     (let n = as_nbackslash s; pool = as_pool s
      in if c = BS then s\<lparr>as_nbackslash := n + 1, as_prev_space := False\<rparr>
         else if c = DQ then
           (if n mod 2 = 0
            then s\<lparr>as_pool := write_nbackslash pool (n div 2), as_in_quotes := \<not> as_in_quotes s,
                   as_nbackslash := 0, as_prev_space := False\<rparr>
            else s\<lparr>as_pool := write_nbackslash pool ((n - 1) div 2) @ [DQ], as_nbackslash := 0, as_prev_space := False\<rparr>)
         else if is_argv_space c \<and> \<not> as_in_quotes s then
           (if as_prev_space s then s
            else s\<lparr>as_pool := pool @ [NUL], as_argv := as_argv s @ [length pool + 1], as_prev_space := True\<rparr>)
         else s\<lparr>as_pool := write_nbackslash pool n @ [c], as_nbackslash := 0, as_prev_space := False\<rparr>)"

text \<open>
  The result: the arguments as the strings that the pointers designate, and whether all writes stayed in the array of
  pointers and in the bytes of the strings.
\<close>

definition pool_string :: "string \<Rightarrow> nat \<Rightarrow> string" where
  "pool_string pool off = takeWhile (\<lambda>c. c \<noteq> NUL) (drop off pool)"

definition parse_cmdline :: "(nat \<Rightarrow> bool) \<Rightarrow> string \<Rightarrow> (string list \<times> bool) option" where
  "parse_cmdline malloc_ok cmdline =
     (case alloc_argv_block malloc_ok cmdline of
        None \<Rightarrow> None
      | Some (num_ptr, pool_size) \<Rightarrow>
          let s = fold parse_char cmdline scan_init;
              pool = (if as_prev_space s then as_pool s else as_pool s @ [NUL]);
              argc = (if as_prev_space s then length (as_argv s) - 1 else length (as_argv s))
          in Some (map (pool_string pool) (take argc (as_argv s)),
                   length pool \<le> pool_size \<and> length (as_argv s) \<le> num_ptr \<and> argc < num_ptr))"

section \<open>The strings stay in their bytes\<close>

lemma pool_length: "length (as_pool (parse_char c s)) + as_nbackslash (parse_char c s) \<le> length (as_pool s) + as_nbackslash s + 1"
  by (auto simp: parse_char_def Let_def write_nbackslash_def)

lemma pool_bound: "length (as_pool (fold parse_char cs s)) \<le> length (as_pool s) + as_nbackslash s + length cs"
proof (induction cs arbitrary: s)
  case (Cons c cs)
  from Cons.IH [of "parse_char c s"] pool_length [of c s] show ?case by simp
qed simp

lemma argv_bound:
  "length (as_argv (fold parse_char cs s)) \<le> length (as_argv s) + length (filter is_argv_space cs)"
proof (induction cs arbitrary: s)
  case (Cons c cs)
  have "length (as_argv (parse_char c s)) \<le> length (as_argv s) + (if is_argv_space c then 1 else 0)"
    by (auto simp: parse_char_def Let_def)
  with Cons.IH [of "parse_char c s"] show ?case by (auto split: if_splits)
qed simp

text \<open>
  The arguments of a program always fit the block that was estimated for them, if the command line separates them
  by spaces only: no pointer is stored behind the array and no character behind the end of the block.
\<close>

theorem parse_cmdline_in_block:
  assumes "\<forall>c \<in> set cmdline. is_argv_space c \<longrightarrow> c = CHR '' ''" "\<And>n. malloc_ok n"
  shows "\<exists>args. parse_cmdline malloc_ok cmdline = Some (args, True)"
proof -
  let ?s = "fold parse_char cmdline scan_init"
  have "filter is_argv_space cmdline = filter (\<lambda>c. c = CHR '' '') cmdline"
    using assms(1) by (intro filter_cong) (auto simp: is_argv_space_def)
  then have a: "length (as_argv ?s) \<le> max_narg cmdline"
    using argv_bound [of cmdline scan_init] by (simp add: scan_init_def max_narg_def)
  moreover have "length (as_pool ?s) \<le> length cmdline" using pool_bound [of cmdline scan_init] by (simp add: scan_init_def)
  ultimately show ?thesis using assms(2) by (auto simp: parse_cmdline_def alloc_argv_block_def Let_def)
qed

section \<open>From the parent to the child\<close>

declare fold_replicate [simp del]

lemma parse_char_simps:
  "parse_char BS s = s\<lparr>as_nbackslash := as_nbackslash s + 1, as_prev_space := False\<rparr>"
  "as_nbackslash s = 2 * n \<Longrightarrow> parse_char DQ s =
     s\<lparr>as_pool := as_pool s @ replicate n BS, as_in_quotes := \<not> as_in_quotes s, as_nbackslash := 0, as_prev_space := False\<rparr>"
  "as_nbackslash s = Suc (2 * n) \<Longrightarrow> parse_char DQ s =
     s\<lparr>as_pool := as_pool s @ replicate n BS @ [DQ], as_nbackslash := 0, as_prev_space := False\<rparr>"
  "c \<noteq> BS \<Longrightarrow> c \<noteq> DQ \<Longrightarrow> as_in_quotes s \<Longrightarrow> parse_char c s =
     s\<lparr>as_pool := as_pool s @ replicate (as_nbackslash s) BS @ [c], as_nbackslash := 0, as_prev_space := False\<rparr>"
  by (simp_all add: parse_char_def Let_def write_nbackslash_def)

lemma fold_backslashes:
  "\<not> as_prev_space s \<Longrightarrow> fold parse_char (replicate n BS) s = s\<lparr>as_nbackslash := as_nbackslash s + n\<rparr>"
proof (induction n arbitrary: s)
  case (Suc n)
  have "parse_char BS s = s\<lparr>as_nbackslash := as_nbackslash s + 1\<rparr>"
    using Suc.prems by (cases s) (simp add: parse_char_def Let_def)
  then show ?case using Suc.IH [of "parse_char BS s"] Suc.prems by simp
qed simp

lemma quoted_chars:
  assumes "as_in_quotes s" "as_nbackslash s = 0" "\<not> as_prev_space s"
  shows "fold parse_char (butlast (escape_loop a n)) s =
    s\<lparr>as_pool := as_pool s @ replicate n BS @ a, as_in_quotes := False\<rparr>"
  using assms
proof (induction a n arbitrary: s rule: escape_loop.induct)
  case (1 n)
  then show ?case
    by (cases s) (simp add: butlast_append fold_backslashes parse_char_simps(2) [of _ n])
next
  case (2 c a n)
  consider "c = BS" | "c = DQ" | "c \<noteq> BS" "c \<noteq> DQ" by blast
  then show ?case
  proof cases
    case 1
    then show ?thesis using 2(1) [OF 1, of s] 2(4-6) by (simp add: replicate_app_Cons_same)
  next
    case c: 2
    let ?s = "s\<lparr>as_pool := as_pool s @ replicate n BS @ [DQ]\<rparr>"
    have "fold parse_char (replicate (2 * n) BS @ [BS, DQ]) s = ?s"
      using 2(4-6) by (cases s) (simp add: fold_backslashes parse_char_simps(1) parse_char_simps(3) [of _ n])
    then show ?thesis using 2(2) [of ?s] c 2(4-6) by (simp add: butlast_append)
  next
    case 3
    let ?s = "s\<lparr>as_pool := as_pool s @ replicate n BS @ [c]\<rparr>"
    have "fold parse_char (replicate n BS @ [c]) s = ?s"
      using 3 2(4-6) by (cases s) (simp add: fold_backslashes parse_char_simps(4))
    then show ?thesis using 2(3) [of ?s] 3 2(4-6) by (simp add: butlast_append)
  qed
qed

text \<open>An escaped argument adds exactly its characters to the strings.\<close>

lemma escaped_chars:
  assumes "\<not> as_in_quotes s" "as_nbackslash s = 0"
  shows "fold parse_char (escaped a) s = s\<lparr>as_pool := as_pool s @ a, as_prev_space := False\<rparr>"
proof -
  have "parse_char DQ s = s\<lparr>as_in_quotes := True, as_prev_space := False\<rparr>"
    using assms by (cases s) (simp add: parse_char_def Let_def write_nbackslash_def)
  then show ?thesis
    using quoted_chars [of "parse_char DQ s" a 0] assms by (cases s) (simp add: escaped_eq)
qed

lemma pool_string_start: "no_nul a \<Longrightarrow> pool_string (P @ a @ NUL # Q) (length P) = a"
  by (simp add: pool_string_def no_nul_def takeWhile_append)

text \<open>
  The scan of the joined arguments, behind arguments \<open>done\<close> that are stored already: their pointers \<open>offs\<close> stay valid
  whatever follows.
\<close>

lemma scan_joined:
  assumes "as \<noteq> []" "\<forall>a \<in> set as. no_nul a" "\<not> as_in_quotes s" "as_nbackslash s = 0"
    and "as_argv s = offs @ [length (as_pool s)]"
    and "\<And>Q. map (pool_string (as_pool s @ Q)) offs = finished"
  shows "let t = fold parse_char (join SP (map escaped as)) s
    in \<not> as_prev_space t \<and> length (as_argv t) = length offs + length as
      \<and> map (pool_string (as_pool t @ [NUL])) (as_argv t) = finished @ as"
  using assms
proof (induction as arbitrary: s offs finished)
  case (Cons a as)
  have a: "no_nul a" using Cons.prems by simp
  let ?t = "s\<lparr>as_pool := as_pool s @ a, as_prev_space := False\<rparr>"
  have t: "fold parse_char (escaped a) s = ?t" by (rule escaped_chars) (use Cons.prems in auto)
  show ?case
  proof (cases as)
    case Nil
    have "map (pool_string (as_pool s @ a @ [NUL])) offs = finished" by (rule Cons.prems(6))
    then show ?thesis
      using Nil t Cons.prems(5) pool_string_start [OF a, of "as_pool s" "[]"] by (simp add: join_simps)
  next
    case (Cons b bs)
    let ?u = "?t\<lparr>as_pool := as_pool s @ a @ [NUL], as_argv := as_argv s @ [length (as_pool s @ a @ [NUL])], as_prev_space := True\<rparr>"
    have u: "parse_char SP ?t = ?u" using Cons.prems by (simp add: parse_char_def Let_def is_argv_space_def)
    have "map (pool_string (as_pool ?u @ Q)) (offs @ [length (as_pool s)]) = finished @ [a]" for Q
      using Cons.prems(6) [of "a @ NUL # Q"] pool_string_start [OF a, of "as_pool s" Q] by simp
    then have "let t = fold parse_char (join SP (map escaped as)) ?u
      in \<not> as_prev_space t \<and> length (as_argv t) = length (offs @ [length (as_pool s)]) + length as
        \<and> map (pool_string (as_pool t @ [NUL])) (as_argv t) = (finished @ [a]) @ as"
      using Cons.prems local.Cons by (intro Cons.IH) auto
    moreover have "fold parse_char (join SP (map escaped (a # as))) s = fold parse_char (join SP (map escaped as)) ?u"
      using local.Cons t u by (simp add: join_simps)
    ultimately show ?thesis by (simp add: Let_def)
  qed
qed simp

text \<open>
  The string in a buffer that was only partly written; \<open>None\<close> when a cell without value is read or no terminator is found.
\<close>

fun cell_string :: "char option list \<Rightarrow> string option" where
  "cell_string [] = None"
| "cell_string (None # cs) = None"
| "cell_string (Some c # cs) = (if c = NUL then Some [] else map_option ((#) c) (cell_string cs))"

lemma cell_string_written: "no_nul s \<Longrightarrow> cell_string (map Some (s @ [NUL]) @ rest) = Some s"
  by (induction s) auto

lemma escape_loop_no_nul: "no_nul a \<Longrightarrow> no_nul (butlast (escape_loop a n))"
  by (induction a n rule: escape_loop.induct) (auto simp: butlast_append no_nul_def)

lemma escaped_no_nul: "no_nul a \<Longrightarrow> no_nul (escaped a)"
  using escape_loop_no_nul by (simp add: escaped_eq)

lemma placed_strings: "map (butlast \<circ> snd) (placed index argv) = map escaped argv"
  by (induction argv arbitrary: index) (simp_all add: escaped_def)

lemma spaces_of_join:
  "length ss \<le> max_narg (join SP ss)"
proof (induction ss)
  case (Cons s ss)
  then show ?case by (cases ss) (auto simp: join_simps max_narg_def)
qed simp

text \<open>
  C14. The arguments that a program passes to a child come out as they went in, whatever characters they contain: when memory is
  available, the strings that \<open>escape_argv\<close> writes in the parent, inside its block, are joined by \<open>concat_strv\<close> to a terminated
  command line, which \<open>parse_cmdline\<close> cuts in the child into the same list of arguments, without a write outside of the
  block that \<open>alloc_argv_block\<close> has allocated. Characters stand for the code units of both encodings.
\<close>

theorem child_argv_roundtrip:
  assumes "args \<noteq> []" "\<forall>a \<in> set args. no_nul a" "\<And>n. malloc_ok n" "\<And>n. realloc_ok n"
  shows "\<exists>b cells cmdline. escape_argv realloc_ok args = Some b \<and> in_block b
    \<and> concat_strv (Some (map (butlast \<circ> snd) (strings b))) SP = Some cells \<and> cell_string cells = Some cmdline
    \<and> parse_cmdline malloc_ok cmdline = Some (args, True)"
proof -
  let ?line = "join SP (map escaped args)" and ?t = "fold parse_char (join SP (map escaped args)) scan_init"
  have t: "let t = ?t in \<not> as_prev_space t \<and> length (as_argv t) = length ([] :: nat list) + length args
      \<and> map (pool_string (as_pool t @ [NUL])) (as_argv t) = [] @ args"
    by (rule scan_joined) (use assms in \<open>simp_all add: scan_init_def\<close>)
  have "length args \<le> max_narg ?line" using spaces_of_join [of "map escaped args"] by simp
  moreover have "length (as_pool ?t) \<le> length ?line" using pool_bound [of ?line scan_init] by (simp add: scan_init_def)
  ultimately have parse: "parse_cmdline malloc_ok ?line = Some (args, True)"
    using t assms(3) by (simp add: parse_cmdline_def alloc_argv_block_def Let_def)
  obtain b where b: "escape_argv realloc_ok args = Some b" "in_block b" "strings b = placed ((length args + 1) * 8) args"
    using escape_argv_in_block assms(4) by blast
  have strs: "map (butlast \<circ> snd) (strings b) = map escaped args" unfolding b(3) by (rule placed_strings)
  have "no_nul ?line"
    using assms(2)
  proof (induction args)
    case (Cons a as)
    then show ?case by (cases as) (simp_all add: join_simps escaped_no_nul)
  qed (simp add: join_simps)
  then have "\<exists>cells. concat_strv (Some (map escaped args)) SP = Some cells \<and> cell_string cells = Some ?line"
    unfolding concat_strv_def Let_def option.case using cell_string_written by blast
  then show ?thesis using b(1,2) parse strs by metis
qed

theorem child_argv_roundtrip_witness:
  "\<exists>b cells cmdline. escape_argv (\<lambda>_. True) [''a b'', [BS, DQ, SP, BS], [], [CHR 0x09]] = Some b \<and> in_block b
     \<and> concat_strv (Some (map (butlast \<circ> snd) (strings b))) SP = Some cells \<and> cell_string cells = Some cmdline
     \<and> parse_cmdline (\<lambda>_. True) cmdline = Some ([''a b'', [BS, DQ, SP, BS], [], [CHR 0x09]], True)"
  by (rule child_argv_roundtrip) (simp_all add: no_nul_def)

theorem parse_cmdline_in_block_witness:
  "\<exists>args. parse_cmdline (\<lambda>_. True) ''prog -x y'' = Some (args, True)"
  by (rule parse_cmdline_in_block) (simp_all add: is_argv_space_def)

section \<open>Other command lines\<close>

text \<open>
  Only spaces are counted when the block is allocated: with other white space pointers are stored over the
  strings.
\<close>

lemma parse_cmdline_tabs:
  "map_option snd (parse_cmdline (\<lambda>_. True) [CHR ''a'', CHR 0x09, CHR ''b'', CHR 0x09, CHR ''c'']) = Some False"
  by code_simp

text \<open>
  Backslashes in front of a space are not written before the argument ends: they move to the start of the next
  argument, and at the end of the command line they are lost.
\<close>

lemma parse_cmdline_backslash:
  "parse_cmdline (\<lambda>_. True) ([CHR ''d'', BS, SP] @ ''x'') = Some ([''d'', [BS] @ ''x''], True)"
  "parse_cmdline (\<lambda>_. True) ([CHR ''d'', BS]) = Some ([''d''], True)"
  by code_simp+

end
