(* ===== verification/Proc_Win32.thy ===== *)
theory Proc_Win32
  imports Registry Startup_Argv Win_Attr Paths
begin

unbundle bit_operations_syntax

text \<open>
  Child processes on Windows (\<^verbatim>\<open>src/src/process-win32.c\<close>): the descriptors that a child inherits through the
  reserved part of its startup information, which \<open>mm_fd_init\<close> reads in the child, the search of the program in
  \<open>PATH\<close>, \<open>mm_spawn\<close>, \<open>mm_wait_process\<close> and \<open>mm_execv\<close> on the list of children. The system calls are parameters on a
  world \<open>'w\<close>; a handle is an integer, the null handle is 0 and \<open>INVALID_HANDLE_VALUE\<close> is \<open>-1\<close>.
\<close>

section \<open>Access to a program file\<close>

text \<open>
  \<open>open_meta\<close> is the result of opening a file for its metadata, \<open>meta_sd\<close> whether its security descriptor can be read,
  \<open>token_ok\<close> and \<open>access_check\<close> what the security system answers for the mapped rights, \<open>path_ok\<close> whether a path of that many
  bytes can be allocated.
\<close>

record access_env =
  open_meta :: "string \<Rightarrow> w32err option"
  meta_sd :: "string \<Rightarrow> bool"
  token_ok :: bool
  access_check :: "string \<Rightarrow> int \<Rightarrow> bool option"
  path_ok :: "nat \<Rightarrow> bool"

definition GENERIC_EXECUTE :: int where "GENERIC_EXECUTE = 0x20000000"
definition R_OK :: int where "R_OK = 4"
definition W_OK :: int where "W_OK = 2"
definition X_OK :: int where "X_OK = 1"
definition F_OK :: int where "F_OK = 0"

text \<open>\<open>MapGenericMask\<close> with the rights of a file.\<close>

definition map_generic_mask :: "int \<Rightarrow> int" where
  "map_generic_mask r =
     (r AND NOT (GENERIC_READ OR GENERIC_WRITE OR GENERIC_EXECUTE))
       OR (if r AND GENERIC_READ \<noteq> 0 then FILE_GENERIC_READ else 0)
       OR (if r AND GENERIC_WRITE \<noteq> 0 then FILE_GENERIC_WRITE else 0)
       OR (if r AND GENERIC_EXECUTE \<noteq> 0 then FILE_GENERIC_EXECUTE else 0)"

text \<open>The result \<open>-1\<close> is \<open>Inl\<close> with the error raised; \<open>Inr\<close> is the returned code.\<close>

definition test_access :: "access_env \<Rightarrow> string \<Rightarrow> int \<Rightarrow> retcode option" where
  "test_access env path access_rights =
     (if \<not> token_ok env then None
      else case access_check env path (map_generic_mask access_rights) of
             None \<Rightarrow> None
           | Some result \<Rightarrow> Some (if result then None else Some EACCES))"

definition mm_check_access :: "access_env \<Rightarrow> string \<Rightarrow> int \<Rightarrow> retcode option" where
  "mm_check_access env path amode =
     (case open_meta env path of
        Some e \<Rightarrow> if e = ERROR_PATH_NOT_FOUND \<or> e = ERROR_FILE_NOT_FOUND then Some (Some ENOENT) else None
      | None \<Rightarrow>
          if amode = F_OK then Some None
          else if \<not> meta_sd env path then None
          else test_access env path
                 ((if amode AND R_OK \<noteq> 0 then GENERIC_READ else 0) OR (if amode AND W_OK \<noteq> 0 then GENERIC_WRITE else 0)
                  OR (if amode AND X_OK \<noteq> 0 then GENERIC_EXECUTE else 0)))"

section \<open>The search in PATH\<close>

definition contains_dirsep :: "string \<Rightarrow> bool" where
  "contains_dirsep path \<longleftrightarrow> list_ex (is_path_separator True) path"

definition try_path :: "access_env \<Rightarrow> string \<Rightarrow> errcode \<Rightarrow> errcode + string" where
  "try_path env path error =
     (case mm_check_access env path X_OK of
        Some None \<Rightarrow> Inr path
      | Some (Some EACCES) \<Rightarrow> Inl EACCES
      | _ \<Rightarrow> Inl error)"

function search_dirs :: "access_env \<Rightarrow> string \<Rightarrow> nat \<Rightarrow> string \<Rightarrow> errcode \<Rightarrow> errcode + string" where
  "search_dirs env base pathmax dir error =
     (if dir = [] then Inl error
      else let d = takeWhile (\<lambda>c. c \<noteq> CHR '';'') dir;
               len = length d + length base + 6;
               path = d @ [BS] @ base;
               rest = drop (length d) dir
           in if len > pathmax \<and> \<not> path_ok env len then Inl ENOMEM
              else case try_path env path error of
                Inr p \<Rightarrow> Inr p
              | Inl error \<Rightarrow>
                  (case try_path env (path @ ''.exe'') error of
                     Inr p \<Rightarrow> Inr p
                   | Inl error \<Rightarrow> search_dirs env base (max pathmax len) (if rest \<noteq> [] then tl rest else rest) error))"
  by pat_completeness auto
termination
proof (relation "measure (\<lambda>(env, base, pathmax, dir, error). length dir)")
  fix env :: access_env and base dir :: string and error e1 e2 :: errcode and pathmax len :: nat and d path rest
  assume "dir \<noteq> []" "d = takeWhile (\<lambda>c. c \<noteq> CHR '';'') dir" "rest = drop (length d) dir"
  then show "((env, base, max pathmax len, if rest \<noteq> [] then tl rest else rest, e2), env, base, pathmax, dir, error)
      \<in> measure (\<lambda>(env, base, pathmax, dir, error). length dir)"
    by (cases dir) (auto simp: length_takeWhile_le)
qed simp

declare search_dirs.simps [simp del]

definition DEFAULT_PATHSEARCH :: string where
  "DEFAULT_PATHSEARCH = ''C:'' @ [BS] @ ''Windows'' @ [BS] @ ''system32;C:'' @ [BS] @ ''Windows;''"

definition search_bin_in_path :: "access_env \<Rightarrow> string option \<Rightarrow> string \<Rightarrow> errcode + string" where
  "search_bin_in_path env path_var base =
     search_dirs env base 0 (case path_var of None \<Rightarrow> DEFAULT_PATHSEARCH | Some v \<Rightarrow> v) ENOENT"

section \<open>The descriptors of a child\<close>

definition INVALID_HANDLE_VALUE :: int where "INVALID_HANDLE_VALUE = -1"

definition FOPEN :: int where "FOPEN = 0x01"
definition FPIPE :: int where "FPIPE = 0x08"
definition FAPPEND :: int where "FAPPEND = 0x20"
definition FDEV :: int where "FDEV = 0x40"
definition FTEXT :: int where "FTEXT = 0x80"

definition CRT_BUFFER_SIZE :: "nat \<Rightarrow> nat" where
  "CRT_BUFFER_SIZE nh = 4 + nh * 1 + nh * 8 + nh * 1"

record mm_remap_fd =
  child_fd :: int
  parent_fd :: int

definition std_fd_mappings :: "mm_remap_fd list" where
  "std_fd_mappings = [\<lparr>child_fd = 0, parent_fd = 0\<rparr>, \<lparr>child_fd = 1, parent_fd = 1\<rparr>, \<lparr>child_fd = 2, parent_fd = 2\<rparr>]"

text \<open>
  The three arrays of a configuration point into one buffer, which is laid out below; they are kept apart here. Everything is
  zero at first.
\<close>

record startup_config =
  num_fd :: nat
  num_crt_fd :: nat
  inherited_hnds :: "int list"
  crt_fd_flags :: "int list"
  crt_fd_hnds :: "int list"
  crt_fd_infos :: "int list"

record 'w proc_env =
  get_osfhandle :: "int \<Rightarrow> int"
  dup_handle :: "int \<Rightarrow> 'w \<Rightarrow> (w32err + int) \<times> 'w"
  close_handle :: "int \<Rightarrow> 'w \<Rightarrow> 'w"
  calloc_ok :: bool
  malloc_ok :: bool
  attr_list_err :: "w32err option"

definition convert_fdinfo_to_crtflags :: "int \<Rightarrow> int" where
  "convert_fdinfo_to_crtflags fdinfo =
     (let fd_type = fdinfo AND FD_TYPE_MASK;
          crtflags = FOPEN;
          crtflags = (if fd_type = FD_TYPE_PIPE then crtflags OR FPIPE
                      else if fd_type = FD_TYPE_CONSOLE then crtflags OR FDEV else crtflags);
          crtflags = (if fdinfo AND FD_FLAG_APPEND \<noteq> 0 then crtflags OR FAPPEND else crtflags)
      in if fdinfo AND FD_FLAG_TEXT \<noteq> 0 then crtflags OR FTEXT else crtflags)"

definition get_highest_child_fd :: "mm_remap_fd list \<Rightarrow> int" where
  "get_highest_child_fd fd_map = fold (\<lambda>m fd_max. if fd_max < child_fd m then child_fd m else fd_max) fd_map (- 1)"

definition round_up :: "int \<Rightarrow> int \<Rightarrow> int" where
  "round_up val divider = ((val + divider - 1) sdiv divider) * divider"

definition startup_config_alloc_crt_buffs :: "'w proc_env \<Rightarrow> startup_config \<Rightarrow> startup_config option" where
  "startup_config_alloc_crt_buffs env cfg =
     (let n = nat (round_up (4 + int (num_fd cfg)) 8 - 4)
      in if calloc_ok env
         then Some (cfg\<lparr>num_crt_fd := n, crt_fd_flags := replicate n 0, crt_fd_hnds := replicate n 0, crt_fd_infos := replicate n 0\<rparr>)
         else None)"

definition startup_config_allocate_internals :: "'w proc_env \<Rightarrow> startup_config \<Rightarrow> errcode + startup_config" where
  "startup_config_allocate_internals env cfg =
     (case startup_config_alloc_crt_buffs env cfg of
        None \<Rightarrow> Inl ENOMEM
      | Some cfg \<Rightarrow>
          (if \<not> malloc_ok env then Inl ENOMEM
           else (case attr_list_err env of
                   Some e \<Rightarrow> Inl (get_errcode_from_w32err e)
                 | None \<Rightarrow> Inr cfg)))"

text \<open>
  \<open>setup_mapping\<close> is the body of the loop. \<open>Inl\<close>: the error raised; a child descriptor that is not below the
  allocated number would be written out of bounds.
\<close>

definition setup_mapping :: "'w proc_env \<Rightarrow> fd_table \<Rightarrow> mm_remap_fd \<Rightarrow> startup_config \<Rightarrow> errcode + startup_config" where
  "setup_mapping env tab m cfg =
     (if child_fd m < 0 then Inl EBADF
      else let c = nat (child_fd m)
           in if parent_fd m = -1
              then Inr (cfg\<lparr>crt_fd_hnds := (crt_fd_hnds cfg)[c := INVALID_HANDLE_VALUE], crt_fd_flags := (crt_fd_flags cfg)[c := 0]\<rparr>)
              else let hnd = get_osfhandle env (parent_fd m)
                   in if hnd = INVALID_HANDLE_VALUE then Inl EBADF
                      else let fd_info = (case get_fd_info tab (parent_fd m) of Some i \<Rightarrow> i | None \<Rightarrow> 0)
                           in Inr (cfg\<lparr>crt_fd_hnds := (crt_fd_hnds cfg)[c := hnd],
                                       crt_fd_flags := (crt_fd_flags cfg)[c := convert_fdinfo_to_crtflags fd_info],
                                       crt_fd_infos := (crt_fd_infos cfg)[c := fd_info mod 256]\<rparr>))"

fun startup_config_setup_mappings ::
  "'w proc_env \<Rightarrow> fd_table \<Rightarrow> mm_remap_fd list \<Rightarrow> startup_config \<Rightarrow> errcode + startup_config" where
  "startup_config_setup_mappings env tab [] cfg = Inr cfg"
| "startup_config_setup_mappings env tab (m # ms) cfg =
     (case setup_mapping env tab m cfg of
        Inl e \<Rightarrow> Inl e
      | Inr cfg \<Rightarrow> startup_config_setup_mappings env tab ms cfg)"

text \<open>The duplicated handles replace the handles of the parent.\<close>

fun dup_loop :: "'w proc_env \<Rightarrow> nat list \<Rightarrow> startup_config \<times> 'w \<Rightarrow> retcode \<times> startup_config \<times> 'w" where
  "dup_loop env [] x = (None, x)"
| "dup_loop env (i # is) (cfg, w) =
     (let hnd = crt_fd_hnds cfg ! i
      in if hnd = INVALID_HANDLE_VALUE \<or> crt_fd_flags cfg ! i AND FOPEN = 0 then dup_loop env is (cfg, w)
         else case dup_handle env hnd w of
                (Inl e, w) \<Rightarrow> (Some (get_errcode_from_w32err e), cfg, w)
              | (Inr dup_hnd, w) \<Rightarrow>
                  dup_loop env is (cfg\<lparr>inherited_hnds := inherited_hnds cfg @ [dup_hnd],
                                       crt_fd_hnds := (crt_fd_hnds cfg)[i := dup_hnd]\<rparr>, w))"

definition startup_config_dup_inherited_hnds :: "'w proc_env \<Rightarrow> startup_config \<times> 'w \<Rightarrow> retcode \<times> startup_config \<times> 'w" where
  "startup_config_dup_inherited_hnds env x = dup_loop env [0..<num_fd (fst x)] x"

definition empty_config :: startup_config where
  "empty_config = \<lparr>num_fd = 0, num_crt_fd = 0, inherited_hnds = [], crt_fd_flags = [], crt_fd_hnds = [], crt_fd_infos = []\<rparr>"

definition startup_config_deinit :: "'w proc_env \<Rightarrow> startup_config \<times> 'w \<Rightarrow> startup_config \<times> 'w" where
  "startup_config_deinit env = (\<lambda>(cfg, w). (empty_config, fold (close_handle env) (inherited_hnds cfg) w))"

definition startup_config_init ::
  "'w proc_env \<Rightarrow> fd_table \<Rightarrow> mm_remap_fd list \<Rightarrow> 'w \<Rightarrow> (errcode + startup_config) \<times> 'w" where
  "startup_config_init env tab fd_map w =
     (let n = nat (get_highest_child_fd fd_map + 1);
          n = (if n < 3 then 3 else n)
      in case startup_config_allocate_internals env (empty_config\<lparr>num_fd := n\<rparr>) of
           Inl e \<Rightarrow> (Inl e, w)
         | Inr cfg \<Rightarrow>
             (case startup_config_setup_mappings env tab std_fd_mappings cfg of
                Inl e \<Rightarrow> (Inl e, snd (startup_config_deinit env (cfg, w)))
              | Inr cfg \<Rightarrow>
                  (case startup_config_setup_mappings env tab fd_map cfg of
                     Inl e \<Rightarrow> (Inl e, snd (startup_config_deinit env (cfg, w)))
                   | Inr cfg \<Rightarrow>
                       (case startup_config_dup_inherited_hnds env (cfg, w) of
                          (Some e, cfg, w) \<Rightarrow> (Inl e, snd (startup_config_deinit env (cfg, w)))
                        | (None, cfg, w) \<Rightarrow> (Inr cfg, w)))))"

text \<open>
  The buffer that the child receives, in bytes: the number of descriptors, the flags, the handles and, behind what the C
  runtime reads, the information of the library. Integers are stored with the lowest byte first.
\<close>

fun le_bytes :: "nat \<Rightarrow> int \<Rightarrow> int list" where
  "le_bytes 0 x = []"
| "le_bytes (Suc n) x = x mod 256 # le_bytes n (x div 256)"

fun of_le_bytes :: "int list \<Rightarrow> int" where
  "of_le_bytes [] = 0"
| "of_le_bytes (b # bs) = b + 256 * of_le_bytes bs"

definition crt_buff :: "startup_config \<Rightarrow> int list" where
  "crt_buff cfg = le_bytes 4 (int (num_crt_fd cfg)) @ crt_fd_flags cfg
     @ concat (map (le_bytes 8) (crt_fd_hnds cfg)) @ crt_fd_infos cfg"

text \<open>
  The fields of \<open>STARTUPINFOW\<close> that are set: the size of the buffer in 16 bits, the buffer and the standard handles.
\<close>

record startup_info =
  cbReserved2 :: nat
  lpReserved2 :: "int list option"
  hStd :: "int list"

definition startup_config_get_startup_info :: "startup_config \<Rightarrow> startup_info" where
  "startup_config_get_startup_info cfg =
     \<lparr>cbReserved2 = CRT_BUFFER_SIZE (num_crt_fd cfg) mod 2 ^ 16, lpReserved2 = Some (crt_buff cfg), hStd = take 3 (crt_fd_hnds cfg)\<rparr>"

text \<open>
  \<open>mm_fd_init\<close> reads them in the child, whose table of descriptors is \<open>tab\<close>. The result is \<open>None\<close> for a descriptor out of the table.
\<close>

fun set_infos :: "int list \<Rightarrow> nat \<Rightarrow> fd_table \<Rightarrow> fd_table option" where
  "set_infos [] fd tab = Some tab"
| "set_infos (i # is) fd tab =
     (case set_fd_info (int fd) i tab of None \<Rightarrow> None | Some tab \<Rightarrow> set_infos is (fd + 1) tab)"

definition mm_fd_init :: "startup_info \<Rightarrow> fd_table \<Rightarrow> fd_table option" where
  "mm_fd_init si tab =
     (case lpReserved2 si of
        None \<Rightarrow> Some tab
      | Some buff \<Rightarrow>
          let n = nat (of_le_bytes (take 4 buff));
              infos = drop (4 + n * 1 + n * 8) buff
          in if cbReserved2 si \<noteq> CRT_BUFFER_SIZE n then Some tab else set_infos (take n infos) 0 tab)"

section \<open>Exit codes\<close>

definition MM_WSTATUS_CODEMASK :: int where "MM_WSTATUS_CODEMASK = 0x000000FF"
definition MM_WSTATUS_EXITED :: int where "MM_WSTATUS_EXITED = 0x00000100"
definition MM_WSTATUS_SIGNALED :: int where "MM_WSTATUS_SIGNALED = 0x00000200"

text \<open>Signal numbers of the Windows C runtime and exception codes of Windows.\<close>

definition SIGINT_W :: int where "SIGINT_W = 2"
definition SIGILL_W :: int where "SIGILL_W = 4"
definition SIGFPE_W :: int where "SIGFPE_W = 8"
definition SIGSEGV_W :: int where "SIGSEGV_W = 11"
definition SIGABRT_W :: int where "SIGABRT_W = 22"

definition segv_codes :: "int list" where
  "segv_codes = [0xC0000005, 0xC000008C, 0x80000001, 0xC00000FD, 0x80000002]"

definition fpe_codes :: "int list" where
  "fpe_codes = [0xC000008D, 0xC000008E, 0xC000008F, 0xC0000090, 0xC0000091, 0xC0000092, 0xC0000093, 0xC0000094, 0xC0000095]"

definition EXCEPTION_ILLEGAL_INSTRUCTION :: int where "EXCEPTION_ILLEGAL_INSTRUCTION = 0xC000001D"
definition STATUS_CONTROL_C_EXIT :: int where "STATUS_CONTROL_C_EXIT = 0xC000013A"

definition translate_exitcode_in_status :: "int \<Rightarrow> int" where
  "translate_exitcode_in_status exitcode =
     (if exitcode < 0xC0000000 then (exitcode AND MM_WSTATUS_CODEMASK) OR MM_WSTATUS_EXITED
      else (if exitcode \<in> set segv_codes then SIGSEGV_W
            else if exitcode \<in> set fpe_codes then SIGFPE_W
            else if exitcode = EXCEPTION_ILLEGAL_INSTRUCTION then SIGILL_W
            else if exitcode = STATUS_CONTROL_C_EXIT then SIGINT_W
            else SIGABRT_W) OR MM_WSTATUS_SIGNALED)"

section \<open>Spawn and wait\<close>

record 'w spawn_env = "'w proc_env" +
  access_to :: access_env
  env_path :: "string option"
  utf8_valid :: "string \<Rightarrow> bool"
  escape_ok :: "nat \<Rightarrow> bool"
  list_ok :: "nat \<Rightarrow> bool"
  list_junk :: "nat \<Rightarrow> child_entry"
  create_process :: "string \<Rightarrow> char option list \<Rightarrow> char option list option \<Rightarrow> startup_info \<Rightarrow> 'w \<Rightarrow> (int \<times> int \<times> int) option \<times> 'w"
  process_error :: "'w \<Rightarrow> w32err"
  wait_exit :: "int \<Rightarrow> 'w \<Rightarrow> int \<times> 'w"

text \<open>The handle of the new process and its identifier; the handle of its thread is closed.\<close>

definition spawn_process ::
  "'w spawn_env \<Rightarrow> fd_table \<Rightarrow> string \<Rightarrow> mm_remap_fd list \<Rightarrow> string list \<Rightarrow> string list option \<Rightarrow> 'w \<Rightarrow>
   (errcode + int \<times> int) \<times> 'w" where
  "spawn_process env tab path fd_map argv envp w =
     (if \<not> utf8_valid env path then (Inl EILSEQ, w)
      else case concat_strv (Some argv) SP of
             None \<Rightarrow> (Inl ENOMEM, w)
           | Some cmdline \<Rightarrow>
               (case startup_config_init (proc_env.truncate env) tab fd_map w of
                  (Inl e, w) \<Rightarrow> (Inl e, w)
                | (Inr cfg, w) \<Rightarrow>
                    let (res, w) = create_process env path cmdline (concat_strv envp NUL) (startup_config_get_startup_info cfg) w;
                        (cfg, w) = startup_config_deinit (proc_env.truncate env) (cfg, w)
                    in (case res of
                          None \<Rightarrow> (Inl (get_errcode_from_w32err (process_error env w)), w)
                        | Some (hproc, hthread, pid) \<Rightarrow> (Inr (hproc, pid), close_handle env hthread w))))"

definition MM_SPAWN_DAEMONIZE :: int where "MM_SPAWN_DAEMONIZE = 0x00000001"
definition MM_SPAWN_KEEP_FDS :: int where "MM_SPAWN_KEEP_FDS = 0x00000002"

text \<open>
  \<open>want_pid\<close>: the caller passed a variable for the process identifier. The null pointer for the path, the arguments or the
  environment is \<open>None\<close>. The arguments are the strings of the block that \<open>escape_argv\<close> fills, without their terminator.
\<close>

definition mm_spawn ::
  "'w spawn_env \<Rightarrow> fd_table \<Rightarrow> bool \<Rightarrow> string option \<Rightarrow> mm_remap_fd list \<Rightarrow> int \<Rightarrow> string list option \<Rightarrow> string list option \<Rightarrow>
   children_list \<times> 'w \<Rightarrow> (errcode + int) \<times> children_list \<times> 'w" where
  "mm_spawn env tab want_pid path fd_map flags argv envp = (\<lambda>(l, w).
     case path of None \<Rightarrow> (Inl EINVAL, l, w)
     | Some path \<Rightarrow>
         (if flags AND NOT (MM_SPAWN_KEEP_FDS OR MM_SPAWN_DAEMONIZE) \<noteq> 0 then (Inl EINVAL, l, w)
         else if flags AND MM_SPAWN_KEEP_FDS \<noteq> 0 then (Inl ENOTSUP, l, w)
         else case escape_argv (escape_ok env) (case argv of None \<Rightarrow> [path] | Some a \<Rightarrow> a) of
                None \<Rightarrow> (Inl ENOMEM, l, w)
              | Some b \<Rightarrow>
                  (case (if contains_dirsep path then Inr path
                         else search_bin_in_path (access_to env) (env_path env) path) of
                     Inl e \<Rightarrow> (Inl e, l, w)
                   | Inr path \<Rightarrow>
                       (case spawn_process env tab path fd_map (map (butlast \<circ> snd) (strings b)) envp w of
                          (Inl e, w) \<Rightarrow> (Inl e, l, w)
                        | (Inr (hnd, pid), w) \<Rightarrow>
                            (if want_pid \<and> flags AND MM_SPAWN_DAEMONIZE = 0
                            then (Inr pid, snd (add_to_children_list (list_ok env) (list_junk env) pid (nat hnd) l), w)
                            else (Inr pid, l, close_handle env hnd w))))))"

text \<open>\<open>None\<close>: the program is ended by \<open>mm_check\<close>.\<close>

definition mm_wait_process ::
  "'w spawn_env \<Rightarrow> int \<Rightarrow> children_list \<times> 'w \<Rightarrow> ((errcode + int) \<times> children_list \<times> 'w) option" where
  "mm_wait_process env pid = (\<lambda>(l, w).
     case get_handle_from_children_list pid l of
       None \<Rightarrow> Some (Inl ECHILD, l, w)
     | Some hnd \<Rightarrow>
         (let (exitcode, w) = wait_exit env (int hnd) w
          in (case drop_child_from_children_list pid l of
                None \<Rightarrow> None
              | Some l \<Rightarrow> Some (Inr (translate_exitcode_in_status exitcode), l, close_handle env (int hnd) w))))"

text \<open>
  \<open>mm_execv\<close> does not return when the program could be started: \<open>Inr\<close> is the exit code with which the process ends. The
  descriptors of the library are closed before.
\<close>

definition mm_execv ::
  "'w spawn_env \<Rightarrow> fd_table \<Rightarrow> string option \<Rightarrow> mm_remap_fd list \<Rightarrow> int \<Rightarrow> string list option \<Rightarrow> string list option \<Rightarrow>
   children_list \<times> 'w \<Rightarrow> ((errcode + int) \<times> fd_table \<times> children_list \<times> 'w) option" where
  "mm_execv env tab path fd_map flags argv envp x =
     (if path = None then Some (Inl EINVAL, tab, x)
      else if flags AND NOT MM_SPAWN_KEEP_FDS \<noteq> 0 then Some (Inl EINVAL, tab, x)
      else case mm_spawn env tab True path fd_map flags argv envp x of
             (Inl e, x) \<Rightarrow> Some (Inl e, tab, x)
           | (Inr pid, l, w) \<Rightarrow>
               (case get_handle_from_children_list pid l of
                  None \<Rightarrow> None
                | Some hnd \<Rightarrow>
                    (case drop_child_from_children_list pid l of
                       None \<Rightarrow> None
                     | Some l \<Rightarrow>
                         let tab = snd (close_all_known_fds tab);
                             (exitcode, w) = wait_exit env (int hnd) w
                         in Some (Inr exitcode, tab, l, close_handle env (int hnd) w))))"

section \<open>The program that is found\<close>

definition path_candidates :: "string list \<Rightarrow> string \<Rightarrow> string list" where
  "path_candidates dirs base = concat (map (\<lambda>d. [d @ [BS] @ base, d @ [BS] @ base @ ''.exe'']) dirs)"

text \<open>Trying the candidates one after the other, with the error to report so far.\<close>

fun try_all :: "access_env \<Rightarrow> string list \<Rightarrow> errcode \<Rightarrow> errcode + string" where
  "try_all env [] error = Inl error"
| "try_all env (p # ps) error = (case try_path env p error of Inr q \<Rightarrow> Inr q | Inl error \<Rightarrow> try_all env ps error)"

lemma try_all_spec:
  "try_all env ps error =
     (case find (\<lambda>p. mm_check_access env p X_OK = Some None) ps of
        Some p \<Rightarrow> Inr p
      | None \<Rightarrow> Inl (if \<exists>p \<in> set ps. mm_check_access env p X_OK = Some (Some EACCES) then EACCES else error))"
proof (induction ps arbitrary: error)
  case (Cons p ps)
  show ?case
  proof (cases "mm_check_access env p X_OK = Some None")
    case False
    then obtain e where "try_path env p error = Inl e"
      "e = (if mm_check_access env p X_OK = Some (Some EACCES) then EACCES else error)"
      by (auto simp: try_path_def split: option.splits errcode.splits)
    then show ?thesis using Cons.IH False by (auto split: option.splits)
  qed (simp add: try_path_def)
qed simp

lemma search_step:
  assumes "CHR '';'' \<notin> set d" "d @ rest \<noteq> []" "rest = [] \<or> hd rest = CHR '';''" "\<forall>n. path_ok env n"
  shows "search_dirs env base pathmax (d @ rest) error =
    (case try_all env [d @ [BS] @ base, d @ [BS] @ base @ ''.exe''] error of
       Inr p \<Rightarrow> Inr p
     | Inl error \<Rightarrow> search_dirs env base (max pathmax (length d + length base + 6)) (tl rest) error)"
proof -
  have "takeWhile (\<lambda>c. c \<noteq> CHR '';'') (d @ rest) = d"
    using assms(1,3) by (cases rest) (auto simp: takeWhile_tail)
  then show ?thesis using assms(2,4)
    by (subst search_dirs.simps) (auto simp: Let_def split: sum.splits)
qed

lemma try_all_append:
  "try_all env (ps @ qs) error = (case try_all env ps error of Inr p \<Rightarrow> Inr p | Inl e \<Rightarrow> try_all env qs e)"
  by (induction ps arbitrary: error) (auto split: sum.splits)

lemma search_dirs_all:
  assumes "\<forall>d \<in> set ds. CHR '';'' \<notin> set d" "ds \<noteq> []" "last ds \<noteq> []" "\<forall>n. path_ok env n"
  shows "search_dirs env base pathmax (join CHR '';'' ds) error = try_all env (path_candidates ds base) error"
  using assms
proof (induction ds arbitrary: pathmax error)
  case (Cons d ds)
  define rest where "rest = (if ds = [] then [] else CHR '';'' # join CHR '';'' ds)"
  have j: "join CHR '';'' (d # ds) = d @ rest" by (cases ds) (simp_all add: join_simps rest_def)
  have ih: "search_dirs env base k (tl rest) er = try_all env (path_candidates ds base) er" for k er
    using Cons.IH Cons.prems by (cases ds) (auto simp: rest_def path_candidates_def search_dirs.simps)
  have pc: "path_candidates (d # ds) base = [d @ [BS] @ base, d @ [BS] @ base @ ''.exe''] @ path_candidates ds base"
    by (simp add: path_candidates_def)
  have "CHR '';'' \<notin> set d" "d @ rest \<noteq> []" "rest = [] \<or> hd rest = CHR '';''" "\<forall>n. path_ok env n"
    using Cons.prems by (auto simp: rest_def)
  from search_step [OF this, of base pathmax error] show ?case unfolding j pc try_all_append ih .
qed simp

text \<open>
  The search in \<open>PATH\<close> always ends and finds the first program that can be run, in the order of the directories, in each
  one the name as it is before the name with \<open>.exe\<close>. If there is none the error is \<open>EACCES\<close> when some candidate may not be
  run and \<open>ENOENT\<close> otherwise. The path can be allocated.
\<close>

theorem search_bin_first:
  assumes "\<forall>d \<in> set dirs. CHR '';'' \<notin> set d" "dirs \<noteq> []" "last dirs \<noteq> []" "\<forall>n. path_ok env n"
  shows "search_bin_in_path env (Some (join CHR '';'' dirs)) base =
    (case find (\<lambda>p. mm_check_access env p X_OK = Some None) (path_candidates dirs base) of
       Some p \<Rightarrow> Inr p
     | None \<Rightarrow> Inl (if \<exists>p \<in> set (path_candidates dirs base). mm_check_access env p X_OK = Some (Some EACCES)
                   then EACCES else ENOENT))"
  unfolding search_bin_in_path_def using search_dirs_all [OF assms] try_all_spec by simp

definition demo_access :: access_env where
  "demo_access = \<lparr>open_meta = (\<lambda>p. if p = ''b'' @ [BS] @ ''prog.exe'' then None else Some ERROR_FILE_NOT_FOUND),
     meta_sd = (\<lambda>_. True), token_ok = True, access_check = (\<lambda>_ _. Some True), path_ok = (\<lambda>_. True)\<rparr>"

theorem search_bin_first_witness:
  "search_bin_in_path demo_access (Some ''a;b;c'') ''prog'' = Inr (''b'' @ [BS] @ ''prog.exe'')"
proof -
  have "search_bin_in_path demo_access (Some (join CHR '';'' [''a'', ''b'', ''c''])) ''prog'' = Inr (''b'' @ [BS] @ ''prog.exe'')"
    by (subst search_bin_first) (simp_all add: path_candidates_def demo_access_def mm_check_access_def test_access_def X_OK_def F_OK_def)
  then show ?thesis by (simp add: join_def)
qed

section \<open>The descriptors that a child inherits\<close>

text \<open>
  What the handles of the process stand for in the world \<open>w\<close>: \<open>obj w\<close>. A duplicate is a new handle of the same object, a
  closed handle is gone, and the handle behind an open descriptor is open.
\<close>

definition handle_law :: "'w proc_env \<Rightarrow> ('w \<Rightarrow> int \<rightharpoonup> 'o) \<Rightarrow> bool" where
  "handle_law env obj \<longleftrightarrow>
     (\<forall>h w h' w'. dup_handle env h w = (Inr h', w') \<longrightarrow> h' \<noteq> INVALID_HANDLE_VALUE \<and> obj w h' = None \<and> obj w' = (obj w)(h' := obj w h))
   \<and> (\<forall>h w e w'. dup_handle env h w = (Inl e, w') \<longrightarrow> obj w' = obj w)
   \<and> (\<forall>h w. obj (close_handle env h w) = (obj w)(h := None))"

definition parent_fds_open :: "'w proc_env \<Rightarrow> ('w \<Rightarrow> int \<rightharpoonup> 'o) \<Rightarrow> 'w \<Rightarrow> bool" where
  "parent_fds_open env obj w \<longleftrightarrow>
     (\<forall>fd. get_osfhandle env fd \<noteq> INVALID_HANDLE_VALUE \<longrightarrow> obj w (get_osfhandle env fd) \<noteq> None)"

text \<open>Later elements of the map override earlier ones.\<close>

definition remap_of :: "mm_remap_fd list \<Rightarrow> int \<rightharpoonup> int" where
  "remap_of ms = fold (\<lambda>m f. f(child_fd m \<mapsto> parent_fd m)) ms Map.empty"

definition info_of :: "fd_table \<Rightarrow> int \<Rightarrow> int" where
  "info_of tab fd = (case get_fd_info tab fd of Some i \<Rightarrow> i | None \<Rightarrow> 0)"

definition info_byte :: "int \<Rightarrow> bool" where
  "info_byte i \<longleftrightarrow> 0 \<le> i \<and> i < 256"

lemma list_all_update: "list_all P xs \<Longrightarrow> P x \<Longrightarrow> list_all P (xs[i := x])"
  using set_update_subset_insert [of xs i x] by (auto simp: list_all_iff)

definition cfg_shape :: "startup_config \<Rightarrow> bool" where
  "cfg_shape cfg \<longleftrightarrow> length (crt_fd_flags cfg) = num_crt_fd cfg \<and> length (crt_fd_hnds cfg) = num_crt_fd cfg
     \<and> length (crt_fd_infos cfg) = num_crt_fd cfg \<and> list_all info_byte (crt_fd_infos cfg)"

definition cfg_maps :: "'w proc_env \<Rightarrow> fd_table \<Rightarrow> (int \<rightharpoonup> int) \<Rightarrow> startup_config \<Rightarrow> bool" where
  "cfg_maps env tab f cfg \<longleftrightarrow>
     (\<forall>c < num_crt_fd cfg. case f (int c) of
        None \<Rightarrow> crt_fd_flags cfg ! c = 0
      | Some p \<Rightarrow> if p = -1 then crt_fd_flags cfg ! c = 0
                 else crt_fd_hnds cfg ! c = get_osfhandle env p \<and> get_osfhandle env p \<noteq> INVALID_HANDLE_VALUE
                   \<and> crt_fd_flags cfg ! c = convert_fdinfo_to_crtflags (info_of tab p)
                   \<and> crt_fd_infos cfg ! c = info_of tab p mod 256)"

lemma setup_mapping_ok:
  assumes "cfg_shape cfg" "cfg_maps env tab f cfg" "setup_mapping env tab m cfg = Inr cfg'"
  shows "cfg_shape cfg'" "cfg_maps env tab (f(child_fd m \<mapsto> parent_fd m)) cfg'"
    "num_crt_fd cfg' = num_crt_fd cfg" "num_fd cfg' = num_fd cfg" "inherited_hnds cfg' = inherited_hnds cfg"
proof -
  show shape: "cfg_shape cfg'" "num_crt_fd cfg' = num_crt_fd cfg" "num_fd cfg' = num_fd cfg"
    "inherited_hnds cfg' = inherited_hnds cfg"
    using assms(1,3) by (auto simp: setup_mapping_def Let_def cfg_shape_def list_all_update info_byte_def split: if_splits)
  have c0: "0 \<le> child_fd m" using assms(3) by (auto simp: setup_mapping_def split: if_splits)
  show "cfg_maps env tab (f(child_fd m \<mapsto> parent_fd m)) cfg'"
    unfolding cfg_maps_def
  proof (intro allI impI)
    fix c assume c: "c < num_crt_fd cfg'"
    show "case (f(child_fd m \<mapsto> parent_fd m)) (int c) of
        None \<Rightarrow> crt_fd_flags cfg' ! c = 0
      | Some p \<Rightarrow> if p = -1 then crt_fd_flags cfg' ! c = 0
                 else crt_fd_hnds cfg' ! c = get_osfhandle env p \<and> get_osfhandle env p \<noteq> INVALID_HANDLE_VALUE
                   \<and> crt_fd_flags cfg' ! c = convert_fdinfo_to_crtflags (info_of tab p)
                   \<and> crt_fd_infos cfg' ! c = info_of tab p mod 256"
    proof (cases "int c = child_fd m")
      case True
      then have "nat (child_fd m) = c" by simp
      then show ?thesis using True c assms(1,3) shape(2) c0
        by (auto simp: setup_mapping_def Let_def cfg_shape_def info_of_def split: if_splits)
    next
      case False
      then have n: "nat (child_fd m) \<noteq> c" using c0 by auto
      then have "crt_fd_flags cfg' ! c = crt_fd_flags cfg ! c" "crt_fd_hnds cfg' ! c = crt_fd_hnds cfg ! c"
        "crt_fd_infos cfg' ! c = crt_fd_infos cfg ! c"
        using assms(3) by (auto simp: setup_mapping_def Let_def split: if_splits)
      then show ?thesis using assms(2) [unfolded cfg_maps_def, rule_format, of c] c shape(2) False
        by (cases "f (int c)") auto
    qed
  qed
qed

lemma setup_mappings_ok:
  assumes "startup_config_setup_mappings env tab ms cfg = Inr cfg'" "cfg_shape cfg" "cfg_maps env tab f cfg"
  shows "cfg_shape cfg' \<and> cfg_maps env tab (fold (\<lambda>m f. f(child_fd m \<mapsto> parent_fd m)) ms f) cfg'
    \<and> num_crt_fd cfg' = num_crt_fd cfg \<and> num_fd cfg' = num_fd cfg \<and> inherited_hnds cfg' = inherited_hnds cfg"
  using assms
proof (induction ms arbitrary: cfg f)
  case (Cons m ms)
  then obtain cfg1 where 1: "setup_mapping env tab m cfg = Inr cfg1" "startup_config_setup_mappings env tab ms cfg1 = Inr cfg'"
    by (auto split: sum.splits)
  note s = setup_mapping_ok [OF Cons.prems(2,3) 1(1)]
  from Cons.IH [OF 1(2) s(1,2)] s(3-5) show ?case by simp
qed simp

lemma crtflags_open: "convert_fdinfo_to_crtflags i AND FOPEN \<noteq> 0"
  by (simp add: convert_fdinfo_to_crtflags_def Let_def FOPEN_def FPIPE_def FDEV_def FAPPEND_def FTEXT_def)

text \<open>
  The loop that duplicates: every open slot gets a new handle of the object of its old handle, and closing the new handles brings the
  table of handles back.
\<close>

definition open_slot :: "startup_config \<Rightarrow> nat \<Rightarrow> bool" where
  "open_slot cfg i \<longleftrightarrow> crt_fd_hnds cfg ! i \<noteq> INVALID_HANDLE_VALUE \<and> crt_fd_flags cfg ! i AND FOPEN \<noteq> 0"

lemma dup_loop_ok:
  assumes law: "handle_law env obj" and shape: "cfg_shape cfg" "distinct is" "\<forall>i \<in> set is. i < num_crt_fd cfg"
    and op: "\<forall>i \<in> set is. open_slot cfg i \<longrightarrow> obj w (crt_fd_hnds cfg ! i) \<noteq> None"
    and run: "dup_loop env is (cfg, w) = (r, cfg', w')"
  shows "\<exists>new. inherited_hnds cfg' = inherited_hnds cfg @ new \<and> (\<forall>h. h \<notin> set new \<longrightarrow> obj w' h = obj w h)
      \<and> (\<forall>h \<in> set new. obj w h = None)
      \<and> cfg_shape cfg' \<and> num_crt_fd cfg' = num_crt_fd cfg \<and> num_fd cfg' = num_fd cfg
      \<and> crt_fd_flags cfg' = crt_fd_flags cfg \<and> crt_fd_infos cfg' = crt_fd_infos cfg
      \<and> (r = None \<longrightarrow> (\<forall>i \<in> set is. open_slot cfg i \<longrightarrow> obj w' (crt_fd_hnds cfg' ! i) = obj w (crt_fd_hnds cfg ! i)))
      \<and> (\<forall>i. i \<notin> set is \<longrightarrow> crt_fd_hnds cfg' ! i = crt_fd_hnds cfg ! i)"
  using shape op run
proof (induction "is" arbitrary: cfg w)
  case Nil
  then show ?case by auto
next
  case (Cons i "is")
  show ?case
  proof (cases "open_slot cfg i")
    case False
    then have run: "dup_loop env is (cfg, w) = (r, cfg', w')" using Cons.prems(5) by (auto simp: open_slot_def Let_def)
    show ?thesis using Cons.IH [OF Cons.prems(1) _ _ _ run] Cons.prems(2-4) False by fastforce
  next
    case True
    obtain d w1 where d: "dup_handle env (crt_fd_hnds cfg ! i) w = (d, w1)" by fastforce
    show ?thesis
    proof (cases d)
      case (Inl e)
      then have "obj w1 = obj w" using law d by (auto simp: handle_law_def)
      moreover have "(r, cfg', w') = (Some (get_errcode_from_w32err e), cfg, w1)"
        using Cons.prems(5) True d Inl by (simp add: open_slot_def Let_def)
      ultimately show ?thesis using Cons.prems(1) by auto
    next
      case (Inr h)
      let ?c = "cfg\<lparr>inherited_hnds := inherited_hnds cfg @ [h], crt_fd_hnds := (crt_fd_hnds cfg)[i := h]\<rparr>"
      have h: "h \<noteq> INVALID_HANDLE_VALUE" "obj w h = None" "obj w1 = (obj w)(h := obj w (crt_fd_hnds cfg ! i))"
        using law d Inr by (auto simp: handle_law_def)
      have run: "dup_loop env is (?c, w1) = (r, cfg', w')"
        using Cons.prems(5) True d Inr by (simp add: open_slot_def Let_def)
      have i: "i < num_crt_fd cfg" "i \<notin> set is" "distinct is" using Cons.prems(2,3) by auto
      have sl: "crt_fd_hnds ?c ! j = crt_fd_hnds cfg ! j" "open_slot ?c j = open_slot cfg j" if "j \<in> set is" for j
      proof -
        have "j \<noteq> i" using that i(2) by auto
        then show "crt_fd_hnds ?c ! j = crt_fd_hnds cfg ! j" "open_slot ?c j = open_slot cfg j" by (simp_all add: open_slot_def)
      qed
      have ob: "obj w1 (crt_fd_hnds cfg ! j) = obj w (crt_fd_hnds cfg ! j)" if "j \<in> set is" "open_slot cfg j" for j
        using that Cons.prems(4) h by auto
      have "cfg_shape ?c" using Cons.prems(1) by (simp add: cfg_shape_def)
      moreover have "\<forall>j \<in> set is. j < num_crt_fd ?c" using Cons.prems(3) by simp
      moreover have "\<forall>j \<in> set is. open_slot ?c j \<longrightarrow> obj w1 (crt_fd_hnds ?c ! j) \<noteq> None"
        using Cons.prems(4) sl ob by auto
      ultimately obtain new where new: "inherited_hnds cfg' = inherited_hnds ?c @ new" "\<forall>g. g \<notin> set new \<longrightarrow> obj w' g = obj w1 g"
        "\<forall>g \<in> set new. obj w1 g = None" "cfg_shape cfg'" "num_crt_fd cfg' = num_crt_fd ?c" "num_fd cfg' = num_fd ?c"
        "crt_fd_flags cfg' = crt_fd_flags ?c" "crt_fd_infos cfg' = crt_fd_infos ?c"
        "r = None \<longrightarrow> (\<forall>j \<in> set is. open_slot ?c j \<longrightarrow> obj w' (crt_fd_hnds cfg' ! j) = obj w1 (crt_fd_hnds ?c ! j))"
        "\<forall>j. j \<notin> set is \<longrightarrow> crt_fd_hnds cfg' ! j = crt_fd_hnds ?c ! j"
        using Cons.IH [OF _ i(3) _ _ run] by blast
      have hi: "crt_fd_hnds cfg' ! i = h" using new(10) i Cons.prems(1) by (simp add: cfg_shape_def)
      have hn: "h \<notin> set new" using new(3) h True Cons.prems(4) by auto
      have "obj w g = None" if "g \<in> set (h # new)" for g
        using that new(3) h by (cases "g = h") auto
      moreover have "obj w' g = obj w g" if "g \<notin> set (h # new)" for g using that new(2) h by auto
      moreover have "obj w' (crt_fd_hnds cfg' ! i) = obj w (crt_fd_hnds cfg ! i)" using hi hn new(2) h by simp
      moreover have "obj w' (crt_fd_hnds cfg' ! j) = obj w (crt_fd_hnds cfg ! j)" if "r = None" "j \<in> set is" "open_slot cfg j" for j
        using that new(9) sl ob by simp
      ultimately show ?thesis using new(1,4-8,10)
        by (intro exI [of _ "h # new"]) (auto simp: nth_list_update)
    qed
  qed
qed


lemma close_hnds: "handle_law env obj \<Longrightarrow> obj (fold (close_handle env) hs w) h = (if h \<in> set hs then None else obj w h)"
  by (induction hs arbitrary: w) (auto simp: handle_law_def)

lemma highest_child_fd: "m \<in> set ms \<Longrightarrow> child_fd m \<le> get_highest_child_fd ms"
proof -
  have "fd_max \<le> fold (\<lambda>m fd_max. if fd_max < child_fd m then child_fd m else fd_max) ms fd_max
    \<and> (\<forall>m \<in> set ms. child_fd m \<le> fold (\<lambda>m fd_max. if fd_max < child_fd m then child_fd m else fd_max) ms fd_max)" for fd_max
  proof (induction ms arbitrary: fd_max)
    case (Cons a ms)
    show ?case using Cons.IH [of "if fd_max < child_fd a then child_fd a else fd_max"] by auto
  qed simp
  then show "m \<in> set ms \<Longrightarrow> child_fd m \<le> get_highest_child_fd ms" unfolding get_highest_child_fd_def by blast
qed

lemma remap_of_dom: "remap_of ms c \<noteq> None \<Longrightarrow> \<exists>m \<in> set ms. child_fd m = c"
proof -
  have "fold (\<lambda>m f. f(child_fd m \<mapsto> parent_fd m)) ms f c \<noteq> None \<Longrightarrow> f c \<noteq> None \<or> (\<exists>m \<in> set ms. child_fd m = c)" for f
    by (induction ms arbitrary: f) (fastforce split: if_splits)+
  from this [of Map.empty] show "remap_of ms c \<noteq> None \<Longrightarrow> \<exists>m \<in> set ms. child_fd m = c" by (auto simp: remap_of_def)
qed

lemma round_up_ge: "0 \<le> x \<Longrightarrow> x \<le> round_up x 8"
  by (simp add: round_up_def signed_divide_int_def)

lemma setup_mappings_nonneg:
  "startup_config_setup_mappings env tab ms cfg = Inr cfg' \<Longrightarrow> m \<in> set ms \<Longrightarrow> 0 \<le> child_fd m"
  by (induction ms arbitrary: cfg) (auto simp: setup_mapping_def split: sum.splits if_splits)

text \<open>The configuration after the allocation, and what a successful initialisation went through.\<close>

definition alloc_config :: "mm_remap_fd list \<Rightarrow> startup_config" where
  "alloc_config fd_map =
     (let n = nat (get_highest_child_fd fd_map + 1); n = (if n < 3 then 3 else n); k = nat (round_up (4 + int n) 8 - 4)
      in empty_config\<lparr>num_fd := n, num_crt_fd := k, crt_fd_flags := replicate k 0, crt_fd_hnds := replicate k 0,
           crt_fd_infos := replicate k 0\<rparr>)"

lemma alloc_config_ok:
  "cfg_shape (alloc_config fd_map)" "cfg_maps env tab Map.empty (alloc_config fd_map)" "inherited_hnds (alloc_config fd_map) = []"
  "num_fd (alloc_config fd_map) \<le> num_crt_fd (alloc_config fd_map)"
  "\<forall>m \<in> set (std_fd_mappings @ fd_map). child_fd m < int (num_fd (alloc_config fd_map))"
proof -
  show "cfg_shape (alloc_config fd_map)" "cfg_maps env tab Map.empty (alloc_config fd_map)" "inherited_hnds (alloc_config fd_map) = []"
    by (simp_all add: cfg_shape_def cfg_maps_def list_all_iff info_byte_def alloc_config_def Let_def empty_config_def)
  show "num_fd (alloc_config fd_map) \<le> num_crt_fd (alloc_config fd_map)"
    using round_up_ge [of "4 + int (if nat (get_highest_child_fd fd_map + 1) < 3 then 3 else nat (get_highest_child_fd fd_map + 1))"]
    by (simp add: alloc_config_def Let_def)
  show "\<forall>m \<in> set (std_fd_mappings @ fd_map). child_fd m < int (num_fd (alloc_config fd_map))"
  proof
    fix m assume "m \<in> set (std_fd_mappings @ fd_map)"
    then have "child_fd m < 3 \<or> child_fd m \<le> get_highest_child_fd fd_map"
      using highest_child_fd [of m fd_map] by (auto simp: std_fd_mappings_def)
    then show "child_fd m < int (num_fd (alloc_config fd_map))" by (auto simp: alloc_config_def Let_def)
  qed
qed

lemma setup_mappings_append:
  "startup_config_setup_mappings env tab (as @ bs) c =
     (case startup_config_setup_mappings env tab as c of Inl e \<Rightarrow> Inl e | Inr c \<Rightarrow> startup_config_setup_mappings env tab bs c)"
  by (induction as arbitrary: c) (auto split: sum.splits)

lemma allocate_internals:
  "startup_config_allocate_internals env (empty_config\<lparr>num_fd := let n = nat (get_highest_child_fd fd_map + 1) in if n < 3 then 3 else n\<rparr>)
     \<in> {Inr (alloc_config fd_map)} \<union> range Inl"
  by (auto simp: startup_config_allocate_internals_def startup_config_alloc_crt_buffs_def alloc_config_def Let_def
      split: option.splits)

lemma init_stages:
  assumes "startup_config_init env tab fd_map w = (Inr cfg, w1)"
  obtains cfg1 where
    "startup_config_setup_mappings env tab (std_fd_mappings @ fd_map) (alloc_config fd_map) = Inr cfg1"
    "dup_loop env [0..<num_fd cfg1] (cfg1, w) = (None, cfg, w1)"
  using assms allocate_internals [of env fd_map] unfolding startup_config_init_def
  by (auto simp: setup_mappings_append Let_def startup_config_dup_inherited_hnds_def
      split: sum.splits option.splits prod.splits if_splits)

lemma init_fail_stages:
  assumes "startup_config_init env tab fd_map w = (Inl e, w1)"
  obtains "w1 = w"
  | cfg1 cfg w2 e' where "startup_config_setup_mappings env tab (std_fd_mappings @ fd_map) (alloc_config fd_map) = Inr cfg1"
      "dup_loop env [0..<num_fd cfg1] (cfg1, w) = (Some e', cfg, w2)" "w1 = snd (startup_config_deinit env (cfg, w2))"
proof -
  have quiet: "snd (startup_config_deinit env (c, w)) = w" if "inherited_hnds c = []" for c
    using that by (simp add: startup_config_deinit_def)
  have mapped: "inherited_hnds c = []" if "startup_config_setup_mappings env tab std_fd_mappings (alloc_config fd_map) = Inr c" for c
    using setup_mappings_ok [OF that alloc_config_ok(1,2)] alloc_config_ok(3) by auto
  show ?thesis using assms allocate_internals [of env fd_map] that unfolding startup_config_init_def
    by (auto simp: setup_mappings_append Let_def startup_config_dup_inherited_hnds_def quiet mapped alloc_config_ok(3)
        split: sum.splits option.splits prod.splits if_splits)
qed

lemma mapped_ok:
  assumes op: "parent_fds_open env obj w" and run: "startup_config_setup_mappings env tab ms cfg0 = Inr cfg1"
    and init: "cfg_shape cfg0" "cfg_maps env tab Map.empty cfg0" "num_fd cfg0 \<le> num_crt_fd cfg0"
  shows "cfg_shape cfg1" "cfg_maps env tab (remap_of ms) cfg1" "num_fd cfg1 \<le> num_crt_fd cfg1" "num_fd cfg1 = num_fd cfg0"
    "inherited_hnds cfg1 = inherited_hnds cfg0"
    "\<forall>i \<in> set [0..<num_fd cfg1]. open_slot cfg1 i \<longrightarrow> obj w (crt_fd_hnds cfg1 ! i) \<noteq> None"
    "\<forall>i \<in> set [0..<num_fd cfg1]. i < num_crt_fd cfg1"
proof -
  show c1: "cfg_shape cfg1" "cfg_maps env tab (remap_of ms) cfg1" "num_fd cfg1 \<le> num_crt_fd cfg1" "num_fd cfg1 = num_fd cfg0"
    "inherited_hnds cfg1 = inherited_hnds cfg0"
    using setup_mappings_ok [OF run init(1,2)] init(3) by (simp_all add: remap_of_def)
  then show "\<forall>i \<in> set [0..<num_fd cfg1]. i < num_crt_fd cfg1" by auto
  show "\<forall>i \<in> set [0..<num_fd cfg1]. open_slot cfg1 i \<longrightarrow> obj w (crt_fd_hnds cfg1 ! i) \<noteq> None"
  proof (intro ballI impI)
    fix i assume i: "i \<in> set [0..<num_fd cfg1]" "open_slot cfg1 i"
    then obtain p where "remap_of ms (int i) = Some p" "p \<noteq> -1"
      using c1(2) [unfolded cfg_maps_def, rule_format, of i] c1(3) by (auto simp: open_slot_def split: option.splits if_splits)
    then show "obj w (crt_fd_hnds cfg1 ! i) \<noteq> None"
      using c1(2) [unfolded cfg_maps_def, rule_format, of i] i(1) c1(3) op by (auto simp: parent_fds_open_def)
  qed
qed

lemma init_ok:
  assumes law: "handle_law env obj" and op: "parent_fds_open env obj w"
    and run: "startup_config_init env tab fd_map w = (Inr cfg, w1)"
  shows "cfg_shape cfg" "num_fd cfg \<le> num_crt_fd cfg"
    "remap_of (std_fd_mappings @ fd_map) c = Some p \<Longrightarrow> 0 \<le> c \<and> nat c < num_fd cfg
       \<and> (if p = -1 then crt_fd_flags cfg ! nat c = 0
          else obj w (get_osfhandle env p) \<noteq> None \<and> obj w1 (crt_fd_hnds cfg ! nat c) = obj w (get_osfhandle env p)
            \<and> crt_fd_flags cfg ! nat c = convert_fdinfo_to_crtflags (info_of tab p)
            \<and> crt_fd_infos cfg ! nat c = info_of tab p mod 256)"
    "i < num_crt_fd cfg \<Longrightarrow> remap_of (std_fd_mappings @ fd_map) (int i) = None \<Longrightarrow> crt_fd_flags cfg ! i = 0"
    "obj (snd (startup_config_deinit env (cfg, w1))) = obj w"
proof -
  let ?f = "remap_of (std_fd_mappings @ fd_map)"
  obtain cfg1 where st: "startup_config_setup_mappings env tab (std_fd_mappings @ fd_map) (alloc_config fd_map) = Inr cfg1"
    "dup_loop env [0..<num_fd cfg1] (cfg1, w) = (None, cfg, w1)"
    by (rule init_stages [OF run])
  note c1 = mapped_ok [OF op st(1) alloc_config_ok(1,2,4)]
  note maps = c1(2) [unfolded cfg_maps_def, rule_format]
  obtain new where d: "inherited_hnds cfg = new" "\<forall>h. h \<notin> set new \<longrightarrow> obj w1 h = obj w h" "\<forall>h \<in> set new. obj w h = None"
    "cfg_shape cfg" "num_crt_fd cfg = num_crt_fd cfg1" "num_fd cfg = num_fd cfg1" "crt_fd_flags cfg = crt_fd_flags cfg1"
    "crt_fd_infos cfg = crt_fd_infos cfg1"
    "\<And>i. i < num_fd cfg1 \<Longrightarrow> open_slot cfg1 i \<Longrightarrow> obj w1 (crt_fd_hnds cfg ! i) = obj w (crt_fd_hnds cfg1 ! i)"
    using dup_loop_ok [OF law c1(1) distinct_upt c1(7,6) st(2)] c1(5) alloc_config_ok(3) by auto
  show "cfg_shape cfg" "num_fd cfg \<le> num_crt_fd cfg" using d(4-6) c1(3) by simp_all
  show "i < num_crt_fd cfg \<Longrightarrow> ?f (int i) = None \<Longrightarrow> crt_fd_flags cfg ! i = 0"
    using maps [of i] d(5,7) by simp
  show "obj (snd (startup_config_deinit env (cfg, w1))) = obj w"
    using d(1-3) by (auto simp: startup_config_deinit_def close_hnds [OF law] fun_eq_iff)
  assume f: "?f c = Some p"
  then obtain m where m: "m \<in> set (std_fd_mappings @ fd_map)" "child_fd m = c" using remap_of_dom by blast
  then have "0 \<le> c" "c < int (num_fd cfg1)" using setup_mappings_nonneg [OF st(1)] alloc_config_ok(5) [of fd_map] c1(4) by auto
  then have c: "0 \<le> c" "nat c < num_fd cfg1" by auto
  have "obj w1 (crt_fd_hnds cfg ! nat c) = obj w (crt_fd_hnds cfg1 ! nat c)" if "p \<noteq> -1"
    using d(9) [OF c(2)] maps [of "nat c"] f c c1(3) that crtflags_open by (auto simp: open_slot_def)
  then show "0 \<le> c \<and> nat c < num_fd cfg
       \<and> (if p = -1 then crt_fd_flags cfg ! nat c = 0
          else obj w (get_osfhandle env p) \<noteq> None \<and> obj w1 (crt_fd_hnds cfg ! nat c) = obj w (get_osfhandle env p)
            \<and> crt_fd_flags cfg ! nat c = convert_fdinfo_to_crtflags (info_of tab p)
            \<and> crt_fd_infos cfg ! nat c = info_of tab p mod 256)"
    using maps [of "nat c"] f c c1(3) d(6-8) op by (auto simp: parent_fds_open_def)
qed

section \<open>What the child reads\<close>

lemma length_le_bytes [simp]: "length (le_bytes n x) = n"
  by (induction n arbitrary: x) simp_all

lemma of_le_bytes: "of_le_bytes (le_bytes n x) = x mod 256 ^ n"
proof (induction n arbitrary: x)
  case (Suc n)
  have "x mod 256 + 256 * (x div 256 mod 256 ^ n) = x mod (256 * 256 ^ n)"
    using mod_mult2_eq' [of x 256 "256 ^ n"] by (simp add: zmod_zmult2_eq)
  then show ?case using Suc by simp
qed simp

lemma set_infos_run:
  "fd + length is \<le> length tab \<Longrightarrow> list_all (\<lambda>i. i AND 255 = i) is \<Longrightarrow>
     set_infos is fd tab = Some (take fd tab @ is @ drop (fd + length is) tab)"
proof (induction "is" arbitrary: fd tab)
  case (Cons i "is")
  then have "set_fd_info (int fd) i tab = Some (tab[fd := i])" by (simp add: set_fd_info_def)
  moreover have "take fd tab @ i # drop (Suc fd) tab = tab[fd := i]" using Cons.prems(1) by (simp add: upd_conv_take_nth_drop)
  ultimately show ?case using Cons.IH [of "Suc fd" "tab[fd := i]"] Cons.prems
    by (simp add: take_Suc_conv_app_nth)
qed simp

lemma info_byte_and: "info_byte i \<Longrightarrow> i AND 255 = i"
proof -
  have "i AND (2 ^ 8 - 1) = i mod 2 ^ 8" by (simp only: take_bit_eq_mask [symmetric] take_bit_eq_mod mask_eq_exp_minus_1 [symmetric])
  then show "info_byte i \<Longrightarrow> i AND 255 = i" by (simp add: info_byte_def)
qed

lemma length_hnds_bytes [simp]: "length (concat (map (le_bytes 8) hs)) = length hs * 8"
  by (induction hs) simp_all

lemma mm_fd_init_run:
  assumes "cfg_shape cfg" "num_crt_fd cfg \<le> length tab" "length tab \<le> MAX_FD"
  shows "mm_fd_init (startup_config_get_startup_info cfg) tab = Some (crt_fd_infos cfg @ drop (num_crt_fd cfg) tab)"
proof -
  let ?n = "num_crt_fd cfg"
  have n: "?n \<le> 2048" using assms(2,3) by (simp add: MAX_FD_def)
  have t: "take 4 (crt_buff cfg) = le_bytes 4 (int ?n)" by (simp add: crt_buff_def)
  have m: "nat (of_le_bytes (take 4 (crt_buff cfg))) = ?n" using n unfolding t of_le_bytes by simp
  have "drop (4 + ?n * 1 + ?n * 8) (crt_buff cfg) = crt_fd_infos cfg"
    using assms(1) by (simp add: crt_buff_def cfg_shape_def)
  moreover have "CRT_BUFFER_SIZE ?n mod 2 ^ 16 = CRT_BUFFER_SIZE ?n" using n by (simp add: CRT_BUFFER_SIZE_def)
  moreover have "list_all (\<lambda>i. i AND 255 = i) (crt_fd_infos cfg)" using assms(1) by (simp add: cfg_shape_def list_all_iff info_byte_and)
  ultimately show ?thesis using assms(1,2) set_infos_run [of 0 "crt_fd_infos cfg" tab] m
    by (simp add: mm_fd_init_def startup_config_get_startup_info_def Let_def cfg_shape_def)
qed


definition child_sees ::
  "'w proc_env \<Rightarrow> ('w \<Rightarrow> int \<rightharpoonup> 'o) \<Rightarrow> fd_table \<Rightarrow> startup_config \<Rightarrow> 'w \<Rightarrow> 'w \<Rightarrow> fd_table \<Rightarrow> nat \<Rightarrow> int \<Rightarrow> bool" where
  "child_sees env obj tab cfg w w1 child_tab c p \<longleftrightarrow> c < num_fd cfg
     \<and> (if p = -1 then crt_fd_flags cfg ! c = 0
        else obj w (get_osfhandle env p) \<noteq> None \<and> obj w1 (crt_fd_hnds cfg ! c) = obj w (get_osfhandle env p)
          \<and> crt_fd_flags cfg ! c = convert_fdinfo_to_crtflags (info_of tab p) \<and> child_tab ! c = info_of tab p mod 256)"

text \<open>
  C5. The descriptors of a child: when the startup information of a child is built, every descriptor of the child that is mapped is
  within the arrays and, unless it is mapped to \<open>-1\<close>, stands for the object of the parent's descriptor of the last mapping
  that names it, with the flags of the C runtime and, once the child has read the buffer, the information that the parent has on
  it; the other descriptors of the child are closed. Afterwards the handles of the parent are what they were.
\<close>

theorem child_descriptors:
  assumes "handle_law env obj" "parent_fds_open env obj w" "startup_config_init env tab fd_map w = (Inr cfg, w1)"
    "num_crt_fd cfg \<le> MAX_FD"
  shows "(\<exists>child_tab. mm_fd_init (startup_config_get_startup_info cfg) (replicate MAX_FD FD_TYPE_UNKNOWN) = Some child_tab
      \<and> (\<forall>c p. remap_of (std_fd_mappings @ fd_map) (int c) = Some p \<longrightarrow> child_sees env obj tab cfg w w1 child_tab c p)
      \<and> (\<forall>c < num_crt_fd cfg. remap_of (std_fd_mappings @ fd_map) (int c) = None \<longrightarrow> crt_fd_flags cfg ! c = 0))
    \<and> obj (snd (startup_config_deinit env (cfg, w1))) = obj w"
proof -
  note ok = init_ok [OF assms(1-3)]
  let ?t = "crt_fd_infos cfg @ drop (num_crt_fd cfg) (replicate MAX_FD FD_TYPE_UNKNOWN)"
  have "mm_fd_init (startup_config_get_startup_info cfg) (replicate MAX_FD FD_TYPE_UNKNOWN) = Some ?t"
    using mm_fd_init_run [OF ok(1)] assms(4) by simp
  moreover have "?t ! c = crt_fd_infos cfg ! c" if "c < num_fd cfg" for c
    using that ok(1,2) by (simp add: cfg_shape_def nth_append)
  then have "child_sees env obj tab cfg w w1 ?t c p" if "remap_of (std_fd_mappings @ fd_map) (int c) = Some p" for c p
    using ok(3) [OF that] by (auto simp: child_sees_def split: if_splits)
  moreover have "crt_fd_flags cfg ! c = 0" if "c < num_crt_fd cfg" "remap_of (std_fd_mappings @ fd_map) (int c) = None" for c
    using ok(4) [OF that] .
  ultimately show ?thesis using ok(5) by blast
qed


text \<open>An initialisation that fails leaves no handle behind.\<close>

lemma init_fail:
  assumes law: "handle_law env obj" and op: "parent_fds_open env obj w"
    and run: "startup_config_init env tab fd_map w = (Inl e, w1)"
  shows "obj w1 = obj w"
  using run
proof (rule init_fail_stages)
  fix cfg1 cfg w2 e'
  assume st: "startup_config_setup_mappings env tab (std_fd_mappings @ fd_map) (alloc_config fd_map) = Inr cfg1"
    "dup_loop env [0..<num_fd cfg1] (cfg1, w) = (Some e', cfg, w2)" "w1 = snd (startup_config_deinit env (cfg, w2))"
  note c1 = mapped_ok [OF op st(1) alloc_config_ok(1,2,4)]
  obtain new where "inherited_hnds cfg = new" "\<forall>h. h \<notin> set new \<longrightarrow> obj w2 h = obj w h" "\<forall>h \<in> set new. obj w h = None"
    using dup_loop_ok [OF law c1(1) distinct_upt c1(7,6) st(2)] c1(5) alloc_config_ok(3) by auto
  then show ?thesis using st(3) by (auto simp: startup_config_deinit_def close_hnds [OF law] fun_eq_iff)
qed simp

section \<open>Waiting for a child\<close>

definition children_ok :: "children_list \<Rightarrow> bool" where
  "children_ok l \<longleftrightarrow> children_inv l \<and> distinct (map fst (children_items l))"

lemma children_ok: "children_ok l \<longleftrightarrow> children.reg_ok l"
  by (simp add: children_ok_def children.reg_ok_def)

lemma take_child_wait:
  assumes "get_handle_from_children_list pid l = Some hnd" "wait_exit env (int hnd) w = (code, w2)"
  shows "mm_wait_process env pid (l, w)
    = Some (Inr (translate_exitcode_in_status code), snd (take_child pid l), close_handle env (int hnd) w2)"
  using assms
  by (auto simp: mm_wait_process_def take_child_def get_handle_from_children_list_def drop_child_from_children_list_def)

lemma spawn_registers:
  assumes "mm_spawn env tab True path fd_map flags argv envp (l, w) = (Inr pid, l1, w1)"
    "flags AND MM_SPAWN_DAEMONIZE = 0"
  shows "\<exists>exe args h. spawn_process env tab exe fd_map args envp w = (Inr (h, pid), w1)
    \<and> l1 = snd (add_to_children_list (list_ok env) (list_junk env) pid (nat h) l)"
  using assms by (auto simp: mm_spawn_def split: option.splits sum.splits prod.splits if_splits)

lemma spawn_process_created:
  assumes "spawn_process env tab exe fd_map args envp w = (Inr (h, pid), w1)"
  shows "\<exists>cmdline si wc hthread wc' cfg. create_process env exe cmdline (concat_strv envp NUL) si wc = (Some (h, hthread, pid), wc')
    \<and> w1 = close_handle env hthread (snd (startup_config_deinit (proc_env.truncate env) (cfg, wc')))"
proof -
  obtain cmdline where c: "concat_strv (Some args) SP = Some cmdline" by (simp add: concat_strv_def)
  obtain r wc where i: "startup_config_init (proc_env.truncate env) tab fd_map w = (r, wc)" by fastforce
  have u: "utf8_valid env exe" using assms by (auto simp: spawn_process_def split: if_splits)
  then obtain cfg where r: "r = Inr cfg" using assms c i by (cases r) (auto simp: spawn_process_def)
  obtain res wc' where p: "create_process env exe cmdline (concat_strv envp NUL) (startup_config_get_startup_info cfg) wc = (res, wc')"
    by fastforce
  obtain cfg' wd where d: "startup_config_deinit (proc_env.truncate env) (cfg, wc') = (cfg', wd)" by fastforce
  have run: "(case res of None \<Rightarrow> (Inl (get_errcode_from_w32err (process_error env wd)), wd)
      | Some (hproc, hthread, pid) \<Rightarrow> (Inr (hproc, pid), close_handle env hthread wd)) = (Inr (h, pid), w1)"
    using assms u unfolding spawn_process_def c i r option.case sum.case prod.case Let_def p d by simp
  then obtain hthread where "res = Some (h, hthread, pid)" "w1 = close_handle env hthread wd"
    by (auto split: option.splits)
  then show ?thesis using p d by (metis snd_conv)
qed

text \<open>A process that is created has a handle.\<close>

definition created_handles :: "'w spawn_env \<Rightarrow> bool" where
  "created_handles env \<longleftrightarrow> (\<forall>exe cmdline envp si w h hthread pid w'.
     create_process env exe cmdline envp si w = (Some (h, hthread, pid), w') \<longrightarrow> 0 \<le> h)"

lemma add_child_ok: "list_all ok [cl_num_max l * 2, 16] \<Longrightarrow> fst (add_to_children_list ok junk pid hnd l)"
  by (auto simp: add_to_children_list_def Let_def realloc_def)

text \<open>
  C15. A child that was spawned with its identifier asked for can be waited for exactly once. Its entry in the table of children is
  the handle that \<open>CreateProcess\<close> has returned with this identifier, and the state after the spawn is that in which the
  handle of the thread of the child was closed behind the release of the startup data. The wait returns the status of the
  exit code of that handle and closes it, the other children keep theirs, and a second wait fails with \<open>ECHILD\<close>. The
  table of children has to be able to grow.
\<close>

theorem spawn_then_wait:
  assumes "children_ok l" "get_handle_from_children_list pid l = None" "list_all (list_ok env) [cl_num_max l * 2, 16]"
    "mm_spawn env tab True path fd_map flags argv envp (l, w) = (Inr pid, l1, w1)" "flags AND MM_SPAWN_DAEMONIZE = 0"
    "created_handles env"
  shows "\<exists>exe cmdline si wc hthread wc' cfg hnd code w2 l2.
      create_process env exe cmdline (concat_strv envp NUL) si wc = (Some (int hnd, hthread, pid), wc')
      \<and> w1 = close_handle env hthread (snd (startup_config_deinit (proc_env.truncate env) (cfg, wc')))
      \<and> (\<lambda>p. get_handle_from_children_list p l1) = (\<lambda>p. get_handle_from_children_list p l)(pid \<mapsto> hnd)
      \<and> wait_exit env (int hnd) w1 = (code, w2)
      \<and> mm_wait_process env pid (l1, w1)
          = Some (Inr (translate_exitcode_in_status code), l2, close_handle env (int hnd) w2)
      \<and> children_ok l2 \<and> (\<forall>p. get_handle_from_children_list p l2 = get_handle_from_children_list p l)
      \<and> (\<forall>w3. mm_wait_process env pid (l2, w3) = Some (Inl ECHILD, l2, w3))"
proof -
  obtain exe args h where sp: "spawn_process env tab exe fd_map args envp w = (Inr (h, pid), w1)"
    and reg: "l1 = snd (add_to_children_list (list_ok env) (list_junk env) pid (nat h) l)"
    using spawn_registers [OF assms(4,5)] by blast
  obtain cmdline si wc hthread wc' cfg where
    cp: "create_process env exe cmdline (concat_strv envp NUL) si wc = (Some (h, hthread, pid), wc')"
    "w1 = close_handle env hthread (snd (startup_config_deinit (proc_env.truncate env) (cfg, wc')))"
    using spawn_process_created [OF sp] by blast
  define hnd where "hnd = nat h"
  have "0 \<le> h" using assms(6) cp(1) unfolding created_handles_def by blast
  then have h0: "h = int hnd" by (simp add: hnd_def)
  have l1: "l1 = snd (add_to_children_list (list_ok env) (list_junk env) pid hnd l)" using reg by (simp add: hnd_def)
  have ok: "children.reg_ok l" and new: "children.map_rep l pid = None"
    using assms(1,2) children_ok children.lookup_rep by auto
  have add: "add_to_children_list (list_ok env) (list_junk env) pid hnd l = (True, l1)"
    using add_child_ok [OF assms(3)] l1 by (metis eq_fst_iff prod.collapse)
  have r1: "children.reg_ok l1" "children.map_rep l1 = (children.map_rep l)(pid \<mapsto> hnd)"
    using children.add_rep [OF ok new add] by auto
  obtain v l2 where t: "take_child pid l1 = (v, l2)" by fastforce
  have r2: "children.reg_ok l2" "children.map_rep l2 = children.map_rep l"
    using children.remove_map_rep [OF r1(1) t] r1(2) new by (auto simp: fun_eq_iff)
  obtain code w2 where we: "wait_exit env (int hnd) w1 = (code, w2)" by fastforce
  have h: "get_handle_from_children_list pid l1 = Some hnd" using children.lookup_rep [OF r1(1)] r1(2) by simp
  have "mm_wait_process env pid (l2, w3) = Some (Inl ECHILD, l2, w3)" for w3
    using children.lookup_rep [OF r2(1)] r2(2) new by (simp add: mm_wait_process_def)
  moreover have "(\<lambda>p. get_handle_from_children_list p l1) = (\<lambda>p. get_handle_from_children_list p l)(pid \<mapsto> hnd)"
    using children.lookup_rep [OF r1(1)] children.lookup_rep [OF ok] r1(2) by (simp add: fun_eq_iff)
  moreover have "get_handle_from_children_list p l2 = get_handle_from_children_list p l" for p
    using children.lookup_rep [OF r2(1)] children.lookup_rep [OF ok] r2(2) by simp
  moreover have "mm_wait_process env pid (l1, w1) = Some (Inr (translate_exitcode_in_status code), l2, close_handle env (int hnd) w2)"
    using take_child_wait [OF h we] t by simp
  moreover have "children_ok l2" using children_ok r2(1) by simp
  ultimately show ?thesis using we cp [unfolded h0] by blast
qed

text \<open>
  Two of the exception codes that are meant to be reported as a segmentation fault are below the limit, and such a child
  seems to have ended by itself.
\<close>

lemma guard_page_exits:
  "translate_exitcode_in_status 0x80000001 = MM_WSTATUS_EXITED OR 1"
  "translate_exitcode_in_status 0x80000002 = MM_WSTATUS_EXITED OR 2"
  "translate_exitcode_in_status 0xC0000005 = MM_WSTATUS_SIGNALED OR SIGSEGV_W"
  by (simp_all add: translate_exitcode_in_status_def MM_WSTATUS_EXITED_def MM_WSTATUS_CODEMASK_def MM_WSTATUS_SIGNALED_def
      SIGSEGV_W_def segv_codes_def)

text \<open>A child whose entry could not be stored was started all the same, and cannot be waited for.\<close>

lemma spawn_unregistered:
  assumes "children_ok l" "get_handle_from_children_list pid l = None" "cl_num_max l \<le> num_child l" "\<forall>n. \<not> list_ok env n"
    "mm_spawn env tab True path fd_map flags argv envp (l, w) = (Inr pid, l1, w1)" "flags AND MM_SPAWN_DAEMONIZE = 0"
  shows "mm_wait_process env pid (l1, w1) = Some (Inl ECHILD, l1, w1)"
proof -
  have "l1 = l" using spawn_registers [OF assms(5,6)] assms(3,4) by (auto simp: add_to_children_list_def realloc_def Let_def)
  then show ?thesis using assms(2) by (simp add: mm_wait_process_def)
qed


section \<open>Concrete children\<close>

text \<open>A process whose world is the list of its open handles, each with the name of its object.\<close>

definition fresh_handle :: "(int \<times> nat) list \<Rightarrow> int" where
  "fresh_handle w = fold (\<lambda>(h, _) m. max h m) w 0 + 1"

definition demo_proc :: "(int \<times> nat) list proc_env" where
  "demo_proc = \<lparr>get_osfhandle = (\<lambda>fd. if 0 \<le> fd \<and> fd < 5 then 100 + fd else INVALID_HANDLE_VALUE),
     dup_handle = (\<lambda>h w. (Inr (fresh_handle w), case map_of w h of None \<Rightarrow> w | Some v \<Rightarrow> (fresh_handle w, v) # w)),
     close_handle = (\<lambda>h w. filter (\<lambda>(k, _). k \<noteq> h) w), calloc_ok = True, malloc_ok = True, attr_list_err = None\<rparr>"

definition demo_handles :: "(int \<times> nat) list" where
  "demo_handles = [(100, 0), (101, 1), (102, 2), (103, 3), (104, 4)]"

lemma fresh_handle: "map_of w (fresh_handle w) = None" "fresh_handle w \<noteq> INVALID_HANDLE_VALUE"
proof -
  have "m \<le> fold (\<lambda>(h, _) m. max h m) w m \<and> (\<forall>x \<in> set w. fst x \<le> fold (\<lambda>(h, _) m. max h m) w m)" for m :: int
  proof (induction w arbitrary: m)
    case (Cons x w)
    obtain a b where x: "x = (a, b)" by fastforce
    have "m \<le> max a m" "a \<le> max a m" by simp_all
    with Cons.IH [of "max a m"] show ?case unfolding x by (auto intro: order_trans simp del: max.bounded_iff)
  qed simp
  note this [of 0]
  then have "0 < fresh_handle w" "\<forall>x \<in> set w. fst x < fresh_handle w" unfolding fresh_handle_def by (linarith, simp)
  then show "map_of w (fresh_handle w) = None" "fresh_handle w \<noteq> INVALID_HANDLE_VALUE"
    by (auto simp: map_of_eq_None_iff INVALID_HANDLE_VALUE_def)
qed

lemma demo_handle_law: "handle_law demo_proc map_of"
  using fresh_handle by (auto simp: handle_law_def demo_proc_def map_of_filter_neq fun_eq_iff split: option.splits)

lemma demo_fds_open: "parent_fds_open demo_proc map_of demo_handles"
proof -
  have "fd \<in> {0, 1, 2, 3, 4}" if "0 \<le> fd" "fd < 5" for fd :: int using that by auto
  then show ?thesis by (auto simp: parent_fds_open_def demo_proc_def demo_handles_def split: if_splits)
qed

definition demo_map :: "mm_remap_fd list" where
  "demo_map = [\<lparr>child_fd = 3, parent_fd = 4\<rparr>, \<lparr>child_fd = 1, parent_fd = 3\<rparr>, \<lparr>child_fd = 2, parent_fd = -1\<rparr>]"

definition demo_tab :: fd_table where
  "demo_tab = [FD_TYPE_CONSOLE, FD_TYPE_CONSOLE, FD_TYPE_CONSOLE, FD_TYPE_PIPE, FD_TYPE_NORMAL]"

definition demo_cfg :: startup_config where
  "demo_cfg = \<lparr>num_fd = 4, num_crt_fd = 4, inherited_hnds = [105, 106, 107], crt_fd_flags = [65, 9, 0, 1],
     crt_fd_hnds = [105, 106, -1, 107], crt_fd_infos = [3, 2, 3, 1]\<rparr>"

lemma demo_init:
  "startup_config_init demo_proc demo_tab demo_map demo_handles
     = (Inr demo_cfg, [(107, 4), (106, 3), (105, 0)] @ demo_handles)"
  by code_simp

theorem child_descriptors_witness:
  "\<exists>child_tab. mm_fd_init (startup_config_get_startup_info demo_cfg) (replicate MAX_FD FD_TYPE_UNKNOWN) = Some child_tab
     \<and> child_sees demo_proc map_of demo_tab demo_cfg demo_handles ([(107, 4), (106, 3), (105, 0)] @ demo_handles) child_tab 1 3
     \<and> child_sees demo_proc map_of demo_tab demo_cfg demo_handles ([(107, 4), (106, 3), (105, 0)] @ demo_handles) child_tab 2 (-1)"
proof -
  have m: "remap_of (std_fd_mappings @ demo_map) (int 1) = Some 3" "remap_of (std_fd_mappings @ demo_map) (int 2) = Some (-1)"
    by (simp_all add: remap_of_def std_fd_mappings_def demo_map_def)
  show ?thesis
    using child_descriptors [OF demo_handle_law demo_fds_open demo_init] m by (auto simp: demo_cfg_def MAX_FD_def)
qed

definition demo_spawn :: "(int \<times> nat) list spawn_env" where
  "demo_spawn = proc_env.extend demo_proc
     \<lparr>access_to = demo_access, env_path = Some ''a;b'', utf8_valid = (\<lambda>_. True), escape_ok = (\<lambda>_. True), list_ok = (\<lambda>_. True),
      list_junk = (\<lambda>_. \<lparr>ce_pid = 0, ce_hnd = 0\<rparr>),
      create_process = (\<lambda>path cmdline envp si w. (Some (500, 501, 42), w @ [(500, 42), (501, 43)])),
      process_error = (\<lambda>_. ERROR_FILE_NOT_FOUND), wait_exit = (\<lambda>h w. (0xC0000005, w))\<rparr>"

lemma demo_search: "search_bin_in_path demo_access (Some ''a;b'') ''prog'' = Inr (''b'' @ [BS] @ ''prog.exe'')" by code_simp

lemma demo_escape:
  "escape_argv (\<lambda>_. True) [''prog''] = Some \<lparr>maxlen = 256, strings = [(16, [CHR 0x22] @ ''prog'' @ [CHR 0x22, NUL])], in_block = True\<rparr>"
  by code_simp

lemma demo_truncate: "proc_env.truncate demo_spawn = demo_proc"
  by (simp add: demo_spawn_def demo_proc_def proc_env.defs)

lemma demo_concat: "\<exists>s. concat_strv (Some [[CHR 0x22] @ ''prog'' @ [CHR 0x22]]) SP = Some s"
  by (simp add: concat_strv_def)

lemma demo_spawned:
  "mm_spawn demo_spawn demo_tab True (Some ''prog'') demo_map 0 None None (children_empty, demo_handles)
     = (Inr 42, snd (add_to_children_list (\<lambda>_. True) (\<lambda>_. \<lparr>ce_pid = 0, ce_hnd = 0\<rparr>) 42 500 children_empty), demo_handles @ [(500, 42)])"
proof -
  obtain c where c: "concat_strv (Some [[CHR 0x22] @ ''prog'' @ [CHR 0x22]]) SP = Some c" using demo_concat by blast
  have p: "\<not> contains_dirsep ''prog''" by code_simp
  have d: "utf8_valid demo_spawn = (\<lambda>_. True)" "escape_ok demo_spawn = (\<lambda>_. True)" "access_to demo_spawn = demo_access"
    "env_path demo_spawn = Some ''a;b''" "list_ok demo_spawn = (\<lambda>_. True)" "list_junk demo_spawn = (\<lambda>_. \<lparr>ce_pid = 0, ce_hnd = 0\<rparr>)"
    "create_process demo_spawn = (\<lambda>path cmdline envp si w. (Some (500, 501, 42), w @ [(500, 42), (501, 43)]))"
    "close_handle demo_spawn = close_handle demo_proc"
    by (simp_all add: demo_spawn_def proc_env.defs demo_proc_def)
  have "spawn_process demo_spawn demo_tab (''b'' @ [BS] @ ''prog.exe'') demo_map [[CHR 0x22] @ ''prog'' @ [CHR 0x22]] None demo_handles
      = (Inr (500, 42), demo_handles @ [(500, 42)])"
    unfolding spawn_process_def c d demo_truncate demo_init
    by (simp add: startup_config_deinit_def demo_cfg_def demo_proc_def demo_handles_def)
  then show ?thesis using p by (simp add: mm_spawn_def d demo_search demo_escape)
qed

theorem spawn_then_wait_witness:
  "\<exists>l2. mm_wait_process demo_spawn 42
        (snd (add_to_children_list (\<lambda>_. True) (\<lambda>_. \<lparr>ce_pid = 0, ce_hnd = 0\<rparr>) 42 500 children_empty), demo_handles @ [(500, 42)])
       = Some (Inr (MM_WSTATUS_SIGNALED OR SIGSEGV_W), l2, close_handle demo_spawn 500 (demo_handles @ [(500, 42)]))"
proof -
  have ok: "children_ok children_empty" "get_handle_from_children_list 42 children_empty = None"
    "list_all (list_ok demo_spawn) [cl_num_max children_empty * 2, 16]" "(0::int) AND MM_SPAWN_DAEMONIZE = 0"
    by (simp_all add: children_ok_def children_empty_def children_inv_def children_items_def demo_spawn_def proc_env.defs
        get_handle_from_children_list_def first_index_def)
  have cp: "create_process demo_spawn exe cmdline envp si w = (Some (500, 501, 42), w @ [(500, 42), (501, 43)])" for exe cmdline envp si w
    by (simp add: demo_spawn_def proc_env.defs)
  then have "created_handles demo_spawn" by (simp add: created_handles_def)
  from spawn_then_wait [OF ok(1-3) demo_spawned ok(4) this] obtain hnd code w2 l2 where
    "int hnd = 500" "wait_exit demo_spawn (int hnd) (demo_handles @ [(500, 42)]) = (code, w2)"
    "mm_wait_process demo_spawn 42
        (snd (add_to_children_list (\<lambda>_. True) (\<lambda>_. \<lparr>ce_pid = 0, ce_hnd = 0\<rparr>) 42 500 children_empty), demo_handles @ [(500, 42)])
      = Some (Inr (translate_exitcode_in_status code), l2, close_handle demo_spawn (int hnd) w2)"
    by (auto simp: cp)
  moreover have "wait_exit demo_spawn h w = (0xC0000005, w)" for h w by (simp add: demo_spawn_def proc_env.defs)
  ultimately show ?thesis using guard_page_exits(3) by auto
qed

end
