(* ===== verification/Proc_Posix.thy ===== *)
theory Proc_Posix
  imports Proc_Win32 Err_Log Arg_Conv
begin

unbundle bit_operations_syntax

text \<open>
  Child processes on POSIX systems (\<^verbatim>\<open>src/src/process-posix.c\<close>). The descriptors of a process are a map from numbers to an open
  file description with the flags of the descriptor, on which \<open>fcntl\<close>, \<open>dup2\<close>, \<open>close\<close> and the closing at \<open>exec\<close> work as POSIX
  says; a child is a copy of the process that runs until \<open>exec\<close> or \<open>exit\<close>, and reports its failure through a pipe. The other
  system calls are parameters.
\<close>

section \<open>Descriptors\<close>

datatype open_file = Opened nat | PipeRead | PipeWrite

record descriptor =
  d_file :: open_file
  d_flags :: int

type_synonym descriptors = "int \<rightharpoonup> descriptor"

definition FD_CLOEXEC :: int where "FD_CLOEXEC = 1"

record posix_env =
  open_max :: int
  dir_list :: "string \<Rightarrow> descriptors \<Rightarrow> string list option"
  execve_err :: "string \<Rightarrow> string list \<Rightarrow> string list \<Rightarrow> retcode"
  execvpe_err :: "string \<Rightarrow> string list \<Rightarrow> string list \<Rightarrow> retcode"
  environ :: "string list"
  realpath :: "string \<Rightarrow> errcode + string"
  chdir_err :: retcode
  fork_res :: "errcode + int"
  fork2_res :: "errcode + int"
  pipe2_res :: "errcode + int \<times> int"
  writes :: "(errcode + nat) list"
  read_res :: "int list \<Rightarrow> errcode + int list"
  errno_num :: "errcode \<Rightarrow> int"
  c_strerror :: "int \<Rightarrow> string"
  formatted :: "string \<Rightarrow> string"
  location :: "string \<Rightarrow> string"
  log_fn :: "string \<Rightarrow> string \<Rightarrow> thread_err \<Rightarrow> thread_err"
  stack_bytes :: "int list"

text \<open>The macros \<open>mm_raise_from_errno\<close>, after a call has failed with the code \<open>e\<close>, and \<open>mm_raise_error\<close>.\<close>

definition raise_errno :: "posix_env \<Rightarrow> errcode \<Rightarrow> string \<Rightarrow> thread_err \<Rightarrow> thread_err" where
  "raise_errno env e fmt s =
     mm_raise_from_errno_full (c_strerror env) (formatted env) (log_fn env)
       \<lparr>r_errnum = 0, r_module = Some ''mmlib'', r_extid = None, r_location = location env fmt, r_desc = fmt\<rparr> (fst s, errno_num env e)"

definition raise_err :: "posix_env \<Rightarrow> errcode \<Rightarrow> string \<Rightarrow> thread_err \<Rightarrow> thread_err" where
  "raise_err env e fmt s =
     mm_raise_error_vfull (log_fn env)
       \<lparr>r_errnum = errno_num env e, r_module = Some ''mmlib'', r_extid = None, r_location = location env fmt, r_desc = formatted env fmt\<rparr> s"

text \<open>\<open>Inl\<close>: the call fails with that \<open>errno\<close>.\<close>

definition getfd :: "int \<Rightarrow> descriptors \<Rightarrow> errcode + int" where
  "getfd fd t = (case t fd of None \<Rightarrow> Inl EBADF | Some d \<Rightarrow> Inr (d_flags d))"

definition setfd :: "int \<Rightarrow> int \<Rightarrow> descriptors \<Rightarrow> retcode \<times> descriptors" where
  "setfd fd flags t = (case t fd of None \<Rightarrow> (Some EBADF, t) | Some d \<Rightarrow> (None, t(fd \<mapsto> d\<lparr>d_flags := flags\<rparr>)))"

definition dup2 :: "posix_env \<Rightarrow> int \<Rightarrow> int \<Rightarrow> descriptors \<Rightarrow> retcode \<times> descriptors" where
  "dup2 env oldfd newfd t =
     (case t oldfd of
        None \<Rightarrow> (Some EBADF, t)
      | Some d \<Rightarrow>
          if newfd < 0 \<or> open_max env \<le> newfd then (Some EBADF, t)
          else if newfd = oldfd then (None, t)
          else (None, t(newfd \<mapsto> \<lparr>d_file = d_file d, d_flags = 0\<rparr>)))"

definition close_fd :: "int \<Rightarrow> descriptors \<Rightarrow> descriptors" where
  "close_fd fd t = t(fd := None)"

text \<open>What is left of the descriptors in the new program.\<close>

definition exec_fds :: "descriptors \<Rightarrow> int \<rightharpoonup> open_file" where
  "exec_fds t = (\<lambda>fd. case t fd of None \<Rightarrow> None | Some d \<Rightarrow> if d_flags d AND FD_CLOEXEC = 0 then Some (d_file d) else None)"

definition set_fd_cloexec :: "int \<Rightarrow> bool \<Rightarrow> descriptors \<Rightarrow> retcode \<times> descriptors" where
  "set_fd_cloexec fd cloexec t =
     (case getfd fd t of
        Inl e \<Rightarrow> (Some e, t)
      | Inr curr_flags \<Rightarrow> setfd fd (if cloexec then curr_flags OR FD_CLOEXEC else curr_flags AND NOT FD_CLOEXEC) t)"

text \<open>\<open>sscanf\<close> with \<open>%i\<close> converts like \<open>strtoll\<close> with base 0; a name that does not start with a number is skipped.\<close>

definition name_to_fd :: "string \<Rightarrow> int option" where
  "name_to_fd name = (case strto_scan name of None \<Rightarrow> None | Some _ \<Rightarrow> Some (fst (strtoll name)))"

definition set_cloexec_all_fds :: "posix_env \<Rightarrow> int \<Rightarrow> descriptors \<Rightarrow> descriptors" where
  "set_cloexec_all_fds env min_fd t =
     (case (case dir_list env ''/proc/self/fd'' t of Some l \<Rightarrow> Some l | None \<Rightarrow> dir_list env ''/dev/fd'' t) of
        None \<Rightarrow> t
      | Some entries \<Rightarrow>
          fold (\<lambda>name t. case name_to_fd name of
                  None \<Rightarrow> t
                | Some fd \<Rightarrow> if fd \<ge> min_fd then snd (set_fd_cloexec fd True t) else t) entries t)"

definition remap_one :: "posix_env \<Rightarrow> mm_remap_fd \<Rightarrow> descriptors \<Rightarrow> retcode \<times> descriptors" where
  "remap_one env m t =
     (let t = (if parent_fd m = -1 then snd (set_fd_cloexec (child_fd m) True t) else t)
      in if parent_fd m = child_fd m then (None, snd (set_fd_cloexec (child_fd m) False t))
         else dup2 env (parent_fd m) (child_fd m) t)"

fun remap_loop :: "posix_env \<Rightarrow> mm_remap_fd list \<Rightarrow> descriptors \<Rightarrow> retcode \<times> descriptors" where
  "remap_loop env [] t = (None, t)"
| "remap_loop env (m # ms) t =
     (case remap_one env m t of
        (Some e, t) \<Rightarrow> (Some e, t)
      | (None, t) \<Rightarrow> remap_loop env ms t)"

text \<open>The error state is that of the thread; the result is \<open>True\<close> for the value 0.\<close>

definition remap_file_descriptors ::
  "posix_env \<Rightarrow> mm_remap_fd list \<Rightarrow> descriptors \<times> thread_err \<Rightarrow> bool \<times> descriptors \<times> thread_err" where
  "remap_file_descriptors env fd_map = (\<lambda>(t, s).
     case remap_loop env fd_map (set_cloexec_all_fds env 3 t) of
       (None, t) \<Rightarrow> (True, t, s)
     | (Some e, t) \<Rightarrow> (False, t, raise_errno env e ''dup2(%i, %i) failed'' s))"

section \<open>The report of a failed child\<close>

text \<open>The error state as the 1024 bytes of \<open>struct mm_error_state\<close>; those behind the error information are not initialised.\<close>

definition errstate_bytes :: "posix_env \<Rightarrow> error_info \<Rightarrow> int list" where
  "errstate_bytes env st = le_bytes 4 (ei_flags st) @ le_bytes 4 (ei_errnum st) @ map of_char (extended_id st) @ map of_char (ei_module st)
     @ map of_char (ei_location st) @ map of_char (ei_desc st) @ stack_bytes env"

definition int32_of_bytes :: "int list \<Rightarrow> int" where
  "int32_of_bytes bs = (let x = of_le_bytes bs in if x < 2 ^ 31 then x else x - 2 ^ 32)"

definition bytes_at :: "nat \<Rightarrow> nat \<Rightarrow> int list \<Rightarrow> int list" where
  "bytes_at off n bs = take n (drop off bs)"

definition errstate_of_bytes :: "int list \<Rightarrow> error_info" where
  "errstate_of_bytes bs = \<lparr>ei_flags = int32_of_bytes (bytes_at 0 4 bs), ei_errnum = int32_of_bytes (bytes_at 4 4 bs),
     extended_id = map char_of (bytes_at 8 64 bs), ei_module = map char_of (bytes_at 72 32 bs),
     ei_location = map char_of (bytes_at 104 256 bs), ei_desc = map char_of (bytes_at 360 256 bs)\<rparr>"

definition ERRSTATE_SIZE :: nat where "ERRSTATE_SIZE = 1024"

text \<open>
  The loop that writes, on the results of the successive calls of \<open>write\<close>: what was written; \<open>None\<close> when the calls given do
  not suffice.
\<close>

fun write_loop :: "(errcode + nat) list \<Rightarrow> int list \<Rightarrow> int list option" where
  "write_loop res [] = Some []"
| "write_loop [] buf = None"
| "write_loop (Inl e # res) buf = (if e = EINTR then write_loop res buf else Some [])"
| "write_loop (Inr rsz # res) buf = map_option ((@) (take rsz buf)) (write_loop res (drop rsz buf))"

text \<open>How a child ends: it runs the program, or exits with what it has put in the pipe.\<close>

datatype child_end =
    Running (image_file: string) (image_argv: "string list") (image_envp: "string list") (image_fds: "int \<rightharpoonup> open_file")
  | Exited (in_pipe: "int list")

definition report_to_parent_and_exit :: "posix_env \<Rightarrow> int \<Rightarrow> descriptors \<times> thread_err \<Rightarrow> child_end option" where
  "report_to_parent_and_exit env report_pipe = (\<lambda>(t, s).
     case t report_pipe of
       None \<Rightarrow> Some (Exited [])
     | Some d \<Rightarrow>
         map_option (\<lambda>out. Exited (if d_file d = PipeWrite then out else []))
           (write_loop (writes env) (errstate_bytes env (mm_save_errorstate s))))"

record startproc_opts =
  so_file :: string
  so_flags :: int
  so_fd_map :: "mm_remap_fd list"
  so_argv :: "string list"
  so_envp :: "string list"

definition exec_err :: "posix_env \<Rightarrow> string \<Rightarrow> string list \<Rightarrow> string list \<Rightarrow> retcode" where
  "exec_err env file argv envp =
     (if CHR ''/'' \<in> set file then execve_err env file argv envp else execvpe_err env file argv envp)"

definition load_new_proc_img :: "posix_env \<Rightarrow> startproc_opts \<Rightarrow> int \<Rightarrow> descriptors \<times> thread_err \<Rightarrow> child_end option" where
  "load_new_proc_img env opts report_pipe = (\<lambda>(t, s).
     let (ok, t, s) = (if so_flags opts AND MM_SPAWN_KEEP_FDS = 0 then remap_file_descriptors env (so_fd_map opts) (t, s)
                       else (True, t, s))
     in if \<not> ok then report_to_parent_and_exit env report_pipe (t, s)
        else case exec_err env (so_file opts) (so_argv opts) (so_envp opts) of
               None \<Rightarrow> Some (Running (so_file opts) (so_argv opts) (so_envp opts) (exec_fds t))
             | Some e \<Rightarrow> report_to_parent_and_exit env report_pipe (t, raise_errno env e ''Cannot run \"%s\"'' s))"

text \<open>\<open>piped\<close> is what the pipe holds when its last writer is gone.\<close>

definition wait_for_load_process_result ::
  "posix_env \<Rightarrow> int \<Rightarrow> int list \<Rightarrow> descriptors \<times> thread_err \<Rightarrow> bool \<times> descriptors \<times> thread_err" where
  "wait_for_load_process_result env watch_fd piped = (\<lambda>(t, s).
     let (ret, s) =
       (case read_res env (take ERRSTATE_SIZE piped) of
          Inl e \<Rightarrow> (False, raise_errno env e ''Cannot read from result pipe'' s)
        | Inr bytes \<Rightarrow>
            if bytes = [] then (True, s)
            else if length bytes < ERRSTATE_SIZE then (False, raise_err env EIO ''Incomplete error state from child'' s)
            else (False, mm_set_errorstate (errstate_of_bytes bytes) s))
     in (ret, close_fd watch_fd t, s))"

section \<open>Spawn\<close>

text \<open>
  What the parent sees of the child when its read ends. \<open>None\<close>: the new program holds the writing end of the pipe, and the
  parent waits for as long as it runs.
\<close>

definition pipe_content :: "child_end \<Rightarrow> int list option" where
  "pipe_content c =
     (case c of
        Exited out \<Rightarrow> Some out
      | Running _ _ _ fds \<Rightarrow> if PipeWrite \<in> ran fds then None else Some [])"

definition open_pipe :: "int \<times> int \<Rightarrow> descriptors \<Rightarrow> descriptors" where
  "open_pipe p t = t(fst p \<mapsto> \<lparr>d_file = PipeRead, d_flags = FD_CLOEXEC\<rparr>, snd p \<mapsto> \<lparr>d_file = PipeWrite, d_flags = FD_CLOEXEC\<rparr>)"

text \<open>
  The outcome: whether the call returned 0, the value stored for the caller, the child processes that were waited for, the child
  itself, and the state of the parent.
\<close>

record spawn_result =
  sr_ok :: bool
  sr_pid :: "int option"
  sr_reaped :: "int list"
  sr_child :: "child_end option"
  sr_fds :: descriptors
  sr_err :: thread_err

definition spawn_failed :: "descriptors \<Rightarrow> thread_err \<Rightarrow> spawn_result" where
  "spawn_failed t s = \<lparr>sr_ok = False, sr_pid = None, sr_reaped = [], sr_child = None, sr_fds = t, sr_err = s\<rparr>"

definition spawn_child :: "posix_env \<Rightarrow> startproc_opts \<Rightarrow> descriptors \<times> thread_err \<Rightarrow> spawn_result option" where
  "spawn_child env opts = (\<lambda>(t, s).
     case pipe2_res env of
       Inl e \<Rightarrow> Some (spawn_failed t (fst s, errno_num env e))
     | Inr (watch_fd, report_fd) \<Rightarrow>
         let t = open_pipe (watch_fd, report_fd) t
         in (case fork_res env of
               Inl e \<Rightarrow> Some (spawn_failed (close_fd report_fd (close_fd watch_fd t)) (raise_errno env e ''unable to fork'' s))
             | Inr pid \<Rightarrow>
                 do { c \<leftarrow> load_new_proc_img env opts report_fd (close_fd watch_fd t, s);
                      piped \<leftarrow> pipe_content c;
                      let t = close_fd report_fd t;
                      let (rv, t, s) = wait_for_load_process_result env watch_fd piped (t, s);
                      Some \<lparr>sr_ok = rv, sr_pid = (if rv then Some pid else None), sr_reaped = (if rv then [] else [pid]),
                            sr_child = Some c, sr_fds = t, sr_err = s\<rparr> }))"

text \<open>The process between the two forks of a daemon; \<open>umask\<close> and \<open>setsid\<close> do not bear on the report.\<close>

definition daemon_child :: "posix_env \<Rightarrow> startproc_opts \<Rightarrow> int \<Rightarrow> descriptors \<times> thread_err \<Rightarrow> child_end option" where
  "daemon_child env opts report_fd = (\<lambda>(t, s).
     let fail = (\<lambda>msg e. report_to_parent_and_exit env report_fd (t, raise_errno env e msg s))
     in (case (if CHR ''/'' \<in> set (so_file opts) then realpath env (so_file opts) else Inr (so_file opts)) of
           Inl e \<Rightarrow> fail '''' e
         | Inr file \<Rightarrow>
             (case chdir_err env of
                Some e \<Rightarrow> fail ''Unable to chdir(\"/\")'' e
              | None \<Rightarrow>
                  (case fork2_res env of
                     Inl e \<Rightarrow> fail ''unable to do second fork'' e
                   | Inr _ \<Rightarrow> load_new_proc_img env (opts\<lparr>so_file := file\<rparr>) report_fd (t, s)))))"

definition spawn_daemon :: "posix_env \<Rightarrow> startproc_opts \<Rightarrow> descriptors \<times> thread_err \<Rightarrow> spawn_result option" where
  "spawn_daemon env opts = (\<lambda>(t, s).
     case pipe2_res env of
       Inl e \<Rightarrow> Some (spawn_failed t (fst s, errno_num env e))
     | Inr (watch_fd, report_fd) \<Rightarrow>
         let t = open_pipe (watch_fd, report_fd) t
         in (case fork_res env of
               Inl e \<Rightarrow> Some (spawn_failed (close_fd report_fd (close_fd watch_fd t)) (raise_errno env e ''unable to do first fork'' s))
             | Inr pid \<Rightarrow>
                 do { c \<leftarrow> daemon_child env opts report_fd (close_fd watch_fd t, s);
                      piped \<leftarrow> pipe_content c;
                      let t = close_fd report_fd t;
                      let (rv, t, s) = wait_for_load_process_result env watch_fd piped (t, s);
                      Some \<lparr>sr_ok = rv, sr_pid = None, sr_reaped = [pid], sr_child = Some c, sr_fds = t, sr_err = s\<rparr> }))"

definition mm_spawn_posix ::
  "posix_env \<Rightarrow> string option \<Rightarrow> mm_remap_fd list \<Rightarrow> int \<Rightarrow> string list option \<Rightarrow> string list option \<Rightarrow>
   descriptors \<times> thread_err \<Rightarrow> spawn_result option" where
  "mm_spawn_posix env file fd_map flags argv envp = (\<lambda>(t, s).
     case file of
       None \<Rightarrow> Some (spawn_failed t (raise_err env EINVAL ''file must not be NULL'' s))
     | Some file \<Rightarrow>
         if flags AND NOT (MM_SPAWN_KEEP_FDS OR MM_SPAWN_DAEMONIZE) \<noteq> 0
         then Some (spawn_failed t (raise_err env EINVAL ''Invalid flags (%08x)'' s))
         else let opts = \<lparr>so_file = file, so_flags = flags, so_fd_map = fd_map,
                          so_argv = (case argv of None \<Rightarrow> [file] | Some a \<Rightarrow> a),
                          so_envp = (case envp of None \<Rightarrow> environ env | Some e \<Rightarrow> e)\<rparr>
              in if flags AND MM_SPAWN_DAEMONIZE \<noteq> 0 then spawn_daemon env opts (t, s) else spawn_child env opts (t, s))"

text \<open>\<open>Inl\<close>: the process runs the new program; \<open>Inr\<close>: the call has failed.\<close>

definition mm_execv_posix ::
  "posix_env \<Rightarrow> string option \<Rightarrow> mm_remap_fd list \<Rightarrow> int \<Rightarrow> string list option \<Rightarrow> string list option \<Rightarrow>
   descriptors \<times> thread_err \<Rightarrow> child_end + descriptors \<times> thread_err" where
  "mm_execv_posix env file fd_map flags argv envp = (\<lambda>(t, s).
     case file of
       None \<Rightarrow> Inr (t, raise_err env EINVAL ''file must not be NULL'' s)
     | Some file \<Rightarrow>
         if flags AND NOT MM_SPAWN_KEEP_FDS \<noteq> 0 then Inr (t, raise_err env EINVAL ''Invalid flags (%08x)'' s)
         else let (ok, t, s) = (if flags AND MM_SPAWN_KEEP_FDS = 0 then remap_file_descriptors env fd_map (t, s) else (True, t, s));
                  argv = (case argv of None \<Rightarrow> [file] | Some a \<Rightarrow> a);
                  envp = (case envp of None \<Rightarrow> environ env | Some e \<Rightarrow> e)
              in if \<not> ok then Inr (t, s)
                 else (case exec_err env file argv envp of
                         None \<Rightarrow> Inl (Running file argv envp (exec_fds t))
                       | Some e \<Rightarrow> Inr (t, raise_errno env e ''Cannot run \"%s\"'' s)))"

section \<open>Wait\<close>

text \<open>The macros that read a status of \<open>waitpid\<close>.\<close>

definition WTERMSIG :: "int \<Rightarrow> int" where "WTERMSIG status = status AND 0x7F"
definition WIFEXITED :: "int \<Rightarrow> bool" where "WIFEXITED status \<longleftrightarrow> WTERMSIG status = 0"
definition WEXITSTATUS :: "int \<Rightarrow> int" where "WEXITSTATUS status = drop_bit 8 (status AND 0xFF00)"
definition WIFSIGNALED :: "int \<Rightarrow> bool" where "WIFSIGNALED status \<longleftrightarrow> 1 \<le> WTERMSIG status \<and> WTERMSIG status < 0x7F"

text \<open>\<open>None\<close>: the program is ended by \<open>mm_crash\<close>.\<close>

definition mm_wait_process_posix :: "posix_env \<Rightarrow> errcode + int \<Rightarrow> thread_err \<Rightarrow> (thread_err + int) option" where
  "mm_wait_process_posix env waited s =
     (case waited of
        Inl e \<Rightarrow> Some (Inl (raise_errno env e ''waitpid(%lli) failed'' s))
      | Inr posix_status \<Rightarrow>
          if WIFEXITED posix_status then Some (Inr (MM_WSTATUS_EXITED OR WEXITSTATUS posix_status))
          else if WIFSIGNALED posix_status then Some (Inr (MM_WSTATUS_SIGNALED OR WTERMSIG posix_status))
          else None)"


section \<open>What the new program inherits\<close>

lemma remap_of_Cons:
  "remap_of (m # ms) c = (case remap_of ms c of Some p \<Rightarrow> Some p | None \<Rightarrow> if c = child_fd m then Some (parent_fd m) else None)"
proof -
  have "fold (\<lambda>m f. f(child_fd m \<mapsto> parent_fd m)) ms f c
      = (case fold (\<lambda>m f. f(child_fd m \<mapsto> parent_fd m)) ms Map.empty c of Some p \<Rightarrow> Some p | None \<Rightarrow> f c)" for f
  proof (induction ms rule: rev_induct)
    case (snoc x xs)
    then show ?case by (auto split: option.splits)
  qed simp
  from this [of "Map.empty(child_fd m \<mapsto> parent_fd m)"] show ?thesis by (auto simp: remap_of_def split: option.splits)
qed

lemma remap_of_parent: "remap_of ms c = Some p \<Longrightarrow> \<exists>m \<in> set ms. parent_fd m = p"
proof (induction ms)
  case Nil
  then show ?case by (simp add: remap_of_def)
next
  case (Cons m ms)
  then show ?case by (auto simp: remap_of_Cons split: option.splits if_splits)
qed

text \<open>No element takes its parent descriptor from a number that an earlier one has redirected.\<close>

definition no_clobber :: "mm_remap_fd list \<Rightarrow> bool" where
  "no_clobber ms \<longleftrightarrow> sorted_wrt (\<lambda>m m'. parent_fd m' \<noteq> child_fd m \<or> parent_fd m = child_fd m) ms"

definition remap_valid :: "posix_env \<Rightarrow> descriptors \<Rightarrow> mm_remap_fd list \<Rightarrow> bool" where
  "remap_valid env t ms \<longleftrightarrow>
     (\<forall>m \<in> set ms. parent_fd m = child_fd m \<or> t (parent_fd m) \<noteq> None \<and> 0 \<le> child_fd m \<and> child_fd m < open_max env)"

text \<open>No element asks for its descriptor to be closed.\<close>

definition no_close :: "mm_remap_fd list \<Rightarrow> bool" where
  "no_close ms \<longleftrightarrow> list_all (\<lambda>m. parent_fd m \<noteq> -1) ms"

definition files :: "descriptors \<Rightarrow> int \<rightharpoonup> open_file" where
  "files t = (\<lambda>fd. map_option d_file (t fd))"

lemma files_None: "files t fd = None \<longleftrightarrow> t fd = None"
  by (simp add: files_def)

lemma cloexec_clear: "(x AND NOT FD_CLOEXEC) AND FD_CLOEXEC = (0 :: int)" "(x OR FD_CLOEXEC) AND FD_CLOEXEC \<noteq> (0 :: int)"
proof -
  show "(x AND NOT FD_CLOEXEC) AND FD_CLOEXEC = 0" by (rule bit_eqI) (simp add: bit_simps)
  have "bit ((x OR FD_CLOEXEC) AND FD_CLOEXEC) 0" by (simp add: bit_simps FD_CLOEXEC_def)
  then show "(x OR FD_CLOEXEC) AND FD_CLOEXEC \<noteq> 0" by fastforce
qed

lemma set_fd_cloexec_files: "files (snd (set_fd_cloexec fd b t)) = files t"
  by (auto simp: set_fd_cloexec_def getfd_def setfd_def files_def split: option.splits)

lemma set_fd_cloexec_exec:
  "exec_fds (snd (set_fd_cloexec fd b t)) = (exec_fds t)(fd := if b then None else files t fd)"
  by (auto simp: set_fd_cloexec_def getfd_def setfd_def files_def exec_fds_def cloexec_clear fun_eq_iff split: option.splits)

lemma remap_one_ok:
  assumes "parent_fd m = child_fd m \<or> t (parent_fd m) \<noteq> None \<and> 0 \<le> child_fd m \<and> child_fd m < open_max env" "parent_fd m \<noteq> -1"
  shows "\<exists>t'. remap_one env m t = (None, t') \<and> exec_fds t' = (exec_fds t)(child_fd m := files t (parent_fd m))
    \<and> files t' = (files t)(child_fd m := files t (parent_fd m))"
proof (cases "parent_fd m = child_fd m")
  case True
  then have "remap_one env m t = (None, snd (set_fd_cloexec (child_fd m) False t))"
    using assms(2) by (simp add: remap_one_def Let_def)
  then show ?thesis using set_fd_cloexec_exec [of "child_fd m" False t] set_fd_cloexec_files [of "child_fd m" False t] True
    by simp
next
  case False
  then obtain d where d: "t (parent_fd m) = Some d" using assms(1) by auto
  let ?t = "t(child_fd m \<mapsto> \<lparr>d_file = d_file d, d_flags = 0\<rparr>)"
  have "remap_one env m t = (None, ?t)" using d assms False by (simp add: remap_one_def Let_def dup2_def)
  moreover have "exec_fds ?t = (exec_fds t)(child_fd m := files t (parent_fd m))"
    "files ?t = (files t)(child_fd m := files t (parent_fd m))"
    using d by (simp_all add: exec_fds_def files_def fun_eq_iff)
  ultimately show ?thesis by blast
qed

lemma remap_one_fails:
  assumes "\<not> (parent_fd m = child_fd m \<or> t (parent_fd m) \<noteq> None \<and> 0 \<le> child_fd m \<and> child_fd m < open_max env)" "parent_fd m \<noteq> -1"
  shows "remap_one env m t = (Some EBADF, t)"
  using assms by (auto simp: remap_one_def dup2_def Let_def split: option.splits)

lemma remap_loop_outcome:
  assumes "no_close ms" "no_clobber ms"
  shows "if remap_valid env t ms
    then \<exists>t'. remap_loop env ms t = (None, t')
      \<and> exec_fds t' = (\<lambda>c. case remap_of ms c of Some p \<Rightarrow> files t p | None \<Rightarrow> exec_fds t c)
    else \<exists>t'. remap_loop env ms t = (Some EBADF, t')"
  using assms
proof (induction ms arbitrary: t)
  case Nil
  then show ?case by (simp add: remap_of_def remap_valid_def)
next
  case (Cons m ms)
  let ?ok = "\<lambda>t m. parent_fd m = child_fd m \<or> t (parent_fd m) \<noteq> None \<and> 0 \<le> child_fd m \<and> child_fd m < open_max env"
  have m: "parent_fd m \<noteq> -1" using Cons.prems(1) by (simp add: no_close_def)
  show ?case
  proof (cases "?ok t m")
    case False
    then have "\<not> remap_valid env t (m # ms)" by (auto simp: remap_valid_def)
    then show ?thesis using remap_one_fails [of m t env, OF False m] by simp
  next
    case True
    then obtain t1 where t1: "remap_one env m t = (None, t1)" "exec_fds t1 = (exec_fds t)(child_fd m := files t (parent_fd m))"
      "files t1 = (files t)(child_fd m := files t (parent_fd m))"
      using remap_one_ok [of m t env] m by blast
    have kept: "files t1 (parent_fd m') = files t (parent_fd m')" if "m' \<in> set ms" for m'
      using Cons.prems(2) that t1(3) by (auto simp: no_clobber_def)
    then have "?ok t1 m' \<longleftrightarrow> ?ok t m'" if "m' \<in> set ms" for m'
      using that files_None [of t1 "parent_fd m'"] files_None [of t "parent_fd m'"] by auto
    then have valid: "remap_valid env t (m # ms) \<longleftrightarrow> remap_valid env t1 ms" using True by (auto simp: remap_valid_def)
    have rest: "no_close ms" "no_clobber ms" using Cons.prems by (auto simp: no_close_def no_clobber_def)
    have "(case remap_of ms c of Some p \<Rightarrow> files t1 p | None \<Rightarrow> exec_fds t1 c)
        = (case remap_of (m # ms) c of Some p \<Rightarrow> files t p | None \<Rightarrow> exec_fds t c)" for c
      using t1(2) kept remap_of_parent [of ms c] by (auto simp: remap_of_Cons split: option.splits)
    from Cons.IH [OF rest, of t1, unfolded this] show ?thesis unfolding valid remap_loop.simps t1(1) by simp
  qed
qed

text \<open>The directory of the descriptors lists those that are open.\<close>

definition fd_dir_law :: "posix_env \<Rightarrow> descriptors \<Rightarrow> bool" where
  "fd_dir_law env t \<longleftrightarrow> (\<exists>l. dir_list env ''/proc/self/fd'' t = Some l \<and> (\<forall>fd. t fd \<noteq> None \<longrightarrow> fd \<in> set (List.map_filter name_to_fd l)))
     \<and> (\<forall>fd. t fd \<noteq> None \<longrightarrow> 0 \<le> fd)"

lemma cloexec_fold:
  "files (fold (\<lambda>name t. case name_to_fd name of None \<Rightarrow> t | Some fd \<Rightarrow> if fd \<ge> n then snd (set_fd_cloexec fd True t) else t) l t) = files t
   \<and> exec_fds (fold (\<lambda>name t. case name_to_fd name of None \<Rightarrow> t | Some fd \<Rightarrow> if fd \<ge> n then snd (set_fd_cloexec fd True t) else t) l t)
     = (\<lambda>fd. if n \<le> fd \<and> fd \<in> set (List.map_filter name_to_fd l) then None else exec_fds t fd)"
  by (induction l arbitrary: t)
    (auto simp: set_fd_cloexec_files set_fd_cloexec_exec map_filter_simps fun_eq_iff split: option.splits)

lemma cloexec_all:
  assumes "fd_dir_law env t"
  shows "files (set_cloexec_all_fds env n t) = files t"
    "exec_fds (set_cloexec_all_fds env n t) = (\<lambda>fd. if n \<le> fd then None else exec_fds t fd)"
proof -
  obtain l where l: "dir_list env ''/proc/self/fd'' t = Some l" "\<forall>fd. t fd \<noteq> None \<longrightarrow> fd \<in> set (List.map_filter name_to_fd l)"
    using assms by (auto simp: fd_dir_law_def)
  have closed: "exec_fds t fd = None" if "fd \<notin> set (List.map_filter name_to_fd l)" for fd
    using l(2) that by (auto simp: exec_fds_def split: option.splits)
  show "files (set_cloexec_all_fds env n t) = files t" using l(1) cloexec_fold by (simp add: set_cloexec_all_fds_def)
  show "exec_fds (set_cloexec_all_fds env n t) = (\<lambda>fd. if n \<le> fd then None else exec_fds t fd)"
    using l(1) cloexec_fold [of n l t] closed by (auto simp: set_cloexec_all_fds_def fun_eq_iff)
qed


text \<open>
  C6. The descriptors of a child on POSIX, for a map that asks for no descriptor to be closed (no \<open>parent_fd\<close> of \<open>-1\<close>) and in
  which no element takes its parent descriptor from a number that an earlier element has redirected. The remapping succeeds
  exactly when each parent descriptor is open and each child descriptor is a possible number (or the two are the same number).
  Then the new program has exactly the descriptors that the documentation announces: the mapped ones, each on the file of the
  last element that names it, and the standard ones that are not mapped and not closed at \<open>exec\<close>. Otherwise it fails and the
  error state is that of \<open>EBADF\<close>. In the two cases left out the code departs from the documentation (\<open>remap_close_fails\<close>,
  \<open>remap_swap\<close>).
\<close>

theorem remap_contract:
  assumes "fd_dir_law env t" "no_close fd_map" "no_clobber fd_map"
  shows "\<exists>ok t' s'. remap_file_descriptors env fd_map (t, s) = (ok, t', s') \<and> (ok \<longleftrightarrow> remap_valid env t fd_map)
    \<and> (if ok
       then s' = s \<and> exec_fds t' = (\<lambda>c. case remap_of fd_map c of Some p \<Rightarrow> files t p | None \<Rightarrow> if c < 3 then exec_fds t c else None)
       else s' = raise_errno env EBADF ''dup2(%i, %i) failed'' s)"
proof -
  let ?t = "set_cloexec_all_fds env 3 t"
  have "?t fd \<noteq> None \<longleftrightarrow> t fd \<noteq> None" for fd
    using cloexec_all(1) [OF assms(1), of 3] files_None [of ?t fd] files_None [of t fd] by simp
  then have valid: "remap_valid env ?t fd_map = remap_valid env t fd_map" by (simp add: remap_valid_def)
  have fds: "(case remap_of fd_map c of Some p \<Rightarrow> files ?t p | None \<Rightarrow> exec_fds ?t c)
      = (case remap_of fd_map c of Some p \<Rightarrow> files t p | None \<Rightarrow> if c < 3 then exec_fds t c else None)" for c
    using cloexec_all [OF assms(1), of 3] by (auto split: option.splits)
  note outcome = remap_loop_outcome [OF assms(2,3), of env ?t, unfolded fds valid]
  show ?thesis
  proof (cases "remap_valid env t fd_map")
    case True
    with outcome obtain t' where "remap_loop env fd_map ?t = (None, t')"
      "exec_fds t' = (\<lambda>c. case remap_of fd_map c of Some p \<Rightarrow> files t p | None \<Rightarrow> if c < 3 then exec_fds t c else None)" by auto
    then show ?thesis using True by (intro exI [of _ True]) (simp add: remap_file_descriptors_def)
  next
    case False
    with outcome obtain t' where "remap_loop env fd_map ?t = (Some EBADF, t')" by auto
    then show ?thesis using False by (intro exI [of _ False]) (simp add: remap_file_descriptors_def)
  qed
qed

definition demo_posix :: posix_env where
  "demo_posix = \<lparr>open_max = 1024, dir_list = (\<lambda>_ t. Some (''.'' # ''..'' # map dec_nat (filter (\<lambda>n. t (int n) \<noteq> None) [0..<10]))),
     execve_err = (\<lambda>_ _ _. Some EACCES), execvpe_err = (\<lambda>file _ _. if file = ''prog'' then None else Some ENOENT), environ = [],
     realpath = (\<lambda>_. Inl ENOENT), chdir_err = None, fork_res = Inr 42, fork2_res = Inr 43, pipe2_res = Inr (5, 6),
     writes = [Inl EINTR, Inr 1000, Inr 24], read_res = (\<lambda>bytes. Inr bytes), errno_num = (\<lambda>e. if e = EBADF then 9 else 2),
     c_strerror = (\<lambda>_. ''error''), formatted = (\<lambda>s. s), location = (\<lambda>_. ''here''), log_fn = (\<lambda>_ _ s. s),
     stack_bytes = replicate 408 0\<rparr>"

definition demo_fds :: descriptors where
  "demo_fds = [0 \<mapsto> \<lparr>d_file = Opened 0, d_flags = 0\<rparr>, 1 \<mapsto> \<lparr>d_file = Opened 1, d_flags = 0\<rparr>, 2 \<mapsto> \<lparr>d_file = Opened 2, d_flags = 0\<rparr>,
     3 \<mapsto> \<lparr>d_file = Opened 3, d_flags = FD_CLOEXEC\<rparr>, 4 \<mapsto> \<lparr>d_file = Opened 4, d_flags = 0\<rparr>]"

lemma demo_dir_law: "fd_dir_law demo_posix demo_fds"
proof -
  have l: "dir_list demo_posix p demo_fds = Some [''.'', ''..'', ''0'', ''1'', ''2'', ''3'', ''4'']" for p
    by (simp add: demo_posix_def demo_fds_def upt_rec dec_nat.simps) code_simp
  have n: "List.map_filter name_to_fd [''.'', ''..'', ''0'', ''1'', ''2'', ''3'', ''4''] = [0, 1, 2, 3, 4]" by code_simp
  have "fd \<in> {0, 1, 2, 3, 4}" if "demo_fds fd \<noteq> None" for fd using that by (auto simp: demo_fds_def split: if_splits)
  then show ?thesis unfolding fd_dir_law_def l using n by force
qed

theorem remap_contract_witness:
  "\<exists>t'. remap_file_descriptors demo_posix [\<lparr>child_fd = 1, parent_fd = 3\<rparr>, \<lparr>child_fd = 7, parent_fd = 4\<rparr>] (demo_fds, (initial_error, 0)) = (True, t', (initial_error, 0))
     \<and> exec_fds t' 0 = Some (Opened 0) \<and> exec_fds t' 1 = Some (Opened 3) \<and> exec_fds t' 3 = None
     \<and> exec_fds t' 4 = None \<and> exec_fds t' 7 = Some (Opened 4)"
proof -
  let ?m = "[\<lparr>child_fd = 1, parent_fd = 3\<rparr>, \<lparr>child_fd = 7, parent_fd = 4\<rparr>]"
  have valid: "remap_valid demo_posix demo_fds ?m" "no_clobber ?m" "no_close ?m"
    by (simp_all add: remap_valid_def no_clobber_def no_close_def demo_posix_def demo_fds_def)
  from remap_contract [OF demo_dir_law this(3,2), of "(initial_error, 0)"] valid(1) obtain t' where
    "remap_file_descriptors demo_posix ?m (demo_fds, (initial_error, 0)) = (True, t', (initial_error, 0))"
    "exec_fds t' = (\<lambda>c. case remap_of ?m c of Some p \<Rightarrow> files demo_fds p | None \<Rightarrow> if c < 3 then exec_fds demo_fds c else None)"
    by auto
  then show ?thesis by (intro exI [of _ t']) (simp add: remap_of_def files_def exec_fds_def demo_fds_def)
qed

text \<open>
  A descriptor of the child that the map asks to close makes the remapping fail: nothing skips the duplication of the descriptor
  \<open>-1\<close>.
\<close>

lemma remap_close_fails:
  assumes "t (-1) = None" "parent_fd m = -1" "child_fd m \<noteq> -1"
  shows "fst (remap_loop env (m # ms) t) = Some EBADF"
proof -
  have "snd (set_fd_cloexec (child_fd m) True t) (-1) = None"
    using fun_cong [OF set_fd_cloexec_files, of "child_fd m" True t "-1"] assms(1) by (simp add: files_def)
  then have "fst (remap_one env m t) = Some EBADF" using assms(2,3) by (simp add: remap_one_def Let_def dup2_def)
  then show ?thesis by (auto split: prod.splits option.splits)
qed

text \<open>Two descriptors cannot be exchanged: the second element sees the redirection that the first has made.\<close>

lemma remap_swap:
  "\<exists>t'. remap_loop demo_posix [\<lparr>child_fd = 3, parent_fd = 4\<rparr>, \<lparr>child_fd = 4, parent_fd = 3\<rparr>] demo_fds = (None, t')
     \<and> exec_fds t' 3 = Some (Opened 4) \<and> exec_fds t' 4 = Some (Opened 4)"
  by (simp add: remap_one_def dup2_def Let_def demo_posix_def demo_fds_def exec_fds_def)


section \<open>The report\<close>

definition is_int32 :: "int \<Rightarrow> bool" where
  "is_int32 x \<longleftrightarrow> - (2 ^ 31) \<le> x \<and> x < 2 ^ 31"

lemma int32_bytes: "is_int32 x \<Longrightarrow> int32_of_bytes (le_bytes 4 x) = x"
proof -
  assume x: "is_int32 x"
  have "x mod 2 ^ 32 = (if 0 \<le> x then x else x + 2 ^ 32)"
  proof (cases "0 \<le> x")
    case False
    then have "(x + 2 ^ 32) mod 2 ^ 32 = x + 2 ^ 32" using x by (intro mod_pos_pos_trivial) (auto simp: is_int32_def)
    then show ?thesis using False by simp
  qed (use x in \<open>auto simp: is_int32_def\<close>)
  then show ?thesis using x by (auto simp: int32_of_bytes_def of_le_bytes Let_def is_int32_def split: if_splits)
qed

lemma char_bytes: "map char_of (map (of_char :: char \<Rightarrow> int) s) = s"
  by (induction s) simp_all

definition report_ok :: "posix_env \<Rightarrow> error_info \<Rightarrow> bool" where
  "report_ok env st \<longleftrightarrow> err_ok st \<and> is_int32 (ei_flags st) \<and> is_int32 (ei_errnum st)"

lemma errstate_roundtrip:
  assumes "report_ok env st" "length (stack_bytes env) = 408"
  shows "length (errstate_bytes env st) = ERRSTATE_SIZE" "errstate_of_bytes (errstate_bytes env st) = st"
proof -
  have l: "length (extended_id st) = 64" "length (ei_module st) = 32" "length (ei_location st) = 256" "length (ei_desc st) = 256"
    using assms(1) by (auto simp: report_ok_def err_ok_def ei_sizes)
  then show "length (errstate_bytes env st) = ERRSTATE_SIZE" using assms(2) by (simp add: errstate_bytes_def ERRSTATE_SIZE_def)
  show "errstate_of_bytes (errstate_bytes env st) = st"
    using assms(1) l by (simp add: errstate_of_bytes_def errstate_bytes_def bytes_at_def report_ok_def int32_bytes char_bytes del: map_map)
qed

text \<open>Writes that are interrupted or partial, but accept enough bytes, put everything in the pipe.\<close>

definition writes_suffice :: "(errcode + nat) list \<Rightarrow> nat \<Rightarrow> bool" where
  "writes_suffice ws n \<longleftrightarrow> list_all (case_sum (\<lambda>e. e = EINTR) (\<lambda>_. True)) ws \<and> n \<le> sum_list (map (case_sum (\<lambda>_. 0) (\<lambda>k. k)) ws)"

lemma write_loop_all: "writes_suffice ws (length buf) \<Longrightarrow> write_loop ws buf = Some buf"
proof (induction ws buf rule: write_loop.induct)
  case (4 rsz res b buf)
  then have "writes_suffice res (length (drop rsz (b # buf)))" by (auto simp: writes_suffice_def)
  then show ?case using 4 by simp
qed (auto simp: writes_suffice_def)

text \<open>The laws of the environment: a pipe on two new descriptors, a read that returns what the pipe holds, and a quiet log.\<close>

definition spawn_law :: "posix_env \<Rightarrow> descriptors \<Rightarrow> int \<Rightarrow> int \<Rightarrow> int \<Rightarrow> bool" where
  "spawn_law env t watch_fd report_fd pid \<longleftrightarrow>
     pipe2_res env = Inr (watch_fd, report_fd) \<and> watch_fd \<noteq> report_fd \<and> t watch_fd = None \<and> t report_fd = None
     \<and> fork_res env = Inr pid \<and> writes_suffice (writes env) ERRSTATE_SIZE
     \<and> (\<forall>bytes. read_res env bytes = Inr bytes) \<and> length (stack_bytes env) = 408
     \<and> harmless (log_fn env) \<and> (\<forall>e. is_int32 (errno_num env e))
     \<and> PipeWrite \<notin> ran (files t)"

lemma raise_errno_state:
  assumes "harmless (log_fn env)" "report_ok env (fst s)" "\<forall>e. is_int32 (errno_num env e)"
  shows "report_ok env (fst (raise_errno env e fmt s))"
    "ei_flags (fst s) AND MM_ERROR_IGNORE = 0 \<Longrightarrow> ei_errnum (fst (raise_errno env e fmt s)) = errno_num env e"
proof -
  obtain r where r: "raise_errno env e fmt s = mm_raise_error_vfull (log_fn env) r (fst s, errno_num env e)"
    "r_errnum r = errno_num env e"
    by (simp add: raise_errno_def mm_raise_from_errno_full_def Let_def)
  have keep: "err_ok (fst (set_error r (st, x)))" if "err_ok st" for st x
    using that by (auto simp: err_ok_def set_error_def Let_def c_strncpy_def c_snprintf_def ei_sizes nth_append)
  show "ei_flags (fst s) AND MM_ERROR_IGNORE = 0 \<Longrightarrow> ei_errnum (fst (raise_errno env e fmt s)) = errno_num env e"
    using raise_state [OF assms(1), of "(fst s, errno_num env e)" r] r by (simp add: set_error_def Let_def)
  show "report_ok env (fst (raise_errno env e fmt s))"
  proof (cases "ei_flags (fst s) AND MM_ERROR_IGNORE = 0")
    case True
    have "fst (raise_errno env e fmt s) = fst (set_error r (fst s, errno_num env e))"
      using raise_state [OF assms(1), of "(fst s, errno_num env e)" r] True r(1) by simp
    moreover have "ei_flags (fst (set_error r (fst s, errno_num env e))) = ei_flags (fst s)"
      "ei_errnum (fst (set_error r (fst s, errno_num env e))) = errno_num env e"
      by (simp_all add: set_error_def Let_def r(2))
    ultimately show ?thesis using keep assms(2,3) by (simp add: report_ok_def)
  next
    case False
    then show ?thesis using assms(2) r(1) by (simp add: mm_raise_error_vfull_def)
  qed
qed


text \<open>The writing end of the pipe stays where it is, on the descriptor \<open>r\<close> only, and is closed at \<open>exec\<close>.\<close>

definition pipe_inv :: "int \<Rightarrow> descriptors \<Rightarrow> bool" where
  "pipe_inv r t \<longleftrightarrow> (\<forall>fd. files t fd = Some PipeWrite \<longleftrightarrow> fd = r) \<and> exec_fds t r = None"

lemma exec_files: "exec_fds t fd = Some f \<Longrightarrow> files t fd = Some f"
  by (auto simp: exec_fds_def files_def split: option.splits if_splits)

lemma pipe_inv_closed: "pipe_inv r t \<Longrightarrow> PipeWrite \<notin> ran (exec_fds t)"
  unfolding pipe_inv_def ran_def using exec_files [of t _ PipeWrite] by fastforce

lemma pipe_inv_cloexec: "pipe_inv r t \<Longrightarrow> b \<or> fd \<noteq> r \<Longrightarrow> pipe_inv r (snd (set_fd_cloexec fd b t))"
  by (auto simp: pipe_inv_def set_fd_cloexec_files set_fd_cloexec_exec)

lemma pipe_inv_all: "pipe_inv r t \<Longrightarrow> pipe_inv r (set_cloexec_all_fds env n t)"
proof -
  have "pipe_inv r t \<Longrightarrow> pipe_inv r (fold (\<lambda>name t. case name_to_fd name of None \<Rightarrow> t
      | Some fd \<Rightarrow> if fd \<ge> n then snd (set_fd_cloexec fd True t) else t) l t)" for l
    using cloexec_fold [of n l t] by (auto simp: pipe_inv_def)
  then show "pipe_inv r t \<Longrightarrow> pipe_inv r (set_cloexec_all_fds env n t)"
    by (auto simp: set_cloexec_all_fds_def split: option.splits)
qed

lemma pipe_inv_dup2: "pipe_inv r t \<Longrightarrow> old \<noteq> r \<Longrightarrow> new \<noteq> r \<Longrightarrow> pipe_inv r (snd (dup2 env old new t))"
proof -
  assume a: "pipe_inv r t" "old \<noteq> r" "new \<noteq> r"
  then have "files t old \<noteq> Some PipeWrite" by (simp add: pipe_inv_def)
  then show ?thesis using a by (auto simp: pipe_inv_def dup2_def files_def exec_fds_def split: option.splits)
qed

lemma pipe_inv_remap:
  assumes "pipe_inv r t" "\<forall>m \<in> set ms. child_fd m \<noteq> r \<and> parent_fd m \<noteq> r" "remap_loop env ms t = (e, t')"
  shows "pipe_inv r t'"
  using assms
proof (induction ms arbitrary: t)
  case (Cons m ms)
  obtain e1 t1 where 1: "remap_one env m t = (e1, t1)" by fastforce
  have "pipe_inv r (snd (remap_one env m t))"
    using Cons.prems(1,2) by (auto simp: remap_one_def Let_def pipe_inv_cloexec pipe_inv_dup2)
  then show ?case using 1 Cons.IH [of t1] Cons.prems(2,3) by (auto split: option.splits)
qed simp

text \<open>Why a child does not load its program.\<close>

definition child_error :: "posix_env \<Rightarrow> startproc_opts \<Rightarrow> descriptors \<Rightarrow> retcode" where
  "child_error env opts t =
     (case (if so_flags opts AND MM_SPAWN_KEEP_FDS = 0 then fst (remap_loop env (so_fd_map opts) (set_cloexec_all_fds env 3 t)) else None) of
        Some e \<Rightarrow> Some e
      | None \<Rightarrow> exec_err env (so_file opts) (so_argv opts) (so_envp opts))"

lemma load_outcome:
  assumes "pipe_inv r t" "so_flags opts AND MM_SPAWN_KEEP_FDS = 0 \<longrightarrow> (\<forall>m \<in> set (so_fd_map opts). child_fd m \<noteq> r \<and> parent_fd m \<noteq> r)"
  shows "(child_error env opts t = None \<and> (\<exists>fds. load_new_proc_img env opts r (t, s)
            = Some (Running (so_file opts) (so_argv opts) (so_envp opts) fds) \<and> PipeWrite \<notin> ran fds))
    \<or> (\<exists>e fmt t'. child_error env opts t = Some e \<and> pipe_inv r t'
         \<and> load_new_proc_img env opts r (t, s) = report_to_parent_and_exit env r (t', raise_errno env e fmt s))"
proof (cases "so_flags opts AND MM_SPAWN_KEEP_FDS = 0")
  case True
  obtain re t' where l: "remap_loop env (so_fd_map opts) (set_cloexec_all_fds env 3 t) = (re, t')" by fastforce
  have "pipe_inv r t'" using pipe_inv_remap [OF pipe_inv_all [OF assms(1)] _ l] assms(2) True by blast
  then show ?thesis using True l pipe_inv_closed
    by (cases re; cases "exec_err env (so_file opts) (so_argv opts) (so_envp opts)")
      (auto simp: child_error_def load_new_proc_img_def remap_file_descriptors_def)
next
  case False
  then show ?thesis using assms(1) pipe_inv_closed
    by (cases "exec_err env (so_file opts) (so_argv opts) (so_envp opts)") (auto simp: child_error_def load_new_proc_img_def)
qed

lemma report_bytes:
  assumes "pipe_inv r t" "writes_suffice (writes env) ERRSTATE_SIZE" "length (stack_bytes env) = 408" "report_ok env (fst s)"
  shows "report_to_parent_and_exit env r (t, s) = Some (Exited (errstate_bytes env (fst s)))"
proof -
  obtain d where "t r = Some d" "d_file d = PipeWrite" using assms(1) by (auto simp: pipe_inv_def files_def)
  then show ?thesis
    using write_loop_all [of "writes env" "errstate_bytes env (fst s)"] errstate_roundtrip(1) [OF assms(4,3)] assms(2)
    by (simp add: report_to_parent_and_exit_def mm_save_errorstate_def)
qed

text \<open>
  C7. Spawning reports truthfully: on a system where the pipe and the fork are available, and when the map does not name the writing
  end of the pipe, the call returns and the descriptors of the caller are as before. If the child could run the program,
  the call succeeds with the identifier of the child and the error state is untouched; otherwise it fails, the child has been
  waited for, and the error state of the caller is the one that the child has raised, with the number of its error.
\<close>

theorem spawn_child_reports:
  assumes "spawn_law env t watch_fd report_fd pid" "report_ok env (fst s)"
    "so_flags opts AND MM_SPAWN_KEEP_FDS = 0 \<longrightarrow> (\<forall>m \<in> set (so_fd_map opts). child_fd m \<noteq> report_fd \<and> parent_fd m \<noteq> report_fd)"
  shows "\<exists>r. spawn_child env opts (t, s) = Some r \<and> sr_fds r = t
    \<and> (case child_error env opts (t(report_fd \<mapsto> \<lparr>d_file = PipeWrite, d_flags = FD_CLOEXEC\<rparr>)) of
         None \<Rightarrow> sr_ok r \<and> sr_pid r = Some pid \<and> sr_reaped r = [] \<and> sr_err r = s
           \<and> (\<exists>fds. sr_child r = Some (Running (so_file opts) (so_argv opts) (so_envp opts) fds))
       | Some e \<Rightarrow> \<not> sr_ok r \<and> sr_pid r = None \<and> sr_reaped r = [pid]
           \<and> (\<exists>fmt. fst (sr_err r) = fst (raise_errno env e fmt s)) \<and> snd (sr_err r) = ei_errnum (fst (sr_err r))
           \<and> (ei_flags (fst s) AND MM_ERROR_IGNORE = 0 \<longrightarrow> ei_errnum (fst (sr_err r)) = errno_num env e))"
proof -
  let ?ct = "t(report_fd \<mapsto> \<lparr>d_file = PipeWrite, d_flags = FD_CLOEXEC\<rparr>)"
  have law: "pipe2_res env = Inr (watch_fd, report_fd)" "watch_fd \<noteq> report_fd" "t watch_fd = None" "t report_fd = None"
    "fork_res env = Inr pid" "writes_suffice (writes env) ERRSTATE_SIZE" "\<forall>b. read_res env b = Inr b"
    "length (stack_bytes env) = 408" "harmless (log_fn env)" "\<forall>e. is_int32 (errno_num env e)" "PipeWrite \<notin> ran (files t)"
    using assms(1) by (auto simp: spawn_law_def)
  have ct: "close_fd watch_fd (open_pipe (watch_fd, report_fd) t) = ?ct"
    and restored: "close_fd watch_fd (close_fd report_fd (open_pipe (watch_fd, report_fd) t)) = t"
    using law(2-4) by (auto simp: close_fd_def open_pipe_def fun_eq_iff)
  have "pipe_inv report_fd ?ct" using law(11) by (auto simp: pipe_inv_def files_def exec_fds_def ran_def FD_CLOEXEC_def)
  from load_outcome [OF this assms(3), of env s] show ?thesis
  proof (elim disjE conjE exE)
    fix fds assume "child_error env opts ?ct = None" "PipeWrite \<notin> ran fds"
      "load_new_proc_img env opts report_fd (?ct, s) = Some (Running (so_file opts) (so_argv opts) (so_envp opts) fds)"
    then show ?thesis using law ct restored
      by (simp add: spawn_child_def Let_def pipe_content_def wait_for_load_process_result_def)
  next
    fix e fmt t' assume c: "child_error env opts ?ct = Some e" "pipe_inv report_fd t'"
      "load_new_proc_img env opts report_fd (?ct, s) = report_to_parent_and_exit env report_fd (t', raise_errno env e fmt s)"
    note ok = raise_errno_state [OF law(9) assms(2) law(10), of e fmt]
    note rt = errstate_roundtrip [OF ok(1) law(8)]
    have "load_new_proc_img env opts report_fd (?ct, s) = Some (Exited (errstate_bytes env (fst (raise_errno env e fmt s))))"
      using c(3) report_bytes [OF c(2) law(6,8) ok(1)] by simp
    moreover have "errstate_bytes env (fst (raise_errno env e fmt s)) \<noteq> []" using rt(1) by (auto simp: ERRSTATE_SIZE_def)
    moreover have "0 < ERRSTATE_SIZE" by (simp add: ERRSTATE_SIZE_def)
    ultimately show ?thesis using law ct restored c(1) rt ok(2)
      by (auto simp: spawn_child_def Let_def pipe_content_def wait_for_load_process_result_def mm_set_errorstate_def)
  qed
qed


definition demo_opts :: "string \<Rightarrow> mm_remap_fd list \<Rightarrow> startproc_opts" where
  "demo_opts file fd_map = \<lparr>so_file = file, so_flags = 0, so_fd_map = fd_map, so_argv = [file], so_envp = []\<rparr>"

lemma demo_spawn_law: "spawn_law demo_posix demo_fds 5 6 42"
proof -
  have "is_int32 (errno_num demo_posix e)" for e by (simp add: demo_posix_def is_int32_def)
  moreover have "PipeWrite \<notin> ran (files demo_fds)" by (auto simp: ran_def files_def demo_fds_def split: if_splits)
  ultimately show ?thesis
    by (simp add: spawn_law_def harmless_def) (simp add: demo_posix_def demo_fds_def writes_suffice_def ERRSTATE_SIZE_def)
qed

lemma initial_report_ok: "report_ok env initial_error"
  by (simp add: report_ok_def err_ok_def initial_error_def ei_sizes is_int32_def)

lemma demo_absent: "child_error demo_posix (demo_opts ''absent'' []) t = Some ENOENT"
  by (simp add: child_error_def demo_opts_def exec_err_def demo_posix_def)

theorem spawn_child_reports_witness:
  "\<exists>r. spawn_child demo_posix (demo_opts ''absent'' []) (demo_fds, (initial_error, 0)) = Some r
     \<and> \<not> sr_ok r \<and> sr_reaped r = [42] \<and> snd (sr_err r) = ei_errnum (fst (sr_err r))"
  using spawn_child_reports [OF demo_spawn_law, of "(initial_error, 0)" "demo_opts ''absent'' []"]
  by (auto simp: initial_report_ok demo_absent) (auto simp: demo_opts_def)

text \<open>
  When the map redirects the number that the pipe happens to have, the failure of the child is not seen: the call succeeds and
  there is no program.
\<close>

lemma spawn_lost_report:
  "\<exists>r. spawn_child (demo_posix\<lparr>dir_list := (\<lambda>_ _. None)\<rparr>) (demo_opts ''absent'' [\<lparr>child_fd = 6, parent_fd = 4\<rparr>]) (demo_fds, (initial_error, 0)) = Some r
     \<and> sr_ok r \<and> sr_pid r = Some 42 \<and> sr_child r = Some (Exited [])"
proof -
  let ?env = "demo_posix\<lparr>dir_list := (\<lambda>_ _. None)\<rparr>" and ?opts = "demo_opts ''absent'' [\<lparr>child_fd = 6, parent_fd = 4\<rparr>]"
  let ?ct = "close_fd 5 (open_pipe (5, 6) demo_fds)" and ?s = "raise_errno ?env ENOENT ''Cannot run \"%s\"'' (initial_error, 0)"
  have "report_ok ?env (fst ?s)"
    by (rule raise_errno_state) (use demo_spawn_law in \<open>simp_all add: initial_report_ok spawn_law_def\<close>)
  then have "length (errstate_bytes ?env (fst ?s)) = ERRSTATE_SIZE"
    by (rule errstate_roundtrip) (simp add: demo_posix_def)
  then have w: "write_loop (writes demo_posix) (errstate_bytes ?env (fst ?s)) = Some (errstate_bytes ?env (fst ?s))"
    using demo_spawn_law by (intro write_loop_all) (simp add: spawn_law_def)
  have d: "open_max demo_posix = 1024" "execvpe_err demo_posix ''absent'' [''absent''] [] = Some ENOENT"
    "pipe2_res demo_posix = Inr (5, 6)" "fork_res demo_posix = Inr 42" "\<And>b. read_res demo_posix b = Inr b"
    by (simp_all add: demo_posix_def)
  have r: "remap_loop ?env [\<lparr>child_fd = 6, parent_fd = 4\<rparr>] ?ct = (None, ?ct(6 \<mapsto> \<lparr>d_file = Opened 4, d_flags = 0\<rparr>))"
    by (simp add: remap_one_def dup2_def d close_fd_def open_pipe_def) (simp add: demo_fds_def d Let_def)
  have "load_new_proc_img ?env ?opts 6 (?ct, (initial_error, 0)) = Some (Exited [])"
    using r w by (simp add: load_new_proc_img_def demo_opts_def remap_file_descriptors_def set_cloexec_all_fds_def exec_err_def d
        report_to_parent_and_exit_def mm_save_errorstate_def)
  then show ?thesis
    by (simp add: spawn_child_def d Let_def pipe_content_def wait_for_load_process_result_def)
qed

section \<open>The status of a child\<close>

lemma WTERMSIG_mod: "WTERMSIG x = x mod 128"
proof -
  have "x AND mask 7 = take_bit 7 x" by (simp add: take_bit_eq_mask)
  then show ?thesis by (simp add: WTERMSIG_def mask_eq_exp_minus_1 take_bit_eq_mod)
qed

lemma WEXITSTATUS_mod: "WEXITSTATUS x = x div 256 mod 256"
proof -
  have "drop_bit 8 (x AND push_bit 8 (mask 8)) = take_bit 8 (drop_bit 8 x)"
    by (rule bit_eqI) (auto simp: bit_simps)
  then show ?thesis by (simp add: WEXITSTATUS_def mask_eq_exp_minus_1 push_bit_eq_mult drop_bit_eq_div take_bit_eq_mod)
qed

lemma status_masks:
  assumes "0 \<le> c" "c < 256"
  shows "(MM_WSTATUS_EXITED OR c) AND MM_WSTATUS_CODEMASK = c" "(MM_WSTATUS_EXITED OR c) AND MM_WSTATUS_EXITED \<noteq> 0"
    "(MM_WSTATUS_EXITED OR c) AND MM_WSTATUS_SIGNALED = 0" "(MM_WSTATUS_SIGNALED OR c) AND MM_WSTATUS_CODEMASK = c"
    "(MM_WSTATUS_SIGNALED OR c) AND MM_WSTATUS_EXITED = 0" "(MM_WSTATUS_SIGNALED OR c) AND MM_WSTATUS_SIGNALED \<noteq> 0"
proof -
  have c: "take_bit 8 c = c" using assms by (simp add: take_bit_eq_mod)
  then have b: "\<not> bit c n" if "8 \<le> n" for n using that by (metis bit_take_bit_iff not_le)
  have z: "(push_bit k 1 OR c) AND push_bit n (1 :: int) = 0" if "k \<noteq> n" "8 \<le> n" for k n
    by (rule bit_eqI) (use that b in \<open>auto simp: bit_simps bit_1_iff\<close>)
  have m: "MM_WSTATUS_EXITED = push_bit 8 1" "MM_WSTATUS_SIGNALED = push_bit 9 1" "MM_WSTATUS_CODEMASK = mask 8"
    by (simp_all add: MM_WSTATUS_EXITED_def MM_WSTATUS_SIGNALED_def MM_WSTATUS_CODEMASK_def mask_eq_exp_minus_1 push_bit_eq_mult)
  show "(MM_WSTATUS_EXITED OR c) AND MM_WSTATUS_CODEMASK = c" "(MM_WSTATUS_SIGNALED OR c) AND MM_WSTATUS_CODEMASK = c"
    unfolding m by (simp_all flip: take_bit_eq_mask add: take_bit_push_bit c)
  show "(MM_WSTATUS_EXITED OR c) AND MM_WSTATUS_SIGNALED = 0" "(MM_WSTATUS_SIGNALED OR c) AND MM_WSTATUS_EXITED = 0"
    unfolding m by (rule z; simp)+
  have "bit ((MM_WSTATUS_EXITED OR c) AND MM_WSTATUS_EXITED) 8" "bit ((MM_WSTATUS_SIGNALED OR c) AND MM_WSTATUS_SIGNALED) 9"
    unfolding m by (simp_all add: bit_simps)
  then show "(MM_WSTATUS_EXITED OR c) AND MM_WSTATUS_EXITED \<noteq> 0" "(MM_WSTATUS_SIGNALED OR c) AND MM_WSTATUS_SIGNALED \<noteq> 0"
    by fastforce+
qed

text \<open>
  The status of a child that has ended: one that exits with a code reports the code modulo 256 as an exit, one that a signal
  has killed, with or without a core dump, reports the number of the signal; the caller reads them back with the masks of the
  interface.
\<close>

theorem wait_status:
  assumes "0 \<le> code" "1 \<le> sig" "sig < 127" "core \<in> {0, 128}"
  shows "(\<exists>st. mm_wait_process_posix env (Inr (256 * (code mod 256))) s = Some (Inr st)
      \<and> st AND MM_WSTATUS_CODEMASK = code mod 256 \<and> st AND MM_WSTATUS_EXITED \<noteq> 0 \<and> st AND MM_WSTATUS_SIGNALED = 0)
    \<and> (\<exists>st. mm_wait_process_posix env (Inr (sig + core)) s = Some (Inr st)
      \<and> st AND MM_WSTATUS_CODEMASK = sig \<and> st AND MM_WSTATUS_EXITED = 0 \<and> st AND MM_WSTATUS_SIGNALED \<noteq> 0)"
proof (intro conjI exI)
  show "mm_wait_process_posix env (Inr (256 * (code mod 256))) s = Some (Inr (MM_WSTATUS_EXITED OR (code mod 256)))"
    by (simp add: mm_wait_process_posix_def WIFEXITED_def WTERMSIG_mod WEXITSTATUS_mod)
  have "(sig + core) mod 128 = sig" using assms by auto
  then show "mm_wait_process_posix env (Inr (sig + core)) s = Some (Inr (MM_WSTATUS_SIGNALED OR sig))"
    using assms by (auto simp: mm_wait_process_posix_def WIFEXITED_def WIFSIGNALED_def WTERMSIG_mod)
qed (use status_masks [of "code mod 256"] status_masks [of sig] assms in auto)

theorem wait_status_witness:
  "(\<exists>st. mm_wait_process_posix demo_posix (Inr (256 * (3 mod 256))) (initial_error, 0) = Some (Inr st)
      \<and> st AND MM_WSTATUS_CODEMASK = 3 mod 256 \<and> st AND MM_WSTATUS_EXITED \<noteq> 0 \<and> st AND MM_WSTATUS_SIGNALED = 0)
    \<and> (\<exists>st. mm_wait_process_posix demo_posix (Inr (11 + 128)) (initial_error, 0) = Some (Inr st)
      \<and> st AND MM_WSTATUS_CODEMASK = 11 \<and> st AND MM_WSTATUS_EXITED = 0 \<and> st AND MM_WSTATUS_SIGNALED \<noteq> 0)"
  by (rule wait_status) simp_all

end
