(* ===== verification/Ipc_Posix.thy ===== *)
theory Ipc_Posix
  imports Proc_Posix
begin

text \<open>
  Local interprocess communication on POSIX systems (\<^verbatim>\<open>src/src/local-ipc-posix.c\<close>): sequenced packets over sockets with abstract
  addresses. Descriptors travel as the bytes of a control message. The calls of the system are parameters; a
  descriptor of a message is compared with the file that it stands for.
\<close>

section \<open>Operations\<close>

definition BACKLOG_LENGTH :: int where "BACKLOG_LENGTH = 5"
definition SUN_PATH_SIZE :: nat where "SUN_PATH_SIZE = 108"
definition SOL_SOCKET_LINUX :: int where "SOL_SOCKET_LINUX = 1"
definition SCM_RIGHTS :: int where "SCM_RIGHTS = 1"
definition MSG_TRUNC_LINUX :: int where "MSG_TRUNC_LINUX = 0x20"
definition MSG_CTRUNC_LINUX :: int where "MSG_CTRUNC_LINUX = 0x08"
definition ENAMETOOLONG_LINUX :: errcode where "ENAMETOOLONG_LINUX = OtherErr 36"

lemmas ipc_consts = SOL_SOCKET_LINUX_def SCM_RIGHTS_def MSG_TRUNC_LINUX_def MSG_CTRUNC_LINUX_def

text \<open>The macros \<open>CMSG_LEN\<close> and \<open>CMSG_SPACE\<close>: a header of 16 bytes, and data that is padded to a multiple of 8.\<close>

definition CMSG_LEN :: "nat \<Rightarrow> nat" where "CMSG_LEN n = 16 + n"
definition CMSG_SPACE :: "nat \<Rightarrow> nat" where "CMSG_SPACE n = 16 + (n + 7) div 8 * 8"

record cmsghdr =
  cmsg_len :: nat
  cmsg_level :: int
  cmsg_type :: int
  cmsg_data :: "int list"

record dgram =
  dg_data :: "int list list"
  dg_size :: nat
  dg_flags :: int
  dg_control :: "cmsghdr option"

record 'w unix_env =
  malloc_srv :: "'w \<Rightarrow> bool"
  unix_socket :: "'w \<Rightarrow> (errcode + int) \<times> 'w"
  unix_bind :: "int \<Rightarrow> string \<Rightarrow> 'w \<Rightarrow> retcode \<times> 'w"
  unix_listen :: "int \<Rightarrow> int \<Rightarrow> 'w \<Rightarrow> retcode \<times> 'w"
  unix_connect :: "int \<Rightarrow> string \<Rightarrow> 'w \<Rightarrow> retcode \<times> 'w"
  unix_accept :: "int \<Rightarrow> 'w \<Rightarrow> (errcode + int) \<times> 'w"
  unix_pair :: "'w \<Rightarrow> (errcode + int \<times> int) \<times> 'w"
  unix_sendmsg :: "int \<Rightarrow> int list list \<Rightarrow> cmsghdr option \<Rightarrow> 'w \<Rightarrow> (errcode + int) \<times> 'w"
  unix_recvmsg :: "int \<Rightarrow> nat list \<Rightarrow> nat \<Rightarrow> 'w \<Rightarrow> (errcode + dgram) \<times> 'w"
  unix_close :: "int \<Rightarrow> 'w \<Rightarrow> 'w"
  unix_errno :: "'w \<Rightarrow> errcode"

text \<open>\<open>mm_close\<close> of \<^verbatim>\<open>src/src/file-posix.c\<close> ignores the descriptor \<open>-1\<close>.\<close>

definition mm_close_posix :: "'w unix_env \<Rightarrow> int \<Rightarrow> 'w \<Rightarrow> 'w" where
  "mm_close_posix env fd w = (if fd = -1 then w else unix_close env fd w)"

text \<open>
  The address of the server by \<open>strncpy\<close>, which fills up with NUL, and that of the client by \<open>memcpy\<close> into a cleared array.
\<close>

definition srv_sun_path :: "string \<Rightarrow> string" where
  "srv_sun_path addr =
     (let n = SUN_PATH_SIZE - 1 in NUL # (if length addr < n then addr @ replicate (n - length addr) NUL else take n addr))"

definition client_sun_path :: "string \<Rightarrow> string" where
  "client_sun_path addr =
     (let len = min (length addr) (SUN_PATH_SIZE - 1); zero = replicate SUN_PATH_SIZE NUL
      in [NUL] @ take len addr @ drop (1 + len) zero)"

definition listen_srv :: "'w unix_env \<Rightarrow> string \<Rightarrow> int \<Rightarrow> 'w \<Rightarrow> retcode \<times> 'w" where
  "listen_srv env addr fd w =
     (case unix_bind env fd (srv_sun_path addr) w of
        (Some e, w) \<Rightarrow> (Some e, w)
      | (None, w) \<Rightarrow> unix_listen env fd BACKLOG_LENGTH w)"

definition mm_ipc_srv_create_posix :: "'w unix_env \<Rightarrow> string \<Rightarrow> 'w \<Rightarrow> (errcode + int) \<times> 'w" where
  "mm_ipc_srv_create_posix env addr w =
     (if length addr > SUN_PATH_SIZE - 1 then (Inl ENAMETOOLONG_LINUX, w)
      else if \<not> malloc_srv env w then (Inl ENOMEM, mm_close_posix env (-1) w)
      else case unix_socket env w of
             (Inl e, w) \<Rightarrow> (Inl e, mm_close_posix env (-1) w)
           | (Inr fd, w) \<Rightarrow>
               (case listen_srv env addr fd w of
                  (Some e, w) \<Rightarrow> (Inl e, mm_close_posix env fd w)
                | (None, w) \<Rightarrow> (Inr fd, w)))"

definition mm_ipc_srv_destroy_posix :: "'w unix_env \<Rightarrow> int option \<Rightarrow> 'w \<Rightarrow> 'w" where
  "mm_ipc_srv_destroy_posix env srv w = (case srv of None \<Rightarrow> w | Some listenfd \<Rightarrow> mm_close_posix env listenfd w)"

definition mm_ipc_srv_accept_posix :: "'w unix_env \<Rightarrow> int \<Rightarrow> 'w \<Rightarrow> (errcode + int) \<times> 'w" where
  "mm_ipc_srv_accept_posix env listenfd w = unix_accept env listenfd w"

definition mm_ipc_connect_posix :: "'w unix_env \<Rightarrow> string \<Rightarrow> 'w \<Rightarrow> (errcode + int) \<times> 'w" where
  "mm_ipc_connect_posix env addr w =
     (case unix_socket env w of
        (Inl e, w) \<Rightarrow> (Inl e, mm_close_posix env (-1) w)
      | (Inr fd, w) \<Rightarrow>
          (case unix_connect env fd (client_sun_path addr) w of
             (Some e, w) \<Rightarrow> (Inl e, mm_close_posix env fd w)
           | (None, w) \<Rightarrow> (Inr fd, w)))"

definition mm_ipc_connected_pair_posix :: "'w unix_env \<Rightarrow> 'w \<Rightarrow> (errcode + int \<times> int) \<times> 'w" where
  "mm_ipc_connected_pair_posix env w = unix_pair env w"

text \<open>The control message of a list of descriptors.\<close>

definition rights_cmsg :: "int list \<Rightarrow> cmsghdr" where
  "rights_cmsg fds = \<lparr>cmsg_len = CMSG_LEN (4 * length fds), cmsg_level = SOL_SOCKET_LINUX, cmsg_type = SCM_RIGHTS,
     cmsg_data = concat (map (le_bytes 4) fds)\<rparr>"

definition mm_ipc_sendmsg_posix :: "'w unix_env \<Rightarrow> int \<Rightarrow> int list list \<Rightarrow> int list \<Rightarrow> 'w \<Rightarrow> (errcode + int) \<times> 'w" where
  "mm_ipc_sendmsg_posix env fd iov fds w =
     unix_sendmsg env fd iov (if 0 < length fds then Some (rights_cmsg fds) else None) w"

text \<open>The message that the caller gets; \<open>pm_fds\<close> is \<open>None\<close> when \<open>num_fds\<close> is not written.\<close>

record posix_msg =
  pm_size :: nat
  pm_data :: "int list list"
  pm_fds :: "int list option"
  pm_flags :: int

definition passed_fd :: "int list \<Rightarrow> nat \<Rightarrow> int" where
  "passed_fd bytes i = int32_of_bytes (take 4 (drop (4 * i) bytes))"

definition recv_rights ::
  "'w unix_env \<Rightarrow> cmsghdr \<Rightarrow> nat \<Rightarrow> int \<Rightarrow> 'w \<Rightarrow> int list \<times> int \<times> 'w" where
  "recv_rights env cmsg num_fds_max flags w =
     (let num_fd = (cmsg_len cmsg - CMSG_LEN 0) div 4;
          num_fds = (if num_fd \<le> num_fds_max then num_fd else num_fds_max);
          fds = map (passed_fd (cmsg_data cmsg)) [0..<num_fds]
      in fold (\<lambda>i (fds, flags, w). (fds, flags OR MSG_CTRUNC_LINUX, unix_close env (passed_fd (cmsg_data cmsg) i) w))
           [num_fds_max..<num_fd] (fds, flags, w))"

definition mm_ipc_recvmsg_posix :: "'w unix_env \<Rightarrow> int \<Rightarrow> nat list \<Rightarrow> nat \<Rightarrow> 'w \<Rightarrow> (errcode + posix_msg) \<times> 'w" where
  "mm_ipc_recvmsg_posix env fd lens num_fds_max w =
     (case unix_recvmsg env fd lens (CMSG_SPACE (num_fds_max * 4)) w of
        (Inl e, w) \<Rightarrow> (Inl e, w)
      | (Inr d, w) \<Rightarrow>
          if dg_size d = 0 then (Inl (unix_errno env w), w)
          else
            let flags = dg_flags d AND (MSG_TRUNC_LINUX OR MSG_CTRUNC_LINUX);
                msg = \<lparr>pm_size = dg_size d, pm_data = dg_data d, pm_fds = None, pm_flags = flags\<rparr>
            in (case dg_control d of
                  None \<Rightarrow> (Inr msg, w)
                | Some cmsg \<Rightarrow>
                    if cmsg_level cmsg = SOL_SOCKET_LINUX \<and> cmsg_type cmsg = SCM_RIGHTS
                    then let (fds, flags, w) = recv_rights env cmsg num_fds_max flags w
                         in (Inr (msg\<lparr>pm_fds := Some fds, pm_flags := flags\<rparr>), w)
                    else (Inr msg, w)))"


section \<open>Addresses\<close>

lemma sun_path_Suc: "SUN_PATH_SIZE = Suc 107"
  by (simp add: SUN_PATH_SIZE_def)

lemma sun_path_eq: "srv_sun_path addr = client_sun_path addr"
proof -
  obtain n where n: "SUN_PATH_SIZE = Suc n" using sun_path_Suc by blast
  show ?thesis unfolding srv_sun_path_def client_sun_path_def n by (auto simp: Let_def min_def)
qed

lemma length_sun_path: "length (srv_sun_path addr) = SUN_PATH_SIZE"
proof -
  obtain n where n: "SUN_PATH_SIZE = Suc n" using sun_path_Suc by blast
  show ?thesis unfolding srv_sun_path_def n by (simp add: Let_def)
qed

text \<open>Two servers never share an address by accident.\<close>

lemma sun_path_inj:
  assumes "no_nul a" "no_nul b" "length a < SUN_PATH_SIZE" "length b < SUN_PATH_SIZE" "srv_sun_path a = srv_sun_path b"
  shows "a = b"
proof -
  have strip: "takeWhile (\<lambda>c. c \<noteq> NUL) (tl (srv_sun_path x)) = x" if "no_nul x" "length x < SUN_PATH_SIZE" for x
  proof -
    have t: "takeWhile (\<lambda>c. c \<noteq> NUL) x = x" using that(1) by (auto simp: takeWhile_eq_all_conv no_nul_def)
    then have "takeWhile (\<lambda>c. c \<noteq> NUL) (x @ replicate n NUL) = x" for n
      by (cases n) (simp_all add: takeWhile_append takeWhile_eq_all_conv)
    then show ?thesis using that(2) t by (auto simp: srv_sun_path_def Let_def)
  qed
  from strip [OF assms(1,3)] have "takeWhile (\<lambda>c. c \<noteq> NUL) (tl (srv_sun_path b)) = a" unfolding assms(5) .
  with strip [OF assms(2,4)] show ?thesis by (rule trans [OF sym, rotated])
qed

section \<open>A message on its way\<close>

text \<open>
  What the sockets of the system promise. \<open>sfile\<close> and \<open>rfile\<close> are the descriptors of the sending and of the receiving process with
  the files they stand for, \<open>queue\<close> the messages that have been sent, with their data and files. A received message has as many
  descriptors as its control buffer has room for, all of them new; the kernel refuses to send more than 253. The law is that of the
  process as it is at the beginning, in the state \<open>w0\<close>.
\<close>

definition cut_data :: "nat list \<Rightarrow> int list \<Rightarrow> int list list" where
  "cut_data lens dat = map (\<lambda>i. take (lens ! i) (drop (sum_list (take i lens)) dat)) [0..<length lens]"

definition received_dgram :: "nat list \<Rightarrow> nat \<Rightarrow> int list \<Rightarrow> nat \<Rightarrow> int list \<Rightarrow> dgram" where
  "received_dgram lens clen dat n nfds =
     \<lparr>dg_data = cut_data lens dat, dg_size = min (length dat) (sum_list lens),
      dg_flags = (if sum_list lens < length dat then MSG_TRUNC_LINUX else 0) OR (if length nfds < n then MSG_CTRUNC_LINUX else 0),
      dg_control = (if nfds = [] then None else Some (rights_cmsg nfds))\<rparr>"

definition SCM_MAX_FD :: nat where "SCM_MAX_FD = 253"

definition dgram_law ::
  "'w unix_env \<Rightarrow> ('w \<Rightarrow> int \<rightharpoonup> 'f) \<Rightarrow> ('w \<Rightarrow> int \<rightharpoonup> 'f) \<Rightarrow> ('w \<Rightarrow> (int list \<times> 'f list) list) \<Rightarrow> 'w \<Rightarrow> bool" where
  "dgram_law env sfile rfile queue w0 \<longleftrightarrow>
     (\<forall>fd iov fds fs w n w'. w = w0 \<longrightarrow> map (sfile w) fds = map Some fs
        \<longrightarrow> unix_sendmsg env fd iov (if 0 < length fds then Some (rights_cmsg fds) else None) w = (Inr n, w')
        \<longrightarrow> n = int (length (concat iov)) \<and> queue w' = queue w @ [(concat iov, fs)] \<and> rfile w' = rfile w \<and> length fs \<le> SCM_MAX_FD)
     \<and> (\<forall>fd lens clen w dat fs q. rfile w = rfile w0 \<longrightarrow> queue w = (dat, fs) # q \<longrightarrow> length fs \<le> SCM_MAX_FD \<longrightarrow> (\<exists>nfds w'.
          unix_recvmsg env fd lens clen w = (Inr (received_dgram lens clen dat (length fs) nfds), w')
          \<and> length nfds = min (length fs) ((clen - CMSG_LEN 0) div 4) \<and> distinct nfds \<and> list_all is_int32 nfds
          \<and> (\<forall>fd \<in> set nfds. rfile w fd = None) \<and> rfile w' = rfile w ++ map_of (zip nfds fs) \<and> queue w' = q))
     \<and> (\<forall>fd w. rfile (unix_close env fd w) = (rfile w)(fd := None))"

lemma length_fd_bytes [simp]: "length (concat (map (le_bytes 4) fds)) = 4 * length fds"
  by (induction fds) simp_all

lemma passed_fd_rights:
  assumes "list_all is_int32 fds" "i < length fds"
  shows "passed_fd (concat (map (le_bytes 4) fds)) i = fds ! i"
  using assms
proof (induction fds arbitrary: i)
  case (Cons f fds)
  then show ?case by (cases i) (simp_all add: passed_fd_def int32_bytes)
qed simp

lemma fold_close:
  assumes "\<And>fd w. rfile (unix_close env fd w) = (rfile w)(fd := None)"
  shows "rfile (fold (\<lambda>fd. unix_close env fd) xs w) = (\<lambda>fd. if fd \<in> set xs then None else rfile w fd)"
  by (induction xs arbitrary: w) (auto simp: assms fun_eq_iff)

text \<open>The loop over the descriptors in excess is a loop over their numbers.\<close>

lemma recv_rights_eq:
  assumes "list_all is_int32 nfds"
  shows "recv_rights env (rights_cmsg nfds) m flags w =
    (take m nfds, if m < length nfds then flags OR MSG_CTRUNC_LINUX else flags, fold (\<lambda>fd. unix_close env fd) (drop m nfds) w)"
proof -
  let ?p = "passed_fd (cmsg_data (rights_cmsg nfds))"
  have n: "(cmsg_len (rights_cmsg nfds) - CMSG_LEN 0) div 4 = length nfds" by (simp add: rights_cmsg_def CMSG_LEN_def)
  have p: "?p i = nfds ! i" if "i < length nfds" for i using passed_fd_rights [OF assms that] by (simp add: rights_cmsg_def)
  have tk: "map ?p [0..<min (length nfds) m] = take m nfds" by (rule nth_equalityI) (simp_all add: p)
  have dr: "map ?p [m..<length nfds] = drop m nfds" by (rule nth_equalityI) (simp_all add: p)
  have fl: "fold (\<lambda>i (fds, flags, w). (fds, flags OR MSG_CTRUNC_LINUX, unix_close env (?p i) w)) is (fds, flags, w)
      = (fds, if is = [] then flags else flags OR MSG_CTRUNC_LINUX, fold (\<lambda>fd. unix_close env fd) (map ?p is) w)" for "is" fds flags w
    by (induction "is" arbitrary: flags w) (auto simp: or.assoc)
  show ?thesis
    unfolding recv_rights_def n Let_def fl using tk dr by (simp add: min_def)
qed

text \<open>What is left of the new descriptors when those in excess are closed.\<close>

lemma zip_take_both: "zip (take m xs) (take m ys) = zip (take m xs) ys"
proof (induction m arbitrary: xs ys)
  case (Suc m)
  then show ?case by (cases xs; cases ys) simp_all
qed simp

lemma map_of_zip_None: "k \<notin> set xs \<Longrightarrow> map_of (zip xs ys) k = None"
  by (auto simp: map_of_eq_None_iff dest: set_zip_leftD)

lemma close_excess:
  assumes "distinct nfds" "\<forall>fd \<in> set nfds. f fd = None" "length nfds \<le> length fs"
  shows "(\<lambda>fd. if fd \<in> set (drop m nfds) then None else (f ++ map_of (zip nfds fs)) fd) = f ++ map_of (zip (take m nfds) fs)"
proof
  fix fd
  have z: "zip nfds fs = zip (take m nfds) fs @ zip (drop m nfds) (drop m fs)"
    using zip_append [of "take m nfds" "take m fs" "drop m nfds" "drop m fs"] assms(3)
    by (cases "m \<le> length nfds") (simp_all add: zip_take_both)
  have disj: "set (take m nfds) \<inter> set (drop m nfds) = {}" using assms(1) by (rule set_take_disj_set_drop_if_distinct) simp
  show "(if fd \<in> set (drop m nfds) then None else (f ++ map_of (zip nfds fs)) fd) = (f ++ map_of (zip (take m nfds) fs)) fd"
  proof (cases "fd \<in> set (drop m nfds)")
    case True
    then have "fd \<notin> set (take m nfds)" "f fd = None" using disj assms(2) by (auto dest: in_set_dropD)
    then show ?thesis using True by (simp add: map_add_def map_of_zip_None)
  next
    case False
    then show ?thesis by (simp add: z map_add_def map_of_zip_None split: option.split)
  qed
qed

text \<open>
  C9. Messages with descriptors on POSIX: a message that was sent arrives with its data, cut to the buffers of the receiver, and with
  as many of its descriptors as the receiver asked for, each standing for the file of the sender. The receiver has these
  descriptors and no others more than before, although the kernel may have passed one more in the padding of the control buffer. Both flags for
  lost data and lost descriptors are exact. The message is not empty and the receiver has room for some data.
\<close>

theorem ipc_posix_delivered:
  assumes law: "dgram_law env sfile rfile queue w" and q: "queue w = []" and fds: "map (sfile w) fds = map Some fs"
    and send: "mm_ipc_sendmsg_posix env fd iov fds w = (Inr n, w1)" and ne: "0 < n" "0 < sum_list lens"
    and recv: "mm_ipc_recvmsg_posix env fd' lens m w1 = (r, w2)"
  shows "\<exists>msg rfds. r = Inr msg \<and> n = int (length (concat iov)) \<and> pm_size msg = min (length (concat iov)) (sum_list lens)
    \<and> pm_data msg = cut_data lens (concat iov)
    \<and> (pm_fds msg = Some rfds \<or> pm_fds msg = None \<and> rfds = [])
    \<and> distinct rfds \<and> length rfds = min (length fs) m \<and> (\<forall>fd \<in> set rfds. rfile w fd = None)
    \<and> rfile w2 = rfile w ++ map_of (zip rfds fs)
    \<and> pm_flags msg = ((if sum_list lens < length (concat iov) then MSG_TRUNC_LINUX else 0) OR (if m < length fs then MSG_CTRUNC_LINUX else 0))"
proof -
  have s: "n = int (length (concat iov))" "queue w1 = [(concat iov, fs)]" "rfile w1 = rfile w" "length fs \<le> SCM_MAX_FD"
    using law fds send q unfolding dgram_law_def mm_ipc_sendmsg_posix_def by fastforce+
  obtain nfds w' where d: "unix_recvmsg env fd' lens (CMSG_SPACE (m * 4)) w1
      = (Inr (received_dgram lens (CMSG_SPACE (m * 4)) (concat iov) (length fs) nfds), w')"
      and len: "length nfds = min (length fs) ((CMSG_SPACE (m * 4) - CMSG_LEN 0) div 4)"
      and nf: "distinct nfds" "list_all is_int32 nfds" "\<forall>fd \<in> set nfds. rfile w1 fd = None" "rfile w' = rfile w1 ++ map_of (zip nfds fs)"
    using law s(2-4) unfolding dgram_law_def by blast
  have cl: "rfile (unix_close env fd w) = (rfile w)(fd := None)" for fd w using law unfolding dgram_law_def by blast
  have room: "m \<le> (CMSG_SPACE (m * 4) - CMSG_LEN 0) div 4" by (simp add: CMSG_SPACE_def CMSG_LEN_def)
  define fl where "fl = (if sum_list lens < length (concat iov) then MSG_TRUNC_LINUX else 0)"
  have masks: "(fl OR (if b then MSG_CTRUNC_LINUX else 0)) AND (MSG_TRUNC_LINUX OR MSG_CTRUNC_LINUX)
      = fl OR (if b then MSG_CTRUNC_LINUX else 0)" for b by (auto simp: fl_def ipc_consts)
  have ct: "length nfds < length fs \<or> m < length nfds \<longleftrightarrow> m < length fs" using len room by auto
  have r: "min (length nfds) m = min (length fs) m" using len room by (simp add: min_def)
  define D where "D = received_dgram lens (CMSG_SPACE (m * 4)) (concat iov) (length fs) nfds"
  define ctr where "ctr = (if length nfds < length fs then MSG_CTRUNC_LINUX else 0)"
  have D: "dg_size D = min (length (concat iov)) (sum_list lens)" "dg_data D = cut_data lens (concat iov)"
      "dg_flags D AND (MSG_TRUNC_LINUX OR MSG_CTRUNC_LINUX) = fl OR ctr" "dg_control D = (if nfds = [] then None else Some (rights_cmsg nfds))"
    using masks by (simp_all add: D_def received_dgram_def fl_def ctr_def)
  have sz: "dg_size D \<noteq> 0" using ne s(1) D(1) by auto
  have rc: "cmsg_level (rights_cmsg nfds) = SOL_SOCKET_LINUX" "cmsg_type (rights_cmsg nfds) = SCM_RIGHTS" by (simp_all add: rights_cmsg_def)
  note eval = recv [unfolded mm_ipc_recvmsg_posix_def d [folded D_def]]
  show ?thesis
  proof (cases "nfds = []")
    case True
    then have "min (length fs) m = 0" "r = Inr \<lparr>pm_size = dg_size D, pm_data = dg_data D, pm_fds = None, pm_flags = fl OR ctr\<rparr>" "w2 = w'"
      using eval r sz D(3,4) by (auto simp: Let_def)
    then show ?thesis using True s nf(4) ct by (intro exI [of _ "projr r"] exI [of _ "[]"]) (simp add: D fl_def ctr_def)
  next
    case False
    then have e: "r = Inr \<lparr>pm_size = dg_size D, pm_data = dg_data D, pm_fds = Some (take m nfds),
        pm_flags = (if m < length nfds then fl OR ctr OR MSG_CTRUNC_LINUX else fl OR ctr)\<rparr>"
        "w2 = fold (\<lambda>fd. unix_close env fd) (drop m nfds) w'"
      using eval sz D(3,4) rc by (auto simp: Let_def or.assoc recv_rights_eq [OF nf(2)])
    have flags: "(if m < length nfds then fl OR ctr OR MSG_CTRUNC_LINUX else fl OR ctr) = fl OR (if m < length fs then MSG_CTRUNC_LINUX else 0)"
      using ct by (auto simp: ctr_def)
    have "rfile w2 = rfile w ++ map_of (zip (take m nfds) fs)"
      unfolding e(2) fold_close [OF cl] nf(4) s(3)
      by (rule close_excess) (use nf s(3) len in auto)
    then show ?thesis
      using e(1) s nf r by (intro exI [of _ "projr r"] exI [of _ "take m nfds"])
        (auto simp: D flags fl_def dest: in_set_takeD)
  qed
qed


section \<open>A concrete channel\<close>

text \<open>
  One process that sends to itself: the world is the queue of messages and the open descriptors with the names of their files.
\<close>

type_synonym demo_chan = "(int list \<times> string list) list \<times> (int \<times> string) list"

definition fresh_fds :: "(int \<times> string) list \<Rightarrow> nat \<Rightarrow> int list" where
  "fresh_fds t j = map (\<lambda>i. foldr max (map fst t) 2 + 1 + int i) [0..<j]"

definition demo_unix :: "demo_chan unix_env" where
  "demo_unix = \<lparr>malloc_srv = (\<lambda>_. True), unix_socket = (\<lambda>w. (Inl EMFILE, w)), unix_bind = (\<lambda>_ _ w. (Some EACCES, w)),
     unix_listen = (\<lambda>_ _ w. (Some EACCES, w)), unix_connect = (\<lambda>_ _ w. (Some ECONNREFUSED, w)), unix_accept = (\<lambda>_ w. (Inl EINVAL, w)),
     unix_pair = (\<lambda>w. (Inl EMFILE, w)),
     unix_sendmsg = (\<lambda>fd iov c (q, t).
       let fds = (case c of None \<Rightarrow> [] | Some c \<Rightarrow> map (passed_fd (cmsg_data c)) [0..<length (cmsg_data c) div 4]);
           fs = map (map_of t) fds
       in if list_all (\<lambda>f. f \<noteq> None) fs \<and> length fs \<le> 253 then (Inr (int (length (concat iov))), q @ [(concat iov, map the fs)], t)
          else (Inl EBADF, q, t)),
     unix_recvmsg = (\<lambda>fd lens clen (q, t). case q of
         [] \<Rightarrow> (Inl EINTR, q, t)
       | (dat, fs) # q \<Rightarrow>
           let nfds = fresh_fds t (min (length fs) ((clen - CMSG_LEN 0) div 4))
           in (Inr (received_dgram lens clen dat (length fs) nfds), q, zip nfds fs @ t)),
     unix_close = (\<lambda>fd (q, t). (q, filter (\<lambda>(a, _). a \<noteq> fd) t)), unix_errno = (\<lambda>_. EINTR)\<rparr>"

definition demo_chan0 :: demo_chan where
  "demo_chan0 = ([], [(3, ''log''), (4, ''data'')])"

lemma fresh_fds: "length (fresh_fds t j) = j" "distinct (fresh_fds t j)" "fd \<in> set (fresh_fds t j) \<Longrightarrow> map_of t fd = None"
proof -
  show "length (fresh_fds t j) = j" "distinct (fresh_fds t j)" by (auto simp: fresh_fds_def distinct_map inj_on_def)
  assume "fd \<in> set (fresh_fds t j)"
  then have "foldr max (map fst t) 2 < fd" by (auto simp: fresh_fds_def)
  then show "map_of t fd = None" by (rule map_of_above_max)
qed

lemma fresh_fds_int32:
  assumes "map_of t = map_of (snd demo_chan0)" "j \<le> 253"
  shows "list_all is_int32 (fresh_fds t j)"
proof -
  have "dom (map_of t) = {3, 4}" unfolding assms(1) by (auto simp: demo_chan0_def)
  then have "\<forall>x \<in> set (map fst t). x \<le> 4" by (auto simp: dom_map_of_conv_image_fst)
  then have "foldr max (map fst t) 2 \<le> 4" by (rule foldr_max_le) simp
  moreover have "2 \<le> foldr max (map fst t) 2" by (rule foldr_max(2))
  ultimately show ?thesis using assms(2) by (auto simp: fresh_fds_def list_all_iff is_int32_def)
qed

lemma demo_dgram_law:
  "dgram_law demo_unix (\<lambda>(_, t). map_of t) (\<lambda>(_, t). map_of t) fst demo_chan0"
proof -
  let ?f = "\<lambda>(_ :: (int list \<times> string list) list, t). map_of t"
  have send: "n = int (length (concat iov)) \<and> fst w' = fst demo_chan0 @ [(concat iov, fs)] \<and> ?f w' = ?f demo_chan0 \<and> length fs \<le> SCM_MAX_FD"
    if fds: "map (?f demo_chan0) fds = map Some fs"
      and s: "unix_sendmsg demo_unix fd iov (if 0 < length fds then Some (rights_cmsg fds) else None) demo_chan0 = (Inr n, w')" for fd iov fds fs n w'
  proof -
    have "\<forall>fd \<in> set fds. ?f demo_chan0 fd \<noteq> None" using fds by (metis in_set_conv_nth length_map nth_map option.distinct(1))
    then have "list_all is_int32 fds" by (auto simp: demo_chan0_def list_all_iff is_int32_def split: if_splits)
    then have "map (passed_fd (cmsg_data (rights_cmsg fds))) [0..<length (cmsg_data (rights_cmsg fds)) div 4] = fds"
      by (intro nth_equalityI) (simp_all add: rights_cmsg_def passed_fd_rights)
    then have e: "(case if 0 < length fds then Some (rights_cmsg fds) else None of None \<Rightarrow> []
        | Some c \<Rightarrow> map (passed_fd (cmsg_data c)) [0..<length (cmsg_data c) div 4]) = fds" by auto
    have "map the (map (?f demo_chan0) fds) = fs" "length fds = length fs" using fds by (auto simp: comp_def dest: map_eq_imp_length_eq)
    then show ?thesis using s e by (auto simp: demo_unix_def demo_chan0_def SCM_MAX_FD_def Let_def split: if_splits)
  qed
  have recv: "\<exists>nfds w'. unix_recvmsg demo_unix fd lens clen w = (Inr (received_dgram lens clen dat (length fs) nfds), w')
          \<and> length nfds = min (length fs) ((clen - CMSG_LEN 0) div 4) \<and> distinct nfds \<and> list_all is_int32 nfds
          \<and> (\<forall>fd \<in> set nfds. ?f w fd = None) \<and> ?f w' = ?f w ++ map_of (zip nfds fs) \<and> fst w' = q"
    if r: "?f w = ?f demo_chan0" "fst w = (dat, fs) # q" "length fs \<le> SCM_MAX_FD" for fd lens clen w dat fs q
  proof -
    obtain t where w: "w = ((dat, fs) # q, t)" using r(2) by (cases w) auto
    let ?n = "min (length fs) ((clen - CMSG_LEN 0) div 4)"
    have t: "map_of t = map_of (snd demo_chan0)" using r(1) by (simp add: w demo_chan0_def)
    have i: "list_all is_int32 (fresh_fds t ?n)" by (rule fresh_fds_int32 [OF t]) (use r(3) in \<open>simp add: SCM_MAX_FD_def min_def\<close>)
    show ?thesis
      by (intro exI [of _ "fresh_fds t ?n"] exI [of _ "(q, zip (fresh_fds t ?n) fs @ t)"])
        (use i fresh_fds in \<open>simp add: w demo_unix_def Let_def\<close>)
  qed
  have close: "?f (unix_close demo_unix fd w) = (?f w)(fd := None)" for fd w
    by (cases w) (simp add: demo_unix_def map_of_filter_neq)
  show ?thesis unfolding dgram_law_def using send recv close by blast
qed

text \<open>Two descriptors are sent and one is asked for: the second one is closed again.\<close>

theorem ipc_posix_delivered_witness:
  "\<exists>w1 w2 msg. mm_ipc_sendmsg_posix demo_unix 7 [[1, 2], [3]] [4, 3] demo_chan0 = (Inr 3, w1)
    \<and> mm_ipc_recvmsg_posix demo_unix 8 [2] 1 w1 = (Inr msg, w2) \<and> pm_data msg = [[1, 2]]
    \<and> pm_flags msg = (MSG_TRUNC_LINUX OR MSG_CTRUNC_LINUX) \<and> length (snd w2) = 3"
proof -
  let ?w1 = "([([1, 2, 3], [''data'', ''log''])], snd demo_chan0)"
  have send: "mm_ipc_sendmsg_posix demo_unix 7 [[1, 2], [3]] [4, 3] demo_chan0 = (Inr 3, ?w1)" by code_simp
  obtain r w2 where recv: "mm_ipc_recvmsg_posix demo_unix 8 [2] 1 ?w1 = (r, w2)" by (rule prod.exhaust)
  have n: "length (snd (snd (mm_ipc_recvmsg_posix demo_unix 8 [2] 1 ?w1))) = 3" by code_simp
  have "fst demo_chan0 = []" "map ((\<lambda>(_, t). map_of t) demo_chan0) [4, 3] = map Some [''data'', ''log'']"
    by (simp_all add: demo_chan0_def)
  from ipc_posix_delivered [OF demo_dgram_law this send _ _ recv]
  obtain msg where "r = Inr msg" "pm_data msg = cut_data [2] (concat [[1, 2], [3]])"
      "pm_flags msg = (MSG_TRUNC_LINUX OR MSG_CTRUNC_LINUX)" by auto
  moreover have "cut_data [2] (concat [[1, 2], [3]]) = [[1, 2]]" by (simp add: cut_data_def)
  ultimately show ?thesis using send recv n
    by (intro exI [of _ ?w1] exI [of _ w2] exI [of _ msg]) (simp only: simp_thms fst_conv snd_conv)
qed

section \<open>Deviations\<close>

text \<open>The server refuses an address of more than 107 characters; the client cuts it and connects to another server.\<close>

lemma connect_cuts_address:
  assumes "107 \<le> length a"
  shows "client_sun_path (a @ b) = client_sun_path a"
  using assms by (simp add: sun_path_eq [symmetric] srv_sun_path_def sun_path_Suc Let_def)

text \<open>The end of the connection, a message of length 0, is reported with whatever error came last.\<close>

lemma recv_end_of_connection:
  "unix_recvmsg env fd lens (CMSG_SPACE (m * 4)) w = (Inr d, w') \<Longrightarrow> dg_size d = 0
   \<Longrightarrow> mm_ipc_recvmsg_posix env fd lens m w = (Inl (unix_errno env w'), w')"
  by (simp add: mm_ipc_recvmsg_posix_def)

end
