(* ===== verification/Ipc_Win32.thy ===== *)
theory Ipc_Win32
  imports Proc_Win32
begin

unbundle bit_operations_syntax

text \<open>
  Local interprocess communication on Windows (\<^verbatim>\<open>src/src/local-ipc-win32.c\<close>): messages over a named pipe in message mode, with
  descriptors passed as handles that the sender duplicates into the process of the receiver. A message is a list of bytes: a
  header with the handles, and the gathered data. The system calls are parameters on a world \<open>'w\<close>.
\<close>

section \<open>Names of pipes\<close>

definition PIPE_PREFIX :: string where "PIPE_PREFIX = [BS, BS, CHR ''.'', BS] @ ''pipe'' @ [BS]"
definition MAX_PIPENAME :: nat where "MAX_PIPENAME = 256"
definition MAX_DATA_SIZE :: int where "MAX_DATA_SIZE = 0x1000"
definition MAX_ATTEMPTS :: nat where "MAX_ATTEMPTS = 16"

text \<open>\<open>snprintf\<close> in an array of \<open>MAX_PIPENAME\<close> characters.\<close>

definition pipe_name :: "string \<Rightarrow> string" where
  "pipe_name addr = take (MAX_PIPENAME - 1) (PIPE_PREFIX @ addr)"

record mm_ipc_srv =
  srv_hpipe :: int
  srv_pipe_name :: string

record 'w ipc_env =
  unwrap_handle_from_fd :: "int \<Rightarrow> errcode + int"
  pipe_server_end :: "int \<Rightarrow> bool option"
  client_process_id :: "int \<Rightarrow> int option"
  server_process_id :: "int \<Rightarrow> int option"
  open_process :: "int \<Rightarrow> 'w \<Rightarrow> int \<times> 'w"
  dup_to :: "int \<Rightarrow> int \<Rightarrow> 'w \<Rightarrow> int option \<times> 'w"
  close_hnd :: "int \<Rightarrow> 'w \<Rightarrow> 'w"
  write_file :: "int \<Rightarrow> int list \<Rightarrow> 'w \<Rightarrow> nat option \<times> 'w"
  read_file :: "int \<Rightarrow> nat \<Rightarrow> 'w \<Rightarrow> int list option \<times> 'w"
  open_osfhandle :: "int \<Rightarrow> 'w \<Rightarrow> int option \<times> 'w"
  wrap_errno :: errcode
  get_last_error :: "'w \<Rightarrow> w32err"
  create_pipe :: "string \<Rightarrow> bool \<Rightarrow> 'w \<Rightarrow> int \<times> 'w"
  connect_pipe :: "int \<Rightarrow> 'w \<Rightarrow> bool \<times> 'w"
  create_file :: "string \<Rightarrow> 'w \<Rightarrow> int \<times> 'w"
  wait_pipe :: "string \<Rightarrow> 'w \<Rightarrow> bool \<times> 'w"
  anon_name :: "'w \<Rightarrow> string \<times> 'w"
  srv_malloc_ok :: bool
  pad_bytes :: "nat \<Rightarrow> int list"
  rx_stack :: "int list"

definition w32_raise :: "'w ipc_env \<Rightarrow> 'w \<Rightarrow> errcode" where
  "w32_raise env w = get_errcode_from_w32err (get_last_error env w)"

section \<open>Servers and connections\<close>

text \<open>\<open>ENAMETOOLONG\<close> is not among the codes of the translation of system errors.\<close>

definition ERROR_PIPE_CONNECTED :: w32err where "ERROR_PIPE_CONNECTED = W32Other 535"
definition ERROR_PIPE_BUSY :: w32err where "ERROR_PIPE_BUSY = W32Other 231"
definition ENAMETOOLONG :: errcode where "ENAMETOOLONG = OtherErr 38"

definition mm_ipc_srv_create :: "'w ipc_env \<Rightarrow> string \<Rightarrow> 'w \<Rightarrow> (errcode + mm_ipc_srv) \<times> 'w" where
  "mm_ipc_srv_create env addr w =
     (if length addr > MAX_PIPENAME - length PIPE_PREFIX then (Inl ENAMETOOLONG, w)
      else if \<not> srv_malloc_ok env then (Inl ENOMEM, w)
      else let name = pipe_name addr;
               (h, w) = create_pipe env name True w
           in if h = INVALID_HANDLE_VALUE
              then (if get_last_error env w = ERROR_ACCESS_DENIED then (Inl EADDRINUSE, w) else (Inl (w32_raise env w), w))
              else (Inr \<lparr>srv_hpipe = h, srv_pipe_name = name\<rparr>, w))"

definition mm_ipc_srv_destroy :: "'w ipc_env \<Rightarrow> mm_ipc_srv option \<Rightarrow> 'w \<Rightarrow> 'w" where
  "mm_ipc_srv_destroy env srv w = (case srv of None \<Rightarrow> w | Some s \<Rightarrow> close_hnd env (srv_hpipe s) w)"

text \<open>A handle becomes a descriptor of the C runtime; \<open>None\<close> for a descriptor out of the table.\<close>

definition wrap_fd :: "'w ipc_env \<Rightarrow> int \<Rightarrow> int \<Rightarrow> fd_table \<times> 'w \<Rightarrow> (int option \<times> fd_table \<times> 'w) option" where
  "wrap_fd env hnd info = (\<lambda>(tab, w).
     let (newfd, w) = open_osfhandle env hnd w
     in case wrap_handle_into_fd newfd info tab of
          None \<Rightarrow> None
        | Some (fd, tab) \<Rightarrow> Some (fd, tab, w))"

definition mm_ipc_srv_accept ::
  "'w ipc_env \<Rightarrow> mm_ipc_srv \<Rightarrow> fd_table \<times> 'w \<Rightarrow> ((errcode + int) \<times> mm_ipc_srv \<times> fd_table \<times> 'w) option" where
  "mm_ipc_srv_accept env srv = (\<lambda>(tab, w).
     let (connected, w) = connect_pipe env (srv_hpipe srv) w
     in if \<not> connected \<and> get_last_error env w \<noteq> ERROR_PIPE_CONNECTED then Some (Inl (w32_raise env w), srv, tab, w)
        else (case wrap_fd env (srv_hpipe srv) FD_TYPE_IPCDGRAM (tab, w) of
                None \<Rightarrow> None
              | Some (None, tab, w) \<Rightarrow> Some (Inl (wrap_errno env), srv, tab, w)
              | Some (Some fd, tab, w) \<Rightarrow>
                  let (h, w) = create_pipe env (srv_pipe_name srv) False w
                  in if h = INVALID_HANDLE_VALUE then Some (Inl (w32_raise env w), srv, tab, w)
                     else Some (Inr fd, srv\<lparr>srv_hpipe := h\<rparr>, tab, w)))"

text \<open>The loop of a connection, which goes on for as long as the pipe is busy; \<open>None\<close> when it does not end.\<close>

partial_function (option) connect_loop :: "'w ipc_env \<Rightarrow> string \<Rightarrow> 'w \<Rightarrow> ((errcode + int) \<times> 'w) option" where
  "connect_loop env name w =
     (let (ready, w) = wait_pipe env name w
      in if \<not> ready \<and> get_last_error env w = ERROR_FILE_NOT_FOUND then Some (Inl (w32_raise env w), w)
         else let (h, w) = create_file env name w
              in if h = INVALID_HANDLE_VALUE
                 then (if get_last_error env w = ERROR_PIPE_BUSY then connect_loop env name w else Some (Inl (w32_raise env w), w))
                 else Some (Inr h, w))"

definition mm_ipc_connect :: "'w ipc_env \<Rightarrow> string \<Rightarrow> fd_table \<times> 'w \<Rightarrow> ((errcode + int) \<times> fd_table \<times> 'w) option" where
  "mm_ipc_connect env addr = (\<lambda>(tab, w).
     case connect_loop env (pipe_name addr) w of
       None \<Rightarrow> None
     | Some (Inl e, w) \<Rightarrow> Some (Inl e, tab, w)
     | Some (Inr h, w) \<Rightarrow>
         (case wrap_fd env h FD_TYPE_IPCDGRAM (tab, w) of
            None \<Rightarrow> None
          | Some (None, tab, w) \<Rightarrow> Some (Inl (wrap_errno env), tab, close_hnd env h w)
          | Some (Some fd, tab, w) \<Rightarrow> Some (Inr fd, tab, w)))"

text \<open>The attempts to find an unused name for a connected pair.\<close>

function pair_loop :: "'w ipc_env \<Rightarrow> nat \<Rightarrow> 'w \<Rightarrow> (errcode + string \<times> int) \<times> 'w" where
  "pair_loop env attempt w =
     (let (name, w) = anon_name env w;
          (h, w) = create_pipe env name True w
      in if h = INVALID_HANDLE_VALUE
         then (if get_last_error env w = ERROR_ACCESS_DENIED \<and> attempt + 1 < MAX_ATTEMPTS then pair_loop env (attempt + 1) w
               else (Inl (w32_raise env w), w))
         else (Inr (name, h), w))"
  by pat_completeness auto
termination by (relation "measure (\<lambda>(env, attempt, w). MAX_ATTEMPTS - attempt)") auto

declare pair_loop.simps [simp del]

text \<open>\<open>mm_close\<close> of the first descriptor closes its handle.\<close>

definition close_wrapped :: "'w ipc_env \<Rightarrow> int \<Rightarrow> int \<Rightarrow> fd_table \<times> 'w \<Rightarrow> (fd_table \<times> 'w) option" where
  "close_wrapped env fd h = (\<lambda>(tab, w).
     case mm_close None fd tab of None \<Rightarrow> None | Some (_, tab) \<Rightarrow> Some (tab, close_hnd env h w))"

definition mm_ipc_connected_pair ::
  "'w ipc_env \<Rightarrow> fd_table \<times> 'w \<Rightarrow> ((errcode + int \<times> int) \<times> fd_table \<times> 'w) option" where
  "mm_ipc_connected_pair env = (\<lambda>(tab, w).
     case pair_loop env 0 w of
       (Inl e, w) \<Rightarrow> Some (Inl e, tab, w)
     | (Inr (name, hsrv), w) \<Rightarrow>
         (case wrap_fd env hsrv FD_TYPE_IPCDGRAM (tab, w) of
            None \<Rightarrow> None
          | Some (None, tab, w) \<Rightarrow> Some (Inl (wrap_errno env), tab, close_hnd env hsrv w)
          | Some (Some srv_fd, tab, w) \<Rightarrow>
              let (hclient, w) = create_file env name w
              in if hclient = INVALID_HANDLE_VALUE
                 then map_option (Pair (Inl (w32_raise env w))) (close_wrapped env srv_fd hsrv (tab, w))
                 else (case wrap_fd env hclient FD_TYPE_IPCDGRAM (tab, w) of
                         None \<Rightarrow> None
                       | Some (None, tab, w) \<Rightarrow>
                           map_option (Pair (Inl (wrap_errno env))) (close_wrapped env srv_fd hsrv (tab, close_hnd env hclient w))
                       | Some (Some client_fd, tab, w) \<Rightarrow> Some (Inr (srv_fd, client_fd), tab, w))))"

section \<open>Sending\<close>

definition MSG_TRUNC :: int where "MSG_TRUNC = 0x100"
definition MSG_CTRUNC :: int where "MSG_CTRUNC = 0x200"

text \<open>
  \<open>OpenProcess\<close> returns the null handle when it fails; what is tested is \<open>INVALID_HANDLE_VALUE\<close>.
\<close>

definition open_peer_process_handle :: "'w ipc_env \<Rightarrow> int \<Rightarrow> 'w \<Rightarrow> (errcode + int) \<times> 'w" where
  "open_peer_process_handle env hpipe w =
     (case (case pipe_server_end env hpipe of
              None \<Rightarrow> None
            | Some srv \<Rightarrow> if srv then client_process_id env hpipe else server_process_id env hpipe) of
        None \<Rightarrow> (Inl (w32_raise env w), w)
      | Some pid \<Rightarrow>
          let (dst_proc, w) = open_process env pid w
          in if dst_proc = INVALID_HANDLE_VALUE then (Inl (w32_raise env w), w) else (Inr dst_proc, w))"

record fd_data =
  fd_hnd :: int
  fd_dinfo :: int

text \<open>The loop over the descriptors, with what has been stored in the array.\<close>

fun dup_fds ::
  "'w ipc_env \<Rightarrow> fd_table \<Rightarrow> int \<Rightarrow> int list \<Rightarrow> fd_data list \<Rightarrow> 'w \<Rightarrow> (errcode + fd_data list) \<times> 'w" where
  "dup_fds env tab dst_proc [] arr w = (Inr arr, w)"
| "dup_fds env tab dst_proc (fd # fds) arr w =
     (let (dst, w) = (case unwrap_handle_from_fd env fd of
                        Inl e \<Rightarrow> (None, w)
                      | Inr hnd \<Rightarrow> dup_to env dst_proc hnd w)
      in case dst of
           None \<Rightarrow> (Inl (w32_raise env w), fold (close_hnd env) (rev (map fd_hnd arr)) w)
         | Some dst_hnd \<Rightarrow>
             dup_fds env tab dst_proc fds (arr @ [\<lparr>fd_hnd = dst_hnd, fd_dinfo = (case get_fd_info tab fd of Some i \<Rightarrow> i | None \<Rightarrow> 0)\<rparr>]) w)"

text \<open>The bytes of \<open>struct ancillary_data\<close>, with its padding.\<close>

definition ancillary_bytes :: "'w ipc_env \<Rightarrow> fd_data list \<Rightarrow> int list" where
  "ancillary_bytes env arr = le_bytes 4 (int (length arr)) @ pad_bytes env 0
     @ concat (map (\<lambda>d. le_bytes 8 (fd_hnd d) @ le_bytes 4 (fd_dinfo d) @ pad_bytes env 1) arr)"

definition write_ancillary_data ::
  "'w ipc_env \<Rightarrow> fd_table \<Rightarrow> int list \<Rightarrow> int \<Rightarrow> 'w \<Rightarrow> (errcode + fd_data list) \<times> 'w" where
  "write_ancillary_data env tab fds hpipe w =
     (if fds = [] then (Inr [], w)
      else case open_peer_process_handle env hpipe w of
             (Inl e, w) \<Rightarrow> (Inl e, w)
           | (Inr dst_proc, w) \<Rightarrow>
               let (res, w) = dup_fds env tab dst_proc fds [] w in (res, close_hnd env dst_proc w))"

text \<open>
  The data behind a header of \<open>total_sz\<close> bytes. The length of the last piece is computed without sign; a piece longer than its
  buffer makes \<open>memcpy\<close> read and write out of bounds: \<open>None\<close>.
\<close>

fun gather :: "int list list \<Rightarrow> int \<Rightarrow> int list option" where
  "gather [] total_sz = Some []"
| "gather (v # vs) total_sz =
     (if int (length v) + total_sz \<ge> MAX_DATA_SIZE
      then (let len = (MAX_DATA_SIZE - total_sz) mod 2 ^ 64 in if len > int (length v) then None else Some (take (nat len) v))
      else map_option ((@) v) (gather vs (total_sz + int (length v))))"

definition serialize_msg ::
  "'w ipc_env \<Rightarrow> fd_table \<Rightarrow> int \<Rightarrow> int list list \<Rightarrow> int list \<Rightarrow> 'w \<Rightarrow> ((errcode + int list \<times> nat) \<times> 'w) option" where
  "serialize_msg env tab hpipe iov fds w =
     (case write_ancillary_data env tab fds hpipe w of
        (Inl e, w) \<Rightarrow> Some (Inl e, w)
      | (Inr arr, w) \<Rightarrow>
          let hdr = ancillary_bytes env arr
          in (case gather iov (int (length hdr)) of
                None \<Rightarrow> None
              | Some data \<Rightarrow> Some (Inr (hdr @ data, length hdr), w)))"

definition send_serialized ::
  "'w ipc_env \<Rightarrow> fd_table \<Rightarrow> int \<Rightarrow> int list list \<Rightarrow> int list \<Rightarrow> 'w \<Rightarrow> ((errcode + int) \<times> 'w) option" where
  "send_serialized env tab hpipe iov fds w =
     (case serialize_msg env tab hpipe iov fds w of
        None \<Rightarrow> None
      | Some (Inl e, w) \<Rightarrow> Some (Inl e, w)
      | Some (Inr (bytes, hdr_sz), w) \<Rightarrow>
          (case write_file env hpipe bytes w of
             (None, w) \<Rightarrow> Some (Inl (w32_raise env w), w)
           | (Some send_sz, w) \<Rightarrow> Some (Inr (int send_sz - int hdr_sz), w)))"

definition mm_ipc_sendmsg ::
  "'w ipc_env \<Rightarrow> fd_table \<Rightarrow> int \<Rightarrow> int list list \<Rightarrow> int list \<Rightarrow> 'w \<Rightarrow> ((errcode + int) \<times> 'w) option" where
  "mm_ipc_sendmsg env tab fd iov fds w =
     (case unwrap_handle_from_fd env fd of
        Inl e \<Rightarrow> Some (Inl e, w)
      | Inr h \<Rightarrow> send_serialized env tab h iov fds w)"

definition ipc_hnd_write :: "'w ipc_env \<Rightarrow> fd_table \<Rightarrow> int \<Rightarrow> int list \<Rightarrow> 'w \<Rightarrow> ((errcode + int) \<times> 'w) option" where
  "ipc_hnd_write env tab hpipe buf w = send_serialized env tab hpipe [buf] [] w"

section \<open>Receiving\<close>

definition MSG_DATA_BYTES :: nat where "MSG_DATA_BYTES = 8 * 0x1000"

definition int_at :: "nat \<Rightarrow> int list \<Rightarrow> int" where
  "int_at off buf = (let x = of_le_bytes (take 4 (drop off buf)) in if x < 2 ^ 31 then x else x - 2 ^ 32)"

definition fd_data_at :: "nat \<Rightarrow> int list \<Rightarrow> fd_data" where
  "fd_data_at i buf = \<lparr>fd_hnd = of_le_bytes (take 8 (drop (8 + 16 * i) buf)), fd_dinfo = int_at (16 + 16 * i) buf\<rparr>"

text \<open>The array of the header in the buffer; \<open>None\<close> when it does not lie in the buffer.\<close>

definition ancillary_array :: "int list \<Rightarrow> fd_data list option" where
  "ancillary_array buf =
     (let n = nat (int_at 0 buf) in if 8 + 16 * n > length buf then None else Some (map (\<lambda>i. fd_data_at i buf) [0..<n]))"

text \<open>The descriptors made of the first handles, at most \<open>n\<close>, and the handles that are left.\<close>

fun wrap_fds :: "'w ipc_env \<Rightarrow> nat \<Rightarrow> fd_data list \<Rightarrow> fd_table \<times> 'w \<Rightarrow> (int list \<times> fd_data list \<times> fd_table \<times> 'w) option" where
  "wrap_fds env n [] x = Some ([], [], x)"
| "wrap_fds env 0 (d # ds) x = Some ([], d # ds, x)"
| "wrap_fds env (Suc n) (d # ds) x =
     (case wrap_fd env (fd_hnd d) (fd_dinfo d) x of
        None \<Rightarrow> None
      | Some (None, x) \<Rightarrow> Some ([], d # ds, x)
      | Some (Some fd, x) \<Rightarrow> map_option (\<lambda>(fds, rest, x). (fd # fds, rest, x)) (wrap_fds env n ds x))"

text \<open>The descriptors, the flags, the size of the header and the new state.\<close>

definition read_ancillary_data ::
  "'w ipc_env \<Rightarrow> int list \<Rightarrow> nat \<Rightarrow> int \<Rightarrow> fd_table \<times> 'w \<Rightarrow> (int list \<times> int \<times> int \<times> fd_table \<times> 'w) option" where
  "read_ancillary_data env buf num_fds_max flags x =
     (case ancillary_array buf of
        None \<Rightarrow> None
      | Some arr \<Rightarrow>
          (case wrap_fds env num_fds_max arr x of
             None \<Rightarrow> None
           | Some (fds, rest, tab, w) \<Rightarrow>
               Some (fds, if int (length fds) < int_at 0 buf then flags OR MSG_CTRUNC else flags, 8 + 16 * int_at 0 buf, tab,
                     fold (close_hnd env) (map fd_hnd rest) w)))"

text \<open>Scattering \<open>sz\<close> bytes of \<open>buf\<close> in buffers of the given lengths: what is copied in each, and whether \<open>MSG_TRUNC\<close> is set.\<close>

fun scatter :: "nat list \<Rightarrow> int list \<Rightarrow> nat \<Rightarrow> (int list list \<times> bool) option" where
  "scatter [] buf sz = Some ([], False)"
| "scatter (l # ls) buf sz =
     (if l > sz then (if sz \<le> length buf then Some ([take sz buf], True) else None)
      else if l \<le> length buf then map_option (\<lambda>(bs, t). (take l buf # bs, t)) (scatter ls (drop l buf) (sz - l))
      else None)"

record received =
  rm_size :: nat
  rm_data :: "int list list"
  rm_fds :: "int list"
  rm_flags :: int

definition deserialize_msg ::
  "'w ipc_env \<Rightarrow> int list \<Rightarrow> nat list \<Rightarrow> nat \<Rightarrow> fd_table \<times> 'w \<Rightarrow> (received \<times> fd_table \<times> 'w) option" where
  "deserialize_msg env bytes lens num_fds_max x =
     (let buf = bytes @ drop (length bytes) (rx_stack env)
      in case read_ancillary_data env buf num_fds_max 0 x of
           None \<Rightarrow> None
         | Some (fds, flags, len, x) \<Rightarrow>
             let sz = nat ((int (length bytes) - len) mod 2 ^ 64)
             in (case scatter lens (drop (nat len) buf) sz of
                   None \<Rightarrow> None
                 | Some (bufs, trunc) \<Rightarrow>
                     Some (\<lparr>rm_size = sz, rm_data = bufs, rm_fds = fds, rm_flags = (if trunc then flags OR MSG_TRUNC else flags)\<rparr>, x)))"

definition recv_deserialized ::
  "'w ipc_env \<Rightarrow> int \<Rightarrow> nat list \<Rightarrow> nat \<Rightarrow> fd_table \<times> 'w \<Rightarrow> ((errcode + received) \<times> fd_table \<times> 'w) option" where
  "recv_deserialized env hpipe lens num_fds_max = (\<lambda>(tab, w).
     case read_file env hpipe MSG_DATA_BYTES w of
       (None, w) \<Rightarrow> Some (Inl (w32_raise env w), tab, w)
     | (Some bytes, w) \<Rightarrow> map_option (\<lambda>(r, x). (Inr r, x)) (deserialize_msg env bytes lens num_fds_max (tab, w)))"

definition mm_ipc_recvmsg ::
  "'w ipc_env \<Rightarrow> int \<Rightarrow> nat list \<Rightarrow> nat \<Rightarrow> fd_table \<times> 'w \<Rightarrow> ((errcode + received) \<times> fd_table \<times> 'w) option" where
  "mm_ipc_recvmsg env fd lens num_fds_max x =
     (case unwrap_handle_from_fd env fd of
        Inl e \<Rightarrow> Some (Inl e, x)
      | Inr h \<Rightarrow> recv_deserialized env h lens num_fds_max x)"

definition ipc_hnd_read ::
  "'w ipc_env \<Rightarrow> int \<Rightarrow> nat \<Rightarrow> fd_table \<times> 'w \<Rightarrow> ((errcode + received) \<times> fd_table \<times> 'w) option" where
  "ipc_hnd_read env hpipe nbyte x = recv_deserialized env hpipe [nbyte] 0 x"


section \<open>A message on its way\<close>

lemma gather_take:
  assumes "0 \<le> t" "t \<le> MAX_DATA_SIZE"
  shows "gather vs t = Some (take (nat (MAX_DATA_SIZE - t)) (concat vs))"
  using assms
proof (induction vs arbitrary: t)
  case (Cons v vs)
  have r: "(MAX_DATA_SIZE - t) mod 2 ^ 64 = MAX_DATA_SIZE - t"
    using Cons.prems by (intro mod_pos_pos_trivial) (auto simp: MAX_DATA_SIZE_def)
  show ?case
  proof (cases "int (length v) + t \<ge> MAX_DATA_SIZE")
    case True
    then show ?thesis using r Cons.prems by (auto simp: Let_def)
  next
    case False
    then have "gather vs (t + int (length v)) = Some (take (nat (MAX_DATA_SIZE - (t + int (length v)))) (concat vs))"
      using Cons by simp
    moreover have "nat (MAX_DATA_SIZE - t) - length v = nat (MAX_DATA_SIZE - (t + int (length v)))" using False by simp
    ultimately show ?thesis using False by simp
  qed
qed simp

definition pads_ok :: "'w ipc_env \<Rightarrow> bool" where
  "pads_ok env \<longleftrightarrow> length (pad_bytes env 0) = 4 \<and> length (pad_bytes env 1) = 4"

definition fd_data_ok :: "fd_data \<Rightarrow> bool" where
  "fd_data_ok d \<longleftrightarrow> 0 \<le> fd_hnd d \<and> fd_hnd d < 2 ^ 64 \<and> 0 \<le> fd_dinfo d \<and> fd_dinfo d < 2 ^ 31"

lemma length_ancillary: "pads_ok env \<Longrightarrow> length (ancillary_bytes env arr) = 8 + 16 * length arr"
proof -
  assume p: "pads_ok env"
  have "length (concat (map (\<lambda>d. le_bytes 8 (fd_hnd d) @ le_bytes 4 (fd_dinfo d) @ pad_bytes env 1) arr)) = 16 * length arr"
    using p by (induction arr) (auto simp: pads_ok_def)
  then show ?thesis using p by (simp add: ancillary_bytes_def pads_ok_def)
qed

lemma int_at_le: "0 \<le> x \<Longrightarrow> x < 2 ^ 31 \<Longrightarrow> drop off buf = le_bytes 4 x @ rest \<Longrightarrow> int_at off buf = x"
  by (simp add: int_at_def Let_def of_le_bytes)

lemma fd_data_at_nth:
  assumes "pads_ok env" "i < length arr" "fd_data_ok (arr ! i)"
  shows "fd_data_at i (ancillary_bytes env arr @ rest) = arr ! i"
proof -
  let ?e = "\<lambda>d. le_bytes 8 (fd_hnd d) @ le_bytes 4 (fd_dinfo d) @ pad_bytes env 1"
  have e: "drop (16 * i) (concat (map ?e arr)) = concat (map ?e (drop i arr))" if "i \<le> length arr" for i arr
    using that
  proof (induction i arbitrary: arr)
    case (Suc i)
    then show ?case using assms(1) by (cases arr) (auto simp: pads_ok_def)
  qed simp
  have l: "length (concat (map ?e arr)) = 16 * length arr" using assms(1) by (induction arr) (auto simp: pads_ok_def)
  obtain r where r: "drop (8 + 16 * i) (ancillary_bytes env arr @ rest) = ?e (arr ! i) @ r"
  proof -
    have "drop (8 + 16 * i) (ancillary_bytes env arr @ rest) = drop (16 * i) (concat (map ?e arr) @ rest)"
      using assms(1) by (simp add: ancillary_bytes_def pads_ok_def)
    also have "\<dots> = concat (map ?e (drop i arr)) @ rest" using e [of i arr] l assms(2) by simp
    also have "\<dots> = ?e (arr ! i) @ (concat (map ?e (drop (Suc i) arr)) @ rest)" using assms(2) by (simp flip: Cons_nth_drop_Suc)
    finally show ?thesis using that by blast
  qed
  have r2: "drop (16 + 16 * i) (ancillary_bytes env arr @ rest) = le_bytes 4 (fd_dinfo (arr ! i)) @ (pad_bytes env 1 @ r)"
  proof -
    have "drop (16 + 16 * i) (ancillary_bytes env arr @ rest) = drop 8 (drop (8 + 16 * i) (ancillary_bytes env arr @ rest))"
      by (simp only: drop_drop) simp
    then show ?thesis unfolding r by simp
  qed
  have "of_le_bytes (take 8 (drop (8 + 16 * i) (ancillary_bytes env arr @ rest))) = fd_hnd (arr ! i)"
    unfolding r using assms(3) by (simp add: of_le_bytes fd_data_ok_def)
  then show ?thesis using int_at_le [OF _ _ r2] assms(3) by (simp add: fd_data_at_def fd_data_ok_def)
qed

lemma ancillary_array_bytes:
  assumes "pads_ok env" "list_all fd_data_ok arr" "length arr < 2 ^ 31"
  shows "int_at 0 (ancillary_bytes env arr @ rest) = int (length arr)"
    "ancillary_array (ancillary_bytes env arr @ rest) = Some arr"
proof -
  show n: "int_at 0 (ancillary_bytes env arr @ rest) = int (length arr)"
    by (rule int_at_le) (use assms(3) in \<open>simp_all add: ancillary_bytes_def\<close>)
  have "map (\<lambda>i. fd_data_at i (ancillary_bytes env arr @ rest)) [0..<length arr] = arr"
    by (rule nth_equalityI) (use assms(1,2) in \<open>simp_all add: fd_data_at_nth list_all_length\<close>)
  then show "ancillary_array (ancillary_bytes env arr @ rest) = Some arr"
    using n length_ancillary [OF assms(1), of arr] by (simp add: ancillary_array_def Let_def)
qed

lemma scatter_take:
  assumes "sz \<le> length buf"
  shows "\<exists>bs. scatter lens buf sz = Some (bs, sz < sum_list lens) \<and> concat bs = take (sum_list lens) (take sz buf)"
  using assms
proof (induction lens arbitrary: buf sz)
  case (Cons l ls)
  show ?case
  proof (cases "l > sz")
    case True
    then show ?thesis using Cons.prems by simp
  next
    case False
    have "sz - l \<le> length (drop l buf)" using Cons.prems by simp
    then obtain bs where "scatter ls (drop l buf) (sz - l) = Some (bs, sz - l < sum_list ls)"
      "concat bs = take (sum_list ls) (take (sz - l) (drop l buf))"
      using Cons.IH by blast
    moreover have "take (l + k) (take sz buf) = take l buf @ take k (take (sz - l) (drop l buf))" for k
    proof -
      have "take (l + k) (take sz buf) = take l (take sz buf) @ take k (drop l (take sz buf))" by (rule take_add)
      then show ?thesis using False by (simp only: drop_take) (simp add: min_def)
    qed
    ultimately show ?thesis using False Cons.prems by auto
  qed
qed simp

text \<open>What the receiver makes of a serialised message.\<close>

lemma deserialize_serialized:
  assumes "pads_ok env" "list_all fd_data_ok arr" "length arr < 256" "8 + 16 * length arr + length data \<le> 0x1000"
    and "length (rx_stack env') = MSG_DATA_BYTES" "wrap_fds env' n arr x = Some (rfds, rest, tab', w')"
  shows "\<exists>bufs. deserialize_msg env' (ancillary_bytes env arr @ data) lens n x
      = Some (\<lparr>rm_size = length data, rm_data = bufs, rm_fds = rfds,
                rm_flags = (if length data < sum_list lens
                            then (if length rfds < length arr then MSG_CTRUNC else 0) OR MSG_TRUNC
                            else if length rfds < length arr then MSG_CTRUNC else 0)\<rparr>,
              tab', fold (close_hnd env') (map fd_hnd rest) w')
    \<and> concat bufs = take (sum_list lens) data"
proof -
  let ?b = "ancillary_bytes env arr @ data" and ?j = "drop (length (ancillary_bytes env arr @ data)) (rx_stack env')"
  have l: "length (ancillary_bytes env arr) = 8 + 16 * length arr" by (rule length_ancillary [OF assms(1)])
  note a = ancillary_array_bytes [OF assms(1,2), of "data @ ?j"]
  have ra: "read_ancillary_data env' (?b @ ?j) n 0 x
      = Some (rfds, if length rfds < length arr then MSG_CTRUNC else 0, 8 + 16 * int (length arr), tab', fold (close_hnd env') (map fd_hnd rest) w')"
    using a assms(3,6) by (simp add: read_ancillary_data_def)
  have sz: "nat ((int (length ?b) - (8 + 16 * int (length arr))) mod 2 ^ 64) = length data"
    using l assms(4) by simp
  have "drop (nat (8 + 16 * int (length arr))) (?b @ ?j) = data @ ?j"
    using l by (simp add: nat_add_distrib nat_mult_distrib)
  then show ?thesis
    using ra sz scatter_take [of "length data" "data @ ?j" lens] by (auto simp: deserialize_msg_def Let_def)
qed


text \<open>
  The laws of the sender: the handles that are duplicated appear in the table \<open>pobj\<close> of the other process as new handles of the same
  objects, and nothing else changes that table.
\<close>

definition send_law :: "'w ipc_env \<Rightarrow> (int \<rightharpoonup> 'o) \<Rightarrow> ('w \<Rightarrow> int \<rightharpoonup> 'o) \<Rightarrow> bool" where
  "send_law env own pobj \<longleftrightarrow> pads_ok env
     \<and> (\<forall>p h w h' w'. dup_to env p h w = (Some h', w') \<longrightarrow>
          0 \<le> h' \<and> h' < 2 ^ 64 \<and> pobj w h' = None \<and> own h \<noteq> None \<and> pobj w' = (pobj w)(h' := own h))
     \<and> (\<forall>p w. pobj (snd (open_process env p w)) = pobj w) \<and> (\<forall>h w. pobj (close_hnd env h w) = pobj w)"

text \<open>The handle \<open>d\<close> of the message stands for the descriptor \<open>fd\<close> of the sender.\<close>

definition stands_for :: "'w ipc_env \<Rightarrow> fd_table \<Rightarrow> (int \<rightharpoonup> 'o) \<Rightarrow> (int \<rightharpoonup> 'o) \<Rightarrow> int \<Rightarrow> fd_data \<Rightarrow> bool" where
  "stands_for env tab own peer fd d \<longleftrightarrow>
     (\<exists>h. unwrap_handle_from_fd env fd = Inr h \<and> peer (fd_hnd d) = own h \<and> own h \<noteq> None \<and> fd_dinfo d = info_of tab fd)"

lemma dup_fds_ok:
  assumes "send_law env own pobj" "list_all info_byte tab" "dup_fds env tab p fds arr w = (Inr arr', w')"
    and "list_all fd_data_ok arr" "list_all2 (stands_for env tab own (pobj w)) pre arr"
  shows "list_all fd_data_ok arr' \<and> list_all2 (stands_for env tab own (pobj w')) (pre @ fds) arr'"
  using assms(3-5)
proof (induction fds arbitrary: arr w pre)
  case (Cons fd fds)
  obtain h where h: "unwrap_handle_from_fd env fd = Inr h"
    using Cons.prems(1) by (cases "unwrap_handle_from_fd env fd") (auto simp: Let_def)
  obtain d w1 where d: "dup_to env p h w = (d, w1)" by fastforce
  then obtain h' where h': "d = Some h'" using Cons.prems(1) h by (cases d) (auto simp: Let_def)
  have l: "0 \<le> h'" "h' < 2 ^ 64" "pobj w h' = None" "own h \<noteq> None" "pobj w1 = (pobj w)(h' := own h)"
    using assms(1) d h' by (auto simp: send_law_def)
  let ?d = "\<lparr>fd_hnd = h', fd_dinfo = info_of tab fd\<rparr>"
  have i: "0 \<le> info_of tab fd" "info_of tab fd < 2 ^ 31"
    using assms(2) by (auto simp: info_of_def get_fd_info_def list_all_length info_byte_def split: option.splits if_splits)
  have run: "dup_fds env tab p fds (arr @ [?d]) w1 = (Inr arr', w')"
    using Cons.prems(1) h d h' by (simp add: Let_def info_of_def)
  have "stands_for env tab own (pobj w1) x y" if "stands_for env tab own (pobj w) x y" for x y
    using that l by (auto simp: stands_for_def)
  then have "list_all2 (stands_for env tab own (pobj w1)) pre arr"
    using Cons.prems(3) list_all2_mono by blast
  moreover have "stands_for env tab own (pobj w1) fd ?d" using h l by (simp add: stands_for_def)
  ultimately have "list_all2 (stands_for env tab own (pobj w1)) (pre @ [fd]) (arr @ [?d])"
    by (simp add: list_all2_appendI)
  moreover have "fd_data_ok ?d" using l i by (simp add: fd_data_ok_def)
  then have "list_all fd_data_ok (arr @ [?d])" using Cons.prems(2) by simp
  ultimately show ?case using Cons.IH [OF run, of "pre @ [fd]"] by simp
qed simp

lemma write_ancillary_ok:
  assumes "send_law env own pobj" "list_all info_byte tab" "write_ancillary_data env tab fds h w = (Inr arr, w1)"
  shows "list_all fd_data_ok arr" "list_all2 (stands_for env tab own (pobj w1)) fds arr"
proof -
  have "list_all fd_data_ok arr \<and> list_all2 (stands_for env tab own (pobj w1)) fds arr"
  proof (cases "fds = []")
    case True
    then show ?thesis using assms(3) by (simp add: write_ancillary_data_def)
  next
    case False
    then obtain p w0 w2 where "dup_fds env tab p fds [] w0 = (Inr arr, w2)" "w1 = close_hnd env p w2"
      using assms(3) by (auto simp: write_ancillary_data_def Let_def split: prod.splits sum.splits)
    then show ?thesis using dup_fds_ok [OF assms(1,2), where arr = "[]" and pre = "[]"] assms(1) by (auto simp: send_law_def)
  qed
  then show "list_all fd_data_ok arr" "list_all2 (stands_for env tab own (pobj w1)) fds arr" by simp_all
qed

text \<open>The pipe hands a message over whole.\<close>

definition pipe_passes :: "'w ipc_env \<Rightarrow> int \<Rightarrow> 'w ipc_env \<Rightarrow> int \<Rightarrow> 'w \<Rightarrow> 'w \<Rightarrow> bool" where
  "pipe_passes env h env' h' w w' \<longleftrightarrow>
     (\<forall>bytes. length bytes \<le> MSG_DATA_BYTES \<longrightarrow>
        (\<exists>w2. write_file env h bytes w = (Some (length bytes), w2) \<and> read_file env' h' MSG_DATA_BYTES w2 = (Some bytes, w')))"

text \<open>
  The laws of the receiver, with its descriptors \<open>rfd\<close> on handles: \<open>_open_osfhandle\<close> gives a new descriptor below the maximum on the
  handle or changes nothing, and a handle that is closed is gone.
\<close>

definition recv_law :: "'w ipc_env \<Rightarrow> ('w \<Rightarrow> int \<rightharpoonup> 'o) \<Rightarrow> ('w \<Rightarrow> int \<rightharpoonup> int) \<Rightarrow> bool" where
  "recv_law env pobj rfd \<longleftrightarrow>
     (\<forall>h w r w'. open_osfhandle env h w = (r, w') \<longrightarrow> pobj w' = pobj w
        \<and> (case r of None \<Rightarrow> rfd w' = rfd w | Some fd \<Rightarrow> fd_ok fd \<and> rfd w fd = None \<and> rfd w' = (rfd w)(fd \<mapsto> h)))
     \<and> (\<forall>h w. pobj (close_hnd env h w) = (pobj w)(h := None) \<and> rfd (close_hnd env h w) = rfd w)"

text \<open>The descriptor \<open>fd\<close> of the receiver is on the handle of \<open>d\<close>, with its information.\<close>

definition wraps :: "(int \<rightharpoonup> int) \<Rightarrow> fd_table \<Rightarrow> int \<Rightarrow> fd_data \<Rightarrow> bool" where
  "wraps rfd tab fd d \<longleftrightarrow> fd_ok fd \<and> rfd fd = Some (fd_hnd d) \<and> get_fd_info tab fd = Some (fd_dinfo d)"

definition byte_data :: "fd_data \<Rightarrow> bool" where
  "byte_data d \<longleftrightarrow> 0 \<le> fd_dinfo d \<and> fd_dinfo d < 256"

definition fds_kept :: "(int \<rightharpoonup> int) \<Rightarrow> fd_table \<Rightarrow> (int \<rightharpoonup> int) \<Rightarrow> fd_table \<Rightarrow> bool" where
  "fds_kept rfd tab rfd' tab' \<longleftrightarrow> (\<forall>fd. fd_ok fd \<longrightarrow> rfd fd \<noteq> None \<longrightarrow> rfd' fd = rfd fd \<and> get_fd_info tab' fd = get_fd_info tab fd)"

lemma wrap_fd_outcome:
  assumes "recv_law env pobj rfd" "fd_table_ok tab" "byte_data d"
  shows "\<exists>r tab' w'. wrap_fd env (fd_hnd d) (fd_dinfo d) (tab, w) = Some (r, tab', w') \<and> fd_table_ok tab' \<and> pobj w' = pobj w
    \<and> fds_kept (rfd w) tab (rfd w') tab'
    \<and> (case r of None \<Rightarrow> fst (open_osfhandle env (fd_hnd d) w) = None | Some fd \<Rightarrow> wraps (rfd w') tab' fd d)"
proof -
  obtain r w' where o: "open_osfhandle env (fd_hnd d) w = (r, w')" by fastforce
  have l: "pobj w' = pobj w"
    "case r of None \<Rightarrow> rfd w' = rfd w | Some fd \<Rightarrow> fd_ok fd \<and> rfd w fd = None \<and> rfd w' = (rfd w)(fd \<mapsto> fd_hnd d)"
    using assms(1) o by (auto simp: recv_law_def)
  show ?thesis
  proof (cases r)
    case None
    then show ?thesis using o l assms(2) by (simp add: wrap_fd_def wrap_handle_into_fd_def fds_kept_def)
  next
    case (Some fd)
    then have fd: "fd_ok fd" "rfd w fd = None" "rfd w' = (rfd w)(fd \<mapsto> fd_hnd d)" using l(2) by simp_all
    obtain tab' where t: "set_fd_info fd (fd_dinfo d) tab = Some tab'" "fd_table_ok tab'"
      "\<And>fd'. fd_ok fd' \<Longrightarrow> get_fd_info tab' fd' = (if fd' = fd then Some (fd_dinfo d AND 255) else get_fd_info tab fd')"
      using set_fd_info_ok [OF assms(2) fd(1)] by metis
    have "fd_dinfo d AND 255 = fd_dinfo d"
      using assms(3) take_bit_eq_mask [of 8 "fd_dinfo d"] by (simp add: byte_data_def mask_eq_exp_minus_1 take_bit_int_eq_self)
    then have "wraps (rfd w') tab' fd d" using fd t(3) by (simp add: wraps_def)
    moreover have "fds_kept (rfd w) tab (rfd w') tab'" using fd t(3) by (auto simp: fds_kept_def)
    ultimately show ?thesis using o l(1) t Some by (simp add: wrap_fd_def wrap_handle_into_fd_def)
  qed
qed

lemma wrap_fds_outcome:
  assumes "recv_law env pobj rfd" "fd_table_ok tab" "list_all byte_data arr"
  shows "\<exists>rfds tab' w'. wrap_fds env n arr (tab, w) = Some (rfds, drop (length rfds) arr, tab', w') \<and> pobj w' = pobj w
    \<and> length rfds \<le> min n (length arr) \<and> list_all2 (wraps (rfd w') tab') rfds (take (length rfds) arr)
    \<and> fds_kept (rfd w) tab (rfd w') tab'
    \<and> (length rfds < min n (length arr) \<longrightarrow> (\<exists>w. fst (open_osfhandle env (fd_hnd (arr ! length rfds)) w) = None))"
  using assms(2,3)
proof (induction arr arbitrary: n tab w)
  case Nil
  then show ?case by (simp add: fds_kept_def)
next
  case (Cons d ds)
  show ?case
  proof (cases n)
    case 0
    then show ?thesis by (simp add: fds_kept_def)
  next
    case (Suc m)
    obtain r tab1 w1 where 1: "wrap_fd env (fd_hnd d) (fd_dinfo d) (tab, w) = Some (r, tab1, w1)" "fd_table_ok tab1" "pobj w1 = pobj w"
      "fds_kept (rfd w) tab (rfd w1) tab1"
      "case r of None \<Rightarrow> fst (open_osfhandle env (fd_hnd d) w) = None | Some fd \<Rightarrow> wraps (rfd w1) tab1 fd d"
      using wrap_fd_outcome [OF assms(1) Cons.prems(1), of d w] Cons.prems(2) by auto
    show ?thesis
    proof (cases r)
      case None
      then show ?thesis using 1 Suc by (auto intro!: exI [of _ w])
    next
      case (Some fd)
      have "list_all byte_data ds" using Cons.prems(2) by simp
      from Cons.IH [OF 1(2) this, of m w1] obtain rfds tab' w' where
        2: "wrap_fds env m ds (tab1, w1) = Some (rfds, drop (length rfds) ds, tab', w')" "pobj w' = pobj w1"
        "length rfds \<le> min m (length ds)" "list_all2 (wraps (rfd w') tab') rfds (take (length rfds) ds)"
        "fds_kept (rfd w1) tab1 (rfd w') tab'"
        "length rfds < min m (length ds) \<longrightarrow> (\<exists>w. fst (open_osfhandle env (fd_hnd (ds ! length rfds)) w) = None)"
        by auto
      have "wraps (rfd w') tab' fd d" using 1(5) 2(5) Some by (simp add: wraps_def fds_kept_def)
      moreover have "fds_kept (rfd w) tab (rfd w') tab'" using 1(4) 2(5) by (auto simp: fds_kept_def)
      moreover have "wrap_fds env n (d # ds) (tab, w) = Some (fd # rfds, drop (length rfds) ds, tab', w')"
        using 1(1) 2(1) Some Suc by simp
      ultimately show ?thesis using 1(3) 2 Suc by (intro exI [of _ "fd # rfds"] exI [of _ tab'] exI [of _ w']) auto
    qed
  qed
qed

lemma close_all_handles:
  "recv_law env pobj rfd \<Longrightarrow> pobj (fold (close_hnd env) hs w) = pobj w |` (- set hs) \<and> rfd (fold (close_hnd env) hs w) = rfd w"
proof (induction hs arbitrary: w)
  case (Cons h hs)
  have "pobj (close_hnd env h w) = (pobj w)(h := None)" "rfd (close_hnd env h w) = rfd w"
    using Cons.prems by (simp_all add: recv_law_def)
  then show ?case using Cons by (auto simp: restrict_map_def fun_eq_iff)
qed (simp add: restrict_map_def)

text \<open>
  C8. Messages with descriptors: a message whose header and data fit in a page, whose handles could be duplicated and that fits in the
  buffers of the receiver arrives. The sender learns the length of the data; the receiver gets this data scattered over its
  buffers in order, its size, and descriptors for the first of the objects, as many as it asked for or until no further
  descriptor can be had; each is on the same object as that of the sender, with the information that the sender had. The handles in
  excess are closed in the receiver, which keeps all others, and \<open>MSG_CTRUNC\<close> is set exactly when there are such. Longer
  messages and the flag \<open>MSG_TRUNC\<close> are left out: there the code departs from the documentation (\<open>send_cuts_data\<close>,
  \<open>msg_trunc_inverted\<close>).
\<close>

theorem ipc_message_delivered:
  assumes "send_law env own pobj" "recv_law env' pobj rfd" "list_all info_byte tab" "fd_table_ok tab'"
    and "length (rx_stack env') = MSG_DATA_BYTES"
    and "8 + 16 * length fds + length (concat iov) \<le> 0x1000" "length (concat iov) \<le> sum_list lens"
    and "unwrap_handle_from_fd env fd = Inr h" "unwrap_handle_from_fd env' fd' = Inr h'"
    and "write_ancillary_data env tab fds h w = (Inr arr, w1)" "pipe_passes env h env' h' w1 w2" "pobj w2 = pobj w1"
  shows "list_all2 (stands_for env tab own (pobj w1)) fds arr
    \<and> (\<exists>ws r tab'' w3. mm_ipc_sendmsg env tab fd iov fds w = Some (Inr (int (length (concat iov))), ws)
        \<and> mm_ipc_recvmsg env' fd' lens n (tab', ws) = Some (Inr r, tab'', w3)
        \<and> rm_size r = length (concat iov) \<and> concat (rm_data r) = concat iov
        \<and> length (rm_fds r) \<le> min n (length fds) \<and> list_all2 (wraps (rfd w3) tab'') (rm_fds r) (take (length (rm_fds r)) arr)
        \<and> (length (rm_fds r) < min n (length fds) \<longrightarrow> (\<exists>w. fst (open_osfhandle env' (fd_hnd (arr ! length (rm_fds r))) w) = None))
        \<and> pobj w3 = pobj w1 |` (- set (map fd_hnd (drop (length (rm_fds r)) arr)))
        \<and> (rm_flags r AND MSG_CTRUNC \<noteq> 0 \<longleftrightarrow> length (rm_fds r) < length fds))"
proof -
  let ?data = "concat iov"
  note a = write_ancillary_ok [OF assms(1,3,10)]
  have p: "pads_ok env" using assms(1) by (simp add: send_law_def)
  have n: "length arr = length fds" using a(2) by (metis list_all2_lengthD)
  have bytes: "list_all byte_data arr"
    using a(2) assms(3) by (auto simp: list_all2_conv_all_nth list_all_length stands_for_def byte_data_def info_of_def get_fd_info_def
      info_byte_def split: option.splits if_splits)
  have l: "length (ancillary_bytes env arr) = 8 + 16 * length fds" using length_ancillary [OF p, of arr] n by simp
  have "gather iov (int (8 + 16 * length fds)) = Some ?data"
    using gather_take [of "int (8 + 16 * length fds)" iov] assms(6) by (simp add: MAX_DATA_SIZE_def)
  then have s: "serialize_msg env tab h iov fds w = Some (Inr (ancillary_bytes env arr @ ?data, 8 + 16 * length fds), w1)"
    using assms(10) l by (simp add: serialize_msg_def Let_def)
  have "length (ancillary_bytes env arr @ ?data) \<le> MSG_DATA_BYTES" using l n assms(6) by (simp add: MSG_DATA_BYTES_def)
  then obtain ws where ws: "write_file env h (ancillary_bytes env arr @ ?data) w1 = (Some (length (ancillary_bytes env arr @ ?data)), ws)"
    "read_file env' h' MSG_DATA_BYTES ws = (Some (ancillary_bytes env arr @ ?data), w2)"
    using assms(11) [unfolded pipe_passes_def, rule_format, of "ancillary_bytes env arr @ ?data"] by blast
  have send: "mm_ipc_sendmsg env tab fd iov fds w = Some (Inr (int (length ?data)), ws)"
    using s ws(1) l assms(8) by (simp add: mm_ipc_sendmsg_def send_serialized_def)
  obtain rfds tab'' w3 where r: "wrap_fds env' n arr (tab', w2) = Some (rfds, drop (length rfds) arr, tab'', w3)" "pobj w3 = pobj w2"
    "length rfds \<le> min n (length arr)" "list_all2 (wraps (rfd w3) tab'') rfds (take (length rfds) arr)"
    "length rfds < min n (length arr) \<longrightarrow> (\<exists>w. fst (open_osfhandle env' (fd_hnd (arr ! length rfds)) w) = None)"
    using wrap_fds_outcome [OF assms(2,4) bytes, of n w2] by auto
  have "length arr < 256" "8 + 16 * length arr + length ?data \<le> 0x1000" using assms(6) n by simp_all
  from deserialize_serialized [OF p a(1) this assms(5) r(1), of lens]
  obtain bufs fl where d: "deserialize_msg env' (ancillary_bytes env arr @ ?data) lens n (tab', w2)
      = Some (\<lparr>rm_size = length ?data, rm_data = bufs, rm_fds = rfds, rm_flags = fl\<rparr>,
              tab'', fold (close_hnd env') (map fd_hnd (drop (length rfds) arr)) w3)"
    "concat bufs = ?data" "fl AND MSG_CTRUNC \<noteq> 0 \<longleftrightarrow> length rfds < length arr"
    using assms(7) by (auto simp: MSG_CTRUNC_def MSG_TRUNC_def split: if_splits)
  have recv: "mm_ipc_recvmsg env' fd' lens n (tab', ws)
      = Some (Inr \<lparr>rm_size = length ?data, rm_data = bufs, rm_fds = rfds, rm_flags = fl\<rparr>,
              tab'', fold (close_hnd env') (map fd_hnd (drop (length rfds) arr)) w3)"
    using d(1) ws(2) assms(9) by (simp add: mm_ipc_recvmsg_def recv_deserialized_def)
  note c = close_all_handles [OF assms(2), of "map fd_hnd (drop (length rfds) arr)" w3]
  show ?thesis by (intro conjI a(2) exI, rule send, rule recv) (use d r c n assms(12) in auto)
qed

text \<open>
  A concrete pair of processes: the world is the queue of messages, the handles of the receiver and its descriptors; the sender has
  three open files.
\<close>

type_synonym demo_ipc_world = "int list list \<times> (int \<times> nat) list \<times> (int \<times> int) list"

definition demo_sender :: "demo_ipc_world ipc_env" where
  "demo_sender = \<lparr>unwrap_handle_from_fd = (\<lambda>fd. if 3 \<le> fd \<and> fd < 6 then Inr (100 + fd) else Inl EBADF),
     pipe_server_end = (\<lambda>_. Some True), client_process_id = (\<lambda>_. Some 77), server_process_id = (\<lambda>_. None),
     open_process = (\<lambda>pid w. (500, w)),
     dup_to = (\<lambda>p h (q, t, f). if h \<in> {103, 104, 105} \<and> fresh_handle t < 2 ^ 64
                 then (Some (fresh_handle t), (q, (fresh_handle t, nat h) # t, f)) else (None, (q, t, f))),
     close_hnd = (\<lambda>_ w. w), write_file = (\<lambda>_ bytes (q, t). (Some (length bytes), (q @ [bytes], t))),
     read_file = (\<lambda>_ n (q, t). case q of [] \<Rightarrow> (None, (q, t)) | m # q \<Rightarrow> (Some (take n m), (q, t))),
     open_osfhandle = (\<lambda>h w. (None, w)), wrap_errno = EMFILE, get_last_error = (\<lambda>_. ERROR_INVALID_HANDLE),
     create_pipe = (\<lambda>_ _ w. (1, w)), connect_pipe = (\<lambda>_ w. (True, w)), create_file = (\<lambda>_ w. (2, w)), wait_pipe = (\<lambda>_ w. (True, w)),
     anon_name = (\<lambda>w. ([], w)), srv_malloc_ok = True, pad_bytes = (\<lambda>_. [0, 0, 0, 0]), rx_stack = replicate MSG_DATA_BYTES 0\<rparr>"

definition demo_receiver :: "demo_ipc_world ipc_env" where
  "demo_receiver = demo_sender\<lparr>
     open_osfhandle := (\<lambda>h (q, t, f). let n = fresh_handle (map (\<lambda>x. (fst x, 0)) f)
                        in if n < int MAX_FD then (Some n, (q, t, (n, h) # f)) else (None, (q, t, f))),
     close_hnd := (\<lambda>h (q, t, f). (q, filter (\<lambda>(h', _). h' \<noteq> h) t, f))\<rparr>"

definition demo_own :: "int \<rightharpoonup> nat" where
  "demo_own = (\<lambda>h. if h \<in> {103, 104, 105} then Some (nat h) else None)"

abbreviation demo_handles :: "demo_ipc_world \<Rightarrow> int \<rightharpoonup> nat" where
  "demo_handles w \<equiv> map_of (fst (snd w))"

abbreviation demo_fd_handles :: "demo_ipc_world \<Rightarrow> int \<rightharpoonup> int" where
  "demo_fd_handles w \<equiv> map_of (snd (snd w))"

lemma fresh_pos: "0 < fresh_handle t"
proof -
  have "m \<le> fold (\<lambda>(h, _) m. max h m) t m" for m :: int
  proof (induction t arbitrary: m)
    case (Cons x t)
    obtain a b where "x = (a, b)" by fastforce
    then show ?case using Cons.IH [of "max a m"] by simp
  qed simp
  from this [of 0] show ?thesis by (simp add: fresh_handle_def)
qed

lemma demo_send_law: "send_law demo_sender demo_own demo_handles"
proof -
  have "0 \<le> h' \<and> h' < 2 ^ 64 \<and> demo_handles w h' = None \<and> demo_own h \<noteq> None \<and> demo_handles w' = (demo_handles w)(h' := demo_own h)"
    if "dup_to demo_sender p h w = (Some h', w')" for p h w h' w'
  proof -
    obtain q t f where w: "w = (q, t, f)" by (cases w)
    have d: "h \<in> {103, 104, 105}" "fresh_handle t < 2 ^ 64" "h' = fresh_handle t" "w' = (q, (fresh_handle t, nat h) # t, f)"
      using that by (auto simp: demo_sender_def w split: if_splits)
    then show ?thesis using fresh_handle(1) [of t] fresh_pos [of t] by (auto simp: w demo_own_def)
  qed
  then have "\<forall>p h w h' w'. dup_to demo_sender p h w = (Some h', w') \<longrightarrow>
      0 \<le> h' \<and> h' < 2 ^ 64 \<and> demo_handles w h' = None \<and> demo_own h \<noteq> None \<and> demo_handles w' = (demo_handles w)(h' := demo_own h)"
    by blast
  moreover have "pads_ok demo_sender" by (simp add: pads_ok_def demo_sender_def)
  moreover have "demo_handles (snd (open_process demo_sender p w)) = demo_handles w" "close_hnd demo_sender h w = w" for p h w
    by (simp_all add: demo_sender_def)
  ultimately show ?thesis unfolding send_law_def by simp
qed

lemma map_of_without: "map_of (filter (\<lambda>(k', _). k' \<noteq> k) t) = (map_of t)(k := None)"
  by (induction t) (auto simp: fun_eq_iff)

lemma demo_recv_law: "recv_law demo_receiver demo_handles demo_fd_handles"
proof -
  have "demo_handles w' = demo_handles w \<and> (case r of None \<Rightarrow> demo_fd_handles w' = demo_fd_handles w
      | Some fd \<Rightarrow> fd_ok fd \<and> demo_fd_handles w fd = None \<and> demo_fd_handles w' = (demo_fd_handles w)(fd \<mapsto> h))"
    if "open_osfhandle demo_receiver h w = (r, w')" for h w r w'
  proof -
    obtain q t f where w: "w = (q, t, f)" by (cases w)
    let ?f = "map (\<lambda>x. (fst x, 0)) f"
    have "map_of f (fresh_handle ?f) = None" using fresh_handle(1) [of ?f] by (simp add: map_of_eq_None_iff image_image)
    then show ?thesis using that fresh_pos [of ?f] by (auto simp: demo_receiver_def w fd_ok_def Let_def split: if_splits)
  qed
  moreover have "demo_handles (close_hnd demo_receiver h w) = (demo_handles w)(h := None)
      \<and> demo_fd_handles (close_hnd demo_receiver h w) = demo_fd_handles w" for h w
    by (cases w) (simp add: demo_receiver_def map_of_without)
  ultimately show ?thesis by (simp add: recv_law_def)
qed

lemma demo_passes: "pipe_passes demo_sender h demo_receiver h' ([], t) ([], t)"
  by (auto simp: pipe_passes_def demo_sender_def demo_receiver_def)

theorem ipc_message_delivered_witness:
  "\<exists>ws r tab'' w3. mm_ipc_sendmsg demo_sender (replicate 8 FD_TYPE_NORMAL) 5 [[1, 2], [3]] [3, 4] ([], [], []) = Some (Inr 3, ws)
     \<and> mm_ipc_recvmsg demo_receiver 5 [2, 4] 1 (replicate MAX_FD FD_TYPE_UNKNOWN, ws) = Some (Inr r, tab'', w3)
     \<and> rm_size r = 3 \<and> concat (rm_data r) = [1, 2, 3] \<and> length (rm_fds r) \<le> 1 \<and> rm_flags r AND MSG_CTRUNC \<noteq> 0"
proof -
  let ?arr = "[\<lparr>fd_hnd = 1, fd_dinfo = FD_TYPE_NORMAL\<rparr>, \<lparr>fd_hnd = 2, fd_dinfo = FD_TYPE_NORMAL\<rparr>]"
  have u: "unwrap_handle_from_fd demo_sender 5 = Inr 105" "unwrap_handle_from_fd demo_receiver 5 = Inr 105"
    by (simp_all add: demo_sender_def demo_receiver_def)
  have wa: "write_ancillary_data demo_sender (replicate 8 FD_TYPE_NORMAL) [3, 4] 105 ([], [], []) = (Inr ?arr, ([], [(2, 104), (1, 103)], []))"
    by (simp add: write_ancillary_data_def open_peer_process_handle_def)
      (simp add: demo_sender_def INVALID_HANDLE_VALUE_def fresh_handle_def get_fd_info_def)
  have t: "list_all info_byte (replicate 8 FD_TYPE_NORMAL)" "fd_table_ok (replicate MAX_FD FD_TYPE_UNKNOWN)"
    by (simp_all add: info_byte_def FD_TYPE_NORMAL_def FD_TYPE_UNKNOWN_def list_all_iff fd_table_ok_def)
  have "length (rx_stack demo_receiver) = MSG_DATA_BYTES" by (simp add: demo_sender_def demo_receiver_def)
  note ipc_message_delivered [OF demo_send_law demo_recv_law t this _ _ u wa demo_passes refl, where iov = "[[1, 2], [3]]" and lens = "[2, 4]" and n = 1]
  then show ?thesis by auto
qed

text \<open>The data that does not fit in the page behind the header is cut, and the sender learns it only from the length.\<close>

lemma send_cuts_data:
  assumes "pads_ok env" "write_ancillary_data env tab [] h w = (Inr [], w1)"
  shows "serialize_msg env tab h iov [] w = Some (Inr (ancillary_bytes env [] @ take 0xFF8 (concat iov), 8), w1)"
  using assms gather_take [of 8 iov] length_ancillary [OF assms(1), of "[]"]
  by (simp add: serialize_msg_def Let_def MAX_DATA_SIZE_def)

text \<open>\<open>MSG_TRUNC\<close> is set exactly when the buffers of the receiver are larger than the data.\<close>

lemma msg_trunc_inverted:
  assumes "pads_ok env" "length data \<le> 0xFF8" "length (rx_stack env') = MSG_DATA_BYTES"
  shows "\<exists>bufs. deserialize_msg env' (ancillary_bytes env [] @ data) lens n (tab, w)
    = Some (\<lparr>rm_size = length data, rm_data = bufs, rm_fds = [], rm_flags = (if length data < sum_list lens then MSG_TRUNC else 0)\<rparr>, tab, w)"
  using deserialize_serialized [OF assms(1), of "[]" data env' n "(tab, w)" "[]" "[]" tab w lens] assms(2,3) by auto

section \<open>Limits\<close>

text \<open>With 256 descriptors or more the header fills the page and the length of the data becomes negative: \<open>memcpy\<close> overruns.\<close>

lemma send_256_fds:
  assumes "write_ancillary_data env tab fds h w = (Inr arr, w1)" "pads_ok env" "length arr = length fds" "256 \<le> length fds"
    "length fds < 2 ^ 32" "length v < 2 ^ 32"
  shows "serialize_msg env tab h (v # vs) fds w = None"
proof -
  let ?t = "int (8 + 16 * length fds)"
  have "(MAX_DATA_SIZE - ?t + 2 ^ 64) mod 2 ^ 64 = MAX_DATA_SIZE - ?t + 2 ^ 64"
    using assms(4,5) by (intro mod_pos_pos_trivial) (simp_all add: MAX_DATA_SIZE_def)
  then have "(MAX_DATA_SIZE - ?t) mod 2 ^ 64 = MAX_DATA_SIZE - ?t + 2 ^ 64" by (simp only: mod_add_self2)
  moreover have "MAX_DATA_SIZE - ?t + 2 ^ 64 > int (length v)" using assms(5,6) by (simp add: MAX_DATA_SIZE_def)
  ultimately have "gather (v # vs) ?t = None" using assms(4) by (simp add: Let_def MAX_DATA_SIZE_def)
  then show ?thesis using assms(1,3) length_ancillary [OF assms(2), of arr]
    by (simp add: serialize_msg_def Let_def del: gather.simps of_nat_add of_nat_mult)
qed

text \<open>The test of the length of an address admits one character too many: such an address gives the name of another one.\<close>

lemma pipe_name_inj:
  "length a \<le> 246 \<Longrightarrow> length b \<le> 246 \<Longrightarrow> pipe_name a = pipe_name b \<Longrightarrow> a = b"
  by (simp add: pipe_name_def MAX_PIPENAME_def PIPE_PREFIX_def)

lemma pipe_name_cut:
  "length (replicate 246 CHR ''a'' @ [c]) \<le> MAX_PIPENAME - length PIPE_PREFIX"
  "pipe_name (replicate 246 CHR ''a'' @ [c]) = pipe_name (replicate 246 CHR ''a'' @ [d])"
  by (simp_all add: pipe_name_def MAX_PIPENAME_def PIPE_PREFIX_def)

text \<open>
  When the next pipe cannot be created, an accepted connection is lost with its descriptor, and the server keeps the handle of
  that connection as the one on which it listens.
\<close>

lemma accept_keeps_handle:
  assumes "connect_pipe env (srv_hpipe srv) w = (True, w1)" "wrap_fd env (srv_hpipe srv) FD_TYPE_IPCDGRAM (tab, w1) = Some (Some fd, tab1, w2)"
    "create_pipe env (srv_pipe_name srv) False w2 = (INVALID_HANDLE_VALUE, w3)"
  shows "\<exists>e. mm_ipc_srv_accept env srv (tab, w) = Some (Inl e, srv, tab1, w3)"
  using assms by (simp add: mm_ipc_srv_accept_def)

text \<open>A failure half way closes the numbers of the handles of the other process in the own process.\<close>

lemma send_failure_closes:
  assumes "unwrap_handle_from_fd env a = Inr ha" "dup_to env p ha w = (Some h1, w1)" "unwrap_handle_from_fd env b = Inl e"
  shows "snd (dup_fds env tab p [a, b] [] w) = close_hnd env h1 w1"
  using assms by (simp add: Let_def)

text \<open>A process that cannot be opened is not noticed.\<close>

lemma null_process_unnoticed:
  assumes "pipe_server_end env h = Some True" "client_process_id env h = Some pid" "open_process env pid w = (0, w1)"
  shows "open_peer_process_handle env h w = (Inr 0, w1)"
  using assms by (simp add: open_peer_process_handle_def INVALID_HANDLE_VALUE_def)

end
