(* ===== verification/Sockets.thy ===== *)
theory Sockets
  imports Err_Log Arg_Conv Win_Fd
begin

unbundle bit_operations_syntax

text \<open>
  Sockets (\<^verbatim>\<open>src/src/socket.c\<close>, \<^verbatim>\<open>src/src/socket-posix.c\<close>, \<^verbatim>\<open>src/src/socket-win32.c\<close>): name resolution with its
  error codes, the client socket made from an address of the form \<open>service://host:port\<close>, the options that hold a timeout on
  POSIX, and the asynchronous transfers, the messages in series and the polling on Windows. The socket functions of the system are
  parameters; the functions that hand their arguments over and only raise the error are not repeated here.
\<close>

section \<open>Name resolution\<close>

definition is_numeric_string :: "string option \<Rightarrow> bool" where
  "is_numeric_string str =
     (case str of
        None \<Rightarrow> False
      | Some s \<Rightarrow> s \<noteq> [] \<and> list_all (\<lambda>c. \<not> ((of_char c :: nat) < of_char CHR ''0'' \<or> (of_char c :: nat) > of_char CHR ''9'')) s)"

datatype eai_code = EAI_ADDRFAMILY | EAI_AGAIN | EAI_FAMILY | EAI_SERVICE | EAI_BADFLAGS | EAI_FAIL | EAI_MEMORY | EAI_NODATA
  | EAI_NONAME | EAI_OVERFLOW | EAI_SOCKTYPE | EaiOther int

definition EAGAIN :: errcode where "EAGAIN = OtherErr 11"
definition MM_ENOTFOUND :: errcode where "MM_ENOTFOUND = OtherErr 1005"
definition MM_ENONAME :: errcode where "MM_ENONAME = OtherErr 1010"

definition eai_error_cases :: "(eai_code \<times> errcode \<times> string) list" where
  "eai_error_cases =
     [(EAI_ADDRFAMILY, EADDRNOTAVAIL, ''host does not have network address in requested family''),
      (EAI_AGAIN, EAGAIN, ''The name server returned a temporary failure. Try again later.''),
      (EAI_FAMILY, EAFNOSUPPORT, ''Address family was not recognized or address length was invalid for the specified family''),
      (EAI_SERVICE, MM_ENOTFOUND, ''Requested service not available for the requested socket type''),
      (EAI_BADFLAGS, EINVAL, ''invalid value in flags''),
      (EAI_FAIL, EIO, ''A non recoverable error occurred''),
      (EAI_MEMORY, ENOMEM, ''Out of memory''),
      (EAI_NODATA, MM_ENONAME, ''Node is not known''),
      (EAI_NONAME, MM_ENONAME, ''Node is not known''),
      (EAI_OVERFLOW, EOVERFLOW, ''host or serv buffer is too small''),
      (EAI_SOCKTYPE, EPROTOTYPE, ''requested socket type not supported or inconsistent with protocol'')]"

text \<open>\<open>None\<close> is the result \<open>-1\<close>, an error that the system describes.\<close>

definition translate_eai_to_errnum :: "eai_code \<Rightarrow> (errcode \<times> string) option" where
  "translate_eai_to_errnum eai = map_of eai_error_cases eai"

definition AI_CANONNAME :: int where "AI_CANONNAME = 0x0002"
definition AI_NUMERICSERV :: int where "AI_NUMERICSERV = 0x0400"

record addrinfo_hints =
  ai_flags :: int
  ai_hfamily :: int
  ai_hsocktype :: int
  ai_hprotocol :: int

record addrinfo =
  ai_family :: int
  ai_socktype :: int
  ai_host :: string
  ai_port :: int

definition has_ai_flag :: "int \<Rightarrow> addrinfo_hints option \<Rightarrow> bool" where
  "has_ai_flag flag hints = (case hints of None \<Rightarrow> False | Some h \<Rightarrow> ai_flags h AND flag \<noteq> 0)"

text \<open>The outcome of \<open>getaddrinfo\<close>, an argument of the model, and what the library makes of it.\<close>

definition internal_getaddrinfo ::
  "string option \<Rightarrow> string option \<Rightarrow> addrinfo_hints option \<Rightarrow> eai_code + addrinfo list \<Rightarrow> (errcode \<times> string) option + addrinfo list" where
  "internal_getaddrinfo node service hints rv =
     (case rv of
        Inr res \<Rightarrow> Inr res
      | Inl eai \<Rightarrow>
          if node = None \<and> service = None then Inl (Some (EINVAL, ''Both node and service are NULL''))
          else if has_ai_flag AI_CANONNAME hints \<and> node = None
          then Inl (Some (EINVAL, ''FQDN requested but node is NULL''))
          else if has_ai_flag AI_NUMERICSERV hints \<and> \<not> is_numeric_string service
          then Inl (Some (EINVAL, ''while requested, service is not numeric port-number string''))
          else Inl (translate_eai_to_errnum eai))"

definition internal_getnameinfo :: "eai_code + 'a \<Rightarrow> (errcode \<times> string) option + 'a" where
  "internal_getnameinfo rv = (case rv of Inr x \<Rightarrow> Inr x | Inl eai \<Rightarrow> Inl (translate_eai_to_errnum eai))"

text \<open>
  The error that is raised, with its message: \<open>sys\<close> is the code and the message of the system. \<open>raise\<close> is \<open>mm_raise_error\<close> for the
  code and the message.
\<close>

definition resolve_error :: "errcode \<times> string \<Rightarrow> (errcode \<times> string) option \<Rightarrow> errcode \<times> string" where
  "resolve_error sys e = (case e of None \<Rightarrow> sys | Some x \<Rightarrow> x)"

definition mm_getaddrinfo ::
  "errcode \<times> string \<Rightarrow> string option \<Rightarrow> string option \<Rightarrow> addrinfo_hints option \<Rightarrow> eai_code + addrinfo list \<Rightarrow>
   (errcode \<times> string) + addrinfo list" where
  "mm_getaddrinfo sys node service hints rv =
     (case internal_getaddrinfo node service hints rv of Inr res \<Rightarrow> Inr res | Inl e \<Rightarrow> Inl (resolve_error sys e))"

definition mm_getnameinfo :: "errcode \<times> string \<Rightarrow> eai_code + 'a \<Rightarrow> (errcode \<times> string) + 'a" where
  "mm_getnameinfo sys rv = (case internal_getnameinfo rv of Inr x \<Rightarrow> Inr x | Inl e \<Rightarrow> Inl (resolve_error sys e))"

section \<open>Client sockets\<close>

definition SOCK_STREAM :: int where "SOCK_STREAM = 1"
definition SOCK_DGRAM :: int where "SOCK_DGRAM = 2"
definition AF_INET :: int where "AF_INET = 2"
definition AF_INET6 :: int where "AF_INET6 = 10"

definition protocol_services :: "(string \<times> int) list" where
  "protocol_services = [(''tcp'', SOCK_STREAM), (''udp'', SOCK_DGRAM)]"

definition get_socktype_from_protocol_services :: "string \<Rightarrow> int" where
  "get_socktype_from_protocol_services service = (case map_of protocol_services service of None \<Rightarrow> 0 | Some t \<Rightarrow> t)"

text \<open>The state is that of the thread's error and a world; the descriptor \<open>-1\<close> is a failure.\<close>

record 'w sock_env =
  getaddrinfo :: "string option \<Rightarrow> string option \<Rightarrow> addrinfo_hints option \<Rightarrow> thread_err \<times> 'w \<Rightarrow> (eai_code + addrinfo list) \<times> thread_err \<times> 'w"
  sys_error :: "thread_err \<times> 'w \<Rightarrow> errcode \<times> string"
  raise_addr :: "errcode \<times> string \<Rightarrow> thread_err \<times> 'w \<Rightarrow> thread_err \<times> 'w"
  sock_open :: "int \<Rightarrow> int \<Rightarrow> thread_err \<times> 'w \<Rightarrow> int \<times> thread_err \<times> 'w"
  sock_connect :: "int \<Rightarrow> addrinfo \<Rightarrow> thread_err \<times> 'w \<Rightarrow> bool \<times> thread_err \<times> 'w"
  sock_close :: "int \<Rightarrow> thread_err \<times> 'w \<Rightarrow> thread_err \<times> 'w"
  raise_einval :: "string \<Rightarrow> thread_err \<times> 'w \<Rightarrow> thread_err \<times> 'w"
  malloca_ok :: "nat \<Rightarrow> bool"

text \<open>The port is stored as it is, in the 16 bits of the field.\<close>

definition override_port :: "int \<Rightarrow> addrinfo \<Rightarrow> addrinfo" where
  "override_port port ai =
     (if port > 0 \<and> (ai_family ai = AF_INET6 \<or> ai_family ai = AF_INET) then ai\<lparr>ai_port := port mod 2 ^ 16\<rparr> else ai)"

fun connect_addrs :: "'w sock_env \<Rightarrow> int \<Rightarrow> error_info \<Rightarrow> addrinfo list \<Rightarrow> thread_err \<times> 'w \<Rightarrow> int \<times> thread_err \<times> 'w" where
  "connect_addrs env port errstate [] s = (- 1, s)"
| "connect_addrs env port errstate (ai # ais) s =
     (let ai = override_port port ai;
          (fd, s) = sock_open env (ai_family ai) (ai_socktype ai) s;
          (ok, s) = (if fd < 0 then (False, s) else sock_connect env fd ai s)
      in if \<not> ok
         then connect_addrs env port errstate ais (if fd = -1 then s else sock_close env fd s)
         else (fd, mm_set_errorstate errstate (fst s), snd s))"

definition create_connected_socket ::
  "'w sock_env \<Rightarrow> string \<Rightarrow> string \<Rightarrow> int \<Rightarrow> addrinfo_hints \<Rightarrow> thread_err \<times> 'w \<Rightarrow> int \<times> thread_err \<times> 'w" where
  "create_connected_socket env service host port hints s =
     (let (rv, s) = getaddrinfo env (Some host) (Some service) (Some hints) s
      in case mm_getaddrinfo (sys_error env s) (Some host) (Some service) (Some hints) rv of
           Inl e \<Rightarrow> (- 1, raise_addr env e s)
         | Inr res \<Rightarrow> connect_addrs env port (mm_save_errorstate (fst s)) res s)"

text \<open>
  \<open>sscanf\<close> with \<open>%[a-z]://%[^/:]:%i\<close>: the number of fields, the service, the host and the port, which stays \<open>-1\<close> when it is not
  converted. \<open>%i\<close> reads like \<open>strtoll\<close> with base 0.
\<close>

definition is_lower :: "char \<Rightarrow> bool" where
  "is_lower c \<longleftrightarrow> (of_char CHR ''a'' :: nat) \<le> of_char c \<and> of_char c \<le> (of_char CHR ''z'' :: nat)"

definition int_of_ll :: "int \<Rightarrow> int" where
  "int_of_ll x = (x + 2 ^ 31) mod 2 ^ 32 - 2 ^ 31"

definition scan_uri :: "string \<Rightarrow> int \<times> string \<times> string \<times> int" where
  "scan_uri uri =
     (let service = takeWhile is_lower uri; r = dropWhile is_lower uri;
          host = takeWhile (\<lambda>c. c \<noteq> CHR ''/'' \<and> c \<noteq> CHR '':'') (drop 3 r);
          q = dropWhile (\<lambda>c. c \<noteq> CHR ''/'' \<and> c \<noteq> CHR '':'') (drop 3 r)
      in if uri = [] then (- 1, [], [], - 1)
         else if service = [] then (0, [], [], - 1)
         else if take 3 r \<noteq> ''://'' \<or> host = [] then (1, service, [], - 1)
         else if q = [] \<or> hd q \<noteq> CHR '':'' \<or> strto_scan (tl q) = None then (2, service, host, - 1)
         else (3, service, host, int_of_ll (fst (strtoll (tl q)))))"

definition SERVICE_SIZE :: nat where "SERVICE_SIZE = 16"

text \<open>The service is stored in 16 bytes; a longer one is written behind them: \<open>None\<close>.\<close>

definition mm_create_sockclient :: "'w sock_env \<Rightarrow> string option \<Rightarrow> thread_err \<times> 'w \<Rightarrow> (int \<times> thread_err \<times> 'w) option" where
  "mm_create_sockclient env uri s =
     (case uri of
        None \<Rightarrow> Some (- 1, raise_einval env ''uri cannot be NULL'' s)
      | Some uri \<Rightarrow>
          if \<not> malloca_ok env (length uri + 1) then Some (- 1, s)
          else let (num_field, service, host, port) = scan_uri uri
               in if length service \<ge> SERVICE_SIZE then None
                  else if num_field < 2 then Some (- 1, raise_einval env ''uri does not follow service://host or service://host:port format'' s)
                  else let socktype = get_socktype_from_protocol_services service
                       in if socktype \<noteq> 0 \<and> port < 0 then Some (- 1, raise_einval env ''port must be specified with %s'' s)
                          else if socktype \<noteq> 0
                          then Some (create_connected_socket env (dec_int port) host (- 1)
                                 \<lparr>ai_flags = AI_NUMERICSERV, ai_hfamily = 0, ai_hsocktype = socktype, ai_hprotocol = 0\<rparr> s)
                          else Some (create_connected_socket env service host port
                                 \<lparr>ai_flags = 0, ai_hfamily = 0, ai_hsocktype = 0, ai_hprotocol = 0\<rparr> s))"

section \<open>Timeouts of a socket (posix)\<close>

definition SOL_SOCKET :: int where "SOL_SOCKET = 1"
definition SO_RCVTIMEO :: int where "SO_RCVTIMEO = 20"
definition SO_SNDTIMEO :: int where "SO_SNDTIMEO = 21"

text \<open>The value of an option: raw bytes of some length, an \<open>int\<close>, or the structure \<open>timeval\<close>.\<close>

datatype sockopt = OptRaw "int list" | OptInt int | OptTimeval int int

fun opt_size :: "sockopt \<Rightarrow> nat" where
  "opt_size (OptRaw bs) = length bs"
| "opt_size (OptInt _) = 4"
| "opt_size (OptTimeval _ _) = 16"

definition is_timeout_opt :: "int \<Rightarrow> int \<Rightarrow> bool" where
  "is_timeout_opt level optname \<longleftrightarrow> level = SOL_SOCKET \<and> (optname = SO_RCVTIMEO \<or> optname = SO_SNDTIMEO)"

text \<open>\<open>sso\<close> is the function \<open>setsockopt\<close> of the system for the socket. The delay is read from the first four bytes.\<close>

definition mm_setsockopt :: "(int \<Rightarrow> int \<Rightarrow> sockopt \<Rightarrow> 'w \<Rightarrow> retcode \<times> 'w) \<Rightarrow> int \<Rightarrow> int \<Rightarrow> sockopt \<Rightarrow> 'w \<Rightarrow> retcode \<times> 'w" where
  "mm_setsockopt sso level optname optval w =
     (if is_timeout_opt level optname
      then (if opt_size optval \<noteq> 4 then (Some EINVAL, w)
            else case optval of
                   OptInt delay_ms \<Rightarrow> sso level optname (OptTimeval (delay_ms sdiv 1000) ((delay_ms smod 1000) * 1000)) w
                 | _ \<Rightarrow> sso level optname optval w)
      else sso level optname optval w)"

text \<open>The result is cut to the length that the caller gives; both lengths are returned.\<close>

definition mm_getsockopt ::
  "(int \<Rightarrow> int \<Rightarrow> 'w \<Rightarrow> (errcode + sockopt) \<times> 'w) \<Rightarrow> int \<Rightarrow> int \<Rightarrow> nat \<Rightarrow> 'w \<Rightarrow> (errcode + sockopt \<times> nat) \<times> 'w" where
  "mm_getsockopt get level optname optlen w =
     (case get level optname w of
        (Inl e, w) \<Rightarrow> (Inl e, w)
      | (Inr v, w) \<Rightarrow>
          let v = (if is_timeout_opt level optname
                   then (case v of OptTimeval sec usec \<Rightarrow> OptInt (int_of_ll (int_of_ll (sec * 1000) + usec sdiv 1000)) | _ \<Rightarrow> v)
                   else v)
          in (Inr (v, min optlen (opt_size v)), w))"

section \<open>Transfers, series of messages and polling (win32)\<close>

datatype xfer_status = XFER_PENDING | XFER_SUCCESS | XFER_ERROR

record xfer_data =
  data_len :: nat
  xfer_status :: xfer_status
  xfer_flags :: int

text \<open>The completion routine, with the error that it leaves for the caller.\<close>

definition xfer_completion :: "w32err option \<Rightarrow> nat \<Rightarrow> int \<Rightarrow> xfer_data \<Rightarrow> xfer_data \<times> w32err option" where
  "xfer_completion err xfer_sz flags xfer =
     (xfer\<lparr>data_len := xfer_sz, xfer_status := (if err = None then XFER_SUCCESS else XFER_ERROR), xfer_flags := flags\<rparr>, err)"

text \<open>
  Each element of the list is an alertable sleep that ends: with the completion of this transfer, or with something else. \<open>None\<close>
  while it is not completed.
\<close>

fun wait_operation_xfer :: "(w32err option \<times> nat \<times> int) option list \<Rightarrow> xfer_data \<Rightarrow> (bool \<times> xfer_data \<times> w32err option) option" where
  "wait_operation_xfer [] xfer = (if xfer_status xfer = XFER_PENDING then None else Some (xfer_status xfer = XFER_SUCCESS, xfer, None))"
| "wait_operation_xfer (e # es) xfer =
     (if xfer_status xfer \<noteq> XFER_PENDING then Some (xfer_status xfer = XFER_SUCCESS, xfer, None)
      else case e of
             None \<Rightarrow> wait_operation_xfer es xfer
           | Some (err, sz, flags) \<Rightarrow>
               let (xfer, e) = xfer_completion err sz flags xfer
               in map_option (\<lambda>(ok, x, _). (ok, x, e)) (wait_operation_xfer es xfer))"

text \<open>A message in series: \<open>send\<close> is \<open>mm_sendmsg\<close> or \<open>mm_recvmsg\<close>, and gives the length of the data or fails.\<close>

fun multimsg_loop :: "('m \<Rightarrow> 'w \<Rightarrow> nat option \<times> 'w) \<Rightarrow> 'm list \<Rightarrow> nat \<Rightarrow> nat list \<Rightarrow> 'w \<Rightarrow> int \<times> nat list \<times> 'w" where
  "multimsg_loop xfer [] i lens w = (int i, lens, w)"
| "multimsg_loop xfer (m # ms) i lens w =
     (case xfer m w of
        (None, w) \<Rightarrow> ((if i = 0 then - 1 else int i), lens, w)
      | (Some sz, w) \<Rightarrow> multimsg_loop xfer ms (i + 1) (lens @ [sz mod 2 ^ 32]) w)"

definition mm_send_multimsg :: "('m \<Rightarrow> 'w \<Rightarrow> nat option \<times> 'w) \<Rightarrow> 'm list \<Rightarrow> 'w \<Rightarrow> int \<times> nat list \<times> 'w" where
  "mm_send_multimsg send msgvec w = multimsg_loop send msgvec 0 [] w"

definition mm_recv_multimsg :: "('m \<Rightarrow> 'w \<Rightarrow> nat option \<times> 'w) \<Rightarrow> 'm list \<Rightarrow> mm_timespec option \<Rightarrow> 'w \<Rightarrow> int \<times> nat list \<times> 'w" where
  "mm_recv_multimsg recv msgvec timeout w = multimsg_loop recv msgvec 0 [] w"

definition IPPROTO_UDP :: int where "IPPROTO_UDP = 17"
definition IPPROTO_TCP :: int where "IPPROTO_TCP = 6"
definition IPPROTO_ICMP :: int where "IPPROTO_ICMP = 1"
definition IPPROTO_ICMPV6 :: int where "IPPROTO_ICMPV6 = 58"
definition AF_INET6_W32 :: int where "AF_INET6_W32 = 23"

definition validate_hints :: "addrinfo_hints option \<Rightarrow> retcode" where
  "validate_hints hints =
     (case hints of
        None \<Rightarrow> None
      | Some h \<Rightarrow>
          if ai_hprotocol h = 0 then None
          else let socktype = ai_hsocktype h; family = ai_hfamily h; p = ai_hprotocol h;
                   valid =
                     (if p = IPPROTO_UDP then (socktype = 0 \<or> socktype = SOCK_DGRAM) \<and> (family = 0 \<or> family = AF_INET \<or> family = AF_INET6_W32)
                      else if p = IPPROTO_TCP then (socktype = 0 \<or> socktype = SOCK_STREAM) \<and> (family = 0 \<or> family = AF_INET \<or> family = AF_INET6_W32)
                      else if p = IPPROTO_ICMP then (socktype = 0 \<or> socktype = SOCK_DGRAM) \<and> (family = 0 \<or> family = AF_INET)
                      else if p = IPPROTO_ICMPV6 then (socktype = 0 \<or> socktype = SOCK_DGRAM) \<and> (family = 0 \<or> family = AF_INET6_W32)
                      else True)
               in if valid then None else Some EPROTOTYPE)"

definition mm_shutdown_win32 :: "errcode + int \<Rightarrow> w32err option \<Rightarrow> int \<times> retcode" where
  "mm_shutdown_win32 sock res =
     (case sock of
        Inl e \<Rightarrow> (- 1, Some e)
      | Inr s \<Rightarrow> (0, map_option get_errcode_from_w32err res))"

record mm_pollfd =
  pfd :: int
  events :: int
  revents :: int

text \<open>
  \<open>unwrap\<close> is the handle behind a descriptor, \<open>-1\<close> (\<open>INVALID_SOCKET\<close>) when there is none; \<open>wsapoll\<close> gets the handles with
  the events and returns the number of ready ones with what happened to each; \<open>sleep\<close> is \<open>mm_relative_sleep_ms\<close>.
\<close>

definition mm_poll_win32 ::
  "(int \<Rightarrow> int) \<Rightarrow> ((int \<times> int) list \<Rightarrow> int \<Rightarrow> 'w \<Rightarrow> (errcode + int \<times> int list) \<times> 'w) \<Rightarrow> (int \<Rightarrow> 'w \<Rightarrow> 'w) \<Rightarrow> (nat \<Rightarrow> bool) \<Rightarrow>
   mm_pollfd list \<Rightarrow> int \<Rightarrow> 'w \<Rightarrow> (errcode + int) \<times> mm_pollfd list \<times> 'w" where
  "mm_poll_win32 unwrap wsapoll sleep ok fds timeout_ms w =
     (if \<not> ok (length fds) then (Inl ENOMEM, fds, w)
      else let wfds = map (\<lambda>f. (if pfd f \<ge> 0 then unwrap (pfd f) else - 1, events f)) fds
           in if list_all (\<lambda>f. \<not> pfd f \<ge> 0) fds then (Inr 0, fds, sleep timeout_ms w)
              else (case wsapoll wfds timeout_ms w of
                      (Inl e, w) \<Rightarrow> (Inl e, fds, w)
                    | (Inr (rv, revs), w) \<Rightarrow>
                        (Inr rv, map (\<lambda>(f, r). f\<lparr>revents := (if pfd f < 0 then 0 else r)\<rparr>) (zip fds revs), w)))"


section \<open>Addresses of a client\<close>

definition host_ok :: "string \<Rightarrow> bool" where
  "host_ok host \<longleftrightarrow> host \<noteq> [] \<and> CHR ''/'' \<notin> set host \<and> CHR '':'' \<notin> set host"

lemma takeWhile_host:
  assumes "host_ok host" "q = [] \<or> hd q = CHR '':''"
  shows "takeWhile (\<lambda>c. c \<noteq> CHR ''/'' \<and> c \<noteq> CHR '':'') (host @ q) = host" "dropWhile (\<lambda>c. c \<noteq> CHR ''/'' \<and> c \<noteq> CHR '':'') (host @ q) = q"
proof -
  have h: "\<forall>c \<in> set host. c \<noteq> CHR ''/'' \<and> c \<noteq> CHR '':''" using assms(1) by (auto simp: host_ok_def)
  then show "takeWhile (\<lambda>c. c \<noteq> CHR ''/'' \<and> c \<noteq> CHR '':'') (host @ q) = host" "dropWhile (\<lambda>c. c \<noteq> CHR ''/'' \<and> c \<noteq> CHR '':'') (host @ q) = q"
    using assms(2) by (cases q; simp)+
qed

lemma takeWhile_service:
  assumes "list_all is_lower service"
  shows "takeWhile is_lower (service @ ''://'' @ r) = service" "dropWhile is_lower (service @ ''://'' @ r) = ''://'' @ r"
proof -
  have "\<not> is_lower CHR '':''" by (simp add: is_lower_def)
  then show "takeWhile is_lower (service @ ''://'' @ r) = service" "dropWhile is_lower (service @ ''://'' @ r) = ''://'' @ r"
    using assms by (simp_all add: list_all_iff)
qed

lemma int_of_ll_small: "- (2 ^ 31) \<le> x \<Longrightarrow> x < 2 ^ 31 \<Longrightarrow> int_of_ll x = x"
  unfolding int_of_ll_def by (subst mod_pos_pos_trivial) auto

lemma strtoll_dec: "- (2 ^ 31) \<le> x \<Longrightarrow> x < 2 ^ 31 \<Longrightarrow> fst (strtoll (dec_int x)) = x"
  by (auto simp: strtoll_def strto_scan_dec INT64_MAX_def)

text \<open>An address reads back to its parts.\<close>

lemma scan_uri_parts:
  assumes "list_all is_lower service" "service \<noteq> []" "host_ok host"
  shows "scan_uri (service @ ''://'' @ host) = (2, service, host, - 1)"
    "- (2 ^ 31) \<le> port \<Longrightarrow> port < 2 ^ 31 \<Longrightarrow> scan_uri (service @ ''://'' @ host @ '':'' @ dec_int port) = (3, service, host, port)"
proof -
  have h: "host \<noteq> []" using assms(3) by (simp add: host_ok_def)
  show "scan_uri (service @ ''://'' @ host) = (2, service, host, - 1)"
    using takeWhile_service [OF assms(1), of host] takeWhile_host [OF assms(3), of "[]", simplified append_Nil2] assms(2) h
    by (simp add: scan_uri_def Let_def del: takeWhile_eq_all_conv dropWhile_eq_Nil_conv)
  assume "- (2 ^ 31) \<le> port" "port < 2 ^ 31"
  then show "scan_uri (service @ ''://'' @ host @ '':'' @ dec_int port) = (3, service, host, port)"
    using takeWhile_service [OF assms(1), of "host @ '':'' @ dec_int port"] takeWhile_host [OF assms(3), of "'':'' @ dec_int port"]
      assms(2) h strtoll_dec [of port] int_of_ll_small [of port] strto_scan_dec [of port]
    by (simp add: scan_uri_def Let_def)
qed

text \<open>
  The laws of the socket functions, on the set of the open sockets and the peers of the connected ones: both depend on the world
  only.
\<close>

definition sock_law :: "'w sock_env \<Rightarrow> ('w \<Rightarrow> int set) \<Rightarrow> ('w \<Rightarrow> int \<rightharpoonup> addrinfo) \<Rightarrow> bool" where
  "sock_law env opens peer \<longleftrightarrow>
     (\<forall>f t s fd s'. sock_open env f t s = (fd, s') \<longrightarrow> fd < 0 \<longrightarrow> fd = - 1 \<and> opens (snd s') = opens (snd s))
   \<and> (\<forall>f t s fd s'. sock_open env f t s = (fd, s') \<longrightarrow> \<not> fd < 0 \<longrightarrow>
        fd \<notin> opens (snd s) \<and> opens (snd s') = insert fd (opens (snd s)))
   \<and> (\<forall>fd ai s ok s'. sock_connect env fd ai s = (ok, s') \<longrightarrow> opens (snd s') = opens (snd s) \<and> (ok \<longrightarrow> peer (snd s') fd = Some ai))
   \<and> (\<forall>fd s. opens (snd (sock_close env fd s)) = opens (snd s) - {fd})
   \<and> (\<forall>n sv h s. opens (snd (snd (getaddrinfo env n sv h s))) = opens (snd s))
   \<and> (\<forall>e s. opens (snd (raise_addr env e s)) = opens (snd s))"

lemma sock_lawD:
  assumes "sock_law env opens peer"
  shows "sock_open env f t s = (fd, s') \<Longrightarrow> fd < 0 \<Longrightarrow> fd = - 1 \<and> opens (snd s') = opens (snd s)"
    "sock_open env f t s = (fd, s') \<Longrightarrow> \<not> fd < 0 \<Longrightarrow> fd \<notin> opens (snd s) \<and> opens (snd s') = insert fd (opens (snd s))"
    "sock_connect env fd ai s = (ok, s') \<Longrightarrow> opens (snd s') = opens (snd s) \<and> (ok \<longrightarrow> peer (snd s') fd = Some ai)"
    "opens (snd (sock_close env fd s)) = opens (snd s) - {fd}"
    "opens (snd (snd (getaddrinfo env n sv h s))) = opens (snd s)"
proof -
  note l = assms [unfolded sock_law_def]
  show "sock_open env f t s = (fd, s') \<Longrightarrow> fd < 0 \<Longrightarrow> fd = - 1 \<and> opens (snd s') = opens (snd s)"
    by (rule l [THEN conjunct1, rule_format])
  note l = l [THEN conjunct2]
  show "sock_open env f t s = (fd, s') \<Longrightarrow> \<not> fd < 0 \<Longrightarrow> fd \<notin> opens (snd s) \<and> opens (snd s') = insert fd (opens (snd s))"
    by (rule l [THEN conjunct1, rule_format])
  note l = l [THEN conjunct2]
  show "sock_connect env fd ai s = (ok, s') \<Longrightarrow> opens (snd s') = opens (snd s) \<and> (ok \<longrightarrow> peer (snd s') fd = Some ai)"
    by (rule l [THEN conjunct1, THEN spec, THEN spec, THEN spec, THEN spec, THEN spec, THEN mp])
  note l = l [THEN conjunct2]
  show "opens (snd (sock_close env fd s)) = opens (snd s) - {fd}" by (rule l [THEN conjunct1, rule_format])
  show "opens (snd (snd (getaddrinfo env n sv h s))) = opens (snd s)" by (rule l [THEN conjunct2, THEN conjunct1, rule_format])
qed

lemma connect_addrs_ok:
  assumes "sock_law env opens peer" "connect_addrs env port st ais s = (fd, s')"
  shows "if fd < 0 then opens (snd s') = opens (snd s)
    else fd \<notin> opens (snd s) \<and> opens (snd s') = insert fd (opens (snd s)) \<and> fst (fst s') = st
      \<and> (\<exists>ai \<in> set ais. peer (snd s') fd = Some (override_port port ai))"
  using assms(2)
proof (induction ais arbitrary: s)
  case (Cons ai ais)
  let ?ai = "override_port port ai"
  obtain fd1 s1 where o: "sock_open env (ai_family ?ai) (ai_socktype ?ai) s = (fd1, s1)" by (rule prod.exhaust)
  show ?case
  proof (cases "fd1 < 0")
    case True
    then have f: "fd1 = - 1" "opens (snd s1) = opens (snd s)" using sock_lawD(1) [OF assms(1) o] by auto
    then have "connect_addrs env port st ais s1 = (fd, s')" using Cons.prems o by (simp add: Let_def)
    from Cons.IH [OF this] f show ?thesis by (auto split: if_splits)
  next
    case False
    then have f: "fd1 \<notin> opens (snd s)" "opens (snd s1) = insert fd1 (opens (snd s))"
      using sock_lawD(2) [OF assms(1) o] by auto
    obtain ok s2 where c: "sock_connect env fd1 ?ai s1 = (ok, s2)" by (rule prod.exhaust)
    have f2: "opens (snd s2) = opens (snd s1)" "ok \<Longrightarrow> peer (snd s2) fd1 = Some ?ai"
      using sock_lawD(3) [OF assms(1) c] by auto
    show ?thesis
    proof (cases ok)
      case True
      then have "fd = fd1" "s' = (mm_set_errorstate st (fst s2), snd s2)" using Cons.prems o c False by (auto simp: Let_def)
      then show ?thesis using f f2 True False by (auto simp: mm_set_errorstate_def)
    next
      case nok: False
      have next_run: "connect_addrs env port st ais (sock_close env fd1 s2) = (fd, s')" using Cons.prems o c False nok by (simp add: Let_def)
      have "opens (snd (sock_close env fd1 s2)) = opens (snd s)"
        using sock_lawD(4) [OF assms(1), of fd1 s2] f f2(1) by auto
      then show ?thesis using Cons.IH [OF next_run] by (auto split: if_splits)
    qed
  qed
qed simp

text \<open>
  C28. A client socket for \<open>tcp://host:port\<close>: the host is resolved for the decimal port and a stream socket, and the addresses are
  tried in order. On success the descriptor is new, it is connected to one of the addresses as it was resolved, no other socket is
  left open and the error state is the one from before the attempts; on failure no socket is left open.
\<close>

theorem sockclient_connects:
  assumes "sock_law env opens peer" "host_ok host" "0 \<le> port" "port < 2 ^ 31" "malloca_ok env (length (''tcp://'' @ host @ '':'' @ dec_int port) + 1)"
    and "getaddrinfo env (Some host) (Some (dec_int port))
           (Some \<lparr>ai_flags = AI_NUMERICSERV, ai_hfamily = 0, ai_hsocktype = SOCK_STREAM, ai_hprotocol = 0\<rparr>) s = (Inr res, s1)"
    and "fst s1 = fst s"
  shows "\<exists>fd s'. mm_create_sockclient env (Some (''tcp://'' @ host @ '':'' @ dec_int port)) s = Some (fd, s')
    \<and> (if fd < 0 then opens (snd s') = opens (snd s)
       else fd \<notin> opens (snd s) \<and> opens (snd s') = insert fd (opens (snd s)) \<and> fst (fst s') = fst (fst s)
         \<and> (\<exists>ai \<in> set res. peer (snd s') fd = Some ai))"
proof -
  have l: "list_all is_lower ''tcp''" by (simp add: is_lower_def)
  obtain fd s' where c: "connect_addrs env (- 1) (fst (fst s1)) res s1 = (fd, s')" by (rule prod.exhaust)
  have "mm_create_sockclient env (Some (''tcp://'' @ host @ '':'' @ dec_int port)) s = Some (fd, s')"
    using scan_uri_parts(2) [OF l _ assms(2), of port] assms(3-6) c
    by (simp add: mm_create_sockclient_def Let_def SERVICE_SIZE_def get_socktype_from_protocol_services_def protocol_services_def
        SOCK_STREAM_def create_connected_socket_def mm_getaddrinfo_def internal_getaddrinfo_def mm_save_errorstate_def)
  moreover have "opens (snd s1) = opens (snd s)" using sock_lawD(5) [OF assms(1)] assms(6) by (metis snd_conv)
  ultimately show ?thesis using connect_addrs_ok [OF assms(1) c] assms(7)
    by (auto simp: override_port_def split: if_splits)
qed

text \<open>
  For other services the port replaces the one of the address as it is: in memory with the lowest byte first, the peer sees the two
  bytes exchanged.
\<close>

definition wire_port_le :: "int \<Rightarrow> int" where
  "wire_port_le sin_port = (sin_port mod 256) * 256 + sin_port div 256"

lemma port_not_in_network_order:
  "wire_port_le (ai_port (override_port 8080 \<lparr>ai_family = AF_INET, ai_socktype = 0, ai_host = h, ai_port = p\<rparr>)) = 36895"
  by (simp add: override_port_def AF_INET_def wire_port_le_def)

text \<open>A port with a leading zero is read as an octal number, and a long service runs over its 16 bytes.\<close>

lemma port_octal: "scan_uri ''http://h:010'' = (3, ''http'', ''h'', 8)"
  by code_simp

lemma service_overrun:
  assumes "list_all is_lower service" "SERVICE_SIZE \<le> length service" "host_ok host" "malloca_ok env (length (service @ ''://'' @ host) + 1)"
  shows "mm_create_sockclient env (Some (service @ ''://'' @ host)) s = None"
proof -
  have "service \<noteq> []" using assms(2) by (auto simp: SERVICE_SIZE_def)
  then show ?thesis using scan_uri_parts(1) [OF assms(1) _ assms(3)] assms(2,4) by (simp add: mm_create_sockclient_def)
qed

section \<open>Timeouts\<close>

text \<open>
  A timeout in milliseconds that is set on a socket is the one that is read back, for every value of the type, when the system
  keeps the structure it is given; other options are passed on unchanged.
\<close>

theorem sockopt_timeout_roundtrip:
  assumes "is_timeout_opt level optname" "- (2 ^ 31) \<le> delay" "delay < 2 ^ 31"
    and "\<forall>v. fst (sso level optname v w) = None \<and> gso level optname (snd (sso level optname v w)) = (Inr v, snd (sso level optname v w))"
  shows "fst (mm_setsockopt sso level optname (OptInt delay) w) = None
    \<and> fst (mm_getsockopt gso level optname 4 (snd (mm_setsockopt sso level optname (OptInt delay) w))) = Inr (OptInt delay, 4)"
proof -
  let ?v = "OptTimeval (delay sdiv 1000) ((delay smod 1000) * 1000)"
  have e: "delay sdiv 1000 * 1000 + delay smod 1000 = delay" by (rule sdiv_mult_smod_eq)
  have "(delay smod 1000) * 1000 sdiv 1000 = delay smod 1000"
    by (simp add: signed_divide_int_def sgn_mult abs_mult mult.commute [of "sgn _"] abs_mult_sgn)
  moreover have "int_of_ll (int_of_ll (delay sdiv 1000 * 1000) + delay smod 1000) = delay"
  proof -
    have "- (2 ^ 31) \<le> delay sdiv 1000 * 1000" "delay sdiv 1000 * 1000 < 2 ^ 31"
      using assms(2,3) by (auto simp: signed_divide_int_def sgn_if)
    then show ?thesis using e assms(2,3) by (simp add: int_of_ll_small)
  qed
  ultimately show ?thesis using assms(1,4) by (simp add: mm_setsockopt_def mm_getsockopt_def Let_def)
qed


theorem sockopt_timeout_roundtrip_witness:
  "fst (mm_setsockopt (\<lambda>_ _ v _. (None, Some v)) SOL_SOCKET SO_RCVTIMEO (OptInt 1500) None) = None
    \<and> fst (mm_getsockopt (\<lambda>_ _ w. (Inr (the w), w)) SOL_SOCKET SO_RCVTIMEO 4
        (snd (mm_setsockopt (\<lambda>_ _ v _. (None, Some v)) SOL_SOCKET SO_RCVTIMEO (OptInt 1500) None))) = Inr (OptInt 1500, 4)"
  by (rule sockopt_timeout_roundtrip) (simp_all add: is_timeout_opt_def)

text \<open>A concrete network: the world is the number of sockets made so far and the connected ones; only the second address answers.\<close>

definition demo_net :: "(nat \<times> (int \<times> addrinfo) list \<times> int list) sock_env" where
  "demo_net = \<lparr>getaddrinfo = (\<lambda>n sv h s. (Inr [\<lparr>ai_family = AF_INET6, ai_socktype = 1, ai_host = ''a'', ai_port = 20480\<rparr>,
       \<lparr>ai_family = AF_INET, ai_socktype = 1, ai_host = ''b'', ai_port = 20480\<rparr>], s)),
     sys_error = (\<lambda>_. (EIO, ''io'')), raise_addr = (\<lambda>_ s. s),
     sock_open = (\<lambda>f t (e, n, p, o'). (int n, e, n + 1, p, int n # o')),
     sock_connect = (\<lambda>fd ai (e, n, p, o'). if ai_host ai = ''b'' then (True, e, n, (fd, ai) # p, o') else (False, e, n, p, o')),
     sock_close = (\<lambda>fd (e, n, p, o'). (e, n, p, removeAll fd o')), raise_einval = (\<lambda>_ s. s), malloca_ok = (\<lambda>_. True)\<rparr>"

definition demo_opens :: "nat \<times> (int \<times> addrinfo) list \<times> int list \<Rightarrow> int set" where
  "demo_opens = (\<lambda>(n, p, o'). {fd \<in> set o'. fd < int n})"

lemma demo_sock_law: "sock_law demo_net demo_opens (\<lambda>(n, p, o'). map_of p)"
  unfolding sock_law_def
  by (intro conjI allI impI; auto simp: demo_net_def demo_opens_def split: prod.splits if_splits)

theorem sockclient_connects_witness:
  "\<exists>fd s'. mm_create_sockclient demo_net (Some (''tcp://'' @ ''h'' @ '':'' @ dec_int 80)) ((initial_error, 0), 3, [], []) = Some (fd, s')
     \<and> fd = 4 \<and> demo_opens (snd s') = {4}"
proof -
  have p: "0 \<le> (80 :: int)" "(80 :: int) < 2 ^ 31" "host_ok ''h''" by (simp_all add: host_ok_def)
  have m: "malloca_ok demo_net k" for k by (simp add: demo_net_def)
  have g: "getaddrinfo demo_net (Some ''h'') (Some (dec_int 80)) (Some \<lparr>ai_flags = AI_NUMERICSERV, ai_hfamily = 0, ai_hsocktype = SOCK_STREAM, ai_hprotocol = 0\<rparr>)
      ((initial_error, 0), 3, [], []) = (Inr [\<lparr>ai_family = AF_INET6, ai_socktype = 1, ai_host = ''a'', ai_port = 20480\<rparr>,
       \<lparr>ai_family = AF_INET, ai_socktype = 1, ai_host = ''b'', ai_port = 20480\<rparr>], ((initial_error, 0), 3, [], []))"
    by (simp add: demo_net_def)
  obtain fd s' where r: "mm_create_sockclient demo_net (Some (''tcp://'' @ ''h'' @ '':'' @ dec_int 80)) ((initial_error, 0), 3, [], []) = Some (fd, s')"
    "if fd < 0 then demo_opens (snd s') = demo_opens (3, [], [])
     else demo_opens (snd s') = insert fd (demo_opens (3, [], []))"
    using sockclient_connects [OF demo_sock_law p(3,1,2) m g refl] by (auto split: if_splits)
  have "map_option fst (mm_create_sockclient demo_net (Some (''tcp://'' @ ''h'' @ '':'' @ dec_int 80)) ((initial_error, 0), 3, [], [])) = Some 4"
    by code_simp
  then have "fd = 4" using r(1) by simp
  then show ?thesis using r by (auto simp: demo_opens_def split: if_splits)
qed

section \<open>Transfers, series and polling\<close>

text \<open>A transfer whose completion comes ends with it, however often the thread is woken up before.\<close>

lemma wait_xfer_ends:
  assumes "xfer_status x = XFER_PENDING"
  shows "wait_operation_xfer (replicate n None @ [Some (err, sz, fl)]) x
    = Some (err = None, x\<lparr>data_len := sz, xfer_status := (if err = None then XFER_SUCCESS else XFER_ERROR), xfer_flags := fl\<rparr>, err)"
  using assms by (induction n) (auto simp: xfer_completion_def Let_def)

text \<open>
  A series of messages: the count names the messages that went through before the first failure, with their lengths; only a failure
  of the first one is reported as such.
\<close>

lemma multimsg_count:
  assumes "\<And>m w. xfer m w = (res m, w)"
  shows "multimsg_loop xfer ms i lens w
    = (let ok = takeWhile (\<lambda>m. res m \<noteq> None) ms
       in (if ok \<noteq> ms \<and> i + length ok = 0 then - 1 else int (i + length ok), lens @ map (\<lambda>m. the (res m) mod 2 ^ 32) ok, w))"
proof (induction ms arbitrary: i lens)
  case (Cons m ms)
  show ?case
  proof (cases "res m")
    case None
    then show ?thesis using assms by simp
  next
    case (Some sz)
    then show ?thesis using assms Cons.IH [of "i + 1" "lens @ [sz mod 2 ^ 32]"] by (auto simp: Let_def)
  qed
qed simp

text \<open>
  Polling on Windows: with at least one descriptor that is not negative, every entry gets the events of its own socket, a
  negative one gets none, descriptors and requested events stay; with only negative ones the call sleeps for the timeout,
  returns 0 and leaves the entries as they were.
\<close>

lemma poll_win32_entries:
  assumes "ok (length fds)"
    and "wsapoll (map (\<lambda>f. (if pfd f \<ge> 0 then unwrap (pfd f) else - 1, events f)) fds) timeout w = (Inr (rv, revs), w')"
    and "length revs = length fds"
  shows "\<exists>fds'. (if list_ex (\<lambda>f. pfd f \<ge> 0) fds
       then mm_poll_win32 unwrap wsapoll sleep ok fds timeout w = (Inr rv, fds', w')
         \<and> list_all2 (\<lambda>(f, r) g. g = f\<lparr>revents := (if pfd f < 0 then 0 else r)\<rparr>) (zip fds revs) fds'
       else mm_poll_win32 unwrap wsapoll sleep ok fds timeout w = (Inr 0, fds, sleep timeout w))"
proof (cases "list_ex (\<lambda>f. pfd f \<ge> 0) fds")
  case True
  then have "\<not> list_all (\<lambda>f. \<not> pfd f \<ge> 0) fds" by (auto simp: list_ex_iff list_all_iff)
  then show ?thesis using True assms by (simp add: mm_poll_win32_def Let_def list_all2_conv_all_nth split_beta)
next
  case False
  then have "list_all (\<lambda>f. \<not> pfd f \<ge> 0) fds" by (auto simp: list_ex_iff list_all_iff)
  then show ?thesis using False assms(1) by (simp add: mm_poll_win32_def Let_def)
qed

text \<open>The result of the last call stays in the entries when all descriptors are negative, while the return value says that nothing happened.\<close>

lemma poll_stale:
  "mm_poll_win32 unwrap wsapoll sleep (\<lambda>_. True) [\<lparr>pfd = - 1, events = 1, revents = 1\<rparr>] 0 w
     = (Inr 0, [\<lparr>pfd = - 1, events = 1, revents = 1\<rparr>], sleep 0 w)"
  by (simp add: mm_poll_win32_def Let_def)

lemma shutdown_failure_unreported: "mm_shutdown_win32 (Inr s) (Some e) = (0, Some (get_errcode_from_w32err e))"
  by (simp add: mm_shutdown_win32_def)

text \<open>The messages of the resolution fit in the buffers of 256 bytes.\<close>

lemma eai_messages_fit: "translate_eai_to_errnum e = Some (c, msg) \<Longrightarrow> length msg < 256"
  by (cases e) (auto simp: translate_eai_to_errnum_def eai_error_cases_def)

end
