(* ===== verification/Clock_Win32.thy ===== *)
theory Clock_Win32
  imports C_Double Win_Attr
begin

text \<open>
  The clocks of Windows (\<^verbatim>\<open>src/src/clock-win32.c\<close>) with \<open>mm_gettime\<close>, \<open>mm_getres\<close> and \<open>mm_nanosleep\<close> of
  \<^verbatim>\<open>src/src/time-win32.c\<close>. Counters of the processor and of the system become timestamps by integer arithmetic; the
  frequencies are fixed when the library is loaded. What the hardware and the system answer is a record of
  functions of the world, which only sleeping changes.
\<close>

section \<open>Clock cycle counters\<close>


definition PICOSEC_IN_SEC :: int where "PICOSEC_IN_SEC = 1000000000000"
definition MHZ_IN_HZ :: "32 word" where "MHZ_IN_HZ = 1000000"

record 'w clock_env =
  max_mhz :: "32 word"
  qpc_frequency :: int
  cpuid_edx :: "int \<Rightarrow> int"
  rdtscp :: "'w \<Rightarrow> 64 word"
  qpc_counter :: "'w \<Rightarrow> int"
  thread_cycles :: "'w \<Rightarrow> 64 word"
  process_cycles :: "'w \<Rightarrow> 64 word"
  system_time :: "'w \<Rightarrow> filetime"
  set_timer :: "int \<Rightarrow> 'w \<Rightarrow> 'w"
  sleep_ex :: "'w \<Rightarrow> bool \<times> 'w"

record clocks =
  cpu_cycle_freq :: int
  cpu_cycle_tick_psec :: int
  qpc_tick_freq :: int
  nsec_in_qpc_tick :: int
  monotonic_use_tsc :: bool

text \<open>
  The product is one of 32 bit unsigned numbers. A frequency of 0 makes the division fail: \<open>None\<close>.
\<close>

definition determine_cpu_cycle_rate :: "'w clock_env \<Rightarrow> (int \<times> int) option" where
  "determine_cpu_cycle_rate env =
     (let freq = uint (max_mhz env * MHZ_IN_HZ)
      in if freq = 0 then None else Some (freq, PICOSEC_IN_SEC sdiv freq))"

definition convert_cpu_cycle_to_ts :: "clocks \<Rightarrow> int \<Rightarrow> mm_timespec" where
  "convert_cpu_cycle_to_ts st cpu_cycle =
     (let sec = cpu_cycle sdiv cpu_cycle_freq st;
          cpu_cycle = cpu_cycle - sec * cpu_cycle_freq st;
          nsec = (cpu_cycle * cpu_cycle_tick_psec st) sdiv 1000
      in \<lparr>tv_sec = sec, tv_nsec = nsec\<rparr>)"

definition gettimespec_tsc :: "'w clock_env \<Rightarrow> clocks \<Rightarrow> 'w \<Rightarrow> mm_timespec" where
  "gettimespec_tsc env st w = convert_cpu_cycle_to_ts st (sint (rdtscp env w))"

definition getres_tsc :: "clocks \<Rightarrow> mm_timespec" where
  "getres_tsc st = (let nsec = cpu_cycle_tick_psec st sdiv 1000 in \<lparr>tv_sec = 0, tv_nsec = (if nsec = 0 then 1 else nsec)\<rparr>)"

section \<open>Performance counter\<close>

definition init_qpc :: "'w clock_env \<Rightarrow> int \<times> int" where
  "init_qpc env =
     (qpc_frequency env,
      dbl_trunc (dbl_mult (dbl_div (dbl_of_int 1) (dbl_of_int (qpc_frequency env))) (dbl_of_int 1000000000)))"

definition gettimespec_qpc :: "'w clock_env \<Rightarrow> clocks \<Rightarrow> 'w \<Rightarrow> mm_timespec" where
  "gettimespec_qpc env st w =
     (let count = qpc_counter env w;
          sec = count sdiv qpc_tick_freq st;
          nsec = (count - sec * qpc_tick_freq st) * nsec_in_qpc_tick st
      in \<lparr>tv_sec = sec, tv_nsec = nsec\<rparr>)"

definition getres_qpc :: "clocks \<Rightarrow> mm_timespec" where
  "getres_qpc st = \<lparr>tv_sec = 0, tv_nsec = nsec_in_qpc_tick st\<rparr>"

section \<open>Monotonic clock\<close>

definition CPUID_LEAF_EXTENDED :: int where "CPUID_LEAF_EXTENDED = 0x80000001"
definition RDTSCP_EDX_MASK :: int where "RDTSCP_EDX_MASK = 2 ^ 27"
definition CPUID_LEAF_TSC :: int where "CPUID_LEAF_TSC = 0x80000007"
definition INVARIANT_TSC_EDX_MASK :: int where "INVARIANT_TSC_EDX_MASK = 2 ^ 8"

unbundle bit_operations_syntax

definition init_monotonic_clock :: "'w clock_env \<Rightarrow> bool" where
  "init_monotonic_clock env =
     (let rdtscp_supported = cpuid_edx env CPUID_LEAF_EXTENDED AND RDTSCP_EDX_MASK \<noteq> 0;
          is_tsc_invariant = cpuid_edx env CPUID_LEAF_TSC AND INVARIANT_TSC_EDX_MASK \<noteq> 0
      in is_tsc_invariant \<and> rdtscp_supported)"

definition gettimespec_monotonic_w32 :: "'w clock_env \<Rightarrow> clocks \<Rightarrow> 'w \<Rightarrow> mm_timespec" where
  "gettimespec_monotonic_w32 env st w = (if monotonic_use_tsc st then gettimespec_tsc env st w else gettimespec_qpc env st w)"

definition getres_monotonic_w32 :: "clocks \<Rightarrow> mm_timespec" where
  "getres_monotonic_w32 st = (if monotonic_use_tsc st then getres_tsc st else getres_qpc st)"

section \<open>Other clocks\<close>

definition gettimespec_wallclock_w32 :: "'w clock_env \<Rightarrow> 'w \<Rightarrow> mm_timespec" where
  "gettimespec_wallclock_w32 env w = filetime_to_timespec (system_time env w)"

definition getres_wallclock_w32 :: mm_timespec where
  "getres_wallclock_w32 = \<lparr>tv_sec = 0, tv_nsec = 100\<rparr>"

definition gettimespec_thread_w32 :: "'w clock_env \<Rightarrow> clocks \<Rightarrow> 'w \<Rightarrow> mm_timespec" where
  "gettimespec_thread_w32 env st w = convert_cpu_cycle_to_ts st (sint (thread_cycles env w))"

definition gettimespec_process_w32 :: "'w clock_env \<Rightarrow> clocks \<Rightarrow> 'w \<Rightarrow> mm_timespec" where
  "gettimespec_process_w32 env st w = convert_cpu_cycle_to_ts st (sint (process_cycles env w))"

definition init_clocks_win32 :: "'w clock_env \<Rightarrow> clocks option" where
  "init_clocks_win32 env =
     (case determine_cpu_cycle_rate env of
        None \<Rightarrow> None
      | Some (freq, psec) \<Rightarrow>
          let (qfreq, nsec) = init_qpc env
          in Some \<lparr>cpu_cycle_freq = freq, cpu_cycle_tick_psec = psec, qpc_tick_freq = qfreq, nsec_in_qpc_tick = nsec,
                   monotonic_use_tsc = init_monotonic_clock env\<rparr>)"

section \<open>Reading the clocks and sleeping\<close>

definition mm_gettime :: "'w clock_env \<Rightarrow> clocks \<Rightarrow> int \<Rightarrow> 'w \<Rightarrow> errcode + mm_timespec" where
  "mm_gettime env st clock w =
     (if clock = MM_CLK_REALTIME then Inr (gettimespec_wallclock_w32 env w)
      else if clock = MM_CLK_MONOTONIC \<or> clock = MM_CLK_MONOTONIC_RAW then Inr (gettimespec_monotonic_w32 env st w)
      else if clock = MM_CLK_CPU_THREAD then Inr (gettimespec_thread_w32 env st w)
      else if clock = MM_CLK_CPU_PROCESS then Inr (gettimespec_process_w32 env st w)
      else Inl EINVAL)"

definition mm_getres :: "clocks \<Rightarrow> int \<Rightarrow> errcode + mm_timespec" where
  "mm_getres st clock =
     (if clock = MM_CLK_REALTIME then Inr getres_wallclock_w32
      else if clock = MM_CLK_MONOTONIC \<or> clock = MM_CLK_MONOTONIC_RAW then Inr (getres_monotonic_w32 st)
      else if clock = MM_CLK_CPU_THREAD \<or> clock = MM_CLK_CPU_PROCESS then Inr (getres_tsc st)
      else Inl EINVAL)"

text \<open>The thread sleeps until the routine of the timer has run; other routines may wake it up before.\<close>

partial_function (option) microsleep_loop :: "'w clock_env \<Rightarrow> 'w \<Rightarrow> 'w option" where
  "microsleep_loop env w = (let (done, w') = sleep_ex env w in if done then Some w' else microsleep_loop env w')"

text \<open>An overflow of the sum is undefined behaviour: \<open>None\<close>.\<close>

definition relative_microsleep :: "'w clock_env \<Rightarrow> int \<Rightarrow> 'w \<Rightarrow> 'w option" where
  "relative_microsleep env delta_ns w =
     (if in_i64 (delta_ns + 99)
      then let ft_i64 = - ((delta_ns + 99) sdiv 100) in microsleep_loop env (set_timer env ft_i64 w)
      else None)"

partial_function (option) nanosleep_loop :: "'w clock_env \<Rightarrow> clocks \<Rightarrow> int \<Rightarrow> mm_timespec \<Rightarrow> 'w \<Rightarrow> 'w option" where
  "nanosleep_loop env st clock target w =
     (case mm_gettime env st clock w of
        Inl _ \<Rightarrow> None
      | Inr now \<Rightarrow>
          let delta_ns = mm_timediff_ns target now
          in if delta_ns \<le> 0 then Some w
             else (case relative_microsleep env delta_ns w of
                     None \<Rightarrow> None
                   | Some w' \<Rightarrow> nanosleep_loop env st clock target w'))"

definition mm_nanosleep :: "'w clock_env \<Rightarrow> clocks \<Rightarrow> int \<Rightarrow> mm_timespec \<Rightarrow> 'w \<Rightarrow> (retcode \<times> 'w) option" where
  "mm_nanosleep env st clock target w =
     (if clock \<noteq> MM_CLK_REALTIME \<and> clock \<noteq> MM_CLK_MONOTONIC \<and> clock \<noteq> MM_CLK_MONOTONIC_RAW then Some (Some EINVAL, w)
      else map_option (Pair None) (nanosleep_loop env st clock target w))"

lemmas clock_defs = gettimespec_tsc_def gettimespec_qpc_def gettimespec_monotonic_w32_def gettimespec_wallclock_w32_def
  gettimespec_thread_w32_def gettimespec_process_w32_def


section \<open>What a reading means\<close>

text \<open>
  The counter behind a clock, its frequency, and by how many nanoseconds a reading may lag behind.
\<close>

definition clock_counter :: "'w clock_env \<Rightarrow> clocks \<Rightarrow> int \<Rightarrow> 'w \<Rightarrow> int \<times> int \<times> int" where
  "clock_counter env st clock w =
     (let tsc = (\<lambda>c. (sint c, cpu_cycle_freq st, 2 + cpu_cycle_freq st div 1000));
          mono = (if monotonic_use_tsc st then tsc (rdtscp env w) else (qpc_counter env w, qpc_tick_freq st, qpc_tick_freq st))
      in if clock = MM_CLK_REALTIME
         then (uint (word_cat (dwHighDateTime (system_time env w)) (dwLowDateTime (system_time env w)) :: 64 word) - uint FT_EPOCH, 10000000, 0)
         else if clock = MM_CLK_CPU_THREAD then tsc (thread_cycles env w)
         else if clock = MM_CLK_CPU_PROCESS then tsc (process_cycles env w)
         else mono)"

text \<open>The two counters are cut in the same way: whole seconds, and the rest by some function of it.\<close>

definition split_count :: "int \<Rightarrow> (int \<Rightarrow> int) \<Rightarrow> int \<Rightarrow> mm_timespec" where
  "split_count f sub c = \<lparr>tv_sec = c div f, tv_nsec = sub (c mod f)\<rparr>"

lemma split_count_mono:
  assumes "0 < f" "\<And>r. 0 \<le> r \<Longrightarrow> r < f \<Longrightarrow> 0 \<le> sub r \<and> sub r < NS_IN_SEC" "mono sub" "c \<le> c'"
  shows "ts_valid (split_count f sub c)" "ts_ns (split_count f sub c) \<le> ts_ns (split_count f sub c')"
proof -
  have b: "0 \<le> sub (c mod f)" "sub (c mod f) < NS_IN_SEC" for c using assms(1,2) by simp_all
  then show "ts_valid (split_count f sub c)" by (simp add: ts_valid_def split_count_def)
  show "ts_ns (split_count f sub c) \<le> ts_ns (split_count f sub c')"
  proof (cases "c div f = c' div f")
    case True
    then have "c mod f \<le> c' mod f" using assms(4) by (simp add: minus_div_mult_eq_mod [symmetric])
    then show ?thesis using True assms(3) by (simp add: split_count_def ts_ns_def monoD)
  next
    case False
    then have "c div f + 1 \<le> c' div f" using zdiv_mono1 [OF assms(4,1)] by simp
    then have "(c div f + 1) * NS_IN_SEC \<le> (c' div f) * NS_IN_SEC" by (intro mult_right_mono) (simp_all add: NS_IN_SEC_def)
    then show ?thesis using b [of c] b [of c'] by (simp add: split_count_def ts_ns_def algebra_simps)
  qed
qed

text \<open>A reading is never ahead of the counter, and how much the rest lags is how much the reading lags.\<close>

lemma split_count_lag:
  assumes "0 < f" "\<And>r. 0 \<le> r \<Longrightarrow> r < f \<Longrightarrow> sub r * f \<le> r * NS_IN_SEC \<and> r * NS_IN_SEC \<le> (sub r + lag) * f"
  shows "ts_ns (split_count f sub c) * f \<le> c * NS_IN_SEC" "c * NS_IN_SEC \<le> (ts_ns (split_count f sub c) + lag) * f"
proof -
  let ?r = "c mod f"
  have c: "c * NS_IN_SEC = (c div f * NS_IN_SEC) * f + ?r * NS_IN_SEC"
    using div_mult_mod_eq [of c f] by (metis mult.assoc mult.commute ring_class.ring_distribs(2))
  have r: "sub ?r * f \<le> ?r * NS_IN_SEC" "?r * NS_IN_SEC \<le> (sub ?r + lag) * f" using assms by simp_all
  show "ts_ns (split_count f sub c) * f \<le> c * NS_IN_SEC" "c * NS_IN_SEC \<le> (ts_ns (split_count f sub c) + lag) * f"
    using r by (simp_all add: c split_count_def ts_ns_def ring_class.ring_distribs)
qed

section \<open>The counters\<close>

lemma cycle_to_ts:
  assumes "0 < cpu_cycle_freq st" "0 \<le> c" "0 \<le> cpu_cycle_tick_psec st"
  shows "convert_cpu_cycle_to_ts st c = split_count (cpu_cycle_freq st) (\<lambda>r. r * cpu_cycle_tick_psec st div 1000) c"
proof -
  have "c - c div cpu_cycle_freq st * cpu_cycle_freq st = c mod cpu_cycle_freq st" by (simp add: minus_div_mult_eq_mod)
  moreover have "0 \<le> c mod cpu_cycle_freq st" using assms by simp
  ultimately show ?thesis
    using assms by (simp add: convert_cpu_cycle_to_ts_def split_count_def Let_def sdiv_nonneg)
qed

lemma div_bounds:
  assumes "0 < (d :: int)"
  shows "y div d * d \<le> y" "y < (y div d + 1) * d"
proof -
  have "y = y div d * d + y mod d" "0 \<le> y mod d" "y mod d < d" using assms by simp_all
  then show "y div d * d \<le> y" by linarith
  have "(y div d + 1) * d = y div d * d + d" by (simp add: ring_class.ring_distribs)
  with \<open>y = y div d * d + y mod d\<close> \<open>y mod d < d\<close> show "y < (y div d + 1) * d" by linarith
qed

lemma cycle_rest:
  assumes "0 < f" "0 \<le> r" "r < f"
  defines "t \<equiv> PICOSEC_IN_SEC div f" and "n \<equiv> r * (PICOSEC_IN_SEC div f) div 1000"
  shows "0 \<le> n" "n < NS_IN_SEC" "n * f \<le> r * NS_IN_SEC" "r * NS_IN_SEC \<le> (n + (2 + f div 1000)) * f"
proof -
  have t: "0 \<le> t" "t * f \<le> PICOSEC_IN_SEC" "PICOSEC_IN_SEC < (t + 1) * f"
    using assms(1) div_bounds [of f PICOSEC_IN_SEC] by (simp_all add: t_def PICOSEC_IN_SEC_def pos_imp_zdiv_nonneg_iff)
  have n: "n = r * t div 1000" "1000 * n \<le> r * t" "r * t < 1000 * n + 1000" unfolding n_def t_def by simp_all
  show "0 \<le> n" using n(1) t(1) assms by (simp add: pos_imp_zdiv_nonneg_iff)
  have "r * t * f \<le> r * PICOSEC_IN_SEC" using mult_left_mono [OF t(2) assms(2)] by (simp add: mult.assoc)
  moreover have nf: "1000 * n * f \<le> r * t * f" using n(2) assms(1) by (intro mult_right_mono) auto
  ultimately have "1000 * n * f \<le> r * PICOSEC_IN_SEC" by (rule order_trans [rotated])
  then show up: "n * f \<le> r * NS_IN_SEC" by (simp add: PICOSEC_IN_SEC_def NS_IN_SEC_def mult.commute)
  have "r * NS_IN_SEC < f * NS_IN_SEC" using assms(3) by (simp add: NS_IN_SEC_def)
  then have "n * f < NS_IN_SEC * f" using up by (simp add: mult.commute)
  then show "n < NS_IN_SEC" using assms(1) by simp
  have "r * PICOSEC_IN_SEC \<le> r * ((t + 1) * f)" using t(3) assms(2) by (intro mult_left_mono) auto
  also have "\<dots> = (r * t + r) * f" by (simp add: algebra_simps)
  also have "\<dots> \<le> (1000 * n + 1000 + f) * f" using n(3) assms(1,3) by (intro mult_right_mono) auto
  also have "\<dots> \<le> (1000 * (n + (2 + f div 1000))) * f"
    using assms(1) by (intro mult_right_mono) auto
  finally show "r * NS_IN_SEC \<le> (n + (2 + f div 1000)) * f" by (simp add: PICOSEC_IN_SEC_def NS_IN_SEC_def algebra_simps)
qed

lemma two_roundings:
  fixes t f x b y d :: int
  assumes pos: "0 < f" "0 < b" "0 < d"
    and e1: "2 ^ 53 * (x * f) \<le> (2 ^ 53 + 1) * b" "2 ^ 53 * b \<le> 2 ^ 53 * (x * f) + b"
    and e2: "2 ^ 53 * (y * b) \<le> (2 ^ 53 + 1) * (x * 1000000000 * d)" "2 ^ 53 * (x * 1000000000 * d) \<le> 2 ^ 53 * (y * b) + x * 1000000000 * d"
    and t: "t * d \<le> y" "y < (t + 1) * d"
  shows "t * f \<le> 1000000000" "1000000000 \<le> (t + 1) * f"
proof -
  let ?E = "2 ^ 53 :: int" and ?K = "1000000000 :: int"
  have "?E * ?E * (t * f) * (d * b) = ?E * f * (?E * (t * d * b))" by (simp add: algebra_simps)
  also have "\<dots> \<le> ?E * f * (?E * (y * b))" using t(1) pos by (intro mult_left_mono) auto
  also have "\<dots> \<le> ?E * f * ((?E + 1) * (x * ?K * d))" using e2(1) pos by (intro mult_left_mono) auto
  also have "\<dots> = (?E + 1) * ?K * d * (?E * (x * f))" by (simp add: algebra_simps)
  also have "\<dots> \<le> (?E + 1) * ?K * d * ((?E + 1) * b)" using e1(1) pos by (intro mult_left_mono) auto
  finally have "?E * ?E * (t * f) * (d * b) \<le> (?E + 1) * (?E + 1) * ?K * (d * b)" by (simp add: algebra_simps)
  then have "?E * ?E * (t * f) \<le> (?E + 1) * (?E + 1) * ?K" using pos by simp
  moreover have "z \<le> ?K" if "?E * ?E * z \<le> (?E + 1) * (?E + 1) * ?K" for z using that by simp
  ultimately show "t * f \<le> ?K" by blast
  have x: "(?E - 1) * b \<le> ?E * (x * f)" "(?E - 1) * (x * ?K * d) \<le> ?E * (y * b)" using e1(2) e2(2) by (simp_all add: algebra_simps)
  have "(?E - 1) * (?E - 1) * ?K * (d * b) = (?E - 1) * ?K * d * ((?E - 1) * b)" by (simp add: algebra_simps)
  also have "\<dots> \<le> (?E - 1) * ?K * d * (?E * (x * f))" using x(1) pos by (intro mult_left_mono) auto
  also have "\<dots> = ?E * f * ((?E - 1) * (x * ?K * d))" by (simp add: algebra_simps)
  also have "\<dots> \<le> ?E * f * (?E * (y * b))" using x(2) pos by (intro mult_left_mono) auto
  also have "\<dots> \<le> ?E * f * (?E * ((t + 1) * d * b))" using t(2) pos by (intro mult_left_mono mult_right_mono) auto
  finally have "(?E - 1) * (?E - 1) * ?K * (d * b) \<le> ?E * ?E * ((t + 1) * f) * (d * b)" by (simp add: algebra_simps)
  then have "(?E - 1) * (?E - 1) * ?K \<le> ?E * ?E * ((t + 1) * f)" using pos by (simp only: mult_le_cancel_right) simp
  moreover have "?K \<le> z" if "(?E - 1) * (?E - 1) * ?K \<le> ?E * ?E * z" for z using that by simp
  ultimately show "?K \<le> (t + 1) * f" by blast
qed

lemma qpc_tick:
  assumes "0 < qpc_frequency env" "qpc_frequency env < 2 ^ 53" "init_qpc env = (f, t)"
  shows "f = qpc_frequency env" "0 \<le> t" "t * f \<le> NS_IN_SEC" "NS_IN_SEC \<le> (t + 1) * f"
proof -
  show f: "f = qpc_frequency env" using assms(3) by (simp add: init_qpc_def)
  obtain x b where xb: "dbl_round 1 (nat f) = (x, b)" by fastforce
  obtain y d where yd: "dbl_round (x * 1000000000) b = (y, d)" by fastforce
  have f0: "0 < f" using assms(1) f by simp
  then have q: "0 < nat f" "int (nat f) = f" by simp_all
  note e1 = dbl_round_error [OF q(1) zero_le_one xb, unfolded q(2) mult_1]
  have x0: "0 \<le> x * 1000000000" using e1(1) by simp
  note e2 = dbl_round_error [OF e1(2) x0 yd]
  have t: "t = y div int d"
    using assms f e2(1,2) e1(2) xb yd by (auto simp: init_qpc_def dbl_of_int_exact sdiv_nonneg)
  show "0 \<le> t" using e2(1,2) by (simp add: t pos_imp_zdiv_nonneg_iff)
  have d: "0 < int d" "0 < int b" using e2(2) e1(2) by simp_all
  have td: "t * int d \<le> y" "y < (t + 1) * int d"
    using div_bounds [OF d(1)] by (simp_all add: t)
  show "t * f \<le> NS_IN_SEC" "NS_IN_SEC \<le> (t + 1) * f"
    using two_roundings [OF f0 d(2,1) e1(3,4) e2(3,4) td] by (simp_all add: NS_IN_SEC_def)
qed

lemma qpc_rest:
  assumes "0 < f" "0 \<le> t" "t * f \<le> NS_IN_SEC" "NS_IN_SEC \<le> (t + 1) * f" "0 \<le> r" "r < f"
  shows "0 \<le> r * t" "r * t < NS_IN_SEC" "r * t * f \<le> r * NS_IN_SEC" "r * NS_IN_SEC \<le> (r * t + f) * f"
proof -
  show "0 \<le> r * t" using assms by simp
  have "r * t \<le> (f - 1) * t" using assms by (intro mult_right_mono) auto
  moreover have "(f - 1) * t = t * f - t" by (simp add: algebra_simps)
  ultimately show "r * t < NS_IN_SEC" using assms(2,3) by (cases "t = 0") (auto simp: NS_IN_SEC_def)
  show "r * t * f \<le> r * NS_IN_SEC" using assms(3,5) by (simp add: mult.assoc mult_left_mono)
  have "r * NS_IN_SEC \<le> r * ((t + 1) * f)" using assms(4,5) by (rule mult_left_mono)
  also have "\<dots> = (r * t + r) * f" by (simp add: algebra_simps)
  also have "\<dots> \<le> (r * t + f) * f" using assms by (intro mult_right_mono) auto
  finally show "r * NS_IN_SEC \<le> (r * t + f) * f" .
qed

lemma filetime_split:
  assumes "0 \<le> uint (word_cat (dwHighDateTime ft) (dwLowDateTime ft) :: 64 word) - uint FT_EPOCH"
  shows "filetime_to_timespec ft = split_count 10000000 (\<lambda>r. r * 100)
    (uint (word_cat (dwHighDateTime ft) (dwLowDateTime ft) :: 64 word) - uint FT_EPOCH)"
proof -
  let ?q = "word_cat (dwHighDateTime ft) (dwLowDateTime ft) :: 64 word"
  have q: "uint (?q - FT_EPOCH) = uint ?q - uint FT_EPOCH" using assms by (simp add: uint_sub_if')
  have m: "uint ((?q - FT_EPOCH) mod 10000000) = (uint ?q - uint FT_EPOCH) mod 10000000"
    by (simp add: uint_mod q)
  have "(uint ?q - uint FT_EPOCH) mod 10000000 < 10000000" "0 \<le> (uint ?q - uint FT_EPOCH) mod 10000000" by simp_all
  then have "uint ((?q - FT_EPOCH) mod 10000000 * 100) = (uint ?q - uint FT_EPOCH) mod 10000000 * 100"
    by (simp add: uint_word_ariths m)
  then show ?thesis by (simp add: filetime_to_timespec_def split_count_def Let_def uint_div q)
qed


lemma init_clocks:
  assumes "init_clocks_win32 env = Some st"
  shows "0 < cpu_cycle_freq st" "cpu_cycle_tick_psec st = PICOSEC_IN_SEC div cpu_cycle_freq st" "0 \<le> cpu_cycle_tick_psec st"
    "init_qpc env = (qpc_tick_freq st, nsec_in_qpc_tick st)"
proof -
  let ?f = "uint (max_mhz env * MHZ_IN_HZ)"
  have f: "0 \<le> ?f" by simp
  have st: "cpu_cycle_freq st = ?f" "?f \<noteq> 0" "cpu_cycle_tick_psec st = PICOSEC_IN_SEC sdiv ?f"
      "init_qpc env = (qpc_tick_freq st, nsec_in_qpc_tick st)"
    using assms by (auto simp: init_clocks_win32_def determine_cpu_cycle_rate_def Let_def split: if_splits prod.splits)
  then show "0 < cpu_cycle_freq st" "init_qpc env = (qpc_tick_freq st, nsec_in_qpc_tick st)" using f by linarith+
  then show "cpu_cycle_tick_psec st = PICOSEC_IN_SEC div cpu_cycle_freq st" "0 \<le> cpu_cycle_tick_psec st"
    using st by (simp_all add: sdiv_nonneg PICOSEC_IN_SEC_def pos_imp_zdiv_nonneg_iff)
qed

text \<open>Every clock is a counter that is cut into seconds and a rest.\<close>

lemma clock_split:
  assumes "init_clocks_win32 env = Some st" "0 < qpc_frequency env" "qpc_frequency env < 2 ^ 53"
    and "mm_gettime env st clock w = Inr t" "clock_counter env st clock w = (c, f, lag)" "0 \<le> c"
  obtains sub where "t = split_count f sub c" "0 < f" "mono sub"
    "\<And>r. 0 \<le> r \<Longrightarrow> r < f \<Longrightarrow> 0 \<le> sub r \<and> sub r < NS_IN_SEC"
    "\<And>r. 0 \<le> r \<Longrightarrow> r < f \<Longrightarrow> sub r * f \<le> r * NS_IN_SEC \<and> r * NS_IN_SEC \<le> (sub r + lag) * f"
    "\<And>w' t' c'. mm_gettime env st clock w' = Inr t' \<Longrightarrow> fst (clock_counter env st clock w') = c' \<Longrightarrow> 0 \<le> c'
       \<Longrightarrow> t' = split_count f sub c'"
proof -
  note st = init_clocks [OF assms(1)] and q = qpc_tick [OF assms(2,3) init_clocks(4) [OF assms(1)]]
  have cyc: "mono (\<lambda>r. r * cpu_cycle_tick_psec st div 1000)" "mono (\<lambda>r. r * nsec_in_qpc_tick st)"
    using st(3) q(2) by (auto intro!: monoI zdiv_mono1 mult_right_mono)
  consider "clock = MM_CLK_REALTIME"
    | "clock \<noteq> MM_CLK_REALTIME" "f = cpu_cycle_freq st" "lag = 2 + f div 1000"
        "\<And>w'. \<exists>x. mm_gettime env st clock w' = Inr (convert_cpu_cycle_to_ts st x) \<and> fst (clock_counter env st clock w') = x"
    | "clock \<noteq> MM_CLK_REALTIME" "f = qpc_tick_freq st" "lag = f"
        "\<And>w'. mm_gettime env st clock w' = Inr (gettimespec_qpc env st w') \<and> fst (clock_counter env st clock w') = qpc_counter env w'"
    using assms(4,5) by (cases "monotonic_use_tsc st")
      (auto simp: mm_gettime_def clock_counter_def Let_def clock_defs clk_ids split: if_splits)
  then show ?thesis
  proof cases
    case 1
    show ?thesis
    proof (rule that [of "\<lambda>r. r * 100"])
    qed (use 1 assms(4-6) in \<open>auto simp: mm_gettime_def clock_counter_def clock_defs Let_def filetime_split NS_IN_SEC_def intro!: monoI\<close>)
  next
    case 2
    have sp: "convert_cpu_cycle_to_ts st x = split_count f (\<lambda>r. r * cpu_cycle_tick_psec st div 1000) x" if "0 \<le> x" for x
      using cycle_to_ts [OF st(1) that st(3)] 2(2) by simp
    note r = cycle_rest [OF st(1), folded st(2) 2(2)]
    show ?thesis
    proof (rule that [of "\<lambda>r. r * cpu_cycle_tick_psec st div 1000"])
      show "t = split_count f (\<lambda>r. r * cpu_cycle_tick_psec st div 1000) c"
        using 2(4) [of w] assms(4-6) sp by auto
      show "t' = split_count f (\<lambda>r. r * cpu_cycle_tick_psec st div 1000) c'"
        if "mm_gettime env st clock w' = Inr t'" "fst (clock_counter env st clock w') = c'" "0 \<le> c'" for w' t' c'
        using 2(4) [of w'] that sp by auto
    qed (use cyc st(1) 2 r in auto)
  next
    case 3
    have sp: "gettimespec_qpc env st w' = split_count f (\<lambda>r. r * nsec_in_qpc_tick st) (qpc_counter env w')"
      if "0 \<le> qpc_counter env w'" for w'
      using that q(1) assms(2) 3(2) by (simp add: gettimespec_qpc_def split_count_def Let_def sdiv_nonneg minus_div_mult_eq_mod)
    have f0: "0 < f" using q(1) assms(2) 3(2) by simp
    note r = qpc_rest [OF f0 q(2-4) [folded 3(2)]]
    show ?thesis
    proof (rule that [of "\<lambda>r. r * nsec_in_qpc_tick st"])
      show "t = split_count f (\<lambda>r. r * nsec_in_qpc_tick st) c" using 3(4) [of w] assms(4-6) sp [of w] by auto
      show "t' = split_count f (\<lambda>r. r * nsec_in_qpc_tick st) c'"
        if "mm_gettime env st clock w' = Inr t'" "fst (clock_counter env st clock w') = c'" "0 \<le> c'" for w' t' c'
        using 3(4) [of w'] that sp [of w'] by auto
    qed (use cyc f0 3(3) r in auto)
  qed
qed


section \<open>Sleeping\<close>

text \<open>
  What \<open>SetWaitableTimer\<close> and \<open>SleepEx\<close> promise for a relative time: after some wake-ups for other reasons the
  routine of the timer runs, and the clock that is slept on has advanced.
\<close>

fun wakes_after :: "'w clock_env \<Rightarrow> nat \<Rightarrow> 'w \<Rightarrow> 'w option" where
  "wakes_after env 0 w = (case sleep_ex env w of (done, w') \<Rightarrow> if done then Some w' else None)"
| "wakes_after env (Suc k) w = (case sleep_ex env w of (done, w') \<Rightarrow> if done then None else wakes_after env k w')"

definition timer_law :: "'w clock_env \<Rightarrow> ('w \<Rightarrow> int) \<Rightarrow> bool" where
  "timer_law env clk \<longleftrightarrow> (\<forall>ft w. ft < 0 \<longrightarrow> (\<exists>k w'. wakes_after env k (set_timer env ft w) = Some w' \<and> clk w < clk w'))"

lemma microsleep_loop_ends: "wakes_after env k w = Some w' \<Longrightarrow> microsleep_loop env w = Some w'"
proof (induction k arbitrary: w)
  case 0
  then show ?case by (subst microsleep_loop.simps) (auto split: prod.splits if_splits)
next
  case (Suc k)
  then show ?case by (subst microsleep_loop.simps) (auto split: prod.splits if_splits)
qed

lemma microsleep_advances:
  assumes "timer_law env clk" "0 < d" "in_i64 (d + 99)"
  shows "\<exists>w'. relative_microsleep env d w = Some w' \<and> clk w < clk w'"
proof -
  have "- ((d + 99) sdiv 100) < 0" using assms(2) by (simp add: sdiv_nonneg pos_imp_zdiv_pos_iff)
  with assms(1) obtain k w' where w': "wakes_after env k (set_timer env (- ((d + 99) sdiv 100)) w) = Some w'" "clk w < clk w'"
    unfolding timer_law_def by blast
  from microsleep_loop_ends [OF this(1)] show ?thesis using assms(3) w'(2) by (simp add: relative_microsleep_def)
qed

lemma nanosleep_loop_ends:
  assumes "timer_law env clk" "\<And>w. \<exists>t. mm_gettime env st clock w = Inr t \<and> ts_ns t = clk w" "ts_ns target - clk w + 99 < 2 ^ 63"
  shows "\<exists>w'. nanosleep_loop env st clock target w = Some w' \<and> ts_ns target \<le> clk w' \<and> (ts_ns target \<le> clk w \<longrightarrow> w' = w)"
  using assms(3)
proof (induction "nat (ts_ns target - clk w)" arbitrary: w rule: less_induct)
  case less
  obtain t where t: "mm_gettime env st clock w = Inr t" "ts_ns t = clk w" using assms(2) by blast
  show ?case
  proof (cases "ts_ns target \<le> clk w")
    case True
    then show ?thesis using t by (subst nanosleep_loop.simps) (simp add: timediff_ns_abs)
  next
    case False
    then have "in_i64 (ts_ns target - clk w + 99)" using less.prems by (simp add: in_i64_def)
    then obtain w1 where w1: "relative_microsleep env (ts_ns target - clk w) w = Some w1" "clk w < clk w1"
      using microsleep_advances [OF assms(1), of "ts_ns target - clk w" w] False by auto
    have "nat (ts_ns target - clk w1) < nat (ts_ns target - clk w)" "ts_ns target - clk w1 + 99 < 2 ^ 63"
      using w1(2) False less.prems by auto
    from less.hyps [OF this] obtain w' where "nanosleep_loop env st clock target w1 = Some w'" "ts_ns target \<le> clk w'" by auto
    then show ?thesis using t w1 False by (subst nanosleep_loop.simps) (simp add: timediff_ns_abs Let_def)
  qed
qed

text \<open>
  C27. Sleeping until a date: when the timer of the system runs its routine in the end, after any number of other wake-ups, and the
  clock has advanced by then, \<open>mm_nanosleep\<close> returns, not before the clock has reached the date, and at once if the date has
  passed already. The clocks of processor time are refused.
\<close>

theorem nanosleep_reaches:
  assumes "timer_law env clk" "\<forall>w. map_sum id ts_ns (mm_gettime env st clock w) = Inr (clk w)"
    and "ts_ns target - clk w + 99 < 2 ^ 63"
  shows "\<exists>w'. mm_nanosleep env st clock target w
      = Some (if clock = MM_CLK_CPU_THREAD \<or> clock = MM_CLK_CPU_PROCESS then (Some EINVAL, w) else (None, w'))
    \<and> ts_ns target \<le> clk w' \<and> (ts_ns target \<le> clk w \<longrightarrow> w' = w)"
proof -
  have rd: "\<exists>t. mm_gettime env st clock w = Inr t \<and> ts_ns t = clk w" for w
    using assms(2) [rule_format, of w] by (cases "mm_gettime env st clock w") auto
  then have "\<exists>t. mm_gettime env st clock undefined = Inr t" by blast
  then have "clock \<in> {MM_CLK_REALTIME, MM_CLK_MONOTONIC, MM_CLK_MONOTONIC_RAW, MM_CLK_CPU_THREAD, MM_CLK_CPU_PROCESS}"
    by (auto simp: mm_gettime_def split: if_splits)
  then show ?thesis
    using nanosleep_loop_ends [OF assms(1) rd assms(3)] by (auto simp: mm_nanosleep_def clk_ids)
qed


section \<open>A concrete machine\<close>

text \<open>
  A processor of 3 GHz whose cycles are the world, with a performance counter of 10 MHz; the timer is two wake-ups away, and its due
  time is stored with the world.
\<close>

definition demo_clock :: "(int \<times> int \<times> nat) clock_env" where
  "demo_clock = \<lparr>max_mhz = 3000, qpc_frequency = 10000000, cpuid_edx = (\<lambda>_. 2 ^ 27 + 2 ^ 8), rdtscp = (\<lambda>(c, _). word_of_int c),
     qpc_counter = (\<lambda>(c, _). c div 300), thread_cycles = (\<lambda>(c, _). word_of_int c), process_cycles = (\<lambda>(c, _). word_of_int c),
     system_time = (\<lambda>_. \<lparr>dwLowDateTime = 0, dwHighDateTime = 30000000\<rparr>),
     set_timer = (\<lambda>ft (c, _). (c, c - 300 * ft, 1)),
     sleep_ex = (\<lambda>(c, due, n). if n = 0 then (True, due, due, 0) else (False, c, due, n - 1))\<rparr>"

definition demo_clocks :: clocks where
  "demo_clocks = \<lparr>cpu_cycle_freq = 3000000000, cpu_cycle_tick_psec = 333, qpc_tick_freq = 10000000, nsec_in_qpc_tick = snd (init_qpc demo_clock),
     monotonic_use_tsc = True\<rparr>"

lemma demo_clock_init: "init_clocks_win32 demo_clock = Some demo_clocks"
  by (simp add: init_clocks_win32_def determine_cpu_cycle_rate_def demo_clocks_def init_monotonic_clock_def MHZ_IN_HZ_def
      PICOSEC_IN_SEC_def signed_divide_int_def RDTSCP_EDX_MASK_def INVARIANT_TSC_EDX_MASK_def init_qpc_def Let_def)
    (simp add: demo_clock_def)

text \<open>A clock of cycles reads the world as long as that is a positive number of 63 bits.\<close>

lemma demo_reading:
  "mm_gettime demo_clock demo_clocks MM_CLK_MONOTONIC (4500000000, 0, 0) = Inr \<lparr>tv_sec = 1, tv_nsec = 499500000\<rparr>"
  "clock_counter demo_clock demo_clocks MM_CLK_MONOTONIC (4500000000, 0, 0) = (4500000000, 3000000000, 3000002)"
  by (simp_all add: mm_gettime_def clk_ids clock_defs demo_clocks_def demo_clock_def convert_cpu_cycle_to_ts_def clock_counter_def
      signed_divide_int_def Let_def)


text \<open>A machine without a usable cycle counter: its performance counter counts the world in units of 100 nanoseconds.\<close>

definition demo_wall :: "(nat \<times> nat) clock_env" where
  "demo_wall = \<lparr>max_mhz = 3000, qpc_frequency = 10000000, cpuid_edx = (\<lambda>_. 0), rdtscp = (\<lambda>_. 0),
     qpc_counter = (\<lambda>(n, _). int n), thread_cycles = (\<lambda>_. 0), process_cycles = (\<lambda>_. 0),
     system_time = (\<lambda>_. \<lparr>dwLowDateTime = 0, dwHighDateTime = 30000000\<rparr>),
     set_timer = (\<lambda>ft (n, _). (n, nat (- ft))),
     sleep_ex = (\<lambda>(n, k). if k = 0 then (True, n, 0) else (k = 1, Suc n, k - 1))\<rparr>"

definition demo_mono :: clocks where
  "demo_mono = \<lparr>cpu_cycle_freq = 3000000000, cpu_cycle_tick_psec = 333, qpc_tick_freq = 10000000, nsec_in_qpc_tick = 100,
     monotonic_use_tsc = False\<rparr>"

lemma demo_ticks: "0 < k \<Longrightarrow> wakes_after demo_wall (k - 1) (n, k) = Some (n + k, 0)"
proof (induction k arbitrary: n)
  case (Suc k)
  then show ?case by (cases k) (simp_all add: demo_wall_def)
qed simp

lemma demo_timer_law: "timer_law demo_wall (\<lambda>(n, _). 100 * int n)"
  unfolding timer_law_def
proof (intro allI impI)
  fix ft :: int and w :: "nat \<times> nat"
  assume ft: "ft < 0"
  obtain n k where w: "w = (n, k)" by fastforce
  have "set_timer demo_wall ft w = (n, nat (- ft))" by (simp add: w demo_wall_def)
  with demo_ticks [of "nat (- ft)" n] ft
  have "wakes_after demo_wall (nat (- ft) - 1) (set_timer demo_wall ft w) = Some (n + nat (- ft), 0)" by simp
  moreover have "(case w of (n, _) \<Rightarrow> 100 * int n) < (case (n + nat (- ft), 0 :: nat) of (n, _) \<Rightarrow> 100 * int n)" using ft by (simp add: w)
  ultimately show "\<exists>k w'. wakes_after demo_wall k (set_timer demo_wall ft w) = Some w'
      \<and> (case w of (n, _) \<Rightarrow> 100 * int n) < (case w' of (n, _) \<Rightarrow> 100 * int n)" by blast
qed

lemma demo_mono_reads: "\<forall>w. map_sum id ts_ns (mm_gettime demo_wall demo_mono MM_CLK_MONOTONIC w) = Inr ((\<lambda>(n, _). 100 * int n) w)"
proof
  fix w :: "nat \<times> nat"
  obtain n k where w: "w = (n, k)" by fastforce
  have "int n div 10000000 * 1000000000 + (int n - int n div 10000000 * 10000000) * 100 = 100 * int n" by simp
  then show "map_sum id ts_ns (mm_gettime demo_wall demo_mono MM_CLK_MONOTONIC w) = Inr ((\<lambda>(n, _). 100 * int n) w)"
    by (simp add: w mm_gettime_def clk_ids clock_defs demo_mono_def demo_wall_def ts_ns_def NS_IN_SEC_def Let_def sdiv_nonneg)
qed

theorem nanosleep_reaches_witness:
  "\<exists>w'. mm_nanosleep demo_wall demo_mono MM_CLK_MONOTONIC \<lparr>tv_sec = 0, tv_nsec = 750\<rparr> (3, 0) = Some (None, w')
    \<and> 750 \<le> 100 * int (fst w')"
proof -
  from nanosleep_reaches [OF demo_timer_law demo_mono_reads, of "\<lparr>tv_sec = 0, tv_nsec = 750\<rparr>" "(3, 0)"]
  show ?thesis by (auto simp: clk_ids ts_ns_def)
qed

section \<open>Deviations\<close>

text \<open>
  The frequency in Hz is a product of 32 bits: on a processor of 5 GHz one second is reported as seven.
\<close>

lemma mhz_wraps:
  assumes "max_mhz env = 5000" "init_clocks_win32 env = Some st"
  shows "cpu_cycle_freq st = 705032704" "tv_sec (convert_cpu_cycle_to_ts st 5000000000) = 7"
  using assms by (auto simp: init_clocks_win32_def determine_cpu_cycle_rate_def MHZ_IN_HZ_def convert_cpu_cycle_to_ts_def
      signed_divide_int_def Let_def split: prod.splits)

text \<open>A performance counter of more than 1 GHz stands still within a second, and its resolution is reported as 0.\<close>

lemma qpc_stands_still:
  assumes "init_clocks_win32 env = Some st" "NS_IN_SEC < qpc_frequency env" "qpc_frequency env < 2 ^ 53"
  shows "getres_qpc st = \<lparr>tv_sec = 0, tv_nsec = 0\<rparr>" "tv_nsec (gettimespec_qpc env st w) = 0"
proof -
  have q: "0 < qpc_frequency env" using assms(2) by (simp add: NS_IN_SEC_def)
  note t = qpc_tick [OF q assms(3) init_clocks(4) [OF assms(1)]]
  have "nsec_in_qpc_tick st = 0"
  proof (rule ccontr)
    assume "nsec_in_qpc_tick st \<noteq> 0"
    then have "1 * qpc_tick_freq st \<le> nsec_in_qpc_tick st * qpc_tick_freq st"
      using t(1,2) q by (intro mult_right_mono) auto
    then show False using t(1,3) assms(2) by simp
  qed
  then show "getres_qpc st = \<lparr>tv_sec = 0, tv_nsec = 0\<rparr>" "tv_nsec (gettimespec_qpc env st w) = 0"
    by (simp_all add: getres_qpc_def gettimespec_qpc_def Let_def)
qed

end
