(* ===== verification/Alloc.thy ===== *)
theory Alloc
  imports Prelude
begin

unbundle bit_operations_syntax

text \<open>
  Aligned allocation (\<^verbatim>\<open>src/src/alloc.c\<close>) and \<open>mm_malloca\<close>, \<open>mm_freea\<close> of \<^verbatim>\<open>src/src/mmlib.h\<close>, which take small buffers from the
  stack and large ones from the heap and tell them apart by their address. Addresses and sizes are integers below \<open>2 ^ 64\<close> and
  wrap around. The allocator of the system is a parameter; \<open>stk_align\<close> is \<open>MM_STK_ALIGN\<close>, which depends on the compiler, and \<open>sp\<close> is the
  address that \<open>alloca\<close> returns.
\<close>

section \<open>Operations\<close>

datatype alloc_primitive = HAVE_POSIX_MEMALIGN | HAVE_ALIGNED_ALLOC | HAVE_ALIGNED_MALLOC

record 'w alloc_env =
  primitive :: alloc_primitive
  raw_alloc :: "int \<Rightarrow> int \<Rightarrow> 'w \<Rightarrow> (errcode + int) \<times> 'w"
  raw_free :: "int \<Rightarrow> 'w \<Rightarrow> 'w"
  stk_align :: int

definition wrap64 :: "int \<Rightarrow> int" where
  "wrap64 x = x mod 2 ^ 64"

definition MM_IS_POW2 :: "int \<Rightarrow> bool" where
  "MM_IS_POW2 ival = (ival AND wrap64 (ival - 1) = 0)"

definition internal_aligned_alloc :: "'w alloc_env \<Rightarrow> int \<Rightarrow> int \<Rightarrow> 'w \<Rightarrow> (errcode + int) \<times> 'w" where
  "internal_aligned_alloc env alignment sz w =
     (case primitive env of
        HAVE_ALIGNED_MALLOC \<Rightarrow>
          if \<not> MM_IS_POW2 alignment \<or> alignment < 8 then (Inl EINVAL, w) else raw_alloc env alignment sz w
      | _ \<Rightarrow> raw_alloc env alignment sz w)"

definition mm_aligned_alloc :: "'w alloc_env \<Rightarrow> int \<Rightarrow> int \<Rightarrow> 'w \<Rightarrow> (errcode + int) \<times> 'w" where
  "mm_aligned_alloc env alignment sz w = internal_aligned_alloc env alignment sz w"

definition mm_aligned_free :: "'w alloc_env \<Rightarrow> int \<Rightarrow> 'w \<Rightarrow> 'w" where
  "mm_aligned_free env ptr w = raw_free env ptr w"

definition mm_malloca_on_heap :: "'w alloc_env \<Rightarrow> int \<Rightarrow> 'w \<Rightarrow> (errcode + int) \<times> 'w" where
  "mm_malloca_on_heap env sz w =
     (let alloc_size = wrap64 (sz + 2 * stk_align env)
      in if alloc_size < sz then (Inl ENOMEM, w)
         else case internal_aligned_alloc env (2 * stk_align env) alloc_size w of
                (Inl e, w) \<Rightarrow> (Inl e, w)
              | (Inr ptr, w) \<Rightarrow> (Inr (wrap64 (ptr + stk_align env)), w))"

definition mm_freea_on_heap :: "'w alloc_env \<Rightarrow> int \<Rightarrow> 'w \<Rightarrow> 'w" where
  "mm_freea_on_heap env ptr w = mm_aligned_free env (wrap64 (ptr - stk_align env)) w"

definition MM_STACK_ALLOC_THRESHOLD :: int where "MM_STACK_ALLOC_THRESHOLD = 2048"

text \<open>The null pointer, address 0, when the alignment is not a power of two.\<close>

definition mm_aligned_alloca :: "int \<Rightarrow> int \<Rightarrow> int \<Rightarrow> int" where
  "mm_aligned_alloca sp alignment sz =
     (if alignment AND (alignment - 1) \<noteq> 0 then 0 else wrap64 (sp + alignment - 1) AND NOT (alignment - 1))"

definition mm_malloca :: "'w alloc_env \<Rightarrow> int \<Rightarrow> int \<Rightarrow> 'w \<Rightarrow> (errcode + int) \<times> 'w" where
  "mm_malloca env sp sz w =
     (if sz > MM_STACK_ALLOC_THRESHOLD then mm_malloca_on_heap env sz w
      else (Inr (mm_aligned_alloca sp (2 * stk_align env) sz), w))"

definition mm_freea :: "'w alloc_env \<Rightarrow> int \<Rightarrow> 'w \<Rightarrow> 'w" where
  "mm_freea env ptr w = (if ptr AND (2 * stk_align env - 1) \<noteq> 0 then mm_freea_on_heap env ptr w else w)"

section \<open>Heap and stack\<close>

text \<open>What the allocators promise, with the blocks that are allocated as a map from their address to their size.\<close>

definition alloc_law :: "'w alloc_env \<Rightarrow> ('w \<Rightarrow> int \<rightharpoonup> int) \<Rightarrow> bool" where
  "alloc_law env live \<longleftrightarrow>
     (\<forall>al n w. case raw_alloc env al n w of
        (Inl e, w') \<Rightarrow> live w' = live w
      | (Inr p, w') \<Rightarrow> 0 < p \<and> al dvd p \<and> p + n \<le> 2 ^ 64 \<and> live w p = None \<and> live w' = (live w)(p \<mapsto> n))
     \<and> (\<forall>p w. live w p \<noteq> None \<longrightarrow> live (raw_free env p w) = (live w)(p := None))"

lemma alloc_lawD:
  assumes "alloc_law env live"
  shows "raw_alloc env al n w = (Inr p, w') \<Longrightarrow> 0 < p \<and> al dvd p \<and> p + n \<le> 2 ^ 64 \<and> live w p = None \<and> live w' = (live w)(p \<mapsto> n)"
    "raw_alloc env al n w = (Inl e, w') \<Longrightarrow> live w' = live w"
    "live w p \<noteq> None \<Longrightarrow> live (raw_free env p w) = (live w)(p := None)"
  using assms unfolding alloc_law_def by (fastforce dest: spec split: prod.splits sum.splits)+

lemma and_mask_pow: "x AND (2 ^ n - 1) = x mod (2 ^ n :: int)"
  by (simp add: take_bit_eq_mod mask_eq_exp_minus_1 [symmetric] flip: take_bit_eq_mask)

lemma and_not_mask_pow: "x AND NOT (2 ^ n - 1) = x - x mod (2 ^ n :: int)"
proof -
  have "x AND NOT (mask n) = push_bit n (drop_bit n x)"
    by (rule bit_eqI) (auto simp: bit_and_iff bit_not_iff bit_mask_iff bit_push_bit_iff bit_drop_bit_eq)
  then show ?thesis
    by (simp add: mask_eq_exp_minus_1 push_bit_eq_mult drop_bit_eq_div minus_mod_eq_div_mult)
qed

text \<open>The alignment of the stack is a power of two that leaves room in the address space.\<close>

definition align_ok :: "'w alloc_env \<Rightarrow> nat \<Rightarrow> bool" where
  "align_ok env k \<longleftrightarrow> stk_align env = 2 ^ k \<and> 3 \<le> k \<and> k < 62"

lemma pow2_test: "k < 62 \<Longrightarrow> MM_IS_POW2 (2 ^ Suc k)"
proof -
  assume "k < 62"
  then have "(2::int) ^ Suc k < 2 ^ 64" by (intro power_strict_increasing) auto
  then have "wrap64 (2 ^ Suc k - 1) = 2 ^ Suc k - 1" unfolding wrap64_def by (intro mod_pos_pos_trivial) auto
  then show ?thesis unfolding MM_IS_POW2_def by (simp only: and_mask_pow) simp
qed

lemma internal_alloc_pow2:
  assumes "align_ok env k"
  shows "internal_aligned_alloc env (2 * stk_align env) n w = raw_alloc env (2 ^ Suc k) n w"
proof -
  have "(8::int) \<le> 2 ^ Suc k" using assms power_increasing [of 3 "Suc k" "2 :: int"] by (simp add: align_ok_def)
  then show ?thesis
    using assms pow2_test [of k] by (simp add: internal_aligned_alloc_def align_ok_def split: alloc_primitive.split)
qed

lemma heap_block:
  assumes law: "alloc_law env live" and al: "align_ok env k" and sz: "MM_STACK_ALLOC_THRESHOLD < sz" "sz < 2 ^ 64"
    and r: "mm_malloca_on_heap env sz w = (Inr p, w')"
  shows "\<exists>b. live w b = None \<and> live w' = (live w)(b \<mapsto> sz + 2 * stk_align env) \<and> p = b + stk_align env
    \<and> 2 * stk_align env dvd b \<and> 0 < b \<and> p < 2 ^ 64"
proof -
  define n where "n = wrap64 (sz + 2 * stk_align env)"
  have s0: "0 < stk_align env" using al by (simp add: align_ok_def)
  obtain b where b: "raw_alloc env (2 ^ Suc k) n w = (Inr b, w')" and n: "sz \<le> n" and p: "p = wrap64 (b + stk_align env)"
    using r by (auto simp: mm_malloca_on_heap_def n_def Let_def internal_alloc_pow2 [OF al] split: if_splits prod.splits sum.splits)
  note d = alloc_lawD(1) [OF law b]
  have n2: "n = sz + 2 * stk_align env"
  proof (cases "sz + 2 * stk_align env < 2 ^ 64")
    case True
    then show ?thesis using sz s0 by (simp add: n_def wrap64_def MM_STACK_ALLOC_THRESHOLD_def)
  next
    case False
    have "2 * stk_align env < 2 ^ 64" using al power_strict_increasing [of "Suc k" 64 "2 :: int"] by (simp add: align_ok_def)
    then have "(sz + 2 * stk_align env - 2 ^ 64) mod 2 ^ 64 = sz + 2 * stk_align env - 2 ^ 64"
      using False sz(2) by (intro mod_pos_pos_trivial) auto
    then have "n = sz + 2 * stk_align env - 2 ^ 64" by (simp add: n_def wrap64_def)
    with n \<open>2 * stk_align env < 2 ^ 64\<close> show ?thesis by simp
  qed
  have "b + stk_align env < 2 ^ 64" using d n2 s0 sz by (auto simp: MM_STACK_ALLOC_THRESHOLD_def)
  then have "p = b + stk_align env" "p < 2 ^ 64" using d s0 by (simp_all add: p wrap64_def)
  moreover have "2 * stk_align env dvd b" using d al by (simp add: align_ok_def)
  ultimately show ?thesis using d n2 by auto
qed

lemma stack_block:
  fixes sz :: int
  assumes al: "align_ok env k" and sp: "0 < sp" "sp + 2 * stk_align env \<le> 2 ^ 64"
  defines "p \<equiv> mm_aligned_alloca sp (2 * stk_align env) sz"
  shows "sp \<le> p" "p \<le> sp + (2 * stk_align env - 1)" "2 * stk_align env dvd p"
proof -
  have a: "2 * stk_align env = 2 ^ Suc k" using al by (simp add: align_ok_def)
  define x where "x = sp + 2 ^ Suc k - 1"
  have x: "wrap64 (sp + 2 * stk_align env - 1) = x" using sp unfolding a x_def wrap64_def by (intro mod_pos_pos_trivial) (auto intro: add_pos_pos)
  have z: "2 ^ Suc k AND (2 ^ Suc k - 1 :: int) = 0" by (simp only: and_mask_pow) simp
  have "p = x - x mod 2 ^ Suc k" unfolding p_def mm_aligned_alloca_def x unfolding a z and_not_mask_pow by simp
  moreover have "0 \<le> x mod 2 ^ Suc k" "x mod 2 ^ Suc k < 2 ^ Suc k" by simp_all
  ultimately show "sp \<le> p" "p \<le> sp + (2 * stk_align env - 1)" "2 * stk_align env dvd p"
    unfolding a using x_def dvd_minus_mod [of "2 ^ Suc k" x] by (linarith, linarith, simp)
qed

text \<open>
  C35. Buffers of \<open>mm_malloca\<close>: a small one lies in the area that \<open>alloca\<close> has reserved, a large one in a new block of the heap with
  room for its size, both aligned, and the address tells \<open>mm_freea\<close> which it is: freeing it makes the heap what it was
  before. If the allocation fails the heap is unchanged.
\<close>

theorem malloca_freea:
  assumes "alloc_law env live" "align_ok env k" "0 < sp" "sp + 2 * stk_align env \<le> 2 ^ 64" "0 \<le> sz" "sz < 2 ^ 64"
    and "mm_malloca env sp sz w = (r, w')"
  shows "case r of
      Inl e \<Rightarrow> live w' = live w
    | Inr p \<Rightarrow> stk_align env dvd p \<and> live (mm_freea env p w') = live w
        \<and> (if sz \<le> MM_STACK_ALLOC_THRESHOLD
           then live w' = live w \<and> sp \<le> p \<and> p + sz \<le> sp + (sz + 2 * stk_align env - 1)
           else \<exists>b n. live w b = None \<and> live w' = (live w)(b \<mapsto> n) \<and> b \<le> p \<and> p + sz \<le> b + n)"
proof (cases "sz \<le> MM_STACK_ALLOC_THRESHOLD")
  case True
  note st = stack_block [OF assms(2-4), of sz]
  let ?p = "mm_aligned_alloca sp (2 * stk_align env) sz"
  have "?p AND (2 * stk_align env - 1) = 0"
    using st(3) assms(2) and_mask_pow [of ?p "Suc k"] by (auto simp: align_ok_def)
  then show ?thesis using True assms(7) st by (auto simp: mm_malloca_def mm_freea_def dest: dvd_mult_right)
next
  case large: False
  then have sz: "MM_STACK_ALLOC_THRESHOLD < sz" and r: "mm_malloca_on_heap env sz w = (r, w')" using assms(7) by (simp_all add: mm_malloca_def)
  show ?thesis
  proof (cases r)
    case (Inl e)
    then show ?thesis using r alloc_lawD(2) [OF assms(1)]
      by (auto simp: mm_malloca_on_heap_def internal_alloc_pow2 [OF assms(2)] Let_def split: if_splits prod.splits sum.splits)
  next
    case (Inr p)
    obtain b where b: "live w b = None" "live w' = (live w)(b \<mapsto> sz + 2 * stk_align env)" "p = b + stk_align env"
        "2 * stk_align env dvd b" "0 < b" "p < 2 ^ 64"
      using heap_block [OF assms(1,2) sz assms(6)] r Inr by blast
    have s: "0 < stk_align env" using assms(2) by (simp add: align_ok_def)
    have m: "p AND (2 * stk_align env - 1) = stk_align env"
    proof -
      have "p AND (2 * stk_align env - 1) = p mod (2 * stk_align env)"
        using assms(2) and_mask_pow [of p "Suc k"] by (simp add: align_ok_def)
      also have "\<dots> = stk_align env" using b(3,4) s by (auto simp: dvd_def)
      finally show ?thesis .
    qed
    have "wrap64 (p - stk_align env) = b" using b(3,5,6) s by (simp add: wrap64_def)
    then have "live (mm_freea env p w') = live w"
      using m s alloc_lawD(3) [OF assms(1), of w' b] b(1,2) by (auto simp: mm_freea_def mm_freea_on_heap_def mm_aligned_free_def)
    moreover have "stk_align env dvd p" using b(3,4) by (auto dest: dvd_mult_right)
    moreover have "\<exists>b n. live w b = None \<and> live w' = (live w)(b \<mapsto> n) \<and> b \<le> p \<and> p + sz \<le> b + n"
      by (rule exI [of _ b], rule exI [of _ "sz + 2 * stk_align env"]) (use b s in simp)
    ultimately show ?thesis using Inr large by simp
  qed
qed


text \<open>An allocator that never reuses an address: the world is the next one and the blocks.\<close>

definition demo_alloc :: "(int \<times> (int \<times> int) list) alloc_env" where
  "demo_alloc = \<lparr>primitive = HAVE_ALIGNED_MALLOC,
     raw_alloc = (\<lambda>al n (a, bs). let p = (a div al + 1) * al
        in if al \<le> 0 \<or> n < 0 \<or> 2 ^ 64 < p + n \<or> a < 0 \<or> list_ex (\<lambda>(q, _). q = p) bs then (Inl ENOMEM, a, bs) else (Inr p, p + n, (p, n) # bs)),
     raw_free = (\<lambda>p (a, bs). (a, filter (\<lambda>(q, _). q \<noteq> p) bs)), stk_align = 16\<rparr>"

lemma demo_alloc_law: "alloc_law demo_alloc (\<lambda>(_, bs). map_of bs)"
proof -
  have pos: "0 < (a div al + 1) * al" if "0 \<le> a" "0 < al" for a al :: int
    using that by (simp add: pos_imp_zdiv_nonneg_iff add_nonneg_pos)
  show ?thesis
    unfolding alloc_law_def
    by (auto simp: demo_alloc_def Let_def pos map_of_filter_neq map_of_eq_None_iff list_ex_iff split: if_splits)
qed

theorem malloca_freea_witness:
  "\<exists>w'. mm_malloca demo_alloc 1000 5000 (4096, []) = (Inr 4144, w') \<and> (\<lambda>(_, bs). map_of bs) (mm_freea demo_alloc 4144 w') = (\<lambda>_. None)"
proof -
  have ok: "align_ok demo_alloc 4" by (simp add: align_ok_def demo_alloc_def)
  obtain r w' where r: "mm_malloca demo_alloc 1000 5000 (4096, []) = (r, w')" by (rule prod.exhaust)
  moreover have "fst (mm_malloca demo_alloc 1000 5000 (4096, [])) = Inr 4144" by code_simp
  ultimately have "r = Inr 4144" by simp
  with malloca_freea [OF demo_alloc_law ok _ _ _ _ r] r show ?thesis by (auto simp: demo_alloc_def)
qed

end
