(* ===== verification/Volume_Win32.thy ===== *)
theory Volume_Win32
  imports Win_Fd "HOL-Library.Sublist"
begin

text \<open>
  The cache of volumes (\<^verbatim>\<open>src/src/volume-win32.c\<close>): the volume of a device number is searched among those of the system
  once and then kept in an array of 32 elements. The volumes of the system are parameters; the lock around the cache and the
  handles, which are closed where they were opened, are left out.
\<close>

section \<open>Operations\<close>

datatype fs_type = FSTYPE_UNKNOWN | FSTYPE_NTFS | FSTYPE_FAT32 | FSTYPE_EXFAT

record volume =
  vol_dev :: int
  guid_path :: "string option"
  vol_fs :: fs_type

definition INVALID_VOLUME_DEV :: int where "INVALID_VOLUME_DEV = 2 ^ 64 - 1"
definition NUM_VOLUMES :: nat where "NUM_VOLUMES = 32"
definition FS_NAME_LEN :: nat where "FS_NAME_LEN = 32"
definition MAX_PATH_W32 :: nat where "MAX_PATH_W32 = 260"

text \<open>
  \<open>vol_roots\<close>: what \<open>FindFirstVolume\<close> and \<open>FindNextVolume\<close> give. A root that cannot be opened has no
  handle; the device number and the name of the file system may be unknown.
\<close>

record vol_env =
  vol_roots :: "string list option"
  open_volume_path :: "string \<Rightarrow> int option"
  volume_serial :: "int \<Rightarrow> int option"
  volume_fs_name :: "int \<Rightarrow> string option"
  vol_wcsdup :: "string \<Rightarrow> string option"
  caller_sid :: "string option"
  vol_error :: w32err

definition get_volume_dev :: "vol_env \<Rightarrow> int \<Rightarrow> int" where
  "get_volume_dev env hnd = (case volume_serial env hnd of None \<Rightarrow> INVALID_VOLUME_DEV | Some d \<Rightarrow> d)"

text \<open>
  The size that is passed for the name of the file system is in bytes, less one, and the system takes it for a number of characters:
  \<open>None\<close> when the name is written behind the array of 32 characters.
\<close>

definition get_volume_fs_type :: "vol_env \<Rightarrow> int \<Rightarrow> fs_type option" where
  "get_volume_fs_type env hnd =
     (case volume_fs_name env hnd of
        None \<Rightarrow> Some FSTYPE_UNKNOWN
      | Some name \<Rightarrow>
          if length name + 1 > 2 * FS_NAME_LEN - 1 then Some FSTYPE_UNKNOWN
          else if length name + 1 > FS_NAME_LEN then None
          else if name = ''NTFS'' then Some FSTYPE_NTFS
          else if name = ''FAT32'' then Some FSTYPE_FAT32
          else if name = ''EXFAT'' then Some FSTYPE_EXFAT
          else Some FSTYPE_UNKNOWN)"

definition volume_init :: "vol_env \<Rightarrow> string \<Rightarrow> int \<Rightarrow> int \<Rightarrow> volume option" where
  "volume_init env volume_path dev hnd =
     map_option (\<lambda>fs. \<lparr>vol_dev = dev, guid_path = vol_wcsdup env volume_path, vol_fs = fs\<rparr>) (get_volume_fs_type env hnd)"

fun search_from :: "nat \<Rightarrow> int \<Rightarrow> volume list \<Rightarrow> nat option" where
  "search_from i dev [] = None"
| "search_from i dev (v # vs) = (if dev = vol_dev v then Some i else search_from (Suc i) dev vs)"

definition search_in_cached_volumes :: "int \<Rightarrow> volume list \<Rightarrow> nat option" where
  "search_in_cached_volumes dev cache = search_from 0 dev cache"

text \<open>The loop over the volumes of the system; \<open>Some None\<close> when none has the device number.\<close>

fun match_volume :: "vol_env \<Rightarrow> int \<Rightarrow> string list \<Rightarrow> volume option option" where
  "match_volume env dev [] = Some None"
| "match_volume env dev (root # roots) =
     (case open_volume_path env root of
        None \<Rightarrow> match_volume env dev roots
      | Some hnd \<Rightarrow>
          if dev = get_volume_dev env hnd then map_option Some (volume_init env root dev hnd)
          else match_volume env dev roots)"

definition add_volume :: "vol_env \<Rightarrow> int \<Rightarrow> volume list \<Rightarrow> ((errcode + nat) \<times> volume list) option" where
  "add_volume env dev cache =
     (if length cache = NUM_VOLUMES then Some (Inl EOVERFLOW, cache)
      else case vol_roots env of
             None \<Rightarrow> Some (Inl (get_errcode_from_w32err (vol_error env)), cache)
           | Some roots \<Rightarrow>
               (case match_volume env dev roots of
                  None \<Rightarrow> None
                | Some None \<Rightarrow> Some (Inl (OtherErr 19), cache)
                | Some (Some vol) \<Rightarrow> Some (Inr (length cache), cache @ [vol])))"

definition get_volume_from_dev :: "vol_env \<Rightarrow> int \<Rightarrow> volume list \<Rightarrow> ((errcode + nat) \<times> volume list) option" where
  "get_volume_from_dev env dev cache =
     (case search_in_cached_volumes dev cache of
        Some i \<Rightarrow> Some (Inr i, cache)
      | None \<Rightarrow> add_volume env dev cache)"

text \<open>\<open>swprintf\<close> in a buffer of \<open>MAX_PATH\<close> characters: \<open>None\<close> is the result \<open>-1\<close>.\<close>

definition swprintf_path :: "string \<Rightarrow> string option" where
  "swprintf_path s = (if length s < MAX_PATH_W32 then Some s else None)"

definition volume_get_trash_prefix_u16 :: "vol_env \<Rightarrow> volume \<Rightarrow> string option" where
  "volume_get_trash_prefix_u16 env vol =
     (let guid = (case guid_path vol of None \<Rightarrow> ''(null)'' | Some p \<Rightarrow> p); bs = CHR 0x5C
      in if vol_fs vol = FSTYPE_FAT32 \<or> vol_fs vol = FSTYPE_EXFAT then swprintf_path (guid @ [bs])
         else case caller_sid env of
                None \<Rightarrow> None
              | Some sid \<Rightarrow> swprintf_path (guid @ [bs] @ ''$Recycle.bin'' @ [bs] @ sid @ [bs]))"

section \<open>The cache\<close>

definition cache_ok :: "volume list \<Rightarrow> bool" where
  "cache_ok cache \<longleftrightarrow> distinct (map vol_dev cache) \<and> length cache \<le> NUM_VOLUMES"

lemma search_from_iff: "search_from i dev vs = Some j \<Longrightarrow> i \<le> j \<and> j < i + length vs \<and> vol_dev (vs ! (j - i)) = dev"
proof (induction vs arbitrary: i)
  case (Cons v vs)
  then show ?case by (fastforce simp: nth_Cons' split: if_splits)
qed simp

lemma search_from_None: "search_from i dev vs = None \<longleftrightarrow> dev \<notin> vol_dev ` set vs"
  by (induction vs arbitrary: i) auto

lemma search_from_append: "search_from i dev vs = None \<Longrightarrow> search_from i dev (vs @ ws) = search_from (i + length vs) dev ws"
  by (induction vs arbitrary: i) (auto split: if_splits)

lemma match_volume_dev: "match_volume env dev roots = Some (Some v) \<Longrightarrow> vol_dev v = dev"
  by (induction roots) (auto simp: volume_init_def split: option.splits if_splits)

text \<open>
  The cache of volumes: when a volume is found it is the one of the device number, elements that were in the cache stay at their
  place, so that pointers to them stay valid, no device is stored twice, the array never runs over, and from then on the
  volume is found at the same place without asking the system, whatever the system answers later.
\<close>

theorem volume_cached:
  assumes "cache_ok cache" "get_volume_from_dev env dev cache = Some (Inr i, cache')"
  shows "i < length cache' \<and> vol_dev (cache' ! i) = dev \<and> prefix cache cache' \<and> cache_ok cache'
    \<and> get_volume_from_dev env' dev cache' = Some (Inr i, cache')"
proof (cases "search_in_cached_volumes dev cache")
  case (Some j)
  then have "i = j" "cache' = cache" using assms(2) by (simp_all add: get_volume_from_dev_def)
  then show ?thesis using Some search_from_iff [of 0 dev cache j] assms(1) by (simp add: get_volume_from_dev_def search_in_cached_volumes_def)
next
  case None
  then obtain v where v: "vol_dev v = dev" "cache' = cache @ [v]" "i = length cache" "length cache \<noteq> NUM_VOLUMES"
    using assms(2) by (auto simp: get_volume_from_dev_def add_volume_def dest: match_volume_dev split: option.splits if_splits)
  have new: "dev \<notin> vol_dev ` set cache" using None search_from_None by (simp add: search_in_cached_volumes_def)
  have "search_in_cached_volumes dev cache' = Some i"
    using None v search_from_append [of 0 dev cache "[v]"] by (simp add: search_in_cached_volumes_def)
  then show ?thesis using v new assms(1) by (auto simp: get_volume_from_dev_def cache_ok_def)
qed

definition demo_volumes :: vol_env where
  "demo_volumes = \<lparr>vol_roots = Some [''C:'', ''D:'', ''E:''], open_volume_path = (\<lambda>r. if r = ''C:'' then Some 1 else if r = ''D:'' then None else Some 2),
     volume_serial = (\<lambda>h. if h = 2 then Some 77 else Some 5), volume_fs_name = (\<lambda>_. Some ''NTFS''), vol_wcsdup = Some,
     caller_sid = Some ''S-1-5'', vol_error = ERROR_ACCESS_DENIED\<rparr>"

theorem volume_cached_witness:
  "get_volume_from_dev demo_volumes 77 [] = Some (Inr 0, [\<lparr>vol_dev = 77, guid_path = Some ''E:'', vol_fs = FSTYPE_NTFS\<rparr>])
    \<and> get_volume_from_dev (demo_volumes\<lparr>vol_roots := None\<rparr>) 77 [\<lparr>vol_dev = 77, guid_path = Some ''E:'', vol_fs = FSTYPE_NTFS\<rparr>]
      = Some (Inr 0, [\<lparr>vol_dev = 77, guid_path = Some ''E:'', vol_fs = FSTYPE_NTFS\<rparr>])"
proof -
  let ?c = "[\<lparr>vol_dev = 77, guid_path = Some ''E:'', vol_fs = FSTYPE_NTFS\<rparr>]"
  have g: "get_volume_from_dev demo_volumes 77 [] = Some (Inr 0, ?c)"
    by (simp add: get_volume_from_dev_def search_in_cached_volumes_def add_volume_def demo_volumes_def NUM_VOLUMES_def get_volume_dev_def
        volume_init_def get_volume_fs_type_def FS_NAME_LEN_def)
  from volume_cached [OF _ g, of "demo_volumes\<lparr>vol_roots := None\<rparr>"] g show ?thesis by (simp add: cache_ok_def)
qed

text \<open>A file system with a name of 32 characters or more is written behind the array.\<close>

lemma fs_name_overrun: "volume_fs_name env hnd = Some (replicate 40 CHR ''x'') \<Longrightarrow> get_volume_fs_type env hnd = None"
  by (simp add: get_volume_fs_type_def FS_NAME_LEN_def)

section \<open>Names in the trash\<close>

fun hex_digits :: "nat \<Rightarrow> int \<Rightarrow> string" where
  "hex_digits 0 x = []"
| "hex_digits (Suc n) x = hex_digits n (x div 16) @ [''0123456789abcdef'' ! nat (x mod 16)]"

text \<open>The name of a deleted file, made of its 128 bit identifier, with \<open>swprintf\<close> cut to the rest of the buffer.\<close>

definition trash_name :: "string \<Rightarrow> int \<Rightarrow> int \<Rightarrow> string" where
  "trash_name pre id_high id_low = pre @ ''.mmlib-'' @ hex_digits 16 id_high @ hex_digits 16 id_low @ ''.deleted''"

lemma length_hex [simp]: "length (hex_digits n x) = n"
  by (induction n arbitrary: x) simp_all

lemma hex_digit_inj: "0 \<le> a \<Longrightarrow> a < 16 \<Longrightarrow> 0 \<le> b \<Longrightarrow> b < 16 \<Longrightarrow> ''0123456789abcdef'' ! nat a = ''0123456789abcdef'' ! nat b \<Longrightarrow> a = b"
proof -
  have d: "distinct ''0123456789abcdef''" by simp
  assume "0 \<le> a" "a < 16" "0 \<le> b" "b < 16" "''0123456789abcdef'' ! nat a = ''0123456789abcdef'' ! nat b"
  then show "a = b" using nth_eq_iff_index_eq [OF d, of "nat a" "nat b"] by simp
qed

lemma hex_digits_inj: "hex_digits n x = hex_digits n y \<Longrightarrow> x mod 16 ^ n = y mod 16 ^ n"
proof (induction n arbitrary: x y)
  case (Suc n)
  let ?d = "\<lambda>x :: int. ''0123456789abcdef'' ! nat (x mod 16)"
  have "hex_digits n (x div 16) = hex_digits n (y div 16)" "?d x = ?d y"
    using Suc.prems by (simp_all only: hex_digits.simps append1_eq_conv)
  then have "x div 16 mod 16 ^ n = y div 16 mod 16 ^ n" "x mod 16 = y mod 16"
    using Suc.IH hex_digit_inj [of "x mod 16" "y mod 16"] by (blast, simp only: pos_mod_sign pos_mod_bound zero_less_numeral)
  then show ?case by (simp add: zmod_zmult2_eq)
qed simp

text \<open>Two files of a volume never get the same name in the trash.\<close>

lemma trash_name_inj:
  assumes "trash_name pre h l = trash_name pre h' l'" "{h, l, h', l'} \<subseteq> {0..<2 ^ 64}"
  shows "h = h' \<and> l = l'"
proof -
  have eq: "hex_digits 16 h @ hex_digits 16 l @ ''.deleted'' = hex_digits 16 h' @ hex_digits 16 l' @ ''.deleted''"
    using assms(1) unfolding trash_name_def by (simp only: same_append_eq)
  have "length (hex_digits 16 h) = length (hex_digits 16 h')" "length (hex_digits 16 l) = length (hex_digits 16 l')" by simp_all
  then have "hex_digits 16 h = hex_digits 16 h'" "hex_digits 16 l = hex_digits 16 l'"
    using eq by (simp_all only: append_eq_append_conv append_same_eq simp_thms)
  then have "h mod 16 ^ 16 = h' mod 16 ^ 16" "l mod 16 ^ 16 = l' mod 16 ^ 16" using hex_digits_inj by blast+
  moreover have "x mod 16 ^ 16 = x" if "x \<in> {0..<2 ^ 64}" for x :: int using that by simp
  ultimately show ?thesis using assms(2) by (metis insert_subset)
qed

end
