(* ===== verification/Win_Trash.thy ===== *)
theory Win_Trash
  imports Volume_Win32 Win_Attr
begin

text \<open>
  Removing and renaming files on Windows (\<^verbatim>\<open>src/src/file-win32.c\<close>): a file that is still open cannot be deleted at once, so it is
  first renamed into the trash of its volume under a name made of its identifier, which frees its path, and then marked for
  deletion. The calls of the system are parameters, \<open>create_file_w\<close> with the access, the creation mode and the flags that it gets; the
  conversion of a path to UTF-16, which may fail, is \<open>to_utf16\<close>.
\<close>

section \<open>Operations\<close>

record 'w file_env =
  to_utf16 :: "string \<Rightarrow> string option"
  rename_alloc :: "nat \<Rightarrow> bool"
  create_file_w :: "string \<Rightarrow> w32_create_file_options \<Rightarrow> 'w \<Rightarrow> int option \<times> 'w"
  file_id :: "int \<Rightarrow> 'w \<Rightarrow> (int \<times> int \<times> int) option"
  set_rename :: "int \<Rightarrow> string \<Rightarrow> 'w \<Rightarrow> bool \<times> 'w"
  set_delete :: "int \<Rightarrow> 'w \<Rightarrow> bool \<times> 'w"
  find_deleted :: "string \<Rightarrow> 'w \<Rightarrow> string list"
  delete_file :: "string \<Rightarrow> 'w \<Rightarrow> 'w"
  close_file :: "int \<Rightarrow> 'w \<Rightarrow> 'w"
  w32_error :: "'w \<Rightarrow> w32err"

text \<open>The options for a file that will be renamed or deleted; a link itself is opened only with \<open>link\<close>.\<close>

definition delete_options :: "bool \<Rightarrow> w32_create_file_options" where
  "delete_options link =
     \<lparr> access_mode = DELETE_ACCESS OR FILE_WRITE_ATTRIBUTES, create_mode = OPEN_EXISTING,
       file_attribute = (if link then FILE_FLAG_OPEN_REPARSE_POINT OR FILE_FLAG_BACKUP_SEMANTICS else FILE_FLAG_BACKUP_SEMANTICS) \<rparr>"

definition open_delete :: "'w file_env \<Rightarrow> bool \<Rightarrow> string \<Rightarrow> 'w \<Rightarrow> int option \<times> 'w" where
  "open_delete env link path w =
     open_handle (to_utf16 env) (\<lambda>p. rename_alloc env (2 * (length p + 1)))
       (\<lambda>p opts (sd :: unit secdesc option). create_file_w env p opts) path (delete_options link) None w"

definition scrub_user_trash_path :: "'w file_env \<Rightarrow> string \<Rightarrow> 'w \<Rightarrow> 'w" where
  "scrub_user_trash_path env pre w = fold (\<lambda>name. delete_file env (pre @ name)) (find_deleted env pre w) w"

text \<open>
  The name is cut when it does not fit. \<open>None\<close>: memory behind an array was written (see \<open>get_volume_fs_type\<close>). The state is
  the cache of volumes and the world.
\<close>

definition rename_file_to_trash_from_handle ::
  "vol_env \<Rightarrow> 'w file_env \<Rightarrow> int \<Rightarrow> volume list \<times> 'w \<Rightarrow> (bool \<times> volume list \<times> 'w) option" where
  "rename_file_to_trash_from_handle ve env hnd = (\<lambda>(vols, w).
     case file_id env hnd w of
       None \<Rightarrow> Some (False, vols, w)
     | Some (dev, id_high, id_low) \<Rightarrow>
         (case get_volume_from_dev ve dev vols of
            None \<Rightarrow> None
          | Some (Inl e, vols) \<Rightarrow> Some (False, vols, w)
          | Some (Inr i, vols) \<Rightarrow>
              (case volume_get_trash_prefix_u16 ve (vols ! i) of
                 None \<Rightarrow> Some (False, vols, w)
               | Some pre \<Rightarrow>
                   let w = scrub_user_trash_path env pre w;
                       name = take (MAX_PATH_W32 - 1) (trash_name pre id_high id_low);
                       (ok, w) = set_rename env hnd name w
                   in Some (ok, vols, w))))"

definition delete_file_from_handle ::
  "vol_env \<Rightarrow> 'w file_env \<Rightarrow> int \<Rightarrow> volume list \<times> 'w \<Rightarrow> (bool \<times> volume list \<times> 'w) option" where
  "delete_file_from_handle ve env hnd x =
     (case rename_file_to_trash_from_handle ve env hnd x of
        None \<Rightarrow> None
      | Some (False, x) \<Rightarrow> Some (False, x)
      | Some (True, vols, w) \<Rightarrow> Some (True, vols, snd (set_delete env hnd w)))"

definition mm_unlink_win32 ::
  "vol_env \<Rightarrow> 'w file_env \<Rightarrow> string \<Rightarrow> volume list \<times> 'w \<Rightarrow> (retcode \<times> volume list \<times> 'w) option" where
  "mm_unlink_win32 ve env path = (\<lambda>(vols, w).
     case open_delete env True path w of
       (None, w) \<Rightarrow> Some (Some (get_errcode_from_w32err (w32_error env w)), vols, w)
     | (Some hnd, w) \<Rightarrow>
         (case delete_file_from_handle ve env hnd (vols, w) of
            None \<Rightarrow> None
          | Some (ok, vols, w) \<Rightarrow>
              Some (if ok then None else Some (get_errcode_from_w32err (w32_error env w)), vols, close_file env hnd w)))"

text \<open>
  The result is whether 0 was returned; only an invalid path raises an error. The handles are closed at the end, also when they are
  invalid, which \<open>safe_closehandle\<close> ignores.
\<close>

definition safe_closehandle :: "'w file_env \<Rightarrow> int option \<Rightarrow> 'w \<Rightarrow> 'w" where
  "safe_closehandle env h w = (case h of None \<Rightarrow> w | Some h \<Rightarrow> close_file env h w)"

definition replace_target ::
  "vol_env \<Rightarrow> 'w file_env \<Rightarrow> int \<Rightarrow> string \<Rightarrow> volume list \<times> 'w \<Rightarrow> (bool \<times> int option \<times> volume list \<times> 'w) option" where
  "replace_target ve env hndold newpath = (\<lambda>(vols, w).
     case create_file_w env newpath (delete_options False) w of
       (None, w) \<Rightarrow> Some (False, None, vols, w)
     | (Some hndnew, w) \<Rightarrow>
         (case rename_file_to_trash_from_handle ve env hndnew (vols, w) of
            None \<Rightarrow> None
          | Some (False, vols, w) \<Rightarrow> Some (False, Some hndnew, vols, w)
          | Some (True, vols, w) \<Rightarrow> (case set_rename env hndold newpath w of (ok, w) \<Rightarrow> Some (ok, Some hndnew, vols, w))))"

definition mm_rename_win32 ::
  "vol_env \<Rightarrow> 'w file_env \<Rightarrow> string \<Rightarrow> string \<Rightarrow> volume list \<times> 'w \<Rightarrow> (bool \<times> volume list \<times> 'w) option" where
  "mm_rename_win32 ve env oldpath newpath = (\<lambda>(vols, w).
     case to_utf16 env newpath of
       None \<Rightarrow> Some (False, vols, w)
     | Some newpath16 \<Rightarrow>
         if \<not> rename_alloc env (2 * (length newpath16 + 1)) then Some (False, vols, w)
         else
           (case open_delete env False oldpath w of
              (None, w) \<Rightarrow> Some (False, vols, w)
            | (Some hndold, w) \<Rightarrow>
                (case set_rename env hndold newpath16 w of
                   (True, w) \<Rightarrow> Some (True, vols, safe_closehandle env (Some hndold) w)
                 | (False, w) \<Rightarrow>
                     map_option (\<lambda>(ok, hndnew, vols, w). (ok, vols, safe_closehandle env hndnew (safe_closehandle env (Some hndold) w)))
                       (replace_target ve env hndold newpath16 (vols, w)))))"

section \<open>A file system\<close>

text \<open>
  What the calls promise. A path in UTF-16 denotes a location \<open>loc\<close> (the directory entry, with the directory part resolved); \<open>names\<close> gives
  the file of each location, \<open>refers\<close> the location that a handle was opened for. \<open>CreateFile\<close> opens the file at the location of
  the path; a link is opened itself only with the flag for it, and without the flag some other location is. Renaming a file that is
  not a directory moves it to another location and fails when that is taken. A file in the trash may vanish when its handle is
  closed; scrubbing touches the trash only.
\<close>

record ('l, 'f, 'w) fs_view =
  loc :: "string \<Rightarrow> 'l"
  names :: "'w \<Rightarrow> 'l \<rightharpoonup> 'f"
  refers :: "'w \<Rightarrow> int \<rightharpoonup> 'l"
  is_link :: "'f \<Rightarrow> bool"
  is_dir :: "'f \<Rightarrow> bool"
  trash :: "'l \<Rightarrow> bool"

definition opened_at :: "('l, 'f, 'w) fs_view \<Rightarrow> bool \<Rightarrow> string \<Rightarrow> 'w \<Rightarrow> 'l \<Rightarrow> bool" where
  "opened_at fs link p w l \<longleftrightarrow>
     names fs w l \<noteq> None \<and> (link \<or> \<not> pred_option (is_link fs) (names fs w (loc fs p)) \<or> names fs w (loc fs p) = None \<longrightarrow> l = loc fs p)"

definition name_law :: "'w file_env \<Rightarrow> ('l, 'f, 'w) fs_view \<Rightarrow> bool" where
  "name_law env fs \<longleftrightarrow>
     (\<forall>p opts w. create_mode opts = OPEN_EXISTING \<longrightarrow> (case create_file_w env p opts w of
        (None, w') \<Rightarrow> names fs w' = names fs w \<and> refers fs w' = refers fs w
      | (Some h, w') \<Rightarrow> names fs w' = names fs w \<and> refers fs w h = None
          \<and> (\<exists>l. opened_at fs (opens_link opts) p w l \<and> refers fs w' = (refers fs w)(h \<mapsto> l))))
     \<and> (\<forall>h n w l f. refers fs w h = Some l \<longrightarrow> names fs w l = Some f \<longrightarrow> \<not> is_dir fs f \<longrightarrow> loc fs n \<noteq> l \<longrightarrow> (case set_rename env h n w of
        (False, w') \<Rightarrow> names fs w' = names fs w \<and> refers fs w' = refers fs w
      | (True, w') \<Rightarrow> names fs w (loc fs n) = None \<and> names fs w' = (names fs w)(l := None, loc fs n \<mapsto> f)
          \<and> refers fs w' = (\<lambda>g. if refers fs w g = Some l then Some (loc fs n) else refers fs w g)))
     \<and> (\<forall>p w. trash fs (loc fs p) \<longrightarrow> refers fs (delete_file env p w) = refers fs w
          \<and> (\<forall>q. \<not> trash fs q \<longrightarrow> names fs (delete_file env p w) q = names fs w q))
     \<and> (\<forall>h w. names fs (snd (set_delete env h w)) = names fs w \<and> refers fs (snd (set_delete env h w)) = refers fs w)
     \<and> (\<forall>h w q. \<not> trash fs q \<longrightarrow> names fs (close_file env h w) q = names fs w q)"

definition trash_law :: "vol_env \<Rightarrow> 'w file_env \<Rightarrow> ('l, 'f, 'w) fs_view \<Rightarrow> bool" where
  "trash_law ve env fs \<longleftrightarrow> (\<forall>vol pre. volume_get_trash_prefix_u16 ve vol = Some pre \<longrightarrow>
     (\<forall>w. \<forall>name \<in> set (find_deleted env pre w). trash fs (loc fs (pre @ name)))
     \<and> (\<forall>h l. trash fs (loc fs (take (MAX_PATH_W32 - 1) (trash_name pre h l)))))"

lemma name_lawD:
  assumes "name_law env fs"
  shows "create_mode opts = OPEN_EXISTING \<Longrightarrow> create_file_w env p opts w = (None, w') \<Longrightarrow> names fs w' = names fs w \<and> refers fs w' = refers fs w"
    "create_mode opts = OPEN_EXISTING \<Longrightarrow> create_file_w env p opts w = (Some h, w') \<Longrightarrow>
       names fs w' = names fs w \<and> refers fs w h = None \<and> (\<exists>l. opened_at fs (opens_link opts) p w l \<and> refers fs w' = (refers fs w)(h \<mapsto> l))"
    "refers fs w h = Some l \<Longrightarrow> names fs w l = Some f \<Longrightarrow> \<not> is_dir fs f \<Longrightarrow> loc fs n \<noteq> l \<Longrightarrow> set_rename env h n w = (False, w') \<Longrightarrow>
       names fs w' = names fs w \<and> refers fs w' = refers fs w"
    "refers fs w h = Some l \<Longrightarrow> names fs w l = Some f \<Longrightarrow> \<not> is_dir fs f \<Longrightarrow> loc fs n \<noteq> l \<Longrightarrow> set_rename env h n w = (True, w') \<Longrightarrow>
       names fs w (loc fs n) = None \<and> names fs w' = (names fs w)(l := None, loc fs n \<mapsto> f)
       \<and> refers fs w' = (\<lambda>g. if refers fs w g = Some l then Some (loc fs n) else refers fs w g)"
    "trash fs (loc fs p) \<Longrightarrow> refers fs (delete_file env p w) = refers fs w \<and> (\<forall>q. \<not> trash fs q \<longrightarrow> names fs (delete_file env p w) q = names fs w q)"
    "names fs (snd (set_delete env h w)) = names fs w \<and> refers fs (snd (set_delete env h w)) = refers fs w"
    "\<not> trash fs q \<Longrightarrow> names fs (close_file env h w) q = names fs w q"
proof -
  note law = assms [unfolded name_law_def]
  note o = law [THEN conjunct1, THEN spec [of _ p], THEN spec [of _ opts], THEN spec [of _ w], THEN mp]
  show "create_mode opts = OPEN_EXISTING \<Longrightarrow> create_file_w env p opts w = (None, w') \<Longrightarrow> names fs w' = names fs w \<and> refers fs w' = refers fs w"
    "create_mode opts = OPEN_EXISTING \<Longrightarrow> create_file_w env p opts w = (Some h, w') \<Longrightarrow>
       names fs w' = names fs w \<and> refers fs w h = None \<and> (\<exists>l. opened_at fs (opens_link opts) p w l \<and> refers fs w' = (refers fs w)(h \<mapsto> l))"
    using o by simp_all
  note r = law [THEN conjunct2, THEN conjunct1, THEN spec [of _ h], THEN spec [of _ n], THEN spec [of _ w], THEN spec [of _ l], THEN spec [of _ f]]
  show "refers fs w h = Some l \<Longrightarrow> names fs w l = Some f \<Longrightarrow> \<not> is_dir fs f \<Longrightarrow> loc fs n \<noteq> l \<Longrightarrow> set_rename env h n w = (False, w') \<Longrightarrow>
       names fs w' = names fs w \<and> refers fs w' = refers fs w"
    "refers fs w h = Some l \<Longrightarrow> names fs w l = Some f \<Longrightarrow> \<not> is_dir fs f \<Longrightarrow> loc fs n \<noteq> l \<Longrightarrow> set_rename env h n w = (True, w') \<Longrightarrow>
       names fs w (loc fs n) = None \<and> names fs w' = (names fs w)(l := None, loc fs n \<mapsto> f)
       \<and> refers fs w' = (\<lambda>g. if refers fs w g = Some l then Some (loc fs n) else refers fs w g)"
    using r by simp_all
qed (use assms in \<open>auto simp: name_law_def\<close>)

lemma delete_options [simp]: "opens_link (delete_options link) \<longleftrightarrow> link" "create_mode (delete_options link) = OPEN_EXISTING"
  by (simp_all add: opens_link_def delete_options_def FILE_FLAG_OPEN_REPARSE_POINT_def FILE_FLAG_BACKUP_SEMANTICS_def)

text \<open>What is known of a path that was opened for deletion.\<close>

lemma open_deleteD:
  assumes "name_law env fs" "to_utf16 env path = Some p" "open_delete env link path w = (r, w')"
  shows "names fs w' = names fs w" "r = None \<Longrightarrow> refers fs w' = refers fs w"
    "r = Some h \<Longrightarrow> \<exists>l. opened_at fs link p w l \<and> refers fs w h = None \<and> refers fs w' = (refers fs w)(h \<mapsto> l)"
    "r = Some h \<Longrightarrow> rename_alloc env (2 * (length p + 1))"
  using assms(2,3) name_lawD(1) [OF assms(1) delete_options(2) [of link], of p w w'] name_lawD(2) [OF assms(1) delete_options(2) [of link], of p w _ w']
  by (auto simp: open_delete_def open_handle_def split: if_splits)

lemma scrub_keeps:
  assumes "name_law env fs" "\<forall>n \<in> set ns. trash fs (loc fs (pre @ n))"
  shows "refers fs (fold (\<lambda>n. delete_file env (pre @ n)) ns w) = refers fs w
    \<and> (\<forall>q. \<not> trash fs q \<longrightarrow> names fs (fold (\<lambda>n. delete_file env (pre @ n)) ns w) q = names fs w q)"
  using assms(2)
proof (induction ns arbitrary: w)
  case (Cons n ns)
  have "refers fs (delete_file env (pre @ n) w) = refers fs w"
    "\<not> trash fs q \<Longrightarrow> names fs (delete_file env (pre @ n) w) q = names fs w q" for q
    using name_lawD(5) [OF assms(1), of "pre @ n" w] Cons.prems by auto
  then show ?case using Cons by simp
qed simp

text \<open>A file that goes to the trash leaves its location free; other locations outside the trash keep their files.\<close>

lemma to_trash:
  assumes law: "name_law env fs" "trash_law ve env fs"
    and h: "refers fs w hnd = Some l" "\<not> trash fs l" "names fs w l = Some f" "\<not> is_dir fs f"
    and r: "rename_file_to_trash_from_handle ve env hnd (vols, w) = Some (ok, vols', w')"
  shows "\<forall>q. \<not> trash fs q \<longrightarrow> names fs w' q = (if ok \<and> q = l then None else names fs w q)"
    "refers fs w g \<noteq> Some l \<Longrightarrow> refers fs w' g = refers fs w g"
proof -
  have "(\<forall>q. \<not> trash fs q \<longrightarrow> names fs w' q = (if ok \<and> q = l then None else names fs w q))
      \<and> (\<forall>g. refers fs w g \<noteq> Some l \<longrightarrow> refers fs w' g = refers fs w g)"
  proof (cases "names fs w' = names fs w \<and> refers fs w' = refers fs w \<and> \<not> ok")
    case False
    obtain vol pre hi lo where pre: "volume_get_trash_prefix_u16 ve vol = Some pre"
      and sr: "set_rename env hnd (take (MAX_PATH_W32 - 1) (trash_name pre hi lo)) (scrub_user_trash_path env pre w) = (ok, w')"
      using r False by (auto simp: rename_file_to_trash_from_handle_def Let_def split: option.splits sum.splits prod.splits)
    define n where "n = take (MAX_PATH_W32 - 1) (trash_name pre hi lo)"
    define w1 where "w1 = scrub_user_trash_path env pre w"
    have tr: "\<forall>n \<in> set (find_deleted env pre w). trash fs (loc fs (pre @ n))" "trash fs (loc fs n)"
      using law(2) pre unfolding trash_law_def n_def by auto
    from scrub_keeps [OF law(1) tr(1), of w] have w1: "refers fs w1 = refers fs w" "\<And>q. \<not> trash fs q \<Longrightarrow> names fs w1 q = names fs w q"
      by (auto simp: w1_def scrub_user_trash_path_def)
    have w1h: "refers fs w1 hnd = Some l" "names fs w1 l = Some f" "loc fs n \<noteq> l" using w1 h tr(2) by auto
    note d = name_lawD(3,4) [OF law(1) w1h(1,2) h(4) w1h(3), of w']
    have "set_rename env hnd n w1 = (ok, w')" using sr by (simp add: n_def w1_def)
    then show ?thesis using d tr(2) w1 h(2) by (cases ok) auto
  qed auto
  then show "\<forall>q. \<not> trash fs q \<longrightarrow> names fs w' q = (if ok \<and> q = l then None else names fs w q)"
    "refers fs w g \<noteq> Some l \<Longrightarrow> refers fs w' g = refers fs w g" by blast+
qed

text \<open>
  A path of a file or a link that was unlinked is free at once, and no other location outside the trash is touched.
\<close>

lemma unlink_frees_path:
  assumes law: "name_law env fs" "trash_law ve env fs" and p: "to_utf16 env path = Some p" "\<not> trash fs (loc fs p)"
    and f: "\<not> pred_option (is_dir fs) (names fs w (loc fs p)) \<or> names fs w (loc fs p) = None"
    and u: "mm_unlink_win32 ve env path (vols, w) = Some (rc, vols', w')" and q: "\<not> trash fs q"
  shows "names fs w' q = (if rc = None \<and> q = loc fs p then None else names fs w q)"
proof (cases "open_delete env True path w")
  case (Pair h w1)
  note od = open_deleteD [OF law(1) p(1) Pair]
  show ?thesis
  proof (cases h)
    case None
    then show ?thesis using u Pair od(1,2) by (auto simp: mm_unlink_win32_def)
  next
    case (Some hnd)
    then obtain f where w1: "names fs w1 (loc fs p) = Some f" "\<not> is_dir fs f" "refers fs w1 hnd = Some (loc fs p)"
      using od(1,3) f by (auto simp: opened_at_def)
    obtain ok w2 where r: "rename_file_to_trash_from_handle ve env hnd (vols, w1) = Some (ok, vols', w2)"
      and rc: "rc = None \<longleftrightarrow> ok" and w': "w' = close_file env hnd (if ok then snd (set_delete env hnd w2) else w2)"
      using u Pair Some by (auto simp: mm_unlink_win32_def delete_file_from_handle_def split: option.splits prod.splits bool.splits)
    from to_trash(1) [OF law w1(3) p(2) w1(1,2) r] q rc w' show ?thesis
      using name_lawD(6) [OF law(1), of hnd w2] name_lawD(7) [OF law(1) q] od(1) by auto
  qed
qed

lemma replace_target_outcome:
  assumes law: "name_law env fs" "trash_law ve env fs"
    and rt: "replace_target ve env ho new (vols, w) = Some (ok, hn, vols', w')"
    and ho: "refers fs w ho = Some lo" "names fs w lo = Some f" "\<not> is_dir fs f"
    and paths: "\<not> trash fs lo" "\<not> trash fs (loc fs new)" "lo \<noteq> loc fs new"
    and plain: "\<forall>f. names fs w (loc fs new) = Some f \<longrightarrow> \<not> is_link fs f \<and> \<not> is_dir fs f" and q: "\<not> trash fs q"
  shows "if ok then names fs w' q = ((names fs w)(lo := None, loc fs new \<mapsto> f)) q
    else names fs w' q = names fs w q \<or> q = loc fs new \<and> names fs w' q = None"
proof (cases "create_file_w env new (delete_options False) w")
  case (Pair r w1)
  show ?thesis
  proof (cases r)
    case None
    then show ?thesis using rt Pair name_lawD(1) [OF law(1) delete_options(2) [of False], of new w w1] by (auto simp: replace_target_def)
  next
    case (Some h)
    then have o: "names fs w1 = names fs w" "refers fs w h = None" and "\<exists>l. opened_at fs False new w l \<and> refers fs w1 = (refers fs w)(h \<mapsto> l)"
      using name_lawD(2) [OF law(1) delete_options(2) [of False], of new w h w1] Pair by auto
    then obtain fn where w1: "names fs w1 (loc fs new) = Some fn" "\<not> is_dir fs fn" "refers fs w1 h = Some (loc fs new)" "refers fs w1 ho = Some lo"
      using plain ho(1) by (cases "ho = h"; cases "names fs w (loc fs new)") (auto simp: opened_at_def)
    obtain t vs w2 where t: "rename_file_to_trash_from_handle ve env h (vols, w1) = Some (t, vs, w2)"
      using rt Pair Some by (auto simp: replace_target_def split: option.splits)
    note tt = to_trash [OF law w1(3) paths(2) w1(1,2) t]
    show ?thesis
    proof (cases t)
      case False
      then show ?thesis using rt Pair Some t tt(1) q o by (auto simp: replace_target_def)
    next
      case True
      have lo: "refers fs w2 ho = Some lo" "names fs w2 lo = Some f"
        using tt(2) [of ho] tt(1) w1 paths o ho by auto
      have s2: "set_rename env ho new w2 = (ok, w')" using rt Pair Some t True by (auto simp: replace_target_def split: prod.splits)
      show ?thesis
        using name_lawD(3,4) [OF law(1) lo ho(3), of new w'] s2 tt(1) q o paths True by (cases ok) auto
    qed
  qed
qed

text \<open>
  C25. Renaming on Windows, outside the trash, of two paths for different locations that hold neither a directory nor a symbolic link
  (or nothing): when \<open>mm_rename\<close> succeeds the file of the old path is at the new path, whatever was there before, and the old path is
  free; no other location changes. When it fails the old path keeps its file and no other location changes, except that the file
  that was at the new path may be lost. (A link is followed, against the documentation: \<open>rename_follows_link\<close>.)
\<close>

theorem rename_replaces:
  assumes law: "name_law env fs" "trash_law ve env fs"
    and utf: "to_utf16 env oldpath = Some old" "to_utf16 env newpath = Some new"
    and paths: "\<not> trash fs (loc fs old)" "\<not> trash fs (loc fs new)" "loc fs old \<noteq> loc fs new"
    and plain: "\<forall>f. names fs w (loc fs old) = Some f \<or> names fs w (loc fs new) = Some f \<longrightarrow> \<not> is_link fs f \<and> \<not> is_dir fs f"
    and r: "mm_rename_win32 ve env oldpath newpath (vols, w) = Some (ok, vols', w')" and q: "\<not> trash fs q"
  shows "if ok then names fs w (loc fs old) \<noteq> None \<and> names fs w' q = ((names fs w)(loc fs old := None, loc fs new := names fs w (loc fs old))) q
    else names fs w' q = names fs w q \<or> q = loc fs new \<and> names fs w' q = None"
proof (cases "\<exists>ho w1. open_delete env False oldpath w = (Some ho, w1) \<and> rename_alloc env (2 * (length new + 1))")
  case False
  then show ?thesis using r utf open_deleteD(1) [OF law(1) utf(1)]
    by (auto simp: mm_rename_win32_def split: if_splits prod.splits option.splits)
next
  case True
  then obtain ho w1 where o: "open_delete env False oldpath w = (Some ho, w1)" and al: "rename_alloc env (2 * (length new + 1))" by blast
  note od = open_deleteD [OF law(1) utf(1) o]
  obtain f where w1: "names fs w1 = names fs w" "refers fs w1 ho = Some (loc fs old)" "names fs w (loc fs old) = Some f" "\<not> is_dir fs f"
    using od(1,3) plain by (cases "names fs w (loc fs old)") (auto simp: opened_at_def)
  then have old1: "names fs w1 (loc fs old) = Some f" by simp
  have cl: "names fs (safe_closehandle env h w) q = names fs w q" for h w
    using name_lawD(7) [OF law(1) q] by (simp add: safe_closehandle_def split: option.split)
  obtain b w2 where s1: "set_rename env ho new w1 = (b, w2)" by fastforce
  note rn1 = name_lawD(3,4) [OF law(1) w1(2) old1 w1(4), of new w2]
  show ?thesis
  proof (cases b)
    case True
    then have "ok" "names fs w' q = names fs w2 q" using r o al utf(2) s1 cl by (auto simp: mm_rename_win32_def)
    then show ?thesis using rn1(2) s1 True w1 paths(3) by auto
  next
    case False
    then have w2: "names fs w2 = names fs w" "refers fs w2 = refers fs w1" using rn1(1) s1 w1(1) paths(3) by auto
    obtain hn w3 where rt: "replace_target ve env ho new (vols, w2) = Some (ok, hn, vols', w3)" and n3: "names fs w' q = names fs w3 q"
      using r o al utf(2) s1 False cl by (auto simp: mm_rename_win32_def)
    have ho: "refers fs w2 ho = Some (loc fs old)" "names fs w2 (loc fs old) = Some f" using w2 w1 by auto
    have pl: "\<forall>f. names fs w2 (loc fs new) = Some f \<longrightarrow> \<not> is_link fs f \<and> \<not> is_dir fs f" using plain w2(1) by auto
    from replace_target_outcome [OF law rt ho w1(4) paths pl q] show ?thesis using w2(1) n3 w1(3) by auto
  qed
qed

section \<open>A concrete file system\<close>

text \<open>
  The world is the list of paths with the contents of their files and the list of open handles with the paths they stand for. A link is a
  file whose contents are \<open>@\<close> and its target, a directory one that begins with a slash. The trash is what has the mark of a deleted
  file in its name, or a name that was cut.
\<close>

type_synonym demo_fs = "(string \<times> string) list \<times> (int \<times> string) list"

definition demo_rename :: "int \<Rightarrow> string \<Rightarrow> demo_fs \<Rightarrow> bool \<times> demo_fs" where
  "demo_rename h n = (\<lambda>(ns, hs). case map_of hs h of
     None \<Rightarrow> (False, ns, hs)
   | Some p \<Rightarrow>
       (case map_of ns p of
          None \<Rightarrow> (False, ns, hs)
        | Some f \<Rightarrow>
            if map_of ns n = None
            then (True, (n, f) # filter (\<lambda>(q, _). q \<noteq> p) ns, map (\<lambda>(g, q). (g, if q = p then n else q)) hs)
            else (False, ns, hs)))"

definition demo_files :: "demo_fs file_env" where
  "demo_files = \<lparr>to_utf16 = Some, rename_alloc = (\<lambda>_. True),
     create_file_w = (\<lambda>p opts (ns, hs). case map_of ns p of
         None \<Rightarrow> (None, ns, hs)
       | Some f \<Rightarrow>
           let l = (if prefix ''@'' f \<and> \<not> opens_link opts then tl f else p); h = foldr max (map fst hs) 0 + 1
           in if map_of ns l = None then (None, ns, hs) else (Some h, ns, (h, l) # hs)),
     file_id = (\<lambda>h (ns, hs). Some (77, 0, h)), set_rename = demo_rename, set_delete = (\<lambda>_ w. (True, w)),
     find_deleted = (\<lambda>pre (ns, hs). filter (prefix ''.mmlib-'') (map (drop (length pre)) (filter (prefix pre) (map fst ns)))),
     delete_file = (\<lambda>p (ns, hs). (filter (\<lambda>(q, _). q \<noteq> p) ns, hs)),
     close_file = (\<lambda>h (ns, hs). (ns, filter (\<lambda>(g, _). g \<noteq> h) hs)), w32_error = (\<lambda>_. ERROR_ACCESS_DENIED)\<rparr>"

definition demo_trash :: "string \<Rightarrow> bool" where
  "demo_trash q \<longleftrightarrow> sublist ''.mmlib-'' q \<or> length q = MAX_PATH_W32 - 1"

definition demo_fat :: vol_env where
  "demo_fat = demo_volumes\<lparr>volume_fs_name := (\<lambda>_. Some ''FAT32'')\<rparr>"

lemma map_of_replace: "map_of (map (\<lambda>(g, q). (g, if q = p then n else q)) hs) = (\<lambda>g. if map_of hs g = Some p then Some n else map_of hs g)"
  by (induction hs) (auto simp: fun_eq_iff)

definition demo_view :: "(string, string, demo_fs) fs_view" where
  "demo_view = \<lparr>loc = (\<lambda>p. p), names = (\<lambda>(ns, _). map_of ns), refers = (\<lambda>(_, hs). map_of hs), is_link = prefix ''@'', is_dir = prefix ''/'',
     trash = demo_trash\<rparr>"

lemma demo_view_simps [simp]:
  "loc demo_view p = p" "names demo_view (ns, hs) = map_of ns" "refers demo_view (ns, hs) = map_of hs"
  "is_link demo_view = prefix ''@''" "is_dir demo_view = prefix ''/''" "trash demo_view = demo_trash"
  by (simp_all add: demo_view_def)

lemma demo_create:
  "case create_file_w demo_files p opts w of
     (None, w') \<Rightarrow> names demo_view w' = names demo_view w \<and> refers demo_view w' = refers demo_view w
   | (Some h, w') \<Rightarrow> names demo_view w' = names demo_view w \<and> refers demo_view w h = None
       \<and> (\<exists>l. opened_at demo_view (opens_link opts) p w l \<and> refers demo_view w' = (refers demo_view w)(h \<mapsto> l))"
proof -
  obtain ns hs where w: "w = (ns, hs)" by fastforce
  show ?thesis
  proof (cases "map_of ns p")
    case None
    then show ?thesis by (simp add: w demo_files_def)
  next
    case (Some f)
    then show ?thesis
      by (auto simp: w demo_files_def Let_def opened_at_def pred_option_def map_of_above_max [where b = 0])
  qed
qed

lemma demo_set_rename:
  assumes "refers demo_view w h = Some l" "names demo_view w l = Some f"
  shows "case set_rename demo_files h n w of
     (False, w') \<Rightarrow> names demo_view w' = names demo_view w \<and> refers demo_view w' = refers demo_view w
   | (True, w') \<Rightarrow> names demo_view w n = None \<and> names demo_view w' = (names demo_view w)(l := None, n \<mapsto> f)
       \<and> refers demo_view w' = (\<lambda>g. if refers demo_view w g = Some l then Some n else refers demo_view w g)"
proof -
  obtain ns hs where w: "w = (ns, hs)" by fastforce
  show ?thesis using assms by (auto simp: w demo_files_def demo_rename_def map_of_filter_neq map_of_replace)
qed

lemma demo_name_law: "name_law demo_files demo_view"
proof -
  have *: "refers demo_view (delete_file demo_files p w) = refers demo_view w"
    "demo_trash p \<Longrightarrow> \<not> demo_trash q \<Longrightarrow> names demo_view (delete_file demo_files p w) q = names demo_view w q"
    "names demo_view (snd (set_delete demo_files h w)) = names demo_view w \<and> refers demo_view (snd (set_delete demo_files h w)) = refers demo_view w"
    "names demo_view (close_file demo_files h w) q = names demo_view w q" for p h w q
    by (cases w, auto simp: demo_files_def map_of_filter_neq)+
  show ?thesis
    unfolding name_law_def demo_view_simps(1,5,6)
    by (intro conjI allI impI, rule demo_create, rule demo_set_rename, assumption, assumption) (use * in auto)
qed

lemma demo_trash_law: "trash_law demo_fat demo_files demo_view"
  unfolding trash_law_def demo_view_simps
proof (intro allI impI conjI ballI)
  fix vol pre and w :: demo_fs and name
  assume "name \<in> set (find_deleted demo_files pre w)"
  then have "prefix ''.mmlib-'' name" by (auto simp: demo_files_def split: prod.splits)
  then show "demo_trash (pre @ name)" unfolding demo_trash_def by (auto simp: sublist_append prefix_imp_sublist)
next
  fix vol pre and h l :: int
  show "demo_trash (take (MAX_PATH_W32 - 1) (trash_name pre h l))"
  proof (cases "length (trash_name pre h l) \<le> MAX_PATH_W32 - 1")
    case True
    have "sublist ''.mmlib-'' (trash_name pre h l)" unfolding trash_name_def sublist_def by metis
    then show ?thesis using True by (simp add: demo_trash_def)
  next
    case False
    then show ?thesis by (simp add: demo_trash_def)
  qed
qed

theorem rename_replaces_witness:
  "\<exists>vols w'. mm_rename_win32 demo_fat demo_files ''a'' ''b'' ([], [(''a'', ''x''), (''b'', ''y''), (''c'', ''z'')], []) = Some (True, vols, w')
    \<and> map_of (fst w') ''b'' = Some ''x'' \<and> map_of (fst w') ''a'' = None \<and> map_of (fst w') ''c'' = Some ''z''"
proof -
  let ?w = "([(''a'', ''x''), (''b'', ''y''), (''c'', ''z'')], []) :: demo_fs"
  have "map_option fst (mm_rename_win32 demo_fat demo_files ''a'' ''b'' ([], ?w)) = Some True" by code_simp
  then obtain vols w' where r: "mm_rename_win32 demo_fat demo_files ''a'' ''b'' ([], ?w) = Some (True, vols, w')" by auto
  have nt: "\<not> demo_trash [c]" for c by (simp add: demo_trash_def MAX_PATH_W32_def sublist_code)
  have u: "to_utf16 demo_files p = Some p" for p by (simp add: demo_files_def)
  have pl: "\<forall>f. names demo_view ?w (loc demo_view ''a'') = Some f \<or> names demo_view ?w (loc demo_view ''b'') = Some f
      \<longrightarrow> \<not> is_link demo_view f \<and> \<not> is_dir demo_view f" by auto
  note th = rename_replaces [OF demo_name_law demo_trash_law u u _ _ _ pl r, simplified, OF nt nt]
  from th [OF nt [of "CHR ''b''"]] th [OF nt [of "CHR ''a''"]] th [OF nt [of "CHR ''c''"]] r show ?thesis
    by (intro exI [of _ vols] exI [of _ w'], cases w') (auto split: prod.splits)
qed

section \<open>Deviations\<close>

text \<open>
  When the second attempt fails too the file that was at the new path has been moved to the trash: a failing \<open>mm_rename\<close> can lose it.
\<close>

lemma rename_loses_target:
  assumes "to_utf16 env newpath = Some new" "rename_alloc env (2 * (length new + 1))" "open_delete env False old w = (Some ho, w1)"
    and "set_rename env ho new w1 = (False, w2)" "create_file_w env new (delete_options False) w2 = (Some hn, w3)"
    and "rename_file_to_trash_from_handle ve env hn (vols, w3) = Some (True, vols', w4)" "set_rename env ho new w4 = (False, w5)"
  shows "mm_rename_win32 ve env old newpath (vols, w) = Some (False, vols', safe_closehandle env (Some hn) (safe_closehandle env (Some ho) w5))"
  using assms by (simp add: mm_rename_win32_def replace_target_def)

text \<open>A link is followed: its target is renamed, and the link stays where it was.\<close>

lemma rename_follows_link:
  "mm_rename_win32 demo_fat demo_files ''l'' ''b'' ([], [(''l'', ''@t''), (''t'', ''x'')], []) = Some (True, [], [(''b'', ''x''), (''l'', ''@t'')], [])"
  by code_simp

end
