(* ===== verification/Win_Dir.thy ===== *)
theory Win_Dir
  imports File_Remove
begin

text \<open>
  Directories on Windows (\<^verbatim>\<open>src/src/file-win32.c\<close>): the directory streams on top of \<open>FindFirstFile\<close> and \<open>FindNextFile\<close>, and the recursive
  removal that uses them. The calls of the system are parameters; \<open>utf16_len\<close> is the length of a path in UTF-16, if it is valid UTF-8, and
  names are given as they are in UTF-8. \<open>dir_errno\<close> reads the variable \<open>errno\<close> and \<open>dir_raised\<close> the last error state of the thread. The removal of a single file, \<open>mm_unlink\<close>, is modelled in \<open>Win_Trash\<close> and a
  parameter here.
\<close>

section \<open>Directory streams\<close>

definition ERROR_NO_MORE_FILES :: w32err where "ERROR_NO_MORE_FILES = W32Other 18"
definition INVALID_DIR :: int where "INVALID_DIR = - 1"
definition SIZEOF_DIRENT :: nat where "SIZEOF_DIRENT = 16"

record find_data =
  cFileName :: string
  find_attributes :: int

record mm_dirent =
  d_reclen :: nat
  d_type :: int
  d_name :: string

record mm_dirstream =
  hdir :: int
  find_first_done :: bool
  dir_entry :: "mm_dirent option"
  dirname :: string

record 'w dir_env =
  utf16_len :: "string \<Rightarrow> nat option"
  dir_alloc :: "nat \<Rightarrow> bool"
  find_first :: "string \<Rightarrow> 'w \<Rightarrow> (int \<times> find_data) option \<times> 'w"
  find_next :: "int \<Rightarrow> 'w \<Rightarrow> find_data option \<times> 'w"
  find_close :: "int \<Rightarrow> 'w \<Rightarrow> 'w"
  dir_error :: "'w \<Rightarrow> w32err"
  dir_errno :: "'w \<Rightarrow> errcode"
  dir_raised :: "'w \<Rightarrow> errcode"
  get_attrs :: "string \<Rightarrow> 'w \<Rightarrow> int option"
  wrmdir :: "string \<Rightarrow> 'w \<Rightarrow> retcode \<times> 'w"
  unlink_path :: "string \<Rightarrow> 'w \<Rightarrow> retcode \<times> 'w"

definition next_find_data :: "'w dir_env \<Rightarrow> mm_dirstream \<Rightarrow> 'w \<Rightarrow> find_data option \<times> mm_dirstream \<times> 'w" where
  "next_find_data env dir w =
     (if \<not> find_first_done dir
      then (case find_first env (dirname dir) w of
              (None, w) \<Rightarrow> (None, dir\<lparr>hdir := INVALID_DIR, find_first_done := True\<rparr>, w)
            | (Some (h, fd), w) \<Rightarrow> (Some fd, dir\<lparr>hdir := h, find_first_done := True\<rparr>, w))
      else (case find_next env (hdir dir) w of (fd, w) \<Rightarrow> (fd, dir, w)))"

text \<open>The entry is stored in a block that is allocated anew when its length changes.\<close>

definition store_dirent :: "'w dir_env \<Rightarrow> find_data \<Rightarrow> mm_dirstream \<Rightarrow> bool \<times> mm_dirstream" where
  "store_dirent env fd dir =
     (let reclen = SIZEOF_DIRENT + (length (cFileName fd) + 1);
          ent = \<lparr>d_reclen = reclen, d_type = translate_filetype (find_attributes fd), d_name = cFileName fd\<rparr>
      in if (case dir_entry dir of None \<Rightarrow> True | Some e \<Rightarrow> d_reclen e \<noteq> reclen) \<and> \<not> dir_alloc env reclen then (False, dir)
         else (True, dir\<lparr>dir_entry := Some ent\<rparr>))"

definition win32_find_file :: "'w dir_env \<Rightarrow> mm_dirstream \<Rightarrow> 'w \<Rightarrow> bool \<times> mm_dirstream \<times> 'w" where
  "win32_find_file env dir w =
     (case utf16_len env (dirname dir) of
        None \<Rightarrow> (False, dir, w)
      | Some path_u16_len \<Rightarrow>
          if \<not> dir_alloc env (2 * path_u16_len) then (False, dir, w)
          else case next_find_data env dir w of
                 (None, dir, w) \<Rightarrow> (False, dir, w)
               | (Some fd, dir, w) \<Rightarrow> (case store_dirent env fd dir of (ok, dir) \<Rightarrow> (ok, dir, w)))"

definition mm_closedir :: "'w dir_env \<Rightarrow> mm_dirstream option \<Rightarrow> 'w \<Rightarrow> 'w" where
  "mm_closedir env dir w =
     (case dir of None \<Rightarrow> w | Some d \<Rightarrow> if hdir d \<noteq> INVALID_DIR then find_close env (hdir d) w else w)"

definition mm_opendir :: "'w dir_env \<Rightarrow> string \<Rightarrow> 'w \<Rightarrow> mm_dirstream option \<times> 'w" where
  "mm_opendir env path w =
     (if \<not> dir_alloc env (24 + (length path + 3)) then (None, w)
      else let d = \<lparr>hdir = INVALID_DIR, find_first_done = False, dir_entry = None, dirname = path @ ''/*''\<rparr>
           in case win32_find_file env d w of
                (True, d, w) \<Rightarrow> (Some d, w)
              | (False, d, w) \<Rightarrow> (None, mm_closedir env (Some d) w))"

definition mm_rewinddir :: "'w dir_env \<Rightarrow> mm_dirstream option \<Rightarrow> 'w \<Rightarrow> mm_dirstream option \<times> 'w" where
  "mm_rewinddir env dir w =
     (case dir of
        None \<Rightarrow> (None, w)
      | Some d \<Rightarrow> (case win32_find_file env d (find_close env (hdir d) w) of (_, d, w) \<Rightarrow> (Some d, w)))"

text \<open>The entry, the status and the new state.\<close>

definition mm_readdir :: "'w dir_env \<Rightarrow> mm_dirstream option \<Rightarrow> 'w \<Rightarrow> mm_dirent option \<times> int \<times> mm_dirstream option \<times> 'w" where
  "mm_readdir env dir w =
     (case dir of
        None \<Rightarrow> (None, - 1, None, w)
      | Some d \<Rightarrow>
          (case win32_find_file env d w of
             (True, d, w) \<Rightarrow> (dir_entry d, 0, Some d, w)
           | (False, d, w) \<Rightarrow> (None, if dir_error env w = ERROR_NO_MORE_FILES then 0 else - 1, Some d, w)))"

section \<open>Removal\<close>

definition mm_rmdir_win32 :: "'w dir_env \<Rightarrow> string \<Rightarrow> 'w \<Rightarrow> retcode \<times> 'w" where
  "mm_rmdir_win32 env path w =
     (case utf16_len env path of
        None \<Rightarrow> (Some (get_errcode_from_w32err (dir_error env w)), w)
      | Some n \<Rightarrow> if \<not> dir_alloc env (2 * n) then (Some (get_errcode_from_w32err (dir_error env w)), w) else wrmdir env path w)"

text \<open>The allocation of the path is not checked: \<open>None\<close>.\<close>

definition win32_unlinkat :: "'w dir_env \<Rightarrow> string \<Rightarrow> string \<Rightarrow> int \<Rightarrow> 'w \<Rightarrow> (retcode \<times> 'w) option" where
  "win32_unlinkat env pre name type w =
     (let path = pre @ ''/'' @ name
      in if \<not> dir_alloc env (length path + 1) then None
         else Some (if type = MM_DT_DIR then mm_rmdir_win32 env path w else unlink_path env path w))"

definition enter_dir_win32 ::
  "(string \<Rightarrow> mm_dirstream \<Rightarrow> 'w \<Rightarrow> (bool \<times> mm_dirstream option \<times> 'w) option) \<Rightarrow> 'w dir_env \<Rightarrow> string \<Rightarrow> int \<Rightarrow> string \<Rightarrow> 'w
    \<Rightarrow> 'w entry option" where
  "enter_dir_win32 rec env pre flags name w =
     (let newdir_path = pre @ ''/'' @ name
      in if \<not> dir_alloc env (length newdir_path + 1) then Some (Leave w)
         else case mm_opendir env newdir_path w of
                (None, w) \<Rightarrow> Some (if flags AND MM_FAILONERROR \<noteq> 0 then Leave w else Skip w)
              | (Some newdir, w) \<Rightarrow>
                  map_option (\<lambda>(ok, newdir, w).
                      let w = mm_closedir env newdir w
                      in if \<not> ok \<and> flags AND MM_FAILONERROR \<noteq> 0 then Leave w else Remove w)
                    (rec newdir_path newdir w))"

partial_function (option) remove_loop_win32 ::
  "(string \<Rightarrow> mm_dirstream \<Rightarrow> 'w \<Rightarrow> (bool \<times> mm_dirstream option \<times> 'w) option) \<Rightarrow> 'w dir_env \<Rightarrow> string \<Rightarrow> int
    \<Rightarrow> mm_dirstream option \<Rightarrow> 'w \<Rightarrow> (bool \<times> mm_dirstream option \<times> 'w) option" where
  [code]: "remove_loop_win32 rec env pre flags d w =
     (let (ent, status, d, w) = mm_readdir env d w
      in if ent = None then Some (dir_error env w = ERROR_NO_MORE_FILES, d, w)
         else if status \<noteq> 0 then Some (False, d, w)
         else let type = d_type (the ent); name = d_name (the ent)
         in if type > 0 \<and> flags AND type = 0 then remove_loop_win32 rec env pre flags d w
            else if is_wildcard_directory name then remove_loop_win32 rec env pre flags d w
            else (case (if type = MM_DT_DIR then enter_dir_win32 rec env pre flags name w else Some (Remove w)) of
                    None \<Rightarrow> None
                  | Some r \<Rightarrow>
                      (case r of
                         Leave w \<Rightarrow> Some (False, d, w)
                       | Skip w \<Rightarrow> remove_loop_win32 rec env pre flags d w
                       | Remove w \<Rightarrow>
                           (case win32_unlinkat env pre name type w of
                              None \<Rightarrow> None
                            | Some q \<Rightarrow>
                                (if fst q \<noteq> None \<and> flags AND MM_FAILONERROR \<noteq> 0 then Some (False, d, snd q)
                                 else remove_loop_win32 rec env pre flags d (snd q))))))"

fun mm_remove_rec_win32 ::
  "'w dir_env \<Rightarrow> int \<Rightarrow> nat \<Rightarrow> string \<Rightarrow> mm_dirstream option \<Rightarrow> 'w \<Rightarrow> (bool \<times> mm_dirstream option \<times> 'w) option" where
  "mm_remove_rec_win32 env flags 0 pre d w = Some (False, d, w)"
| "mm_remove_rec_win32 env flags (Suc lvl) pre d w =
     remove_loop_win32 (\<lambda>pre d w. mm_remove_rec_win32 env flags lvl pre (Some d) w) env pre flags d w"

definition mm_remove_win32 :: "'w dir_env \<Rightarrow> string \<Rightarrow> int \<Rightarrow> 'w \<Rightarrow> (retcode \<times> 'w) option" where
  "mm_remove_win32 env path flags w =
     (case get_attrs env path w of
        None \<Rightarrow> Some (Some (get_errcode_from_w32err (dir_error env w)), w)
      | Some attrs \<Rightarrow>
          let type = translate_filetype attrs;
              flags = (if flags AND MM_RECURSIVE \<noteq> 0 then flags OR MM_DT_DIR else flags);
              finish = (\<lambda>w. if flags AND type = 0 then (Some EPERM, w)
                            else if type = MM_DT_DIR then mm_rmdir_win32 env path w else unlink_path env path w)
          in if flags AND MM_RECURSIVE \<noteq> 0 \<and> type = MM_DT_DIR
             then let (dir, w) = mm_opendir env path w
                  in (case mm_remove_rec_win32 env flags (Suc RECURSION_MAX) path dir w of
                        None \<Rightarrow> None
                      | Some (ok, dir, w) \<Rightarrow>
                          let w = mm_closedir env dir w
                          in Some (if \<not> ok \<and> flags AND MM_FAILONERROR = 0 then (Some (dir_errno env w), w)
                                   else if is_wildcard_directory path then (if ok then None else Some (dir_raised env w), w)
                                   else finish w))
             else Some (finish w))"

section \<open>Listing a directory\<close>

text \<open>
  What \<open>FindNextFile\<close> promises on an open search: the remaining entries in their order, then the error for their end, in every
  state that the calls go through.
\<close>

fun serves :: "'w dir_env \<Rightarrow> int \<Rightarrow> find_data list \<Rightarrow> 'w \<Rightarrow> bool" where
  "serves env h [] w = (case find_next env h w of (r, w) \<Rightarrow> r = None \<and> dir_error env w = ERROR_NO_MORE_FILES)"
| "serves env h (e # es) w = (case find_next env h w of (r, w) \<Rightarrow> r = Some e \<and> serves env h es w)"

definition dirent_of :: "find_data \<Rightarrow> mm_dirent" where
  "dirent_of fd = \<lparr>d_reclen = SIZEOF_DIRENT + (length (cFileName fd) + 1), d_type = translate_filetype (find_attributes fd), d_name = cFileName fd\<rparr>"

text \<open>\<open>n\<close> calls of \<open>mm_readdir()\<close>: what each returns, with its status.\<close>

primrec readdirs :: "'w dir_env \<Rightarrow> nat \<Rightarrow> mm_dirstream option \<Rightarrow> 'w \<Rightarrow> (mm_dirent option \<times> int) list" where
  "readdirs env 0 d w = []"
| "readdirs env (Suc n) d w = (case mm_readdir env d w of (ent, status, d, w) \<Rightarrow> (ent, status) # readdirs env n d w)"

lemma store_dirent_ok:
  "dir_alloc env = (\<lambda>_. True) \<Longrightarrow> store_dirent env fd d = (True, d\<lparr>dir_entry := Some (dirent_of fd)\<rparr>)"
  by (simp add: store_dirent_def dirent_of_def Let_def)

lemma win32_find_next:
  assumes "dir_alloc env = (\<lambda>_. True)" "utf16_len env (dirname d) = Some n" "find_first_done d"
  shows "win32_find_file env d w =
    (case find_next env (hdir d) w of
       (None, w) \<Rightarrow> (False, d, w) | (Some fd, w) \<Rightarrow> (True, d\<lparr>dir_entry := Some (dirent_of fd)\<rparr>, w))"
  using assms by (auto simp: win32_find_file_def next_find_data_def store_dirent_ok split: option.splits prod.splits)

lemma readdirs_serves:
  assumes "serves env (hdir d) es w" "dir_alloc env = (\<lambda>_. True)" "utf16_len env (dirname d) = Some n" "find_first_done d"
  shows "readdirs env (Suc (length es)) (Some d) w = map (\<lambda>e. (Some (dirent_of e), 0)) es @ [(None, 0)]"
  using assms
proof (induction es arbitrary: d w)
  case Nil
  then show ?case by (auto simp: mm_readdir_def win32_find_next split: prod.splits)
next
  case (Cons e es)
  obtain w' where w: "find_next env (hdir d) w = (Some e, w')" "serves env (hdir d) es w'"
    using Cons.prems(1) by (auto split: prod.splits)
  let ?d = "d\<lparr>dir_entry := Some (dirent_of e)\<rparr>"
  have "readdirs env (Suc (length es)) (Some ?d) w' = map (\<lambda>e. (Some (dirent_of e), 0)) es @ [(None, 0)]"
    using Cons.IH [of ?d w'] Cons.prems w(2) by simp
  moreover have "mm_readdir env (Some d) w = (Some (dirent_of e), 0, Some ?d, w')"
    using Cons.prems w(1) by (simp add: mm_readdir_def win32_find_next)
  ultimately show ?case by simp
qed

text \<open>
  A directory that can be opened is listed to its end: for a search that finds the entry \<open>e\<close> and then the entries \<open>es\<close>,
  \<open>mm_opendir()\<close> returns a stream, the calls of \<open>mm_readdir()\<close> on it return \<open>es\<close> in their order, with name and
  type, and the call after the last entry returns \<open>NULL\<close> with status 0. The entry \<open>e\<close> is consumed by \<open>mm_opendir()\<close>.
\<close>

theorem readdir_lists:
  assumes "dir_alloc env = (\<lambda>_. True)" "utf16_len env (path @ ''/*'') = Some n"
    and "find_first env (path @ ''/*'') w = (Some (h, e), w1)" "serves env h es w1"
  shows "\<exists>d. mm_opendir env path w = (Some d, w1) \<and>
     readdirs env (Suc (length es)) (Some d) w1 = map (\<lambda>e. (Some (dirent_of e), 0)) es @ [(None, 0)]"
proof -
  let ?d = "\<lparr>hdir = h, find_first_done = True, dir_entry = Some (dirent_of e), dirname = path @ ''/*''\<rparr>"
  have "mm_opendir env path w = (Some ?d, w1)"
    using assms(1-3) by (simp add: mm_opendir_def win32_find_file_def next_find_data_def store_dirent_ok)
  moreover have "readdirs env (Suc (length es)) (Some ?d) w1 = map (\<lambda>e. (Some (dirent_of e), 0)) es @ [(None, 0)]"
    using assms by (intro readdirs_serves) simp_all
  ultimately show ?thesis by blast
qed

text \<open>A world with one directory: the paths removed so far, the entries that the search has left, and the last error.\<close>

definition demo_entries :: "find_data list" where
  "demo_entries = [\<lparr>cFileName = ''..'', find_attributes = FILE_ATTRIBUTE_DIRECTORY\<rparr>, \<lparr>cFileName = ''f'', find_attributes = FILE_ATTRIBUTE_NORMAL\<rparr>]"

definition demo_dir :: "(string list \<times> find_data list \<times> w32err) dir_env" where
  "demo_dir = \<lparr>utf16_len = (\<lambda>s. Some (length s + 1)), dir_alloc = (\<lambda>_. True),
     find_first = (\<lambda>_ (log, _, e). (Some (7, \<lparr>cFileName = ''.'', find_attributes = FILE_ATTRIBUTE_DIRECTORY\<rparr>), log, demo_entries, e)),
     find_next = (\<lambda>_ (log, es, e). case es of [] \<Rightarrow> (None, log, [], ERROR_NO_MORE_FILES) | x # xs \<Rightarrow> (Some x, log, xs, e)),
     find_close = (\<lambda>_ w. w), dir_error = (\<lambda>(_, _, e). e), dir_errno = (\<lambda>_. ENOENT), dir_raised = (\<lambda>_. ENOENT),
     get_attrs = (\<lambda>_ _. Some FILE_ATTRIBUTE_DIRECTORY), wrmdir = (\<lambda>p (log, w). (None, p # log, w)),
     unlink_path = (\<lambda>p (log, w). (None, p # log, w))\<rparr>"

theorem readdir_lists_witness:
  "\<exists>d. mm_opendir demo_dir ''d'' ([], [], W32Other 0) = (Some d, [], demo_entries, W32Other 0) \<and>
     readdirs demo_dir 3 (Some d) ([], demo_entries, W32Other 0) = map (\<lambda>e. (Some (dirent_of e), 0)) demo_entries @ [(None, 0)]"
  using readdir_lists [of demo_dir "''d''" 4 "([], [], W32Other 0)" 7
      "\<lparr>cFileName = ''.'', find_attributes = FILE_ATTRIBUTE_DIRECTORY\<rparr>" "([], demo_entries, W32Other 0)" demo_entries]
  by (simp add: demo_dir_def demo_entries_def numeral_eq_Suc del: readdirs.simps)

text \<open>
  \<open>mm_rewinddir()\<close> closes the search and does not start a new one: the stream still counts as started, and the next entry is asked
  of the closed handle.
\<close>

lemma rewinddir_uses_closed_search:
  assumes "dir_alloc env = (\<lambda>_. True)" "utf16_len env (dirname d) = Some n" "find_first_done d"
    and "find_next env (hdir d) (find_close env (hdir d) w) = (None, w1)" "find_next env (hdir d) w1 = (None, w2)"
    and "dir_error env w2 \<noteq> ERROR_NO_MORE_FILES"
  shows "mm_rewinddir env (Some d) w = (Some d, w1)" "mm_readdir env (Some d) w1 = (None, - 1, Some d, w2)"
  using assms by (simp_all add: mm_rewinddir_def mm_readdir_def win32_find_next)

section \<open>What a removal can touch\<close>

definition below :: "string \<Rightarrow> string \<Rightarrow> bool" where
  "below pre p \<longleftrightarrow> (\<exists>names. names \<noteq> [] \<and> (\<forall>n \<in> set names. \<not> is_wildcard_directory n) \<and> p = pre @ concat (map (\<lambda>n. ''/'' @ n) names))"

lemma below_child: "\<not> is_wildcard_directory n \<Longrightarrow> below pre (pre @ ''/'' @ n)"
  unfolding below_def by (rule exI [of _ "[n]"]) simp

lemma below_trans: "\<not> is_wildcard_directory n \<Longrightarrow> below (pre @ ''/'' @ n) p \<Longrightarrow> below pre p"
  unfolding below_def by (elim exE conjE, rule_tac x = "n # names" in exI) simp

text \<open>A property of the world that all searches keep and that the removal of the paths in \<open>P\<close> keeps.\<close>

definition kept_by :: "'w dir_env \<Rightarrow> (string \<Rightarrow> bool) \<Rightarrow> ('w \<Rightarrow> bool) \<Rightarrow> bool" where
  "kept_by env P I \<longleftrightarrow>
     (\<forall>w. I w \<longrightarrow> (\<forall>p. I (snd (find_first env p w))) \<and> (\<forall>h. I (snd (find_next env h w)) \<and> I (find_close env h w)) \<and>
        (\<forall>p. P p \<longrightarrow> I (snd (wrmdir env p w)) \<and> I (snd (unlink_path env p w))))"

lemma kept_by_mono: "kept_by env P I \<Longrightarrow> (\<And>p. Q p \<Longrightarrow> P p) \<Longrightarrow> kept_by env Q I"
  by (simp add: kept_by_def)

lemma find_file_keeps: "kept_by env P I \<Longrightarrow> I w \<Longrightarrow> win32_find_file env d w = (ok, d', w') \<Longrightarrow> I w'"
  unfolding kept_by_def win32_find_file_def next_find_data_def
  by (auto split: option.splits prod.splits if_splits dest!: spec [of _ w]) (metis snd_conv)+

lemma closedir_keeps: "kept_by env P I \<Longrightarrow> I w \<Longrightarrow> I (mm_closedir env d w)"
  by (auto simp: kept_by_def mm_closedir_def split: option.splits)

lemma opendir_keeps: "kept_by env P I \<Longrightarrow> I w \<Longrightarrow> mm_opendir env path w = (d, w') \<Longrightarrow> I w'"
  by (auto simp: mm_opendir_def Let_def split: if_splits prod.splits bool.splits dest: find_file_keeps intro: closedir_keeps)

lemma readdir_keeps: "kept_by env P I \<Longrightarrow> I w \<Longrightarrow> mm_readdir env d w = (ent, status, d', w') \<Longrightarrow> I w'"
  by (auto simp: mm_readdir_def split: option.splits prod.splits bool.splits dest: find_file_keeps)

lemma unlinkat_keeps:
  assumes "kept_by env (below pre) I" "I w" "\<not> is_wildcard_directory name" "win32_unlinkat env pre name type w = Some (rc, w')"
  shows "I w'"
  using assms below_child [OF assms(3), of pre]
  by (auto simp: win32_unlinkat_def mm_rmdir_win32_def kept_by_def Let_def split: if_splits option.splits) (metis snd_conv)+

lemma enter_dir_keeps:
  assumes "kept_by env P I" "I w" "enter_dir_win32 rec env pre flags name w = Some r"
    and rec: "\<And>d w ok d' w'. I w \<Longrightarrow> rec (pre @ ''/'' @ name) d w = Some (ok, d', w') \<Longrightarrow> I w'"
  shows "I (case r of Leave w \<Rightarrow> w | Skip w \<Rightarrow> w | Remove w \<Rightarrow> w)"
proof -
  have inside: "I b" if "mm_opendir env (pre @ ''/'' @ name) w = (Some nd, w2)" "rec (pre @ ''/'' @ name) nd w2 = Some (ok, nd', b)" for nd w2 ok nd' b
    using rec [OF opendir_keeps [OF assms(1,2) that(1)] that(2)] .
  show ?thesis
    using assms(2,3)
    by (auto simp: enter_dir_win32_def Let_def split: if_splits prod.splits option.splits
        dest: opendir_keeps [OF assms(1)] intro!: closedir_keeps [OF assms(1)] intro: inside [simplified])
qed

definition rec_keeps ::
  "(string \<Rightarrow> mm_dirstream \<Rightarrow> 'w \<Rightarrow> (bool \<times> mm_dirstream option \<times> 'w) option) \<Rightarrow> string \<Rightarrow> ('w \<Rightarrow> bool) \<Rightarrow> bool" where
  "rec_keeps rec pre I \<longleftrightarrow>
     (\<forall>n d w ok d' w'. \<not> is_wildcard_directory n \<longrightarrow> I w \<longrightarrow> rec (pre @ ''/'' @ n) d w = Some (ok, d', w') \<longrightarrow> I w')"

lemma remove_loop_keeps:
  assumes "remove_loop_win32 rec env pre flags d w = Some y" "kept_by env (below pre) I" "I w" "rec_keeps rec pre I"
  shows "I (snd (snd y))"
proof -
  have "kept_by env (below pre) I \<longrightarrow> rec_keeps rec pre I \<longrightarrow> I w \<longrightarrow> I (snd (snd y))"
  proof (rule remove_loop_win32.raw_induct [where P = "\<lambda>rec env pre flags d w y.
        kept_by env (below pre) I \<longrightarrow> rec_keeps rec pre I \<longrightarrow> I w \<longrightarrow> I (snd (snd y))", OF _ assms(1)], intro impI, goal_cases)
    case (1 loop rec env pre flags d w y)
    obtain ent status d1 w1 where rd: "mm_readdir env d w = (ent, status, d1, w1)" by (cases "mm_readdir env d w") auto
    have w1: "I w1" using readdir_keeps [OF 1(3,5) rd] .
    have again: "I (snd (snd y))" if "loop rec env pre flags d1 w2 = Some y" "I w2" for w2
      using 1(1) that 1(3,4) by blast
    let ?t = "d_type (the ent)" and ?n = "d_name (the ent)"
    show ?case
    proof (cases "ent = None \<or> status \<noteq> 0 \<or> (?t > 0 \<and> flags AND ?t = 0) \<or> is_wildcard_directory ?n")
      case True
      then show ?thesis using 1(2) w1 again by (auto simp: rd Let_def split: if_splits)
    next
      case False
      then obtain r where r: "(if ?t = MM_DT_DIR then enter_dir_win32 rec env pre flags ?n w1 else Some (Remove w1)) = Some r"
        and y: "(case r of Leave w \<Rightarrow> Some (False, d1, w) | Skip w \<Rightarrow> loop rec env pre flags d1 w
                 | Remove w \<Rightarrow> (case win32_unlinkat env pre ?n ?t w of None \<Rightarrow> None
                   | Some q \<Rightarrow> (if fst q \<noteq> None \<and> flags AND MM_FAILONERROR \<noteq> 0 then Some (False, d1, snd q)
                                else loop rec env pre flags d1 (snd q)))) = Some y"
        using 1(2) by (simp only: rd Let_def prod.case if_False de_Morgan_disj not_not option.case split: option.splits) auto
      have "I (case r of Leave w \<Rightarrow> w | Skip w \<Rightarrow> w | Remove w \<Rightarrow> w)"
      proof (cases "?t = MM_DT_DIR")
        case True
        then show ?thesis
          using enter_dir_keeps [OF 1(3) w1, of rec pre flags ?n r] r False 1(4) unfolding rec_keeps_def by simp blast
      qed (use r w1 in auto)
      then show ?thesis
        using y False again unlinkat_keeps [OF 1(3), of _ ?n ?t]
        by (cases r) (auto split: option.splits if_splits)
    qed
  qed
  with assms show ?thesis by blast
qed

lemma remove_rec_keeps:
  "mm_remove_rec_win32 env flags lvl pre d w = Some (ok, d', w') \<Longrightarrow> kept_by env (below pre) I \<Longrightarrow> I w \<Longrightarrow> I w'"
proof (induction env flags lvl pre d w arbitrary: ok d' w' rule: mm_remove_rec_win32.induct)
  case (2 env flags lvl pre d w)
  have "rec_keeps (\<lambda>pre d w. mm_remove_rec_win32 env flags lvl pre (Some d) w) pre I"
    unfolding rec_keeps_def by (blast intro: "2.IH" kept_by_mono [OF "2.prems"(2)] below_trans)
  from remove_loop_keeps [OF _ "2.prems"(2,3) this, of flags d "(ok, d', w')"] show ?case using "2.prems"(1) by simp
qed simp

text \<open>
  C26. A recursive removal changes nothing outside of the directory: a property of the world that the searches keep, and that the
  removal of the path itself and of paths below it keeps, holds after \<open>mm_remove()\<close> if it held before, whatever the flags, the
  contents of the directories and the errors on the way. The entries \<open>.\<close> and \<open>..\<close> are never removed and never entered.
\<close>

theorem remove_stays_below:
  assumes "kept_by env (\<lambda>p. p = path \<or> below path p) I" "I w" "mm_remove_win32 env path flags w = Some (rc, w')"
  shows "I w'"
proof -
  have finish: "I (snd (if c then (Some EPERM, v) else if t then mm_rmdir_win32 env path v else unlink_path env path v))"
    if "I v" for c t v
    using assms(1) that by (auto simp: kept_by_def mm_rmdir_win32_def split: option.splits)
  have inside: "I (mm_closedir env d2 w2)"
    if "mm_opendir env path w = (d1, w1)" "mm_remove_rec_win32 env fl (Suc RECURSION_MAX) path d1 w1 = Some (ok, d2, w2)" for d1 w1 fl ok d2 w2
  proof -
    have "kept_by env (below path) I" using kept_by_mono [OF assms(1)] by simp
    from remove_rec_keeps [OF that(2) this opendir_keeps [OF this assms(2) that(1)]] show ?thesis by (rule closedir_keeps [OF assms(1)])
  qed
  show ?thesis
    using assms(2,3) inside finish [of _ True True] finish [of _ False True] finish [of _ False False]
    by (auto simp: mm_remove_win32_def Let_def simp del: mm_remove_rec_win32.simps split: option.splits if_splits prod.splits)
      (metis snd_conv)+
qed

theorem remove_stays_below_witness:
  "kept_by demo_dir (\<lambda>p. p = ''d'' \<or> below ''d'' p) (\<lambda>(log, _). list_all (\<lambda>p. p = ''d'' \<or> below ''d'' p) log) \<and>
   mm_remove_win32 demo_dir ''d'' (MM_RECURSIVE OR MM_DT_REG) ([], [], W32Other 0) = Some (None, [''d'', ''d/f''], [], ERROR_NO_MORE_FILES) \<and>
   list_all (\<lambda>p. p = ''d'' \<or> below ''d'' p) [''d'', ''d/f'']"
proof -
  have k: "kept_by demo_dir (\<lambda>p. p = ''d'' \<or> below ''d'' p) (\<lambda>(log, _). list_all (\<lambda>p. p = ''d'' \<or> below ''d'' p) log)"
    by (auto simp: kept_by_def demo_dir_def split: list.splits)
  have r: "mm_remove_win32 demo_dir ''d'' (MM_RECURSIVE OR MM_DT_REG) ([], [], W32Other 0) = Some (None, [''d'', ''d/f''], [], ERROR_NO_MORE_FILES)"
    by code_simp
  show ?thesis using k r remove_stays_below [OF k _ r] by simp
qed

end
