(* ===== verification/Thread_Once.thy ===== *)
theory Thread_Once
  imports Main "HOL-Library.Multiset"
begin

text \<open>
  One-time initialisation on Windows (\<^verbatim>\<open>src/src/thread-win32.c\<close>): \<open>mm_thr_once\<close> tests the control word without a lock and
  \<open>once_run_init\<close> runs the routine under one lock for all controls, which a thread that owns it already does not take again. Any
  number of threads interleave at their accesses to the shared variables; memory is sequentially consistent. A control is given by a number, the
  routine of a control \<open>c\<close> is caller code: \<open>calls c\<close> lists the controls that it passes to \<open>mm_thr_once\<close> itself.
\<close>

section \<open>The threads and their steps\<close>

text \<open>Where a call of \<open>mm_thr_once\<close> is; \<open>Routine ds\<close> is inside of \<open>once_routine\<close>, which still makes the calls \<open>ds\<close>.\<close>

datatype once_pc = Call | ReadOwner | Acquire | SetOwner | Incr | Test | SetOnce | Routine "nat list" | Decr | ClearOwner | Release

type_synonym once_frame = "nat \<times> once_pc"

text \<open>
  \<open>once_done\<close> says that the control word is not \<open>MM_THR_ONCE_INIT\<close>. A thread has a stack of calls, the innermost first, and the calls
  it still makes. The routines that were started and that have returned are recorded, the latest first.
\<close>

record once_sys =
  once_done :: "nat \<Rightarrow> bool"
  once_global_lock :: "nat option"
  global_lock_owner :: nat
  global_lock_recursion_level :: nat
  frames :: "nat \<Rightarrow> once_frame list"
  todo :: "nat \<Rightarrow> nat list"
  started :: "nat list"
  finished :: "nat list"

definition set_frames :: "nat \<Rightarrow> once_frame list \<Rightarrow> once_sys \<Rightarrow> once_sys" where
  "set_frames t fs s = s\<lparr>frames := (frames s)(t := fs)\<rparr>"

text \<open>A step of a call inside of \<open>once_run_init\<close>; \<open>None\<close> when the thread has to wait for the lock.\<close>

fun once_run_init :: "(nat \<Rightarrow> nat list) \<Rightarrow> nat \<Rightarrow> nat \<Rightarrow> once_pc \<Rightarrow> once_frame list \<Rightarrow> once_sys \<Rightarrow> once_sys option" where
  "once_run_init calls tid once ReadOwner fs s =
     Some (set_frames tid ((once, if global_lock_owner s \<noteq> tid then Acquire else Incr) # fs) s)"
| "once_run_init calls tid once Acquire fs s =
     (if once_global_lock s = None then Some (set_frames tid ((once, SetOwner) # fs) (s\<lparr>once_global_lock := Some tid\<rparr>)) else None)"
| "once_run_init calls tid once SetOwner fs s = Some (set_frames tid ((once, Incr) # fs) (s\<lparr>global_lock_owner := tid\<rparr>))"
| "once_run_init calls tid once Incr fs s =
     Some (set_frames tid ((once, Test) # fs) (s\<lparr>global_lock_recursion_level := global_lock_recursion_level s + 1\<rparr>))"
| "once_run_init calls tid once Test fs s = Some (set_frames tid ((once, if once_done s once then Decr else SetOnce) # fs) s)"
| "once_run_init calls tid once SetOnce fs s =
     Some (set_frames tid ((once, Routine (calls once)) # fs)
       (s\<lparr>once_done := (once_done s)(once := True), started := once # started s\<rparr>))"
| "once_run_init calls tid once (Routine []) fs s = Some (set_frames tid ((once, Decr) # fs) (s\<lparr>finished := once # finished s\<rparr>))"
| "once_run_init calls tid once (Routine (d # ds)) fs s = Some (set_frames tid ((d, Call) # (once, Routine ds) # fs) s)"
| "once_run_init calls tid once Decr fs s =
     (let level = global_lock_recursion_level s - 1
      in Some (set_frames tid (if level = 0 then (once, ClearOwner) # fs else fs) (s\<lparr>global_lock_recursion_level := level\<rparr>)))"
| "once_run_init calls tid once ClearOwner fs s = Some (set_frames tid ((once, Release) # fs) (s\<lparr>global_lock_owner := 0\<rparr>))"
| "once_run_init calls tid once Release fs s = Some (set_frames tid fs (s\<lparr>once_global_lock := None\<rparr>))"
| "once_run_init calls tid once Call fs s = None"

definition mm_thr_once :: "(nat \<Rightarrow> nat list) \<Rightarrow> nat \<Rightarrow> nat \<Rightarrow> once_pc \<Rightarrow> once_frame list \<Rightarrow> once_sys \<Rightarrow> once_sys option" where
  "mm_thr_once calls tid once pc fs s =
     (if pc = Call then Some (set_frames tid (if once_done s once then fs else (once, ReadOwner) # fs) s)
      else once_run_init calls tid once pc fs s)"

definition once_step :: "(nat \<Rightarrow> nat list) \<Rightarrow> nat \<Rightarrow> once_sys \<Rightarrow> once_sys option" where
  "once_step calls t s =
     (case frames s t of
        [] \<Rightarrow> (case todo s t of [] \<Rightarrow> None | c # cs \<Rightarrow> Some (set_frames t [(c, Call)] (s\<lparr>todo := (todo s)(t := cs)\<rparr>)))
      | (c, pc) # fs \<Rightarrow> mm_thr_once calls t c pc fs s)"

definition once_init :: "(nat \<Rightarrow> nat list) \<Rightarrow> once_sys" where
  "once_init prog = \<lparr>once_done = (\<lambda>_. False), once_global_lock = None, global_lock_owner = 0, global_lock_recursion_level = 0,
     frames = (\<lambda>_. []), todo = prog, started = [], finished = []\<rparr>"

text \<open>The states after \<open>n\<close> steps of the threads in \<open>T\<close>, in any order.\<close>

inductive once_reach :: "(nat \<Rightarrow> nat list) \<Rightarrow> nat set \<Rightarrow> (nat \<Rightarrow> nat list) \<Rightarrow> nat \<Rightarrow> once_sys \<Rightarrow> bool" for calls T prog where
  once_reach_init: "once_reach calls T prog 0 (once_init prog)"
| once_reach_step: "once_reach calls T prog n s \<Longrightarrow> t \<in> T \<Longrightarrow> once_step calls t s = Some s' \<Longrightarrow> once_reach calls T prog (Suc n) s'"

section \<open>The invariant\<close>

fun is_routine :: "once_frame \<Rightarrow> bool" where
  "is_routine (c, Routine ds) = True"
| "is_routine _ = False"

definition routines :: "once_frame list \<Rightarrow> nat multiset" where
  "routines fs = mset (map fst (filter is_routine fs))"

text \<open>A thread that does not own the lock is in no call, or has not yet taken the lock in a call.\<close>

definition free_shape :: "once_frame list \<Rightarrow> bool" where
  "free_shape fs \<longleftrightarrow> fs = [] \<or> (\<exists>c. fs = [(c, Call)] \<or> fs = [(c, ReadOwner)] \<or> fs = [(c, Acquire)])"

text \<open>The owner of the lock: its outer calls are inside of their routines, and the level counts the calls that have counted themselves.\<close>

fun holder_shape :: "once_sys \<Rightarrow> nat \<Rightarrow> once_frame list \<Rightarrow> bool" where
  "holder_shape s t [] = False"
| "holder_shape s t ((c, pc) # fs) =
     (list_all is_routine fs \<and> list_all (\<lambda>(c, _). once_done s c) fs \<and>
      global_lock_recursion_level s = length fs + (case pc of Test \<Rightarrow> 1 | SetOnce \<Rightarrow> 1 | Routine _ \<Rightarrow> 1 | Decr \<Rightarrow> 1 | _ \<Rightarrow> 0) \<and>
      global_lock_owner s = (if pc \<in> {SetOwner, Release} then 0 else t) \<and>
      (case pc of Call \<Rightarrow> fs \<noteq> [] | ReadOwner \<Rightarrow> fs \<noteq> [] | Acquire \<Rightarrow> False | SetOwner \<Rightarrow> fs = [] | Incr \<Rightarrow> True | Test \<Rightarrow> True
       | SetOnce \<Rightarrow> \<not> once_done s c | Routine _ \<Rightarrow> once_done s c | Decr \<Rightarrow> once_done s c
       | ClearOwner \<Rightarrow> fs = [] \<and> once_done s c | Release \<Rightarrow> fs = [] \<and> once_done s c))"

definition lock_inv :: "once_sys \<Rightarrow> bool" where
  "lock_inv s \<longleftrightarrow>
     (case once_global_lock s of
        None \<Rightarrow> global_lock_owner s = 0 \<and> global_lock_recursion_level s = 0 \<and> (\<forall>t. free_shape (frames s t)) \<and> mset (started s) = mset (finished s)
      | Some h \<Rightarrow> h \<noteq> 0 \<and> holder_shape s h (frames s h) \<and> (\<forall>t. t \<noteq> h \<longrightarrow> free_shape (frames s t))
          \<and> mset (started s) = mset (finished s) + routines (frames s h))"

definition once_inv :: "once_sys \<Rightarrow> bool" where
  "once_inv s \<longleftrightarrow> lock_inv s \<and> distinct (started s) \<and> (\<forall>c. once_done s c \<longleftrightarrow> c \<in> set (started s))"

lemma routines_simps [simp]:
  "routines [] = {#}" "routines ((c, Routine ds) # fs) = add_mset c (routines fs)"
  "\<not> is_routine f \<Longrightarrow> routines (f # fs) = routines fs"
  by (simp_all add: routines_def)

lemma free_no_routine: "free_shape fs \<Longrightarrow> routines fs = {#}"
  by (auto simp: free_shape_def)

lemma free_shape_Nil [simp]: "free_shape []"
  by (simp add: free_shape_def)

lemma free_shape_Cons [simp]: "free_shape ((c, pc) # fs) \<longleftrightarrow> fs = [] \<and> pc \<in> {Call, ReadOwner, Acquire}"
  by (auto simp: free_shape_def)

lemma holder_shape_frames [simp]:
  "holder_shape (s\<lparr>frames := x\<rparr>) t fs = holder_shape s t fs" "holder_shape (s\<lparr>todo := y\<rparr>) t fs = holder_shape s t fs"
  "holder_shape (s\<lparr>once_global_lock := l\<rparr>) t fs = holder_shape s t fs" "holder_shape (s\<lparr>finished := z\<rparr>) t fs = holder_shape s t fs"
  by (induction s t fs rule: holder_shape.induct) (simp_all cong: once_pc.case_cong)

lemma once_init_inv: "once_inv (once_init prog)"
  by (simp add: once_inv_def lock_inv_def once_init_def free_shape_def)

lemma once_inv_free: "once_inv s \<Longrightarrow> once_global_lock s \<noteq> Some t \<Longrightarrow> free_shape (frames s t)"
  by (auto simp: once_inv_def lock_inv_def split: option.splits)

lemma once_inv_holder:
  "once_inv s \<Longrightarrow> once_global_lock s = Some t \<Longrightarrow> holder_shape s t (frames s t) \<and> t \<noteq> 0 \<and> mset (started s) = mset (finished s) + routines (frames s t)"
  by (auto simp: once_inv_def lock_inv_def)

text \<open>A step of a thread that does not own the lock.\<close>

lemma free_step_inv:
  assumes "once_inv s" "once_step calls t s = Some s'" "once_global_lock s \<noteq> Some t" "t \<noteq> 0"
  shows "once_inv s'"
proof (cases "frames s t")
  case Nil
  with assms show ?thesis
    by (auto simp: once_step_def set_frames_def once_inv_def lock_inv_def split: list.splits option.splits)
next
  case (Cons f fs)
  obtain c pc where f: "f = (c, pc)" by (cases f)
  have free: "free_shape ((c, pc) # fs)" using once_inv_free [OF assms(1,3)] Cons f by simp
  then have "fs = []" "pc \<in> {Call, ReadOwner, Acquire}" by (simp_all add: free_shape_Cons)
  have own: "global_lock_owner s \<noteq> t"
    using assms by (cases "once_global_lock s") (auto simp: once_inv_def lock_inv_def elim!: holder_shape.elims split: if_splits)
  show ?thesis
  using assms own \<open>fs = []\<close> \<open>pc \<in> _\<close> Cons f
    by (auto simp: once_step_def mm_thr_once_def set_frames_def once_inv_def lock_inv_def free_shape_Cons split: option.splits if_splits)
qed

text \<open>A step of the owner of the lock.\<close>

lemma holder_shape_return:
  assumes "list_all is_routine fs" "list_all (\<lambda>(c, _). once_done s c) fs" "fs \<noteq> []"
    and "global_lock_recursion_level s = length fs" "global_lock_owner s = t"
  shows "holder_shape s t fs"
proof -
  obtain c ds gs where "fs = (c, Routine ds) # gs"
    using assms(1,3) by (cases fs) (auto elim!: is_routine.elims(2))
  with assms show ?thesis by simp
qed

lemma holder_step_inv:
  assumes "once_inv s" "once_step calls t s = Some s'" "once_global_lock s = Some t"
  shows "once_inv s'"
proof -
  note h = once_inv_holder [OF assms(1,3)]
  have others: "free_shape (frames s u)" if "u \<noteq> t" for u using once_inv_free [OF assms(1), of u] assms(3) that by simp
  obtain c pc fs where fr: "frames s t = (c, pc) # fs" using h by (cases "frames s t") auto
  have shape: "holder_shape s t ((c, pc) # fs)" and t: "t \<noteq> 0" and m: "mset (started s) = mset (finished s) + routines ((c, pc) # fs)"
    using h fr by simp_all
  have st: "mm_thr_once calls t c pc fs s = Some s'" using assms(2) fr by (simp add: once_step_def)
  have dn: "distinct (started s)" "\<And>c. once_done s c \<longleftrightarrow> c \<in> set (started s)" using assms(1) by (simp_all add: once_inv_def)
  show ?thesis
  proof (cases pc)
    case Call
    show ?thesis
      using shape t m st dn others assms(3) Call holder_shape_return [of fs s t]
      by (auto simp: mm_thr_once_def set_frames_def once_inv_def lock_inv_def)
  next
    case SetOnce
    have "list_all (\<lambda>(d, _). ((once_done s)(c := True)) d) fs" using shape by (auto simp: list_all_iff)
    then show ?thesis
      using shape t m st dn others assms(3) SetOnce
      by (auto simp: mm_thr_once_def set_frames_def once_inv_def lock_inv_def simp del: fun_upd_apply) (auto simp: fun_upd_apply split: if_splits)
  next
    case (Routine ds)
    show ?thesis
      using shape t m st dn others assms(3) Routine
      by (cases ds) (auto simp: mm_thr_once_def set_frames_def once_inv_def lock_inv_def)
  next
    case Decr
    show ?thesis
      using shape t m st dn others assms(3) Decr holder_shape_return [of fs "s\<lparr>global_lock_recursion_level := length fs\<rparr>" t]
      by (cases "fs = []") (auto simp: mm_thr_once_def set_frames_def once_inv_def lock_inv_def Let_def)
  qed (use shape t m st dn others assms(3) in \<open>auto simp: mm_thr_once_def set_frames_def once_inv_def lock_inv_def\<close>)
qed

theorem once_reach_inv:
  assumes "once_reach calls T prog n s" "0 \<notin> T"
  shows "once_inv s"
  using assms
proof (induction rule: once_reach.induct)
  case (once_reach_step n s t s')
  then have "once_inv s" "t \<noteq> 0" by metis+
  then show ?case using once_reach_step.hyps free_step_inv holder_step_inv by (cases "once_global_lock s = Some t") blast+
qed (rule once_init_inv)

section \<open>Progress\<close>

text \<open>The owner of the lock can always go on; without an owner every thread that has something to do can.\<close>

lemma once_step_enabled:
  assumes "once_inv s" "frames s t \<noteq> [] \<or> todo s t \<noteq> []" "once_global_lock s = None \<or> once_global_lock s = Some t"
  shows "once_step calls t s \<noteq> None"
proof (cases "frames s t")
  case (Cons f fs)
  obtain c pc where f: "f = (c, pc)" by (cases f)
  have "pc = Acquire \<Longrightarrow> once_global_lock s = None" using once_inv_holder [OF assms(1)] assms(3) Cons f by auto
  then show ?thesis using Cons f by (cases "(calls, t, c, pc, fs, s)" rule: once_run_init.cases) (auto simp: once_step_def mm_thr_once_def Let_def)
qed (use assms(2) in \<open>auto simp: once_step_def split: list.splits\<close>)

lemma once_progress:
  assumes "once_inv s" "frames s t \<noteq> [] \<or> todo s t \<noteq> []" "t \<in> T" "\<forall>u. frames s u \<noteq> [] \<longrightarrow> u \<in> T"
  shows "\<exists>u \<in> T. once_step calls u s \<noteq> None"
proof (cases "once_global_lock s")
  case (Some h)
  then have "frames s h \<noteq> []" using once_inv_holder [OF assms(1) Some] by auto
  then show ?thesis using once_step_enabled [OF assms(1)] Some assms(4) by blast
qed (use once_step_enabled [OF assms(1,2)] assms(3) in blast)

section \<open>Termination\<close>

text \<open>The work that is left: a bound for the steps of the calls, and of the calls that routines make that have not run yet.\<close>

fun pc_work :: "once_pc \<Rightarrow> nat" where
  "pc_work Call = 12"
| "pc_work ReadOwner = 11"
| "pc_work Acquire = 10"
| "pc_work SetOwner = 9"
| "pc_work Incr = 8"
| "pc_work Test = 7"
| "pc_work SetOnce = 6"
| "pc_work (Routine ds) = 4 + 13 * length ds"
| "pc_work Decr = 3"
| "pc_work ClearOwner = 2"
| "pc_work Release = 1"

definition thread_work :: "once_sys \<Rightarrow> nat \<Rightarrow> nat" where
  "thread_work s t = 13 * length (todo s t) + sum_list (map (pc_work \<circ> snd) (frames s t))"

definition routine_work :: "(nat \<Rightarrow> nat list) \<Rightarrow> nat set \<Rightarrow> once_sys \<Rightarrow> nat" where
  "routine_work calls C s = (\<Sum>c \<in> {c \<in> C. \<not> once_done s c}. 13 * length (calls c))"

definition once_work :: "(nat \<Rightarrow> nat list) \<Rightarrow> nat set \<Rightarrow> nat set \<Rightarrow> once_sys \<Rightarrow> nat" where
  "once_work calls T C s = (\<Sum>t \<in> T. thread_work s t) + routine_work calls C s"

text \<open>The controls in use are those of \<open>C\<close>, only threads of \<open>T\<close> have calls, and no call of the programs is forgotten.\<close>

definition frame_in :: "nat set \<Rightarrow> once_frame \<Rightarrow> bool" where
  "frame_in C = (\<lambda>(c, pc). c \<in> C \<and> (case pc of Routine ds \<Rightarrow> set ds \<subseteq> C | _ \<Rightarrow> True))"

definition calls_inv :: "nat set \<Rightarrow> nat set \<Rightarrow> (nat \<Rightarrow> nat list) \<Rightarrow> once_sys \<Rightarrow> bool" where
  "calls_inv T C prog s \<longleftrightarrow>
     (\<forall>t. list_all (frame_in C) (frames s t) \<and> (t \<in> T \<longrightarrow> set (todo s t) \<subseteq> C) \<and> (t \<notin> T \<longrightarrow> frames s t = []) \<and>
          set (prog t) \<subseteq> set (todo s t) \<union> {c. once_done s c} \<union> fst ` set (frames s t))"

lemma routine_work_start:
  assumes "finite C" "c \<in> C" "\<not> once_done s c"
  shows "routine_work calls C s = 13 * length (calls c) + (\<Sum>d \<in> {d \<in> C. d \<noteq> c \<and> \<not> once_done s d}. 13 * length (calls d))"
proof -
  have "{d \<in> C. \<not> once_done s d} - {c} = {d \<in> C. d \<noteq> c \<and> \<not> once_done s d}" by auto
  with sum.remove [of "{d \<in> C. \<not> once_done s d}" c "\<lambda>c. 13 * length (calls c)"] assms show ?thesis
    by (simp add: routine_work_def)
qed

text \<open>What one step does to the calls of its thread, and to the work.\<close>

lemma once_inv_pc:
  assumes "once_inv s" "frames s t = (c, pc) # fs"
  shows "pc = SetOnce \<Longrightarrow> \<not> once_done s c" "pc \<in> {Decr, Release} \<Longrightarrow> once_done s c"
    "pc = Decr \<Longrightarrow> global_lock_recursion_level s = Suc (length fs)"
  using once_inv_holder [OF assms(1), of t] once_inv_free [OF assms(1), of t] assms(2)
  by (cases "once_global_lock s = Some t"; auto)+

lemma once_step_work:
  assumes "once_inv s" "once_step calls t s = Some s'" "finite C" "list_all (frame_in C) (frames s t)"
  shows "thread_work s' t + routine_work calls C s' < thread_work s t + routine_work calls C s"
proof (cases "frames s t")
  case Nil
  with assms(2) show ?thesis by (auto simp: once_step_def set_frames_def thread_work_def routine_work_def split: list.splits)
next
  case (Cons f fs)
  obtain c pc where f: "f = (c, pc)" by (cases f)
  note pc = once_inv_pc [OF assms(1) Cons [unfolded f]]
  have st: "mm_thr_once calls t c pc fs s = Some s'" using assms(2) Cons f by (simp add: once_step_def)
  have c: "c \<in> C" using assms(4) Cons f by (simp add: frame_in_def)
  show ?thesis
  proof (cases "pc = SetOnce")
    case True
    then have "once_done s' = (once_done s)(c := True)" using st by (auto simp: mm_thr_once_def set_frames_def)
    then have "routine_work calls C s' = (\<Sum>d \<in> {d \<in> C. d \<noteq> c \<and> \<not> once_done s d}. 13 * length (calls d))"
      unfolding routine_work_def by (intro sum.cong) auto
    then show ?thesis
      using st True Cons f routine_work_start [OF assms(3) c pc(1) [OF True], of calls]
      by (auto simp: mm_thr_once_def set_frames_def thread_work_def)
  next
    case False
    then show ?thesis
      using st Cons f
      by (cases "(calls, t, c, pc, fs, s)" rule: once_run_init.cases)
        (auto simp: mm_thr_once_def set_frames_def thread_work_def routine_work_def Let_def split: if_splits)
  qed
qed

lemma once_step_frame: "once_step calls t s = Some s' \<Longrightarrow> u \<noteq> t \<Longrightarrow> frames s' u = frames s u \<and> todo s' u = todo s u"
  by (cases "frames s t"; cases "(calls, t, fst (hd (frames s t)), snd (hd (frames s t)), tl (frames s t), s)" rule: once_run_init.cases)
    (auto simp: once_step_def mm_thr_once_def set_frames_def Let_def split: list.splits if_splits)

lemma once_step_done: "once_step calls t s = Some s' \<Longrightarrow> once_done s c \<Longrightarrow> once_done s' c"
  by (cases "frames s t"; cases "(calls, t, fst (hd (frames s t)), snd (hd (frames s t)), tl (frames s t), s)" rule: once_run_init.cases)
    (auto simp: once_step_def mm_thr_once_def set_frames_def Let_def split: list.splits if_splits)

lemma once_step_calls:
  assumes "once_inv s" "once_step calls t s = Some s'" "list_all (frame_in C) (frames s t)" "set (todo s t) \<subseteq> C" "\<forall>c \<in> C. set (calls c) \<subseteq> C"
  shows "list_all (frame_in C) (frames s' t) \<and> set (todo s' t) \<subseteq> C \<and>
    set (todo s t) \<union> {c. once_done s c} \<union> fst ` set (frames s t) \<subseteq> set (todo s' t) \<union> {c. once_done s' c} \<union> fst ` set (frames s' t)"
proof (cases "frames s t")
  case Nil
  with assms show ?thesis by (auto simp: once_step_def set_frames_def frame_in_def split: list.splits)
next
  case (Cons f fs)
  obtain c pc where f: "f = (c, pc)" by (cases f)
  note pc = once_inv_pc [OF assms(1) Cons [unfolded f]]
  have st: "mm_thr_once calls t c pc fs s = Some s'" using assms(2) Cons f by (simp add: once_step_def)
  show ?thesis
    using st assms(3,4,5) Cons f pc
    by (cases "(calls, t, c, pc, fs, s)" rule: once_run_init.cases)
      (auto simp: mm_thr_once_def set_frames_def frame_in_def Let_def split: if_splits)
qed

lemma calls_inv_init: "\<forall>t \<in> T. set (prog t) \<subseteq> C \<Longrightarrow> calls_inv T C prog (once_init prog)"
  by (auto simp: calls_inv_def once_init_def)

lemma calls_inv_step:
  assumes "once_inv s" "calls_inv T C prog s" "once_step calls t s = Some s'" "t \<in> T" "\<forall>c \<in> C. set (calls c) \<subseteq> C"
  shows "calls_inv T C prog s'"
  unfolding calls_inv_def
proof
  fix u
  have inv: "list_all (frame_in C) (frames s u) \<and> (u \<in> T \<longrightarrow> set (todo s u) \<subseteq> C) \<and> (u \<notin> T \<longrightarrow> frames s u = []) \<and>
      set (prog u) \<subseteq> set (todo s u) \<union> {c. once_done s c} \<union> fst ` set (frames s u)"
    using assms(2) unfolding calls_inv_def by blast
  show "list_all (frame_in C) (frames s' u) \<and> (u \<in> T \<longrightarrow> set (todo s' u) \<subseteq> C) \<and> (u \<notin> T \<longrightarrow> frames s' u = []) \<and>
      set (prog u) \<subseteq> set (todo s' u) \<union> {c. once_done s' c} \<union> fst ` set (frames s' u)"
  proof (cases "u = t")
    case True
    have a: "list_all (frame_in C) (frames s t)" "set (todo s t) \<subseteq> C" using inv True assms(4) by simp_all
    have b: "set (prog t) \<subseteq> set (todo s t) \<union> {c. once_done s c} \<union> fst ` set (frames s t)" using inv True by simp
    note st = once_step_calls [OF assms(1,3) a assms(5)]
    show ?thesis using st subset_trans [OF b] True assms(4) by simp
  next
    case False
    have "{c. once_done s c} \<subseteq> {c. once_done s' c}" using once_step_done [OF assms(3)] by blast
    then show ?thesis using inv once_step_frame [OF assms(3) False] by auto
  qed
qed

lemma once_work_step:
  assumes "once_inv s" "calls_inv T C prog s" "once_step calls t s = Some s'" "t \<in> T" "finite T" "finite C"
  shows "once_work calls T C s' < once_work calls T C s"
proof -
  have "(\<Sum>u \<in> T - {t}. thread_work s' u) = (\<Sum>u \<in> T - {t}. thread_work s u)"
    using once_step_frame [OF assms(3)] by (intro sum.cong) (auto simp: thread_work_def)
  moreover have "thread_work s' t + routine_work calls C s' < thread_work s t + routine_work calls C s"
    using once_step_work [OF assms(1,3,6)] assms(2) unfolding calls_inv_def by blast
  ultimately show ?thesis
    unfolding once_work_def sum.remove [OF assms(5,4), of "thread_work s"] sum.remove [OF assms(5,4), of "thread_work s'"] by simp
qed

lemma once_reach_calls:
  assumes "once_reach calls T prog n s" "0 \<notin> T" "finite T" "finite C" "\<forall>t \<in> T. set (prog t) \<subseteq> C" "\<forall>c \<in> C. set (calls c) \<subseteq> C"
  shows "calls_inv T C prog s \<and> n + once_work calls T C s \<le> once_work calls T C (once_init prog)"
  using assms(1)
proof (induction rule: once_reach.induct)
  case once_reach_init
  then show ?case using calls_inv_init [OF assms(5)] by simp
next
  case (once_reach_step n s t s')
  have inv: "once_inv s" using once_reach_inv [OF once_reach_step.hyps(1) assms(2)] .
  have c: "calls_inv T C prog s" using once_reach_step.IH by simp
  show ?case
    using calls_inv_step [OF inv c once_reach_step.hyps(3,2) assms(6)]
      once_work_step [OF inv c once_reach_step.hyps(3,2) assms(3,4)] once_reach_step.IH by simp
qed

section \<open>Properties\<close>

definition running :: "once_sys \<Rightarrow> nat list" where
  "running s = (case once_global_lock s of None \<Rightarrow> [] | Some h \<Rightarrow> map fst (filter is_routine (frames s h)))"

lemma once_inv_running: "once_inv s \<Longrightarrow> mset (started s) = mset (finished s @ running s)"
  by (auto simp: once_inv_def lock_inv_def running_def routines_def split: option.splits)

lemma running_frame:
  assumes "once_inv s" "(b, Routine bs) \<in> set (frames s v)"
  shows "once_global_lock s = Some v \<and> b \<in> set (running s)"
proof -
  have "\<not> free_shape (frames s v)" using assms(2) by (auto simp: free_shape_def)
  then have "once_global_lock s = Some v" using once_inv_free [OF assms(1)] by blast
  moreover from this have "b \<in> set (running s)" using assms(2) by (force simp: running_def)
  ultimately show ?thesis by blast
qed

text \<open>
  C3. One-time initialisation: however the threads interleave, and however routines call \<open>mm_thr_once\<close> in turn, no routine
  is started twice, a routine that has returned was started, all routines that are running belong to one thread, and a control is marked
  exactly when its routine was started.
\<close>

theorem once_at_most_once:
  assumes "once_reach calls T prog n s" "0 \<notin> T"
  shows "distinct (started s) \<and> distinct (finished s) \<and> set (finished s) \<subseteq> set (started s) \<and> (once_done s c \<longleftrightarrow> c \<in> set (started s))
    \<and> ((c, Routine ds) \<in> set (frames s t) \<longrightarrow> (d, Routine es) \<in> set (frames s u) \<longrightarrow> t = u \<and> c \<in> set (started s) - set (finished s))"
proof -
  have inv: "once_inv s" using once_reach_inv [OF assms] .
  have d: "distinct (started s)" "once_done s c \<longleftrightarrow> c \<in> set (started s)" using inv by (simp_all add: once_inv_def)
  have m: "mset (started s) = mset (finished s @ running s)" using once_inv_running [OF inv] .
  have "distinct (finished s @ running s)" "set (started s) = set (finished s @ running s)"
    using mset_eq_imp_distinct_iff [OF m] d(1) mset_eq_setD [OF m] by simp_all
  then show ?thesis using d running_frame [OF inv, of c ds t] running_frame [OF inv, of d es u] by auto
qed

text \<open>
  C4. One-time initialisation ends: for finitely many threads and controls, every schedule of the threads is at most as long as the work of
  the programs, which grows linearly with the calls that are made; whenever a thread has not finished its program some thread can go
  on, so that no order of nested calls leads to a deadlock; and when no thread can go on, all calls have returned and the routine
  of every control that was passed to \<open>mm_thr_once\<close> has run to its end.
\<close>

theorem once_ends:
  assumes "once_reach calls T prog n s" "0 \<notin> T" "finite T" "finite C" "\<forall>t \<in> T. set (prog t) \<subseteq> C" "\<forall>c \<in> C. set (calls c) \<subseteq> C"
  shows "n \<le> 13 * ((\<Sum>t \<in> T. length (prog t)) + (\<Sum>c \<in> C. length (calls c)))
    \<and> ((\<exists>t \<in> T. \<exists>s'. once_step calls t s = Some s')
       \<or> (\<forall>t. t \<in> T \<longrightarrow> frames s t = [] \<and> todo s t = [] \<and> set (prog t) \<subseteq> set (finished s)))"
proof -
  have inv: "once_inv s" using once_reach_inv [OF assms(1,2)] .
  note c = once_reach_calls [OF assms]
  have w: "once_work calls T C (once_init prog) = 13 * ((\<Sum>t \<in> T. length (prog t)) + (\<Sum>c \<in> C. length (calls c)))"
    by (simp add: once_work_def thread_work_def routine_work_def once_init_def sum_distrib_left)
  have "frames s t = [] \<and> todo s t = [] \<and> set (prog t) \<subseteq> set (finished s)"
    if stuck: "\<not> (\<exists>t \<in> T. \<exists>s'. once_step calls t s = Some s')" and t: "t \<in> T" for t
  proof -
    have idle: "frames s u = [] \<and> todo s u = []" if "u \<in> T" for u
      using once_progress [OF inv _ that, of calls] c stuck unfolding calls_inv_def by auto
    then have all: "frames s u = []" for u using c unfolding calls_inv_def by (cases "u \<in> T") auto
    then have "once_global_lock s = None" using once_inv_holder [OF inv] by (cases "once_global_lock s") fastforce+
    then have "mset (started s) = mset (finished s)" using inv by (simp add: once_inv_def lock_inv_def)
    then have "set (started s) = set (finished s)" by (rule mset_eq_setD)
    moreover have "set (prog t) \<subseteq> {c. once_done s c}" using c idle [OF t] unfolding calls_inv_def by force
    ultimately show ?thesis using idle [OF t] inv by (auto simp: once_inv_def)
  qed
  then have "(\<exists>t \<in> T. \<exists>s'. once_step calls t s = Some s')
       \<or> (\<forall>t. t \<in> T \<longrightarrow> frames s t = [] \<and> todo s t = [] \<and> set (prog t) \<subseteq> set (finished s))" by blast
  moreover have "n \<le> once_work calls T C (once_init prog)" using c by simp
  ultimately show ?thesis unfolding w by blast
qed

section \<open>Runs\<close>

fun once_run :: "(nat \<Rightarrow> nat list) \<Rightarrow> nat list \<Rightarrow> once_sys \<Rightarrow> once_sys option" where
  "once_run calls [] s = Some s"
| "once_run calls (t # ts) s = (case once_step calls t s of None \<Rightarrow> None | Some s \<Rightarrow> once_run calls ts s)"

lemma once_run_reach:
  "once_run calls ts s = Some s' \<Longrightarrow> once_reach calls T prog n s \<Longrightarrow> set ts \<subseteq> T \<Longrightarrow> once_reach calls T prog (n + length ts) s'"
proof (induction ts arbitrary: s n)
  case (Cons t ts)
  then obtain s1 where s1: "once_step calls t s = Some s1" "once_run calls ts s1 = Some s'" by (auto split: option.splits)
  have "once_reach calls T prog (Suc n) s1" using once_reach_step [OF Cons.prems(2) _ s1(1)] Cons.prems(3) by simp
  from Cons.IH [OF s1(2) this] Cons.prems(3) show ?case by simp
qed simp

text \<open>Two threads; the routine of control 1 calls control 2 and, once more, control 1.\<close>

definition demo_calls :: "nat \<Rightarrow> nat list" where
  "demo_calls c = (if c = 1 then [2, 1] else [])"

definition demo_prog :: "nat \<Rightarrow> nat list" where
  "demo_prog t = (if t = 1 then [1] else if t = 2 then [1, 2] else [])"

definition demo_mid :: "once_sys option" where
  "demo_mid = once_run demo_calls (replicate 8 1 @ replicate 2 2) (once_init demo_prog)"

definition demo_end :: "once_sys option" where
  "demo_end = once_run demo_calls (replicate 8 1 @ replicate 2 2 @ replicate 14 1 @ replicate 2 2) (once_init demo_prog)"

lemma demo_mid_state:
  "map_option (\<lambda>s. (started s, finished s, map (frames s) [1, 2], map (todo s) [1, 2])) demo_mid = Some ([1], [], [[(1, Routine [2, 1])], []], [[], [2]])"
  by code_simp

lemma demo_end_state:
  "map_option (\<lambda>s. (started s, finished s, map (frames s) [1, 2], map (todo s) [1, 2])) demo_end = Some ([2, 1], [1, 2], [[], []], [[], []])"
  by code_simp

lemma demo_mid_reach:
  "\<exists>s. demo_mid = Some s \<and> once_reach demo_calls {1, 2} demo_prog 10 s \<and> finished s = [] \<and> frames s 1 = [(1, Routine [2, 1])] \<and> frames s 2 = [] \<and> todo s 2 = [2]"
proof -
  obtain s where s: "demo_mid = Some s"
    and st: "finished s = []" "frames s 1 = [(1, Routine [2, 1])]" "frames s 2 = []" "todo s 2 = [2]" using demo_mid_state by (cases demo_mid) auto
  have "once_reach demo_calls {1, 2} demo_prog 10 s" using once_run_reach [OF s [unfolded demo_mid_def] once_reach_init, of "{1, 2}"] by simp
  then show ?thesis using s st by (intro exI [of _ s]) simp
qed

lemma demo_end_reach:
  "\<exists>s. demo_end = Some s \<and> once_reach demo_calls {1, 2} demo_prog 26 s \<and> frames s 1 = [] \<and> todo s 1 = [] \<and> frames s 2 = [] \<and> todo s 2 = []"
proof -
  obtain s where s: "demo_end = Some s"
    and st: "frames s 1 = []" "todo s 1 = []" "frames s 2 = []" "todo s 2 = []" using demo_end_state by (cases demo_end) auto
  have "once_reach demo_calls {1, 2} demo_prog 26 s" using once_run_reach [OF s [unfolded demo_end_def] once_reach_init, of "{1, 2}"] by simp
  then show ?thesis using s st by (intro exI [of _ s]) simp
qed

text \<open>A call can return while the routine of its control is still running in another thread.\<close>

lemma once_returns_early:
  "\<exists>n s. once_reach demo_calls {1, 2} demo_prog n s \<and> demo_prog 2 = [1, 2] \<and> todo s 2 = [2] \<and> frames s 2 = [] \<and> 1 \<notin> set (finished s)"
  using demo_mid_reach by (force simp: demo_prog_def)

theorem once_at_most_once_witness:
  "\<exists>s. demo_mid = Some s \<and> distinct (started s) \<and> distinct (finished s) \<and> set (finished s) \<subseteq> set (started s)
    \<and> (once_done s 1 \<longleftrightarrow> 1 \<in> set (started s)) \<and> 1 \<in> set (started s) - set (finished s)"
proof -
  obtain s where s: "demo_mid = Some s" "once_reach demo_calls {1, 2} demo_prog 10 s" "frames s 1 = [(1, Routine [2, 1])]"
    using demo_mid_reach by blast
  with once_at_most_once [OF s(2), of 1 "[2, 1]" 1 1 "[2, 1]" 1] show ?thesis by (intro exI [of _ s]) simp
qed

theorem once_ends_witness:
  "\<exists>s. demo_end = Some s \<and> 26 \<le> (13 * (3 + 2) :: nat) \<and> frames s 2 = [] \<and> todo s 2 = [] \<and> set (demo_prog 2) \<subseteq> set (finished s)"
proof -
  obtain s where s: "demo_end = Some s" "once_reach demo_calls {1, 2} demo_prog 26 s"
    and e: "frames s 1 = []" "todo s 1 = []" "frames s 2 = []" "todo s 2 = []" using demo_end_reach by blast
  then have none: "\<not> (\<exists>t \<in> {1, 2}. \<exists>s'. once_step demo_calls t s = Some s')" by (simp add: once_step_def)
  have "\<forall>t \<in> {1, 2}. set (demo_prog t) \<subseteq> {1, 2}" "\<forall>c \<in> {1, 2}. set (demo_calls c) \<subseteq> {1, 2}" by (auto simp: demo_prog_def demo_calls_def)
  note f = once_ends [OF s(2) _ _ _ this]
  have "(26 :: nat) \<le> 13 * (3 + 2)" using f by (simp add: demo_prog_def demo_calls_def)
  moreover have "frames s 2 = [] \<and> todo s 2 = [] \<and> set (demo_prog 2) \<subseteq> set (finished s)" using f none by simp
  ultimately show ?thesis using s(1) by blast
qed

end
