(* ===== verification/Win_Utils.thy ===== *)
theory Win_Utils
  imports Win_Fd Err_Log "HOL-Library.Sublist"
begin

text \<open>
  Helpers of \<^verbatim>\<open>src/src/utils-win32.c\<close>: messages of system errors, identifiers of files, the security descriptor of a
  handle in a buffer that grows, the identity of the caller, and the recognition of the terminals of cygwin. The calls of Windows are
  parameters.
\<close>

section \<open>Messages of system errors\<close>

definition ERRMSG_SIZE :: nat where "ERRMSG_SIZE = 512"

text \<open>\<open>fm e n\<close> is the text that \<open>FormatMessage\<close> writes for the error \<open>e\<close> in \<open>n\<close> characters, if it can. The buffer holds the empty string before.\<close>

definition write_w32err_msg :: "(w32err \<Rightarrow> nat \<Rightarrow> string option) \<Rightarrow> w32err \<Rightarrow> nat \<Rightarrow> string" where
  "write_w32err_msg fm w32err len =
     (if len = 0 then [] else map (\<lambda>c. if c = CHR ''%'' then CHR '' '' else c) (case_option [] id (fm w32err (len - 1))))"

text \<open>
  The result is \<open>None\<close> when the description is longer than the buffer: \<open>snprintf\<close> returns its full length, the size that is left wraps
  around and the text is written behind the buffer. \<open>errnum\<close> gives the numbers of the error codes, \<open>format\<close> is what \<open>printf\<close> makes of
  a format with the arguments of the call.
\<close>

definition mm_raise_from_w32err_full ::
  "(w32err \<Rightarrow> nat \<Rightarrow> string option) \<Rightarrow> (errcode \<Rightarrow> int) \<Rightarrow> (string \<Rightarrow> string) \<Rightarrow> (string \<Rightarrow> string \<Rightarrow> thread_err \<Rightarrow> thread_err) \<Rightarrow>
   w32err \<Rightarrow> raised \<Rightarrow> thread_err \<Rightarrow> thread_err option" where
  "mm_raise_from_w32err_full fm errnum format log w32err r s =
     (let len = length (r_desc r) + 3; errmsg = take (ERRMSG_SIZE - 1) (r_desc r @ '' : '')
      in if len > ERRMSG_SIZE then None
         else Some (mm_raise_error_vfull log
           (r\<lparr>r_errnum := errnum (get_errcode_from_w32err w32err), r_extid := None,
              r_desc := format (errmsg @ write_w32err_msg fm w32err (ERRMSG_SIZE - len))\<rparr>) s))"

lemma write_w32err_msg_bounds:
  assumes "\<And>n m. fm e n = Some m \<Longrightarrow> length m \<le> n"
  shows "CHR ''%'' \<notin> set (write_w32err_msg fm e len)" "0 < len \<Longrightarrow> length (write_w32err_msg fm e len) < len"
  using assms [of "len - 1"] by (auto simp: write_w32err_msg_def split: option.splits if_splits)

text \<open>The message is in the buffer with its terminator, and no text of the system is taken for a conversion of the format.\<close>

lemma raise_from_w32err_message:
  assumes "\<And>n m. fm e n = Some m \<Longrightarrow> length m \<le> n" "length (r_desc r) + 3 \<le> ERRMSG_SIZE"
  shows "\<exists>pre m. mm_raise_from_w32err_full fm errnum format log e r s = Some (mm_raise_error_vfull log
      (r\<lparr>r_errnum := errnum (get_errcode_from_w32err e), r_extid := None, r_desc := format (pre @ m)\<rparr>) s)
    \<and> prefix pre (r_desc r @ '' : '') \<and> CHR ''%'' \<notin> set m \<and> length (pre @ m) < ERRMSG_SIZE"
proof (intro exI conjI)
  let ?pre = "take (ERRMSG_SIZE - 1) (r_desc r @ '' : '')" and ?m = "write_w32err_msg fm e (ERRMSG_SIZE - (length (r_desc r) + 3))"
  show "mm_raise_from_w32err_full fm errnum format log e r s = Some (mm_raise_error_vfull log
      (r\<lparr>r_errnum := errnum (get_errcode_from_w32err e), r_extid := None, r_desc := format (?pre @ ?m)\<rparr>) s)"
    using assms(2) by (simp add: mm_raise_from_w32err_full_def Let_def)
  show "prefix ?pre (r_desc r @ '' : '')" by (rule take_is_prefix)
  show "CHR ''%'' \<notin> set ?m" using write_w32err_msg_bounds(1) [OF assms(1)] .
  show "length (?pre @ ?m) < ERRMSG_SIZE"
    using write_w32err_msg_bounds(2) [of fm e "ERRMSG_SIZE - (length (r_desc r) + 3)", OF assms(1)] assms(2)
    by (cases "length (r_desc r) + 3 = ERRMSG_SIZE") (auto simp: ERRMSG_SIZE_def write_w32err_msg_def)
qed

lemma raise_from_w32err_overrun:
  "length (r_desc r) \<ge> 510 \<Longrightarrow> mm_raise_from_w32err_full fm errnum format log e r s = None"
  by (simp add: mm_raise_from_w32err_full_def ERRMSG_SIZE_def Let_def)

section \<open>Identifiers of files\<close>

text \<open>The 128 bits of the identifier as two numbers, as in \<open>mm_ino_t\<close>.\<close>

record file_id_info =
  VolumeSerialNumber :: int
  id_low :: int
  id_high :: int

record by_handle_info =
  dwVolumeSerialNumber :: int
  nFileIndexHigh :: int
  nFileIndexLow :: int

text \<open>File systems without identifiers of 128 bits fail the first call; their identifiers have two parts of 32 bits.\<close>

definition get_file_id_info_from_handle :: "file_id_info option \<Rightarrow> by_handle_info option \<Rightarrow> w32err \<Rightarrow> errcode + file_id_info" where
  "get_file_id_info_from_handle ext_info file_info err =
     (case ext_info of
        Some info \<Rightarrow> Inr info
      | None \<Rightarrow>
          (case file_info of
             None \<Rightarrow> Inl (get_errcode_from_w32err err)
           | Some fi \<Rightarrow> Inr \<lparr>VolumeSerialNumber = dwVolumeSerialNumber fi, id_low = nFileIndexLow fi + 2 ^ 32 * nFileIndexHigh fi, id_high = 0\<rparr>))"

lemma file_id_distinct:
  assumes "get_file_id_info_from_handle None (Some a) e = Inr i" "get_file_id_info_from_handle None (Some b) e' = Inr i"
    and "0 \<le> nFileIndexLow a" "nFileIndexLow a < 2 ^ 32" "0 \<le> nFileIndexLow b" "nFileIndexLow b < 2 ^ 32"
  shows "a = b"
proof -
  have eq: "nFileIndexLow a + 2 ^ 32 * nFileIndexHigh a = nFileIndexLow b + 2 ^ 32 * nFileIndexHigh b"
    and v: "dwVolumeSerialNumber a = dwVolumeSerialNumber b"
    using assms(1,2) by (auto simp: get_file_id_info_from_handle_def)
  have "nFileIndexLow a = nFileIndexLow b" using arg_cong [OF eq, of "\<lambda>x. x mod 2 ^ 32"] assms(3-6) by simp
  with eq v show ?thesis by simp
qed

section \<open>The security descriptor of a handle\<close>

definition SELF_RELATIVE_SD_MINSIZE :: nat where "SELF_RELATIVE_SD_MINSIZE = 512"

text \<open>\<open>struct local_secdesc\<close>: where its descriptor is, in the structure or in a block of the heap with an address.\<close>

datatype sd_place = InBuffer | OnHeap int

text \<open>\<open>get_security len\<close> gives the descriptor, or fails with the size that it needs.\<close>

record ('d, 'w) sec_env =
  get_security :: "nat \<Rightarrow> 'w \<Rightarrow> (nat + 'd) \<times> 'w"
  sec_error :: "'w \<Rightarrow> w32err"
  sec_malloc :: "nat \<Rightarrow> 'w \<Rightarrow> int option \<times> 'w"
  sec_free :: "int \<Rightarrow> 'w \<Rightarrow> 'w"

definition ERROR_INSUFFICIENT_BUFFER :: w32err where "ERROR_INSUFFICIENT_BUFFER = W32Other 122"

definition local_secdesc_deinit :: "('d, 'w) sec_env \<Rightarrow> sd_place option \<Rightarrow> 'w \<Rightarrow> sd_place option \<times> 'w" where
  "local_secdesc_deinit env sd w = (None, case sd of Some (OnHeap p) \<Rightarrow> sec_free env p w | _ \<Rightarrow> w)"

definition local_secdesc_resize :: "('d, 'w) sec_env \<Rightarrow> nat \<Rightarrow> sd_place option \<Rightarrow> 'w \<Rightarrow> bool \<times> sd_place option \<times> 'w" where
  "local_secdesc_resize env sz sd w =
     (case local_secdesc_deinit env sd w of
        (_, w) \<Rightarrow> if sz \<le> SELF_RELATIVE_SD_MINSIZE then (True, Some InBuffer, w)
                  else case sec_malloc env sz w of
                         (None, w) \<Rightarrow> (False, None, w)
                       | (Some p, w) \<Rightarrow> (True, Some (OnHeap p), w))"

partial_function (option) secdesc_loop ::
  "('d, 'w) sec_env \<Rightarrow> nat \<Rightarrow> sd_place option \<Rightarrow> 'w \<Rightarrow> ('d option \<times> sd_place option \<times> 'w) option" where
  [code]: "secdesc_loop env len sd w =
     (case get_security env len w of
        (Inr d, w) \<Rightarrow> Some (Some d, sd, w)
      | (Inl needed, w) \<Rightarrow>
          if sec_error env w \<noteq> ERROR_INSUFFICIENT_BUFFER then Some (None, local_secdesc_deinit env sd w)
          else (case local_secdesc_resize env needed sd w of
                  (ok, sd, w) \<Rightarrow> if ok then secdesc_loop env needed sd w else Some (None, local_secdesc_deinit env sd w)))"

definition local_secdesc_init_from_handle :: "('d, 'w) sec_env \<Rightarrow> 'w \<Rightarrow> ('d option \<times> sd_place option \<times> 'w) option" where
  "local_secdesc_init_from_handle env w = secdesc_loop env SELF_RELATIVE_SD_MINSIZE (Some InBuffer) w"

text \<open>
  What is expected of the system: a descriptor \<open>d\<close> of \<open>n\<close> bytes that does not change meanwhile, is given when the buffer is large enough and asks for
  its size otherwise, or is refused for another reason; blocks of the heap as a set.
\<close>

definition sec_law :: "('d, 'w) sec_env \<Rightarrow> 'd \<Rightarrow> nat \<Rightarrow> ('w \<Rightarrow> int set) \<Rightarrow> bool" where
  "sec_law env d n blocks \<longleftrightarrow>
     (\<forall>len w. case get_security env len w of
        (Inr d', w') \<Rightarrow> d' = d \<and> n \<le> len \<and> blocks w' = blocks w
      | (Inl n', w') \<Rightarrow> blocks w' = blocks w \<and> (sec_error env w' = ERROR_INSUFFICIENT_BUFFER \<longrightarrow> n' = n \<and> len < n))
     \<and> (\<forall>k w. case sec_malloc env k w of (None, w') \<Rightarrow> blocks w' = blocks w | (Some p, w') \<Rightarrow> p \<notin> blocks w \<and> blocks w' = insert p (blocks w))
     \<and> (\<forall>p w. blocks (sec_free env p w) = blocks w - {p})"

lemma sec_lawD:
  assumes "sec_law env d n blocks"
  shows "get_security env len w = (Inr d', w') \<Longrightarrow> d' = d \<and> n \<le> len \<and> blocks w' = blocks w"
    "get_security env len w = (Inl n', w') \<Longrightarrow> blocks w' = blocks w \<and> (sec_error env w' = ERROR_INSUFFICIENT_BUFFER \<longrightarrow> n' = n \<and> len < n)"
    "sec_malloc env k w = (None, w') \<Longrightarrow> blocks w' = blocks w"
    "sec_malloc env k w = (Some p, w') \<Longrightarrow> p \<notin> blocks w \<and> blocks w' = insert p (blocks w)"
    "blocks (sec_free env p w) = blocks w - {p}"
  using assms unfolding sec_law_def by (fastforce dest: spec split: prod.splits sum.splits option.splits)+

text \<open>The loop with a buffer of the right size ends at its first turn.\<close>

lemma secdesc_loop_fits:
  assumes "sec_law env d n blocks" "n \<le> len"
  shows "\<exists>r sd' w'. secdesc_loop env len sd w = Some (r, sd', w') \<and>
    (case r of Some d' \<Rightarrow> d' = d \<and> sd' = sd \<and> blocks w' = blocks w
     | None \<Rightarrow> sd' = None \<and> blocks w' = (case sd of Some (OnHeap p) \<Rightarrow> blocks w - {p} | _ \<Rightarrow> blocks w))"
proof (cases "get_security env len w")
  case (Pair r w1)
  then show ?thesis
    using sec_lawD(1) [OF assms(1), of len w] sec_lawD(2) [OF assms(1), of len w] assms(2)
    by (subst secdesc_loop.simps)
      (auto simp: local_secdesc_deinit_def sec_lawD(5) [OF assms(1)] split: sum.splits option.splits sd_place.splits)
qed

text \<open>
  Reading the security descriptor of a handle ends, after at most two attempts. In case of success the descriptor is in the structure when it
  is small and in one new block of the heap otherwise, and \<open>local_secdesc_deinit\<close> leaves the heap as it was; after a failure nothing is allocated.
\<close>

theorem secdesc_from_handle:
  assumes "sec_law env d n blocks"
  shows "\<exists>r sd w'. local_secdesc_init_from_handle env w = Some (r, sd, w') \<and>
    (case r of
       Some d' \<Rightarrow> d' = d \<and> (if n \<le> SELF_RELATIVE_SD_MINSIZE then sd = Some InBuffer \<and> blocks w' = blocks w
                        else \<exists>p. sd = Some (OnHeap p) \<and> p \<notin> blocks w \<and> blocks w' = insert p (blocks w))
           \<and> blocks (snd (local_secdesc_deinit env sd w')) = blocks w
     | None \<Rightarrow> sd = None \<and> blocks w' = blocks w)"
proof (cases "n \<le> SELF_RELATIVE_SD_MINSIZE")
  case True
  obtain r sd w' where "secdesc_loop env SELF_RELATIVE_SD_MINSIZE (Some InBuffer) w = Some (r, sd, w')"
    and "case r of Some d' \<Rightarrow> d' = d \<and> sd = Some InBuffer \<and> blocks w' = blocks w | None \<Rightarrow> sd = None \<and> blocks w' = blocks w"
    using secdesc_loop_fits [OF assms True, of "Some InBuffer" w] by (auto cong: option.case_cong)
  then show ?thesis
    using True
    by (intro exI [of _ r] exI [of _ sd] exI [of _ w'])
      (cases r; simp add: local_secdesc_init_from_handle_def local_secdesc_deinit_def)
next
  case big: False
  obtain r w1 where g: "get_security env SELF_RELATIVE_SD_MINSIZE w = (r, w1)" by (cases "get_security env SELF_RELATIVE_SD_MINSIZE w")
  obtain q where r: "r = Inl q" using sec_lawD(1) [OF assms, of _ w _ w1] g big by (cases r) auto
  note b1 = sec_lawD(2) [OF assms g [unfolded r]]
  show ?thesis
  proof (cases "sec_error env w1 = ERROR_INSUFFICIENT_BUFFER")
    case False
    then show ?thesis using g r b1 by (simp add: local_secdesc_init_from_handle_def secdesc_loop.simps local_secdesc_deinit_def)
  next
    case True
    then have q: "q = n" using b1 by simp
    show ?thesis
    proof (cases "sec_malloc env n w1")
      case (Pair po w2)
      show ?thesis
      proof (cases po)
        case None
        then show ?thesis using g r q b1 True big Pair sec_lawD(3) [OF assms, of n w1 w2]
          by (simp add: local_secdesc_init_from_handle_def secdesc_loop.simps local_secdesc_deinit_def local_secdesc_resize_def)
      next
        case (Some p)
        have m: "p \<notin> blocks w \<and> blocks w2 = insert p (blocks w)" using sec_lawD(4) [OF assms, of n w1 p w2] Pair Some b1 by simp
        have "local_secdesc_init_from_handle env w = secdesc_loop env n (Some (OnHeap p)) w2"
          unfolding local_secdesc_init_from_handle_def
          by (subst secdesc_loop.simps) (use g r q True big Pair Some in \<open>simp add: local_secdesc_deinit_def local_secdesc_resize_def\<close>)
        moreover obtain r sd w' where "secdesc_loop env n (Some (OnHeap p)) w2 = Some (r, sd, w')"
          and "case r of Some d' \<Rightarrow> d' = d \<and> sd = Some (OnHeap p) \<and> blocks w' = blocks w2 | None \<Rightarrow> sd = None \<and> blocks w' = blocks w2 - {p}"
          using secdesc_loop_fits [OF assms order_refl, of "Some (OnHeap p)" w2] by (auto cong: option.case_cong)
        ultimately show ?thesis
          using m big
          by (intro exI [of _ r] exI [of _ sd] exI [of _ w']) (cases r; auto simp: local_secdesc_deinit_def sec_lawD(5) [OF assms])
      qed
    qed
  qed
qed

text \<open>A descriptor of 600 bytes; the world is the list of addresses in use and the last error.\<close>

definition demo_sec :: "(string, int list \<times> w32err) sec_env" where
  "demo_sec = \<lparr>get_security = (\<lambda>len (bs, e). if 600 \<le> len then (Inr ''sd'', bs, e) else (Inl 600, bs, ERROR_INSUFFICIENT_BUFFER)),
     sec_error = snd, sec_malloc = (\<lambda>_ (bs, e). (Some (foldr max bs 0 + 1), (foldr max bs 0 + 1) # bs, e)),
     sec_free = (\<lambda>p (bs, e). (filter (\<lambda>b. b \<noteq> p) bs, e))\<rparr>"

lemma demo_sec_law: "sec_law demo_sec ''sd'' 600 (\<lambda>(bs, _). set bs)"
proof -
  have "foldr max bs 0 + 1 \<notin> set bs" for bs :: "int list" using foldr_max(1) [of "foldr max bs 0 + 1" bs 0] by auto
  then show ?thesis by (auto simp: sec_law_def demo_sec_def)
qed

theorem secdesc_from_handle_witness:
  "\<exists>r sd w'. local_secdesc_init_from_handle demo_sec ([1, 2], W32Other 0) = Some (r, sd, w') \<and>
    (case r of
       Some d' \<Rightarrow> d' = ''sd'' \<and> (\<exists>p. sd = Some (OnHeap p) \<and> p \<notin> {1, 2} \<and> set (fst w') = insert p {1, 2})
           \<and> set (fst (snd (local_secdesc_deinit demo_sec sd w'))) = {1, 2}
     | None \<Rightarrow> sd = None \<and> set (fst w') = {1, 2})"
  using secdesc_from_handle [OF demo_sec_law, of "([1, 2], W32Other 0)"] by (simp add: SELF_RELATIVE_SD_MINSIZE_def case_prod_unfold cong: option.case_cong)

section \<open>The identity of the caller\<close>

definition SID_STRING_MAXLEN :: nat where "SID_STRING_MAXLEN = 256"

record ('s, 'w) token_env =
  open_token :: "'w \<Rightarrow> bool \<times> 'w"
  token_owner :: "'w \<Rightarrow> 's option"
  token_group :: "'w \<Rightarrow> 's option"
  close_token :: "'w \<Rightarrow> 'w"
  sid_string :: "'s \<Rightarrow> 'w \<Rightarrow> string option"

text \<open>The owner and the group that were asked for, if all calls succeed; the token is closed if it was opened.\<close>

definition get_caller_sids :: "('s, 'w) token_env \<Rightarrow> bool \<Rightarrow> bool \<Rightarrow> 'w \<Rightarrow> ('s option \<times> 's option) option \<times> 'w" where
  "get_caller_sids env owner grp w =
     (case open_token env w of
        (False, w) \<Rightarrow> (None, w)
      | (True, w) \<Rightarrow>
          (if owner \<and> token_owner env w = None then None
           else if grp \<and> token_group env w = None then None
           else Some (if owner then token_owner env w else None, if grp then token_group env w else None),
           close_token env w))"

record sid_cache =
  sid_init_once :: bool
  owner_sid_str :: "string option"

text \<open>\<open>None\<close> when the string does not fit the array.\<close>

definition init_owner_sid_str :: "('s, 'w) token_env \<Rightarrow> sid_cache \<times> 'w \<Rightarrow> (sid_cache \<times> 'w) option" where
  "init_owner_sid_str env = (\<lambda>(c, w).
     case get_caller_sids env True False w of
       (Some (Some owner, _), w) \<Rightarrow>
         (case sid_string env owner w of
            None \<Rightarrow> Some (c, w)
          | Some sidstr \<Rightarrow> if length sidstr + 1 > SID_STRING_MAXLEN then None else Some (c\<lparr>owner_sid_str := Some sidstr\<rparr>, w))
     | (_, w) \<Rightarrow> Some (c, w))"

definition get_caller_string_sid_u16 :: "('s, 'w) token_env \<Rightarrow> sid_cache \<times> 'w \<Rightarrow> (string option \<times> sid_cache \<times> 'w) option" where
  "get_caller_string_sid_u16 env = (\<lambda>(c, w).
     map_option (\<lambda>(c, w). (owner_sid_str c, c, w))
       (if sid_init_once c then Some (c, w) else init_owner_sid_str env (c\<lparr>sid_init_once := True\<rparr>, w)))"

text \<open>The string is determined once: later calls give the same answer without asking the system, also when the first one failed.\<close>

lemma caller_sid_stable:
  assumes "get_caller_string_sid_u16 env (c, w) = Some (r, c', w')"
  shows "get_caller_string_sid_u16 env' (c', w'') = Some (r, c', w'')"
  using assms
  by (auto simp: get_caller_string_sid_u16_def init_owner_sid_str_def split: if_splits option.splits prod.splits)

section \<open>Terminals of cygwin\<close>

text \<open>
  The directives of \<open>sscanf\<close> that are used: a character, a non-empty run of characters of a set, with its largest length and whether it
  is stored, and an unsigned number that is skipped. The result are the stored strings up to the first directive that does not match.
\<close>

datatype directive = Lit char | Run "nat option" bool "char \<Rightarrow> bool" | SkipUInt

definition is_dec :: "char \<Rightarrow> bool" where "is_dec c \<longleftrightarrow> c \<in> set ''0123456789''"
definition is_az :: "char \<Rightarrow> bool" where "is_az c \<longleftrightarrow> c \<in> set ''abcdefghijklmnopqrstuvwxyz''"
definition is_hex :: "char \<Rightarrow> bool" where "is_hex c \<longleftrightarrow> c \<in> set ''0123456789abcdef''"
definition is_space_c :: "char \<Rightarrow> bool" where "is_space_c c \<longleftrightarrow> c \<in> set [CHR '' '', CHR 0x09, CHR 0x0A, CHR 0x0B, CHR 0x0C, CHR 0x0D]"

definition skip_sign :: "string \<Rightarrow> string" where
  "skip_sign s = (case s of c # s' \<Rightarrow> if c = CHR ''+'' \<or> c = CHR ''-'' then s' else s | [] \<Rightarrow> [])"

fun sscanf_items :: "directive list \<Rightarrow> string \<Rightarrow> string list" where
  "sscanf_items [] s = []"
| "sscanf_items (Lit c # ds) s = (case s of x # s' \<Rightarrow> if x = c then sscanf_items ds s' else [] | [] \<Rightarrow> [])"
| "sscanf_items (Run width store P # ds) s =
     (let m = takeWhile P (case width of None \<Rightarrow> s | Some n \<Rightarrow> take n s)
      in if m = [] then [] else (if store then [m] else []) @ sscanf_items ds (drop (length m) s))"
| "sscanf_items (SkipUInt # ds) s =
     (let s' = skip_sign (dropWhile is_space_c s); m = takeWhile is_dec s'
      in if m = [] then [] else sscanf_items ds (drop (length m) s'))"

definition cygpty_format :: "directive list" where
  "cygpty_format = [Lit (CHR 0x5C), Run (Some 7) True is_az, Lit (CHR ''-''), Run None False is_hex] @ map Lit ''-pty'' @
     [SkipUInt, Lit (CHR ''-''), Run (Some 15) True is_az] @ map Lit ''-master''"

text \<open>
  \<open>file_name n\<close> is the name of the pipe in UTF-16 when it fits in \<open>n\<close> bytes, \<open>to_utf8\<close> its conversion in a buffer of as many bytes as it has
  characters, and one more.
\<close>

definition is_cygpty_pipe :: "(nat \<Rightarrow> 'u option) \<Rightarrow> ('u \<Rightarrow> string option) \<Rightarrow> bool" where
  "is_cygpty_pipe file_name to_utf8 =
     (case file_name (256 - 2) of
        None \<Rightarrow> False
      | Some name \<Rightarrow>
          (case to_utf8 name of
             None \<Rightarrow> False
           | Some name_u8 \<Rightarrow>
               (case sscanf_items cygpty_format name_u8 of
                  [orig, dir] \<Rightarrow> (orig = ''msys'' \<or> orig = ''cygwin'') \<and> (dir = ''from'' \<or> dir = ''to'')
                | _ \<Rightarrow> False)))"

text \<open>What a directive has read when strings are stored after it or by it.\<close>

definition ends_run :: "(char \<Rightarrow> bool) \<Rightarrow> string \<Rightarrow> bool" where
  "ends_run P s \<longleftrightarrow> s = [] \<or> \<not> P (hd s)"

definition is_uint :: "string \<Rightarrow> bool" where
  "is_uint s \<longleftrightarrow> (\<exists>ws sg ds. s = ws @ sg @ ds \<and> list_all is_space_c ws \<and> (sg = [] \<or> sg = ''+'' \<or> sg = ''-'') \<and> ds \<noteq> [] \<and> list_all is_dec ds)"

lemma takeWhile_run: "list_all P a \<Longrightarrow> ends_run P b \<Longrightarrow> takeWhile P (a @ b) = a"
  by (cases b) (auto simp: ends_run_def list_all_iff)

lemma take_run: "list_all P a \<Longrightarrow> ends_run P b \<Longrightarrow> length a < n \<Longrightarrow> takeWhile P (take n (a @ b)) = a"
  by (cases "n - length a"; cases b) (auto simp: ends_run_def list_all_iff takeWhile_append)

lemma run_drop: "takeWhile P s @ drop (length (takeWhile P s)) s = s" "list_all P (takeWhile P s)" "ends_run P (drop (length (takeWhile P s)) s)"
proof -
  show "takeWhile P s @ drop (length (takeWhile P s)) s = s" by (metis dropWhile_eq_drop takeWhile_dropWhile_id)
  show "list_all P (takeWhile P s)" by (auto simp: list_all_iff dest: set_takeWhileD)
  show "ends_run P (drop (length (takeWhile P s)) s)" unfolding dropWhile_eq_drop [symmetric] ends_run_def using hd_dropWhile [of P s] by blast
qed

lemma take_run_drop:
  assumes "takeWhile P (take n s) = m" "length m < n"
  shows "s = m @ drop (length m) s \<and> list_all P m \<and> ends_run P (drop (length m) s)"
proof -
  have p: "m @ drop (length m) (take n s) = take n s" "list_all P m" "ends_run P (drop (length m) (take n s))"
    using run_drop [of P "take n s"] assms(1) by simp_all
  have "s = m @ drop (length m) s" using p(1) by (metis append_eq_conv_conj append_take_drop_id append_assoc)
  moreover have "ends_run P (drop (length m) s)"
    using p(3) assms(2) by (auto simp: ends_run_def hd_drop_conv_nth)
  ultimately show ?thesis using p(2) by blast
qed

lemma skip_sign_split: "\<exists>sg. s = sg @ skip_sign s \<and> (sg = [] \<or> sg = ''+'' \<or> sg = ''-'')"
  by (auto simp: skip_sign_def split: list.split)

lemma items_Lit: "sscanf_items (Lit c # ds) s = xs \<Longrightarrow> xs \<noteq> [] \<Longrightarrow> \<exists>s'. s = c # s' \<and> sscanf_items ds s' = xs"
  by (auto split: list.splits if_splits)

lemma items_Lits: "sscanf_items (map Lit cs @ ds) s = xs \<Longrightarrow> xs \<noteq> [] \<Longrightarrow> \<exists>s'. s = cs @ s' \<and> sscanf_items ds s' = xs"
proof (induction cs arbitrary: s)
  case (Cons c cs)
  then obtain s1 where "s = c # s1" "sscanf_items (map Lit cs @ ds) s1 = xs" using items_Lit [of c "map Lit cs @ ds" s xs] by auto
  with Cons.IH [of s1] Cons.prems(2) show ?case by auto
qed simp

lemma items_Lits_match: "sscanf_items (map Lit cs @ ds) (cs @ s) = sscanf_items ds s"
  by (induction cs) auto

lemma items_Lits_only: "sscanf_items (map Lit cs) s = []"
  by (induction cs arbitrary: s) (auto split: list.splits)

lemma items_Run:
  assumes "sscanf_items (Run (Some n) True P # ds) s = m # xs" "length m < n"
  shows "\<exists>s'. s = m @ s' \<and> list_all P m \<and> ends_run P s' \<and> sscanf_items ds s' = xs"
proof -
  have m: "takeWhile P (take n s) = m" "sscanf_items ds (drop (length m) s) = xs" using assms(1) by (auto simp: Let_def split: if_splits)
  from take_run_drop [OF m(1) assms(2)] m(2) show ?thesis by blast
qed

lemma items_skip_Run:
  assumes "sscanf_items (Run None False P # ds) s = xs" "xs \<noteq> []"
  shows "\<exists>m s'. s = m @ s' \<and> m \<noteq> [] \<and> list_all P m \<and> ends_run P s' \<and> sscanf_items ds s' = xs"
  using assms run_drop [of P s]
  by (intro exI [of _ "takeWhile P s"] exI [of _ "drop (length (takeWhile P s)) s"]) (auto simp: Let_def split: if_splits)

lemma items_SkipUInt:
  assumes "sscanf_items (SkipUInt # ds) s = xs" "xs \<noteq> []"
  shows "\<exists>m s'. s = m @ s' \<and> is_uint m \<and> ends_run is_dec s' \<and> sscanf_items ds s' = xs"
proof -
  let ?t = "dropWhile is_space_c s"
  let ?u = "skip_sign ?t"
  let ?d = "takeWhile is_dec ?u"
  obtain sg where sg: "?t = sg @ ?u" "sg = [] \<or> sg = ''+'' \<or> sg = ''-''" using skip_sign_split by blast
  have "s = (takeWhile is_space_c s @ sg @ ?d) @ drop (length ?d) ?u"
    using takeWhile_dropWhile_id [of is_space_c s] sg(1) run_drop(1) [of is_dec ?u] by (metis append.assoc)
  moreover have "?d \<noteq> []" "sscanf_items ds (drop (length ?d) ?u) = xs" using assms by (auto simp: Let_def split: if_splits)
  moreover have "is_uint (takeWhile is_space_c s @ sg @ ?d)"
    unfolding is_uint_def using sg(2) run_drop(2) \<open>?d \<noteq> []\<close> by blast
  ultimately show ?thesis using run_drop(3) [of is_dec ?u] by blast
qed

text \<open>The directives read back what was put together of the parts.\<close>

lemma items_Run_match:
  "list_all P m \<Longrightarrow> ends_run P s \<Longrightarrow> length m < n \<Longrightarrow> m \<noteq> [] \<Longrightarrow> sscanf_items (Run (Some n) True P # ds) (m @ s) = m # sscanf_items ds s"
  by (simp add: take_run Let_def del: take_append)

lemma items_skip_Run_match:
  "list_all P m \<Longrightarrow> ends_run P s \<Longrightarrow> m \<noteq> [] \<Longrightarrow> sscanf_items (Run None False P # ds) (m @ s) = sscanf_items ds s"
  by (simp add: takeWhile_run Let_def del: takeWhile_append)

lemma items_SkipUInt_match:
  assumes "is_uint m" "ends_run is_dec s"
  shows "sscanf_items (SkipUInt # ds) (m @ s) = sscanf_items ds s"
proof -
  obtain ws sg d where m: "m = ws @ sg @ d" "list_all is_space_c ws" "sg = [] \<or> sg = ''+'' \<or> sg = ''-''" "d \<noteq> []" "list_all is_dec d"
    using assms(1) unfolding is_uint_def by blast
  obtain c d' where d: "d = c # d'" using m(4) by (cases d) auto
  have c: "is_dec c" using m(5) d by simp
  have ns: "\<not> is_space_c c" "c \<noteq> CHR ''+''" "c \<noteq> CHR ''-''" using c by (auto simp: is_dec_def is_space_c_def)
  have "\<not> is_space_c (CHR ''+'')" "\<not> is_space_c (CHR ''-'')" by (simp_all add: is_space_c_def)
  then have "dropWhile is_space_c (m @ s) = sg @ d @ s"
    using m(1-3) ns d by (auto simp: dropWhile_append list_all_iff)
  moreover have "skip_sign (sg @ d @ s) = d @ s" using m(3) ns d by (auto simp: skip_sign_def)
  ultimately show ?thesis using takeWhile_run [OF m(5) assms(2)] m(4) by (simp add: Let_def)
qed

text \<open>
  The terminals of cygwin are recognised by their name: a handle counts as one exactly when its name is a backslash, \<open>msys\<close> or
  \<open>cygwin\<close>, a hexadecimal number, \<open>pty\<close> with a number, and the word \<open>from\<close> or \<open>to\<close>, joined by hyphens. What comes after that word is not tested.
\<close>

theorem cygpty_iff:
  "is_cygpty_pipe (\<lambda>_. Some u) (\<lambda>_. Some n) \<longleftrightarrow>
   (\<exists>orig hex num dir rest. n = [CHR 0x5C] @ orig @ ''-'' @ hex @ ''-pty'' @ num @ ''-'' @ dir @ rest
      \<and> (orig = ''msys'' \<or> orig = ''cygwin'') \<and> hex \<noteq> [] \<and> list_all is_hex hex \<and> is_uint num
      \<and> (dir = ''from'' \<or> dir = ''to'') \<and> ends_run is_az rest)" (is "?l \<longleftrightarrow> ?r")
proof
  assume ?l
  then obtain orig dir where i: "sscanf_items cygpty_format n = [orig, dir]"
    and o: "orig = ''msys'' \<or> orig = ''cygwin''" and d: "dir = ''from'' \<or> dir = ''to''"
    by (auto simp: is_cygpty_pipe_def split: list.splits)
  have len: "length orig < 7" "length dir < 15" using o d by auto
  obtain s1 where s1: "n = CHR 0x5C # s1"
    "sscanf_items (Run (Some 7) True is_az # Lit (CHR ''-'') # Run None False is_hex # map Lit ''-pty'' @ SkipUInt # Lit (CHR ''-'') # Run (Some 15) True is_az # map Lit ''-master'') s1 = [orig, dir]"
    using items_Lit [OF i [unfolded cygpty_format_def append_Cons append_Nil]] by auto
  obtain s2 where s2: "s1 = orig @ s2"
    "sscanf_items (Lit (CHR ''-'') # Run None False is_hex # map Lit ''-pty'' @ SkipUInt # Lit (CHR ''-'') # Run (Some 15) True is_az # map Lit ''-master'') s2 = [dir]"
    using items_Run [OF s1(2) len(1)] by blast
  obtain s3 where s3: "s2 = CHR ''-'' # s3"
    "sscanf_items (Run None False is_hex # map Lit ''-pty'' @ SkipUInt # Lit (CHR ''-'') # Run (Some 15) True is_az # map Lit ''-master'') s3 = [dir]"
    using items_Lit [OF s2(2)] by blast
  obtain hex s4 where s4: "s3 = hex @ s4" "hex \<noteq> []" "list_all is_hex hex"
    "sscanf_items (map Lit ''-pty'' @ SkipUInt # Lit (CHR ''-'') # Run (Some 15) True is_az # map Lit ''-master'') s4 = [dir]"
    using items_skip_Run [OF s3(2)] by blast
  obtain s5 where s5: "s4 = ''-pty'' @ s5" "sscanf_items (SkipUInt # Lit (CHR ''-'') # Run (Some 15) True is_az # map Lit ''-master'') s5 = [dir]"
    using items_Lits [OF s4(4)] by blast
  obtain num s6 where s6: "s5 = num @ s6" "is_uint num" "sscanf_items (Lit (CHR ''-'') # Run (Some 15) True is_az # map Lit ''-master'') s6 = [dir]"
    using items_SkipUInt [OF s5(2)] by blast
  obtain s7 where s7: "s6 = CHR ''-'' # s7" "sscanf_items (Run (Some 15) True is_az # map Lit ''-master'') s7 = [dir]"
    using items_Lit [OF s6(3)] by blast
  obtain rest where s8: "s7 = dir @ rest" "ends_run is_az rest" using items_Run [OF s7(2) len(2)] by blast
  have "n = [CHR 0x5C] @ orig @ ''-'' @ hex @ ''-pty'' @ num @ ''-'' @ dir @ rest"
    by (simp add: s1(1) s2(1) s3(1) s4(1) s5(1) s6(1) s7(1) s8(1))
  with o d s4(2,3) s6(2) s8(2) show ?r by blast
next
  assume ?r
  then obtain orig hex num dir rest where n: "n = [CHR 0x5C] @ orig @ ''-'' @ hex @ ''-pty'' @ num @ ''-'' @ dir @ rest"
    and o: "orig = ''msys'' \<or> orig = ''cygwin''" and h: "hex \<noteq> []" "list_all is_hex hex" and u: "is_uint num"
    and d: "dir = ''from'' \<or> dir = ''to''" and e: "ends_run is_az rest" by blast
  have o': "list_all is_az orig" "length orig < 7" "orig \<noteq> []" and d': "list_all is_az dir" "length dir < 15" "dir \<noteq> []"
    using o d by (auto simp: is_az_def)
  have stop: "ends_run is_az (CHR ''-'' # s)" "ends_run is_hex (''-pty'' @ s)" "ends_run is_dec (CHR ''-'' # s)" for s
    by (simp_all add: ends_run_def is_az_def is_hex_def is_dec_def)
  let ?tail = "Lit (CHR ''-'') # Run (Some 15) True is_az # map Lit ''-master''" and ?t = "CHR ''-'' # dir @ rest"
  have "sscanf_items ?tail ?t = [dir]"
    using items_Run_match [OF d'(1) e d'(2,3), of "map Lit ''-master''"] by (simp only: sscanf_items.simps(2) list.case if_True refl items_Lits_only)
  then have "sscanf_items (map Lit ''-pty'' @ SkipUInt # ?tail) (''-pty'' @ num @ ?t) = [dir]"
    unfolding items_Lits_match using items_SkipUInt_match [OF u stop(3)] by metis
  then have "sscanf_items (Run None False is_hex # map Lit ''-pty'' @ SkipUInt # ?tail) (hex @ ''-pty'' @ num @ ?t) = [dir]"
    using items_skip_Run_match [OF h(2) stop(2) h(1)] by metis
  then have "sscanf_items (Lit (CHR ''-'') # Run None False is_hex # map Lit ''-pty'' @ SkipUInt # ?tail) (CHR ''-'' # hex @ ''-pty'' @ num @ ?t) = [dir]"
    by (simp only: sscanf_items.simps(2) list.case if_True refl)
  then have "sscanf_items (Run (Some 7) True is_az # Lit (CHR ''-'') # Run None False is_hex # map Lit ''-pty'' @ SkipUInt # ?tail)
      (orig @ CHR ''-'' # hex @ ''-pty'' @ num @ ?t) = [orig, dir]"
    using items_Run_match [OF o'(1) stop(1) o'(2,3)] by metis
  then have "sscanf_items cygpty_format n = [orig, dir]"
    unfolding n cygpty_format_def append_Cons append_Nil by (simp only: sscanf_items.simps(2) list.case if_True refl append_Cons append_Nil)
  with o d show ?l by (auto simp: is_cygpty_pipe_def)
qed

lemma cygpty_without_master: "is_cygpty_pipe (\<lambda>_. Some u) (\<lambda>_. Some (CHR 0x5C # ''msys-0-pty0-from''))"
  by code_simp

end
