(* ===== verification/Shm_Win32.thy ===== *)
theory Shm_Win32
  imports Registry Win_Fd
begin

text \<open>
  Shared memory on Windows (\<^verbatim>\<open>src/src/shm-win32.c\<close>): the translation of protections, the mapping of files, and shared memory objects,
  which are files in a folder for temporary files. The memory manager and the file functions of Windows are parameters.
\<close>

section \<open>Mapping of files\<close>

definition PAGE_READONLY :: int where "PAGE_READONLY = 0x02"
definition PAGE_READWRITE :: int where "PAGE_READWRITE = 0x04"
definition PAGE_EXECUTE_READ :: int where "PAGE_EXECUTE_READ = 0x20"
definition PAGE_EXECUTE_READWRITE :: int where "PAGE_EXECUTE_READWRITE = 0x40"
definition FILE_MAP_COPY :: int where "FILE_MAP_COPY = 0x01"
definition FILE_MAP_READ :: int where "FILE_MAP_READ = 0x04"
definition FILE_MAP_ALL_ACCESS :: int where "FILE_MAP_ALL_ACCESS = 0xF001F"
definition FILE_MAP_EXECUTE :: int where "FILE_MAP_EXECUTE = 0x20"

definition get_win32_page_protect :: "int \<Rightarrow> int \<times> int" where
  "get_win32_page_protect mflags =
     (let (protect, access) = (if mflags AND MM_MAP_READ \<noteq> 0 then (PAGE_READONLY, FILE_MAP_READ) else (0, 0));
          (protect, access) = (if mflags AND MM_MAP_WRITE \<noteq> 0 then (PAGE_READWRITE, FILE_MAP_ALL_ACCESS) else (protect, access));
          access = (if mflags AND MM_MAP_SHARED = 0 then FILE_MAP_COPY else access)
      in if mflags AND MM_MAP_EXEC \<noteq> 0 then (push_bit 4 protect, access OR FILE_MAP_EXECUTE) else (protect, access))"

text \<open>
  \<open>reg_size\<close> is the size of a regular file, if the status of the handle can be read. The view starts at the offset, given in two halves.
\<close>

record 'w map_env =
  fd_handle :: "int \<Rightarrow> int option"
  create_mapping :: "int \<Rightarrow> int \<Rightarrow> 'w \<Rightarrow> int option \<times> 'w"
  map_view :: "int \<Rightarrow> int \<Rightarrow> int \<Rightarrow> int \<Rightarrow> int \<Rightarrow> 'w \<Rightarrow> int option \<times> 'w"
  reg_size :: "int \<Rightarrow> 'w \<Rightarrow> int option"
  unmap_view :: "int \<Rightarrow> 'w \<Rightarrow> bool \<times> 'w"
  close_mapping :: "int \<Rightarrow> 'w \<Rightarrow> 'w"
  map_error :: "'w \<Rightarrow> w32err"

definition map_view_error :: "'w map_env \<Rightarrow> int \<Rightarrow> int \<Rightarrow> 'w \<Rightarrow> errcode" where
  "map_view_error env hfile len w =
     (if map_error env w = ERROR_ACCESS_DENIED \<and> (case reg_size env hfile w of None \<Rightarrow> False | Some sz \<Rightarrow> sz < len) then EOVERFLOW
      else get_errcode_from_w32err (map_error env w))"

definition mm_mapfile_win32 :: "'w map_env \<Rightarrow> int \<Rightarrow> int \<Rightarrow> int \<Rightarrow> int \<Rightarrow> 'w \<Rightarrow> (errcode + int) \<times> 'w" where
  "mm_mapfile_win32 env fd offset len mflags w =
     (case fd_handle env fd of
        None \<Rightarrow> (Inl EBADF, w)
      | Some hfile \<Rightarrow>
          let (protect, access) = get_win32_page_protect mflags
          in case create_mapping env hfile protect w of
               (None, w) \<Rightarrow> (Inl (get_errcode_from_w32err (map_error env w)), w)
             | (Some hmap, w) \<Rightarrow>
                 (case map_view env hmap access (drop_bit 32 offset mod 2 ^ 32) (offset AND 0xFFFFFFFF) len w of
                    (None, w) \<Rightarrow> (Inl (map_view_error env hfile len w), close_mapping env hmap w)
                  | (Some ptr, w) \<Rightarrow> (Inr ptr, close_mapping env hmap w)))"

definition mm_unmap_win32 :: "'w map_env \<Rightarrow> int option \<Rightarrow> 'w \<Rightarrow> retcode \<times> 'w" where
  "mm_unmap_win32 env addr w =
     (case addr of
        None \<Rightarrow> (None, w)
      | Some a \<Rightarrow> (case unmap_view env a w of (ok, w) \<Rightarrow> (if ok then None else Some (get_errcode_from_w32err (map_error env w)), w)))"

section \<open>Shared memory objects\<close>

definition MAX_ATTEMPT :: nat where "MAX_ATTEMPT = 32"
definition MAX_NAME :: nat where "MAX_NAME = 256"
definition SHMROOT_PATH_MAXLEN :: nat where "SHMROOT_PATH_MAXLEN = 512"

definition FILENAME_SIZE :: nat where "FILENAME_SIZE = SHMROOT_PATH_MAXLEN + MAX_NAME + 8"

record 'w shm_env =
  env_tmp :: "string option"
  shm_mkdir :: "string \<Rightarrow> 'w \<Rightarrow> 'w"
  perf_low :: "'w \<Rightarrow> nat \<times> 'w"
  create_shm :: "string \<Rightarrow> 'w \<Rightarrow> int option \<times> 'w"
  shm_wrap :: "int \<Rightarrow> 'w \<Rightarrow> (errcode + int) \<times> 'w"
  shm_close :: "int \<Rightarrow> 'w \<Rightarrow> 'w"
  shm_error :: "'w \<Rightarrow> w32err"
  open_file :: "string \<Rightarrow> int \<Rightarrow> int \<Rightarrow> 'w \<Rightarrow> (errcode + int) \<times> 'w"
  unlink_file :: "string \<Rightarrow> 'w \<Rightarrow> retcode \<times> 'w"

text \<open>The folder is determined at the first call and kept in a static buffer, here the first component of the state.\<close>

definition get_shm_path :: "'w shm_env \<Rightarrow> string \<times> 'w \<Rightarrow> string \<times> string \<times> 'w" where
  "get_shm_path env = (\<lambda>(shm_root, w).
     if shm_root \<noteq> [] then (shm_root, shm_root, w)
     else let root = take (SHMROOT_PATH_MAXLEN - 1) (case_option (''C:'' @ [CHR 0x5C] @ ''WINDOWS'' @ [CHR 0x5C] @ ''TEMP'') id (env_tmp env) @ ''/shm'')
          in (root, root, shm_mkdir env root w))"

text \<open>\<open>sprintf\<close> in a buffer of \<open>FILENAME_SIZE\<close> bytes: \<open>None\<close> when it writes behind its end.\<close>

definition shm_filename :: "string \<Rightarrow> string \<Rightarrow> string option" where
  "shm_filename root name = (if length root + 1 + length name + 1 > FILENAME_SIZE then None else Some (root @ ''/'' @ name))"

fun anon_attempts :: "'w shm_env \<Rightarrow> nat \<Rightarrow> string \<times> 'w \<Rightarrow> (int option \<times> string \<times> 'w) option" where
  "anon_attempts env 0 (shm_root, w) = Some (None, shm_root, w)"
| "anon_attempts env (Suc n) (shm_root, w) =
     (let (randval, w) = perf_low env w; (root, shm_root, w) = get_shm_path env (shm_root, w)
      in case shm_filename root (''mmlib-shm-'' @ dec_nat randval) of
           None \<Rightarrow> None
         | Some filename \<Rightarrow>
             (case create_shm env filename w of
                (Some hnd, w) \<Rightarrow> Some (Some hnd, shm_root, w)
              | (None, w) \<Rightarrow> anon_attempts env n (shm_root, w)))"

definition mm_anon_shm :: "'w shm_env \<Rightarrow> string \<times> 'w \<Rightarrow> ((errcode + int) \<times> string \<times> 'w) option" where
  "mm_anon_shm env s =
     (case anon_attempts env MAX_ATTEMPT s of
        None \<Rightarrow> None
      | Some (None, shm_root, w) \<Rightarrow> Some (Inl (get_errcode_from_w32err (shm_error env w)), shm_root, w)
      | Some (Some hnd, shm_root, w) \<Rightarrow>
          (case shm_wrap env hnd w of
             (Inl e, w) \<Rightarrow> Some (Inl e, shm_root, shm_close env hnd w)
           | (Inr fd, w) \<Rightarrow> Some (Inr fd, shm_root, w)))"

definition mm_shm_open :: "'w shm_env \<Rightarrow> string \<Rightarrow> int \<Rightarrow> int \<Rightarrow> string \<times> 'w \<Rightarrow> ((errcode + int) \<times> string \<times> 'w) option" where
  "mm_shm_open env name oflag mode s =
     (case get_shm_path env s of
        (root, shm_root, w) \<Rightarrow>
          map_option (\<lambda>filename. case open_file env filename oflag mode w of (r, w) \<Rightarrow> (r, shm_root, w)) (shm_filename root name))"

definition mm_shm_unlink :: "'w shm_env \<Rightarrow> string \<Rightarrow> string \<times> 'w \<Rightarrow> (retcode \<times> string \<times> 'w) option" where
  "mm_shm_unlink env name s =
     (case get_shm_path env s of
        (root, shm_root, w) \<Rightarrow>
          map_option (\<lambda>filename. case unlink_file env filename w of (r, w) \<Rightarrow> (r, shm_root, w)) (shm_filename root name))"

section \<open>Mappings and what they leave behind\<close>

lemma page_protect_table:
  assumes "mflags AND MM_MAP_READ \<noteq> 0 \<or> mflags AND MM_MAP_WRITE \<noteq> 0"
  shows "fst (get_win32_page_protect mflags) =
    (if mflags AND MM_MAP_EXEC \<noteq> 0 then (if mflags AND MM_MAP_WRITE \<noteq> 0 then PAGE_EXECUTE_READWRITE else PAGE_EXECUTE_READ)
     else if mflags AND MM_MAP_WRITE \<noteq> 0 then PAGE_READWRITE else PAGE_READONLY)"
  using assms by (auto simp: get_win32_page_protect_def Let_def PAGE_READONLY_def PAGE_READWRITE_def PAGE_EXECUTE_READ_def PAGE_EXECUTE_READWRITE_def)

text \<open>Execution without reading gives the protection 0, which is none.\<close>

lemma page_protect_exec_only: "fst (get_win32_page_protect (MM_MAP_EXEC OR MM_MAP_SHARED)) = 0"
  by (simp add: get_win32_page_protect_def MM_MAP_EXEC_def MM_MAP_SHARED_def MM_MAP_READ_def MM_MAP_WRITE_def)

text \<open>What is expected of the memory manager: mapping objects as a set, views as a map from their address to offset and length.\<close>

definition map_law :: "'w map_env \<Rightarrow> ('w \<Rightarrow> int set) \<Rightarrow> ('w \<Rightarrow> int \<rightharpoonup> int \<times> int) \<Rightarrow> bool" where
  "map_law env objs views \<longleftrightarrow>
     (\<forall>h p w. case create_mapping env h p w of
        (None, w') \<Rightarrow> objs w' = objs w \<and> views w' = views w
      | (Some m, w') \<Rightarrow> m \<notin> objs w \<and> objs w' = insert m (objs w) \<and> views w' = views w)
     \<and> (\<forall>m a oh ol n w. case map_view env m a oh ol n w of
        (None, w') \<Rightarrow> objs w' = objs w \<and> views w' = views w
      | (Some p, w') \<Rightarrow> objs w' = objs w \<and> views w p = None \<and> views w' = (views w)(p \<mapsto> (oh * 2 ^ 32 + ol, n)))
     \<and> (\<forall>m w. objs (close_mapping env m w) = objs w - {m} \<and> views (close_mapping env m w) = views w)
     \<and> (\<forall>a w. case unmap_view env a w of
        (ok, w') \<Rightarrow> objs w' = objs w \<and> (ok \<longleftrightarrow> views w a \<noteq> None) \<and> views w' = (if ok then (views w)(a := None) else views w))"

lemma map_lawD:
  assumes "map_law env objs views"
  shows "create_mapping env h p w = (None, w') \<Longrightarrow> objs w' = objs w \<and> views w' = views w"
    "create_mapping env h p w = (Some m, w') \<Longrightarrow> m \<notin> objs w \<and> objs w' = insert m (objs w) \<and> views w' = views w"
    "map_view env m a oh ol n w = (None, w') \<Longrightarrow> objs w' = objs w \<and> views w' = views w"
    "map_view env m a oh ol n w = (Some q, w') \<Longrightarrow> objs w' = objs w \<and> views w q = None \<and> views w' = (views w)(q \<mapsto> (oh * 2 ^ 32 + ol, n))"
    "objs (close_mapping env m w) = objs w - {m} \<and> views (close_mapping env m w) = views w"
    "unmap_view env x w = (ok, w') \<Longrightarrow> objs w' = objs w \<and> (ok \<longleftrightarrow> views w x \<noteq> None) \<and> views w' = (if ok then (views w)(x := None) else views w)"
proof -
  note l = assms [unfolded map_law_def]
  note c = l [THEN conjunct1, THEN spec [of _ h], THEN spec [of _ p], THEN spec [of _ w]] and v = l [THEN conjunct2, THEN conjunct1, THEN spec [of _ m], THEN spec [of _ a], THEN spec [of _ oh], THEN spec [of _ ol], THEN spec [of _ n], THEN spec [of _ w]]
    and cl = l [THEN conjunct2, THEN conjunct2, THEN conjunct1, THEN spec [of _ m], THEN spec [of _ w]]
    and u = l [THEN conjunct2, THEN conjunct2, THEN conjunct2, THEN spec [of _ x], THEN spec [of _ w]]
  show "create_mapping env h p w = (None, w') \<Longrightarrow> objs w' = objs w \<and> views w' = views w"
    "create_mapping env h p w = (Some m, w') \<Longrightarrow> m \<notin> objs w \<and> objs w' = insert m (objs w) \<and> views w' = views w"
    using c by simp_all
  show "map_view env m a oh ol n w = (None, w') \<Longrightarrow> objs w' = objs w \<and> views w' = views w"
    "map_view env m a oh ol n w = (Some q, w') \<Longrightarrow> objs w' = objs w \<and> views w q = None \<and> views w' = (views w)(q \<mapsto> (oh * 2 ^ 32 + ol, n))"
    using v by simp_all
  show "objs (close_mapping env m w) = objs w - {m} \<and> views (close_mapping env m w) = views w" using cl .
  show "unmap_view env x w = (ok, w') \<Longrightarrow> objs w' = objs w \<and> (ok \<longleftrightarrow> views w x \<noteq> None) \<and> views w' = (if ok then (views w)(x := None) else views w)"
    using u by simp
qed

lemma offset_halves: "0 \<le> offset \<Longrightarrow> offset < 2 ^ 63 \<Longrightarrow> drop_bit 32 offset mod 2 ^ 32 * 2 ^ 32 + (offset AND 0xFFFFFFFF) = (offset :: int)"
proof -
  assume o: "0 \<le> offset" "offset < 2 ^ 63"
  have "offset AND 0xFFFFFFFF = offset mod 2 ^ 32" using take_bit_eq_mask [of 32 offset] by (simp add: take_bit_eq_mod mask_eq_exp_minus_1)
  moreover have "offset div 2 ^ 32 mod 2 ^ 32 = offset div 2 ^ 32" using o by (intro mod_pos_pos_trivial) (auto simp: pos_imp_zdiv_nonneg_iff)
  ultimately show ?thesis by (simp add: drop_bit_eq_div)
qed


text \<open>A memory manager with one file of 4096 bytes; its world has the mapping objects, the views and the last error.\<close>

definition demo_map :: "(int list \<times> (int \<times> int \<times> int) list \<times> w32err) map_env" where
  "demo_map = \<lparr>fd_handle = (\<lambda>fd. if fd = 3 then Some 30 else None),
     create_mapping = (\<lambda>h p (ms, vs, e). if p = 0 then (None, ms, vs, W32Other 87) else (Some (foldr max ms 0 + 1), (foldr max ms 0 + 1) # ms, vs, e)),
     map_view = (\<lambda>m a oh ol n (ms, vs, e).
       if oh * 2 ^ 32 + ol + n > 4096 then (None, ms, vs, ERROR_ACCESS_DENIED)
       else (Some (foldr max (map fst vs) 0 + 1), ms, (foldr max (map fst vs) 0 + 1, oh * 2 ^ 32 + ol, n) # vs, e)),
     reg_size = (\<lambda>_ _. Some 4096),
     unmap_view = (\<lambda>a (ms, vs, e). (map_of vs a \<noteq> None, ms, filter (\<lambda>(b, _). b \<noteq> a) vs, e)),
     close_mapping = (\<lambda>m (ms, vs, e). (filter (\<lambda>b. b \<noteq> m) ms, vs, e)), map_error = (\<lambda>(_, _, e). e)\<rparr>"

lemma demo_map_law: "map_law demo_map (\<lambda>(ms, _). set ms) (\<lambda>(_, vs, _). map_of vs)"
proof -
  have fresh: "foldr max xs 0 + 1 \<notin> set xs" for xs :: "int list" using foldr_max(1) [of "foldr max xs 0 + 1" xs 0] by auto
  have "map_of vs (foldr max (map fst vs) 0 + 1) = None" for vs :: "(int \<times> int \<times> int) list"
    using fresh [of "map fst vs"] by (simp add: map_of_eq_None_iff)
  moreover have "map_of (filter (\<lambda>(b, _). b \<noteq> a) vs) = (map_of vs)(a := None)" for a and vs :: "(int \<times> int \<times> int) list"
    by (rule map_of_filter_neq)
  moreover have "(map_of vs)(a := None) = map_of vs" if "\<forall>x y. map_of vs a \<noteq> Some (x, y)" for a and vs :: "(int \<times> int \<times> int) list"
    using that by (cases "map_of vs a") auto
  ultimately show ?thesis using fresh by (auto simp: map_law_def demo_map_def)
qed


section \<open>Anonymous objects\<close>

definition shm_law :: "'w shm_env \<Rightarrow> ('w \<Rightarrow> int set) \<Rightarrow> ('w \<Rightarrow> int \<rightharpoonup> int) \<Rightarrow> bool" where
  "shm_law env handles fds \<longleftrightarrow>
     (\<forall>p w. handles (shm_mkdir env p w) = handles w \<and> fds (shm_mkdir env p w) = fds w)
     \<and> (\<forall>w. case perf_low env w of (v, w') \<Rightarrow> v < 2 ^ 32 \<and> handles w' = handles w \<and> fds w' = fds w)
     \<and> (\<forall>p w. case create_shm env p w of
          (None, w') \<Rightarrow> handles w' = handles w \<and> fds w' = fds w
        | (Some h, w') \<Rightarrow> h \<notin> handles w \<and> handles w' = insert h (handles w) \<and> fds w' = fds w)
     \<and> (\<forall>h w. case shm_wrap env h w of
          (Inl e, w') \<Rightarrow> handles w' = handles w \<and> fds w' = fds w
        | (Inr fd, w') \<Rightarrow> handles w' = handles w \<and> fds w fd = None \<and> fds w' = (fds w)(fd \<mapsto> h))
     \<and> (\<forall>h w. handles (shm_close env h w) = handles w - {h} \<and> fds (shm_close env h w) = fds w)"

lemma shm_path_len: "length root < SHMROOT_PATH_MAXLEN \<Longrightarrow> get_shm_path env (root, w) = (p, root', w') \<Longrightarrow> p = root' \<and> length root' < SHMROOT_PATH_MAXLEN"
  by (auto simp: get_shm_path_def SHMROOT_PATH_MAXLEN_def Let_def simp del: take_append split: if_splits)

text \<open>The folder never changes once it is determined, whatever the environment says later.\<close>

lemma shm_path_fixed: "get_shm_path env (root, w) = (p, root', w') \<Longrightarrow> get_shm_path env' (root', v) = (p, root', v)"
  by (auto simp: get_shm_path_def Let_def SHMROOT_PATH_MAXLEN_def split: if_splits)

lemma shm_lawD:
  assumes "shm_law env handles fds"
  shows "handles (shm_mkdir env p w) = handles w \<and> fds (shm_mkdir env p w) = fds w"
    "perf_low env w = (v, w') \<Longrightarrow> v < 2 ^ 32 \<and> handles w' = handles w \<and> fds w' = fds w"
    "create_shm env p w = (None, w') \<Longrightarrow> handles w' = handles w \<and> fds w' = fds w"
    "create_shm env p w = (Some h, w') \<Longrightarrow> h \<notin> handles w \<and> handles w' = insert h (handles w) \<and> fds w' = fds w"
    "shm_wrap env h w = (Inl e, w') \<Longrightarrow> handles w' = handles w \<and> fds w' = fds w"
    "shm_wrap env h w = (Inr fd, w') \<Longrightarrow> handles w' = handles w \<and> fds w fd = None \<and> fds w' = (fds w)(fd \<mapsto> h)"
    "handles (shm_close env h w) = handles w - {h} \<and> fds (shm_close env h w) = fds w"
  using assms unfolding shm_law_def by (fastforce dest: spec split: prod.splits sum.splits option.splits)+

lemma shm_path_keeps:
  "shm_law env handles fds \<Longrightarrow> get_shm_path env (root, w) = (p, root', w') \<Longrightarrow> handles w' = handles w \<and> fds w' = fds w"
  using shm_lawD(1) by (fastforce simp: get_shm_path_def Let_def split: if_splits)

lemma anon_filename_fits:
  assumes "length root < SHMROOT_PATH_MAXLEN" "v < 2 ^ 32"
  shows "\<exists>f. shm_filename root (''mmlib-shm-'' @ dec_nat v) = Some f"
proof -
  have "length (dec_nat v) \<le> Suc 9" using assms(2) by (intro length_dec_nat) simp
  then show ?thesis using assms(1) by (simp add: shm_filename_def FILENAME_SIZE_def SHMROOT_PATH_MAXLEN_def MAX_NAME_def)
qed

lemma anon_attempts_result:
  assumes "shm_law env handles fds" "length root < SHMROOT_PATH_MAXLEN"
  shows "\<exists>r root' w'. anon_attempts env n (root, w) = Some (r, root', w') \<and> fds w' = fds w \<and>
    (case r of None \<Rightarrow> handles w' = handles w | Some h \<Rightarrow> h \<notin> handles w \<and> handles w' = insert h (handles w))"
  using assms(2)
proof (induction n arbitrary: root w)
  case (Suc n)
  obtain v w1 where v: "perf_low env w = (v, w1)" by (cases "perf_low env w")
  obtain p root1 w2 where p: "get_shm_path env (root, w1) = (p, root1, w2)" by (cases "get_shm_path env (root, w1)") auto
  note k = shm_lawD(2) [OF assms(1) v] shm_path_keeps [OF assms(1) p] shm_path_len [OF Suc.prems p]
  obtain f where f: "shm_filename p (''mmlib-shm-'' @ dec_nat v) = Some f" using anon_filename_fits [of root1 v] k by auto
  obtain ho w3 where c: "create_shm env f w2 = (ho, w3)" by (cases "create_shm env f w2")
  show ?case
  proof (cases ho)
    case None
    then have e: "anon_attempts env (Suc n) (root, w) = anon_attempts env n (root1, w3)" using v p f c by simp
    have same: "handles w3 = handles w" "fds w3 = fds w" using k shm_lawD(3) [OF assms(1) c [unfolded None]] by simp_all
    show ?thesis unfolding e using Suc.IH [of root1 w3, unfolded same] k by blast
  next
    case (Some h)
    then show ?thesis using v p f c k shm_lawD(4) [OF assms(1) c [unfolded Some]] by simp
  qed
qed simp

text \<open>
  An anonymous shared memory object: the name fits its buffer for every setting of the environment and every value of the counter, so that the
  call always returns; in case of success the new descriptor stands for a handle that did not exist before, and after a failure
  no handle is left open and no descriptor is in use.
\<close>

theorem anon_shm_result:
  assumes "shm_law env handles fds" "length root < SHMROOT_PATH_MAXLEN"
  shows "\<exists>r root' w'. mm_anon_shm env (root, w) = Some (r, root', w') \<and>
    (case r of
       Inl e \<Rightarrow> handles w' = handles w \<and> fds w' = fds w
     | Inr fd \<Rightarrow> \<exists>h. h \<notin> handles w \<and> handles w' = insert h (handles w) \<and> fds w fd = None \<and> fds w' = (fds w)(fd \<mapsto> h))"
proof -
  obtain ho root1 w1 where a: "anon_attempts env MAX_ATTEMPT (root, w) = Some (ho, root1, w1)" "fds w1 = fds w"
    and h: "case ho of None \<Rightarrow> handles w1 = handles w | Some h \<Rightarrow> h \<notin> handles w \<and> handles w1 = insert h (handles w)"
    using anon_attempts_result [OF assms, of MAX_ATTEMPT w] by blast
  show ?thesis
  proof (cases ho)
    case None
    then show ?thesis using a h by (simp add: mm_anon_shm_def)
  next
    case (Some k)
    obtain r w2 where w: "shm_wrap env k w1 = (r, w2)" by (cases "shm_wrap env k w1")
    show ?thesis
    proof (cases r)
      case (Inl e)
      then show ?thesis
        using a h Some w shm_lawD(5) [OF assms(1) w [unfolded Inl]] shm_lawD(7) [OF assms(1), of k w2] by (simp add: mm_anon_shm_def)
    next
      case (Inr fd)
      then show ?thesis using a h Some w shm_lawD(6) [OF assms(1) w [unfolded Inr]] by (auto simp: mm_anon_shm_def)
    qed
  qed
qed

text \<open>A name of 264 characters or more can be written behind the buffer.\<close>

lemma shm_name_overrun:
  "length root = SHMROOT_PATH_MAXLEN - 1 \<Longrightarrow> 264 \<le> length name \<Longrightarrow> mm_shm_open env name oflag mode (root, w) = None"
  by (auto simp: mm_shm_open_def get_shm_path_def shm_filename_def FILENAME_SIZE_def SHMROOT_PATH_MAXLEN_def MAX_NAME_def)

text \<open>The first two names are in use.\<close>

definition demo_shm :: "(nat \<times> int list \<times> (int \<times> int) list) shm_env" where
  "demo_shm = \<lparr>env_tmp = Some ''T'', shm_mkdir = (\<lambda>_ w. w), perf_low = (\<lambda>(n, w). (n mod 2 ^ 32, Suc n, w)),
     create_shm = (\<lambda>p (n, hs, fs). if n \<le> 2 then (None, n, hs, fs) else (Some (foldr max hs 0 + 1), n, (foldr max hs 0 + 1) # hs, fs)),
     shm_wrap = (\<lambda>h (n, hs, fs). (Inr (foldr max (map fst fs) 0 + 1), n, hs, (foldr max (map fst fs) 0 + 1, h) # fs)),
     shm_close = (\<lambda>h (n, hs, fs). (n, filter (\<lambda>k. k \<noteq> h) hs, fs)), shm_error = (\<lambda>_. ERROR_ACCESS_DENIED),
     open_file = (\<lambda>_ _ _ w. (Inl ENOENT, w)), unlink_file = (\<lambda>_ w. (Some ENOENT, w))\<rparr>"

lemma demo_shm_law: "shm_law demo_shm (\<lambda>(_, hs, _). set hs) (\<lambda>(_, _, fs). map_of fs)"
proof -
  have fresh: "foldr max xs 0 + 1 \<notin> set xs" for xs :: "int list" using foldr_max(1) [of "foldr max xs 0 + 1" xs 0] by auto
  have "map_of vs (foldr max (map fst vs) 0 + 1) = None" for vs :: "(int \<times> int) list"
    using fresh [of "map fst vs"] by (simp add: map_of_eq_None_iff)
  then show ?thesis using fresh by (auto simp: shm_law_def demo_shm_def)
qed

theorem anon_shm_result_witness:
  "\<exists>r root' w'. mm_anon_shm demo_shm ([], 0, [4], []) = Some (r, root', w') \<and>
    (case r of
       Inl e \<Rightarrow> set (fst (snd w')) = {4} \<and> map_of (snd (snd w')) = (\<lambda>_. None)
     | Inr fd \<Rightarrow> \<exists>h. h \<notin> {4} \<and> set (fst (snd w')) = insert h {4} \<and> map_of (snd (snd w')) = [fd \<mapsto> h])"
  using anon_shm_result [OF demo_shm_law, of "[]" "(0, [4], [])"] by (simp add: SHMROOT_PATH_MAXLEN_def case_prod_unfold cong: sum.case_cong)

end
