(* ===== verification/Win_Link.thy ===== *)
theory Win_Link
  imports Win_Attr
begin

text \<open>
  Links, the current directory and the creation of a directory on Windows (\<^verbatim>\<open>src/src/file-win32.c\<close>). Strings of UTF-16 are lists of numbers without
  the terminator; \<open>to16\<close> and \<open>to8\<close> are the conversions, which fail for invalid sequences. The calls of Windows are parameters. A
  buffer that is used without a test of its allocation gives \<open>None\<close>.
\<close>

section \<open>Operations\<close>

type_synonym u16 = "nat list"

text \<open>The data of a symbolic link: tag, position and length in bytes of the substitute name, and the buffer of names.\<close>

record reparse_data =
  ReparseTag :: int
  SubstituteNameOffset :: nat
  SubstituteNameLength :: nat
  PathBuffer :: u16

record 'w link_env =
  to16 :: "string \<Rightarrow> u16 option"
  to8 :: "u16 \<Rightarrow> string option"
  link_alloc :: "nat \<Rightarrow> bool"
  create_hard_link :: "u16 \<Rightarrow> u16 \<Rightarrow> 'w \<Rightarrow> bool \<times> 'w"
  create_symbolic_link :: "u16 \<Rightarrow> u16 \<Rightarrow> int \<Rightarrow> 'w \<Rightarrow> bool \<times> 'w"
  attributes16 :: "u16 \<Rightarrow> 'w \<Rightarrow> int option"
  create_file_meta :: "u16 \<Rightarrow> w32_create_file_options \<Rightarrow> 'w \<Rightarrow> int option \<times> 'w"
  reparse_point :: "int \<Rightarrow> 'w \<Rightarrow> reparse_data option"
  close_meta :: "int \<Rightarrow> 'w \<Rightarrow> 'w"
  chdir16 :: "u16 \<Rightarrow> 'w \<Rightarrow> retcode \<times> 'w"
  current_dir :: "nat \<Rightarrow> 'w \<Rightarrow> nat \<times> u16"
  create_dir :: "u16 \<Rightarrow> int \<Rightarrow> 'w \<Rightarrow> bool \<times> 'w"
  link_error :: "'w \<Rightarrow> w32err"

definition raise_w32 :: "'w link_env \<Rightarrow> 'w \<Rightarrow> errcode" where
  "raise_w32 env w = get_errcode_from_w32err (link_error env w)"

definition buf16 :: "'w link_env \<Rightarrow> u16 \<Rightarrow> bool" where
  "buf16 env s = link_alloc env (2 * (length s + 1))"

definition mm_link :: "'w link_env \<Rightarrow> string \<Rightarrow> string \<Rightarrow> 'w \<Rightarrow> (retcode \<times> 'w) option" where
  "mm_link env oldpath newpath w =
     (case (to16 env oldpath, to16 env newpath) of
        (Some old, Some new) \<Rightarrow>
          if \<not> buf16 env old \<or> \<not> buf16 env new then None
          else (case create_hard_link env new old w of (ok, w) \<Rightarrow> Some (if ok then None else Some (raise_w32 env w), w))
      | _ \<Rightarrow> Some (Some (raise_w32 env w), w))"

definition SYMBOLIC_LINK_FLAG_DIRECTORY :: int where "SYMBOLIC_LINK_FLAG_DIRECTORY = 0x01"
definition SYMBOLIC_LINK_FLAG_ALLOW_UNPRIVILEGED_CREATE :: int where "SYMBOLIC_LINK_FLAG_ALLOW_UNPRIVILEGED_CREATE = 0x02"

text \<open>The creation of a link is tried again without the flag that old systems do not know.\<close>

definition try_symlink :: "'w link_env \<Rightarrow> u16 \<Rightarrow> u16 \<Rightarrow> int \<Rightarrow> 'w \<Rightarrow> bool \<times> 'w" where
  "try_symlink env new target dirflag w =
     (case create_symbolic_link env new target (SYMBOLIC_LINK_FLAG_ALLOW_UNPRIVILEGED_CREATE OR dirflag) w of
        (True, w) \<Rightarrow> (True, w)
      | (False, w) \<Rightarrow> if link_error env w = ERROR_INVALID_PARAMETER then create_symbolic_link env new target dirflag w else (False, w))"

definition mm_symlink :: "'w link_env \<Rightarrow> string \<Rightarrow> string \<Rightarrow> 'w \<Rightarrow> (retcode \<times> 'w) option" where
  "mm_symlink env oldpath newpath w =
     (case (to16 env oldpath, to16 env newpath) of
        (Some old, Some new) \<Rightarrow>
          if \<not> buf16 env old \<or> \<not> buf16 env new then None
          else
            let dirflag = (case attributes16 env old w of
                             Some a \<Rightarrow> if a AND FILE_ATTRIBUTE_DIRECTORY \<noteq> 0 then SYMBOLIC_LINK_FLAG_DIRECTORY else 0
                           | None \<Rightarrow> 0)
            in (case try_symlink env new old dirflag w of (ok, w) \<Rightarrow> Some (if ok then None else Some (raise_w32 env w), w))
      | _ \<Rightarrow> Some (Some (raise_w32 env w), w))"

definition mm_chdir :: "'w link_env \<Rightarrow> string \<Rightarrow> 'w \<Rightarrow> retcode \<times> 'w" where
  "mm_chdir env path w =
     (case to16 env path of
        None \<Rightarrow> (Some (raise_w32 env w), w)
      | Some p \<Rightarrow> if \<not> buf16 env p then (Some (raise_w32 env w), w) else chdir16 env p w)"

text \<open>The loop of \<open>mm_getcwd\<close>: a buffer that is too short is replaced by one of the length that the system asks for.\<close>

partial_function (option) getcwd_loop :: "'w link_env \<Rightarrow> nat \<Rightarrow> 'w \<Rightarrow> (errcode + u16) option" where
  [code]: "getcwd_loop env path_u16_len w =
     (if \<not> link_alloc env (2 * path_u16_len) then Some (Inl ENOMEM)
      else case current_dir env path_u16_len w of
             (ret, path) \<Rightarrow> if ret = 0 then Some (Inl (raise_w32 env w)) else if ret < path_u16_len then Some (Inr path) else getcwd_loop env ret w)"

text \<open>
  \<open>buf\<close> is the size of the buffer of the caller, if there is one. A path that has no UTF-8 form has the length \<open>-1\<close>, which passes the test of the
  size and leaves the buffer as it was: \<open>Inr None\<close>.
\<close>

definition mm_getcwd :: "'w link_env \<Rightarrow> nat option \<Rightarrow> 'w \<Rightarrow> (errcode + string option) option" where
  "mm_getcwd env buf w =
     (case getcwd_loop env 256 w of
        None \<Rightarrow> None
      | Some (Inl e) \<Rightarrow> Some (Inl e)
      | Some (Inr path_u16) \<Rightarrow>
          (case to8 env path_u16 of
             Some path \<Rightarrow>
               (case buf of
                  Some sz \<Rightarrow> Some (if sz < length path + 1 then Inl ERANGE else Inr (Some path))
                | None \<Rightarrow> Some (if link_alloc env (length path + 1) then Inr (Some path) else Inl ENOMEM))
           | None \<Rightarrow> Some (case buf of Some _ \<Rightarrow> Inr None | None \<Rightarrow> Inl ENOMEM)))"

definition MAXIMUM_REPARSE_DATA_BUFFER_SIZE :: nat where "MAXIMUM_REPARSE_DATA_BUFFER_SIZE = 16384"
definition PATH_BUFFER_OFFSET :: nat where "PATH_BUFFER_OFFSET = 20"

definition get_reparse_data :: "'w link_env \<Rightarrow> int \<Rightarrow> 'w \<Rightarrow> reparse_data option" where
  "get_reparse_data env hnd w = (if link_alloc env MAXIMUM_REPARSE_DATA_BUFFER_SIZE then reparse_point env hnd w else None)"

text \<open>
  The target is terminated in place, which can write behind the block: \<open>None\<close>. \<open>Some None\<close> is the null pointer for data that is not of a symbolic link.
\<close>

definition get_target_u16_from_reparse_data :: "reparse_data \<Rightarrow> u16 option option" where
  "get_target_u16_from_reparse_data rep =
     (if ReparseTag rep \<noteq> IO_REPARSE_TAG_SYMLINK then Some None
      else let len = SubstituteNameLength rep div 2
           in if PATH_BUFFER_OFFSET + SubstituteNameOffset rep + 2 * (len + 1) > MAXIMUM_REPARSE_DATA_BUFFER_SIZE then None
              else Some (Some (takeWhile (\<lambda>c. c \<noteq> 0) (take len (drop (SubstituteNameOffset rep div 2) (PathBuffer rep))))))"

text \<open>The length includes the terminator; 0 when there is no target.\<close>

definition get_symlink_target_strlen :: "'w link_env \<Rightarrow> int \<Rightarrow> 'w \<Rightarrow> int option" where
  "get_symlink_target_strlen env hnd w =
     (case get_reparse_data env hnd w of
        None \<Rightarrow> Some 0
      | Some rep \<Rightarrow>
          map_option (\<lambda>t. case t of None \<Rightarrow> 0 | Some u \<Rightarrow> (case to8 env u of None \<Rightarrow> 2 ^ 64 - 1 | Some s \<Rightarrow> int (length s) + 1))
            (get_target_u16_from_reparse_data rep))"

definition mm_readlink_win32 :: "'w link_env \<Rightarrow> string \<Rightarrow> nat \<Rightarrow> 'w \<Rightarrow> ((errcode + string) \<times> 'w) option" where
  "mm_readlink_win32 env path bufsize w =
     (case open_handle_for_metadata (to16 env) (buf16 env) (\<lambda>p opts (sd :: unit secdesc option). create_file_meta env p opts) path True w of
        (None, w) \<Rightarrow> Some (Inl (raise_w32 env w), w)
      | (Some hnd, w) \<Rightarrow>
          (case get_reparse_data env hnd w of
             None \<Rightarrow> Some (Inl (raise_w32 env w), close_meta env hnd w)
           | Some rep \<Rightarrow>
               map_option (\<lambda>t. (case t of
                     None \<Rightarrow> Inl EINVAL
                   | Some u \<Rightarrow> (case to8 env u of
                                None \<Rightarrow> Inl EOVERFLOW
                              | Some s \<Rightarrow> if length s + 1 \<le> bufsize then Inr s else Inl EOVERFLOW), close_meta env hnd w))
                 (get_target_u16_from_reparse_data rep)))"

text \<open>The copy of a link makes one with the same target; a handle that is not of a link gives the null pointer to the system: \<open>None\<close>.\<close>

definition copy_hnd_symlink :: "'w link_env \<Rightarrow> int \<Rightarrow> string \<Rightarrow> 'w \<Rightarrow> (bool \<times> 'w) option" where
  "copy_hnd_symlink env hnd dst w =
     (case to16 env dst of
        None \<Rightarrow> Some (False, w)
      | Some dst16 \<Rightarrow>
          if \<not> buf16 env dst16 then Some (False, w)
          else (case get_reparse_data env hnd w of
                  None \<Rightarrow> Some (False, w)
                | Some rep \<Rightarrow> (case get_target_u16_from_reparse_data rep of
                                 Some (Some target) \<Rightarrow> Some (try_symlink env dst16 target 0 w)
                               | _ \<Rightarrow> None)))"

text \<open>
  \<open>internal_mkdir\<close>; \<open>secdesc\<close> says whether the security descriptor of the mode could be made. A path that is not UTF-8 leads to the release of a
  pointer that was never set: \<open>None\<close>. The error codes are returned without being raised when the caller creates the parents next.
\<close>

definition internal_mkdir_win32 :: "'w link_env \<Rightarrow> bool \<Rightarrow> string \<Rightarrow> int \<Rightarrow> bool \<Rightarrow> 'w \<Rightarrow> (retcode \<times> 'w) option" where
  "internal_mkdir_win32 env secdesc path mode report_recursive w =
     (if \<not> secdesc then Some (Some (raise_w32 env w), w)
      else case to16 env path of
             None \<Rightarrow> None
           | Some path_u16 \<Rightarrow>
               if \<not> buf16 env path_u16 then Some (Some (raise_w32 env w), w)
               else (case create_dir env path_u16 mode w of
                       (True, w) \<Rightarrow> Some (None, w)
                     | (False, w) \<Rightarrow>
                         Some (Some (if report_recursive \<and> link_error env w = ERROR_ALREADY_EXISTS then EEXIST
                                     else if report_recursive \<and> link_error env w = ERROR_PATH_NOT_FOUND then ENOENT
                                     else raise_w32 env w), w)))"

section \<open>Opening files\<close>

text \<open>
  \<open>ids\<close> are the identities of owner, group and everyone, if they can be found; \<open>create_file\<close> gets the path, the options and the descriptor; \<open>osf\<close> is
  \<open>_open_osfhandle\<close>.
\<close>

record ('s, 'w) open_env =
  ids :: "('s \<times> 's \<times> 's) option"
  create_file :: "u16 \<Rightarrow> w32_create_file_options \<Rightarrow> 's secdesc option \<Rightarrow> 'w \<Rightarrow> int option \<times> 'w"
  osf :: "int \<Rightarrow> 'w \<Rightarrow> (errcode + int) \<times> 'w"
  close_hnd :: "int \<Rightarrow> 'w \<Rightarrow> 'w"

definition mm_open ::
  "'w link_env \<Rightarrow> ('s, 'w) open_env \<Rightarrow> string \<Rightarrow> int \<Rightarrow> int \<Rightarrow> fd_table \<times> 'w \<Rightarrow> ((errcode + int) \<times> fd_table \<times> 'w) option" where
  "mm_open env oe path oflag mode = (\<lambda>(tab, w).
     case set_w32_create_file_options oflag of
       None \<Rightarrow> None
     | Some (Inl e) \<Rightarrow> Some (Inl e, tab, w)
     | Some (Inr opts) \<Rightarrow>
         (case ids oe of
            None \<Rightarrow> Some (Inl (raise_w32 env w), tab, w)
          | Some (owner, grp, everyone) \<Rightarrow>
              (case open_handle (to16 env) (buf16 env) (create_file oe) path opts (local_secdesc_init_from_mode owner grp everyone mode) w of
                 (None, w) \<Rightarrow> Some (Inl (raise_w32 env w), tab, w)
               | (Some hnd, w) \<Rightarrow>
                   let fdinfo = FD_TYPE_NORMAL OR (if oflag AND O_APPEND \<noteq> 0 then FD_FLAG_APPEND else 0)
                   in (case osf oe hnd w of
                         (Inl e, w) \<Rightarrow> Some (Inl e, tab, close_hnd oe hnd w)
                       | (Inr fd, w) \<Rightarrow> map_option (\<lambda>(_, tab). (Inr fd, tab, w)) (wrap_handle_into_fd (Some fd) fdinfo tab)))))"

section \<open>The current directory\<close>

text \<open>The system tells the length of the directory, or the size it needs with the terminator.\<close>

definition cwd_law :: "'w link_env \<Rightarrow> u16 \<Rightarrow> 'w \<Rightarrow> bool" where
  "cwd_law env d w \<longleftrightarrow> d \<noteq> [] \<and> (\<forall>n. if length d < n then current_dir env n w = (length d, d) else fst (current_dir env n w) = length d + 1)"

text \<open>
  The current directory is found in at most two rounds, however long it is: \<open>mm_getcwd\<close> returns it when the buffer of the caller has
  room for it and its terminator, or in a new buffer, and reports \<open>ERANGE\<close> otherwise.
\<close>

theorem getcwd_returns:
  assumes "cwd_law env d w" "link_alloc env = (\<lambda>_. True)" "to8 env d = Some path"
  shows "mm_getcwd env buf w = Some (case buf of Some sz \<Rightarrow> if sz < length path + 1 then Inl ERANGE else Inr (Some path) | None \<Rightarrow> Inr (Some path))"
proof -
  have fits: "getcwd_loop env n w = Some (Inr d)" if "length d < n" for n
    using assms(1,2) that by (subst getcwd_loop.simps) (auto simp: cwd_law_def)
  have "getcwd_loop env 256 w = Some (Inr d)"
  proof (cases "length d < 256")
    case False
    then obtain p where "current_dir env 256 w = (length d + 1, p)" using assms(1) unfolding cwd_law_def by (metis prod.collapse)
    then show ?thesis using assms(2) False fits [of "length d + 1"] by (subst getcwd_loop.simps) auto
  qed (rule fits)
  then show ?thesis using assms(2,3) by (auto simp: mm_getcwd_def split: option.split)
qed

section \<open>Links\<close>

text \<open>
  What is expected of the file system for a link with a relative target: \<open>links\<close> gives the targets of the links by their path, and the data of a
  link names its target as substitute name, anywhere in the buffer. Opening a link itself may fail; it does not change the links. When
  \<open>CreateFile\<close> has opened the link itself, the data of the handle is that of the link. What Windows makes of absolute targets is left open.
\<close>

definition data_of :: "u16 \<Rightarrow> reparse_data \<Rightarrow> bool" where
  "data_of t rep \<longleftrightarrow>
     ReparseTag rep = IO_REPARSE_TAG_SYMLINK \<and>
     (\<exists>pre post. PathBuffer rep = pre @ t @ post \<and> SubstituteNameOffset rep = 2 * length pre \<and>
        SubstituteNameLength rep = 2 * length t \<and>
        PATH_BUFFER_OFFSET + 2 * (length pre + length t + 1) \<le> MAXIMUM_REPARSE_DATA_BUFFER_SIZE)"

definition link_law :: "'w link_env \<Rightarrow> (u16 \<Rightarrow> bool) \<Rightarrow> ('w \<Rightarrow> u16 \<rightharpoonup> u16) \<Rightarrow> bool" where
  "link_law env relative links \<longleftrightarrow>
     (\<forall>new t fl w ok w'. create_symbolic_link env new t fl w = (ok, w') \<longrightarrow> links w' = (if ok then (links w)(new \<mapsto> t) else links w))
     \<and> (\<forall>p opts r w w'. create_mode opts = OPEN_EXISTING \<longrightarrow> create_file_meta env p opts w = (r, w') \<longrightarrow> links w' = links w
          \<and> (\<forall>h t rep. r = Some h \<longrightarrow> opens_link opts \<longrightarrow> links w p = Some t \<longrightarrow> relative t \<longrightarrow> reparse_point env h w' = Some rep \<longrightarrow> data_of t rep))
     \<and> (\<forall>h w. links (close_meta env h w) = links w)"

lemma link_lawD:
  assumes "link_law env relative links"
  shows "create_symbolic_link env new t fl w = (ok, w') \<Longrightarrow> links w' = (if ok then (links w)(new \<mapsto> t) else links w)"
    "create_mode opts = OPEN_EXISTING \<Longrightarrow> create_file_meta env p opts w = (r, w') \<Longrightarrow> links w' = links w"
    "create_mode opts = OPEN_EXISTING \<Longrightarrow> create_file_meta env p opts w = (Some h, w') \<Longrightarrow> opens_link opts \<Longrightarrow> links w p = Some t \<Longrightarrow> relative t \<Longrightarrow>
       reparse_point env h w' = Some rep \<Longrightarrow> data_of t rep"
    "links (close_meta env h w) = links w"
proof -
  note l = assms [unfolded link_law_def]
  note opn = l [THEN conjunct2, THEN conjunct1, rule_format]
  show "create_symbolic_link env new t fl w = (ok, w') \<Longrightarrow> links w' = (if ok then (links w)(new \<mapsto> t) else links w)"
    by (rule l [THEN conjunct1, rule_format])
  show "create_mode opts = OPEN_EXISTING \<Longrightarrow> create_file_meta env p opts w = (r, w') \<Longrightarrow> links w' = links w"
    by (rule opn [THEN conjunct1])
  show "create_mode opts = OPEN_EXISTING \<Longrightarrow> create_file_meta env p opts w = (Some h, w') \<Longrightarrow> opens_link opts \<Longrightarrow> links w p = Some t \<Longrightarrow> relative t \<Longrightarrow>
       reparse_point env h w' = Some rep \<Longrightarrow> data_of t rep"
    by (rule opn [THEN conjunct2, rule_format, OF _ _ refl])
  show "links (close_meta env h w) = links w" by (rule l [THEN conjunct2, THEN conjunct2, rule_format])
qed

lemma target_of_data:
  assumes "data_of t rep" "0 \<notin> set t"
  shows "get_target_u16_from_reparse_data rep = Some (Some t)"
proof -
  obtain pre post where b: "PathBuffer rep = pre @ t @ post" "SubstituteNameOffset rep = 2 * length pre" "SubstituteNameLength rep = 2 * length t"
      "PATH_BUFFER_OFFSET + 2 * (length pre + length t + 1) \<le> MAXIMUM_REPARSE_DATA_BUFFER_SIZE"
    and tag: "ReparseTag rep = IO_REPARSE_TAG_SYMLINK"
    using assms(1) unfolding data_of_def by blast
  have "takeWhile (\<lambda>c. c \<noteq> 0) t = t" using assms(2) by (intro takeWhile_eq_all_conv [THEN iffD2]) metis
  then show ?thesis using b tag by (simp add: get_target_u16_from_reparse_data_def Let_def)
qed

lemma try_symlink_links:
  assumes "link_law env relative links" "try_symlink env new t d w = (ok, w')"
  shows "links w' = (if ok then (links w)(new \<mapsto> t) else links w)"
proof -
  note c = link_lawD(1) [OF assms(1)]
  obtain k w1 where a: "create_symbolic_link env new t (SYMBOLIC_LINK_FLAG_ALLOW_UNPRIVILEGED_CREATE OR d) w = (k, w1)" by fastforce
  show ?thesis using assms(2) a c [OF a] c [of new t d w1 ok w'] by (auto simp: try_symlink_def split: bool.splits if_splits)
qed

text \<open>Reading a link with a relative target: the result, or the error of a call of the system.\<close>

lemma readlink_relative:
  assumes "link_law env relative links" "link_alloc env = (\<lambda>_. True)" "to16 env path = Some p" "links w p = Some t" "relative t" "0 \<notin> set t"
    and "to8 env t = Some s"
  shows "\<exists>r w'. mm_readlink_win32 env path sz w = Some (r, w') \<and> links w' = links w
    \<and> (r = (if length s + 1 \<le> sz then Inr s else Inl EOVERFLOW)
       \<or> (\<exists>v. r = Inl (raise_w32 env v) \<and> (create_file_meta env p (metadata_options True) w = (None, v)
            \<or> (\<exists>h. create_file_meta env p (metadata_options True) w = (Some h, v) \<and> reparse_point env h v = None))))"
proof -
  obtain ho w1 where o: "create_file_meta env p (metadata_options True) w = (ho, w1)" by fastforce
  have opn: "open_handle_for_metadata (to16 env) (buf16 env) (\<lambda>p opts (sd :: unit secdesc option). create_file_meta env p opts) path True w = (ho, w1)"
    using assms(2,3) o by (simp add: open_handle_for_metadata_def open_handle_def buf16_def)
  have l: "links w1 = links w" using link_lawD(2) [OF assms(1) _ o] by simp
  show ?thesis
  proof (cases ho)
    case None
    then show ?thesis using opn o l by (auto simp: mm_readlink_win32_def)
  next
    case (Some h)
    have cl: "links (close_meta env h w1) = links w" using link_lawD(4) [OF assms(1)] l by simp
    show ?thesis
    proof (cases "reparse_point env h w1")
      case None
      then show ?thesis using opn o l Some cl assms(2) by (auto simp: mm_readlink_win32_def get_reparse_data_def)
    next
      case rep: (Some rep)
      have "data_of t rep" using link_lawD(3) [OF assms(1) _ o [unfolded Some] _ assms(4,5) rep] by simp
      then show ?thesis
        using opn Some rep cl assms(2,7) target_of_data [OF _ assms(6)] by (simp add: mm_readlink_win32_def get_reparse_data_def)
    qed
  qed
qed

text \<open>
  C37. A link with a relative target reads back as it was made: after \<open>mm_symlink\<close> has succeeded, \<open>mm_readlink\<close> of the new path gives the target, if
  it fits the buffer with its terminator, and \<open>EOVERFLOW\<close> otherwise, unless the system does not open the link itself for its metadata or does
  not give its data, whose error is then raised. Reading changes no link, and a link that could not be made leaves the links as they were.
\<close>

theorem symlink_readlink:
  assumes "link_law env relative links" "link_alloc env = (\<lambda>_. True)"
    and "to16 env old = Some t" "to16 env new = Some n" "relative t" "0 \<notin> set t" "to8 env t = Some s"
    and "mm_symlink env old new w = Some (rc, w1)"
  shows "links w1 = (if rc = None then (links w)(n \<mapsto> t) else links w)
    \<and> (rc = None \<longrightarrow> (\<exists>r w2. mm_readlink_win32 env new sz w1 = Some (r, w2) \<and> links w2 = links w1
        \<and> (r = (if length s + 1 \<le> sz then Inr s else Inl EOVERFLOW)
           \<or> (\<exists>v. r = Inl (raise_w32 env v) \<and> (create_file_meta env n (metadata_options True) w1 = (None, v)
                \<or> (\<exists>h. create_file_meta env n (metadata_options True) w1 = (Some h, v) \<and> reparse_point env h v = None))))))"
proof -
  define d where "d = (case attributes16 env t w of
      Some a \<Rightarrow> if a AND FILE_ATTRIBUTE_DIRECTORY \<noteq> 0 then SYMBOLIC_LINK_FLAG_DIRECTORY else 0 | None \<Rightarrow> 0)"
  obtain ok v where t: "try_symlink env n t d w = (ok, v)" by fastforce
  then have "rc = (if ok then None else Some (raise_w32 env v)) \<and> w1 = v"
    using assms(8) by (simp add: mm_symlink_def buf16_def assms(2,3,4) Let_def flip: d_def)
  then have ok: "try_symlink env n t d w = (ok, w1)" "rc = None \<longleftrightarrow> ok" using t by auto
  have l: "links w1 = (if rc = None then (links w)(n \<mapsto> t) else links w)" using try_symlink_links [OF assms(1) ok(1)] ok(2) by simp
  moreover have "links w1 n = Some t" if "rc = None" using l that by simp
  ultimately show ?thesis using readlink_relative [OF assms(1,2,4) _ assms(5-7), of w1 sz] by blast
qed

text \<open>
  The name that is read is the substitute name: one with the prefix that Windows puts in front of an absolute target is returned with it.
\<close>

lemma readlink_substitute_name:
  assumes "data_of ([92, 63, 63, 92] @ t) rep" "0 \<notin> set t"
  shows "get_target_u16_from_reparse_data rep = Some (Some ([92, 63, 63, 92] @ t))"
  using target_of_data [OF assms(1)] assms(2) by simp

text \<open>A path that is not UTF-8 makes \<open>internal_mkdir\<close> release an uninitialised pointer.\<close>

lemma mkdir_invalid_path: "to16 env path = None \<Longrightarrow> internal_mkdir_win32 env True path mode rr w = None"
  by (simp add: internal_mkdir_win32_def)

section \<open>A file system with links\<close>

text \<open>
  An old system, which refuses the flag for unprivileged users. Links are given by a list of paths and targets; a handle is the position of a link
  in it, and a path is only opened for the link itself; names of more than 4000 characters are refused.
\<close>

type_synonym demo_links = "(u16 \<times> u16) list \<times> w32err"

definition demo_relative :: "u16 \<Rightarrow> bool" where "demo_relative t \<longleftrightarrow> t \<noteq> [] \<and> hd t \<noteq> 92"

definition demo_links :: "demo_links \<Rightarrow> u16 \<rightharpoonup> u16" where
  "demo_links = (\<lambda>(ls, _) p. case map_of ls p of Some t \<Rightarrow> if length t \<le> 4000 then Some t else None | None \<Rightarrow> None)"

definition demo_link :: "demo_links link_env" where
  "demo_link = \<lparr>to16 = (\<lambda>s. Some (map of_char s)), to8 = (\<lambda>u. Some (map char_of u)), link_alloc = (\<lambda>_. True),
     create_hard_link = (\<lambda>_ _ w. (False, w)),
     create_symbolic_link = (\<lambda>new t fl (ls, e).
       if fl AND SYMBOLIC_LINK_FLAG_ALLOW_UNPRIVILEGED_CREATE \<noteq> 0 \<or> length t > 4000 then (False, ls, ERROR_INVALID_PARAMETER) else (True, (new, t) # ls, e)),
     attributes16 = (\<lambda>_ _. None),
     create_file_meta = (\<lambda>p opts (ls, e).
       if opens_link opts \<and> map_of ls p \<noteq> None then (Some (int (length (takeWhile (\<lambda>(k, _). k \<noteq> p) ls))), ls, e) else (None, ls, e)),
     reparse_point = (\<lambda>h (ls, _). let t = snd (ls ! nat h)
       in Some \<lparr>ReparseTag = IO_REPARSE_TAG_SYMLINK, SubstituteNameOffset = 0, SubstituteNameLength = 2 * length t, PathBuffer = t @ t\<rparr>),
     close_meta = (\<lambda>_ w. w), chdir16 = (\<lambda>_ w. (None, w)),
     current_dir = (\<lambda>n _. if n > 300 then (300, replicate 300 97) else (301, [])),
     create_dir = (\<lambda>_ _ w. (True, w)), link_error = snd\<rparr>"

lemma nth_first_key: "map_of ls p = Some t \<Longrightarrow> snd (ls ! length (takeWhile (\<lambda>(k, _). k \<noteq> p) ls)) = t"
  by (induction ls) (auto split: if_splits)

lemma demo_link_law: "link_law demo_link demo_relative demo_links"
proof -
  have "data_of t \<lparr>ReparseTag = IO_REPARSE_TAG_SYMLINK, SubstituteNameOffset = 0, SubstituteNameLength = 2 * length t, PathBuffer = t @ t\<rparr>"
    if "length t \<le> 4000" for t
    using that unfolding data_of_def
    by (intro conjI exI [of _ "[]"] exI [of _ t]) (auto simp: PATH_BUFFER_OFFSET_def MAXIMUM_REPARSE_DATA_BUFFER_SIZE_def)
  then show ?thesis
    by (auto simp: link_law_def demo_link_def demo_links_def Let_def nth_first_key fun_eq_iff split: if_splits option.splits)
qed

theorem getcwd_returns_witness:
  "mm_getcwd demo_link (Some 301) ([], ERROR_INVALID_PARAMETER) = Some (Inr (Some (replicate 300 (CHR ''a''))))"
proof -
  have "cwd_law demo_link (replicate 300 97) ([], ERROR_INVALID_PARAMETER)" by (auto simp: cwd_law_def demo_link_def)
  moreover have "char_of (97 :: nat) = CHR ''a''" by code_simp
  then have "to8 demo_link (replicate 300 97) = Some (replicate 300 (CHR ''a''))" "link_alloc demo_link = (\<lambda>_. True)"
    by (simp_all add: demo_link_def)
  ultimately show ?thesis using getcwd_returns [of demo_link "replicate 300 97" _ "replicate 300 (CHR ''a'')" "Some 301"] by simp
qed

theorem symlink_readlink_witness:
  "\<exists>w2. mm_readlink_win32 demo_link ''n'' 8 ([(map of_char ''n'', map of_char ''t'')], ERROR_INVALID_PARAMETER) = Some (Inr ''t'', w2)"
proof -
  let ?w = "([(map of_char ''n'', map of_char ''t'')], ERROR_INVALID_PARAMETER) :: demo_links"
  have r: "mm_symlink demo_link ''t'' ''n'' ([], ERROR_INVALID_PARAMETER) = Some (None, ?w)"
    by code_simp
  have a: "link_alloc demo_link = (\<lambda>_. True)" "to16 demo_link ''t'' = Some (map of_char ''t'')" "to16 demo_link ''n'' = Some (map of_char ''n'')"
    by (simp_all add: demo_link_def)
  have b: "demo_relative (map of_char ''t'')" "0 \<notin> set (map of_char ''t'' :: u16)" "to8 demo_link (map of_char ''t'') = Some ''t''" by code_simp+
  have "create_file_meta demo_link (map of_char ''n'') (metadata_options True) ?w = (Some 0, ?w)" "reparse_point demo_link 0 ?w \<noteq> None"
    by (simp_all add: demo_link_def)
  moreover have "length ''t'' + 1 \<le> (8 :: nat)" by simp
  ultimately show ?thesis using symlink_readlink [OF demo_link_law a b r, of 8] by (simp only: simp_thms if_True) force
qed

section \<open>What an open leaves behind\<close>

definition open_law :: "('s, 'w) open_env \<Rightarrow> ('w \<Rightarrow> int set) \<Rightarrow> ('w \<Rightarrow> int \<rightharpoonup> int) \<Rightarrow> bool" where
  "open_law oe handles fds \<longleftrightarrow>
     (\<forall>p opts sd w. case create_file oe p opts sd w of
        (None, w') \<Rightarrow> handles w' = handles w \<and> fds w' = fds w
      | (Some h, w') \<Rightarrow> h \<notin> handles w \<and> handles w' = insert h (handles w) \<and> fds w' = fds w)
     \<and> (\<forall>h w. case osf oe h w of
        (Inl e, w') \<Rightarrow> handles w' = handles w \<and> fds w' = fds w
      | (Inr fd, w') \<Rightarrow> handles w' = handles w \<and> fd_ok fd \<and> fds w fd = None \<and> fds w' = (fds w)(fd \<mapsto> h))
     \<and> (\<forall>h w. handles (close_hnd oe h w) = handles w - {h} \<and> fds (close_hnd oe h w) = fds w)"

lemma open_lawD:
  assumes "open_law oe handles fds"
  shows "create_file oe p opts sd w = (None, w') \<Longrightarrow> handles w' = handles w \<and> fds w' = fds w"
    "create_file oe p opts sd w = (Some h, w') \<Longrightarrow> h \<notin> handles w \<and> handles w' = insert h (handles w) \<and> fds w' = fds w"
    "osf oe h w = (Inl e, w') \<Longrightarrow> handles w' = handles w \<and> fds w' = fds w"
    "osf oe h w = (Inr fd, w') \<Longrightarrow> handles w' = handles w \<and> fd_ok fd \<and> fds w fd = None \<and> fds w' = (fds w)(fd \<mapsto> h)"
    "handles (close_hnd oe h w) = handles w - {h} \<and> fds (close_hnd oe h w) = fds w"
proof -
  note l = assms [unfolded open_law_def]
  note c = l [THEN conjunct1, THEN spec [of _ p], THEN spec [of _ opts], THEN spec [of _ sd], THEN spec [of _ w]]
    and o = l [THEN conjunct2, THEN conjunct1, THEN spec [of _ h], THEN spec [of _ w]]
    and cl = l [THEN conjunct2, THEN conjunct2, THEN spec [of _ h], THEN spec [of _ w]]
  show "create_file oe p opts sd w = (None, w') \<Longrightarrow> handles w' = handles w \<and> fds w' = fds w"
    "create_file oe p opts sd w = (Some h, w') \<Longrightarrow> h \<notin> handles w \<and> handles w' = insert h (handles w) \<and> fds w' = fds w"
    using c by simp_all
  show "osf oe h w = (Inl e, w') \<Longrightarrow> handles w' = handles w \<and> fds w' = fds w"
    "osf oe h w = (Inr fd, w') \<Longrightarrow> handles w' = handles w \<and> fd_ok fd \<and> fds w fd = None \<and> fds w' = (fds w)(fd \<mapsto> h)"
    using o by simp_all
  show "handles (close_hnd oe h w) = handles w - {h} \<and> fds (close_hnd oe h w) = fds w" using cl .
qed

text \<open>The handle that was opened, if any, when the table of descriptors is reached.\<close>

lemma open_handle_keeps:
  assumes "open_law oe handles fds" "open_handle (to16 env) (buf16 env) (create_file oe) path opts sd w = (ho, w')"
  shows "fds w' = fds w \<and> (case ho of None \<Rightarrow> handles w' = handles w | Some h \<Rightarrow> h \<notin> handles w \<and> handles w' = insert h (handles w))"
proof (cases ho)
  case None
  then show ?thesis using assms(2) open_lawD(1) [OF assms(1)] by (auto simp: open_handle_def split: option.splits if_splits)
next
  case (Some h)
  then have "\<exists>p. create_file oe p opts sd w = (Some h, w')" using assms(2) by (auto simp: open_handle_def split: option.splits if_splits)
  then show ?thesis using Some open_lawD(2) [OF assms(1)] by auto
qed

text \<open>
  Opening a file on Windows: a descriptor that is returned stands for a handle that was opened by the call, is marked in the table as a file, and
  for appending exactly when that was asked for; after a failure no handle is left open and the table is unchanged.
\<close>

theorem open_no_leak:
  assumes "open_law oe handles fds" "fd_table_ok tab"
  shows "\<exists>r tab' w'. mm_open env oe path oflag mode (tab, w) = Some (r, tab', w') \<and> fd_table_ok tab' \<and>
    (case r of
       Inl e \<Rightarrow> handles w' = handles w \<and> fds w' = fds w \<and> tab' = tab
     | Inr fd \<Rightarrow> (\<exists>h. h \<notin> handles w \<and> handles w' = insert h (handles w) \<and> fds w fd = None \<and> fds w' = (fds w)(fd \<mapsto> h))
         \<and> get_fd_info tab' fd = Some (FD_TYPE_NORMAL OR (if oflag AND O_APPEND \<noteq> 0 then FD_FLAG_APPEND else 0)))"
proof -
  consider (bad) e where "set_w32_create_file_options oflag = Some (Inl e)"
    | (ids) opts where "set_w32_create_file_options oflag = Some (Inr opts)" "ids oe = None"
    | (go) opts owner grp everyone where "set_w32_create_file_options oflag = Some (Inr opts)" "ids oe = Some (owner, grp, everyone)"
    using create_file_options_posix [of oflag] by (cases "set_w32_create_file_options oflag"; cases "ids oe"; cases "the (set_w32_create_file_options oflag)") auto
  then show ?thesis
  proof cases
    case go
    define sd where "sd = local_secdesc_init_from_mode owner grp everyone mode"
    define info where "info = FD_TYPE_NORMAL OR (if oflag AND O_APPEND \<noteq> 0 then FD_FLAG_APPEND else 0)"
    have info: "info AND 255 = info" by (simp add: info_def fd_consts)
    obtain ho w1 where o: "open_handle (to16 env) (buf16 env) (create_file oe) path opts sd w = (ho, w1)" by fastforce
    note k = open_handle_keeps [OF assms(1) o]
    show ?thesis
    proof (cases ho)
      case None
      then show ?thesis using go o k assms(2) by (simp add: mm_open_def sd_def)
    next
      case (Some h)
      obtain q w2 where f: "osf oe h w1 = (q, w2)" by fastforce
      show ?thesis
      proof (cases q)
        case (Inl e)
        then show ?thesis
          using go o k Some f assms(2) open_lawD(3) [OF assms(1) f [unfolded Inl]] open_lawD(5) [OF assms(1), of h w2]
          by (simp add: mm_open_def sd_def)
      next
        case (Inr fd)
        note d = open_lawD(4) [OF assms(1) f [unfolded Inr]]
        obtain tab' where t: "set_fd_info fd info tab = Some tab'" "fd_table_ok tab'"
            "\<And>fd'. fd_ok fd' \<Longrightarrow> get_fd_info tab' fd' = (if fd' = fd then Some (info AND 255) else get_fd_info tab fd')"
          using set_fd_info_ok [OF assms(2), of fd info] d by blast
        have "mm_open env oe path oflag mode (tab, w) = Some (Inr fd, tab', w2)"
          using go o Some f Inr t(1) by (simp add: mm_open_def sd_def wrap_handle_into_fd_def Let_def flip: info_def)
        moreover have "get_fd_info tab' fd = Some info" using t(3) [of fd] d info by simp
        ultimately show ?thesis using t(2) k Some d by (auto simp: info_def)
      qed
    qed
  qed (use assms(2) in \<open>simp_all add: mm_open_def\<close>)
qed

text \<open>A system with 3 descriptors in use.\<close>

definition demo_open :: "(nat, int list \<times> (int \<times> int) list) open_env" where
  "demo_open = \<lparr>ids = Some (1, 2, 3),
     create_file = (\<lambda>p _ _ (hs, fs). if p = [] then (None, hs, fs) else (Some (foldr max hs 0 + 1), (foldr max hs 0 + 1) # hs, fs)),
     osf = (\<lambda>h (hs, fs). if length fs < 10 \<and> map_of fs (int (length fs)) = None then (Inr (int (length fs)), hs, (int (length fs), h) # fs) else (Inl EMFILE, hs, fs)),
     close_hnd = (\<lambda>h (hs, fs). (filter (\<lambda>k. k \<noteq> h) hs, fs))\<rparr>"

lemma demo_open_law: "open_law demo_open (\<lambda>(hs, _). set hs) (\<lambda>(_, fs). map_of fs)"
proof -
  have "foldr max xs 0 + 1 \<notin> set xs" for xs :: "int list" using foldr_max(1) [of "foldr max xs 0 + 1" xs 0] by auto
  then show ?thesis by (auto simp: open_law_def demo_open_def fd_ok_def MAX_FD_def)
qed

definition demo_open_links :: "(int list \<times> (int \<times> int) list) link_env" where
  "demo_open_links = \<lparr>to16 = (\<lambda>s. Some (map of_char s)), to8 = (\<lambda>u. Some (map char_of u)), link_alloc = (\<lambda>_. True),
     create_hard_link = (\<lambda>_ _ w. (False, w)), create_symbolic_link = (\<lambda>_ _ _ w. (False, w)), attributes16 = (\<lambda>_ _. None),
     create_file_meta = (\<lambda>_ _ w. (None, w)), reparse_point = (\<lambda>_ _. None), close_meta = (\<lambda>_ w. w), chdir16 = (\<lambda>_ w. (None, w)),
     current_dir = (\<lambda>_ _. (0, [])), create_dir = (\<lambda>_ _ w. (True, w)), link_error = (\<lambda>_. ERROR_ACCESS_DENIED)\<rparr>"

theorem open_no_leak_witness:
  "\<exists>r tab' w'. mm_open demo_open_links demo_open ''f'' (O_WRONLY OR O_CREAT OR O_APPEND) 0x1A4 (replicate MAX_FD 0, [10, 11, 12], [(2, 12), (1, 11), (0, 10)]) = Some (r, tab', w')
    \<and> fd_table_ok tab'"
proof -
  have "fd_table_ok (replicate MAX_FD 0)" by (simp add: fd_table_ok_def)
  then show ?thesis using open_no_leak [OF demo_open_law] by blast
qed

end
