(* ===== verification/Dlfcn.thy ===== *)
theory Dlfcn
  imports Sockets
begin

text \<open>
  Dynamic loading (\<^verbatim>\<open>src/src/dlfcn.c\<close>, \<^verbatim>\<open>src/src/mmdlfcn.h\<close>) for both platforms. The loader of the system is a parameter; \<open>module_ext\<close> is the
  extension \<open>LT_MODULE_EXT\<close> of the build.
\<close>

section \<open>Operations\<close>

definition MM_LD_LAZY :: int where "MM_LD_LAZY = 1"
definition MM_LD_NOW :: int where "MM_LD_NOW = 2"
definition MM_LD_APPEND_EXT :: int where "MM_LD_APPEND_EXT = 4"
definition RTLD_LAZY :: int where "RTLD_LAZY = 1"
definition RTLD_NOW :: int where "RTLD_NOW = 2"
definition ELIBEXEC :: errcode where "ELIBEXEC = OtherErr 83"

text \<open>The path \<open>None\<close> is the main program. The loader of Windows has no flags.\<close>

record 'w loader =
  on_windows :: bool
  module_ext :: string
  load :: "string option \<Rightarrow> int \<Rightarrow> 'w \<Rightarrow> int option \<times> 'w"
  unload :: "int \<Rightarrow> 'w \<Rightarrow> 'w"
  lookup :: "int \<Rightarrow> string \<Rightarrow> 'w \<Rightarrow> int option"
  path_alloc :: "nat \<Rightarrow> bool"

definition arch_dlopen :: "'w loader \<Rightarrow> string option \<Rightarrow> int \<Rightarrow> 'w \<Rightarrow> (errcode + int) \<times> 'w" where
  "arch_dlopen ld path flags w =
     (let dlflags = (if on_windows ld then 0 else if flags AND MM_LD_NOW \<noteq> 0 then RTLD_NOW else RTLD_LAZY)
      in case load ld path dlflags w of
           (None, w) \<Rightarrow> (Inl (if on_windows ld then EIO else ELIBEXEC), w)
         | (Some h, w) \<Rightarrow> (Inr h, w))"

definition arch_dlclose :: "'w loader \<Rightarrow> int \<Rightarrow> 'w \<Rightarrow> 'w" where
  "arch_dlclose ld h w = unload ld h w"

definition arch_dlsym :: "'w loader \<Rightarrow> int \<Rightarrow> string \<Rightarrow> 'w \<Rightarrow> errcode + int" where
  "arch_dlsym ld h symbol w = (case lookup ld h symbol w of None \<Rightarrow> Inl MM_ENOTFOUND | Some p \<Rightarrow> Inr p)"

definition mm_dl_fileext :: "'w loader \<Rightarrow> string" where
  "mm_dl_fileext ld = module_ext ld"

text \<open>The outer \<open>None\<close> is a write behind the buffer of the path. Without memory the error state is not set by this function: \<open>ENOMEM\<close> is the one of \<open>mm_malloca\<close>.\<close>

definition mm_dlopen :: "'w loader \<Rightarrow> string option \<Rightarrow> int \<Rightarrow> 'w \<Rightarrow> ((errcode + int) \<times> 'w) option" where
  "mm_dlopen ld path flags w =
     (if flags AND MM_LD_NOW \<noteq> 0 \<and> flags AND MM_LD_LAZY \<noteq> 0 then Some (Inl EINVAL, w)
      else case path of
             None \<Rightarrow> Some (arch_dlopen ld None flags w)
           | Some p \<Rightarrow>
               let bufsize = length p + (length (module_ext ld) + 1);
                   path_ext = (if flags AND MM_LD_APPEND_EXT \<noteq> 0 then p @ module_ext ld else p)
               in if \<not> path_alloc ld bufsize then Some (Inl ENOMEM, w)
                  else if length path_ext + 1 > bufsize then None
                  else Some (arch_dlopen ld (Some path_ext) flags w))"

definition mm_dlclose :: "'w loader \<Rightarrow> int option \<Rightarrow> 'w \<Rightarrow> 'w" where
  "mm_dlclose ld handle w = (case handle of None \<Rightarrow> w | Some h \<Rightarrow> arch_dlclose ld h w)"

definition mm_dlsym :: "'w loader \<Rightarrow> int option \<Rightarrow> string option \<Rightarrow> 'w \<Rightarrow> errcode + int" where
  "mm_dlsym ld handle symbol w =
     (case (handle, symbol) of (Some h, Some name) \<Rightarrow> arch_dlsym ld h name w | _ \<Rightarrow> Inl EINVAL)"

section \<open>Loading and symbols\<close>

text \<open>
  What is expected of the loader: the libraries in use by their handle, and the symbols of a library by its file. A file that is loaded twice may have the
  same handle, with a count, so the count of each handle is kept.
\<close>

definition loader_law :: "'w loader \<Rightarrow> (string option \<Rightarrow> string \<rightharpoonup> int) \<Rightarrow> ('w \<Rightarrow> int \<Rightarrow> nat) \<Rightarrow> ('w \<Rightarrow> int \<Rightarrow> string option) \<Rightarrow> bool" where
  "loader_law ld syms count file \<longleftrightarrow>
     (\<forall>path fl w. case load ld path fl w of
        (None, w') \<Rightarrow> count w' = count w \<and> file w' = file w
      | (Some h, w') \<Rightarrow> count w' = (count w)(h := Suc (count w h)) \<and> file w' = (file w)(h := path) \<and> (count w h > 0 \<longrightarrow> file w h = path))
     \<and> (\<forall>h w. count w h > 0 \<longrightarrow> count (unload ld h w) = (count w)(h := count w h - 1) \<and> file (unload ld h w) = file w)
     \<and> (\<forall>h s w. count w h > 0 \<longrightarrow> lookup ld h s w = syms (file w h) s)"

lemma dlopen_buffer:
  assumes "\<And>n. path_alloc ld n"
  shows "mm_dlopen ld path flags w =
    Some (if flags AND MM_LD_NOW \<noteq> 0 \<and> flags AND MM_LD_LAZY \<noteq> 0 then (Inl EINVAL, w)
          else arch_dlopen ld (map_option (\<lambda>p. if flags AND MM_LD_APPEND_EXT \<noteq> 0 then p @ mm_dl_fileext ld else p) path) flags w)"
  using assms by (auto simp: mm_dlopen_def mm_dl_fileext_def Let_def split: option.split)

text \<open>
  A library that was opened gives the symbols of its own file: of the path, with the extension of the platform exactly when that was asked for, or of the main
  program; closing it gives back exactly one use of it. The buffer of the path is never overrun; contradictory flags are refused.
\<close>

theorem dlopen_symbols:
  assumes "loader_law ld syms count file" "\<And>n. path_alloc ld n"
  shows "\<exists>r w'. mm_dlopen ld path flags w = Some (r, w') \<and>
    (if flags AND MM_LD_NOW \<noteq> 0 \<and> flags AND MM_LD_LAZY \<noteq> 0 then r = Inl EINVAL \<and> w' = w
     else case r of
       Inl e \<Rightarrow> count w' = count w \<and> file w' = file w
     | Inr h \<Rightarrow>
         mm_dlsym ld (Some h) (Some name) w' =
           (case syms (map_option (\<lambda>p. if flags AND MM_LD_APPEND_EXT \<noteq> 0 then p @ mm_dl_fileext ld else p) path) name of
              None \<Rightarrow> Inl MM_ENOTFOUND | Some a \<Rightarrow> Inr a)
         \<and> count (mm_dlclose ld (Some h) w') = count w)"
proof (cases "flags AND MM_LD_NOW \<noteq> 0 \<and> flags AND MM_LD_LAZY \<noteq> 0")
  case True
  then show ?thesis using dlopen_buffer [OF assms(2), of path flags w] by simp
next
  case False
  define file_path where "file_path = map_option (\<lambda>p. if flags AND MM_LD_APPEND_EXT \<noteq> 0 then p @ mm_dl_fileext ld else p) path"
  define fl where "fl = (if on_windows ld then 0 else if flags AND MM_LD_NOW \<noteq> 0 then RTLD_NOW else RTLD_LAZY)"
  have o: "mm_dlopen ld path flags w = Some (arch_dlopen ld file_path flags w)"
    using dlopen_buffer [OF assms(2), of path flags w] False by (simp add: file_path_def)
  note l = assms(1) [unfolded loader_law_def]
  obtain ho w1 where ld: "load ld file_path fl w = (ho, w1)" by fastforce
  note k = l [THEN conjunct1, THEN spec [of _ file_path], THEN spec [of _ fl], THEN spec [of _ w], unfolded ld]
  show ?thesis
  proof (cases ho)
    case None
    then show ?thesis using o ld k False by (auto simp: arch_dlopen_def fl_def)
  next
    case (Some h)
    then have a: "arch_dlopen ld file_path flags w = (Inr h, w1)" using ld by (simp add: arch_dlopen_def fl_def)
    have c: "count w1 = (count w)(h := Suc (count w h))" "file w1 h = file_path" using k Some by simp_all
    have "count (unload ld h w1) = count w" using l [THEN conjunct2, THEN conjunct1, THEN spec [of _ h], THEN spec [of _ w1]] c(1) by simp
    moreover have "lookup ld h name w1 = syms file_path name" using l c by simp
    ultimately show ?thesis
      using o a False by (simp add: mm_dlsym_def arch_dlsym_def mm_dlclose_def arch_dlclose_def flip: file_path_def)
  qed
qed

text \<open>A loader with one library of one symbol; its world counts the uses.\<close>

definition demo_loader :: "nat loader" where
  "demo_loader = \<lparr>on_windows = False, module_ext = ''.so'',
     load = (\<lambda>p _ n. if p = Some ''libm.so'' then (Some 5, Suc n) else (None, n)), unload = (\<lambda>h n. if h = 5 then n - 1 else n),
     lookup = (\<lambda>h s n. if s = ''sin'' then Some 77 else None), path_alloc = (\<lambda>_. True)\<rparr>"

lemma demo_loader_law:
  "loader_law demo_loader (\<lambda>_ s. if s = ''sin'' then Some 77 else None) (\<lambda>n h. if h = 5 then n else 0) (\<lambda>n h. if h = 5 then Some ''libm.so'' else None)"
  by (auto simp: loader_law_def demo_loader_def fun_eq_iff)

theorem dlopen_symbols_witness:
  "mm_dlopen demo_loader (Some ''libm'') (MM_LD_NOW OR MM_LD_APPEND_EXT) 0 = Some (Inr 5, 1) \<and>
   mm_dlsym demo_loader (Some 5) (Some ''sin'') 1 = Inr 77"
proof -
  have f: "(MM_LD_NOW OR MM_LD_APPEND_EXT) AND MM_LD_LAZY = 0" by (simp add: MM_LD_NOW_def MM_LD_APPEND_EXT_def MM_LD_LAZY_def)
  have r: "mm_dlopen demo_loader (Some ''libm'') (MM_LD_NOW OR MM_LD_APPEND_EXT) 0 = Some (Inr 5, 1)" by code_simp
  have "path_alloc demo_loader n" for n by (simp add: demo_loader_def)
  from dlopen_symbols [OF demo_loader_law this, of "Some ''libm''" "MM_LD_NOW OR MM_LD_APPEND_EXT" 0 "''sin''"] r f show ?thesis by simp
qed

end
