(* ===== verification/Spec2Isabelle.thy ===== *)
theory Spec2Isabelle
  imports Timespec Pshared_Exclusion Base_Env Arg_Parse Pshared_Cond Thread_Win32 Win_Cmdline Win_Env File_Remove Err_Log
    Profile Ipc_Posix Ipc_Win32 Sockets Clock_Win32 Alloc Win_Trash Win_Dir Thread_Once
    Win_Utils Shm_Win32 Win_Link Dlfcn
begin

text \<open>
  \<^bold>\<open>A verification library for mmlib\<close>

  mmlib is a portability layer written in C: it offers the services of a POSIX system (time, threads and locks,
  files, processes, sockets, environment, command line, errors, log, profiling) on POSIX systems and on Windows. Most functions exist
  twice, in a file \<^verbatim>\<open>*-posix.c\<close> and a file \<^verbatim>\<open>*-win32.c\<close> under \<^verbatim>\<open>src/src\<close>. This library translates the parts with
  logic of their own into definitions of HOL that compute, and proves what they promise. What the code does, mistakes
  included, is what the definitions do; where it differs from what is documented a lemma says so.

  \<^bold>\<open>Parts of the program and their theories\<close>

  \<^item> \<^bold>\<open>Shared vocabulary\<close>: \<open>Prelude\<close> (C integers and division, error codes, strings, decimal numbers,
    collections of facts) and \<open>C_Double\<close> (rounding, division and printing of \<open>double\<close> values as integers times powers of two).
  \<^item> \<^bold>\<open>Time\<close>: \<open>Timespec\<close>: sums and differences of \<^verbatim>\<open>mmtime.h\<close>, relative sleeps of \<^verbatim>\<open>time.c\<close>. Adding and measuring
    are inverse in the three units, proved once in the locale \<open>time_adder\<close>. \<open>Clock_Win32\<close>: the clocks of
    \<^verbatim>\<open>clock-win32.c\<close> on the counters of the processor and of the system, with their rounding, and the absolute sleep of \<^verbatim>\<open>time-win32.c\<close>.
  \<^item> \<^bold>\<open>Memory\<close>: \<open>Alloc\<close>: aligned allocation (\<^verbatim>\<open>alloc.c\<close>) and the buffers of \<open>mm_malloca\<close> (\<^verbatim>\<open>mmlib.h\<close>), whose address
    tells whether they are on the stack or on the heap.
  \<^item> \<^bold>\<open>Process shared locks on Windows\<close>: a mutex or a condition variable in shared memory is a 64 bit value that the
    threads change by atomic operations (\<^verbatim>\<open>thread-win32.c\<close>, \<^verbatim>\<open>mutex-lockval.h\<close>, \<^verbatim>\<open>atomic-win32.h\<close>); a thread that has to wait
    sends a request through a pipe (\<^verbatim>\<open>pshared-lock.c\<close>, \<^verbatim>\<open>lock-referee-proto.h\<close>) to a server process, the lock referee
    (\<^verbatim>\<open>lock-referee-server.c\<close>), which queues it and answers when the lock is to be taken, and which has the lock values
    of dead threads repaired. \<open>Mutex_Lockval\<close> has the fields of the value, \<open>Pshared_Mutex\<close> the functions cut into
    one step per shared access, \<open>Pshared_Machine\<close> the interleavings of any number of threads with their invariant,
    \<open>Pshared_Exclusion\<close> mutual exclusion, the refinement of the abstract mutex (locale \<open>mutex_spec\<close>) and the exactness of the waiter
    count, for at most 255 threads, what the count can hold, together with the run of 257 threads that breaks it. \<open>Lockref_Links\<close>
    (linked queues on a heap of nodes, locale \<open>waiter_queue\<close>), \<open>Lockref_Array\<close> (sorted array with binary search),
    \<open>Lockref_Server\<close> (locks, clients, timeouts, requests), \<open>Lockref_Proofs\<close> and \<open>Lockref_Sem\<close> treat the server: a lock of it is a counting
    semaphore that serves in the order of arrival (locale \<open>fifo_semaphore\<close>). \<open>Pshared_Client\<close> is the client with the
    repair of a mutex, \<open>Pshared_Cond\<close> the condition variables on top of client and server.
  \<^item> \<^bold>\<open>Threads on Windows\<close>: \<open>Thread_Win32\<close>: life of a thread structure between creation, end, join and
    detach, slim locks, timed waits. \<open>Thread_Once\<close>: one-time initialisation by any number of threads, with routines that call it in
    turn: no routine runs twice and every schedule ends; a call may return before the routine has.
  \<^item> \<^bold>\<open>Command line\<close> (\<^verbatim>\<open>argparse.c\<close>): \<open>Arg_Opt\<close> (options, lookup, validation), \<open>Arg_Help\<close> (help text), \<open>Arg_Conv\<close>
    (conversion of values), \<open>Arg_Parse\<close> (parsing and completion). Parsing ends for every command line and only stores values of
    the type of the option.
  \<^item> \<^bold>\<open>Paths and environment\<close>: \<open>Paths\<close> (\<open>mm_basename\<close>, \<open>mm_dirname\<close>), \<open>Base_Env\<close> (\<^verbatim>\<open>utils.c\<close>) and
    \<open>Win_Env\<close> (\<^verbatim>\<open>env-win32.c\<close>): the cache of UTF-8 strings is transparent.
  \<^item> \<^bold>\<open>Files\<close>: \<open>Win_Fd\<close> (table of descriptors, text mode), \<open>Win_Attr\<close> (open flags, permissions, times, status)
    for Windows; \<open>File_Copy\<close>, \<open>File_Tree\<close>, \<open>File_Remove\<close> for copies, directories with their parents and the removal of trees
    (\<^verbatim>\<open>file.c\<close>, \<^verbatim>\<open>file-posix.c\<close>, \<^verbatim>\<open>file-win32.c\<close>). On Windows a file that is open can be unlinked or replaced because it is moved
    to the trash of its volume first: \<open>Volume_Win32\<close> (\<^verbatim>\<open>volume-win32.c\<close>) has the cache of volumes and the names in the
    trash, \<open>Win_Trash\<close> \<open>mm_unlink\<close> and \<open>mm_rename\<close>, \<open>Win_Dir\<close> the directory streams and the recursive removal. \<open>Win_Link\<close>: links,
    the current directory and \<open>mm_open\<close>.
  \<^item> \<^bold>\<open>Errors and log\<close>: \<open>Err_Log\<close> (\<^verbatim>\<open>error.c\<close>, \<^verbatim>\<open>log.c\<close>); \<open>Win_Utils\<close> (\<^verbatim>\<open>utils-win32.c\<close>) has the messages of Windows errors,
    file identifiers, security descriptors in a buffer that grows, the identity of the caller and the terminals of cygwin.
  \<^item> \<^bold>\<open>Tables\<close>: \<open>Registry\<close>: the children of a process on Windows (\<^verbatim>\<open>process-win32.c\<close>) and the memory mappings on POSIX
    (\<^verbatim>\<open>shm-posix.c\<close>) are two implementations of one interface, the locale \<open>registry\<close>; a table without double keys is a finite map. \<open>Shm_Win32\<close> (\<^verbatim>\<open>shm-win32.c\<close>): mappings and shared memory objects on Windows.
  \<^item> \<^bold>\<open>Processes\<close>: \<open>Win_Cmdline\<close> escapes arguments, \<open>Startup_Argv\<close> (\<^verbatim>\<open>startup-win32.c\<close>) is how the child reads them back,
    \<open>Proc_Win32\<close> (\<^verbatim>\<open>process-win32.c\<close>) hands the descriptors of the parent over in the buffer of the C runtime, searches
    the program, spawns and waits; \<open>Proc_Posix\<close> (\<^verbatim>\<open>process-posix.c\<close>) remaps descriptors after a fork and sends the error state of a
    child that could not run its program back through a pipe, as the bytes of \<open>Err_Log\<close>.
  \<^item> \<^bold>\<open>Communication\<close>: \<open>Ipc_Win32\<close> (\<^verbatim>\<open>local-ipc-win32.c\<close>): messages with descriptors over named pipes, on the
    table of descriptors of \<open>Win_Fd\<close>; \<open>Ipc_Posix\<close> (\<^verbatim>\<open>local-ipc-posix.c\<close>): the same on sockets with control messages; \<open>Sockets\<close> (\<^verbatim>\<open>socket.c\<close>, parts of \<^verbatim>\<open>socket-posix.c\<close> and \<^verbatim>\<open>socket-win32.c\<close>): addresses,
    client sockets, timeouts, polling, series of messages.
  \<^item> \<^bold>\<open>Dynamic loading\<close>: \<open>Dlfcn\<close> (\<^verbatim>\<open>dlfcn.c\<close>): libraries and their symbols.
  \<^item> \<^bold>\<open>Profiling\<close>: \<open>Profile\<close> (\<^verbatim>\<open>profile.c\<close>): measure points, statistics, printed table.

  \<^bold>\<open>How the code is modelled\<close>

  A structure is a record with the names of its fields, an enumeration a datatype or its numbers, a static variable a part of the
  state that the functions take and return. Integers of 64 bits that are used as bit fields are words; other integers are of
  type \<open>int\<close> or \<open>nat\<close> with the wrap-around or the range written out where it matters. Buffers are lists of
  characters or bytes with their sizes; an access out of the buffer, a call of \<open>mm_crash\<close> or \<open>mm_check\<close> that fails is the result
  \<open>None\<close>. Errors are values: \<open>Inl\<close> with the error code, or the state of \<open>Err_Log\<close>. The system calls,
  the C runtime of Windows and the allocator are arguments of the definitions, most often fields of a record
  \<open>env\<close> with a world as state; what is assumed of them is a predicate whose name ends in \<open>_law\<close> or \<open>_ok\<close>, and every theorem
  with such a hypothesis is applied to a concrete system in its witness.

  \<^bold>\<open>Bounds and fuel\<close>

  Loops over the input are structural recursions or have a measure. The removal of trees is bounded by the depth that
  \<open>RECURSION_MAX\<close> of the code allows. Loops that wait for the system (connections to a busy pipe, timed waits, partial reads and
  writes) consume a list of answers of the system or are partial functions with values in \<open>option\<close>, and their theorems state that
  they return. Limits that come from the code: 255 waiters of a mutex, an origin of at most 227 characters in a log line,
  fewer than 256 descriptors in a message, 1024 bytes of an error state in a pipe, the table of 2048 descriptors, 16 measure points.
  Limits of theorems: the statistics read the clock 6000 times during a reset, as the code does, and
  the sum of differences stays below \<open>2 ^ 53\<close> nanoseconds, up to where \<open>double\<close> is exact.

  \<^bold>\<open>Not modelled\<close>

  Functions that pass their arguments to one system call and translate its error: most of \<^verbatim>\<open>file-posix.c\<close>, \<^verbatim>\<open>thread-posix.c\<close>,
  \<^verbatim>\<open>time-posix.c\<close>, the send and receive functions of the sockets. Sequences of calls of the Windows API whose
  meaning is in that API: the creation of the pipe of the lock
  referee, the patching of the C runtime at start, conversions between UTF-8 and UTF-16. Tests, documentation, build files and translations.
\<close>

end
